(* ===== verification/Prelude.thy ===== *)
theory Prelude
  imports Main "HOL-Library.Word" "HOL-Library.State_Monad"
begin

text \<open>
  Shared vocabulary of the development: the machine types of the C++ code as type synonyms,
  the collections of simplification rules the component theories add to, and generic facts
  about words and lists that more than one component needs.
\<close>

unbundle bit_operations_syntax

type_synonym byte = "8 word"
type_synonym uint8 = "8 word"
type_synonym uint16 = "16 word"
type_synonym uint32 = "32 word"
type_synonym uint64 = "64 word"

text \<open>
  \<open>data_chunk\<close> is \<^verbatim>\<open>std::vector<uint8_t>\<close>; the fixed-size byte arrays
  (\<^verbatim>\<open>hash_digest\<close>, \<^verbatim>\<open>short_hash\<close>, \<^verbatim>\<open>mini_hash\<close>) are byte lists whose length is part of the
  well-formedness predicates of the types that hold them.
\<close>

type_synonym data_chunk = "byte list"
type_synonym hash_digest = "byte list"

named_theorems wire_simps \<open>running a reader over bytes a writer produced\<close>
named_theorems length_simps \<open>serialized lengths\<close>

abbreviation (input) max_uint8 :: nat where "max_uint8 \<equiv> 255"
abbreviation (input) max_uint16 :: nat where "max_uint16 \<equiv> 65535"
abbreviation (input) max_uint32 :: nat where "max_uint32 \<equiv> 4294967295"

subsection \<open>Words\<close>

lemma take_bit_extend_byte:
  fixes v :: "'a::len word"
  shows "take_bit n v OR push_bit n (ucast (ucast (drop_bit n v) :: byte)) = take_bit (n + 8) v"
  by (rule bit_word_eqI) (auto simp: bit_simps)

lemma take_bit_full_word: "LENGTH('a) \<le> n \<Longrightarrow> take_bit n (v :: 'a::len word) = v"
  by (rule bit_word_eqI) (auto simp: bit_simps)

lemma unat_ucast_mod:
  "unat (ucast (w :: 'a::len word) :: 'b::len word) = unat w mod 2 ^ LENGTH('b)"
  by (simp add: unsigned_ucast_eq take_bit_eq_mod)

lemma ucast_ucast_id:
  "unat (w :: 'a::len word) < 2 ^ LENGTH('b) \<Longrightarrow> ucast (ucast w :: 'b::len word) = w"
  by (simp add: word_unat_eq_iff unat_ucast_mod)

lemma unat_byte_less: "unat (b :: byte) < 256"
  using unsigned_less [where 'a = nat, of b] by simp

lemma unat_drop_bit: "unat (drop_bit n (w :: 'a::len word)) = unat w div 2 ^ n"
proof -
  have "unat (drop_bit n w) = drop_bit n (take_bit LENGTH('a) (unat w))"
    by (rule unsigned_drop_bit_eq)
  also have "take_bit LENGTH('a) (unat w) = unat w"
    by (simp add: take_bit_nat_eq_self)
  finally show ?thesis by (simp only: drop_bit_eq_div)
qed

lemma drop_bit_decreases:
  assumes "0 < n" and "w \<noteq> 0"
  shows "unat (drop_bit n (w :: 'a::len word)) < unat w"
proof -
  have "1 < (2::nat) ^ n" and "0 < unat w"
    using assms by (simp_all add: word_unat_eq_iff one_less_power del: One_nat_def)
  then show ?thesis by (simp only: unat_drop_bit div_less_dividend)
qed

lemma unat_push_bit: "unat (push_bit n w) = unat w * 2 ^ n mod 2 ^ LENGTH('a)" for w :: "'a::len word"
  by (simp only: unsigned_push_bit_eq) (simp add: take_bit_eq_mod push_bit_eq_mult)

lemma or_disjoint_add:
  fixes a b :: "'a::len word"
  assumes "unat b < 2 ^ n" and "n < LENGTH('a)"
  shows "push_bit n a OR b = push_bit n a + b"
proof (rule disjunctive_add [symmetric])
  fix k
  have "take_bit n b = b"
    by (simp only: word_unat_eq_iff unsigned_take_bit_eq) (simp add: take_bit_eq_mod assms(1))
  then have "bit b k \<Longrightarrow> k < n" by (metis bit_take_bit_iff)
  then show "\<not> bit (push_bit n a) k \<or> \<not> bit b k" by (auto simp: bit_simps)
qed

lemma sint_bounds_32: "- (2 ^ 31) \<le> sint v \<and> sint v < 2 ^ 31" for v :: uint32
  using sint_ge [of v] sint_lt [of v] by simp

lemma unat_scast_32: "int (unat (scast v :: uint64)) = (if sint v < 0 then sint v + 2 ^ 64 else sint v)"
  for v :: uint32
proof -
  have u: "int (unat (scast v :: uint64)) = sint v mod 2 ^ 64"
    by (simp only: scast_eq unsigned_of_int take_bit_eq_mod uint_nat [symmetric]) simp
  have "(sint v + 2 ^ 64) mod 2 ^ 64 = sint v + 2 ^ 64" if "sint v < 0"
    using sint_bounds_32 [of v] that by (intro mod_pos_pos_trivial) auto
  moreover have "sint v mod 2 ^ 64 = sint v" if "\<not> sint v < 0"
    using sint_bounds_32 [of v] that by (intro mod_pos_pos_trivial) auto
  ultimately show ?thesis using u by (auto simp: mod_add_self2)
qed

subsection \<open>Saturating arithmetic\<close>

text \<open>\<^verbatim>\<open>ceiling_add\<close>, \<^verbatim>\<open>floor_subtract\<close> and \<^verbatim>\<open>safe_unsigned<uint32_t>\<close> of \<^verbatim>\<open>math/limits.hpp\<close>; \<open>None\<close> is
  the \<^verbatim>\<open>std::range_error\<close>.\<close>

definition ceiling_add :: "'a::len word \<Rightarrow> 'a word \<Rightarrow> 'a word" where
  "ceiling_add left right = (let ceiling = - 1 in if left > ceiling - right then ceiling else left + right)"

definition floor_subtract :: "'a::len word \<Rightarrow> 'a word \<Rightarrow> 'a word" where
  "floor_subtract left right = (if right \<ge> left then 0 else left - right)"

definition safe_unsigned32 :: "uint64 \<Rightarrow> uint32 option" where
  "safe_unsigned32 v = (if unat v > max_uint32 then None else Some (ucast v))"

lemma unat_ceiling_add:
  "unat (ceiling_add a b) = min (unat a + unat b) (2 ^ LENGTH('a) - 1)" for a b :: "'a::len word"
proof -
  have top: "unat (- 1 :: 'a word) = 2 ^ LENGTH('a) - 1" by (simp add: unsigned_minus_1_eq_mask mask_eq_exp_minus_1)
  have "b \<le> - 1" by simp
  then have diff: "unat (- 1 - b) = 2 ^ LENGTH('a) - 1 - unat b" using top by (metis unat_sub)
  have bound: "unat a < 2 ^ LENGTH('a)" "unat b < 2 ^ LENGTH('a)" by (rule unsigned_less)+
  show ?thesis
  proof (cases "- 1 - b < a")
    case True
    then show ?thesis using top diff bound by (simp add: ceiling_add_def word_less_nat_alt min_def)
  next
    case False
    then have "unat a \<le> 2 ^ LENGTH('a) - 1 - unat b" by (simp only: word_less_nat_alt diff not_less)
    then have "unat a + unat b < 2 ^ LENGTH('a)" using bound by linarith
    then have "unat (a + b) = unat a + unat b" by (simp only: unat_word_ariths mod_less)
    with False show ?thesis
      using \<open>unat a + unat b < 2 ^ LENGTH('a)\<close> by (simp add: ceiling_add_def)
  qed
qed

lemma unat_floor_subtract: "unat (floor_subtract a b) = unat a - unat b"
  by (auto simp: floor_subtract_def word_le_nat_alt unat_sub)

subsection \<open>Little-endian values\<close>

text \<open>The number a little-endian byte sequence denotes, of any length.\<close>

fun le_val :: "data_chunk \<Rightarrow> nat" where
  "le_val [] = 0"
| "le_val (b # bs) = unat b + 256 * le_val bs"

lemma le_val_append: "le_val (xs @ ys) = le_val xs + 256 ^ length xs * le_val ys"
  by (induction xs) (auto simp: algebra_simps)

lemma le_val_bound: "le_val bs < 256 ^ length bs"
proof (induction bs)
  case (Cons b bs)
  with unat_byte_less [of b] show ?case by simp
qed simp

subsection \<open>Lists\<close>

lemma length_concat_map_const:
  "(\<And>x. x \<in> set xs \<Longrightarrow> length (f x) = k) \<Longrightarrow> length (concat (map f xs)) = k * length xs"
  by (induction xs) auto

end
