(* ===== verification/Wire.thy ===== *)
theory Wire
  imports Prelude
begin

text \<open>
  The byte streams of \<^verbatim>\<open>src/utility/istream_reader.cpp\<close> and \<^verbatim>\<open>ostream_writer.cpp\<close>, with the
  endian conversions of \<^verbatim>\<open>impl/utility/endian.ipp\<close>.  A reader is the unread part of a
  \<^verbatim>\<open>std::istream\<close> with its \<^verbatim>\<open>eofbit\<close> and \<^verbatim>\<open>failbit\<close>; a read is a step of the state monad over it.
  A writer appends to an unbounded sink, so a write is the list of bytes it appends.
  The locale \<open>codec\<close> is the contract between a writer and a reader of one type; every
  serialized type of the later theories interprets it.
\<close>

record reader =
  stream :: "byte list"
  eofbit :: bool
  failbit :: bool

type_synonym 'a rd = "(reader, 'a) state"

abbreviation ready :: "byte list \<Rightarrow> reader" where
  "ready bs \<equiv> \<lparr>stream = bs, eofbit = False, failbit = False\<rparr>"

subsection \<open>The standard stream\<close>

text \<open>
  \<open>good\<close> is \<^verbatim>\<open>std::ios::good\<close>, \<open>valid_source\<close> is \<^verbatim>\<open>operator bool\<close> (no \<open>failbit\<close>; a set \<open>eofbit\<close> alone
  still tests true).  An unformatted input function on a stream that is not good sets
  \<open>failbit\<close> and reads nothing; \<^verbatim>\<open>get\<close> then yields \<^verbatim>\<open>eof()\<close>, which the code narrows to 255.
\<close>

definition good :: "reader \<Rightarrow> bool" where
  "good r \<longleftrightarrow> \<not> eofbit r \<and> \<not> failbit r"

definition valid_source :: "reader \<Rightarrow> bool" where
  "valid_source r \<longleftrightarrow> \<not> failbit r"

definition source_valid :: "bool rd" where
  "source_valid = State (\<lambda>r. (valid_source r, r))"

definition invalidate :: "unit rd" where
  "invalidate = State (\<lambda>r. ((), r\<lparr>failbit := True\<rparr>))"

definition stream_get :: "byte rd" where
  "stream_get = State (\<lambda>r.
     if good r then
       (case stream r of
          [] \<Rightarrow> (255, r\<lparr>eofbit := True, failbit := True\<rparr>)
        | b # bs \<Rightarrow> (b, r\<lparr>stream := bs\<rparr>))
     else (255, r\<lparr>failbit := True\<rparr>))"

definition stream_peek :: "byte option rd" where
  "stream_peek = State (\<lambda>r.
     if good r then
       (case stream r of
          [] \<Rightarrow> (None, r\<lparr>eofbit := True\<rparr>)
        | b # bs \<Rightarrow> (Some b, r))
     else (None, r\<lparr>failbit := True\<rparr>))"

text \<open>
  \<^verbatim>\<open>stream.read(buffer, n)\<close> into a zero-filled buffer of size \<open>n\<close>: a short read keeps what was
  there and sets both bits.
\<close>

definition stream_read :: "nat \<Rightarrow> data_chunk rd" where
  "stream_read n = State (\<lambda>r.
     if good r then
       (if n \<le> length (stream r) then (take n (stream r), r\<lparr>stream := drop n (stream r)\<rparr>)
        else (stream r @ replicate (n - length (stream r)) 0,
              r\<lparr>stream := [], eofbit := True, failbit := True\<rparr>))
     else (replicate n 0, r\<lparr>failbit := True\<rparr>))"

subsection \<open>Endian conversions\<close>

fun to_little_endian_loop :: "nat \<Rightarrow> 'a::len word \<Rightarrow> data_chunk" where
  "to_little_endian_loop 0 v = []"
| "to_little_endian_loop (Suc n) v = ucast v # to_little_endian_loop n (drop_bit 8 v)"

definition to_little_endian :: "'a::len word \<Rightarrow> data_chunk" where
  "to_little_endian v = to_little_endian_loop (LENGTH('a) div 8) v"

definition to_big_endian :: "'a::len word \<Rightarrow> data_chunk" where
  "to_big_endian v = rev (to_little_endian_loop (LENGTH('a) div 8) v)"

text \<open>
  The stream loops: the first argument counts the iterations left, \<open>i\<close> is the byte position.
  The guard \<^verbatim>\<open>&& stream\<close> stops both loops at the first failed read.
\<close>

fun from_little_endian_stream :: "nat \<Rightarrow> nat \<Rightarrow> 'a::len word \<Rightarrow> 'a word rd" where
  "from_little_endian_stream 0 i out = State_Monad.return out"
| "from_little_endian_stream (Suc n) i out = do {
     ok \<leftarrow> source_valid;
     if ok then do {
       value \<leftarrow> stream_read 1;
       from_little_endian_stream n (Suc i) (out OR push_bit (8 * i) (ucast (hd value)))
     } else State_Monad.return out
   }"

fun from_big_endian_stream :: "nat \<Rightarrow> 'a::len word \<Rightarrow> 'a word rd" where
  "from_big_endian_stream 0 out = State_Monad.return out"
| "from_big_endian_stream (Suc i) out = do {
     ok \<leftarrow> source_valid;
     if ok then do {
       value \<leftarrow> stream_read 1;
       from_big_endian_stream i (out OR push_bit (8 * i) (ucast (hd value)))
     } else State_Monad.return out
   }"

subsection \<open>istream\_reader\<close>

definition empty_source :: "bool rd" where
  "empty_source = map_state (\<lambda>b. b = None) stream_peek"

definition is_exhausted :: "bool rd" where
  "is_exhausted = do {
     ok \<leftarrow> source_valid;
     if \<not> ok then State_Monad.return True else empty_source
   }"

definition peek_byte :: "byte rd" where
  "peek_byte = map_state (\<lambda>b. case b of None \<Rightarrow> 255 | Some x \<Rightarrow> x) stream_peek"

definition read_byte :: "byte rd" where
  "read_byte = stream_get"

definition read_bytes :: "nat \<Rightarrow> data_chunk rd" where
  "read_bytes n = (if 0 < n then stream_read n else State_Monad.return [])"

definition read_forward :: "nat \<Rightarrow> data_chunk rd" where
  "read_forward n = stream_read n"

definition read_hash :: "hash_digest rd" where
  "read_hash = read_forward 32"

definition read_short_hash :: "hash_digest rd" where
  "read_short_hash = read_forward 20"

definition read_mini_hash :: "hash_digest rd" where
  "read_mini_hash = read_forward 6"

definition skip :: "nat \<Rightarrow> unit rd" where
  "skip n = do { _ \<leftarrow> read_bytes n; State_Monad.return () }"

definition read_2_bytes_little_endian :: "uint16 rd" where
  "read_2_bytes_little_endian = from_little_endian_stream 2 0 0"

definition read_4_bytes_little_endian :: "uint32 rd" where
  "read_4_bytes_little_endian = from_little_endian_stream 4 0 0"

definition read_8_bytes_little_endian :: "uint64 rd" where
  "read_8_bytes_little_endian = from_little_endian_stream 8 0 0"

definition read_2_bytes_big_endian :: "uint16 rd" where
  "read_2_bytes_big_endian = from_big_endian_stream 2 0"

definition read_4_bytes_big_endian :: "uint32 rd" where
  "read_4_bytes_big_endian = from_big_endian_stream 4 0"

definition read_8_bytes_big_endian :: "uint64 rd" where
  "read_8_bytes_big_endian = from_big_endian_stream 8 0"

abbreviation varint_two_bytes :: byte where "varint_two_bytes \<equiv> 0xfd"
abbreviation varint_four_bytes :: byte where "varint_four_bytes \<equiv> 0xfe"
abbreviation varint_eight_bytes :: byte where "varint_eight_bytes \<equiv> 0xff"

definition read_variable_little_endian :: "uint64 rd" where
  "read_variable_little_endian = do {
     v \<leftarrow> read_byte;
     if v = varint_eight_bytes then read_8_bytes_little_endian
     else if v = varint_four_bytes then map_state ucast read_4_bytes_little_endian
     else if v = varint_two_bytes then map_state ucast read_2_bytes_little_endian
     else State_Monad.return (ucast v)
   }"

definition read_variable_big_endian :: "uint64 rd" where
  "read_variable_big_endian = do {
     v \<leftarrow> read_byte;
     if v = varint_eight_bytes then read_8_bytes_big_endian
     else if v = varint_four_bytes then map_state ucast read_4_bytes_big_endian
     else if v = varint_two_bytes then map_state ucast read_2_bytes_big_endian
     else State_Monad.return (ucast v)
   }"

text \<open>\<^verbatim>\<open>size_t\<close> has 64 bits, so every varint is a size; sizes are natural numbers in the model.\<close>

definition max_size_t :: nat where
  "max_size_t = 2 ^ 64 - 1"

definition read_size_little_endian :: "nat rd" where
  "read_size_little_endian = do {
     size \<leftarrow> read_variable_little_endian;
     if unat size \<le> max_size_t then State_Monad.return (unat size)
     else do { invalidate; State_Monad.return 0 }
   }"

definition read_size_big_endian :: "nat rd" where
  "read_size_big_endian = do {
     size \<leftarrow> read_variable_big_endian;
     if unat size \<le> max_size_t then State_Monad.return (unat size)
     else do { invalidate; State_Monad.return 0 }
   }"

definition read_error_code :: "uint32 rd" where
  "read_error_code = from_little_endian_stream 4 0 0"

text \<open>
  \<^verbatim>\<open>read_string(size)\<close>: read up to \<open>size\<close> bytes while the stream is not empty, keeping those
  before the first zero.  Strings are byte lists here: the code moves \<^verbatim>\<open>char\<close>s unchanged.
\<close>

fun read_string_loop :: "nat \<Rightarrow> bool \<Rightarrow> data_chunk \<Rightarrow> data_chunk rd" where
  "read_string_loop 0 terminated out = State_Monad.return out"
| "read_string_loop (Suc n) terminated out = do {
     e \<leftarrow> empty_source;
     if e then State_Monad.return out
     else do {
       c \<leftarrow> read_byte;
       (let t = (terminated \<or> c = 0)
        in read_string_loop n t (if t then out else out @ [c]))
     }
   }"

definition read_string_size :: "nat \<Rightarrow> data_chunk rd" where
  "read_string_size n = read_string_loop n False []"

definition read_string :: "data_chunk rd" where
  "read_string = do { size \<leftarrow> read_size_little_endian; read_string_size size }"

text \<open>
  \<^verbatim>\<open>read_bytes()\<close> reads to the end of the stream; the unread part bounds the iterations.
\<close>

fun read_all_loop :: "nat \<Rightarrow> data_chunk \<Rightarrow> data_chunk rd" where
  "read_all_loop 0 out = do { _ \<leftarrow> is_exhausted; State_Monad.return out }"
| "read_all_loop (Suc n) out = do {
     e \<leftarrow> is_exhausted;
     if e then State_Monad.return out
     else do { c \<leftarrow> read_byte; read_all_loop n (out @ [c]) }
   }"

definition read_all_bytes :: "data_chunk rd" where
  "read_all_bytes = do {
     r \<leftarrow> State_Monad.get;
     read_all_loop (length (stream r)) []
   }"

subsection \<open>ostream\_writer\<close>

definition write_byte :: "byte \<Rightarrow> data_chunk" where
  "write_byte b = [b]"

definition write_bytes :: "data_chunk \<Rightarrow> data_chunk" where
  "write_bytes d = d"

definition write_hash :: "hash_digest \<Rightarrow> data_chunk" where
  "write_hash h = h"

definition write_2_bytes_little_endian :: "uint16 \<Rightarrow> data_chunk" where
  "write_2_bytes_little_endian v = to_little_endian v"

definition write_4_bytes_little_endian :: "uint32 \<Rightarrow> data_chunk" where
  "write_4_bytes_little_endian v = to_little_endian v"

definition write_8_bytes_little_endian :: "uint64 \<Rightarrow> data_chunk" where
  "write_8_bytes_little_endian v = to_little_endian v"

definition write_2_bytes_big_endian :: "uint16 \<Rightarrow> data_chunk" where
  "write_2_bytes_big_endian v = to_big_endian v"

definition write_4_bytes_big_endian :: "uint32 \<Rightarrow> data_chunk" where
  "write_4_bytes_big_endian v = to_big_endian v"

definition write_8_bytes_big_endian :: "uint64 \<Rightarrow> data_chunk" where
  "write_8_bytes_big_endian v = to_big_endian v"

definition write_variable_little_endian :: "uint64 \<Rightarrow> data_chunk" where
  "write_variable_little_endian value =
     (if value < 0xfd then write_byte (ucast value)
      else if unat value \<le> max_uint16
        then write_byte varint_two_bytes @ write_2_bytes_little_endian (ucast value)
      else if unat value \<le> max_uint32
        then write_byte varint_four_bytes @ write_4_bytes_little_endian (ucast value)
      else write_byte varint_eight_bytes @ write_8_bytes_little_endian value)"

definition write_variable_big_endian :: "uint64 \<Rightarrow> data_chunk" where
  "write_variable_big_endian value =
     (if value < 0xfd then write_byte (ucast value)
      else if unat value \<le> max_uint16
        then write_byte varint_two_bytes @ write_2_bytes_big_endian (ucast value)
      else if unat value \<le> max_uint32
        then write_byte varint_four_bytes @ write_4_bytes_big_endian (ucast value)
      else write_byte varint_eight_bytes @ write_8_bytes_big_endian value)"

definition write_size_little_endian :: "nat \<Rightarrow> data_chunk" where
  "write_size_little_endian n = write_variable_little_endian (of_nat n)"

definition write_size_big_endian :: "nat \<Rightarrow> data_chunk" where
  "write_size_big_endian n = write_variable_big_endian (of_nat n)"

definition write_error_code :: "uint32 \<Rightarrow> data_chunk" where
  "write_error_code ec = write_4_bytes_little_endian ec"

definition write_string :: "data_chunk \<Rightarrow> data_chunk" where
  "write_string s = write_variable_little_endian (of_nat (length s)) @ s"

definition write_string_size :: "data_chunk \<Rightarrow> nat \<Rightarrow> data_chunk" where
  "write_string_size s n = (let k = min n (length s) in take k s @ replicate (n - k) 0)"

text \<open>\<^verbatim>\<open>message::variable_uint_size\<close>: the serialized size of a varint.\<close>

definition variable_uint_size :: "uint64 \<Rightarrow> nat" where
  "variable_uint_size value =
     (if value < 0xfd then 1
      else if value \<le> 0xffff then 3
      else if value \<le> 0xffffffff then 5
      else 9)"

subsection \<open>Reading what was written\<close>

lemma run_source_valid [wire_simps]: "run_state source_valid r = (\<not> failbit r, r)"
  by (simp add: source_valid_def valid_source_def)

lemma run_stream_read_ready [wire_simps]:
  "length xs = n \<Longrightarrow> run_state (stream_read n) (ready (xs @ rest)) = (xs, ready rest)"
  by (simp add: stream_read_def good_def)

lemma run_read_byte_ready [wire_simps]:
  "run_state read_byte (ready (b # rest)) = (b, ready rest)"
  by (simp add: read_byte_def stream_get_def good_def)

lemma run_read_bytes_ready [wire_simps]:
  "length xs = n \<Longrightarrow> run_state (read_bytes n) (ready (xs @ rest)) = (xs, ready rest)"
  by (auto simp: read_bytes_def run_stream_read_ready)

lemma run_read_forward_ready [wire_simps]:
  "length xs = n \<Longrightarrow> run_state (read_forward n) (ready (xs @ rest)) = (xs, ready rest)"
  by (simp add: read_forward_def run_stream_read_ready)

lemma length_to_little_endian_loop [simp]: "length (to_little_endian_loop n v) = n"
  by (induction n arbitrary: v) auto

lemma to_little_endian_loop_snoc:
  "to_little_endian_loop (Suc n) v = to_little_endian_loop n v @ [ucast (drop_bit (8 * n) v)]"
proof (induction n arbitrary: v)
  case 0
  then show ?case by simp
next
  case (Suc n)
  have "to_little_endian_loop (Suc (Suc n)) v = ucast v # to_little_endian_loop (Suc n) (drop_bit 8 v)"
    by simp
  also have "\<dots> = ucast v # to_little_endian_loop n (drop_bit 8 v)
      @ [ucast (drop_bit (8 * n) (drop_bit 8 v))]"
    by (simp only: Suc)
  also have "\<dots> = to_little_endian_loop (Suc n) v @ [ucast (drop_bit (8 * Suc n) v)]"
    by (simp add: add.commute)
  finally show ?case .
qed

lemma run_from_little_endian_stream:
  "run_state (from_little_endian_stream n i (take_bit (8 * i) v))
     (ready (to_little_endian_loop n (drop_bit (8 * i) v) @ rest)) =
   (take_bit (8 * (i + n)) v, ready rest)"
proof (induction n arbitrary: i)
  case 0
  then show ?case by simp
next
  case (Suc n)
  let ?b = "ucast (drop_bit (8 * i) v) :: byte"
  have acc: "take_bit (8 * i) v OR push_bit (8 * i) (ucast ?b) = take_bit (8 * Suc i) v"
    using take_bit_extend_byte [of "8 * i" v] by (simp add: add.commute)
  have "run_state (stream_read 1) (ready ([?b] @ xs)) = ([?b], ready xs)" for xs
    by (rule run_stream_read_ready) simp
  with Suc [of "Suc i"] show ?case
    by (simp add: run_source_valid acc drop_bit_drop_bit add.commute)
qed

lemma run_from_big_endian_stream:
  "run_state (from_big_endian_stream n out) (ready (rev (to_little_endian_loop n v) @ rest)) =
   (out OR take_bit (8 * n) v, ready rest)"
proof (induction n arbitrary: out)
  case 0
  then show ?case by simp
next
  case (Suc n)
  let ?b = "ucast (drop_bit (8 * n) v) :: byte"
  have acc: "push_bit (8 * n) (ucast ?b) OR take_bit (8 * n) v = take_bit (8 * Suc n) v"
    using take_bit_extend_byte [of "8 * n" v] by (simp add: add.commute or.commute)
  have bytes: "rev (to_little_endian_loop (Suc n) v) = [?b] @ rev (to_little_endian_loop n v)"
    by (simp only: to_little_endian_loop_snoc rev_append rev.simps append_Nil)
  have "run_state (stream_read 1) (ready ([?b] @ xs)) = ([?b], ready xs)" for xs
    by (rule run_stream_read_ready) simp
  with Suc [of "out OR push_bit (8 * n) (ucast ?b)"] show ?case
    by (simp add: run_source_valid acc bytes or.assoc del: to_little_endian_loop.simps)
qed

lemma ucast_of_nat_byte: "ucast (of_nat (unat b + 256 * n) :: 'a::len word) = (b :: byte)"
  if "8 \<le> LENGTH('a)"
proof -
  have "(2::nat) ^ 8 dvd 2 ^ LENGTH('a)" using that by (rule le_imp_power_dvd)
  then have "(unat b + 256 * n) mod 2 ^ LENGTH('a) mod 256 = unat b"
    by (simp add: mod_mod_cancel) (simp add: unat_byte_less)
  then show ?thesis
    by (simp add: word_unat_eq_iff unat_ucast_mod unat_of_nat del: of_nat_add of_nat_mult)
qed

lemma drop_bit_of_nat_le_val:
  assumes "8 * Suc (length bs) \<le> LENGTH('a)"
  shows "drop_bit 8 (of_nat (le_val (b # bs)) :: 'a::len word) = of_nat (le_val bs)"
proof -
  have "le_val (b # bs) < 256 ^ Suc (length bs)" using le_val_bound [of "b # bs"] by simp
  also have "(256::nat) ^ Suc (length bs) = 2 ^ (8 * Suc (length bs))" by (simp only: power_mult) simp
  also have "(2::nat) ^ (8 * Suc (length bs)) \<le> 2 ^ LENGTH('a)" using assms by (rule power_increasing) simp
  finally have small: "le_val (b # bs) < 2 ^ LENGTH('a)" .
  then have "unat (drop_bit 8 (of_nat (le_val (b # bs)) :: 'a word)) = le_val (b # bs) div 256"
    by (simp add: unat_drop_bit unat_of_nat del: of_nat_add of_nat_mult le_val.simps)
  also have "\<dots> = le_val bs" using unat_byte_less [of b] by simp
  finally show ?thesis using small by (simp add: word_unat_eq_iff unat_of_nat)
qed

text \<open>Every byte sequence that fits is the little-endian form of its value.\<close>

lemma to_little_endian_of_le_val:
  "8 * length bs \<le> LENGTH('a) \<Longrightarrow> to_little_endian_loop (length bs) (of_nat (le_val bs) :: 'a::len word) = bs"
proof (induction bs)
  case (Cons b bs)
  then show ?case
    using ucast_of_nat_byte [where 'a = 'a, of b "le_val bs"] drop_bit_of_nat_le_val [where 'a = 'a, of bs b]
    by (simp del: of_nat_add of_nat_mult)
qed simp

lemma from_little_endian_stream_failed:
  "failbit r \<Longrightarrow> failbit (snd (run_state (from_little_endian_stream n i out) r))"
  by (cases n) (simp_all add: run_source_valid)

lemma run_from_little_endian_stream_short:
  "length bs < n \<Longrightarrow> failbit (snd (run_state (from_little_endian_stream n i out) (ready bs)))"
proof (induction n arbitrary: bs i out)
  case (Suc n)
  show ?case
  proof (cases bs)
    case Nil
    then show ?thesis
      by (simp add: run_source_valid stream_read_def good_def from_little_endian_stream_failed)
  next
    case (Cons c cs)
    then show ?thesis
      using Suc.IH [of cs] Suc.prems by (simp add: run_source_valid stream_read_def good_def)
  qed
qed simp

lemma little_endian_write_read:
  assumes "run_state (from_little_endian_stream n 0 0) (ready bs) = (v :: 'a::len word, r)"
    and "\<not> failbit r" and "8 * n = LENGTH('a)"
  shows "bs = to_little_endian_loop n v @ stream r \<and> r = ready (stream r)"
proof -
  have n: "n \<le> length bs"
    using run_from_little_endian_stream_short [of bs n 0 "0 :: 'a word"] assms(1,2) by fastforce
  let ?w = "of_nat (le_val (take n bs)) :: 'a word"
  have w: "to_little_endian_loop n ?w = take n bs"
    using to_little_endian_of_le_val [where 'a = 'a, of "take n bs"] n assms(3) by simp
  then have "bs = to_little_endian_loop n ?w @ drop n bs" by simp
  moreover have "run_state (from_little_endian_stream n 0 0) (ready (to_little_endian_loop n ?w @ drop n bs))
      = (?w, ready (drop n bs))"
    using run_from_little_endian_stream [of n 0 ?w "drop n bs"] assms(3) by (simp add: take_bit_full_word)
  ultimately show ?thesis using assms(1) w by (simp only:) auto
qed

text \<open>Each integer reader undoes its writer, whatever follows in the stream.\<close>

lemma run_read_integers_ready [wire_simps]:
  "run_state read_2_bytes_little_endian (ready (write_2_bytes_little_endian a @ rest)) = (a, ready rest)"
  "run_state read_4_bytes_little_endian (ready (write_4_bytes_little_endian b @ rest)) = (b, ready rest)"
  "run_state read_8_bytes_little_endian (ready (write_8_bytes_little_endian c @ rest)) = (c, ready rest)"
  "run_state read_2_bytes_big_endian (ready (write_2_bytes_big_endian a @ rest)) = (a, ready rest)"
  "run_state read_4_bytes_big_endian (ready (write_4_bytes_big_endian b @ rest)) = (b, ready rest)"
  "run_state read_8_bytes_big_endian (ready (write_8_bytes_big_endian c @ rest)) = (c, ready rest)"
  using run_from_little_endian_stream [of 2 0 a rest] run_from_little_endian_stream [of 4 0 b rest]
    run_from_little_endian_stream [of 8 0 c rest]
    run_from_big_endian_stream [of 2 0 a rest] run_from_big_endian_stream [of 4 0 b rest]
    run_from_big_endian_stream [of 8 0 c rest]
  by (simp_all add: read_2_bytes_little_endian_def read_4_bytes_little_endian_def
      read_8_bytes_little_endian_def write_2_bytes_little_endian_def write_4_bytes_little_endian_def
      write_8_bytes_little_endian_def read_2_bytes_big_endian_def read_4_bytes_big_endian_def
      read_8_bytes_big_endian_def write_2_bytes_big_endian_def write_4_bytes_big_endian_def
      write_8_bytes_big_endian_def to_little_endian_def to_big_endian_def take_bit_full_word)

lemma length_write_integers [length_simps]:
  "length (write_byte x) = 1"
  "length (write_2_bytes_little_endian a) = 2" "length (write_4_bytes_little_endian b) = 4"
  "length (write_8_bytes_little_endian c) = 8" "length (write_2_bytes_big_endian a) = 2"
  "length (write_4_bytes_big_endian b) = 4" "length (write_8_bytes_big_endian c) = 8"
  by (simp_all add: write_byte_def write_2_bytes_little_endian_def write_4_bytes_little_endian_def
      write_8_bytes_little_endian_def write_2_bytes_big_endian_def write_4_bytes_big_endian_def
      write_8_bytes_big_endian_def to_little_endian_def to_big_endian_def)

subsection \<open>Variable-length integers\<close>

lemma varint_small: "(v :: uint64) < 0xfd \<Longrightarrow> unat (ucast v :: byte) = unat v \<and> unat v < 253"
  by (simp add: word_less_nat_alt unat_ucast_mod)

lemma varint_narrowing:
  fixes v :: uint64
  shows "v < 0xfd \<Longrightarrow> (ucast v :: byte) \<noteq> 0xff \<and> (ucast v :: byte) \<noteq> 0xfe \<and>
      (ucast v :: byte) \<noteq> 0xfd \<and> ucast (ucast v :: byte) = v"
    and "unat v \<le> 65535 \<Longrightarrow> ucast (ucast v :: uint16) = v"
    and "unat v \<le> 4294967295 \<Longrightarrow> ucast (ucast v :: uint32) = v"
  using varint_small [of v]
  by (auto simp: word_unat_eq_iff unat_ucast_mod)

lemma run_read_variable_little_endian_ready [wire_simps]:
  "run_state read_variable_little_endian (ready (write_variable_little_endian v @ rest)) = (v, ready rest)"
  using varint_narrowing [of v]
  by (simp add: read_variable_little_endian_def write_variable_little_endian_def write_byte_def
      wire_simps state.map_sel)

lemma run_read_variable_big_endian_ready [wire_simps]:
  "run_state read_variable_big_endian (ready (write_variable_big_endian v @ rest)) = (v, ready rest)"
  using varint_narrowing [of v]
  by (simp add: read_variable_big_endian_def write_variable_big_endian_def write_byte_def
      wire_simps state.map_sel)

lemma length_write_variable_little_endian [length_simps]:
  "length (write_variable_little_endian v) = variable_uint_size v"
  by (simp add: write_variable_little_endian_def variable_uint_size_def length_simps
      word_le_nat_alt word_less_nat_alt)

lemma run_read_size_little_endian_ready [wire_simps]:
  "n \<le> max_size_t \<Longrightarrow>
   run_state read_size_little_endian (ready (write_size_little_endian n @ rest)) = (n, ready rest)"
  by (simp add: read_size_little_endian_def write_size_little_endian_def wire_simps max_size_t_def
      unat_of_nat)

lemma run_read_size_of_variable [wire_simps]:
  "n \<le> max_size_t \<Longrightarrow>
   run_state read_size_little_endian (ready (write_variable_little_endian (of_nat n) @ rest)) =
   (n, ready rest)"
  using run_read_size_little_endian_ready [of n rest] by (simp add: write_size_little_endian_def)

lemma run_read_size_big_endian_ready [wire_simps]:
  "n \<le> max_size_t \<Longrightarrow>
   run_state read_size_big_endian (ready (write_size_big_endian n @ rest)) = (n, ready rest)"
  by (simp add: read_size_big_endian_def write_size_big_endian_def wire_simps max_size_t_def
      unat_of_nat)

subsection \<open>Strings\<close>

lemma run_empty_source_ready [wire_simps]:
  "run_state empty_source (ready (b # bs)) = (False, ready (b # bs))"
  by (simp add: empty_source_def stream_peek_def good_def state.map_sel)

lemma run_read_string_loop_ready:
  "0 \<notin> set s \<Longrightarrow>
   run_state (read_string_loop (length s + k) False out) (ready (s @ rest)) =
   run_state (read_string_loop k False (out @ s)) (ready rest)"
  by (induction s arbitrary: out) (auto simp: wire_simps)

lemma run_read_string_loop_zeros:
  "run_state (read_string_loop k True out) (ready (replicate k 0 @ rest)) = (out, ready rest)"
  by (induction k) (auto simp: wire_simps)

lemma run_read_string_loop_padding:
  "run_state (read_string_loop k False out) (ready (replicate k 0 @ rest)) = (out, ready rest)"
  by (cases k) (auto simp: wire_simps run_read_string_loop_zeros)

lemma run_read_string_size_ready [wire_simps]:
  assumes "0 \<notin> set s" and "length s \<le> n"
  shows "run_state (read_string_size n) (ready (write_string_size s n @ rest)) = (s, ready rest)"
proof -
  have "write_string_size s n @ rest = s @ replicate (n - length s) 0 @ rest"
    using assms(2) by (simp add: write_string_size_def)
  then show ?thesis
    using run_read_string_loop_ready [OF assms(1), of "n - length s" "[]" "replicate (n - length s) 0 @ rest"]
      assms(2)
    by (simp add: read_string_size_def run_read_string_loop_padding)
qed

lemma run_read_string_ready [wire_simps]:
  assumes "0 \<notin> set s" and "length s \<le> max_size_t"
  shows "run_state read_string (ready (write_string s @ rest)) = (s, ready rest)"
  using assms run_read_string_loop_ready [OF assms(1), of 0 "[]" rest]
  by (simp add: read_string_def write_string_def read_string_size_def wire_simps)

subsection \<open>Failure is sticky\<close>

text \<open>
  \<open>keeps_failure m\<close>: a reader step never clears \<open>failbit\<close> and never makes the unread part
  longer.  It is what lets the code test the source once, after a sequence of reads.
\<close>

definition keeps_failure :: "'a rd \<Rightarrow> bool" where
  "keeps_failure m \<longleftrightarrow>
     (\<forall>r. (failbit r \<longrightarrow> failbit (snd (run_state m r))) \<and>
          length (stream (snd (run_state m r))) \<le> length (stream r))"

named_theorems failure_rules \<open>reader steps that keep failure\<close>

lemma keeps_failureI:
  "(\<And>r. failbit r \<Longrightarrow> failbit (snd (run_state m r))) \<Longrightarrow>
   (\<And>r. length (stream (snd (run_state m r))) \<le> length (stream r)) \<Longrightarrow> keeps_failure m"
  by (simp add: keeps_failure_def)

lemma keeps_failure_valid:
  "keeps_failure m \<Longrightarrow> run_state m r = (x, r') \<Longrightarrow> \<not> failbit r' \<Longrightarrow> \<not> failbit r"
  by (metis keeps_failure_def snd_conv)

lemma keeps_failure_length:
  "keeps_failure m \<Longrightarrow> length (stream (snd (run_state m r))) \<le> length (stream r)"
  by (simp add: keeps_failure_def)

lemma keeps_failure_return [failure_rules]: "keeps_failure (State_Monad.return x)"
  by (simp add: keeps_failure_def)

lemma keeps_failure_bind [failure_rules]:
  assumes "keeps_failure m" and "\<And>x. keeps_failure (f x)"
  shows "keeps_failure (m \<bind> f)"
proof (rule keeps_failureI)
  fix r
  have m: "failbit r \<Longrightarrow> failbit (snd (run_state m r))"
    "length (stream (snd (run_state m r))) \<le> length (stream r)"
    using assms(1) by (auto simp: keeps_failure_def)
  have f: "failbit s \<Longrightarrow> failbit (snd (run_state (f x) s))"
    "length (stream (snd (run_state (f x) s))) \<le> length (stream s)" for x s
    using assms(2) [of x] by (auto simp: keeps_failure_def)
  show "failbit r \<Longrightarrow> failbit (snd (run_state (m \<bind> f) r))"
    using m(1) f(1) by (simp add: split_beta)
  show "length (stream (snd (run_state (m \<bind> f) r))) \<le> length (stream r)"
    using m(2) f(2) order_trans by (fastforce simp: split_beta)
qed

lemma keeps_failure_map [failure_rules]: "keeps_failure m \<Longrightarrow> keeps_failure (map_state f m)"
  by (simp add: keeps_failure_def state.map_sel split_beta)

lemma keeps_failure_if [failure_rules]:
  "keeps_failure m \<Longrightarrow> keeps_failure n \<Longrightarrow> keeps_failure (if b then m else n)"
  by simp

lemma keeps_failure_stream [failure_rules]:
  "keeps_failure source_valid" "keeps_failure invalidate" "keeps_failure stream_get"
  "keeps_failure stream_peek" "keeps_failure (stream_read n)"
  by (auto simp: keeps_failure_def source_valid_def invalidate_def stream_get_def stream_peek_def
      stream_read_def good_def split: list.splits)

lemma keeps_failure_endian [failure_rules]:
  "keeps_failure (from_little_endian_stream n i out)" "keeps_failure (from_big_endian_stream n out)"
  by (induction n arbitrary: i out) (auto intro!: failure_rules)

lemma keeps_failure_reads [failure_rules]:
  "keeps_failure empty_source" "keeps_failure is_exhausted" "keeps_failure read_byte"
  "keeps_failure (read_bytes n)" "keeps_failure (read_forward n)" "keeps_failure read_hash"
  "keeps_failure read_short_hash" "keeps_failure read_mini_hash"
  "keeps_failure read_2_bytes_little_endian" "keeps_failure read_4_bytes_little_endian"
  "keeps_failure read_8_bytes_little_endian" "keeps_failure read_2_bytes_big_endian"
  "keeps_failure read_4_bytes_big_endian" "keeps_failure read_8_bytes_big_endian"
  by (auto simp: empty_source_def is_exhausted_def read_byte_def read_bytes_def read_forward_def
      read_hash_def read_short_hash_def read_mini_hash_def read_2_bytes_little_endian_def
      read_4_bytes_little_endian_def read_8_bytes_little_endian_def read_2_bytes_big_endian_def
      read_4_bytes_big_endian_def read_8_bytes_big_endian_def intro!: failure_rules)

lemma keeps_failure_sizes [failure_rules]:
  "keeps_failure read_variable_little_endian" "keeps_failure read_variable_big_endian"
  "keeps_failure read_size_little_endian" "keeps_failure read_size_big_endian"
  by (auto simp: read_variable_little_endian_def read_variable_big_endian_def
      read_size_little_endian_def read_size_big_endian_def intro!: failure_rules)

lemma keeps_failure_string_loop [failure_rules]: "keeps_failure (read_string_loop n t out)"
  by (induction n arbitrary: t out) (auto simp: Let_def intro!: failure_rules)

lemma keeps_failure_strings [failure_rules]:
  "keeps_failure (read_string_size n)" "keeps_failure read_string"
  by (auto simp: read_string_size_def read_string_def intro!: failure_rules)

subsection \<open>The contract of a serialized type\<close>

text \<open>
  A loop \<^verbatim>\<open>for (auto& element: elements_) if (!element.from_data(source)) break;\<close> reads
  a known number of elements and stops at the first failure, leaving the elements it did not
  reach at their default.
\<close>

fun read_elements :: "'a rd \<Rightarrow> 'a \<Rightarrow> nat \<Rightarrow> 'a list rd" where
  "read_elements m dflt 0 = State_Monad.return []"
| "read_elements m dflt (Suc n) = do {
     x \<leftarrow> m;
     ok \<leftarrow> source_valid;
     if ok then do { xs \<leftarrow> read_elements m dflt n; State_Monad.return (x # xs) }
     else State_Monad.return (x # replicate n dflt)
   }"

lemma keeps_failure_read_elements [failure_rules]:
  "keeps_failure m \<Longrightarrow> keeps_failure (read_elements m d n)"
  by (induction n) (auto intro!: failure_rules)

lemma length_read_elements: "length (fst (run_state (read_elements m d n) r)) = n"
  by (induction n arbitrary: r) (auto simp: split_beta)

locale codec =
  fixes wr :: "'a \<Rightarrow> data_chunk"
    and rd :: "'a rd"
    and wf :: "'a \<Rightarrow> bool"
  assumes read_write: "wf x \<Longrightarrow> run_state rd (ready (wr x @ rest)) = (x, ready rest)"
begin

lemma read_back: "wf x \<Longrightarrow> run_state rd (ready (wr x)) = (x, ready [])"
  using read_write [of x "[]"] by simp

lemma unambiguous:
  assumes "wf x" and "wf y" and "wr x @ xs = wr y @ ys"
  shows "x = y \<and> xs = ys"
proof -
  have "(x, ready xs) = (y, ready ys)"
    by (rule trans [OF sym [OF read_write [OF assms(1)]]]) (simp only: assms(3) read_write [OF assms(2)])
  then show ?thesis by simp
qed

lemma injective: "wf x \<Longrightarrow> wf y \<Longrightarrow> wr x = wr y \<Longrightarrow> x = y"
  using unambiguous [of x y "[]" "[]"] by simp

lemma elements:
  "list_all wf xs \<Longrightarrow>
   run_state (read_elements rd d (length xs)) (ready (concat (map wr xs) @ rest)) = (xs, ready rest)"
  by (induction xs) (simp_all add: read_write run_source_valid)

lemma elements_unambiguous:
  assumes "list_all wf xs" and "list_all wf ys" and "length xs = length ys"
    and "concat (map wr xs) @ r = concat (map wr ys) @ s"
  shows "xs = ys \<and> r = s"
proof -
  have "(xs, ready r) = (ys, ready s)"
    by (rule trans [OF sym [OF elements [OF assms(1)]]])
      (simp only: assms(3,4) elements [OF assms(2)])
  then show ?thesis by simp
qed

end

text \<open>
  A lossless codec also promises the converse: a read that does not fail consumed exactly
  the bytes that writing its result produces.
\<close>

locale lossless_codec = codec +
  assumes write_read:
    "run_state rd (ready bs) = (x, r) \<Longrightarrow> \<not> failbit r \<Longrightarrow> wf x \<and> bs = wr x @ stream r \<and> r = ready (stream r)"
begin

lemma read_inverts_write:
  "(run_state rd (ready bs) = (x, ready rest)) \<longleftrightarrow> (wf x \<and> bs = wr x @ rest)"
  using read_write write_read [of bs x "ready rest"] by auto

end

interpretation varint: codec write_variable_little_endian read_variable_little_endian "\<lambda>_. True"
  by unfold_locales (simp add: wire_simps)

interpretation size_prefix: codec write_size_little_endian read_size_little_endian "\<lambda>n. n \<le> max_size_t"
  by unfold_locales (simp add: wire_simps)

lemma read_forward_write_read:
  "run_state (read_forward n) (ready bs) = (x, r) \<Longrightarrow> \<not> failbit r \<Longrightarrow>
   length x = n \<and> bs = x @ stream r \<and> r = ready (stream r)"
  by (auto simp: read_forward_def stream_read_def good_def split: if_splits)

interpretation hash_codec: lossless_codec write_hash read_hash "\<lambda>h. length h = 32"
proof unfold_locales
  show "run_state read_hash (ready (write_hash x @ rest)) = (x, ready rest)" if "length x = 32" for x rest
    using that by (simp add: wire_simps read_hash_def write_hash_def)
qed (use read_forward_write_read [where n = 32] in \<open>auto simp: read_hash_def write_hash_def\<close>)

interpretation string_codec: codec write_string read_string "\<lambda>s. 0 \<notin> set s \<and> length s \<le> max_size_t"
  by unfold_locales (simp add: wire_simps)

lemma read_byte_write_read:
  "run_state read_byte (ready bs) = (x, r) \<Longrightarrow> \<not> failbit r \<Longrightarrow> bs = x # stream r \<and> r = ready (stream r)"
  by (auto simp: read_byte_def stream_get_def good_def split: list.splits)

lemma read_bytes_write_read:
  "run_state (read_bytes n) (ready bs) = (x, r) \<Longrightarrow> \<not> failbit r \<Longrightarrow>
   length x = n \<and> bs = x @ stream r \<and> r = ready (stream r)"
  by (auto simp: read_bytes_def stream_read_def good_def split: if_splits)

interpretation u16_codec: lossless_codec write_2_bytes_little_endian read_2_bytes_little_endian "\<lambda>_. True"
proof unfold_locales
  show "run_state read_2_bytes_little_endian (ready (write_2_bytes_little_endian x @ rest)) = (x, ready rest)"
    for x rest by (simp add: wire_simps)
qed (use little_endian_write_read [where 'a = 16 and n = 2] in \<open>auto simp:
      read_2_bytes_little_endian_def write_2_bytes_little_endian_def to_little_endian_def\<close>)

interpretation u32_codec: lossless_codec write_4_bytes_little_endian read_4_bytes_little_endian "\<lambda>_. True"
proof unfold_locales
  show "run_state read_4_bytes_little_endian (ready (write_4_bytes_little_endian x @ rest)) = (x, ready rest)"
    for x rest by (simp add: wire_simps)
qed (use little_endian_write_read [where 'a = 32 and n = 4] in \<open>auto simp:
      read_4_bytes_little_endian_def write_4_bytes_little_endian_def to_little_endian_def\<close>)

interpretation u64_codec: lossless_codec write_8_bytes_little_endian read_8_bytes_little_endian "\<lambda>_. True"
proof unfold_locales
  show "run_state read_8_bytes_little_endian (ready (write_8_bytes_little_endian x @ rest)) = (x, ready rest)"
    for x rest by (simp add: wire_simps)
qed (use little_endian_write_read [where 'a = 64 and n = 8] in \<open>auto simp:
      read_8_bytes_little_endian_def write_8_bytes_little_endian_def to_little_endian_def\<close>)

end
