(* ===== verification/Hash.thy ===== *)
theory Hash
  imports Wire
begin

text \<open>
  The hash functions of \<^verbatim>\<open>src/math/hash.cpp\<close>.  The digests themselves are vendored C code
  (\<^verbatim>\<open>src/math/external\<close>); they are a parameter of the model, a record of functions, and every
  theorem holds for all of them.  What the wrappers add is defined here.
\<close>

record hash_functions =
  sha256_hash :: "data_chunk \<Rightarrow> hash_digest"
  sha1_hash :: "data_chunk \<Rightarrow> hash_digest"
  ripemd160_hash :: "data_chunk \<Rightarrow> hash_digest"
  litecoin_hash :: "data_chunk \<Rightarrow> hash_digest"

definition bitcoin_hash :: "hash_functions \<Rightarrow> data_chunk \<Rightarrow> hash_digest" where
  "bitcoin_hash H data = sha256_hash H (sha256_hash H data)"

definition bitcoin_short_hash :: "hash_functions \<Rightarrow> data_chunk \<Rightarrow> hash_digest" where
  "bitcoin_short_hash H data = ripemd160_hash H (sha256_hash H data)"

text \<open>The documented digest sizes.\<close>

definition digest_sizes :: "hash_functions \<Rightarrow> bool" where
  "digest_sizes H \<longleftrightarrow>
     (\<forall>d. length (sha256_hash H d) = 32 \<and> length (sha1_hash H d) = 20 \<and>
          length (ripemd160_hash H d) = 20 \<and> length (litecoin_hash H d) = 32)"

text \<open>\<^verbatim>\<open>to_uint256\<close>: the little-endian reading of a digest, stopping at the end of either.\<close>

fun from_little_endian :: "nat \<Rightarrow> nat \<Rightarrow> 'a::len word \<Rightarrow> data_chunk \<Rightarrow> 'a word" where
  "from_little_endian 0 i out bs = out"
| "from_little_endian (Suc n) i out [] = out"
| "from_little_endian (Suc n) i out (b # bs) =
     from_little_endian n (Suc i) (out OR push_bit (8 * i) (ucast b)) bs"

definition to_uint256 :: "hash_digest \<Rightarrow> 256 word" where
  "to_uint256 hash = from_little_endian 32 0 0 hash"

text \<open>An instance, to show that the documented sizes can hold.\<close>

definition example_digests :: hash_functions where
  "example_digests = \<lparr>sha256_hash = \<lambda>d. take 32 (d @ replicate 32 0), sha1_hash = \<lambda>d. take 20 (d @ replicate 20 0),
    ripemd160_hash = \<lambda>d. take 20 (d @ replicate 20 0), litecoin_hash = \<lambda>d. take 32 (d @ replicate 32 0)\<rparr>"

lemma example_digest_sizes: "digest_sizes example_digests"
  by (auto simp: digest_sizes_def example_digests_def)

end
