(* ===== verification/Checksum.thy ===== *)
theory Checksum
  imports Hash
begin

text \<open>
  Checksums: \<^verbatim>\<open>src/math/checksum.cpp\<close> and \<^verbatim>\<open>impl/math/checksum.ipp\<close>, with the array helpers of
  \<^verbatim>\<open>impl/utility/data.ipp\<close> they use.  The checksum of the wire protocol and of the text forms of keys
  and addresses is the little-endian reading of the first four bytes of a double hash.
\<close>

unbundle bit_operations_syntax

abbreviation (input) checksum_size :: nat where "checksum_size \<equiv> 4"

definition bitcoin_checksum :: "hash_functions \<Rightarrow> data_chunk \<Rightarrow> uint32" where
  "bitcoin_checksum H data = from_little_endian 4 0 0 (bitcoin_hash H data)"

definition append_checksum :: "hash_functions \<Rightarrow> data_chunk \<Rightarrow> data_chunk" where
  "append_checksum H data = data @ to_little_endian (bitcoin_checksum H data)"

definition verify_checksum :: "hash_functions \<Rightarrow> data_chunk \<Rightarrow> bool" where
  "verify_checksum H data =
     (if length data < checksum_size then False
      else
        let n = length data - checksum_size; checksum = from_little_endian 4 0 0 (drop n data)
        in bitcoin_checksum H (take n data) = checksum)"

text \<open>
  \<^verbatim>\<open>build_array\<close> writes the slices over the front of an array and fails if they do not fit.
\<close>

definition build_array :: "data_chunk \<Rightarrow> data_chunk list \<Rightarrow> data_chunk option" where
  "build_array out slices =
     (if length (concat slices) > length out then None
      else Some (concat slices @ drop (length (concat slices)) out))"

definition insert_checksum :: "hash_functions \<Rightarrow> data_chunk \<Rightarrow> data_chunk option" where
  "insert_checksum H out =
     (if length out < checksum_size then None
      else
        let body = take (length out - checksum_size) out
        in Some (body @ to_little_endian (bitcoin_checksum H body)))"

definition build_checked_array :: "hash_functions \<Rightarrow> data_chunk \<Rightarrow> data_chunk list \<Rightarrow> data_chunk option" where
  "build_checked_array H out slices =
     (case build_array out slices of None \<Rightarrow> None | Some out \<Rightarrow> insert_checksum H out)"

text \<open>
  \<^verbatim>\<open>wrap\<close> builds a new array, whose contents before the writes (\<open>fresh\<close>) are indeterminate: the two writes
  cover it.  \<^verbatim>\<open>unwrap\<close> gives the version, the payload and the checksum.
\<close>

definition wrap :: "hash_functions \<Rightarrow> data_chunk \<Rightarrow> byte \<Rightarrow> data_chunk \<Rightarrow> data_chunk option" where
  "wrap H fresh v payload = build_checked_array H fresh [[v], payload]"

definition unwrap :: "hash_functions \<Rightarrow> data_chunk \<Rightarrow> (byte \<times> data_chunk \<times> uint32) option" where
  "unwrap H wrapped =
     (if \<not> verify_checksum H wrapped then None
      else
        let n = length wrapped - checksum_size
        in Some (hd wrapped, take (n - 1) (drop 1 wrapped), from_little_endian 4 0 0 (drop n wrapped)))"

subsection \<open>Little-endian readings\<close>

lemma from_little_endian_loop:
  "from_little_endian n i (take_bit (8 * i) v) (to_little_endian_loop n (drop_bit (8 * i) v) @ rest) =
   take_bit (8 * (i + n)) v"
proof (induction n arbitrary: i)
  case (Suc n)
  have "take_bit (8 * i) v OR push_bit (8 * i) (ucast (ucast (drop_bit (8 * i) v) :: byte)) = take_bit (8 * Suc i) v"
    using take_bit_extend_byte [of "8 * i" v] by (simp add: add.commute)
  with Suc [of "Suc i"] show ?case by (simp add: drop_bit_drop_bit add.commute)
qed simp

lemma from_to_little_endian [simp]: "from_little_endian 4 0 0 (to_little_endian v @ rest) = (v :: uint32)"
  using from_little_endian_loop [of 4 0 v rest] by (simp add: to_little_endian_def take_bit_full_word)

lemma from_to_little_endian_all [simp]: "from_little_endian 4 0 0 (to_little_endian v) = (v :: uint32)"
  using from_to_little_endian [of v "[]"] by simp

lemma to_from_little_endian:
  assumes "length bs = 4"
  shows "to_little_endian (from_little_endian 4 0 0 bs :: uint32) = bs"
proof -
  have "to_little_endian_loop 4 (of_nat (le_val bs) :: uint32) = bs"
    using to_little_endian_of_le_val [where 'a = 32, of bs] assms by simp
  then have bs: "to_little_endian (of_nat (le_val bs) :: uint32) = bs" by (simp add: to_little_endian_def)
  then show ?thesis using from_to_little_endian_all [of "of_nat (le_val bs)"] by simp
qed

lemma length_to_little_endian_4 [simp]: "length (to_little_endian (v :: uint32)) = 4"
  by (simp add: to_little_endian_def)

subsection \<open>Checked data\<close>

lemma verify_checksum_iff: "verify_checksum H data \<longleftrightarrow> (\<exists>body. data = append_checksum H body)"
proof
  assume ok: "verify_checksum H data"
  let ?n = "length data - 4"
  have "drop ?n data = to_little_endian (bitcoin_checksum H (take ?n data))"
    using ok to_from_little_endian [of "drop ?n data"] by (simp add: verify_checksum_def Let_def split: if_splits)
  then have "data = append_checksum H (take ?n data)"
    by (metis append_checksum_def append_take_drop_id)
  then show "\<exists>body. data = append_checksum H body" ..
qed (auto simp: verify_checksum_def append_checksum_def Let_def)

lemma insert_checksum_length: "length out = n + 4 \<Longrightarrow> insert_checksum H out = Some (append_checksum H (take n out))"
  by (simp add: insert_checksum_def append_checksum_def Let_def)

lemma wrap_appends:
  "length fresh = length payload + 5 \<Longrightarrow> wrap H fresh v payload = Some (append_checksum H (v # payload))"
  by (simp add: wrap_def build_checked_array_def build_array_def insert_checksum_length [of _ "Suc (length payload)"])

text \<open>
  Unwrapping accepts exactly the arrays that wrapping produces (for a payload of the size of the
  array), and gives back the version and the payload with the checksum of both.
\<close>

theorem unwrap_exact:
  assumes "length wrapped = length payload + 5" and "length fresh = length wrapped"
  shows "unwrap H wrapped = Some (v, payload, c) \<longleftrightarrow>
    wrap H fresh v payload = Some wrapped \<and> c = bitcoin_checksum H (v # payload)"
proof -
  have fresh: "length fresh = length payload + 5" using assms by simp
  show ?thesis
  proof (cases "verify_checksum H wrapped")
    case True
    then obtain body where w: "wrapped = append_checksum H body" by (auto simp: verify_checksum_iff)
    then have "length body = Suc (length payload)" using assms(1) by (simp add: append_checksum_def)
    then obtain b bs where "body = b # bs" "length bs = length payload" by (cases body) auto
    then show ?thesis
      using True w by (auto simp: wrap_appends [OF fresh] unwrap_def append_checksum_def Let_def)
  next
    case False
    then show ?thesis by (auto simp: wrap_appends [OF fresh] unwrap_def verify_checksum_iff)
  qed
qed

theorem unwrap_exact_witness:
  "\<exists>w. wrap example_digests (replicate 25 0) 7 (replicate 20 1) = Some w \<and>
     unwrap example_digests w = Some (7, replicate 20 1, bitcoin_checksum example_digests (7 # replicate 20 1))"
proof -
  let ?w = "append_checksum example_digests (7 # replicate 20 1)"
  have "wrap example_digests (replicate 25 0) 7 (replicate 20 1) = Some ?w" by (rule wrap_appends) simp
  moreover have "length ?w = length (replicate 20 (1 :: byte)) + 5"
    by (simp only: append_checksum_def length_append length_to_little_endian_4 list.size length_replicate)
  ultimately show ?thesis
    using unwrap_exact [of ?w "replicate 20 1" "replicate 25 0" example_digests 7 "bitcoin_checksum example_digests (7 # replicate 20 1)"]
    by fastforce
qed

end
