(* ===== verification/Constants.thy ===== *)
theory Constants
  imports Prelude
begin

text \<open>
  The consensus constants of \<^verbatim>\<open>include/bitcoin/bitcoin/constants.hpp\<close> and the fork bits of
  \<^verbatim>\<open>machine/rule_fork.hpp\<close>.  The currency a build supports
  (\<^verbatim>\<open>BITPRIM_CURRENCY_BCH\<close>, \<^verbatim>\<open>BITPRIM_CURRENCY_LTC\<close>, neither) is chosen at compile time; in the
  model it is a value of type \<open>currency\<close>, an argument of the definitions whose text depends on it.
\<close>

datatype currency = bitcoin | litecoin | bitcoin_cash

definition is_bch :: "currency \<Rightarrow> bool" where
  "is_bch cur \<longleftrightarrow> cur = bitcoin_cash"

subsection \<open>Script\<close>

definition max_counted_ops :: nat where "max_counted_ops = 201"
definition max_stack_size :: nat where "max_stack_size = 1000"
definition max_script_size :: nat where "max_script_size = 10000"
definition max_push_data_size :: nat where "max_push_data_size = 520"
definition max_script_public_keys :: nat where "max_script_public_keys = 20"
definition multisig_default_sigops :: nat where "multisig_default_sigops = 20"
definition max_number_size :: nat where "max_number_size = 4"
definition max_check_locktime_verify_number_size :: nat where
  "max_check_locktime_verify_number_size = 5"
definition max_check_sequence_verify_number_size :: nat where
  "max_check_sequence_verify_number_size = 5"
definition max_null_data_size :: nat where "max_null_data_size = 80"
definition min_witness_program :: nat where "min_witness_program = 2"
definition max_witness_program :: nat where "max_witness_program = 40"

lemmas script_constants = max_counted_ops_def max_stack_size_def max_script_size_def
  max_push_data_size_def max_script_public_keys_def multisig_default_sigops_def max_number_size_def
  max_check_locktime_verify_number_size_def max_check_sequence_verify_number_size_def
  max_null_data_size_def min_witness_program_def max_witness_program_def

subsection \<open>Blocks and locktimes\<close>

definition max_block_size_new :: nat where "max_block_size_new = 32000000"
definition max_block_size :: nat where "max_block_size = 1000000"

definition get_max_block_size :: "currency \<Rightarrow> nat" where
  "get_max_block_size cur = (if is_bch cur then max_block_size_new else max_block_size)"

definition coinbase_maturity :: nat where "coinbase_maturity = 100"
definition locktime_threshold :: nat where "locktime_threshold = 500000000"
definition relative_locktime_min_version :: nat where "relative_locktime_min_version = 2"
definition relative_locktime_seconds_shift :: nat where "relative_locktime_seconds_shift = 9"
definition relative_locktime_mask :: uint32 where "relative_locktime_mask = 0x0000ffff"
definition relative_locktime_disabled :: uint32 where "relative_locktime_disabled = 0x80000000"
definition relative_locktime_time_locked :: uint32 where "relative_locktime_time_locked = 0x00400000"
definition max_input_sequence :: uint32 where "max_input_sequence = 0xffffffff"

subsection \<open>Proof of work\<close>

definition retarget_proof_of_work_limit :: "currency \<Rightarrow> uint32" where
  "retarget_proof_of_work_limit cur = (if cur = litecoin then 0x1e0fffff else 0x1d00ffff)"

definition no_retarget_proof_of_work_limit :: uint32 where
  "no_retarget_proof_of_work_limit = 0x207fffff"

definition work_limit :: "currency \<Rightarrow> bool \<Rightarrow> uint32" where
  "work_limit cur retarget =
     (if retarget then retarget_proof_of_work_limit cur else no_retarget_proof_of_work_limit)"

definition timestamp_future_seconds :: nat where "timestamp_future_seconds = 2 * 60 * 60"

subsection \<open>Money\<close>

text \<open>
  \<^verbatim>\<open>max_money_recursive\<close> is the recursion the constant \<^verbatim>\<open>recursive_money\<close> optimizes out.
\<close>

function max_money_recursive :: "uint64 \<Rightarrow> uint64" where
  "max_money_recursive money =
     (if 0 < money then money + max_money_recursive (drop_bit 1 money) else 0)"
  by pat_completeness auto
termination
  by (relation "measure unat") (simp_all add: drop_bit_decreases word_gt_0)

declare max_money_recursive.simps [simp del]

definition satoshi_per_bitcoin :: uint64 where "satoshi_per_bitcoin = 100000000"

definition bitcoin_to_satoshi :: "uint64 \<Rightarrow> uint64" where
  "bitcoin_to_satoshi bitcoin_uints = bitcoin_uints * satoshi_per_bitcoin"

definition initial_block_subsidy_bitcoin :: uint64 where "initial_block_subsidy_bitcoin = 50"

definition initial_block_subsidy_satoshi :: uint64 where
  "initial_block_subsidy_satoshi = bitcoin_to_satoshi initial_block_subsidy_bitcoin"

definition retarget_subsidy_interval :: "currency \<Rightarrow> uint64" where
  "retarget_subsidy_interval cur = (if cur = litecoin then 840000 else 210000)"

definition no_retarget_subsidy_interval :: uint64 where "no_retarget_subsidy_interval = 150"

definition recursive_money :: uint64 where "recursive_money = 0x02540be3f5"

definition subsidy_interval :: "currency \<Rightarrow> bool \<Rightarrow> uint64" where
  "subsidy_interval cur retarget =
     (if retarget then retarget_subsidy_interval cur else no_retarget_subsidy_interval)"

definition max_money :: "currency \<Rightarrow> bool \<Rightarrow> uint64" where
  "max_money cur retarget = recursive_money * subsidy_interval cur retarget"

subsection \<open>Rule forks\<close>

definition easy_blocks_rule :: uint32 where "easy_blocks_rule = push_bit 0 1"
definition bip16_rule :: uint32 where "bip16_rule = push_bit 1 1"
definition bip30_rule :: uint32 where "bip30_rule = push_bit 2 1"
definition bip34_rule :: uint32 where "bip34_rule = push_bit 3 1"
definition bip66_rule :: uint32 where "bip66_rule = push_bit 4 1"
definition bip65_rule :: uint32 where "bip65_rule = push_bit 5 1"
definition bip90_rule :: uint32 where "bip90_rule = push_bit 6 1"
definition allow_collisions_rule :: uint32 where "allow_collisions_rule = push_bit 7 1"
definition bip68_rule :: uint32 where "bip68_rule = push_bit 8 1"
definition bip112_rule :: uint32 where "bip112_rule = push_bit 9 1"
definition bip113_rule :: uint32 where "bip113_rule = push_bit 10 1"
definition bip141_rule :: uint32 where "bip141_rule = push_bit 11 1"
definition bip143_rule :: uint32 where "bip143_rule = push_bit 12 1"
definition bip147_rule :: uint32 where "bip147_rule = push_bit 13 1"
definition cash_low_s_rule :: uint32 where "cash_low_s_rule = push_bit 15 1"
definition cash_verify_flags_script_enable_sighash_forkid :: uint32 where
  "cash_verify_flags_script_enable_sighash_forkid = push_bit 16 1"
definition cash_replay_protection :: uint32 where "cash_replay_protection = push_bit 17 1"
definition cash_checkdatasig :: uint32 where "cash_checkdatasig = push_bit 18 1"
definition retarget_rule :: uint32 where "retarget_rule = push_bit 30 1"

lemmas rule_fork_defs = easy_blocks_rule_def bip16_rule_def bip30_rule_def bip34_rule_def
  bip66_rule_def bip65_rule_def bip90_rule_def allow_collisions_rule_def bip68_rule_def
  bip112_rule_def bip113_rule_def bip141_rule_def bip143_rule_def bip147_rule_def cash_low_s_rule_def
  cash_verify_flags_script_enable_sighash_forkid_def cash_replay_protection_def cash_checkdatasig_def
  retarget_rule_def

definition bip34_activations :: uint32 where
  "bip34_activations = bip34_rule OR bip65_rule OR bip66_rule"
definition bip9_bit0_group :: uint32 where
  "bip9_bit0_group = bip68_rule OR bip112_rule OR bip113_rule"
definition bip9_bit1_group :: uint32 where
  "bip9_bit1_group = bip141_rule OR bip143_rule OR bip147_rule"

text \<open>\<^verbatim>\<open>script::is_enabled\<close>: the bit of the rule is set in the active forks.\<close>

definition is_enabled :: "uint32 \<Rightarrow> uint32 \<Rightarrow> bool" where
  "is_enabled active_forks fork \<longleftrightarrow> fork AND active_forks \<noteq> 0"

text \<open>The literal \<^verbatim>\<open>recursive_money\<close> is what the recursion computes.\<close>

lemma recursive_money_is_recursive:
  "recursive_money = max_money_recursive initial_block_subsidy_satoshi"
  by (simp add: recursive_money_def initial_block_subsidy_satoshi_def bitcoin_to_satoshi_def
      initial_block_subsidy_bitcoin_def satoshi_per_bitcoin_def max_money_recursive.simps)

end
