(* ===== verification/Point.thy ===== *)
theory Point
  imports Wire Constants
begin

text \<open>
  The output reference of \<^verbatim>\<open>src/chain/point.cpp\<close> and its byte iterator
  \<^verbatim>\<open>src/chain/point_iterator.cpp\<close>: wire (36 bytes) and store (34 bytes) serializations, the
  order used for uniqueness tests, the checksum and the null test.
\<close>

record point =
  point_hash :: hash_digest
  point_index :: uint32
  point_valid :: bool

definition null_hash :: hash_digest where "null_hash = replicate 32 0"
definition null_index :: uint32 where "null_index = 0xffffffff"

text \<open>The default constructor and \<^verbatim>\<open>reset\<close>.\<close>

definition point_reset :: point where
  "point_reset = \<lparr>point_hash = null_hash, point_index = 0, point_valid = False\<rparr>"

definition point_of :: "hash_digest \<Rightarrow> uint32 \<Rightarrow> point" where
  "point_of hash index = \<lparr>point_hash = hash, point_index = index, point_valid = True\<rparr>"

text \<open>The copy assignment: it keeps the validity flag of the target.\<close>

definition point_assign :: "point \<Rightarrow> point \<Rightarrow> point" where
  "point_assign target source =
     target\<lparr>point_hash := point_hash source, point_index := point_index source\<rparr>"

definition point_equal :: "point \<Rightarrow> point \<Rightarrow> bool" where
  "point_equal a b \<longleftrightarrow> point_hash a = point_hash b \<and> point_index a = point_index b"

definition point_less :: "point \<Rightarrow> point \<Rightarrow> bool" where
  "point_less a b \<longleftrightarrow>
     (if point_index a = point_index b then ord_class.lexordp (point_hash a) (point_hash b)
      else point_index a < point_index b)"

definition point_is_valid :: "point \<Rightarrow> bool" where
  "point_is_valid p \<longleftrightarrow> point_valid p \<or> point_hash p \<noteq> null_hash \<or> point_index p \<noteq> 0"

definition point_set_hash :: "point \<Rightarrow> hash_digest \<Rightarrow> point" where
  "point_set_hash p v = p\<lparr>point_valid := True, point_hash := v\<rparr>"

definition point_set_index :: "point \<Rightarrow> uint32 \<Rightarrow> point" where
  "point_set_index p v = p\<lparr>point_valid := True, point_index := v\<rparr>"

definition point_is_null :: "point \<Rightarrow> bool" where
  "point_is_null p \<longleftrightarrow> point_index p = null_index \<and> point_hash p = null_hash"

subsection \<open>Serialization\<close>

definition read_point_index :: "bool \<Rightarrow> uint32 rd" where
  "read_point_index wire =
     (if wire then read_4_bytes_little_endian
      else do {
        index \<leftarrow> read_2_bytes_little_endian;
        State_Monad.return (if unat index = max_uint16 then null_index else ucast index)
      })"

definition point_from_reader :: "bool \<Rightarrow> point rd" where
  "point_from_reader wire = do {
     hash \<leftarrow> read_hash;
     index \<leftarrow> read_point_index wire;
     ok \<leftarrow> source_valid;
     State_Monad.return
       (if ok then \<lparr>point_hash = hash, point_index = index, point_valid = True\<rparr> else point_reset)
   }"

definition point_to_data :: "bool \<Rightarrow> point \<Rightarrow> data_chunk" where
  "point_to_data wire p =
     write_hash (point_hash p) @
     (if wire then write_4_bytes_little_endian (point_index p)
      else write_2_bytes_little_endian (ucast (point_index p)))"

definition point_serialized_size :: "bool \<Rightarrow> nat" where
  "point_serialized_size wire = (if wire then 32 + 4 else 32 + 2)"

subsection \<open>Checksum\<close>

fun from_little_endian_unsafe :: "nat \<Rightarrow> nat \<Rightarrow> 'a::len word \<Rightarrow> data_chunk \<Rightarrow> 'a word" where
  "from_little_endian_unsafe 0 i out bs = out"
| "from_little_endian_unsafe (Suc n) i out bs =
     from_little_endian_unsafe n (Suc i) (out OR push_bit (8 * i) (ucast (hd bs))) (tl bs)"

definition checksum_mask :: uint64 where "checksum_mask = 0xffffffffffff8000"

definition point_checksum :: "point \<Rightarrow> uint64" where
  "point_checksum p =
     (let tx = from_little_endian_unsafe 8 0 0 (drop 12 (point_hash p)) :: uint64;
          index = ucast (point_index p) :: uint64
      in (tx AND checksum_mask) OR (index AND NOT checksum_mask))"

subsection \<open>Iterator\<close>

text \<open>An iterator walks the 34 bytes of the store form; \<^verbatim>\<open>unsigned\<close> has 32 bits.\<close>

record point_iterator =
  it_point :: point
  it_current :: uint32

definition point_size :: uint32 where "point_size = 34"

definition point_begin :: "point \<Rightarrow> point_iterator" where
  "point_begin p = \<lparr>it_point = p, it_current = 0\<rparr>"

definition point_end :: "point \<Rightarrow> point_iterator" where
  "point_end p = \<lparr>it_point = p, it_current = point_size\<rparr>"

definition iterator_bool :: "point_iterator \<Rightarrow> bool" where
  "iterator_bool it \<longleftrightarrow> it_current it < point_size"

definition iterator_current :: "point_iterator \<Rightarrow> byte" where
  "iterator_current it =
     (if it_current it < 32 then point_hash (it_point it) ! unat (it_current it)
      else ucast (drop_bit (8 * unat (it_current it - 32)) (point_index (it_point it))))"

definition iterator_increment :: "point_iterator \<Rightarrow> point_iterator" where
  "iterator_increment it =
     (if it_current it < point_size then it\<lparr>it_current := it_current it + 1\<rparr> else it)"

definition iterator_decrement :: "point_iterator \<Rightarrow> point_iterator" where
  "iterator_decrement it =
     (if it_current it > 0 then it\<lparr>it_current := it_current it - 1\<rparr> else it)"

definition iterator_increase :: "point_iterator \<Rightarrow> uint32 \<Rightarrow> point_iterator" where
  "iterator_increase it v =
     (let index = ceiling_add (it_current it) v
      in it\<lparr>it_current := max index point_size\<rparr>)"

definition iterator_decrease :: "point_iterator \<Rightarrow> uint32 \<Rightarrow> point_iterator" where
  "iterator_decrease it v = it\<lparr>it_current := floor_subtract (it_current it) v\<rparr>"

text \<open>The loop \<^verbatim>\<open>for (it = begin; it; ++it) out.push_back(*it)\<close>.\<close>

fun iterate_bytes :: "nat \<Rightarrow> point_iterator \<Rightarrow> data_chunk" where
  "iterate_bytes 0 it = []"
| "iterate_bytes (Suc n) it =
     (if iterator_bool it then iterator_current it # iterate_bytes n (iterator_increment it) else [])"

subsection \<open>Serialization round trips\<close>

definition point_wf :: "bool \<Rightarrow> point \<Rightarrow> bool" where
  "point_wf wire p \<longleftrightarrow>
     point_valid p \<and> length (point_hash p) = 32 \<and>
     (wire \<or> point_index p = null_index \<or> unat (point_index p) < max_uint16)"

lemma length_point_to_data [length_simps]:
  "length (point_hash p) = 32 \<Longrightarrow> length (point_to_data wire p) = point_serialized_size wire"
  by (simp add: point_to_data_def point_serialized_size_def write_hash_def length_simps)

lemma store_index:
  assumes "i = null_index \<or> unat i < 65535"
  shows "(if unat (ucast i :: uint16) = 65535 then null_index else ucast (ucast i :: uint16)) = i"
  using assms by (auto simp: null_index_def unat_ucast_mod word_unat_eq_iff)

lemma read_point_index_ready [wire_simps]:
  "run_state (read_point_index True) (ready (write_4_bytes_little_endian i @ rest)) = (i, ready rest)"
  "i = null_index \<or> unat i < max_uint16 \<Longrightarrow>
   run_state (read_point_index False) (ready (write_2_bytes_little_endian (ucast i) @ rest)) = (i, ready rest)"
  using store_index [of i] by (simp_all add: read_point_index_def wire_simps)

interpretation point_codec: codec "point_to_data wire" "point_from_reader wire" "point_wf wire" for wire
proof unfold_locales
  fix p rest
  assume "point_wf wire p"
  then show "run_state (point_from_reader wire) (ready (point_to_data wire p @ rest)) = (p, ready rest)"
    using hash_codec.read_write [of "point_hash p"]
    by (cases p; cases wire) (auto simp: point_wf_def point_from_reader_def point_to_data_def wire_simps)
qed

lemma keeps_failure_point [failure_rules]: "keeps_failure (point_from_reader wire)"
  by (auto simp: point_from_reader_def read_point_index_def intro!: failure_rules)

lemma point_from_reader_failed:
  "run_state (point_from_reader wire) r = (p, r') \<Longrightarrow> failbit r' \<Longrightarrow> p = point_reset"
  by (auto simp: point_from_reader_def run_source_valid split: prod.splits)

subsection \<open>The order\<close>

text \<open>\<open>operator<\<close> is a strict total order on hash and index, so sorting brings equal points together.\<close>

lemma point_less_irreflexive: "\<not> point_less p p"
  by (simp add: point_less_def lexordp_irreflexive')

lemma point_less_transitive: "point_less a b \<Longrightarrow> point_less b c \<Longrightarrow> point_less a c"
  by (auto simp: point_less_def intro: lexordp_trans split: if_splits)

lemma point_less_total: "point_less a b \<or> point_less b a \<or> point_equal a b"
  using lexordp_linear [of "point_hash a" "point_hash b"]
  by (auto simp: point_less_def point_equal_def)

subsection \<open>The iterator\<close>

lemma drop_nth_Cons: "n < length xs \<Longrightarrow> drop n xs = xs ! n # drop (Suc n) xs"
  by (rule Cons_nth_drop_Suc [symmetric])

lemma two_bytes:
  "write_2_bytes_little_endian (ucast (i :: uint32)) = [ucast i, ucast (drop_bit 8 i)]"
proof -
  have "ucast (ucast i :: uint16) = (ucast i :: byte)"
    "ucast (drop_bit 8 (ucast i :: uint16)) = (ucast (drop_bit 8 i) :: byte)"
    by (auto intro!: bit_word_eqI simp: bit_simps)
  then show ?thesis
    by (simp add: write_2_bytes_little_endian_def to_little_endian_def numeral_2_eq_2)
qed

lemma store_nth:
  assumes "length (point_hash p) = 32" and "n < 34"
  shows "point_to_data False p ! n = iterator_current \<lparr>it_point = p, it_current = of_nat n\<rparr>"
proof (cases "n < 32")
  case True
  then show ?thesis
    using assms(1) by (simp add: point_to_data_def write_hash_def nth_append iterator_current_def
        word_less_nat_alt unat_of_nat)
next
  case False
  then consider "n = 32" | "n = 33" using assms(2) by linarith
  then show ?thesis
    using assms(1) by cases (simp_all add: point_to_data_def write_hash_def nth_append
        iterator_current_def two_bytes)
qed

lemma iterate_from:
  assumes "length (point_hash p) = 32"
  shows "n \<le> 34 \<Longrightarrow> iterate_bytes (34 - n) \<lparr>it_point = p, it_current = of_nat n\<rparr> = drop n (point_to_data False p)"
proof (induction "34 - n" arbitrary: n)
  case 0
  then show ?case using assms by (simp add: length_simps point_serialized_size_def)
next
  case (Suc k)
  then have n: "n < 34" "34 - n = Suc (34 - Suc n)" by auto
  have "length (point_to_data False p) = 34"
    using assms by (simp add: length_simps point_serialized_size_def)
  moreover have "iterator_bool \<lparr>it_point = p, it_current = of_nat n\<rparr>"
    using n(1) by (simp add: iterator_bool_def point_size_def word_less_nat_alt unat_of_nat)
  moreover have "iterator_increment \<lparr>it_point = p, it_current = of_nat n\<rparr> = \<lparr>it_point = p, it_current = of_nat (Suc n)\<rparr>"
    using n(1) by (simp add: iterator_increment_def point_size_def word_less_nat_alt unat_of_nat)
  ultimately show ?case
    using Suc.hyps(1) [of "Suc n"] Suc.hyps(2) n store_nth [OF assms n(1)]
    by (simp only: n(2) iterate_bytes.simps drop_nth_Cons) simp
qed

lemma increments:
  "n \<le> 34 \<Longrightarrow> (iterator_increment ^^ n) (point_begin p) = \<lparr>it_point = p, it_current = of_nat n\<rparr>"
proof (induction n)
  case (Suc n)
  then have "iterator_increment \<lparr>it_point = p, it_current = of_nat n\<rparr> = \<lparr>it_point = p, it_current = of_nat (Suc n)\<rparr>"
    by (simp add: iterator_increment_def point_size_def word_less_nat_alt unat_of_nat)
  with Suc show ?case by (simp only: funpow.simps comp_apply)
qed (simp add: point_begin_def)

text \<open>
  Iterating a point with point_iterator byte by byte yields exactly its store
  serialization, and thirty-four increments reach the end iterator.
\<close>

theorem point_iteration_is_store_form:
  assumes "length (point_hash p) = 32"
  shows "iterate_bytes 34 (point_begin p) = point_to_data False p \<and>
    (iterator_increment ^^ 34) (point_begin p) = point_end p"
proof
  show "iterate_bytes 34 (point_begin p) = point_to_data False p"
    using iterate_from [OF assms, of 0] by (simp add: point_begin_def)
  have "(iterator_increment ^^ 34) (point_begin p) = \<lparr>it_point = p, it_current = of_nat 34\<rparr>"
    by (rule increments) (rule order_refl)
  also have "\<dots> = point_end p" by (simp add: point_end_def point_size_def)
  finally show "(iterator_increment ^^ 34) (point_begin p) = point_end p" .
qed

theorem point_iteration_is_store_form_witness:
  "iterate_bytes 34 (point_begin (point_of (replicate 32 7) 5)) = point_to_data False (point_of (replicate 32 7) 5)"
  using point_iteration_is_store_form [of "point_of (replicate 32 7) 5"] by (simp add: point_of_def)

text \<open>
  Adding any offset to a point iterator makes it an end iterator: increase takes the
  maximum where the bound needs the minimum.
\<close>

theorem iterator_increase_reaches_end:
  "\<not> iterator_bool (iterator_increase it v)"
  by (simp add: iterator_bool_def iterator_increase_def Let_def)

text \<open>
  The upper 49 bits of point::checksum are those of the hash word and the lower fifteen
  are the index modulo 2^15.
\<close>

theorem point_checksum_parts:
  "point_checksum p AND checksum_mask =
     (from_little_endian_unsafe 8 0 0 (drop 12 (point_hash p)) :: uint64) AND checksum_mask \<and>
   unat (point_checksum p AND NOT checksum_mask) = unat (point_index p) mod 2 ^ 15"
proof
  let ?tx = "from_little_endian_unsafe 8 0 0 (drop 12 (point_hash p)) :: uint64"
  let ?index = "ucast (point_index p) :: uint64"
  show "point_checksum p AND checksum_mask = ?tx AND checksum_mask"
    unfolding point_checksum_def Let_def by (rule bit_word_eqI) (auto simp: bit_simps)
  have low: "NOT checksum_mask = mask 15"
    by (simp add: checksum_mask_def word_eq_iff_unsigned take_bit_eq_mod mask_eq_exp_minus_1)
  have "point_checksum p AND NOT checksum_mask = ?index AND NOT checksum_mask"
    unfolding point_checksum_def Let_def by (rule bit_word_eqI) (auto simp: bit_simps)
  then have "unat (point_checksum p AND NOT checksum_mask) = unat (take_bit 15 ?index)"
    by (simp only: low take_bit_eq_mask)
  then show "unat (point_checksum p AND NOT checksum_mask) = unat (point_index p) mod 2 ^ 15"
    by (simp add: unat_ucast_mod unat_mod take_bit_eq_mod mod_mod_cancel)
qed

end
