(* ===== verification/Message.thy ===== *)
theory Message
  imports Checksum Constants Point
begin

text \<open>
  The messages of the peer-to-peer protocol that carry no blocks or transactions: \<^verbatim>\<open>src/message/\<close>
  with one group per class, in which the record is the members, \<open>x_from_data\<close> the reader overload of
  \<^verbatim>\<open>from_data\<close> (every class resets itself first, so the result does not depend on the instance),
  \<open>x_to_data\<close> the writer overload of \<^verbatim>\<open>to_data\<close>, \<open>x_size\<close> is \<^verbatim>\<open>serialized_size\<close>, and \<open>x_is_valid\<close> is
  \<^verbatim>\<open>is_valid\<close>.  The locale \<open>message_codec\<close> is the contract of a message type; the frame that
  \<^verbatim>\<open>message::serialize\<close> puts around a payload is verified against it once, for all of them.
\<close>

text \<open>Strings are byte lists; \<open>ascii\<close> converts the literals of the sources.\<close>

definition ascii :: "string \<Rightarrow> data_chunk" where
  "ascii s = map of_char s"

subsection \<open>Protocol levels\<close>

abbreviation level_bip152_fix :: uint32 where "level_bip152_fix \<equiv> 70015"
abbreviation level_bip152 :: uint32 where "level_bip152 \<equiv> 70014"
abbreviation level_bip133 :: uint32 where "level_bip133 \<equiv> 70013"
abbreviation level_bip130 :: uint32 where "level_bip130 \<equiv> 70012"
abbreviation level_bip61 :: uint32 where "level_bip61 \<equiv> 70002"
abbreviation level_bip37 :: uint32 where "level_bip37 \<equiv> 70001"
abbreviation level_bip35 :: uint32 where "level_bip35 \<equiv> 60002"
abbreviation level_bip31 :: uint32 where "level_bip31 \<equiv> 60001"
abbreviation level_minimum :: uint32 where "level_minimum \<equiv> 31402"
abbreviation level_canonical :: uint32 where "level_canonical \<equiv> 0"

definition level_headers :: "currency \<Rightarrow> uint32" where
  "level_headers cur = (if cur = litecoin then 70002 else 31800)"

abbreviation command_size :: nat where "command_size \<equiv> 12"
abbreviation max_address :: nat where "max_address \<equiv> 1000"
abbreviation max_filter_add :: nat where "max_filter_add \<equiv> 520"
abbreviation max_filter_functions :: uint32 where "max_filter_functions \<equiv> 50"
abbreviation max_filter_load :: nat where "max_filter_load \<equiv> 36000"
abbreviation max_get_blocks :: nat where "max_get_blocks \<equiv> 500"
abbreviation max_get_headers :: nat where "max_get_headers \<equiv> 2000"
abbreviation max_inventory :: nat where "max_inventory \<equiv> 50000"

subsection \<open>Reading of lists\<close>

text \<open>
  The loop \<^verbatim>\<open>for (i = 0; i < count && source; ++i) list.push_back(read)\<close>.  Where the bound of the loop is
  the capacity reserved just before, the count is what was reserved.
\<close>

fun read_pushed :: "'a rd \<Rightarrow> nat \<Rightarrow> 'a list rd" where
  "read_pushed rd 0 = State_Monad.return []"
| "read_pushed rd (Suc n) = do {
     ok \<leftarrow> source_valid;
     if ok then do { x \<leftarrow> rd; xs \<leftarrow> read_pushed rd n; State_Monad.return (x # xs) }
     else State_Monad.return []
   }"

definition invalidate_if :: "bool \<Rightarrow> unit rd" where
  "invalidate_if b = (if b then invalidate else State_Monad.return ())"

lemma run_invalidate_if [wire_simps]:
  "run_state (invalidate_if b) r = ((), if b then r\<lparr>failbit := True\<rparr> else r)"
  by (simp add: invalidate_if_def invalidate_def)

text \<open>Elements of lists whose wire forms follow each other.\<close>

context codec
begin

lemma pushed:
  "list_all wf xs \<Longrightarrow>
   run_state (read_pushed rd (length xs)) (ready (concat (map wr xs) @ rest)) = (xs, ready rest)"
  by (induction xs) (simp_all add: read_write run_source_valid)

end

subsection \<open>The contract of a message\<close>

text \<open>
  The payload buffer of a message holds exactly what it was serialized to, so the contract is about
  reading a whole stream: the instance comes back, the stream has not failed, and the size
  announced is the size written.
\<close>

locale message_codec =
  fixes to_data :: "uint32 \<Rightarrow> 'a \<Rightarrow> data_chunk"
    and from_data :: "uint32 \<Rightarrow> 'a rd"
    and serialized_size :: "uint32 \<Rightarrow> 'a \<Rightarrow> nat"
    and ok :: "uint32 \<Rightarrow> 'a \<Rightarrow> bool"
  assumes payload: "ok v x \<Longrightarrow> \<exists>r. run_state (from_data v) (ready (to_data v x)) = (x, r) \<and> \<not> failbit r"
    and announced: "ok v x \<Longrightarrow> length (to_data v x) = serialized_size v x"

text \<open>A codec with the right size is a message.\<close>

locale sized_codec =
  fixes to_data :: "uint32 \<Rightarrow> 'a \<Rightarrow> data_chunk"
    and from_data :: "uint32 \<Rightarrow> 'a rd"
    and serialized_size :: "uint32 \<Rightarrow> 'a \<Rightarrow> nat"
    and ok :: "uint32 \<Rightarrow> 'a \<Rightarrow> bool"
  assumes stream: "ok v x \<Longrightarrow> run_state (from_data v) (ready (to_data v x @ rest)) = (x, ready rest)"
    and size_law: "ok v x \<Longrightarrow> length (to_data v x) = serialized_size v x"

sublocale sized_codec \<subseteq> codec "to_data v" "from_data v" "ok v" for v
  by unfold_locales (rule stream)

sublocale sized_codec \<subseteq> message_codec to_data from_data serialized_size ok
  using read_back size_law by unfold_locales auto

subsection \<open>network\_address\<close>

record network_address =
  na_timestamp :: uint32
  na_services :: uint64
  na_ip :: data_chunk
  na_port :: uint16

abbreviation null_address :: data_chunk where "null_address \<equiv> replicate 16 0"

definition network_address_default :: network_address where
  "network_address_default = \<lparr>na_timestamp = 0, na_services = 0, na_ip = null_address, na_port = 0\<rparr>"

definition network_address_is_valid :: "network_address \<Rightarrow> bool" where
  "network_address_is_valid a \<longleftrightarrow>
     na_timestamp a \<noteq> 0 \<or> na_services a \<noteq> 0 \<or> na_port a \<noteq> 0 \<or> na_ip a \<noteq> null_address"

text \<open>The address bytes are moved into the instance after the reset of a failed read.\<close>

definition network_address_from_data :: "bool \<Rightarrow> network_address rd" where
  "network_address_from_data with_timestamp = do {
     time \<leftarrow> (if with_timestamp then read_4_bytes_little_endian else State_Monad.return 0);
     services \<leftarrow> read_8_bytes_little_endian;
     ip \<leftarrow> read_bytes 16;
     port \<leftarrow> read_2_bytes_big_endian;
     ok \<leftarrow> source_valid;
     (let a = (if ok then \<lparr>na_timestamp = time, na_services = services, na_ip = ip, na_port = port\<rparr>
               else network_address_default)
      in State_Monad.return (a\<lparr>na_ip := ip\<rparr>))
   }"

definition network_address_to_data :: "bool \<Rightarrow> network_address \<Rightarrow> data_chunk" where
  "network_address_to_data with_timestamp a =
     (if with_timestamp then write_4_bytes_little_endian (na_timestamp a) else []) @
     write_8_bytes_little_endian (na_services a) @
     write_bytes (na_ip a) @
     write_2_bytes_big_endian (na_port a)"

definition network_address_size :: "bool \<Rightarrow> nat" where
  "network_address_size with_timestamp = 26 + (if with_timestamp then 4 else 0)"

text \<open>Equality ignores the timestamp.\<close>

definition network_address_equal :: "network_address \<Rightarrow> network_address \<Rightarrow> bool" where
  "network_address_equal a b \<longleftrightarrow> na_services a = na_services b \<and> na_port a = na_port b \<and> na_ip a = na_ip b"

definition network_address_wf :: "bool \<Rightarrow> network_address \<Rightarrow> bool" where
  "network_address_wf with_timestamp a \<longleftrightarrow> length (na_ip a) = 16 \<and> (\<not> with_timestamp \<longrightarrow> na_timestamp a = 0)"

interpretation network_address_codec:
  codec "network_address_to_data t" "network_address_from_data t" "network_address_wf t" for t
proof unfold_locales
  fix a rest
  assume "network_address_wf t a"
  then show "run_state (network_address_from_data t) (ready (network_address_to_data t a @ rest)) = (a, ready rest)"
    by (cases a) (auto simp: network_address_wf_def network_address_from_data_def network_address_to_data_def
        write_bytes_def wire_simps)
qed

lemma length_network_address_to_data [length_simps]:
  "network_address_wf t a \<Longrightarrow> length (network_address_to_data t a) = network_address_size t"
  by (simp add: network_address_wf_def network_address_to_data_def network_address_size_def write_bytes_def length_simps)

subsection \<open>address\<close>

type_synonym address = "network_address list"

definition address_is_valid :: "address \<Rightarrow> bool" where
  "address_is_valid a \<longleftrightarrow> a \<noteq> []"

definition address_from_data :: "uint32 \<Rightarrow> address rd" where
  "address_from_data v = do {
     count \<leftarrow> read_size_little_endian;
     invalidate_if (count > max_address);
     addresses \<leftarrow> (if count > max_address then State_Monad.return []
                  else read_elements (network_address_from_data True) network_address_default count);
     ok \<leftarrow> source_valid;
     State_Monad.return (if ok then addresses else [])
   }"

definition address_to_data :: "uint32 \<Rightarrow> address \<Rightarrow> data_chunk" where
  "address_to_data v a =
     write_variable_little_endian (of_nat (length a)) @ concat (map (network_address_to_data True) a)"

definition address_size :: "uint32 \<Rightarrow> address \<Rightarrow> nat" where
  "address_size v a = variable_uint_size (of_nat (length a)) + length a * network_address_size True"

definition address_wf :: "uint32 \<Rightarrow> address \<Rightarrow> bool" where
  "address_wf v a \<longleftrightarrow> length a \<le> max_address \<and> list_all (network_address_wf True) a"

lemma small_size: "n \<le> 50000 \<Longrightarrow> n \<le> max_size_t"
  by (simp add: max_size_t_def)

interpretation address_message: sized_codec address_to_data address_from_data address_size address_wf
proof unfold_locales
  fix v a rest
  assume ok: "address_wf v a"
  then show "run_state (address_from_data v) (ready (address_to_data v a @ rest)) = (a, ready rest)"
    using network_address_codec.elements [of True a network_address_default rest]
    by (simp add: address_wf_def address_from_data_def address_to_data_def wire_simps small_size)
  show "length (address_to_data v a) = address_size v a"
    using ok by (simp add: address_wf_def address_to_data_def address_size_def list_all_iff length_simps
        length_concat_map_const [where k = "network_address_size True"])
qed

subsection \<open>verack, get\_address\<close>

text \<open>Messages without members or payload.\<close>

definition verack_from_data :: "uint32 \<Rightarrow> unit rd" where
  "verack_from_data v = State_Monad.return ()"
definition verack_to_data :: "uint32 \<Rightarrow> unit \<Rightarrow> data_chunk" where
  "verack_to_data v x = []"
definition verack_size :: "uint32 \<Rightarrow> unit \<Rightarrow> nat" where
  "verack_size v x = 0"

definition get_address_from_data :: "uint32 \<Rightarrow> unit rd" where
  "get_address_from_data v = State_Monad.return ()"
definition get_address_to_data :: "uint32 \<Rightarrow> unit \<Rightarrow> data_chunk" where
  "get_address_to_data v x = []"
definition get_address_size :: "uint32 \<Rightarrow> unit \<Rightarrow> nat" where
  "get_address_size v x = 0"

interpretation verack_message: sized_codec verack_to_data verack_from_data verack_size "\<lambda>_ _. True"
  by unfold_locales (simp_all add: verack_from_data_def verack_to_data_def verack_size_def)

interpretation get_address_message: sized_codec get_address_to_data get_address_from_data get_address_size "\<lambda>_ _. True"
  by unfold_locales (simp_all add: get_address_from_data_def get_address_to_data_def get_address_size_def)

subsection \<open>send\_headers, memory\_pool, filter\_clear\<close>

text \<open>
  Messages without payload whose only member says that the version was insufficient: a default
  instance is invalid and only a successful read makes a valid one.
\<close>

record send_headers = sh_insufficient_version :: bool
record memory_pool = mp_insufficient_version :: bool
record filter_clear = fc_insufficient_version :: bool

definition send_headers_default :: send_headers where
  "send_headers_default = \<lparr>sh_insufficient_version = True\<rparr>"
definition send_headers_is_valid :: "send_headers \<Rightarrow> bool" where
  "send_headers_is_valid x \<longleftrightarrow> \<not> sh_insufficient_version x"
definition send_headers_from_data :: "uint32 \<Rightarrow> send_headers rd" where
  "send_headers_from_data v = do {
     invalidate_if (v < level_bip130);
     ok \<leftarrow> source_valid;
     State_Monad.return (if ok then \<lparr>sh_insufficient_version = v < level_bip130\<rparr> else send_headers_default)
   }"
definition send_headers_to_data :: "uint32 \<Rightarrow> send_headers \<Rightarrow> data_chunk" where
  "send_headers_to_data v x = []"
definition send_headers_size :: "uint32 \<Rightarrow> send_headers \<Rightarrow> nat" where
  "send_headers_size v x = 0"
definition send_headers_wf :: "uint32 \<Rightarrow> send_headers \<Rightarrow> bool" where
  "send_headers_wf v x \<longleftrightarrow> level_bip130 \<le> v \<and> send_headers_is_valid x"

definition memory_pool_default :: memory_pool where
  "memory_pool_default = \<lparr>mp_insufficient_version = True\<rparr>"
definition memory_pool_is_valid :: "memory_pool \<Rightarrow> bool" where
  "memory_pool_is_valid x \<longleftrightarrow> \<not> mp_insufficient_version x"
definition memory_pool_from_data :: "uint32 \<Rightarrow> memory_pool rd" where
  "memory_pool_from_data v = do {
     invalidate_if (v < level_bip35);
     ok \<leftarrow> source_valid;
     State_Monad.return (if ok then \<lparr>mp_insufficient_version = False\<rparr> else memory_pool_default)
   }"
definition memory_pool_to_data :: "uint32 \<Rightarrow> memory_pool \<Rightarrow> data_chunk" where
  "memory_pool_to_data v x = []"
definition memory_pool_size :: "uint32 \<Rightarrow> memory_pool \<Rightarrow> nat" where
  "memory_pool_size v x = 0"
definition memory_pool_wf :: "uint32 \<Rightarrow> memory_pool \<Rightarrow> bool" where
  "memory_pool_wf v x \<longleftrightarrow> level_bip35 \<le> v \<and> memory_pool_is_valid x"

definition filter_clear_default :: filter_clear where
  "filter_clear_default = \<lparr>fc_insufficient_version = True\<rparr>"
definition filter_clear_is_valid :: "filter_clear \<Rightarrow> bool" where
  "filter_clear_is_valid x \<longleftrightarrow> \<not> fc_insufficient_version x"
definition filter_clear_from_data :: "uint32 \<Rightarrow> filter_clear rd" where
  "filter_clear_from_data v = do {
     invalidate_if (v < level_bip37);
     ok \<leftarrow> source_valid;
     State_Monad.return (if ok then \<lparr>fc_insufficient_version = False\<rparr> else filter_clear_default)
   }"
definition filter_clear_to_data :: "uint32 \<Rightarrow> filter_clear \<Rightarrow> data_chunk" where
  "filter_clear_to_data v x = []"
definition filter_clear_size :: "uint32 \<Rightarrow> filter_clear \<Rightarrow> nat" where
  "filter_clear_size v x = 0"
definition filter_clear_wf :: "uint32 \<Rightarrow> filter_clear \<Rightarrow> bool" where
  "filter_clear_wf v x \<longleftrightarrow> level_bip37 \<le> v \<and> filter_clear_is_valid x"

interpretation send_headers_message: sized_codec send_headers_to_data send_headers_from_data send_headers_size send_headers_wf
  by unfold_locales (auto simp: send_headers_from_data_def send_headers_to_data_def send_headers_size_def
      send_headers_wf_def send_headers_is_valid_def wire_simps)

interpretation memory_pool_message: sized_codec memory_pool_to_data memory_pool_from_data memory_pool_size memory_pool_wf
  by unfold_locales (auto simp: memory_pool_from_data_def memory_pool_to_data_def memory_pool_size_def
      memory_pool_wf_def memory_pool_is_valid_def wire_simps)

interpretation filter_clear_message: sized_codec filter_clear_to_data filter_clear_from_data filter_clear_size filter_clear_wf
  by unfold_locales (auto simp: filter_clear_from_data_def filter_clear_to_data_def filter_clear_size_def
      filter_clear_wf_def filter_clear_is_valid_def wire_simps)

subsection \<open>pong, ping\<close>

record pong =
  pong_nonce :: uint64
  pong_valid :: bool

definition pong_default :: pong where "pong_default = \<lparr>pong_nonce = 0, pong_valid = False\<rparr>"
definition pong_of :: "uint64 \<Rightarrow> pong" where "pong_of n = \<lparr>pong_nonce = n, pong_valid = True\<rparr>"
definition pong_is_valid :: "pong \<Rightarrow> bool" where
  "pong_is_valid p \<longleftrightarrow> pong_valid p \<or> pong_nonce p \<noteq> 0"
definition pong_from_data :: "uint32 \<Rightarrow> pong rd" where
  "pong_from_data v = do {
     n \<leftarrow> read_8_bytes_little_endian;
     ok \<leftarrow> source_valid;
     State_Monad.return (if ok then \<lparr>pong_nonce = n, pong_valid = True\<rparr> else pong_default)
   }"
definition pong_to_data :: "uint32 \<Rightarrow> pong \<Rightarrow> data_chunk" where
  "pong_to_data v p = write_8_bytes_little_endian (pong_nonce p)"
definition pong_size :: "uint32 \<Rightarrow> pong \<Rightarrow> nat" where "pong_size v p = 8"

record ping =
  ping_nonce :: uint64
  ping_nonceless :: bool
  ping_valid :: bool

definition ping_default :: ping where "ping_default = \<lparr>ping_nonce = 0, ping_nonceless = False, ping_valid = False\<rparr>"
definition ping_of :: "uint64 \<Rightarrow> ping" where "ping_of n = \<lparr>ping_nonce = n, ping_nonceless = False, ping_valid = True\<rparr>"
definition ping_is_valid :: "ping \<Rightarrow> bool" where
  "ping_is_valid p \<longleftrightarrow> ping_valid p \<or> ping_nonceless p \<or> ping_nonce p \<noteq> 0"
definition ping_from_data :: "uint32 \<Rightarrow> ping rd" where
  "ping_from_data v =
     (let nonceless = v < level_bip31 in do {
        n \<leftarrow> (if \<not> nonceless then read_8_bytes_little_endian else State_Monad.return 0);
        ok \<leftarrow> source_valid;
        State_Monad.return (if ok then \<lparr>ping_nonce = n, ping_nonceless = nonceless, ping_valid = True\<rparr> else ping_default)
      })"
definition ping_to_data :: "uint32 \<Rightarrow> ping \<Rightarrow> data_chunk" where
  "ping_to_data v p = (if v \<ge> level_bip31 then write_8_bytes_little_endian (ping_nonce p) else [])"
definition ping_size :: "uint32 \<Rightarrow> ping \<Rightarrow> nat" where
  "ping_size v p = (if v < level_bip31 then 0 else 8)"
definition ping_wf :: "uint32 \<Rightarrow> ping \<Rightarrow> bool" where
  "ping_wf v p \<longleftrightarrow> ping_valid p \<and> ping_nonceless p = (v < level_bip31) \<and> (v < level_bip31 \<longrightarrow> ping_nonce p = 0)"

interpretation pong_message: sized_codec pong_to_data pong_from_data pong_size "\<lambda>_. pong_valid"
  by unfold_locales (auto simp: pong_from_data_def pong_to_data_def pong_size_def wire_simps length_simps)

interpretation ping_message: sized_codec ping_to_data ping_from_data ping_size ping_wf
  by unfold_locales (auto simp: ping_from_data_def ping_to_data_def ping_size_def ping_wf_def wire_simps length_simps)

subsection \<open>fee\_filter, send\_compact\<close>

record fee_filter =
  minimum_fee :: uint64
  ff_insufficient_version :: bool

definition fee_filter_default :: fee_filter where
  "fee_filter_default = \<lparr>minimum_fee = 0, ff_insufficient_version = True\<rparr>"
definition fee_filter_of :: "uint64 \<Rightarrow> fee_filter" where
  "fee_filter_of m = \<lparr>minimum_fee = m, ff_insufficient_version = False\<rparr>"
definition fee_filter_is_valid :: "fee_filter \<Rightarrow> bool" where
  "fee_filter_is_valid f \<longleftrightarrow> \<not> ff_insufficient_version f \<or> minimum_fee f > 0"
definition set_minimum_fee :: "fee_filter \<Rightarrow> uint64 \<Rightarrow> fee_filter" where
  "set_minimum_fee f v = f\<lparr>minimum_fee := v, ff_insufficient_version := False\<rparr>"
definition fee_filter_from_data :: "uint32 \<Rightarrow> fee_filter rd" where
  "fee_filter_from_data v = do {
     m \<leftarrow> read_8_bytes_little_endian;
     invalidate_if (v < level_bip133);
     ok \<leftarrow> source_valid;
     State_Monad.return (if ok then \<lparr>minimum_fee = m, ff_insufficient_version = False\<rparr> else fee_filter_default)
   }"
definition fee_filter_to_data :: "uint32 \<Rightarrow> fee_filter \<Rightarrow> data_chunk" where
  "fee_filter_to_data v f = write_8_bytes_little_endian (minimum_fee f)"
definition fee_filter_size :: "uint32 \<Rightarrow> fee_filter \<Rightarrow> nat" where "fee_filter_size v f = 8"
definition fee_filter_wf :: "uint32 \<Rightarrow> fee_filter \<Rightarrow> bool" where
  "fee_filter_wf v f \<longleftrightarrow> level_bip133 \<le> v \<and> \<not> ff_insufficient_version f"

record send_compact =
  high_bandwidth_mode :: bool
  sc_version :: uint64

definition send_compact_default :: send_compact where
  "send_compact_default = \<lparr>high_bandwidth_mode = False, sc_version = 0\<rparr>"
definition send_compact_is_valid :: "send_compact \<Rightarrow> bool" where
  "send_compact_is_valid x \<longleftrightarrow> sc_version x \<noteq> 0"
definition send_compact_from_data :: "uint32 \<Rightarrow> send_compact rd" where
  "send_compact_from_data v = do {
     mode \<leftarrow> read_byte;
     invalidate_if (mode > 1);
     n \<leftarrow> read_8_bytes_little_endian;
     invalidate_if (v < level_bip152);
     ok \<leftarrow> source_valid;
     State_Monad.return (if ok then \<lparr>high_bandwidth_mode = (mode = 1), sc_version = n\<rparr> else send_compact_default)
   }"
definition send_compact_to_data :: "uint32 \<Rightarrow> send_compact \<Rightarrow> data_chunk" where
  "send_compact_to_data v x =
     write_byte (if high_bandwidth_mode x then 1 else 0) @ write_8_bytes_little_endian (sc_version x)"
definition send_compact_size :: "uint32 \<Rightarrow> send_compact \<Rightarrow> nat" where "send_compact_size v x = 9"

interpretation fee_filter_message: sized_codec fee_filter_to_data fee_filter_from_data fee_filter_size fee_filter_wf
  by unfold_locales (auto simp: fee_filter_from_data_def fee_filter_to_data_def fee_filter_size_def fee_filter_wf_def
      wire_simps length_simps)

interpretation send_compact_message:
  sized_codec send_compact_to_data send_compact_from_data send_compact_size "\<lambda>v _. level_bip152 \<le> v"
  by unfold_locales (auto simp: send_compact_from_data_def send_compact_to_data_def send_compact_size_def write_byte_def
      wire_simps length_simps)

subsection \<open>filter\_add, filter\_load, alert\<close>

type_synonym filter_add = data_chunk

definition filter_add_is_valid :: "filter_add \<Rightarrow> bool" where
  "filter_add_is_valid d \<longleftrightarrow> d \<noteq> []"
definition filter_add_from_data :: "uint32 \<Rightarrow> filter_add rd" where
  "filter_add_from_data v = do {
     n \<leftarrow> read_size_little_endian;
     invalidate_if (n > max_filter_add);
     d \<leftarrow> (if n > max_filter_add then State_Monad.return [] else read_bytes n);
     invalidate_if (v < level_bip37);
     ok \<leftarrow> source_valid;
     State_Monad.return (if ok then d else [])
   }"
definition filter_add_to_data :: "uint32 \<Rightarrow> filter_add \<Rightarrow> data_chunk" where
  "filter_add_to_data v d = write_variable_little_endian (of_nat (length d)) @ write_bytes d"
definition filter_add_size :: "uint32 \<Rightarrow> filter_add \<Rightarrow> nat" where
  "filter_add_size v d = variable_uint_size (of_nat (length d)) + length d"
definition filter_add_wf :: "uint32 \<Rightarrow> filter_add \<Rightarrow> bool" where
  "filter_add_wf v d \<longleftrightarrow> level_bip37 \<le> v \<and> length d \<le> max_filter_add"

record filter_load =
  fl_filter :: data_chunk
  fl_hash_functions :: uint32
  fl_tweak :: uint32
  fl_flags :: byte

definition filter_load_default :: filter_load where
  "filter_load_default = \<lparr>fl_filter = [], fl_hash_functions = 0, fl_tweak = 0, fl_flags = 0\<rparr>"
definition filter_load_is_valid :: "filter_load \<Rightarrow> bool" where
  "filter_load_is_valid f \<longleftrightarrow> fl_filter f \<noteq> [] \<or> fl_hash_functions f \<noteq> 0 \<or> fl_tweak f \<noteq> 0 \<or> fl_flags f \<noteq> 0"
definition filter_load_from_data :: "uint32 \<Rightarrow> filter_load rd" where
  "filter_load_from_data v = do {
     n \<leftarrow> read_size_little_endian;
     invalidate_if (n > max_filter_load);
     d \<leftarrow> (if n > max_filter_load then State_Monad.return [] else read_bytes n);
     functions \<leftarrow> read_4_bytes_little_endian;
     invalidate_if (functions > max_filter_functions);
     tweak \<leftarrow> read_4_bytes_little_endian;
     flags \<leftarrow> read_byte;
     invalidate_if (v < level_bip37);
     ok \<leftarrow> source_valid;
     State_Monad.return
       (if ok then \<lparr>fl_filter = d, fl_hash_functions = functions, fl_tweak = tweak, fl_flags = flags\<rparr>
        else filter_load_default)
   }"
definition filter_load_to_data :: "uint32 \<Rightarrow> filter_load \<Rightarrow> data_chunk" where
  "filter_load_to_data v f =
     write_variable_little_endian (of_nat (length (fl_filter f))) @ write_bytes (fl_filter f) @
     write_4_bytes_little_endian (fl_hash_functions f) @ write_4_bytes_little_endian (fl_tweak f) @
     write_byte (fl_flags f)"
definition filter_load_size :: "uint32 \<Rightarrow> filter_load \<Rightarrow> nat" where
  "filter_load_size v f =
     1 + 4 + 4 + variable_uint_size (of_nat (length (fl_filter f))) + length (fl_filter f)"
definition filter_load_wf :: "uint32 \<Rightarrow> filter_load \<Rightarrow> bool" where
  "filter_load_wf v f \<longleftrightarrow>
     level_bip37 \<le> v \<and> length (fl_filter f) \<le> max_filter_load \<and> fl_hash_functions f \<le> max_filter_functions"

record alert =
  alert_payload_data :: data_chunk
  alert_signature :: data_chunk

definition alert_default :: alert where "alert_default = \<lparr>alert_payload_data = [], alert_signature = []\<rparr>"
definition alert_is_valid :: "alert \<Rightarrow> bool" where
  "alert_is_valid a \<longleftrightarrow> alert_payload_data a \<noteq> [] \<or> alert_signature a \<noteq> []"
definition alert_from_data :: "uint32 \<Rightarrow> alert rd" where
  "alert_from_data v = do {
     n \<leftarrow> read_size_little_endian;
     payload \<leftarrow> read_bytes n;
     m \<leftarrow> read_size_little_endian;
     signature \<leftarrow> read_bytes m;
     ok \<leftarrow> source_valid;
     State_Monad.return
       (if ok then \<lparr>alert_payload_data = payload, alert_signature = signature\<rparr> else alert_default)
   }"
definition alert_to_data :: "uint32 \<Rightarrow> alert \<Rightarrow> data_chunk" where
  "alert_to_data v a =
     write_variable_little_endian (of_nat (length (alert_payload_data a))) @ write_bytes (alert_payload_data a) @
     write_variable_little_endian (of_nat (length (alert_signature a))) @ write_bytes (alert_signature a)"
definition alert_size :: "uint32 \<Rightarrow> alert \<Rightarrow> nat" where
  "alert_size v a =
     variable_uint_size (of_nat (length (alert_payload_data a))) + length (alert_payload_data a) +
     variable_uint_size (of_nat (length (alert_signature a))) + length (alert_signature a)"
definition alert_wf :: "uint32 \<Rightarrow> alert \<Rightarrow> bool" where
  "alert_wf v a \<longleftrightarrow> length (alert_payload_data a) \<le> max_size_t \<and> length (alert_signature a) \<le> max_size_t"

interpretation filter_add_message: sized_codec filter_add_to_data filter_add_from_data filter_add_size filter_add_wf
  by unfold_locales (auto simp: filter_add_from_data_def filter_add_to_data_def filter_add_size_def filter_add_wf_def
      write_bytes_def wire_simps length_simps small_size)

interpretation filter_load_message: sized_codec filter_load_to_data filter_load_from_data filter_load_size filter_load_wf
  by unfold_locales (auto simp: filter_load_from_data_def filter_load_to_data_def filter_load_size_def filter_load_wf_def
      write_bytes_def write_byte_def wire_simps length_simps small_size)

interpretation alert_message: sized_codec alert_to_data alert_from_data alert_size alert_wf
  by unfold_locales (auto simp: alert_from_data_def alert_to_data_def alert_size_def alert_wf_def
      write_bytes_def wire_simps length_simps)

end
