(* ===== verification/Inventory.thy ===== *)
theory Inventory
  imports Message
begin

text \<open>
  Messages that announce and request objects by hash: \<^verbatim>\<open>inventory_vector\<close>, \<^verbatim>\<open>inventory\<close> with the
  derived \<^verbatim>\<open>get_data\<close> and \<^verbatim>\<open>not_found\<close>, \<^verbatim>\<open>get_blocks\<close> with the derived \<^verbatim>\<open>get_headers\<close>,
  \<^verbatim>\<open>get_block_transactions\<close>; and the payload of alerts.  The naming is that of \<open>Message\<close>.
\<close>

unbundle bit_operations_syntax

subsection \<open>alert\_payload\<close>

record alert_payload =
  ap_version :: uint32
  relay_until :: uint64
  expiration :: uint64
  ap_id :: uint32
  cancel :: uint32
  set_cancel :: "uint32 list"
  min_version :: uint32
  max_version :: uint32
  set_sub_version :: "data_chunk list"
  priority :: uint32
  comment :: data_chunk
  status_bar :: data_chunk
  ap_reserved :: data_chunk

definition alert_payload_default :: alert_payload where
  "alert_payload_default =
     \<lparr>ap_version = 0, relay_until = 0, expiration = 0, ap_id = 0, cancel = 0, set_cancel = [], min_version = 0,
      max_version = 0, set_sub_version = [], priority = 0, comment = [], status_bar = [], ap_reserved = []\<rparr>"

definition alert_payload_is_valid :: "alert_payload \<Rightarrow> bool" where
  "alert_payload_is_valid a \<longleftrightarrow>
     ap_version a \<noteq> 0 \<or> relay_until a \<noteq> 0 \<or> expiration a \<noteq> 0 \<or> ap_id a \<noteq> 0 \<or> cancel a \<noteq> 0 \<or> set_cancel a \<noteq> [] \<or>
     min_version a \<noteq> 0 \<or> max_version a \<noteq> 0 \<or> set_sub_version a \<noteq> [] \<or> priority a \<noteq> 0 \<or> comment a \<noteq> [] \<or>
     status_bar a \<noteq> [] \<or> ap_reserved a \<noteq> []"

definition alert_payload_from_data :: "uint32 \<Rightarrow> alert_payload rd" where
  "alert_payload_from_data v = do {
     ver \<leftarrow> read_4_bytes_little_endian;
     relay \<leftarrow> read_8_bytes_little_endian;
     expires \<leftarrow> read_8_bytes_little_endian;
     ident \<leftarrow> read_4_bytes_little_endian;
     can \<leftarrow> read_4_bytes_little_endian;
     n \<leftarrow> read_size_little_endian;
     cancels \<leftarrow> read_pushed read_4_bytes_little_endian n;
     mini \<leftarrow> read_4_bytes_little_endian;
     maxi \<leftarrow> read_4_bytes_little_endian;
     m \<leftarrow> read_size_little_endian;
     subs \<leftarrow> read_pushed read_string m;
     prio \<leftarrow> read_4_bytes_little_endian;
     com \<leftarrow> read_string;
     status \<leftarrow> read_string;
     res \<leftarrow> read_string;
     ok \<leftarrow> source_valid;
     State_Monad.return
       (if ok then
          \<lparr>ap_version = ver, relay_until = relay, expiration = expires, ap_id = ident, cancel = can,
           set_cancel = cancels, min_version = mini, max_version = maxi, set_sub_version = subs, priority = prio,
           comment = com, status_bar = status, ap_reserved = res\<rparr>
        else alert_payload_default)
   }"

definition alert_payload_to_data :: "uint32 \<Rightarrow> alert_payload \<Rightarrow> data_chunk" where
  "alert_payload_to_data v a =
     write_4_bytes_little_endian (ap_version a) @ write_8_bytes_little_endian (relay_until a) @
     write_8_bytes_little_endian (expiration a) @ write_4_bytes_little_endian (ap_id a) @
     write_4_bytes_little_endian (cancel a) @ write_variable_little_endian (of_nat (length (set_cancel a))) @
     concat (map write_4_bytes_little_endian (set_cancel a)) @
     write_4_bytes_little_endian (min_version a) @ write_4_bytes_little_endian (max_version a) @
     write_variable_little_endian (of_nat (length (set_sub_version a))) @
     concat (map write_string (set_sub_version a)) @
     write_4_bytes_little_endian (priority a) @ write_string (comment a) @ write_string (status_bar a) @
     write_string (ap_reserved a)"

definition string_size :: "data_chunk \<Rightarrow> nat" where
  "string_size s = variable_uint_size (of_nat (length s)) + length s"

definition alert_payload_size :: "uint32 \<Rightarrow> alert_payload \<Rightarrow> nat" where
  "alert_payload_size v a =
     40 + string_size (comment a) + string_size (status_bar a) + string_size (ap_reserved a) +
     variable_uint_size (of_nat (length (set_cancel a))) + 4 * length (set_cancel a) +
     variable_uint_size (of_nat (length (set_sub_version a))) + sum_list (map string_size (set_sub_version a))"

abbreviation string_ok :: "data_chunk \<Rightarrow> bool" where
  "string_ok s \<equiv> 0 \<notin> set s \<and> length s \<le> max_size_t"

definition alert_payload_wf :: "uint32 \<Rightarrow> alert_payload \<Rightarrow> bool" where
  "alert_payload_wf v a \<longleftrightarrow>
     length (set_cancel a) \<le> max_size_t \<and> length (set_sub_version a) \<le> max_size_t \<and>
     list_all string_ok (set_sub_version a) \<and> string_ok (comment a) \<and> string_ok (status_bar a) \<and>
     string_ok (ap_reserved a)"

lemma length_write_string [length_simps]: "length (write_string s) = string_size s"
  by (simp add: write_string_def string_size_def length_simps)

lemma pushed_uint32 [wire_simps]:
  "run_state (read_pushed read_4_bytes_little_endian (length xs))
     (ready (concat (map write_4_bytes_little_endian xs) @ rest)) = (xs, ready rest)"
  using u32_codec.pushed [of xs rest] by (simp add: list_all_iff)

lemma length_concat_uint32 [length_simps]: "length (concat (map write_4_bytes_little_endian xs)) = 4 * length xs"
  by (rule length_concat_map_const) (simp add: length_simps)

lemma pushed_strings [wire_simps]:
  "list_all string_ok xs \<Longrightarrow>
   run_state (read_pushed read_string (length xs)) (ready (concat (map write_string xs) @ rest)) = (xs, ready rest)"
  using string_codec.pushed [of xs rest] by simp

interpretation alert_payload_message:
  sized_codec alert_payload_to_data alert_payload_from_data alert_payload_size alert_payload_wf
proof unfold_locales
  fix v a rest
  assume ok: "alert_payload_wf v a"
  then show "run_state (alert_payload_from_data v) (ready (alert_payload_to_data v a @ rest)) = (a, ready rest)"
    by (cases a) (simp add: alert_payload_from_data_def alert_payload_to_data_def alert_payload_wf_def wire_simps)
  show "length (alert_payload_to_data v a) = alert_payload_size v a"
    by (simp add: alert_payload_to_data_def alert_payload_size_def length_simps length_concat [of "map write_string _"] comp_def)
qed

subsection \<open>inventory\_vector\<close>

record inventory_vector =
  inv_type :: uint32
  inv_hash :: hash_digest

abbreviation type_error :: uint32 where "type_error \<equiv> 0"
abbreviation type_transaction :: uint32 where "type_transaction \<equiv> 1"
abbreviation type_block :: uint32 where "type_block \<equiv> 2"
abbreviation type_filtered_block :: uint32 where "type_filtered_block \<equiv> 3"
abbreviation type_compact_block :: uint32 where "type_compact_block \<equiv> 4"
abbreviation type_witness :: uint32 where "type_witness \<equiv> 0x40000000"
abbreviation type_witness_transaction :: uint32 where "type_witness_transaction \<equiv> 0x40000001"
abbreviation type_witness_block :: uint32 where "type_witness_block \<equiv> 0x40000002"

definition inventory_vector_default :: inventory_vector where
  "inventory_vector_default = \<lparr>inv_type = type_error, inv_hash = null_hash\<rparr>"
definition inventory_vector_is_valid :: "inventory_vector \<Rightarrow> bool" where
  "inventory_vector_is_valid i \<longleftrightarrow> inv_type i \<noteq> type_error \<or> inv_hash i \<noteq> null_hash"
definition inventory_vector_to_witness :: "inventory_vector \<Rightarrow> inventory_vector" where
  "inventory_vector_to_witness i =
     (if inv_type i = type_block \<or> inv_type i = type_transaction then i\<lparr>inv_type := inv_type i OR type_witness\<rparr> else i)"
definition is_block_type :: "inventory_vector \<Rightarrow> bool" where
  "is_block_type i \<longleftrightarrow>
     inv_type i = type_witness_block \<or> inv_type i = type_block \<or> inv_type i = type_compact_block \<or>
     inv_type i = type_filtered_block"
definition is_transaction_type :: "inventory_vector \<Rightarrow> bool" where
  "is_transaction_type i \<longleftrightarrow> inv_type i = type_witness_transaction \<or> inv_type i = type_transaction"
definition inventory_vector_from_data :: "uint32 \<Rightarrow> inventory_vector rd" where
  "inventory_vector_from_data v = do {
     t \<leftarrow> read_4_bytes_little_endian;
     h \<leftarrow> read_hash;
     ok \<leftarrow> source_valid;
     State_Monad.return (if ok then \<lparr>inv_type = t, inv_hash = h\<rparr> else inventory_vector_default)
   }"
definition inventory_vector_to_data :: "uint32 \<Rightarrow> inventory_vector \<Rightarrow> data_chunk" where
  "inventory_vector_to_data v i = write_4_bytes_little_endian (inv_type i) @ write_hash (inv_hash i)"
definition inventory_vector_size :: "uint32 \<Rightarrow> inventory_vector \<Rightarrow> nat" where
  "inventory_vector_size v i = 32 + 4"
definition inventory_vector_wf :: "uint32 \<Rightarrow> inventory_vector \<Rightarrow> bool" where
  "inventory_vector_wf v i \<longleftrightarrow> length (inv_hash i) = 32"

interpretation inventory_vector_message:
  sized_codec inventory_vector_to_data inventory_vector_from_data inventory_vector_size inventory_vector_wf
  by unfold_locales (auto simp: inventory_vector_from_data_def inventory_vector_to_data_def inventory_vector_size_def
      inventory_vector_wf_def wire_simps length_simps hash_codec.read_write write_hash_def read_hash_def)

text \<open>Turning a request into a witness request keeps what it asks for, and does nothing the second time.\<close>

lemma to_witness_keeps_kind:
  "is_block_type (inventory_vector_to_witness i) = is_block_type i"
  "is_transaction_type (inventory_vector_to_witness i) = is_transaction_type i"
  "inventory_vector_to_witness (inventory_vector_to_witness i) = inventory_vector_to_witness i"
  "inv_hash (inventory_vector_to_witness i) = inv_hash i"
  by (auto simp: inventory_vector_to_witness_def is_block_type_def is_transaction_type_def)

subsection \<open>inventory, get\_data, not\_found\<close>

type_synonym inventory = "inventory_vector list"

definition inventory_of_hashes :: "hash_digest list \<Rightarrow> uint32 \<Rightarrow> inventory" where
  "inventory_of_hashes hashes t = map (\<lambda>h. \<lparr>inv_type = t, inv_hash = h\<rparr>) hashes"
definition inventory_is_valid :: "inventory \<Rightarrow> bool" where
  "inventory_is_valid i \<longleftrightarrow> i \<noteq> []"
definition inventory_from_data :: "uint32 \<Rightarrow> inventory rd" where
  "inventory_from_data v = do {
     n \<leftarrow> read_size_little_endian;
     invalidate_if (n > max_inventory);
     xs \<leftarrow> (if n > max_inventory then State_Monad.return []
           else read_elements (inventory_vector_from_data v) inventory_vector_default n);
     ok \<leftarrow> source_valid;
     State_Monad.return (if ok then xs else [])
   }"
definition inventory_to_data :: "uint32 \<Rightarrow> inventory \<Rightarrow> data_chunk" where
  "inventory_to_data v i =
     write_variable_little_endian (of_nat (length i)) @ concat (map (inventory_vector_to_data v) i)"
definition inventory_size :: "uint32 \<Rightarrow> inventory \<Rightarrow> nat" where
  "inventory_size v i = variable_uint_size (of_nat (length i)) + length i * (32 + 4)"
definition inventory_to_hashes :: "hash_digest list \<Rightarrow> uint32 \<Rightarrow> inventory \<Rightarrow> hash_digest list" where
  "inventory_to_hashes out t i = out @ map inv_hash (filter (\<lambda>e. inv_type e = t) i)"
definition inventory_reduce :: "inventory \<Rightarrow> uint32 \<Rightarrow> inventory \<Rightarrow> inventory" where
  "inventory_reduce out t i = out @ filter (\<lambda>e. inv_type e = t) i"
definition inventory_count :: "uint32 \<Rightarrow> inventory \<Rightarrow> nat" where
  "inventory_count t i = length (filter (\<lambda>e. inv_type e = t) i)"
definition inventory_wf :: "uint32 \<Rightarrow> inventory \<Rightarrow> bool" where
  "inventory_wf v i \<longleftrightarrow> length i \<le> max_inventory \<and> list_all (inventory_vector_wf v) i"

text \<open>The derived messages test their own minimum version after the read of the base class.\<close>

definition get_data_from_data :: "uint32 \<Rightarrow> inventory rd" where
  "get_data_from_data v = do {
     i \<leftarrow> inventory_from_data v;
     ok \<leftarrow> source_valid;
     if \<not> ok then State_Monad.return i
     else do {
       invalidate_if (v < level_minimum);
       ok \<leftarrow> source_valid;
       State_Monad.return (if ok then i else [])
     }
   }"
definition get_data_to_witness :: "inventory \<Rightarrow> inventory" where
  "get_data_to_witness i = map inventory_vector_to_witness i"
definition not_found_from_data :: "uint32 \<Rightarrow> inventory rd" where
  "not_found_from_data v = do {
     i \<leftarrow> inventory_from_data v;
     ok \<leftarrow> source_valid;
     if \<not> ok then State_Monad.return i
     else do {
       invalidate_if (v < level_bip37);
       ok \<leftarrow> source_valid;
       State_Monad.return (if ok then i else [])
     }
   }"

interpretation inventory_message: sized_codec inventory_to_data inventory_from_data inventory_size inventory_wf
proof unfold_locales
  fix v i rest
  assume ok: "inventory_wf v i"
  then show "run_state (inventory_from_data v) (ready (inventory_to_data v i @ rest)) = (i, ready rest)"
    using inventory_vector_message.elements [of v i inventory_vector_default rest]
    by (simp add: inventory_wf_def inventory_from_data_def inventory_to_data_def wire_simps small_size)
  have "length (inventory_vector_to_data v x) = 36" if "x \<in> set i" for x
    using ok that inventory_vector_message.size_law [of v x]
    by (simp add: inventory_wf_def list_all_iff inventory_vector_size_def)
  then show "length (inventory_to_data v i) = inventory_size v i"
    by (simp add: inventory_to_data_def inventory_size_def length_simps length_concat_map_const [where k = 36])
qed

interpretation get_data_message: sized_codec inventory_to_data get_data_from_data inventory_size
  "\<lambda>v i. level_minimum \<le> v \<and> inventory_wf v i"
  by unfold_locales (auto simp: get_data_from_data_def inventory_message.stream inventory_message.size_law wire_simps)

interpretation not_found_message: sized_codec inventory_to_data not_found_from_data inventory_size
  "\<lambda>v i. level_bip37 \<le> v \<and> inventory_wf v i"
  by unfold_locales (auto simp: not_found_from_data_def inventory_message.stream inventory_message.size_law wire_simps)

subsection \<open>get\_blocks, get\_headers, get\_block\_transactions\<close>

record get_blocks =
  start_hashes :: "hash_digest list"
  stop_hash :: hash_digest

definition get_blocks_default :: get_blocks where
  "get_blocks_default = \<lparr>start_hashes = [], stop_hash = null_hash\<rparr>"
definition get_blocks_is_valid :: "get_blocks \<Rightarrow> bool" where
  "get_blocks_is_valid g \<longleftrightarrow> start_hashes g \<noteq> [] \<or> stop_hash g \<noteq> null_hash"
definition get_blocks_from_data :: "uint32 \<Rightarrow> get_blocks rd" where
  "get_blocks_from_data v = do {
     _ \<leftarrow> read_4_bytes_little_endian;
     n \<leftarrow> read_size_little_endian;
     invalidate_if (n > max_get_blocks);
     hashes \<leftarrow> read_pushed read_hash n;
     stop \<leftarrow> read_hash;
     ok \<leftarrow> source_valid;
     State_Monad.return (if ok then \<lparr>start_hashes = hashes, stop_hash = stop\<rparr> else get_blocks_default)
   }"
definition get_blocks_to_data :: "uint32 \<Rightarrow> get_blocks \<Rightarrow> data_chunk" where
  "get_blocks_to_data v g =
     write_4_bytes_little_endian v @ write_variable_little_endian (of_nat (length (start_hashes g))) @
     concat (map write_hash (start_hashes g)) @ write_hash (stop_hash g)"
definition get_blocks_size :: "uint32 \<Rightarrow> get_blocks \<Rightarrow> nat" where
  "get_blocks_size v g = 36 + variable_uint_size (of_nat (length (start_hashes g))) + 32 * length (start_hashes g)"
definition get_blocks_wf :: "uint32 \<Rightarrow> get_blocks \<Rightarrow> bool" where
  "get_blocks_wf v g \<longleftrightarrow>
     length (start_hashes g) \<le> max_get_blocks \<and> list_all (\<lambda>h. length h = 32) (start_hashes g) \<and> length (stop_hash g) = 32"

definition get_headers_from_data :: "currency \<Rightarrow> uint32 \<Rightarrow> get_blocks rd" where
  "get_headers_from_data cur v = do {
     g \<leftarrow> get_blocks_from_data v;
     ok \<leftarrow> source_valid;
     if \<not> ok then State_Monad.return g
     else do {
       invalidate_if (v < level_headers cur);
       ok \<leftarrow> source_valid;
       State_Monad.return (if ok then g else get_blocks_default)
     }
   }"

lemma pushed_hashes [wire_simps]:
  "list_all (\<lambda>h. length h = 32) xs \<Longrightarrow>
   run_state (read_pushed read_hash (length xs)) (ready (concat (map write_hash xs) @ rest)) = (xs, ready rest)"
  by (rule hash_codec.pushed)

lemma length_concat_hashes [length_simps]:
  "list_all (\<lambda>h. length h = 32) xs \<Longrightarrow> length (concat (map write_hash xs)) = 32 * length xs"
  by (rule length_concat_map_const) (simp add: list_all_iff write_hash_def)

lemma length_write_hash [length_simps]: "length h = 32 \<Longrightarrow> length (write_hash h) = 32"
  by (simp add: write_hash_def)

interpretation get_blocks_message: sized_codec get_blocks_to_data get_blocks_from_data get_blocks_size get_blocks_wf
  by unfold_locales (auto simp: get_blocks_from_data_def get_blocks_to_data_def get_blocks_size_def get_blocks_wf_def
      wire_simps length_simps hash_codec.read_write small_size)

interpretation get_headers_message: sized_codec get_blocks_to_data "get_headers_from_data cur" get_blocks_size
  "\<lambda>v g. level_headers cur \<le> v \<and> get_blocks_wf v g" for cur
  by unfold_locales (auto simp: get_headers_from_data_def get_blocks_message.stream get_blocks_message.size_law wire_simps)

record get_block_transactions =
  gbt_block_hash :: hash_digest
  gbt_indexes :: "uint64 list"

definition get_block_transactions_default :: get_block_transactions where
  "get_block_transactions_default = \<lparr>gbt_block_hash = null_hash, gbt_indexes = []\<rparr>"
definition get_block_transactions_is_valid :: "get_block_transactions \<Rightarrow> bool" where
  "get_block_transactions_is_valid g \<longleftrightarrow> gbt_block_hash g \<noteq> null_hash"
definition get_block_transactions_from_data :: "currency \<Rightarrow> uint32 \<Rightarrow> get_block_transactions rd" where
  "get_block_transactions_from_data cur v = do {
     h \<leftarrow> read_hash;
     n \<leftarrow> read_size_little_endian;
     invalidate_if (n > get_max_block_size cur);
     indexes \<leftarrow> read_pushed (map_state of_nat read_size_little_endian) n;
     ok \<leftarrow> source_valid;
     State_Monad.return
       (if ok then \<lparr>gbt_block_hash = h, gbt_indexes = indexes\<rparr> else get_block_transactions_default)
   }"
definition get_block_transactions_to_data :: "uint32 \<Rightarrow> get_block_transactions \<Rightarrow> data_chunk" where
  "get_block_transactions_to_data v g =
     write_hash (gbt_block_hash g) @ write_variable_little_endian (of_nat (length (gbt_indexes g))) @
     concat (map write_variable_little_endian (gbt_indexes g))"
definition get_block_transactions_size :: "uint32 \<Rightarrow> get_block_transactions \<Rightarrow> nat" where
  "get_block_transactions_size v g =
     32 + variable_uint_size (of_nat (length (gbt_indexes g))) + sum_list (map variable_uint_size (gbt_indexes g))"
definition get_block_transactions_wf :: "currency \<Rightarrow> uint32 \<Rightarrow> get_block_transactions \<Rightarrow> bool" where
  "get_block_transactions_wf cur v g \<longleftrightarrow>
     length (gbt_block_hash g) = 32 \<and> length (gbt_indexes g) \<le> get_max_block_size cur"

interpretation index_codec: codec write_variable_little_endian "map_state of_nat read_size_little_endian" "\<lambda>_ :: uint64. True"
proof unfold_locales
  fix x :: uint64 and rest
  have "unat x \<le> max_size_t" using unsigned_less [of x, where 'a = nat] by (simp add: max_size_t_def)
  then show "run_state (map_state of_nat read_size_little_endian) (ready (write_variable_little_endian x @ rest)) = (x, ready rest)"
    using run_read_size_of_variable [of "unat x" rest] by (simp add: state.map_sel)
qed

interpretation get_block_transactions_message:
  sized_codec get_block_transactions_to_data "get_block_transactions_from_data cur" get_block_transactions_size
    "get_block_transactions_wf cur" for cur
proof unfold_locales
  fix v g rest
  assume ok: "get_block_transactions_wf cur v g"
  then have "length (gbt_indexes g) \<le> max_size_t"
    by (auto simp: get_block_transactions_wf_def get_max_block_size_def max_size_t_def max_block_size_def max_block_size_new_def split: if_splits)
  with ok show "run_state (get_block_transactions_from_data cur v) (ready (get_block_transactions_to_data v g @ rest)) = (g, ready rest)"
    using index_codec.pushed [of "gbt_indexes g" rest]
    by (simp add: list_all_iff get_block_transactions_wf_def get_block_transactions_from_data_def get_block_transactions_to_data_def
        wire_simps hash_codec.read_write)
  show "length (get_block_transactions_to_data v g) = get_block_transactions_size v g"
    using ok by (simp add: get_block_transactions_wf_def get_block_transactions_to_data_def get_block_transactions_size_def
        length_simps length_concat comp_def)
qed

end
