(* ===== verification/Number.thy ===== *)
theory Number
  imports Constants
begin

text \<open>
  The script number of \<^verbatim>\<open>machine/number.hpp\<close> and \<^verbatim>\<open>impl/machine/number.ipp\<close>: a 64-bit signed
  value read from and written to a little-endian sign-magnitude byte sequence.
  The value is a 64-bit word; \<open>int64\<close> reads it as two's complement.
\<close>

type_synonym number = "64 word"

abbreviation int64 :: "number \<Rightarrow> int" where "int64 \<equiv> sint"

definition negative_mask :: byte where "negative_mask = 0x80"
definition negative_1 :: byte where "negative_1 = 0x81"
definition negative_0 :: byte where "negative_0 = 0x80"
definition positive_0 :: byte where "positive_0 = 0"
definition positive_1 :: byte where "positive_1 = 1"
definition positive_16 :: byte where "positive_16 = 16"

subsection \<open>Reading\<close>

definition is_negative :: "data_chunk \<Rightarrow> bool" where
  "is_negative data \<longleftrightarrow> last data AND negative_mask \<noteq> 0"

fun set_data_loop :: "nat \<Rightarrow> number \<Rightarrow> data_chunk \<Rightarrow> number" where
  "set_data_loop i value [] = value"
| "set_data_loop i value (b # bs) = set_data_loop (Suc i) (value OR push_bit (8 * i) (ucast b)) bs"

text \<open>\<open>None\<close> is the \<^verbatim>\<open>false\<close> return, which leaves the number as it was.\<close>

definition set_data :: "data_chunk \<Rightarrow> nat \<Rightarrow> number option" where
  "set_data data max_size =
     (if length data > max_size then None
      else if data = [] then Some 0
      else
        let value = set_data_loop 0 0 data in
        if is_negative data then
          let last_shift = 8 * (length data - 1);
              mask = NOT (push_bit last_shift (ucast negative_mask))
          in Some (- (value AND mask))
        else Some value)"

subsection \<open>Writing\<close>

function number_bytes :: "uint64 \<Rightarrow> data_chunk" where
  "number_bytes absolute =
     (if absolute \<noteq> 0 then ucast absolute # number_bytes (drop_bit 8 absolute) else [])"
  by pat_completeness auto
termination
  by (relation "measure unat") (simp_all add: drop_bit_decreases)

declare number_bytes.simps [simp del]

definition number_data :: "number \<Rightarrow> data_chunk" where
  "number_data value =
     (if value = 0 then []
      else
        let set_negative = int64 value < 0;
            absolute = (if set_negative then - value else value);
            data = number_bytes absolute;
            negative_bit_set = is_negative data
        in if negative_bit_set \<and> set_negative then data @ [negative_mask]
           else if negative_bit_set then data @ [0]
           else if set_negative then butlast data @ [last data OR negative_mask]
           else data)"

subsection \<open>Conversions and tests\<close>

definition domain_constrain_int32 :: "int \<Rightarrow> int" where
  "domain_constrain_int32 v =
     (if v < - (2 ^ 31) then - (2 ^ 31) else if v > 2 ^ 31 - 1 then 2 ^ 31 - 1 else v)"

definition number_int32 :: "number \<Rightarrow> int" where
  "number_int32 value = domain_constrain_int32 (int64 value)"

definition is_true :: "number \<Rightarrow> bool" where "is_true value \<longleftrightarrow> value \<noteq> 0"
definition is_false :: "number \<Rightarrow> bool" where "is_false value \<longleftrightarrow> value = 0"

text \<open>
  The code asserts that the arithmetic operators do not overflow; \<open>fits_int64\<close> is that
  condition.  In a release build the operators wrap, as the word operations do.
\<close>

definition fits_int64 :: "int \<Rightarrow> bool" where
  "fits_int64 v \<longleftrightarrow> - (2 ^ 63) \<le> v \<and> v \<le> 2 ^ 63 - 1"

definition number_add :: "number \<Rightarrow> number \<Rightarrow> number" where "number_add a b = a + b"
definition number_sub :: "number \<Rightarrow> number \<Rightarrow> number" where "number_sub a b = a - b"
definition number_negate :: "number \<Rightarrow> number" where "number_negate a = - a"

subsection \<open>The abstract value\<close>

text \<open>
  What a script number means: the little-endian magnitude of the bytes with the top bit of the
  last byte as the sign.
\<close>

definition magnitude :: "data_chunk \<Rightarrow> nat" where
  "magnitude data = (if data = [] then 0 else le_val (butlast data @ [last data AND 0x7f]))"

definition script_value :: "data_chunk \<Rightarrow> int" where
  "script_value data =
     (if data \<noteq> [] \<and> is_negative data then - int (magnitude data) else int (magnitude data))"

subsection \<open>Reading computes the value\<close>

lemma set_data_loop_shift:
  "set_data_loop i v bs = v OR push_bit (8 * i) (set_data_loop 0 0 bs)"
proof (induction bs arbitrary: i v)
  case Nil
  then show ?case by simp
next
  case (Cons b bs)
  have "set_data_loop i v (b # bs)
      = (v OR push_bit (8 * i) (ucast b)) OR push_bit (8 * Suc i) (set_data_loop 0 0 bs)"
    using Cons [of "Suc i"] by simp
  also have "push_bit (8 * Suc i) (set_data_loop 0 0 bs)
      = push_bit (8 * i) (push_bit 8 (set_data_loop 0 0 bs))"
    by (simp add: push_bit_push_bit add.commute)
  also have "(v OR push_bit (8 * i) (ucast b)) OR push_bit (8 * i) (push_bit 8 (set_data_loop 0 0 bs))
      = v OR push_bit (8 * i) (ucast b OR push_bit 8 (set_data_loop 0 0 bs))"
    by (simp add: or.assoc push_bit_or)
  also have "ucast b OR push_bit 8 (set_data_loop 0 0 bs) = set_data_loop 0 0 (b # bs)"
    using Cons [of 1 "ucast b"] by simp
  finally show ?case .
qed

lemma byte_or_shift: "ucast (b :: byte) OR push_bit 8 v = ucast b + push_bit 8 (v :: uint64)"
  by (rule disjunctive_add [symmetric]) (auto simp: bit_simps dest: bit_imp_le_length)

lemma set_data_loop_le_val: "set_data_loop 0 0 bs = of_nat (le_val bs)"
proof (induction bs)
  case (Cons b bs)
  have "set_data_loop 0 0 (b # bs) = ucast b OR push_bit 8 (set_data_loop 0 0 bs)"
    using set_data_loop_shift [of 1 "ucast b" bs] by simp
  also have "\<dots> = ucast b + 256 * of_nat (le_val bs)"
    unfolding byte_or_shift Cons by (simp add: push_bit_eq_mult mult.commute)
  also have "\<dots> = of_nat (le_val (b # bs))"
    by simp
  finally show ?case .
qed simp

lemma set_data_loop_append:
  "set_data_loop i v (xs @ ys) = set_data_loop (i + length xs) (set_data_loop i v xs) ys"
  by (induction xs arbitrary: i v) auto

lemma bit_sign: "bit (0x80 :: int) n \<longleftrightarrow> n = 7" "bit (0x7f :: int) n \<longleftrightarrow> n < 7"
proof -
  have "(0x80 :: int) = push_bit 7 1" "(0x7f :: int) = mask 7"
    by (simp_all add: mask_eq_exp_minus_1)
  then show "bit (0x80 :: int) n \<longleftrightarrow> n = 7" "bit (0x7f :: int) n \<longleftrightarrow> n < 7"
    by (auto simp only: bit_push_bit_iff bit_1_iff bit_mask_iff) (auto simp: bit_simps)
qed

lemma sign_test: "(b :: byte) AND 0x80 \<noteq> 0 \<longleftrightarrow> bit b 7"
  using and_exp_eq_0_iff_not_bit [of b 7] by simp

lemma is_negative_bit: "is_negative data \<longleftrightarrow> bit (last data) 7"
  by (simp add: is_negative_def negative_mask_def sign_test)

lemma and_0x7f_id: "\<not> bit (b :: byte) 7 \<Longrightarrow> b AND 0x7f = b"
  by (rule bit_word_eqI) (auto simp: bit_and_iff bit_sign less_Suc_eq numeral_eq_Suc(1))

lemma bit_le_val_word: "bit (of_nat (le_val xs) :: uint64) n \<Longrightarrow> length xs \<le> 8 \<Longrightarrow> n < 8 * length xs"
proof -
  assume bit: "bit (of_nat (le_val xs) :: uint64) n" and len: "length xs \<le> 8"
  have "le_val xs < 2 ^ (8 * length xs)"
    using le_val_bound [of xs] by (simp add: power_mult)
  then have "take_bit (8 * length xs) (le_val xs) = le_val xs"
    by (simp add: take_bit_nat_eq_self)
  moreover have "bit (le_val xs) n" using bit by (simp add: bit_simps)
  ultimately show ?thesis by (metis bit_take_bit_iff)
qed

lemma clear_sign_bit:
  assumes "length xs \<le> 7"
  shows "set_data_loop 0 0 (xs @ [b]) AND NOT (push_bit (8 * length xs) (ucast negative_mask))
    = of_nat (le_val (xs @ [b AND 0x7f]))"
proof -
  let ?k = "8 * length xs"
  let ?L = "of_nat (le_val xs) :: uint64"
  have low: "bit ?L n \<Longrightarrow> n < ?k" for n
    using bit_le_val_word [of xs n] assms by simp
  have split: "set_data_loop 0 0 (xs @ [c]) = ?L OR push_bit ?k (ucast c)" for c
    by (simp add: set_data_loop_append set_data_loop_le_val)
  have "(?L OR push_bit ?k (ucast b)) AND NOT (push_bit ?k (ucast negative_mask))
      = ?L OR push_bit ?k (ucast (b AND 0x7f))"
  proof (rule bit_word_eqI)
    fix n assume n: "n < LENGTH(64)"
    have byte: "m < 8" if "bit b m" for m
      using that by (auto dest: bit_imp_le_length)
    then have "m < 7 \<longleftrightarrow> m \<noteq> 7" if "bit b m" for m
      using that by fastforce
    then show "bit ((?L OR push_bit ?k (ucast b)) AND NOT (push_bit ?k (ucast negative_mask))) n
        = bit (?L OR push_bit ?k (ucast (b AND 0x7f))) n"
      using n low [of n] byte
      by (auto simp: bit_and_iff bit_or_iff bit_not_iff bit_push_bit_iff bit_ucast_iff
          negative_mask_def bit_sign)
  qed
  then show ?thesis
    using split [of b] split [of "b AND 0x7f"] by (simp only: set_data_loop_le_val)
qed

lemma magnitude_bound: "magnitude data < 2 ^ (8 * length data - 1) \<or> data = []"
proof (cases data rule: rev_cases)
  case (snoc xs b)
  have "b AND 0x7f \<le> 0x7f" by (rule word_and_le1)
  then have "unat (b AND 0x7f) \<le> 127" by (simp add: word_le_nat_alt)
  then have "le_val xs + 256 ^ length xs * unat (b AND 0x7f) < 256 ^ length xs * 128"
    using le_val_bound [of xs] mult_le_mono2 [of "unat (b AND 0x7f)" 127 "256 ^ length xs"] by linarith
  also have "(256::nat) ^ length xs * 128 = 2 ^ (8 * length data - 1)"
    by (simp add: snoc power_add power_mult)
  finally show ?thesis by (simp add: magnitude_def snoc le_val_append)
qed simp

lemma sint_word_of_int: "- (2 ^ 63) \<le> k \<Longrightarrow> k < 2 ^ 63 \<Longrightarrow> int64 (word_of_int k) = k"
  by (simp add: signed_of_int signed_take_bit_int_eq_self)

lemma magnitude_nonnegative: "data \<noteq> [] \<Longrightarrow> \<not> is_negative data \<Longrightarrow> magnitude data = le_val data"
  by (simp add: magnitude_def is_negative_bit and_0x7f_id)

lemma set_data_word:
  assumes "length data \<le> max_size" and "length data \<le> 8"
  shows "set_data data max_size = Some (word_of_int (script_value data))"
proof (cases data rule: rev_cases)
  case Nil
  then show ?thesis by (simp add: set_data_def script_value_def magnitude_def)
next
  case (snoc xs b)
  show ?thesis
  proof (cases "is_negative data")
    case True
    then show ?thesis
      using assms clear_sign_bit [of xs b] snoc
      by (simp add: set_data_def script_value_def magnitude_def Let_def)
  next
    case False
    then show ?thesis
      using assms magnitude_nonnegative [of data] snoc
      by (simp add: set_data_def script_value_def Let_def set_data_loop_le_val)
  qed
qed

lemma script_value_bound:
  assumes "length data \<le> n" and "0 < n"
  shows "\<bar>script_value data\<bar> < 2 ^ (8 * n - 1)"
proof -
  have "\<bar>script_value data\<bar> = int (magnitude data)" by (simp add: script_value_def)
  moreover have "magnitude data < 2 ^ (8 * n - 1)"
  proof (cases "data = []")
    case False
    then have "magnitude data < 2 ^ (8 * length data - 1)" using magnitude_bound by blast
    also have "(2::nat) ^ (8 * length data - 1) \<le> 2 ^ (8 * n - 1)"
      using assms(1) by (intro power_increasing) auto
    finally show ?thesis .
  qed (simp add: magnitude_def)
  ultimately show ?thesis by simp
qed

lemma set_data_value:
  assumes "length data \<le> max_size" and "length data \<le> 8"
  shows "\<exists>v. set_data data max_size = Some v \<and> int64 v = script_value data"
proof -
  have "\<bar>script_value data\<bar> < 2 ^ 63" using script_value_bound [of data 8] assms(2) by simp
  then show ?thesis
    using set_data_word [OF assms] by (simp add: sint_word_of_int abs_less_iff)
qed

subsection \<open>Writing produces a minimal encoding of the value\<close>

lemma number_bytes_zero [simp]: "number_bytes 0 = []"
  by (simp add: number_bytes.simps)

lemma number_bytes_nonempty: "a \<noteq> 0 \<Longrightarrow> number_bytes a \<noteq> []"
  by (subst number_bytes.simps) simp

lemma le_val_number_bytes: "le_val (number_bytes a) = unat a"
proof (induction a rule: number_bytes.induct)
  case (1 a)
  show ?case
  proof (cases "a = 0")
    case False
    then have "le_val (number_bytes a) = unat a mod 256 + 256 * (unat a div 256)"
      using 1 by (subst number_bytes.simps) (simp add: unat_ucast_mod unat_drop_bit)
    then show ?thesis by simp
  qed simp
qed

lemma last_number_bytes: "a \<noteq> 0 \<Longrightarrow> last (number_bytes a) \<noteq> 0"
proof (induction a rule: number_bytes.induct)
  case (1 a)
  show ?case
  proof (cases "drop_bit 8 a = 0")
    case True
    then have "unat a div 256 = 0" using unat_drop_bit [of 8 a] by simp
    then have "unat (ucast a :: byte) = unat a" by (simp add: unat_ucast_mod div_eq_0_iff)
    then have "(ucast a :: byte) \<noteq> 0" using "1.prems" by (auto simp: word_unat_eq_iff)
    with True "1.prems" show ?thesis
      by (subst number_bytes.simps) simp
  next
    case False
    with 1 show ?thesis
      by (subst number_bytes.simps) (simp add: number_bytes_nonempty)
  qed
qed

lemma length_number_bytes: "unat a < 256 ^ n \<Longrightarrow> length (number_bytes a) \<le> n"
proof (induction a arbitrary: n rule: number_bytes.induct)
  case (1 a)
  show ?case
  proof (cases "a = 0")
    case False
    with "1.prems" obtain m where m: "n = Suc m"
      by (cases n) (auto simp: word_unat_eq_iff)
    have "unat (drop_bit 8 a) < 256 ^ m"
      using "1.prems" by (simp add: m unat_drop_bit less_mult_imp_div_less mult.commute)
    with 1 False show ?thesis by (subst number_bytes.simps) (simp add: m)
  qed simp
qed

lemma unat_absolute:
  "int64 v < 0 \<Longrightarrow> int (unat (- v)) = - int64 v"
  "\<not> int64 v < 0 \<Longrightarrow> int (unat v) = int64 v"
proof -
  have range: "- (2 ^ 63) \<le> int64 v" "int64 v < 2 ^ 63"
    using sint_greater_eq [of v] sint_less [of v] by simp_all
  have v: "v = word_of_int (int64 v)" by simp
  show "int (unat (- v)) = - int64 v" if "int64 v < 0"
  proof -
    have "uint (word_of_int (- int64 v) :: uint64) = - int64 v"
      using that range by (simp only: unsigned_of_int) (simp add: take_bit_int_eq_self)
    then show ?thesis by (simp flip: uint_nat)
  qed
  show "int (unat v) = int64 v" if "\<not> int64 v < 0"
  proof -
    have "uint (word_of_int (int64 v) :: uint64) = int64 v"
      using that range by (simp only: unsigned_of_int) (simp add: take_bit_int_eq_self)
    then show ?thesis by (simp flip: uint_nat)
  qed
qed

text \<open>The four ways \<^verbatim>\<open>data()\<close> finishes, as one case analysis.\<close>

lemma number_data_cases:
  assumes "v \<noteq> 0"
  obtains (neg_pad) ds where "int64 v < 0" "le_val ds = unat (- v)" "ds \<noteq> []" "bit (last ds) 7"
      "number_data v = ds @ [0x80]"
    | (pos_pad) ds where "\<not> int64 v < 0" "le_val ds = unat v" "ds \<noteq> []" "bit (last ds) 7"
      "number_data v = ds @ [0]"
    | (neg_set) ds b where "int64 v < 0" "le_val (ds @ [b]) = unat (- v)" "b \<noteq> 0" "\<not> bit b 7"
      "number_data v = ds @ [b OR 0x80]"
    | (pos_plain) ds b where "\<not> int64 v < 0" "le_val (ds @ [b]) = unat v" "b \<noteq> 0" "\<not> bit b 7"
      "number_data v = ds @ [b]"
proof -
  define a where "a = (if int64 v < 0 then - v else v)"
  define ds where "ds = number_bytes a"
  have a: "a \<noteq> 0" using assms by (auto simp: a_def)
  have ds: "ds \<noteq> []" "le_val ds = unat a" "last ds \<noteq> 0"
    using number_bytes_nonempty [OF a] last_number_bytes [OF a] le_val_number_bytes [of a]
    by (auto simp: ds_def)
  then have split: "ds = butlast ds @ [last ds]" by simp
  have data: "number_data v =
     (if bit (last ds) 7 \<and> int64 v < 0 then ds @ [0x80] else if bit (last ds) 7 then ds @ [0]
      else if int64 v < 0 then butlast ds @ [last ds OR 0x80] else ds)"
    using assms by (simp add: number_data_def Let_def ds_def a_def is_negative_bit negative_mask_def)
  show thesis
  proof (cases "bit (last ds) 7"; cases "int64 v < 0")
    assume *: "bit (last ds) 7" "int64 v < 0"
    with ds data show thesis by (intro neg_pad [of ds]) (auto simp: a_def)
  next
    assume *: "bit (last ds) 7" "\<not> int64 v < 0"
    with ds data show thesis by (intro pos_pad [of ds]) (auto simp: a_def)
  next
    assume *: "\<not> bit (last ds) 7" "int64 v < 0"
    with ds data split show thesis
      by (intro neg_set [of "butlast ds" "last ds"]) (auto simp: a_def)
  next
    assume *: "\<not> bit (last ds) 7" "\<not> int64 v < 0"
    with ds data split show thesis
      by (intro pos_plain [of "butlast ds" "last ds"]) (auto simp: a_def)
  qed
qed

lemma sign_bit_ops:
  "bit (0x80 :: byte) 7" "(0x80 :: byte) AND 0x7f = 0" "\<not> bit (0 :: byte) 7"
  "bit (b OR 0x80 :: byte) 7"
  by (simp_all add: bit_sign bit_or_iff)

lemma clear_set_sign: "\<not> bit (b :: byte) 7 \<Longrightarrow> (b OR 0x80) AND 0x7f = b"
  by (rule bit_word_eqI)
    (auto simp: bit_and_iff bit_or_iff bit_sign less_Suc_eq numeral_eq_Suc(1) dest: bit_imp_le_length)

lemma script_value_number_data: "script_value (number_data v) = int64 v"
proof (cases "v = 0")
  case True
  then show ?thesis by (simp add: number_data_def script_value_def magnitude_def)
next
  case False
  then show ?thesis
  proof (cases rule: number_data_cases)
    case (neg_pad ds)
    then show ?thesis
      using unat_absolute(1) [of v]
      by (simp add: script_value_def magnitude_def is_negative_bit sign_bit_ops le_val_append)
  next
    case (pos_pad ds)
    then show ?thesis
      using unat_absolute(2) [of v]
      by (simp add: script_value_def magnitude_def is_negative_bit sign_bit_ops le_val_append)
  next
    case (neg_set ds b)
    then show ?thesis
      using unat_absolute(1) [of v]
      by (simp add: script_value_def magnitude_def is_negative_bit sign_bit_ops clear_set_sign)
  next
    case (pos_plain ds b)
    then show ?thesis
      using unat_absolute(2) [of v]
      by (simp add: script_value_def magnitude_def is_negative_bit and_0x7f_id)
  qed
qed

lemma byte_ge_128: "bit (b :: byte) 7 \<Longrightarrow> 128 \<le> unat b"
proof -
  assume "bit b 7"
  then have "bit (unat b) 7" by (simp add: bit_unsigned_iff)
  then have "odd (unat b div 2 ^ 7)" unfolding bit_iff_odd .
  then show ?thesis by (cases "unat b < 128") auto
qed

text \<open>How long a byte sequence with a given last byte must be for its value.\<close>

lemma le_val_last: "256 ^ length ds * unat b \<le> le_val (ds @ [b])"
  by (simp add: le_val_append)

lemma length_of_signed_last:
  assumes "le_val (ds @ [b]) < 2 ^ (8 * n - 1)" and "bit b 7" and "0 < n"
  shows "Suc (length ds) < n"
proof (rule ccontr)
  assume "\<not> Suc (length ds) < n"
  then have "256 ^ (n - 1) * 128 \<le> 256 ^ length ds * unat b"
    using byte_ge_128 [OF assms(2)] by (intro mult_le_mono power_increasing) auto
  then have "256 ^ (n - 1) * 128 < (2::nat) ^ (8 * n - 1)"
    using le_val_last [of ds b] assms(1) by linarith
  moreover have "(256::nat) ^ (n - 1) * 128 = 2 ^ (8 * n - 1)"
    using assms(3) by (cases n) (simp_all add: power_add power_mult)
  ultimately show False by simp
qed

lemma length_of_nonzero_last:
  assumes "le_val (ds @ [b]) < 2 ^ (8 * n - 1)" and "b \<noteq> 0"
  shows "length ds < n"
proof (rule ccontr)
  assume "\<not> length ds < n"
  then have "256 ^ n * 1 \<le> 256 ^ length ds * unat b"
    using assms(2) by (intro mult_le_mono power_increasing) (auto simp: word_unat_eq_iff Suc_le_eq)
  then have "(256::nat) ^ n < 2 ^ (8 * n - 1)"
    using le_val_last [of ds b] assms(1) by linarith
  moreover have "(2::nat) ^ (8 * n - 1) \<le> 2 ^ (8 * n)" by (intro power_increasing) auto
  ultimately show False by (simp add: power_mult)
qed

text \<open>An encoding has at most \<open>n\<close> bytes when the value fits into \<open>n\<close> bytes less the sign bit.\<close>

lemma length_number_data:
  assumes "\<bar>int64 v\<bar> < 2 ^ (8 * n - 1)" and "0 < n"
  shows "length (number_data v) \<le> n"
proof (cases "v = 0")
  case True
  then show ?thesis by (simp add: number_data_def)
next
  case False
  have abs: "int64 v < 0 \<Longrightarrow> unat (- v) < 2 ^ (8 * n - 1)" "\<not> int64 v < 0 \<Longrightarrow> unat v < 2 ^ (8 * n - 1)"
    using assms(1) unat_absolute [of v] by (auto simp flip: of_nat_less_iff [where 'a = int])
  have pad: "length ds < n" if "le_val ds < 2 ^ (8 * n - 1)" "ds \<noteq> []" "bit (last ds) 7" for ds
    using length_of_signed_last [of "butlast ds" "last ds" n] that assms(2) by simp
  from False show ?thesis
  proof (cases rule: number_data_cases)
    case (neg_pad ds)
    then show ?thesis using pad [of ds] abs(1) by simp
  next
    case (pos_pad ds)
    then show ?thesis using pad [of ds] abs(2) by simp
  next
    case (neg_set ds b)
    then show ?thesis using length_of_nonzero_last [of ds b n] abs(1) by simp
  next
    case (pos_plain ds b)
    then show ?thesis using length_of_nonzero_last [of ds b n] abs(2) by simp
  qed
qed

subsection \<open>Properties of the script number\<close>

text \<open>
  Serializing a script number and reading it back with a sufficient size limit gives
  the number, for every 64-bit value but the minimum.
\<close>

theorem number_roundtrip:
  assumes "int64 v \<noteq> - (2 ^ 63)" and "length (number_data v) \<le> max_size"
  shows "set_data (number_data v) max_size = Some v"
proof -
  have "\<bar>int64 v\<bar> < 2 ^ (8 * 8 - 1)"
    using assms(1) sint_greater_eq [of v] sint_less [of v] by (simp add: abs_less_iff)
  then have "length (number_data v) \<le> 8" by (rule length_number_data) simp
  then have "set_data (number_data v) max_size = Some (word_of_int (script_value (number_data v)))"
    by (rule set_data_word [OF assms(2)])
  then show ?thesis by (simp add: script_value_number_data)
qed

theorem number_roundtrip_witness:
  "int64 (- 1000) \<noteq> - (2 ^ 63) \<and> length (number_data (- 1000)) \<le> max_number_size \<and>
   set_data (number_data (- 1000)) max_number_size = Some (- 1000)"
  using number_roundtrip [of "- 1000" max_number_size] by code_simp

end
