(* ===== verification/Operation.thy ===== *)
theory Operation
  imports Wire Number
begin

text \<open>
  Script operations: \<^verbatim>\<open>machine/operation.hpp\<close>, \<^verbatim>\<open>impl/machine/operation.ipp\<close> and
  \<^verbatim>\<open>src/machine/operation.cpp\<close>.  An opcode is the byte underlying the C++ enumeration, which
  has a member for every byte.  The theory ends with the two halves of the serialization
  contract: an operation that is well formed survives writing and reading, and reading
  never loses a byte.
\<close>

type_synonym opcode = byte

subsection \<open>Opcodes\<close>

abbreviation push_size_0 :: opcode where "push_size_0 \<equiv> 0"
abbreviation push_size_1 :: opcode where "push_size_1 \<equiv> 1"
abbreviation push_size_20 :: opcode where "push_size_20 \<equiv> 20"
abbreviation push_size_32 :: opcode where "push_size_32 \<equiv> 32"
abbreviation push_size_36 :: opcode where "push_size_36 \<equiv> 36"
abbreviation push_size_75 :: opcode where "push_size_75 \<equiv> 75"
abbreviation push_one_size :: opcode where "push_one_size \<equiv> 76"
abbreviation push_two_size :: opcode where "push_two_size \<equiv> 77"
abbreviation push_four_size :: opcode where "push_four_size \<equiv> 78"
abbreviation push_negative_1 :: opcode where "push_negative_1 \<equiv> 79"
abbreviation reserved_80 :: opcode where "reserved_80 \<equiv> 80"
abbreviation push_positive_1 :: opcode where "push_positive_1 \<equiv> 81"
abbreviation push_positive_16 :: opcode where "push_positive_16 \<equiv> 96"
abbreviation opcode_nop :: opcode where "opcode_nop \<equiv> 97"
abbreviation reserved_98 :: opcode where "reserved_98 \<equiv> 98"
abbreviation opcode_if :: opcode where "opcode_if \<equiv> 99"
abbreviation opcode_notif :: opcode where "opcode_notif \<equiv> 100"
abbreviation disabled_verif :: opcode where "disabled_verif \<equiv> 101"
abbreviation disabled_vernotif :: opcode where "disabled_vernotif \<equiv> 102"
abbreviation opcode_else :: opcode where "opcode_else \<equiv> 103"
abbreviation opcode_endif :: opcode where "opcode_endif \<equiv> 104"
abbreviation opcode_return :: opcode where "opcode_return \<equiv> 106"
abbreviation opcode_dup :: opcode where "opcode_dup \<equiv> 118"
abbreviation disabled_xor :: opcode where "disabled_xor \<equiv> 134"
abbreviation opcode_equal :: opcode where "opcode_equal \<equiv> 135"
abbreviation opcode_equalverify :: opcode where "opcode_equalverify \<equiv> 136"
abbreviation reserved_137 :: opcode where "reserved_137 \<equiv> 137"
abbreviation reserved_138 :: opcode where "reserved_138 \<equiv> 138"
abbreviation opcode_hash160 :: opcode where "opcode_hash160 \<equiv> 169"
abbreviation opcode_codeseparator :: opcode where "opcode_codeseparator \<equiv> 171"
abbreviation opcode_checksig :: opcode where "opcode_checksig \<equiv> 172"
abbreviation opcode_checksigverify :: opcode where "opcode_checksigverify \<equiv> 173"
abbreviation opcode_checkmultisig :: opcode where "opcode_checkmultisig \<equiv> 174"
abbreviation opcode_checkmultisigverify :: opcode where "opcode_checkmultisigverify \<equiv> 175"
abbreviation reserved_186 :: opcode where "reserved_186 \<equiv> 186"
abbreviation reserved_255 :: opcode where "reserved_255 \<equiv> 255"

abbreviation invalid_code :: opcode where "invalid_code \<equiv> disabled_xor"

subsection \<open>State\<close>

record operation =
  op_code :: opcode
  op_data :: data_chunk
  op_valid :: bool

text \<open>The default constructor and \<^verbatim>\<open>reset\<close> give the same value.\<close>

definition operation_reset :: operation where
  "operation_reset = \<lparr>op_code = invalid_code, op_data = [], op_valid = False\<rparr>"

definition operation_of_code :: "opcode \<Rightarrow> operation" where
  "operation_of_code code = \<lparr>op_code = code, op_data = [], op_valid = True\<rparr>"

subsection \<open>Classification of opcodes\<close>

definition opcode_is_positive :: "opcode \<Rightarrow> bool" where
  "opcode_is_positive code \<longleftrightarrow> code \<ge> push_positive_1 \<and> code \<le> push_positive_16"

definition opcode_is_push :: "opcode \<Rightarrow> bool" where
  "opcode_is_push code \<longleftrightarrow> code \<le> push_positive_16 \<and> code \<noteq> reserved_80"

definition opcode_is_payload :: "opcode \<Rightarrow> bool" where
  "opcode_is_payload code \<longleftrightarrow> code \<ge> push_size_1 \<and> code \<le> push_four_size"

definition opcode_is_counted :: "opcode \<Rightarrow> bool" where
  "opcode_is_counted code \<longleftrightarrow> code \<ge> opcode_nop"

definition opcode_is_version :: "opcode \<Rightarrow> bool" where
  "opcode_is_version code \<longleftrightarrow> code = push_size_0 \<or> opcode_is_positive code"

definition opcode_is_numeric :: "opcode \<Rightarrow> bool" where
  "opcode_is_numeric code \<longleftrightarrow> opcode_is_positive code \<or> code = push_negative_1"

definition opcode_is_reserved :: "opcode \<Rightarrow> bool" where
  "opcode_is_reserved code \<longleftrightarrow>
     code = reserved_80 \<or> code = reserved_98 \<or> code = reserved_137 \<or> code = reserved_138 \<or>
     (code \<ge> reserved_186 \<and> code \<le> reserved_255)"

text \<open>
  The disabled codes: cat, substr, left, right (126 to 129), invert, and, or, xor (131 to 134),
  mul2, div2 (141, 142), mul, div, mod, lshift, rshift (149 to 153), verif and vernotif (101, 102).
\<close>

definition opcode_is_disabled :: "opcode \<Rightarrow> bool" where
  "opcode_is_disabled code \<longleftrightarrow>
     code \<in> {126, 127, 128, 129, 131, 132, 133, disabled_xor, 141, 142, 149, 150, 151, 152, 153,
             disabled_verif, disabled_vernotif}"

definition opcode_is_conditional :: "opcode \<Rightarrow> bool" where
  "opcode_is_conditional code \<longleftrightarrow>
     code \<in> {opcode_if, opcode_notif, opcode_else, opcode_endif}"

definition opcode_is_relaxed_push :: "opcode \<Rightarrow> bool" where
  "opcode_is_relaxed_push code \<longleftrightarrow> code \<le> push_positive_16"

subsection \<open>Opcodes of data\<close>

definition opcode_from_size :: "nat \<Rightarrow> opcode" where
  "opcode_from_size n =
     (if n \<le> 75 then of_nat n
      else if n \<le> max_uint8 then push_one_size
      else if n \<le> max_uint16 then push_two_size
      else push_four_size)"

definition opcode_from_positive :: "byte \<Rightarrow> opcode" where
  "opcode_from_positive v = v + push_positive_1 - 1"

definition opcode_to_positive :: "opcode \<Rightarrow> byte" where
  "opcode_to_positive code = code - push_positive_1 + 1"

definition minimal_opcode_from_data :: "data_chunk \<Rightarrow> opcode" where
  "minimal_opcode_from_data data =
     (if length data = 1 \<and> hd data = negative_1 then push_negative_1
      else if length data = 1 \<and> hd data = positive_0 then push_size_0
      else if length data = 1 \<and> hd data \<ge> positive_1 \<and> hd data \<le> positive_16
        then opcode_from_positive (hd data)
      else opcode_from_size (length data))"

definition nominal_opcode_from_data :: "data_chunk \<Rightarrow> opcode" where
  "nominal_opcode_from_data data = opcode_from_size (length data)"

definition opcode_from_data :: "data_chunk \<Rightarrow> bool \<Rightarrow> opcode" where
  "opcode_from_data data minimal =
     (if minimal then minimal_opcode_from_data data else nominal_opcode_from_data data)"

subsection \<open>Operations\<close>

definition is_oversized :: "operation \<Rightarrow> bool" where
  "is_oversized op \<longleftrightarrow> length (op_data op) > max_push_data_size"

definition is_minimal_push :: "operation \<Rightarrow> bool" where
  "is_minimal_push op \<longleftrightarrow> op_code op = minimal_opcode_from_data (op_data op)"

definition is_nominal_push :: "operation \<Rightarrow> bool" where
  "is_nominal_push op \<longleftrightarrow> op_code op = nominal_opcode_from_data (op_data op)"

text \<open>The constructor from uncoded data: oversized data resets, a numeric code drops the data.\<close>

definition operation_of_data :: "data_chunk \<Rightarrow> bool \<Rightarrow> operation" where
  "operation_of_data uncoded minimal =
     (let op = \<lparr>op_code = opcode_from_data uncoded minimal, op_data = uncoded, op_valid = True\<rparr>;
          op = (if is_oversized op then operation_reset else op)
      in if minimal \<and> \<not> opcode_is_payload (op_code op) then op\<lparr>op_data := []\<rparr> else op)"

definition operation_serialized_size :: "operation \<Rightarrow> nat" where
  "operation_serialized_size op =
     (let n = length (op_data op) in
      if op_code op = push_one_size then 1 + 1 + n
      else if op_code op = push_two_size then 1 + 2 + n
      else if op_code op = push_four_size then 1 + 4 + n
      else 1 + n)"

subsection \<open>Deserialization\<close>

definition read_data_size :: "opcode \<Rightarrow> nat rd" where
  "read_data_size code =
     (if code = push_one_size then map_state unat read_byte
      else if code = push_two_size then map_state unat read_2_bytes_little_endian
      else if code = push_four_size then map_state unat read_4_bytes_little_endian
      else State_Monad.return (if code \<le> push_size_75 then unat code else 0))"

definition operation_from_reader :: "currency \<Rightarrow> operation rd" where
  "operation_from_reader cur = do {
     code \<leftarrow> read_byte;
     n \<leftarrow> read_data_size code;
     data \<leftarrow> (if n > get_max_block_size cur
             then do { invalidate; State_Monad.return [] }
             else read_bytes n);
     ok \<leftarrow> source_valid;
     State_Monad.return
       (if ok then \<lparr>op_code = code, op_data = data, op_valid = True\<rparr> else operation_reset)
   }"

definition operation_factory_from_data :: "currency \<Rightarrow> data_chunk \<Rightarrow> operation" where
  "operation_factory_from_data cur encoded = fst (run_state (operation_from_reader cur) (ready encoded))"

subsection \<open>Serialization\<close>

definition operation_to_data :: "operation \<Rightarrow> data_chunk" where
  "operation_to_data op =
     (let n = length (op_data op) in
      write_byte (op_code op) @
      (if op_code op = push_one_size then write_byte (of_nat n)
       else if op_code op = push_two_size then write_2_bytes_little_endian (of_nat n)
       else if op_code op = push_four_size then write_4_bytes_little_endian (of_nat n)
       else []) @
      write_bytes (op_data op))"

subsection \<open>Well-formed operations\<close>

text \<open>The data an opcode can carry on the wire, within the allocation guard of the reader.\<close>

definition data_fits :: "opcode \<Rightarrow> nat \<Rightarrow> bool" where
  "data_fits code n \<longleftrightarrow>
     (if code \<le> push_size_75 then n = unat code
      else if code = push_one_size then n \<le> max_uint8
      else if code = push_two_size then n \<le> max_uint16
      else if code = push_four_size then n \<le> max_uint32
      else n = 0)"

definition operation_wf :: "currency \<Rightarrow> operation \<Rightarrow> bool" where
  "operation_wf cur op \<longleftrightarrow>
     op_valid op \<and> data_fits (op_code op) (length (op_data op)) \<and>
     length (op_data op) \<le> get_max_block_size cur"

lemma length_operation_to_data [length_simps]:
  "length (operation_to_data op) = operation_serialized_size op"
  by (simp add: operation_to_data_def operation_serialized_size_def Let_def length_simps
      write_bytes_def)

lemma operation_serialized_size_pos: "0 < operation_serialized_size op"
  by (simp add: operation_serialized_size_def Let_def)

lemma data_fits_unat:
  "data_fits code n \<Longrightarrow> code = push_one_size \<Longrightarrow> unat (of_nat n :: byte) = n"
  "data_fits code n \<Longrightarrow> code = push_two_size \<Longrightarrow> unat (of_nat n :: uint16) = n"
  "data_fits code n \<Longrightarrow> code = push_four_size \<Longrightarrow> unat (of_nat n :: uint32) = n"
  by (simp_all add: data_fits_def unat_of_nat)

text \<open>The size field an opcode puts before its data.\<close>

definition size_prefix :: "opcode \<Rightarrow> nat \<Rightarrow> data_chunk" where
  "size_prefix code n =
     (if code = push_one_size then write_byte (of_nat n)
      else if code = push_two_size then write_2_bytes_little_endian (of_nat n)
      else if code = push_four_size then write_4_bytes_little_endian (of_nat n)
      else [])"

lemma operation_to_data_alt:
  "operation_to_data op = op_code op # size_prefix (op_code op) (length (op_data op)) @ op_data op"
  by (simp add: operation_to_data_def size_prefix_def write_byte_def write_bytes_def)

lemma read_data_size_prefix:
  assumes "data_fits code n"
  shows "run_state (read_data_size code) (ready (size_prefix code n @ rest)) = (n, ready rest)"
  using assms data_fits_unat [OF assms]
  by (auto simp: read_data_size_def size_prefix_def write_byte_def wire_simps state.map_sel
      data_fits_def split: if_splits)

lemma operation_read_write:
  assumes "operation_wf cur op"
  shows "run_state (operation_from_reader cur) (ready (operation_to_data op @ rest)) = (op, ready rest)"
  using assms
  by (cases op) (auto simp: operation_wf_def operation_from_reader_def operation_to_data_alt
      read_data_size_prefix wire_simps)

lemma keeps_failure_operation [failure_rules]:
  "keeps_failure (read_data_size code)" "keeps_failure (operation_from_reader cur)"
  by (auto simp: read_data_size_def operation_from_reader_def intro!: failure_rules)

lemma read_data_size_write_read:
  assumes "run_state (read_data_size code) (ready bs) = (n, r)" and "\<not> failbit r"
  shows "data_fits code n \<and> bs = size_prefix code n @ stream r \<and> r = ready (stream r)"
proof -
  consider "code = push_one_size" | "code = push_two_size" | "code = push_four_size"
    | "code \<notin> {push_one_size, push_two_size, push_four_size}" by blast
  then show ?thesis
  proof cases
    case 1
    with assms(1) obtain b where b: "run_state read_byte (ready bs) = (b, r)" "n = unat b"
      by (auto simp: read_data_size_def state.map_sel map_prod_def split: prod.splits)
    then show ?thesis
      using read_byte_write_read [OF b(1) assms(2)] 1 unat_byte_less [of b]
      by (simp add: data_fits_def size_prefix_def write_byte_def)
  next
    case 2
    with assms(1) obtain v where v: "run_state read_2_bytes_little_endian (ready bs) = (v, r)" "n = unat v"
      by (auto simp: read_data_size_def state.map_sel map_prod_def split: prod.splits)
    have "n < 2 ^ 16" using unsigned_less [where 'a = nat, of v] v(2) by simp
    then show ?thesis
      using u16_codec.write_read [OF v(1) assms(2)] 2 v(2)
      by (simp add: data_fits_def size_prefix_def)
  next
    case 3
    with assms(1) obtain v where v: "run_state read_4_bytes_little_endian (ready bs) = (v, r)" "n = unat v"
      by (auto simp: read_data_size_def state.map_sel map_prod_def split: prod.splits)
    have "n < 2 ^ 32" using unsigned_less [where 'a = nat, of v] v(2) by simp
    then show ?thesis
      using u32_codec.write_read [OF v(1) assms(2)] 3 v(2)
      by (simp add: data_fits_def size_prefix_def)
  next
    case 4
    with assms show ?thesis
      by (auto simp: read_data_size_def data_fits_def size_prefix_def)
  qed
qed

lemma operation_write_read:
  assumes run: "run_state (operation_from_reader cur) (ready bs) = (op, r)" and ok: "\<not> failbit r"
  shows "operation_wf cur op \<and> bs = operation_to_data op @ stream r \<and> r = ready (stream r)"
proof -
  obtain code r1 where 1: "run_state read_byte (ready bs) = (code, r1)" by fastforce
  obtain n r2 where 2: "run_state (read_data_size code) r1 = (n, r2)" by fastforce
  define m where "m = (if n > get_max_block_size cur
     then do { invalidate; State_Monad.return ([] :: data_chunk) } else read_bytes n)"
  obtain data r3 where 3: "run_state m r2 = (data, r3)" by fastforce
  have r3: "r = r3" and op: "op = \<lparr>op_code = code, op_data = data, op_valid = True\<rparr>"
    using run ok 1 2 3 by (auto simp: operation_from_reader_def m_def run_source_valid split: if_splits)
  have guard: "n \<le> get_max_block_size cur"
    using 3 ok r3 by (auto simp: m_def invalidate_def split: if_splits)
  then have m: "m = read_bytes n" by (simp add: m_def)
  have r2: "\<not> failbit r2"
    using keeps_failure_valid [OF keeps_failure_reads(4)] 3 ok r3 m by blast
  have r1: "\<not> failbit r1"
    using keeps_failure_valid [OF keeps_failure_operation(1) 2 r2] .
  have b1: "bs = code # stream r1" "r1 = ready (stream r1)"
    using read_byte_write_read [OF 1 r1] by auto
  then have b2: "data_fits code n" "stream r1 = size_prefix code n @ stream r2" "r2 = ready (stream r2)"
    using read_data_size_write_read [OF _ r2, of code "stream r1" n] 2 by auto
  then have "length data = n" "stream r2 = data @ stream r3" "r3 = ready (stream r3)"
    using read_bytes_write_read [of n "stream r2" data r3] 3 m ok r3 by auto
  then show ?thesis
    using b1 b2 guard op r3 by (simp add: operation_wf_def operation_to_data_alt)
qed

interpretation operation_codec:
  lossless_codec operation_to_data "operation_from_reader cur" "operation_wf cur" for cur
  by unfold_locales (simp_all add: operation_read_write operation_write_read)

text \<open>A read that finds at least one byte consumes at least one byte.\<close>

lemma operation_from_reader_progress:
  "length (stream (snd (run_state (operation_from_reader cur) (ready (b # bs))))) \<le> length bs"
proof -
  have rest: "keeps_failure (do {
     n \<leftarrow> read_data_size b;
     data \<leftarrow> (if n > get_max_block_size cur then do { invalidate; State_Monad.return [] } else read_bytes n);
     ok \<leftarrow> source_valid;
     State_Monad.return (if ok then \<lparr>op_code = b, op_data = data, op_valid = True\<rparr> else operation_reset)
   })"
    by (intro failure_rules)
  then show ?thesis
    using keeps_failure_length [OF rest, of "ready bs"]
    by (simp add: operation_from_reader_def wire_simps)
qed

end
