(* ===== verification/Script.thy ===== *)
theory Script
  imports Operation
begin

text \<open>
  The script of \<^verbatim>\<open>src/chain/script.cpp\<close>: its bytes, the cached list of operations and the
  validity flag; parsing, serialization, the pattern tests and constructors, signature
  operation counting and \<^verbatim>\<open>find_and_delete\<close>.  Evaluation is in the theories \<open>Program\<close>,
  \<open>Interpreter\<close> and \<open>Verify\<close>.
\<close>

record script =
  script_bytes :: data_chunk
  script_cache :: "operation list option"
  script_valid :: bool

definition script_reset :: script where
  "script_reset = \<lparr>script_bytes = [], script_cache = None, script_valid = False\<rparr>"

text \<open>Copying and assigning a script drops its cache.\<close>

definition script_copy :: "script \<Rightarrow> script" where
  "script_copy s = s\<lparr>script_cache := None\<rparr>"

definition script_equal :: "script \<Rightarrow> script \<Rightarrow> bool" where
  "script_equal a b \<longleftrightarrow> script_bytes a = script_bytes b"

subsection \<open>Operations of a script\<close>

text \<open>
  The parse loop \<^verbatim>\<open>while (!source.is_exhausted()) { op.from_data(source); push }\<close>.  An
  operation that fails leaves the source failed, so the next test stops the loop.  Each
  iteration consumes at least one byte.
\<close>

lemma run_is_exhausted:
  "run_state is_exhausted r =
     (if failbit r then (True, r)
      else if eofbit r then (True, r\<lparr>failbit := True\<rparr>)
      else if stream r = [] then (True, r\<lparr>eofbit := True\<rparr>) else (False, r))"
  by (auto simp: is_exhausted_def run_source_valid empty_source_def stream_peek_def good_def
      state.map_sel split: list.splits)

lemma not_exhausted:
  assumes "run_state is_exhausted r = (False, r')"
  obtains b bs where "r = ready (b # bs)" "r' = r"
proof -
  have "\<not> failbit r" "\<not> eofbit r" "stream r \<noteq> []" "r' = r"
    using assms by (auto simp: run_is_exhausted split: if_splits)
  then show thesis using that by (cases r; cases "stream r") auto
qed

function parse_operations :: "currency \<Rightarrow> reader \<Rightarrow> operation list" where
  "parse_operations cur source =
     (case run_state is_exhausted source of
        (True, _) \<Rightarrow> []
      | (False, source') \<Rightarrow>
          (case run_state (operation_from_reader cur) source' of
             (op, source'') \<Rightarrow> op # parse_operations cur source''))"
  by pat_completeness auto
termination
proof (relation "measure (\<lambda>(cur, source). length (stream source))")
  fix cur source exhausted source' op source''
  assume "(exhausted, source') = run_state is_exhausted source" "exhausted = False"
    and op: "(op, source'') = run_state (operation_from_reader cur) source'"
  then have "run_state is_exhausted source = (False, source')" by simp
  then obtain b bs where "source = ready (b # bs)" "source' = source" by (rule not_exhausted)
  moreover have "source'' = snd (run_state (operation_from_reader cur) source')"
    using op by (metis snd_conv)
  ultimately show "((cur, source''), cur, source) \<in> measure (\<lambda>(cur, source). length (stream source))"
    using operation_from_reader_progress [of cur b bs] by simp
qed simp

declare parse_operations.simps [simp del]

definition script_operations :: "currency \<Rightarrow> script \<Rightarrow> operation list" where
  "script_operations cur s =
     (case script_cache s of
        Some ops \<Rightarrow> ops
      | None \<Rightarrow> parse_operations cur (ready (script_bytes s)))"

subsection \<open>Serialization\<close>

definition script_serialized_size :: "script \<Rightarrow> bool \<Rightarrow> nat" where
  "script_serialized_size s prefix =
     (let n = length (script_bytes s)
      in if prefix then n + variable_uint_size (of_nat n) else n)"

definition script_from_reader :: "currency \<Rightarrow> bool \<Rightarrow> script rd" where
  "script_from_reader cur prefix = do {
     bytes \<leftarrow> (if prefix then do {
                n \<leftarrow> read_size_little_endian;
                if n > get_max_block_size cur then do { invalidate; State_Monad.return [] }
                else read_bytes n
              } else read_all_bytes);
     ok \<leftarrow> source_valid;
     State_Monad.return
       (if ok then \<lparr>script_bytes = bytes, script_cache = None, script_valid = True\<rparr>
        else script_reset)
   }"

definition script_factory_from_data :: "currency \<Rightarrow> data_chunk \<Rightarrow> bool \<Rightarrow> script" where
  "script_factory_from_data cur encoded prefix =
     fst (run_state (script_from_reader cur prefix) (ready encoded))"

definition script_to_data :: "script \<Rightarrow> bool \<Rightarrow> data_chunk" where
  "script_to_data s prefix =
     (if prefix then write_variable_little_endian (of_nat (script_serialized_size s False)) else []) @
     write_bytes (script_bytes s)"

definition operations_to_data :: "operation list \<Rightarrow> data_chunk" where
  "operations_to_data ops = concat (map operation_to_data ops)"

definition operations_serialized_size :: "operation list \<Rightarrow> nat" where
  "operations_serialized_size ops = foldl (\<lambda>total op. total + operation_serialized_size op) 0 ops"

definition script_from_operations :: "operation list \<Rightarrow> script" where
  "script_from_operations ops =
     \<lparr>script_bytes = operations_to_data ops, script_cache = Some ops, script_valid = True\<rparr>"

text \<open>The constructor from encoded bytes; without a prefix every byte sequence is a valid script.\<close>

definition script_of_data :: "currency \<Rightarrow> data_chunk \<Rightarrow> bool \<Rightarrow> script" where
  "script_of_data cur encoded prefix =
     (if prefix then script_factory_from_data cur encoded prefix
      else \<lparr>script_bytes = encoded, script_cache = None, script_valid = True\<rparr>)"

definition is_valid_operations :: "currency \<Rightarrow> script \<Rightarrow> bool" where
  "is_valid_operations cur s \<longleftrightarrow>
     script_operations cur s = [] \<or> op_valid (last (script_operations cur s))"

subsection \<open>Patterns\<close>

text \<open>Key and endorsement shapes of \<^verbatim>\<open>src/math/elliptic_curve.cpp\<close>.\<close>

definition is_compressed_key :: "data_chunk \<Rightarrow> bool" where
  "is_compressed_key point \<longleftrightarrow> length point = 33 \<and> (hd point = 2 \<or> hd point = 3)"

definition is_uncompressed_key :: "data_chunk \<Rightarrow> bool" where
  "is_uncompressed_key point \<longleftrightarrow> length point = 65 \<and> hd point = 4"

definition is_public_key :: "data_chunk \<Rightarrow> bool" where
  "is_public_key point \<longleftrightarrow> is_compressed_key point \<or> is_uncompressed_key point"

definition is_endorsement :: "data_chunk \<Rightarrow> bool" where
  "is_endorsement e \<longleftrightarrow> 9 \<le> length e \<and> length e \<le> 73"

definition is_push_only :: "operation list \<Rightarrow> bool" where
  "is_push_only ops \<longleftrightarrow> list_all (\<lambda>op. opcode_is_push (op_code op)) ops"

definition is_relaxed_push :: "operation list \<Rightarrow> bool" where
  "is_relaxed_push ops \<longleftrightarrow> list_all (\<lambda>op. opcode_is_relaxed_push (op_code op)) ops"

definition is_coinbase_pattern :: "operation list \<Rightarrow> nat \<Rightarrow> bool" where
  "is_coinbase_pattern ops height \<longleftrightarrow>
     ops \<noteq> [] \<and> is_nominal_push (ops ! 0) \<and> op_data (ops ! 0) = number_data (of_nat height)"

definition witness_head :: uint32 where "witness_head = 0xaa21a9ed"

definition is_commitment_pattern :: "operation list \<Rightarrow> bool" where
  "is_commitment_pattern ops \<longleftrightarrow>
     length ops > 1 \<and> op_code (ops ! 0) = opcode_return \<and> op_code (ops ! 1) = push_size_36 \<and>
     take 4 (op_data (ops ! 1)) = to_big_endian witness_head"

definition is_witness_program_pattern :: "operation list \<Rightarrow> bool" where
  "is_witness_program_pattern ops \<longleftrightarrow>
     length ops = 2 \<and> opcode_is_version (op_code (ops ! 0)) \<and>
     length (op_data (ops ! 1)) \<ge> min_witness_program \<and>
     length (op_data (ops ! 1)) \<le> max_witness_program"

definition is_null_data_pattern :: "operation list \<Rightarrow> bool" where
  "is_null_data_pattern ops \<longleftrightarrow>
     length ops = 2 \<and> op_code (ops ! 0) = opcode_return \<and> is_minimal_push (ops ! 1) \<and>
     length (op_data (ops ! 1)) \<le> max_null_data_size"

definition is_pay_multisig_pattern :: "operation list \<Rightarrow> bool" where
  "is_pay_multisig_pattern ops =
     (let op_count = length ops in
      if op_count < 4 \<or> op_code (ops ! (op_count - 1)) \<noteq> opcode_checkmultisig then False
      else
        let op_m = op_code (ops ! 0); op_n = op_code (ops ! (op_count - 2)) in
        if op_m < push_positive_1 \<or> op_m > op_n \<or> op_n < push_positive_1 \<or> op_n > push_positive_16
        then False
        else
          let number = unat (op_n - push_positive_1) + 1; points = op_count - 3 in
          if number \<noteq> points then False
          else list_all (\<lambda>op. is_public_key (op_data op)) (take points (drop 1 ops)))"

definition is_pay_public_key_pattern :: "operation list \<Rightarrow> bool" where
  "is_pay_public_key_pattern ops \<longleftrightarrow>
     length ops = 2 \<and> is_public_key (op_data (ops ! 0)) \<and> op_code (ops ! 1) = opcode_checksig"

definition is_pay_key_hash_pattern :: "operation list \<Rightarrow> bool" where
  "is_pay_key_hash_pattern ops \<longleftrightarrow>
     length ops = 5 \<and> op_code (ops ! 0) = opcode_dup \<and> op_code (ops ! 1) = opcode_hash160 \<and>
     length (op_data (ops ! 2)) = 20 \<and> op_code (ops ! 3) = opcode_equalverify \<and>
     op_code (ops ! 4) = opcode_checksig"

definition is_pay_script_hash_pattern :: "operation list \<Rightarrow> bool" where
  "is_pay_script_hash_pattern ops \<longleftrightarrow>
     length ops = 3 \<and> op_code (ops ! 0) = opcode_hash160 \<and> op_code (ops ! 1) = push_size_20 \<and>
     op_code (ops ! 2) = opcode_equal"

definition is_pay_witness_script_hash_pattern :: "operation list \<Rightarrow> bool" where
  "is_pay_witness_script_hash_pattern ops \<longleftrightarrow>
     length ops = 2 \<and> op_code (ops ! 0) = push_size_0 \<and> op_code (ops ! 1) = push_size_32"

definition is_sign_multisig_pattern :: "operation list \<Rightarrow> bool" where
  "is_sign_multisig_pattern ops \<longleftrightarrow>
     length ops \<ge> 2 \<and> op_code (ops ! 0) = push_size_0 \<and>
     list_all (\<lambda>op. is_endorsement (op_data op)) (drop 1 ops)"

definition is_sign_public_key_pattern :: "operation list \<Rightarrow> bool" where
  "is_sign_public_key_pattern ops \<longleftrightarrow> length ops = 1 \<and> is_endorsement (op_data (ops ! 0))"

definition is_sign_key_hash_pattern :: "operation list \<Rightarrow> bool" where
  "is_sign_key_hash_pattern ops \<longleftrightarrow>
     length ops = 2 \<and> is_endorsement (op_data (ops ! 0)) \<and> is_public_key (op_data (ops ! 1))"

definition is_sign_script_hash_pattern :: "operation list \<Rightarrow> bool" where
  "is_sign_script_hash_pattern ops \<longleftrightarrow>
     ops \<noteq> [] \<and> is_push_only ops \<and> op_data (last ops) \<noteq> []"

subsection \<open>Constructors of patterns\<close>

definition to_null_data_pattern :: "data_chunk \<Rightarrow> operation list" where
  "to_null_data_pattern data =
     (if length data > max_null_data_size then []
      else [operation_of_code opcode_return, operation_of_data data True])"

definition to_pay_public_key_pattern :: "data_chunk \<Rightarrow> operation list" where
  "to_pay_public_key_pattern point =
     (if \<not> is_public_key point then []
      else [operation_of_data point True, operation_of_code opcode_checksig])"

definition to_pay_key_hash_pattern :: "data_chunk \<Rightarrow> operation list" where
  "to_pay_key_hash_pattern hash =
     [operation_of_code opcode_dup, operation_of_code opcode_hash160, operation_of_data hash True,
      operation_of_code opcode_equalverify, operation_of_code opcode_checksig]"

definition to_pay_script_hash_pattern :: "data_chunk \<Rightarrow> operation list" where
  "to_pay_script_hash_pattern hash =
     [operation_of_code opcode_hash160, operation_of_data hash True, operation_of_code opcode_equal]"

definition to_pay_multisig_pattern :: "byte \<Rightarrow> data_chunk list \<Rightarrow> operation list" where
  "to_pay_multisig_pattern signatures points =
     (let m = unat signatures; n = length points in
      if m < 1 \<or> m > n \<or> n < 1 \<or> n > 16 then []
      else if \<not> list_all is_public_key points then []
      else [operation_of_code (of_nat (m + 80))] @ map (\<lambda>p. operation_of_data p True) points @
           [operation_of_code (of_nat (n + 80)), operation_of_code opcode_checkmultisig])"

subsection \<open>Classification\<close>

datatype script_pattern = null_data | pay_multisig | pay_public_key | pay_key_hash
  | pay_script_hash | sign_multisig | sign_public_key | sign_key_hash | sign_script_hash
  | witness_reservation | non_standard

datatype script_version = version_zero | version_reserved | version_unversioned

definition output_pattern :: "operation list \<Rightarrow> script_pattern" where
  "output_pattern ops =
     (if is_pay_key_hash_pattern ops then pay_key_hash
      else if is_pay_script_hash_pattern ops then pay_script_hash
      else if is_null_data_pattern ops then null_data
      else if is_pay_public_key_pattern ops then pay_public_key
      else if is_pay_multisig_pattern ops then pay_multisig
      else non_standard)"

definition input_pattern :: "operation list \<Rightarrow> script_pattern" where
  "input_pattern ops =
     (if is_sign_key_hash_pattern ops then sign_key_hash
      else if is_sign_script_hash_pattern ops then sign_script_hash
      else if is_sign_public_key_pattern ops then sign_public_key
      else if is_sign_multisig_pattern ops then sign_multisig
      else non_standard)"

definition pattern_of :: "operation list \<Rightarrow> script_pattern" where
  "pattern_of ops =
     (let input = output_pattern ops in if input = non_standard then input_pattern ops else input)"

definition script_witness_program :: "currency \<Rightarrow> script \<Rightarrow> data_chunk" where
  "script_witness_program cur s =
     (let ops = script_operations cur s
      in if is_witness_program_pattern ops then op_data (ops ! 1) else [])"

definition script_version_of :: "currency \<Rightarrow> script \<Rightarrow> script_version" where
  "script_version_of cur s =
     (let ops = script_operations cur s in
      if \<not> is_witness_program_pattern ops then version_unversioned
      else if op_code (ops ! 0) = push_size_0 then version_zero else version_reserved)"

definition is_pay_to_witness :: "currency \<Rightarrow> script \<Rightarrow> uint32 \<Rightarrow> bool" where
  "is_pay_to_witness cur s forks \<longleftrightarrow>
     is_enabled forks bip141_rule \<and> is_witness_program_pattern (script_operations cur s)"

definition is_pay_to_script_hash :: "currency \<Rightarrow> script \<Rightarrow> uint32 \<Rightarrow> bool" where
  "is_pay_to_script_hash cur s forks \<longleftrightarrow>
     is_enabled forks bip16_rule \<and> is_pay_script_hash_pattern (script_operations cur s)"

definition is_unspendable :: "currency \<Rightarrow> script \<Rightarrow> bool" where
  "is_unspendable cur s \<longleftrightarrow>
     (script_operations cur s \<noteq> [] \<and> op_code (script_operations cur s ! 0) = opcode_return) \<or>
     script_serialized_size s False > max_script_size"

subsection \<open>Signature operations\<close>

definition multisig_sigops :: "bool \<Rightarrow> opcode \<Rightarrow> nat" where
  "multisig_sigops accurate code =
     (if accurate \<and> opcode_is_positive code then unat (opcode_to_positive code)
      else multisig_default_sigops)"

fun sigops_loop :: "bool \<Rightarrow> opcode \<Rightarrow> nat \<Rightarrow> operation list \<Rightarrow> nat" where
  "sigops_loop accurate preceding count [] = count"
| "sigops_loop accurate preceding count (op # ops) =
     (let code = op_code op;
          count' = (if code = opcode_checksig \<or> code = opcode_checksigverify then count + 1
                    else if code = opcode_checkmultisig \<or> code = opcode_checkmultisigverify
                      then count + multisig_sigops accurate preceding
                    else count)
      in sigops_loop accurate code count' ops)"

definition sigops :: "operation list \<Rightarrow> bool \<Rightarrow> nat" where
  "sigops ops accurate = sigops_loop accurate reserved_255 0 ops"

subsection \<open>Parsing and printing operations\<close>

lemma parse_operations_stop [simp]:
  "parse_operations cur (ready []) = []" "failbit r \<Longrightarrow> parse_operations cur r = []"
  by (subst parse_operations.simps, simp add: run_is_exhausted)+

lemma parse_operations_Cons:
  "parse_operations cur (ready (b # bs)) =
     (case run_state (operation_from_reader cur) (ready (b # bs)) of
        (op, r) \<Rightarrow> op # parse_operations cur r)"
  by (subst parse_operations.simps) (simp add: run_is_exhausted)

lemma operations_to_data_simps [simp]:
  "operations_to_data [] = []"
  "operations_to_data (op # ops) = operation_to_data op @ operations_to_data ops"
  "operations_to_data (xs @ ys) = operations_to_data xs @ operations_to_data ys"
  by (simp_all add: operations_to_data_def)

lemma operation_to_data_nonempty: "operation_to_data op \<noteq> []"
  using length_operation_to_data [of op] operation_serialized_size_pos [of op] by auto

lemma parse_operations_printed:
  "list_all (operation_wf cur) ops \<Longrightarrow>
   parse_operations cur (ready (operations_to_data ops @ rest)) = ops @ parse_operations cur (ready rest)"
proof (induction ops)
  case (Cons op ops)
  obtain b bs where bs: "operation_to_data op @ operations_to_data ops @ rest = b # bs"
    using operation_to_data_nonempty [of op] by (cases "operation_to_data op") auto
  have "run_state (operation_from_reader cur) (ready (b # bs)) = (op, ready (operations_to_data ops @ rest))"
    using Cons.prems operation_codec.read_write [of cur op "operations_to_data ops @ rest"] bs by simp
  with Cons bs show ?case by (simp add: parse_operations_Cons)
qed simp

text \<open>
  What the parse loop yields on any bytes: well-formed operations whose bytes are a prefix
  of the script, and, if the bytes end inside an operation, one trailing invalid operation.
\<close>

lemma operation_from_reader_failed:
  "run_state (operation_from_reader cur) r = (op, r') \<Longrightarrow> failbit r' \<Longrightarrow> op = operation_reset"
  by (auto simp: operation_from_reader_def run_source_valid split: prod.splits)

lemma parse_operations_shape:
  "\<exists>ops rest. list_all (operation_wf cur) ops \<and> bs = operations_to_data ops @ rest \<and>
     parse_operations cur (ready bs) = ops @ (if rest = [] then [] else [operation_reset])"
proof (induction "length bs" arbitrary: bs rule: less_induct)
  case less
  show ?case
  proof (cases bs)
    case Nil
    then show ?thesis by (intro exI [of _ "[]"]) simp
  next
    case (Cons b cs)
    obtain op r where run: "run_state (operation_from_reader cur) (ready bs) = (op, r)" by fastforce
    show ?thesis
    proof (cases "failbit r")
      case True
      with run have "parse_operations cur (ready bs) = [operation_reset]"
        using operation_from_reader_failed [OF run] by (simp add: Cons parse_operations_Cons)
      then show ?thesis by (intro exI [of _ "[]"] exI [of _ bs]) (simp add: Cons)
    next
      case False
      then have op: "operation_wf cur op" "bs = operation_to_data op @ stream r" "r = ready (stream r)"
        using operation_codec.write_read [OF run] by auto
      then have "length (stream r) < length bs"
        using operation_to_data_nonempty [of op] by simp
      then obtain ops rest where ih: "list_all (operation_wf cur) ops"
          "stream r = operations_to_data ops @ rest"
          "parse_operations cur (ready (stream r)) = ops @ (if rest = [] then [] else [operation_reset])"
        using less by blast
      have "parse_operations cur (ready bs) = op # parse_operations cur r"
        using run by (simp add: Cons parse_operations_Cons)
      then have "parse_operations cur (ready bs) = (op # ops) @ (if rest = [] then [] else [operation_reset])"
        using ih(3) op(3) by simp
      moreover have "bs = operations_to_data (op # ops) @ rest" using op(2) ih(2) by simp
      ultimately show ?thesis using ih(1) op(1) by (intro exI [of _ "op # ops"] exI [of _ rest]) simp
    qed
  qed
qed

lemma operations_serialized_size_sum:
  "operations_serialized_size ops = sum_list (map operation_serialized_size ops)"
proof -
  have "foldl (\<lambda>n op. n + operation_serialized_size op) k ops
      = k + sum_list (map operation_serialized_size ops)" for k
    by (induction ops arbitrary: k) auto
  then show ?thesis by (simp add: operations_serialized_size_def)
qed

lemma length_operations_to_data [length_simps]:
  "length (operations_to_data ops) = operations_serialized_size ops"
  by (simp add: operations_serialized_size_sum operations_to_data_def length_concat comp_def length_simps)

subsection \<open>Serialized scripts\<close>

definition script_wf :: "currency \<Rightarrow> script \<Rightarrow> bool" where
  "script_wf cur s \<longleftrightarrow>
     script_valid s \<and> script_cache s = None \<and> length (script_bytes s) \<le> get_max_block_size cur"

lemma max_block_size_le_size_t: "get_max_block_size cur \<le> max_size_t"
  by (simp add: get_max_block_size_def max_block_size_new_def max_block_size_def max_size_t_def)

interpretation script_codec:
  codec "\<lambda>s. script_to_data s True" "script_from_reader cur True" "script_wf cur" for cur
proof unfold_locales
  fix s rest
  assume wf: "script_wf cur s"
  then have "length (script_bytes s) \<le> max_size_t"
    using max_block_size_le_size_t [of cur] by (simp add: script_wf_def)
  with wf show "run_state (script_from_reader cur True) (ready (script_to_data s True @ rest)) = (s, ready rest)"
    by (cases s) (simp add: script_wf_def script_from_reader_def script_to_data_def
        script_serialized_size_def write_bytes_def wire_simps)
qed

lemma length_script_to_data [length_simps]:
  "length (script_to_data s prefix) = script_serialized_size s prefix"
  by (simp add: script_to_data_def script_serialized_size_def Let_def length_simps write_bytes_def)

lemma run_read_all_loop:
  "length bs \<le> n \<Longrightarrow>
   run_state (read_all_loop n out) (ready bs) = (out @ bs, \<lparr>stream = [], eofbit = True, failbit = False\<rparr>)"
proof (induction n arbitrary: bs out)
  case (Suc n)
  then show ?case by (cases bs) (simp_all add: run_is_exhausted run_read_byte_ready)
qed (simp add: run_is_exhausted)

lemma script_factory_unprefixed:
  "script_factory_from_data cur bs False = \<lparr>script_bytes = bs, script_cache = None, script_valid = True\<rparr>"
  by (simp add: script_factory_from_data_def script_from_reader_def read_all_bytes_def
      run_read_all_loop run_source_valid)

text \<open>The two constructors from unprefixed bytes agree: the stream-free one is an optimization.\<close>

lemma script_of_data_unprefixed: "script_of_data cur bs False = script_factory_from_data cur bs False"
  by (simp add: script_of_data_def script_factory_unprefixed)

subsection \<open>Shapes of the patterns\<close>

lemma list_lengths:
  "length xs = 1 \<longleftrightarrow> (\<exists>a. xs = [a])" "length xs = 2 \<longleftrightarrow> (\<exists>a b. xs = [a, b])"
  "length xs = 3 \<longleftrightarrow> (\<exists>a b c. xs = [a, b, c])"
  "length xs = 5 \<longleftrightarrow> (\<exists>a b c d e. xs = [a, b, c, d, e])"
  by (auto simp: length_Suc_conv numeral_eq_Suc)

lemma wf_data_payload:
  "operation_wf cur op \<Longrightarrow> op_data op \<noteq> [] \<Longrightarrow> opcode_is_payload (op_code op)"
  by (cases "op_data op") (auto simp: operation_wf_def data_fits_def opcode_is_payload_def
      word_le_nat_alt split: if_splits)

lemma payload_is_push: "opcode_is_payload code \<Longrightarrow> opcode_is_push code"
  by (auto simp: opcode_is_payload_def opcode_is_push_def word_le_nat_alt)

lemma wf_data_push: "operation_wf cur op \<Longrightarrow> op_data op \<noteq> [] \<Longrightarrow> opcode_is_push (op_code op)"
  by (rule payload_is_push [OF wf_data_payload])

lemma key_shapes_nonempty: "\<not> is_public_key []" "\<not> is_endorsement []"
  by (auto simp: is_public_key_def is_compressed_key_def is_uncompressed_key_def is_endorsement_def)

lemma opcode_from_size_push: "opcode_from_size n \<le> push_four_size"
  by (simp add: opcode_from_size_def word_le_nat_alt unat_of_nat)

lemma minimal_opcode_push: "minimal_opcode_from_data data \<le> push_positive_16"
proof (cases "length data = 1 \<and> hd data \<ge> positive_1 \<and> hd data \<le> positive_16")
  case True
  then have "unat (hd data) \<ge> 1" "unat (hd data) \<le> 16"
    by (simp_all add: word_le_nat_alt positive_1_def positive_16_def)
  then have "unat (opcode_from_positive (hd data)) \<le> 96"
    by (simp add: opcode_from_positive_def unat_word_ariths)
  then show ?thesis
    using True by (auto simp: minimal_opcode_from_data_def word_le_nat_alt)
next
  case False
  have "opcode_from_size (length data) \<le> push_positive_16"
    using opcode_from_size_push [of "length data"] by (simp add: word_le_nat_alt)
  with False show ?thesis
    by (auto simp: minimal_opcode_from_data_def word_le_nat_alt)
qed

lemma operation_of_data_nominal:
  assumes "1 < length data" and "length data \<le> max_push_data_size"
  shows "operation_of_data data True = \<lparr>op_code = opcode_from_size (length data), op_data = data, op_valid = True\<rparr>"
  using assms
  by (auto simp: operation_of_data_def Let_def is_oversized_def opcode_from_data_def
      minimal_opcode_from_data_def opcode_is_payload_def opcode_from_size_def word_le_nat_alt unat_of_nat
      script_constants)

lemma public_key_length: "is_public_key p \<Longrightarrow> 1 < length p \<and> length p \<le> max_push_data_size"
  by (auto simp: is_public_key_def is_compressed_key_def is_uncompressed_key_def script_constants)

lemma operation_wf_simple:
  "\<not> code \<le> push_four_size \<Longrightarrow> operation_wf cur (operation_of_code code)"
  by (auto simp: operation_wf_def operation_of_code_def data_fits_def word_le_nat_alt)

lemma operation_wf_payload:
  "n \<le> 75 \<Longrightarrow> length d = n \<Longrightarrow> operation_wf cur \<lparr>op_code = of_nat n, op_data = d, op_valid = True\<rparr>"
  by (simp add: operation_wf_def data_fits_def word_le_nat_alt unat_of_nat get_max_block_size_def
      max_block_size_new_def max_block_size_def)

abbreviation example_operations :: "operation list" where
  "example_operations \<equiv>
     [\<lparr>op_code = 0x76, op_data = [], op_valid = True\<rparr>, \<lparr>op_code = 2, op_data = [7, 9], op_valid = True\<rparr>]"

lemma example_operations_wf: "list_all (operation_wf bitcoin) example_operations"
  by (simp add: operation_wf_def data_fits_def get_max_block_size_def max_block_size_def is_bch_def)

subsection \<open>Properties of scripts\<close>

text \<open>
  The cached operations of a script built from well-formed operations are what parsing
  its bytes gives, so dropping the cache (copying) changes nothing.
\<close>

theorem script_cache_coherent:
  assumes "list_all (operation_wf cur) ops"
  shows "script_operations cur (script_copy (script_from_operations ops)) = ops"
  using parse_operations_printed [OF assms, of "[]"]
  by (simp add: script_operations_def script_copy_def script_from_operations_def)

theorem script_cache_coherent_witness:
  "script_operations bitcoin (script_copy (script_from_operations example_operations)) = example_operations"
  by (rule script_cache_coherent [OF example_operations_wf])

lemma bytes_script_operations:
  assumes "list_all (operation_wf cur) ops" and "operations_to_data ops = bs"
  shows "script_operations cur \<lparr>script_bytes = bs, script_cache = None, script_valid = ok\<rparr> = ops"
  using parse_operations_printed [of cur ops "[]"] assms by (simp add: script_operations_def)

lemma parse_lossless_aux:
  assumes "script_cache s = None" and "is_valid_operations cur s"
  shows "operations_to_data (script_operations cur s) = script_bytes s \<and>
    list_all (operation_wf cur) (script_operations cur s)"
proof -
  obtain ops rest where ops: "list_all (operation_wf cur) ops" "script_bytes s = operations_to_data ops @ rest"
      "parse_operations cur (ready (script_bytes s)) = ops @ (if rest = [] then [] else [operation_reset])"
    using parse_operations_shape [of cur "script_bytes s"] by blast
  then have "rest = []"
    using assms by (auto simp: is_valid_operations_def script_operations_def operation_reset_def split: if_splits)
  with ops assms(1) show ?thesis by (simp add: script_operations_def)
qed

text \<open>
  When a script parses to valid operations, serializing them gives back exactly its
  bytes, parsing is idempotent and every operation is well formed.
\<close>

theorem script_parse_lossless:
  assumes "script_cache s = None" and "is_valid_operations cur s"
  shows "operations_to_data (script_operations cur s) = script_bytes s \<and>
    script_operations cur (script_from_operations (script_operations cur s)) = script_operations cur s \<and>
    list_all (operation_wf cur) (script_operations cur s)"
  using parse_lossless_aux [OF assms] by (simp add: script_operations_def script_from_operations_def)

theorem script_parse_lossless_witness:
  "operations_to_data (script_operations bitcoin
     \<lparr>script_bytes = operations_to_data example_operations, script_cache = None, script_valid = True\<rparr>) =
   operations_to_data example_operations"
  using script_parse_lossless
      [of "\<lparr>script_bytes = operations_to_data example_operations, script_cache = None, script_valid = True\<rparr>" bitcoin]
    parse_operations_printed [OF example_operations_wf, of "[]"]
  by (simp add: is_valid_operations_def script_operations_def)

lemma valid_operations_of_last:
  assumes "script_cache s = None" and "op_code (last (script_operations cur s)) \<noteq> invalid_code"
  shows "is_valid_operations cur s"
proof -
  obtain ops and rest :: data_chunk where "list_all (operation_wf cur) ops"
      and parsed: "parse_operations cur (ready (script_bytes s)) =
        ops @ (if rest = [] then [] else [operation_reset])"
    using parse_operations_shape [of cur "script_bytes s"] by blast
  moreover have "script_operations cur s = parse_operations cur (ready (script_bytes s))"
    using assms(1) by (simp add: script_operations_def)
  ultimately show ?thesis
    using assms(2) by (cases "rest = []"; cases ops rule: rev_cases)
      (auto simp: is_valid_operations_def operation_wf_def operation_reset_def)
qed

text \<open>
  The operation-level test for pay-to-script-hash accepts exactly the 23-byte scripts
  a9 14 <20 bytes> 87 that bip16 requires.
\<close>

theorem pay_script_hash_bytes:
  assumes "script_cache s = None"
  shows "is_pay_script_hash_pattern (script_operations cur s) \<longleftrightarrow>
    (\<exists>h. length h = 20 \<and> script_bytes s = [0xa9, 0x14] @ h @ [0x87])"
proof
  assume pat: "is_pay_script_hash_pattern (script_operations cur s)"
  then obtain a b c where abc: "script_operations cur s = [a, b, c]" "op_code a = opcode_hash160"
      "op_code b = push_size_20" "op_code c = opcode_equal"
    by (auto simp: is_pay_script_hash_pattern_def list_lengths)
  have "is_valid_operations cur s"
    using valid_operations_of_last [OF assms, of cur] abc by simp
  then have wf: "script_bytes s = operations_to_data [a, b, c]" "operation_wf cur a"
      "operation_wf cur b" "operation_wf cur c"
    using parse_lossless_aux [OF assms, of cur] abc(1) by auto
  then have "op_data a = []" "length (op_data b) = 20" "op_data c = []"
    using abc by (auto simp: operation_wf_def data_fits_def)
  then show "\<exists>h. length h = 20 \<and> script_bytes s = [0xa9, 0x14] @ h @ [0x87]"
    using abc wf(1) by (intro exI [of _ "op_data b"]) (simp add: operation_to_data_alt size_prefix_def)
next
  assume "\<exists>h. length h = 20 \<and> script_bytes s = [0xa9, 0x14] @ h @ [0x87]"
  then obtain h where h: "length h = 20" "script_bytes s = [0xa9, 0x14] @ h @ [0x87]" by blast
  let ?ops = "[operation_of_code opcode_hash160, \<lparr>op_code = push_size_20, op_data = h, op_valid = True\<rparr>,
    operation_of_code opcode_equal]"
  have "list_all (operation_wf cur) ?ops"
    using operation_wf_payload [of 20 h cur] h(1) by (simp add: operation_wf_simple word_le_nat_alt)
  then have "parse_operations cur (ready (operations_to_data ?ops @ [])) = ?ops"
    by (subst parse_operations_printed) auto
  moreover have "operations_to_data ?ops = script_bytes s"
    using h by (simp add: operation_to_data_alt size_prefix_def operation_of_code_def)
  ultimately have "script_operations cur s = ?ops"
    using assms by (simp add: script_operations_def)
  then show "is_pay_script_hash_pattern (script_operations cur s)"
    by (simp add: is_pay_script_hash_pattern_def operation_of_code_def)
qed

theorem pay_script_hash_bytes_witness:
  "is_pay_script_hash_pattern (script_operations bitcoin
     \<lparr>script_bytes = [0xa9, 0x14] @ replicate 20 3 @ [0x87], script_cache = None, script_valid = True\<rparr>)"
  using pay_script_hash_bytes
    [of "\<lparr>script_bytes = [0xa9, 0x14] @ replicate 20 3 @ [0x87], script_cache = None, script_valid = True\<rparr>" bitcoin]
  by (metis length_replicate script.select_convs(1,2))

text \<open>
  At most one of the five output patterns matches a list of operations, so the order of
  the tests in output_pattern does not matter.
\<close>

theorem output_patterns_exclusive:
  "length (filter (\<lambda>pattern. pattern ops)
     [is_pay_key_hash_pattern, is_pay_script_hash_pattern, is_null_data_pattern,
      is_pay_public_key_pattern, is_pay_multisig_pattern]) \<le> 1"
proof -
  have push: "\<not> is_minimal_push op" if "op_code op = opcode_checksig" for op
    using minimal_opcode_push [of "op_data op"] that
    by (auto simp: is_minimal_push_def word_le_nat_alt)
  have multi: "4 \<le> length ops \<and> op_code (ops ! (length ops - 1)) = opcode_checkmultisig"
    if "is_pay_multisig_pattern ops"
    using that by (auto simp: is_pay_multisig_pattern_def Let_def split: if_splits)
  have "\<not> (is_null_data_pattern ops \<and> is_pay_public_key_pattern ops)"
    using push by (auto simp: is_null_data_pattern_def is_pay_public_key_pattern_def)
  then show ?thesis
    using multi
    by (auto simp: is_pay_key_hash_pattern_def is_pay_script_hash_pattern_def
        is_null_data_pattern_def is_pay_public_key_pattern_def)
qed

text \<open>
  input_pattern never answers sign_public_key or sign_multisig for well-formed
  operations: it reports only sign_key_hash, sign_script_hash or non_standard.
\<close>

theorem input_pattern_range:
  assumes "list_all (operation_wf cur) ops"
  shows "input_pattern ops \<in> {sign_key_hash, sign_script_hash, non_standard}"
proof -
  have push: "opcode_is_push (op_code op)" if "op \<in> set ops" "is_endorsement (op_data op)" for op
  proof -
    have "operation_wf cur op" using assms that(1) by (simp add: list_all_iff)
    moreover have "op_data op \<noteq> []" using that(2) key_shapes_nonempty by metis
    ultimately show ?thesis by (rule wf_data_push)
  qed
  have "is_sign_script_hash_pattern ops" if single: "is_sign_public_key_pattern ops"
  proof -
    obtain a where "ops = [a]" "is_endorsement (op_data a)"
      using single by (cases ops) (auto simp: is_sign_public_key_pattern_def)
    then show ?thesis
      using push [of a] key_shapes_nonempty
      by (auto simp: is_sign_script_hash_pattern_def is_push_only_def)
  qed
  moreover have "is_sign_script_hash_pattern ops" if multi: "is_sign_multisig_pattern ops"
  proof -
    obtain a rest where ops: "ops = a # rest" "rest \<noteq> []" "op_code a = push_size_0"
        "\<forall>op \<in> set rest. is_endorsement (op_data op)"
      using multi by (cases ops) (auto simp: is_sign_multisig_pattern_def list_all_iff Suc_le_eq)
    then have "op_data (last rest) \<noteq> []" using key_shapes_nonempty(2) by (metis last_in_set)
    then show ?thesis
      using push ops
      by (auto simp: is_sign_script_hash_pattern_def is_push_only_def list_all_iff opcode_is_push_def)
  qed
  ultimately show ?thesis by (auto simp: input_pattern_def)
qed

theorem input_pattern_range_witness:
  "input_pattern example_operations \<in> {sign_key_hash, sign_script_hash, non_standard}"
  by (rule input_pattern_range [OF example_operations_wf])

text \<open>
  The operations built by the to_pay_..._pattern constructors from arguments of the
  documented shape are classified by output_pattern as the pattern they were built for.
\<close>

theorem pattern_constructors_recognized:
  assumes "length hash = 20" and "is_public_key point"
    and "1 \<le> unat m" and "unat m \<le> length points" and "length points \<le> 16"
    and "list_all is_public_key points"
  shows "output_pattern (to_pay_key_hash_pattern hash) = pay_key_hash \<and>
    output_pattern (to_pay_script_hash_pattern hash) = pay_script_hash \<and>
    output_pattern (to_pay_public_key_pattern point) = pay_public_key \<and>
    output_pattern (to_pay_multisig_pattern m points) = pay_multisig"
proof (intro conjI)
  have hash: "operation_of_data hash True = \<lparr>op_code = push_size_20, op_data = hash, op_valid = True\<rparr>"
    using assms(1) by (simp add: operation_of_data_nominal script_constants opcode_from_size_def)
  show "output_pattern (to_pay_key_hash_pattern hash) = pay_key_hash"
    "output_pattern (to_pay_script_hash_pattern hash) = pay_script_hash"
    using assms(1)
    by (simp_all add: output_pattern_def to_pay_key_hash_pattern_def to_pay_script_hash_pattern_def hash
        is_pay_key_hash_pattern_def is_pay_script_hash_pattern_def operation_of_code_def)
  have key: "operation_of_data p True = \<lparr>op_code = opcode_from_size (length p), op_data = p, op_valid = True\<rparr>"
    if "is_public_key p" for p
    using public_key_length [OF that] by (simp add: operation_of_data_nominal)
  have small: "opcode_from_size n \<noteq> opcode_return" for n
    using opcode_from_size_push [of n] by (auto simp: word_le_nat_alt)
  show "output_pattern (to_pay_public_key_pattern point) = pay_public_key"
    using assms(2) small
    by (simp add: output_pattern_def to_pay_public_key_pattern_def key is_pay_key_hash_pattern_def
        is_pay_script_hash_pattern_def is_null_data_pattern_def is_pay_public_key_pattern_def
        operation_of_code_def)
  let ?keys = "map (\<lambda>p. operation_of_data p True) points"
  let ?ops = "operation_of_code (of_nat (unat m + 80)) # ?keys @
    [operation_of_code (of_nat (length points + 80)), operation_of_code opcode_checkmultisig]"
  have ops: "to_pay_multisig_pattern m points = ?ops"
    using assms(3-6) by (auto simp: to_pay_multisig_pattern_def Let_def)
  have keys: "list_all (\<lambda>op. is_public_key (op_data op)) ?keys"
    using assms(6) by (auto simp: list_all_iff key)
  have "points \<noteq> []" using assms(3,4) by auto
  then have multi: "is_pay_multisig_pattern ?ops"
    using assms(3-5) keys
    by (simp add: is_pay_multisig_pattern_def Let_def nth_append operation_of_code_def
        word_less_nat_alt unat_of_nat unat_sub_if' del: of_nat_add)
  have last: "op_code (?ops ! (length ?ops - 1)) = opcode_checkmultisig" "4 \<le> length ?ops"
    using assms(3,4) by (auto simp add: nth_append operation_of_code_def Suc_le_eq)
  show "output_pattern (to_pay_multisig_pattern m points) = pay_multisig"
    using multi last unfolding ops output_pattern_def
    by (auto simp del: length_append length_map simp: is_pay_key_hash_pattern_def is_pay_script_hash_pattern_def
        is_null_data_pattern_def is_pay_public_key_pattern_def)
qed

theorem pattern_constructors_recognized_witness:
  "output_pattern (to_pay_multisig_pattern 1 [2 # replicate 32 7, 3 # replicate 32 7]) = pay_multisig"
  using pattern_constructors_recognized [of "replicate 20 1" "2 # replicate 32 7" 1 "[2 # replicate 32 7, 3 # replicate 32 7]"]
  by (simp add: is_public_key_def is_compressed_key_def)

end
