(* ===== verification/Witness.thy ===== *)
theory Witness
  imports Script
begin

text \<open>
  The witness stack of \<^verbatim>\<open>src/chain/witness.cpp\<close> (bip141, bip144): serialization, the sigop
  script and the script a witness program embeds.  \<^verbatim>\<open>witness::verify\<close> is in the theory \<open>Verify\<close>.
\<close>

type_synonym data_stack = "data_chunk list"

record witness =
  witness_stack :: data_stack
  witness_valid :: bool

definition witness_reset :: witness where
  "witness_reset = \<lparr>witness_stack = [], witness_valid = False\<rparr>"

text \<open>The constructors from a stack leave \<^verbatim>\<open>valid_\<close> uninitialized: its value is an argument.\<close>

definition witness_of_stack :: "bool \<Rightarrow> data_stack \<Rightarrow> witness" where
  "witness_of_stack uninitialized stack = \<lparr>witness_stack = stack, witness_valid = uninitialized\<rparr>"

definition witness_equal :: "witness \<Rightarrow> witness \<Rightarrow> bool" where
  "witness_equal a b \<longleftrightarrow> witness_stack a = witness_stack b"

definition light_weight_factor :: nat where "light_weight_factor = 4"

definition max_block_weight :: "currency \<Rightarrow> nat" where
  "max_block_weight cur = light_weight_factor * get_max_block_size cur"

subsection \<open>Serialization\<close>

definition read_witness_element :: "currency \<Rightarrow> data_chunk rd" where
  "read_witness_element cur = do {
     n \<leftarrow> read_size_little_endian;
     if n > max_block_weight cur then do { invalidate; State_Monad.return [] }
     else read_bytes n
   }"

text \<open>
  The counted loop does not test the source, so it always reads \<open>count\<close> elements.  The
  uncounted one stops at the end of the stream; each element takes at least its size byte, so
  the unread part bounds the iterations.
\<close>

fun read_witness_count :: "currency \<Rightarrow> nat \<Rightarrow> data_stack rd" where
  "read_witness_count cur 0 = State_Monad.return []"
| "read_witness_count cur (Suc count) = do {
     element \<leftarrow> read_witness_element cur;
     rest \<leftarrow> read_witness_count cur count;
     State_Monad.return (element # rest)
   }"

fun read_witness_all :: "currency \<Rightarrow> nat \<Rightarrow> data_stack rd" where
  "read_witness_all cur 0 = do { _ \<leftarrow> is_exhausted; State_Monad.return [] }"
| "read_witness_all cur (Suc fuel) = do {
     e \<leftarrow> is_exhausted;
     if e then State_Monad.return []
     else do {
       element \<leftarrow> read_witness_element cur;
       rest \<leftarrow> read_witness_all cur fuel;
       State_Monad.return (element # rest)
     }
   }"

definition witness_from_reader :: "currency \<Rightarrow> bool \<Rightarrow> witness rd" where
  "witness_from_reader cur prefix = do {
     stack \<leftarrow> (if prefix then do {
                count \<leftarrow> read_size_little_endian;
                read_witness_count cur count
              } else do {
                r \<leftarrow> State_Monad.get;
                read_witness_all cur (length (stream r))
              });
     ok \<leftarrow> source_valid;
     State_Monad.return
       (if ok then \<lparr>witness_stack = stack, witness_valid = True\<rparr> else witness_reset)
   }"

definition write_witness_element :: "data_chunk \<Rightarrow> data_chunk" where
  "write_witness_element element = write_size_little_endian (length element) @ write_bytes element"

definition witness_to_data :: "bool \<Rightarrow> witness \<Rightarrow> data_chunk" where
  "witness_to_data prefix w =
     (if prefix then write_size_little_endian (length (witness_stack w)) else []) @
     concat (map write_witness_element (witness_stack w))"

definition stack_serialized_size :: "data_stack \<Rightarrow> nat" where
  "stack_serialized_size stack =
     foldl (\<lambda>sum element. sum + variable_uint_size (of_nat (length element)) + length element) 0 stack"

definition witness_serialized_size :: "bool \<Rightarrow> witness \<Rightarrow> nat" where
  "witness_serialized_size prefix w =
     (if prefix then variable_uint_size (of_nat (length (witness_stack w))) else 0) +
     stack_serialized_size (witness_stack w)"

subsection \<open>Patterns\<close>

definition is_push_size :: "data_stack \<Rightarrow> bool" where
  "is_push_size stack \<longleftrightarrow> list_all (\<lambda>element. length element \<le> max_push_data_size) stack"

definition is_reserved_pattern :: "data_stack \<Rightarrow> bool" where
  "is_reserved_pattern stack \<longleftrightarrow> length stack = 1 \<and> length (stack ! 0) = 32"

definition to_pay_key_hash :: "data_chunk \<Rightarrow> operation list" where
  "to_pay_key_hash program =
     [operation_of_code opcode_dup, operation_of_code opcode_hash160, operation_of_data program True,
      operation_of_code opcode_equalverify, operation_of_code opcode_checksig]"

definition script_clear :: script where
  "script_clear = script_reset"

text \<open>
  \<^verbatim>\<open>extract_sigop_script\<close>: the script that is left in \<^verbatim>\<open>out_script\<close>, \<open>None\<close> for the
  \<^verbatim>\<open>false\<close> return (the script is then the cleared one).
\<close>

definition extract_sigop_script :: "currency \<Rightarrow> witness \<Rightarrow> script \<Rightarrow> script option" where
  "extract_sigop_script cur w program_script =
     (case script_version_of cur program_script of
        version_zero \<Rightarrow>
          (let n = length (script_witness_program cur program_script) in
           if n = 20 then Some (script_from_operations [operation_of_code opcode_checksig])
           else if n = 32 then
             Some (if witness_stack w \<noteq> [] then script_factory_from_data cur (last (witness_stack w)) False
                   else script_clear)
           else Some script_clear)
      | version_reserved \<Rightarrow> Some script_clear
      | version_unversioned \<Rightarrow> None)"

text \<open>
  \<^verbatim>\<open>extract_embedded_script\<close> of \<^verbatim>\<open>witness\<close>: the script and the initial stack, \<open>None\<close> for the
  \<^verbatim>\<open>false\<close> return.  For a reserved version the two output arguments, here those of
  \<^verbatim>\<open>witness::verify\<close>, stay as they were.
\<close>

definition witness_extract_embedded_script ::
  "currency \<Rightarrow> (data_chunk \<Rightarrow> hash_digest) \<Rightarrow> witness \<Rightarrow> script \<Rightarrow> (script \<times> data_stack) option" where
  "witness_extract_embedded_script cur sha256 w program_script =
     (case script_version_of cur program_script of
        version_zero \<Rightarrow>
          (let program = script_witness_program cur program_script; stack = witness_stack w in
           if length program = 20 then
             (if length stack \<noteq> 2 \<or> \<not> is_push_size stack then None
              else Some (script_from_operations (to_pay_key_hash program), stack))
           else if length program = 32 then
             (if stack = [] then None
              else
                let out_script = script_factory_from_data cur (last stack) False;
                    out_stack = butlast stack
                in if \<not> is_push_size out_stack then None
                   else if program = sha256 (script_to_data out_script False)
                     then Some (out_script, out_stack) else None)
           else None)
      | version_reserved \<Rightarrow> Some (script_clear, [])
      | version_unversioned \<Rightarrow> None)"

subsection \<open>Round trips\<close>

definition element_wf :: "currency \<Rightarrow> data_chunk \<Rightarrow> bool" where
  "element_wf cur element \<longleftrightarrow> length element \<le> max_block_weight cur"

definition witness_wf :: "currency \<Rightarrow> witness \<Rightarrow> bool" where
  "witness_wf cur w \<longleftrightarrow>
     witness_valid w \<and> list_all (element_wf cur) (witness_stack w) \<and> length (witness_stack w) \<le> max_size_t"

lemma max_block_weight_le_size_t: "max_block_weight cur \<le> max_size_t"
  by (simp add: max_block_weight_def light_weight_factor_def get_max_block_size_def max_block_size_new_def
      max_block_size_def max_size_t_def)

interpretation element_codec: codec write_witness_element "read_witness_element cur" "element_wf cur" for cur
proof unfold_locales
  fix x rest
  assume "element_wf cur x"
  then show "run_state (read_witness_element cur) (ready (write_witness_element x @ rest)) = (x, ready rest)"
    using max_block_weight_le_size_t [of cur]
    by (simp add: element_wf_def read_witness_element_def write_witness_element_def write_bytes_def wire_simps)
qed

lemma read_witness_count_ready:
  "list_all (element_wf cur) stack \<Longrightarrow>
   run_state (read_witness_count cur (length stack)) (ready (concat (map write_witness_element stack) @ rest))
     = (stack, ready rest)"
  by (induction stack) (simp_all add: element_codec.read_write)

interpretation witness_codec: codec "witness_to_data True" "witness_from_reader cur True" "witness_wf cur" for cur
proof unfold_locales
  fix w rest
  assume "witness_wf cur w"
  then show "run_state (witness_from_reader cur True) (ready (witness_to_data True w @ rest)) = (w, ready rest)"
    by (cases w) (simp add: witness_wf_def witness_from_reader_def witness_to_data_def wire_simps
        read_witness_count_ready)
qed

lemma element_nonempty: "write_witness_element x \<noteq> []"
proof -
  have "0 < length (write_witness_element x)"
    by (simp add: write_witness_element_def write_size_little_endian_def length_simps variable_uint_size_def)
  then show ?thesis by simp
qed

lemma read_witness_all_ready:
  "list_all (element_wf cur) stack \<Longrightarrow> length (concat (map write_witness_element stack)) \<le> fuel \<Longrightarrow>
   run_state (read_witness_all cur fuel) (ready (concat (map write_witness_element stack))) =
     (stack, \<lparr>stream = [], eofbit = True, failbit = False\<rparr>)"
proof (induction stack arbitrary: fuel)
  case Nil
  then show ?case by (cases fuel) (simp_all add: run_is_exhausted)
next
  case (Cons x stack)
  obtain k where k: "fuel = Suc k" using Cons.prems(2) element_nonempty [of x] by (cases fuel) auto
  have "length (concat (map write_witness_element stack)) \<le> k"
    using Cons.prems(2) element_nonempty [of x] k by (cases "write_witness_element x") auto
  moreover have "run_state is_exhausted (ready (write_witness_element x @ bs))
      = (False, ready (write_witness_element x @ bs))" for bs
    using element_nonempty [of x] by (simp add: run_is_exhausted)
  ultimately show ?case
    using Cons by (simp add: k element_codec.read_write)
qed

lemma witness_round_trip_unprefixed:
  assumes "list_all (element_wf cur) stack"
  shows "fst (run_state (witness_from_reader cur False)
      (ready (witness_to_data False \<lparr>witness_stack = stack, witness_valid = v\<rparr>))) =
    \<lparr>witness_stack = stack, witness_valid = True\<rparr>"
  using read_witness_all_ready [OF assms order_refl]
  by (simp add: witness_from_reader_def witness_to_data_def run_source_valid)

lemma length_witness_to_data [length_simps]:
  "length (witness_to_data prefix w) = witness_serialized_size prefix w"
proof -
  have "foldl (\<lambda>sum element. sum + variable_uint_size (of_nat (length element)) + length element) k stack
      = k + length (concat (map write_witness_element stack))" for k stack
    by (induction stack arbitrary: k)
      (simp_all add: write_witness_element_def write_size_little_endian_def length_simps write_bytes_def)
  then show ?thesis
    by (simp add: witness_to_data_def witness_serialized_size_def stack_serialized_size_def
        write_size_little_endian_def length_simps)
qed

lemma keeps_failure_element [failure_rules]: "keeps_failure (read_witness_element cur)"
  by (auto simp: read_witness_element_def intro!: failure_rules)

lemma keeps_failure_witness_count [failure_rules]: "keeps_failure (read_witness_count cur n)"
  by (induction n) (auto intro!: failure_rules)

lemma keeps_failure_witness [failure_rules]: "keeps_failure (witness_from_reader cur True)"
  by (auto simp: witness_from_reader_def intro!: failure_rules)

end
