(* ===== verification/Handshake.thy ===== *)
theory Handshake
  imports Inventory Witness
begin

text \<open>
  The \<^verbatim>\<open>reject\<close> and \<^verbatim>\<open>version\<close> messages, the heading of a message and the frame that
  \<^verbatim>\<open>message::serialize\<close> (\<^verbatim>\<open>messages.hpp\<close>) builds from a heading and a payload.
\<close>

subsection \<open>reject\<close>

datatype reason_code = undefined_reason | malformed | invalid_reason | obsolete | duplicate_reason | nonstandard
  | dust | insufficient_fee | checkpoint_reason

definition reason_from_byte :: "byte \<Rightarrow> reason_code" where
  "reason_from_byte b =
     (if b = 0x01 then malformed else if b = 0x10 then invalid_reason else if b = 0x11 then obsolete
      else if b = 0x12 then duplicate_reason else if b = 0x40 then nonstandard else if b = 0x41 then dust
      else if b = 0x42 then insufficient_fee else if b = 0x43 then checkpoint_reason else undefined_reason)"

fun reason_to_byte :: "reason_code \<Rightarrow> byte" where
  "reason_to_byte malformed = 0x01"
| "reason_to_byte invalid_reason = 0x10"
| "reason_to_byte obsolete = 0x11"
| "reason_to_byte duplicate_reason = 0x12"
| "reason_to_byte nonstandard = 0x40"
| "reason_to_byte dust = 0x41"
| "reason_to_byte insufficient_fee = 0x42"
| "reason_to_byte checkpoint_reason = 0x43"
| "reason_to_byte undefined_reason = 0x00"

lemma reason_round_trip [simp]: "reason_from_byte (reason_to_byte c) = c"
  by (cases c) (simp_all add: reason_from_byte_def)

record reject =
  reject_code :: reason_code
  reject_message :: data_chunk
  reject_reason :: data_chunk
  reject_data :: hash_digest

definition reject_default :: reject where
  "reject_default = \<lparr>reject_code = undefined_reason, reject_message = [], reject_reason = [], reject_data = null_hash\<rparr>"

definition reject_is_valid :: "reject \<Rightarrow> bool" where
  "reject_is_valid r \<longleftrightarrow>
     reject_message r \<noteq> [] \<or> reject_code r \<noteq> undefined_reason \<or> reject_reason r \<noteq> [] \<or> reject_data r \<noteq> null_hash"

definition carries_hash :: "data_chunk \<Rightarrow> bool" where
  "carries_hash m \<longleftrightarrow> m = ascii ''block'' \<or> m = ascii ''tx''"

definition reject_from_data :: "uint32 \<Rightarrow> reject rd" where
  "reject_from_data v = do {
     m \<leftarrow> read_string;
     b \<leftarrow> read_byte;
     reason \<leftarrow> read_string;
     d \<leftarrow> (if carries_hash m then do {
             bytes \<leftarrow> read_all_bytes;
             State_Monad.return (if length bytes = 32 then bytes else null_hash)
           } else State_Monad.return null_hash);
     invalidate_if (v < level_bip61);
     ok \<leftarrow> source_valid;
     State_Monad.return
       (if ok then \<lparr>reject_code = reason_from_byte b, reject_message = m, reject_reason = reason, reject_data = d\<rparr>
        else reject_default)
   }"

definition reject_to_data :: "uint32 \<Rightarrow> reject \<Rightarrow> data_chunk" where
  "reject_to_data v r =
     write_string (reject_message r) @ write_byte (reason_to_byte (reject_code r)) @ write_string (reject_reason r) @
     (if carries_hash (reject_message r) then write_hash (reject_data r) else [])"

definition reject_size :: "uint32 \<Rightarrow> reject \<Rightarrow> nat" where
  "reject_size v r =
     1 + string_size (reject_message r) + string_size (reject_reason r) +
     (if carries_hash (reject_message r) then 32 else 0)"

definition reject_wf :: "uint32 \<Rightarrow> reject \<Rightarrow> bool" where
  "reject_wf v r \<longleftrightarrow>
     level_bip61 \<le> v \<and> string_ok (reject_message r) \<and> string_ok (reject_reason r) \<and> length (reject_data r) = 32 \<and>
     (\<not> carries_hash (reject_message r) \<longrightarrow> reject_data r = null_hash)"

lemma run_read_all_bytes: "run_state read_all_bytes (ready bs) = (bs, \<lparr>stream = [], eofbit = True, failbit = False\<rparr>)"
  by (simp add: read_all_bytes_def run_read_all_loop)

interpretation reject_message: message_codec reject_to_data reject_from_data reject_size reject_wf
proof unfold_locales
  fix v r
  assume ok: "reject_wf v r"
  show "\<exists>s. run_state (reject_from_data v) (ready (reject_to_data v r)) = (r, s) \<and> \<not> failbit s"
  proof (cases "carries_hash (reject_message r)")
    case True
    then show ?thesis
      using ok by (cases r) (auto simp: reject_wf_def reject_from_data_def reject_to_data_def write_byte_def write_hash_def
          run_read_all_bytes wire_simps)
  next
    case False
    then show ?thesis
      using ok run_read_string_ready [of "reject_reason r" "[]"]
      by (cases r) (auto simp: reject_wf_def reject_from_data_def reject_to_data_def write_byte_def wire_simps)
  qed
  show "length (reject_to_data v r) = reject_size v r"
    using ok by (simp add: reject_wf_def reject_to_data_def reject_size_def length_simps)
qed

subsection \<open>version\<close>

record version_message =
  vm_value :: uint32
  vm_services :: uint64
  vm_timestamp :: uint64
  address_receiver :: network_address
  address_sender :: network_address
  vm_nonce :: uint64
  user_agent :: data_chunk
  start_height :: uint32
  relay :: bool

definition version_default :: version_message where
  "version_default =
     \<lparr>vm_value = 0, vm_services = 0, vm_timestamp = 0, address_receiver = network_address_default,
      address_sender = network_address_default, vm_nonce = 0, user_agent = [], start_height = 0, relay = False\<rparr>"

definition version_is_valid :: "version_message \<Rightarrow> bool" where
  "version_is_valid m \<longleftrightarrow>
     vm_value m \<noteq> 0 \<or> vm_services m \<noteq> 0 \<or> vm_timestamp m \<noteq> 0 \<or> network_address_is_valid (address_receiver m) \<or>
     network_address_is_valid (address_sender m) \<or> vm_nonce m \<noteq> 0 \<or> user_agent m \<noteq> [] \<or> start_height m \<noteq> 0 \<or> relay m"

text \<open>The relay flag is read lazily, as the disjunction of the code is evaluated.\<close>

definition read_relay :: "uint32 \<Rightarrow> uint32 \<Rightarrow> bool rd" where
  "read_relay v value_field =
     (let peer_bip37 = value_field \<ge> level_bip37; self_bip37 = v \<ge> level_bip37
      in if peer_bip37 \<noteq> self_bip37 then State_Monad.return True
         else do {
           e \<leftarrow> is_exhausted;
           if e then State_Monad.return True
           else if \<not> self_bip37 then State_Monad.return False
           else do { b \<leftarrow> read_byte; State_Monad.return (b \<noteq> 0) }
         })"

definition version_from_data :: "uint32 \<Rightarrow> version_message rd" where
  "version_from_data v = do {
     val \<leftarrow> read_4_bytes_little_endian;
     services \<leftarrow> read_8_bytes_little_endian;
     time \<leftarrow> read_8_bytes_little_endian;
     receiver \<leftarrow> network_address_from_data False;
     sender \<leftarrow> network_address_from_data False;
     n \<leftarrow> read_8_bytes_little_endian;
     agent \<leftarrow> read_string;
     start \<leftarrow> read_4_bytes_little_endian;
     rel \<leftarrow> read_relay v val;
     ok \<leftarrow> source_valid;
     State_Monad.return
       (if ok then
          \<lparr>vm_value = val, vm_services = services, vm_timestamp = time, address_receiver = receiver,
           address_sender = sender, vm_nonce = n, user_agent = agent, start_height = start, relay = rel\<rparr>
        else version_default)
   }"

definition version_to_data :: "uint32 \<Rightarrow> version_message \<Rightarrow> data_chunk" where
  "version_to_data v m =
     (let effective_version = min v (vm_value m) in
      write_4_bytes_little_endian (vm_value m) @ write_8_bytes_little_endian (vm_services m) @
      write_8_bytes_little_endian (vm_timestamp m) @ network_address_to_data False (address_receiver m) @
      network_address_to_data False (address_sender m) @ write_8_bytes_little_endian (vm_nonce m) @
      write_string (user_agent m) @ write_4_bytes_little_endian (start_height m) @
      (if effective_version \<ge> level_bip37 then write_byte (if relay m then 1 else 0) else []))"

definition version_size :: "uint32 \<Rightarrow> version_message \<Rightarrow> nat" where
  "version_size v m =
     4 + 8 + 8 + network_address_size False + network_address_size False + 8 + string_size (user_agent m) + 4 +
     (if vm_value m \<ge> level_bip37 then 1 else 0)"

text \<open>
  The flag survives when both versions know it and is true otherwise; the size announced is right
  unless only the message's version knows the flag.
\<close>

definition version_fields_wf :: "version_message \<Rightarrow> bool" where
  "version_fields_wf m \<longleftrightarrow>
     network_address_wf False (address_receiver m) \<and> network_address_wf False (address_sender m) \<and> string_ok (user_agent m)"

definition version_wf :: "uint32 \<Rightarrow> version_message \<Rightarrow> bool" where
  "version_wf v m \<longleftrightarrow>
     version_fields_wf m \<and> (v < level_bip37 \<longrightarrow> vm_value m < level_bip37) \<and>
     (\<not> level_bip37 \<le> min v (vm_value m) \<longrightarrow> relay m)"

lemma run_read_relay:
  "\<exists>s. run_state (read_relay v n) (ready (if min v n \<ge> level_bip37 then write_byte (if b then 1 else 0) else [])) =
     (if min v n \<ge> level_bip37 then b else True, s) \<and> \<not> failbit s"
  by (auto simp: read_relay_def run_is_exhausted wire_simps write_byte_def min_def Let_def not_le)

lemma version_read_write:
  assumes "version_fields_wf m"
  shows "\<exists>s. run_state (version_from_data v) (ready (version_to_data v m)) =
      (m\<lparr>relay := (if min v (vm_value m) \<ge> level_bip37 then relay m else True)\<rparr>, s) \<and> \<not> failbit s"
  using run_read_relay [of v "vm_value m" "relay m"] assms
  by (cases m) (auto simp: version_fields_wf_def version_from_data_def version_to_data_def wire_simps
      network_address_codec.read_write Let_def simp del: min_less_iff_conj)

interpretation version_codec: message_codec version_to_data version_from_data version_size version_wf
proof unfold_locales
  fix v m
  assume ok: "version_wf v m"
  then show "\<exists>s. run_state (version_from_data v) (ready (version_to_data v m)) = (m, s) \<and> \<not> failbit s"
    using version_read_write [of m v] by (cases m) (auto simp: version_wf_def split: if_splits)
  show "length (version_to_data v m) = version_size v m"
    using ok by (auto simp: version_wf_def version_fields_wf_def version_to_data_def version_size_def length_simps
        length_network_address_to_data Let_def min_def)
qed

subsection \<open>heading\<close>

record heading =
  magic :: uint32
  command :: data_chunk
  payload_size :: uint32
  heading_checksum :: uint32

definition heading_default :: heading where
  "heading_default = \<lparr>magic = 0, command = [], payload_size = 0, heading_checksum = 0\<rparr>"

definition heading_is_valid :: "heading \<Rightarrow> bool" where
  "heading_is_valid h \<longleftrightarrow> magic h \<noteq> 0 \<or> payload_size h \<noteq> 0 \<or> heading_checksum h \<noteq> 0 \<or> command h \<noteq> []"

definition heading_from_data :: "heading rd" where
  "heading_from_data = do {
     m \<leftarrow> read_4_bytes_little_endian;
     c \<leftarrow> read_string_size command_size;
     n \<leftarrow> read_4_bytes_little_endian;
     check \<leftarrow> read_4_bytes_little_endian;
     ok \<leftarrow> source_valid;
     State_Monad.return
       (if ok then \<lparr>magic = m, command = c, payload_size = n, heading_checksum = check\<rparr> else heading_default)
   }"

definition heading_to_data :: "heading \<Rightarrow> data_chunk" where
  "heading_to_data h =
     write_4_bytes_little_endian (magic h) @ write_string_size (command h) command_size @
     write_4_bytes_little_endian (payload_size h) @ write_4_bytes_little_endian (heading_checksum h)"

definition heading_size :: nat where
  "heading_size = 4 + command_size + 4 + 4"

definition heading_maximum_size :: nat where
  "heading_maximum_size = heading_size"

definition max_payload_size :: nat where "max_payload_size = 33554432"

definition maximum_payload_size :: "currency \<Rightarrow> bool \<Rightarrow> nat" where
  "maximum_payload_size cur witness =
     (let witness = (if is_bch cur then False else witness)
      in if witness then max_block_weight cur else max_payload_size)"

datatype message_type = unknown_type | address_type | alert_type | block_type | block_transactions_type
  | compact_block_type | fee_filter_type | filter_add_type | filter_clear_type | filter_load_type
  | get_address_type | get_block_transactions_type | get_blocks_type | get_data_type | get_headers_type
  | headers_type | inventory_type | memory_pool_type | merkle_block_type | not_found_type | ping_type
  | pong_type | reject_type | send_compact_type | send_headers_type | transaction_type | verack_type | version_type

text \<open>The commands of the message classes, and the chain of comparisons in the order of the code.\<close>

definition command_table :: "(string \<times> message_type) list" where
  "command_table =
     [(''addr'', address_type), (''alert'', alert_type), (''blocktxn'', block_transactions_type),
      (''block'', block_type), (''cmpctblock'', compact_block_type), (''feefilter'', fee_filter_type),
      (''filteradd'', filter_add_type), (''filterclear'', filter_clear_type), (''filterload'', filter_load_type),
      (''getaddr'', get_address_type), (''getblocktxn'', get_block_transactions_type), (''getblocks'', get_blocks_type),
      (''getdata'', get_data_type), (''getheaders'', get_headers_type), (''headers'', headers_type),
      (''inv'', inventory_type), (''mempool'', memory_pool_type), (''merkleblock'', merkle_block_type),
      (''notfound'', not_found_type), (''ping'', ping_type), (''pong'', pong_type), (''reject'', reject_type),
      (''sendcmpct'', send_compact_type), (''sendheaders'', send_headers_type), (''tx'', transaction_type),
      (''verack'', verack_type), (''version'', version_type)]"

definition heading_type :: "heading \<Rightarrow> message_type" where
  "heading_type h =
     (case find (\<lambda>(c, t). command h = ascii c) command_table of Some (c, t) \<Rightarrow> t | None \<Rightarrow> unknown_type)"

definition heading_wf :: "heading \<Rightarrow> bool" where
  "heading_wf h \<longleftrightarrow> 0 \<notin> set (command h) \<and> length (command h) \<le> command_size"

interpretation heading_codec: codec heading_to_data heading_from_data heading_wf
  by unfold_locales (auto simp: heading_wf_def heading_to_data_def heading_from_data_def wire_simps)

lemma length_heading_to_data [length_simps]: "length (heading_to_data h) = heading_size"
  by (simp add: heading_to_data_def heading_size_def length_simps write_string_size_def Let_def min_def)

lemma unat_of_char: "unat (of_char c :: byte) = of_char c"
proof -
  have "(of_char c :: byte) = of_nat (of_char c)" by (simp add: of_nat_of_char)
  then show ?thesis by (simp only: unat_of_nat) simp
qed

lemma ascii_injective [simp]: "ascii s = ascii t \<longleftrightarrow> s = t"
proof -
  have "inj (of_char :: char \<Rightarrow> byte)"
    by (rule injI) (metis unat_of_char of_char_eqI)
  then show ?thesis by (simp add: ascii_def inj_map_eq_map)
qed

lemma ascii_nonzero: "CHR 0x00 \<notin> set s \<Longrightarrow> 0 \<notin> set (ascii s)"
proof (induction s)
  case (Cons c s)
  have "of_char c = (0 :: nat) \<longleftrightarrow> c = CHR 0x00"
    using of_char_eq_iff [where 'a = nat, of c "CHR 0x00"] by simp
  then have "of_char c \<noteq> (0 :: byte)" using Cons.prems unat_of_char [of c] by auto
  with Cons show ?case by (simp add: ascii_def)
qed (simp add: ascii_def)

subsection \<open>Framing\<close>

text \<open>
  \<^verbatim>\<open>message::serialize\<close> is a template over the message class, so the command, the writer and the size of
  the class are arguments.  The buffer is sized for the heading, the payload is appended, the
  checksum is that of the announced part of the buffer, and the heading is moved over the
  front.  \<^verbatim>\<open>safe_unsigned\<close> throws (\<open>None\<close>) when the size does not fit 32 bits.
\<close>

definition serialize ::
  "hash_functions \<Rightarrow> string \<Rightarrow> (uint32 \<Rightarrow> 'a \<Rightarrow> data_chunk) \<Rightarrow> (uint32 \<Rightarrow> 'a \<Rightarrow> nat) \<Rightarrow> uint32 \<Rightarrow> 'a \<Rightarrow> uint32 \<Rightarrow> data_chunk option" where
  "serialize H cmd to_data serialized_size v packet magic_field =
     (let n = serialized_size v packet;
          data = replicate heading_size 0 @ to_data v packet;
          slice = take n (drop heading_size data);
          check = bitcoin_checksum H slice
      in case safe_unsigned32 (of_nat n) of
           None \<Rightarrow> None
         | Some n32 \<Rightarrow>
             let head = heading_to_data \<lparr>magic = magic_field, command = ascii cmd, payload_size = n32, heading_checksum = check\<rparr>
             in Some (head @ drop (length head) data))"

text \<open>A frame: the heading reads back, announces the payload and its checksum, and the payload follows.\<close>

definition framed :: "hash_functions \<Rightarrow> string \<Rightarrow> data_chunk \<Rightarrow> uint32 \<Rightarrow> data_chunk \<Rightarrow> bool" where
  "framed H cmd payload magic_field data \<longleftrightarrow>
     run_state heading_from_data (ready data) =
       (\<lparr>magic = magic_field, command = ascii cmd, payload_size = of_nat (length payload),
         heading_checksum = bitcoin_checksum H payload\<rparr>, ready payload)"

definition command_ok :: "string \<Rightarrow> bool" where
  "command_ok cmd \<longleftrightarrow> CHR 0x00 \<notin> set cmd \<and> length cmd \<le> command_size"

lemma serialize_framed:
  assumes "length (to_data v x) = serialized_size v x" and "command_ok cmd" and "serialized_size v x \<le> max_uint32"
  shows "\<exists>data. serialize H cmd to_data serialized_size v x m = Some data \<and> framed H cmd (to_data v x) m data \<and>
    length data = heading_size + serialized_size v x"
proof -
  have "safe_unsigned32 (of_nat (serialized_size v x)) = Some (of_nat (serialized_size v x))"
    using assms(3) by (simp add: safe_unsigned32_def unat_of_nat word_unat_eq_iff unat_ucast_mod)
  moreover have "heading_wf \<lparr>magic = m, command = ascii cmd, payload_size = p, heading_checksum = c\<rparr>" for p c
    using assms(2) ascii_nonzero [of cmd] by (simp add: heading_wf_def command_ok_def ascii_def)
  ultimately show ?thesis
    by (simp add: serialize_def framed_def Let_def assms(1) length_heading_to_data heading_codec.read_write)
qed

context message_codec
begin

lemma serialized:
  assumes "ok v x" and "command_ok cmd" and "serialized_size v x \<le> max_uint32"
  shows "\<exists>data r. serialize H cmd to_data serialized_size v x m = Some data \<and> framed H cmd (to_data v x) m data \<and>
    run_state (from_data v) (ready (to_data v x)) = (x, r) \<and> \<not> failbit r"
  using serialize_framed [of to_data v x serialized_size cmd H m, OF announced [OF assms(1)] assms(2,3)] payload [OF assms(1)]
  by blast

end

end
