(* ===== verification/Output.thy ===== *)
theory Output
  imports Point Script
begin

text \<open>
  Transaction outputs and references to them: \<^verbatim>\<open>src/chain/output.cpp\<close> and
  \<^verbatim>\<open>src/chain/output_point.cpp\<close>.  The address cache of an output is left out: it only holds what
  \<^verbatim>\<open>payment_address::extract_output\<close> would compute again.
\<close>

record tx_output =
  output_value :: uint64
  output_script :: script
  spender_height :: uint64

definition output_not_found :: uint64 where "output_not_found = - 1"
definition output_not_spent :: uint64 where "output_not_spent = 0xffffffff"

text \<open>The default constructor; \<open>output_reset\<close> keeps the validation state.\<close>

definition output_default :: tx_output where
  "output_default =
     \<lparr>output_value = output_not_found, output_script = script_reset, spender_height = output_not_spent\<rparr>"

definition output_reset :: "tx_output \<Rightarrow> tx_output" where
  "output_reset out = out\<lparr>output_value := output_not_found, output_script := script_reset\<rparr>"

definition output_of :: "uint64 \<Rightarrow> script \<Rightarrow> tx_output" where
  "output_of v s = \<lparr>output_value = v, output_script = s, spender_height = output_not_spent\<rparr>"

definition output_equal :: "tx_output \<Rightarrow> tx_output \<Rightarrow> bool" where
  "output_equal a b \<longleftrightarrow>
     output_value a = output_value b \<and> script_equal (output_script a) (output_script b)"

definition output_is_valid :: "tx_output \<Rightarrow> bool" where
  "output_is_valid out \<longleftrightarrow> output_value out \<noteq> output_not_found"

subsection \<open>Serialization\<close>

text \<open>
  \<^verbatim>\<open>from_data\<close> of a default instance.  The store form carries the height of the spender, which
  survives the reset of a failed read.
\<close>

definition output_from_reader :: "currency \<Rightarrow> bool \<Rightarrow> tx_output rd" where
  "output_from_reader cur wire = do {
     height \<leftarrow> (if wire then State_Monad.return output_not_spent
               else map_state ucast read_4_bytes_little_endian);
     v \<leftarrow> read_8_bytes_little_endian;
     s \<leftarrow> script_from_reader cur True;
     ok \<leftarrow> source_valid;
     (let out = \<lparr>output_value = v, output_script = s, spender_height = height\<rparr>
      in State_Monad.return (if ok then out else output_reset out))
   }"

definition output_to_wire :: "tx_output \<Rightarrow> data_chunk" where
  "output_to_wire out =
     write_8_bytes_little_endian (output_value out) @ script_to_data (output_script out) True"

text \<open>The store form; \<open>None\<close> is the exception of \<^verbatim>\<open>safe_unsigned\<close>.\<close>

definition output_to_store :: "tx_output \<Rightarrow> data_chunk option" where
  "output_to_store out = do {
     height32 \<leftarrow> safe_unsigned32 (spender_height out);
     Some (write_4_bytes_little_endian height32 @ output_to_wire out)
   }"

definition output_serialized_size :: "bool \<Rightarrow> tx_output \<Rightarrow> nat" where
  "output_serialized_size wire out =
     (if wire then 0 else 4) + 8 + script_serialized_size (output_script out) True"

subsection \<open>Validation\<close>

definition fast_sigops_factor :: nat where "fast_sigops_factor = 4"

definition output_signature_operations :: "currency \<Rightarrow> bool \<Rightarrow> tx_output \<Rightarrow> nat" where
  "output_signature_operations cur bip141 out =
     (let bip141 = (if is_bch cur then False else bip141);
          sigops_factor = (if bip141 then fast_sigops_factor else 1)
      in sigops (script_operations cur (output_script out)) False * sigops_factor)"

definition is_dust :: "currency \<Rightarrow> uint64 \<Rightarrow> tx_output \<Rightarrow> bool" where
  "is_dust cur minimum_value out \<longleftrightarrow>
     output_value out < minimum_value \<and> \<not> is_unspendable cur (output_script out)"

text \<open>\<^verbatim>\<open>extract_committed_hash\<close>: \<open>None\<close> is the \<^verbatim>\<open>false\<close> return.\<close>

definition extract_committed_hash :: "currency \<Rightarrow> tx_output \<Rightarrow> hash_digest option" where
  "extract_committed_hash cur out =
     (let ops = script_operations cur (output_script out) in
      if \<not> is_commitment_pattern ops then None
      else Some (take 32 (drop 4 (op_data (ops ! 1)))))"

subsection \<open>Output points\<close>

text \<open>An output point is a point with what validation knows of the output it refers to.\<close>

record validation_type =
  spent :: bool
  confirmed :: bool
  coinbase :: bool
  prevout_height :: uint64
  prevout_median_time_past :: uint32
  prevout_cache :: tx_output

record output_point =
  op_point :: point
  op_validation :: validation_type

definition validation_default :: validation_type where
  "validation_default =
     \<lparr>spent = False, confirmed = False, coinbase = False, prevout_height = 0,
      prevout_median_time_past = 0, prevout_cache = output_default\<rparr>"

definition output_point_of :: "point \<Rightarrow> output_point" where
  "output_point_of p = \<lparr>op_point = p, op_validation = validation_default\<rparr>"

definition output_point_from_reader :: "bool \<Rightarrow> output_point rd" where
  "output_point_from_reader wire = map_state output_point_of (point_from_reader wire)"

definition is_mature :: "output_point \<Rightarrow> uint64 \<Rightarrow> bool" where
  "is_mature op height \<longleftrightarrow>
     (if \<not> coinbase (op_validation op) \<or> point_is_null (op_point op) then True
      else unat (floor_subtract height (prevout_height (op_validation op))) \<ge> coinbase_maturity)"

subsection \<open>Round trips\<close>

definition output_wf :: "currency \<Rightarrow> tx_output \<Rightarrow> bool" where
  "output_wf cur out \<longleftrightarrow> script_wf cur (output_script out)"

lemma length_output_to_wire [length_simps]:
  "length (output_to_wire out) = output_serialized_size True out"
  by (simp add: output_to_wire_def output_serialized_size_def length_simps)

interpretation output_codec: codec output_to_wire "output_from_reader cur True"
  "\<lambda>out. output_wf cur out \<and> spender_height out = output_not_spent" for cur
proof unfold_locales
  fix out rest
  assume "output_wf cur out \<and> spender_height out = output_not_spent"
  then show "run_state (output_from_reader cur True) (ready (output_to_wire out @ rest)) = (out, ready rest)"
    using script_codec.read_write [of cur "output_script out"]
    by (cases out) (simp add: output_wf_def output_from_reader_def output_to_wire_def wire_simps)
qed

lemma output_store_round_trip:
  assumes "output_wf cur out" and "output_to_store out = Some bytes"
  shows "run_state (output_from_reader cur False) (ready (bytes @ rest)) = (out, ready rest)"
proof -
  have h: "unat (spender_height out) \<le> max_uint32"
      "bytes = write_4_bytes_little_endian (ucast (spender_height out)) @ output_to_wire out"
    using assms(2) by (auto simp: output_to_store_def safe_unsigned32_def split: if_splits Option.bind_splits)
  then have "ucast (ucast (spender_height out) :: uint32) = spender_height out"
    by (simp add: word_unat_eq_iff unat_ucast_mod)
  then show ?thesis
    using assms(1) script_codec.read_write [of cur "output_script out"]
    by (cases out) (simp add: h(2) output_wf_def output_from_reader_def output_to_wire_def wire_simps
        state.map_sel)
qed

text \<open>
  The store form exists exactly for heights of 32 bits; the stored sentinel of an unspent
  output is one of them.
\<close>

lemma output_to_store_defined:
  "(\<exists>bytes. output_to_store out = Some bytes \<and> length bytes = output_serialized_size False out) \<longleftrightarrow>
   unat (spender_height out) \<le> max_uint32"
  by (auto simp: output_to_store_def safe_unsigned32_def output_serialized_size_def length_simps
      split: if_splits)

lemma keeps_failure_script [failure_rules]: "keeps_failure (script_from_reader cur True)"
  by (auto simp: script_from_reader_def intro!: failure_rules)

lemma keeps_failure_output [failure_rules]: "keeps_failure (output_from_reader cur wire)"
  by (auto simp: output_from_reader_def Let_def intro!: failure_rules)

interpretation output_point_codec:
  codec "\<lambda>op. point_to_data wire (op_point op)" "output_point_from_reader wire"
    "\<lambda>op. point_wf wire (op_point op) \<and> op_validation op = validation_default" for wire
  by unfold_locales (auto simp: output_point_from_reader_def state.map_sel point_codec.read_write
      output_point_of_def)

lemma keeps_failure_output_point [failure_rules]: "keeps_failure (output_point_from_reader wire)"
  by (auto simp: output_point_from_reader_def intro!: failure_rules)

end
