(* ===== verification/Input.thy ===== *)
theory Input
  imports Output Witness
begin

text \<open>
  Transaction inputs: \<^verbatim>\<open>src/chain/input.cpp\<close>.  The witness is serialized with the input only
  in the store form; on the wire the transaction writes all witnesses after the outputs.
\<close>

record tx_input =
  previous_output :: output_point
  input_script :: script
  input_witness :: witness
  sequence :: uint32

definition input_reset :: tx_input where
  "input_reset =
     \<lparr>previous_output = output_point_of point_reset, input_script = script_reset,
      input_witness = witness_reset, sequence = 0\<rparr>"

definition input_of :: "output_point \<Rightarrow> script \<Rightarrow> witness \<Rightarrow> uint32 \<Rightarrow> tx_input" where
  "input_of prevout s w seq =
     \<lparr>previous_output = prevout, input_script = s, input_witness = w, sequence = seq\<rparr>"

definition input_equal :: "tx_input \<Rightarrow> tx_input \<Rightarrow> bool" where
  "input_equal a b \<longleftrightarrow>
     sequence a = sequence b \<and>
     point_equal (op_point (previous_output a)) (op_point (previous_output b)) \<and>
     script_equal (input_script a) (input_script b) \<and>
     witness_equal (input_witness a) (input_witness b)"

definition input_is_valid :: "tx_input \<Rightarrow> bool" where
  "input_is_valid i \<longleftrightarrow>
     sequence i \<noteq> 0 \<or> point_is_valid (op_point (previous_output i)) \<or>
     script_valid (input_script i) \<or> witness_valid (input_witness i)"

subsection \<open>Serialization\<close>

definition input_witness_flag :: "currency \<Rightarrow> bool \<Rightarrow> bool \<Rightarrow> bool" where
  "input_witness_flag cur wire witness = (if is_bch cur then False else witness \<or> \<not> wire)"

definition input_from_reader :: "currency \<Rightarrow> bool \<Rightarrow> bool \<Rightarrow> tx_input rd" where
  "input_from_reader cur wire witness =
     (let witness = input_witness_flag cur wire witness in
      do {
        prevout \<leftarrow> output_point_from_reader wire;
        ok \<leftarrow> source_valid;
        if \<not> ok then State_Monad.return input_reset
        else do {
          s \<leftarrow> script_from_reader cur True;
          w \<leftarrow> (if witness \<and> \<not> wire then witness_from_reader cur True
               else State_Monad.return witness_reset);
          seq \<leftarrow> read_4_bytes_little_endian;
          ok \<leftarrow> source_valid;
          State_Monad.return (if ok then input_of prevout s w seq else input_reset)
        }
      })"

definition input_to_data :: "currency \<Rightarrow> bool \<Rightarrow> bool \<Rightarrow> tx_input \<Rightarrow> data_chunk" where
  "input_to_data cur wire witness i =
     (let witness = input_witness_flag cur wire witness in
      point_to_data wire (op_point (previous_output i)) @
      script_to_data (input_script i) True @
      (if witness \<and> \<not> wire then witness_to_data True (input_witness i) else []) @
      write_4_bytes_little_endian (sequence i))"

definition input_serialized_size :: "currency \<Rightarrow> bool \<Rightarrow> bool \<Rightarrow> tx_input \<Rightarrow> nat" where
  "input_serialized_size cur wire witness i =
     (let witness = input_witness_flag cur wire witness in
      point_serialized_size wire + script_serialized_size (input_script i) True +
      (if witness then witness_serialized_size True (input_witness i) else 0) + 4)"

subsection \<open>Validation helpers\<close>

definition strip_input_witness :: "tx_input \<Rightarrow> tx_input" where
  "strip_input_witness i = i\<lparr>input_witness := witness_reset\<rparr>"

definition input_is_final :: "tx_input \<Rightarrow> bool" where
  "input_is_final i \<longleftrightarrow> sequence i = max_input_sequence"

definition input_is_segregated :: "tx_input \<Rightarrow> bool" where
  "input_is_segregated i \<longleftrightarrow> witness_stack (input_witness i) \<noteq> []"

text \<open>
  Relative locktime (bip68).  The ages are unsigned differences, which wrap; the code asserts
  that they do not.
\<close>

definition input_is_locked :: "uint64 \<Rightarrow> uint32 \<Rightarrow> tx_input \<Rightarrow> bool" where
  "input_is_locked block_height median_time_past i =
     (if sequence i AND relative_locktime_disabled \<noteq> 0 then False
      else
        let minimum = sequence i AND relative_locktime_mask;
            prevout = op_validation (previous_output i)
        in if sequence i AND relative_locktime_time_locked \<noteq> 0
           then median_time_past - prevout_median_time_past prevout
                  < push_bit relative_locktime_seconds_shift minimum
           else block_height - prevout_height prevout < ucast minimum)"

text \<open>\<^verbatim>\<open>extract_embedded_script\<close>: \<open>None\<close> is the \<^verbatim>\<open>false\<close> return.\<close>

definition input_extract_embedded_script :: "currency \<Rightarrow> tx_input \<Rightarrow> script option" where
  "input_extract_embedded_script cur i =
     (let ops = script_operations cur (input_script i);
          prevout_script = output_script (prevout_cache (op_validation (previous_output i)))
      in if \<not> is_pay_to_script_hash cur prevout_script bip16_rule then None
         else if ops = [] \<or> \<not> is_relaxed_push ops then None
         else Some (script_factory_from_data cur (op_data (last ops)) False))"

definition input_signature_operations :: "currency \<Rightarrow> bool \<Rightarrow> bool \<Rightarrow> tx_input \<Rightarrow> nat" where
  "input_signature_operations cur bip16 bip141 i =
     (let bip141 = (if is_bch cur then False else bip141);
          prevout = output_script (prevout_cache (op_validation (previous_output i)));
          sigops_factor = (if bip141 then fast_sigops_factor else 1);
          count = sigops (script_operations cur (input_script i)) False * sigops_factor;
          witness_script = (\<lambda>program. if bip141 then extract_sigop_script cur (input_witness i) program else None)
      in case witness_script prevout of
           Some script \<Rightarrow> count + sigops (script_operations cur script) True
         | None \<Rightarrow>
             (case (if bip16 then input_extract_embedded_script cur i else None) of
                Some embedded \<Rightarrow>
                  (case witness_script embedded of
                     Some script \<Rightarrow> count + sigops (script_operations cur script) True
                   | None \<Rightarrow> count + sigops (script_operations cur embedded) True * sigops_factor)
              | None \<Rightarrow> count))"

definition extract_reserved_hash :: "tx_input \<Rightarrow> hash_digest option" where
  "extract_reserved_hash i =
     (let stack = witness_stack (input_witness i)
      in if \<not> is_reserved_pattern stack then None else Some (take 32 (hd stack)))"

subsection \<open>Round trips\<close>

text \<open>
  A serialized input has a valid point, a script within the size guard and, where the form
  carries it, a valid witness; what validation adds to the output point is not serialized.
\<close>

definition input_base_wf :: "currency \<Rightarrow> bool \<Rightarrow> tx_input \<Rightarrow> bool" where
  "input_base_wf cur wire i \<longleftrightarrow>
     point_wf wire (op_point (previous_output i)) \<and>
     op_validation (previous_output i) = validation_default \<and> script_wf cur (input_script i)"

definition input_wf :: "currency \<Rightarrow> bool \<Rightarrow> bool \<Rightarrow> tx_input \<Rightarrow> bool" where
  "input_wf cur wire witness i \<longleftrightarrow>
     input_base_wf cur wire i \<and>
     (if input_witness_flag cur wire witness \<and> \<not> wire then witness_wf cur (input_witness i)
      else input_witness i = witness_reset)"

interpretation input_codec:
  codec "input_to_data cur wire witness" "input_from_reader cur wire witness" "input_wf cur wire witness"
  for cur wire witness
proof unfold_locales
  fix i rest
  assume "input_wf cur wire witness i"
  then show "run_state (input_from_reader cur wire witness) (ready (input_to_data cur wire witness i @ rest))
      = (i, ready rest)"
    using script_codec.read_write [of cur "input_script i"] witness_codec.read_write [of cur "input_witness i"]
      output_point_codec.read_write [of wire "previous_output i"]
    by (cases i; cases "input_witness_flag cur wire witness \<and> \<not> wire")
      (auto simp: input_wf_def input_base_wf_def input_from_reader_def input_to_data_def wire_simps
        input_of_def Let_def)
qed

lemma length_input_to_data [length_simps]:
  assumes "length (point_hash (op_point (previous_output i))) = 32"
  shows "length (input_to_data cur wire witness i) =
    input_serialized_size cur wire witness i -
      (if wire \<and> input_witness_flag cur wire witness then witness_serialized_size True (input_witness i) else 0)"
  using assms by (simp add: input_to_data_def input_serialized_size_def length_simps Let_def)

lemma keeps_failure_input [failure_rules]: "keeps_failure (input_from_reader cur wire witness)"
  by (auto simp: input_from_reader_def Let_def intro!: failure_rules)

end
