(* ===== verification/Checkpoint.thy ===== *)
theory Checkpoint
  imports Wire Constants
begin

text \<open>
  Checkpoints (\<^verbatim>\<open>src/config/checkpoint.cpp\<close>) and the chain parameters of \<^verbatim>\<open>constants.hpp\<close> that
  are written as checkpoints or heights.  A hash literal of the sources is the hexadecimal
  form of the number whose little-endian bytes are the hash.
\<close>

record checkpoint =
  check_hash :: hash_digest
  check_height :: nat

definition hash_literal :: "256 word \<Rightarrow> hash_digest" where
  "hash_literal n = to_little_endian n"

definition checkpoint_of :: "256 word \<Rightarrow> nat \<Rightarrow> checkpoint" where
  "checkpoint_of hash h = \<lparr>check_hash = hash_literal hash, check_height = h\<rparr>"

definition checkpoint_sort :: "checkpoint list \<Rightarrow> checkpoint list" where
  "checkpoint_sort checks = sort_key check_height checks"

definition checkpoint_covered :: "nat \<Rightarrow> checkpoint list \<Rightarrow> bool" where
  "checkpoint_covered h checks \<longleftrightarrow> checks \<noteq> [] \<and> h \<le> check_height (last checks)"

definition checkpoint_validate :: "hash_digest \<Rightarrow> nat \<Rightarrow> checkpoint list \<Rightarrow> bool" where
  "checkpoint_validate hash h checks \<longleftrightarrow>
     find (\<lambda>item. h = check_height item \<and> hash \<noteq> check_hash item) checks = None"

subsection \<open>Activation parameters\<close>

definition mainnet_active :: nat where "mainnet_active = 750"
definition mainnet_enforce :: nat where "mainnet_enforce = 950"
definition mainnet_sample :: nat where "mainnet_sample = 1000"
definition testnet_active :: nat where "testnet_active = 51"
definition testnet_enforce :: nat where "testnet_enforce = 75"
definition testnet_sample :: nat where "testnet_sample = 100"

definition mainnet_bip65_freeze :: "currency \<Rightarrow> nat" where
  "mainnet_bip65_freeze cur = (if cur = litecoin then max_uint32 else 388381)"
definition mainnet_bip66_freeze :: "currency \<Rightarrow> nat" where
  "mainnet_bip66_freeze cur = (if cur = litecoin then max_uint32 else 363725)"
definition mainnet_bip34_freeze :: "currency \<Rightarrow> nat" where
  "mainnet_bip34_freeze cur = (if cur = litecoin then 710000 else 227931)"
definition testnet_bip65_freeze :: "currency \<Rightarrow> nat" where
  "testnet_bip65_freeze cur = (if cur = litecoin then max_uint32 else 581885)"
definition testnet_bip66_freeze :: "currency \<Rightarrow> nat" where
  "testnet_bip66_freeze cur = (if cur = litecoin then max_uint32 else 330776)"
definition testnet_bip34_freeze :: "currency \<Rightarrow> nat" where
  "testnet_bip34_freeze cur = (if cur = litecoin then 76 else 21111)"
definition regtest_bip65_freeze :: nat where "regtest_bip65_freeze = 1351"
definition regtest_bip66_freeze :: nat where "regtest_bip66_freeze = 1251"
definition regtest_bip34_freeze :: "currency \<Rightarrow> nat" where
  "regtest_bip34_freeze cur = (if cur = litecoin then 100000000 else 0)"

definition bip16_activation_time :: "currency \<Rightarrow> uint32" where
  "bip16_activation_time cur = (if cur = litecoin then 0x4f779a80 else 0x4f3af580)"

definition mainnet_bip16_exception_checkpoint :: checkpoint where
  "mainnet_bip16_exception_checkpoint =
     checkpoint_of 0x00000000000002dc756eebf4f49723ed8d30cc28a5f108eb94b1ba88ac4f9c22 170060"
definition mainnet_bip30_exception_checkpoint1 :: checkpoint where
  "mainnet_bip30_exception_checkpoint1 =
     checkpoint_of 0x00000000000a4d0a398161ffc163c503763b1f4360639393e0e4c8e300e0caec 91842"
definition mainnet_bip30_exception_checkpoint2 :: checkpoint where
  "mainnet_bip30_exception_checkpoint2 =
     checkpoint_of 0x00000000000743f190a18c5577a3c2d2a1f610ae9601ac046a38084ccb7cd721 91880"

definition mainnet_bip34_active_checkpoint :: "currency \<Rightarrow> checkpoint" where
  "mainnet_bip34_active_checkpoint cur =
     (if cur = litecoin
      then checkpoint_of 0xfa09d204a83a768ed5a7c8d441fa62f2043abf420cff1226c7b4329aeb9d51cf 710000
      else checkpoint_of 0x000000000000024b89b42a942fe0d9fea3bb44ab7bd1b19115dd6a759c0808b8 227931)"
definition testnet_bip34_active_checkpoint :: "currency \<Rightarrow> checkpoint" where
  "testnet_bip34_active_checkpoint cur =
     (if cur = litecoin
      then checkpoint_of 0x8075c771ed8b495ffd943980a95f702ab34fce3c8c54e379548bda33cc8c0573 76
      else checkpoint_of 0x0000000023b3a96d3484e5abb3755c413e7d41500f8e2a5c3f0dd01299cd8ef8 21111)"
definition regtest_bip34_active_checkpoint :: "currency \<Rightarrow> checkpoint" where
  "regtest_bip34_active_checkpoint cur =
     (if cur = litecoin
      then checkpoint_of 0xfa09d204a83a768ed5a7c8d441fa62f2043abf420cff1226c7b4329aeb9d51cf 100000000
      else checkpoint_of 0x06226e46111a0b59caaf126043eb5bbf28c34f3a5e332a1fc7b2b73cf188910f 0)"

definition mainnet_bip9_bit0_active_checkpoint :: "currency \<Rightarrow> checkpoint" where
  "mainnet_bip9_bit0_active_checkpoint cur =
     (if cur = litecoin
      then checkpoint_of 0xb50ce9202c152e481ca509156028af954654ed13e4b0656eb497554aa753db0b 1201535
      else checkpoint_of 0x000000000000000004a1b34462cb8aeebd5799177f7a29cf28f2d1961716b5b5 419328)"
definition testnet_bip9_bit0_active_checkpoint :: "currency \<Rightarrow> checkpoint" where
  "testnet_bip9_bit0_active_checkpoint cur =
     (if cur = litecoin
      then checkpoint_of 0x4966625a4b2851d9fdee139e56211a0d88575f59ed816ff5e6a63deb4e3e29a0 0
      else checkpoint_of 0x00000000025e930139bac5c6c31a403776da130831ab85be56578f3fa75369bb 770112)"
definition regtest_bip9_bit0_active_checkpoint :: checkpoint where
  "regtest_bip9_bit0_active_checkpoint =
     checkpoint_of 0x06226e46111a0b59caaf126043eb5bbf28c34f3a5e332a1fc7b2b73cf188910f 0"

definition mainnet_bip9_bit1_active_checkpoint :: "currency \<Rightarrow> checkpoint" where
  "mainnet_bip9_bit1_active_checkpoint cur =
     (if cur = litecoin
      then checkpoint_of 0xb50ce9202c152e481ca509156028af954654ed13e4b0656eb497554aa753db0b 1201535
      else checkpoint_of 0x0000000000000000001c8018d9cb3b742ef25114f27563e3fc4a1902167f9893 481824)"
definition testnet_bip9_bit1_active_checkpoint :: "currency \<Rightarrow> checkpoint" where
  "testnet_bip9_bit1_active_checkpoint cur =
     (if cur = litecoin
      then checkpoint_of 0x4966625a4b2851d9fdee139e56211a0d88575f59ed816ff5e6a63deb4e3e29a0 0
      else checkpoint_of 0x00000000002b980fcd729daaa248fd9316a5200e9b367f4ff2c42453e84201ca 834624)"
definition regtest_bip9_bit1_active_checkpoint :: checkpoint where
  "regtest_bip9_bit1_active_checkpoint =
     checkpoint_of 0x06226e46111a0b59caaf126043eb5bbf28c34f3a5e332a1fc7b2b73cf188910f 0"

text \<open>The Bitcoin Cash hard forks; only their heights are used.\<close>

definition mainnet_uahf_height :: nat where "mainnet_uahf_height = 478558"
definition testnet_uahf_height :: nat where "testnet_uahf_height = 1155876"
definition mainnet_daa_height :: nat where "mainnet_daa_height = 504031"
definition testnet_daa_height :: nat where "testnet_daa_height = 1188697"
definition mainnet_monolith_height :: nat where "mainnet_monolith_height = 530359"
definition testnet_monolith_height :: nat where "testnet_monolith_height = 1233078"

subsection \<open>Timespans\<close>

definition median_time_past_interval :: nat where "median_time_past_interval = 11"
definition chain_state_timestamp_count :: nat where "chain_state_timestamp_count = 147"
definition bitcoin_cash_offset_tip :: nat where "bitcoin_cash_offset_tip = 136"
definition bitcoin_cash_offset_tip_minus_6 :: nat where "bitcoin_cash_offset_tip_minus_6 = 130"
definition retargeting_factor :: nat where "retargeting_factor = 4"

definition target_spacing_seconds :: "currency \<Rightarrow> nat" where
  "target_spacing_seconds cur = (if cur = litecoin then 10 * 15 else 10 * 60)"
definition target_timespan_seconds :: "currency \<Rightarrow> nat" where
  "target_timespan_seconds cur = (if cur = litecoin then 2 * 7 * 24 * 60 * 15 else 2 * 7 * 24 * 60 * 60)"
definition easy_spacing_seconds :: "currency \<Rightarrow> nat" where
  "easy_spacing_seconds cur = 2 * target_spacing_seconds cur"
definition min_timespan :: "currency \<Rightarrow> nat" where
  "min_timespan cur = target_timespan_seconds cur div retargeting_factor"
definition max_timespan :: "currency \<Rightarrow> nat" where
  "max_timespan cur = target_timespan_seconds cur * retargeting_factor"
definition retargeting_interval :: "currency \<Rightarrow> nat" where
  "retargeting_interval cur = target_timespan_seconds cur div target_spacing_seconds cur"

lemmas timespan_defs = retargeting_factor_def target_spacing_seconds_def target_timespan_seconds_def
  easy_spacing_seconds_def min_timespan_def max_timespan_def retargeting_interval_def

lemma retargeting_interval_2016: "retargeting_interval cur = 2016"
  by (simp add: timespan_defs)

definition bip34_version :: nat where "bip34_version = 2"
definition bip66_version :: nat where "bip66_version = 3"
definition bip65_version :: nat where "bip65_version = 4"
definition first_version :: nat where "first_version = 1"
definition bip9_version_bit0 :: uint32 where "bip9_version_bit0 = 1"
definition bip9_version_bit1 :: uint32 where "bip9_version_bit1 = 2"
definition bip9_version_base :: uint32 where "bip9_version_base = 0x20000000"

subsection \<open>Checkpoint tests\<close>

lemma checkpoint_validate_iff:
  "checkpoint_validate hash h checks \<longleftrightarrow>
   (\<forall>c \<in> set checks. check_height c = h \<longrightarrow> check_hash c = hash)"
  by (auto simp: checkpoint_validate_def find_None_iff)

lemma sorted_key_last: "sorted (map f xs) \<Longrightarrow> x \<in> set xs \<Longrightarrow> f x \<le> f (last xs)"
  by (induction xs) auto

lemma checkpoint_covered_sorted:
  "checkpoint_covered h (checkpoint_sort checks) \<longleftrightarrow> (\<exists>c \<in> set checks. h \<le> check_height c)"
proof (cases "checks = []")
  case True
  then show ?thesis by (simp add: checkpoint_covered_def checkpoint_sort_def)
next
  case False
  let ?s = "checkpoint_sort checks"
  have ne: "?s \<noteq> []" using False by (metis checkpoint_sort_def set_empty set_sort)
  have "sorted (map check_height ?s)" by (simp add: checkpoint_sort_def)
  then have "\<forall>c \<in> set ?s. check_height c \<le> check_height (last ?s)" by (auto intro: sorted_key_last)
  moreover have "last ?s \<in> set ?s" using ne by simp
  moreover have "set ?s = set checks" by (simp add: checkpoint_sort_def)
  ultimately show ?thesis
    using ne unfolding checkpoint_covered_def by (metis order_trans)
qed

end
