(* ===== verification/Compact.thy ===== *)
theory Compact
  imports Constants
begin

text \<open>
  The compact form of proof-of-work targets: \<^verbatim>\<open>src/chain/compact.cpp\<close>.  A 256-bit number is
  represented by a byte count and the most significant three bytes, with a sign bit that
  consensus treats as zero.
\<close>

type_synonym uint256 = "256 word"

definition sign_bit :: uint32 where "sign_bit = 0x00800000"
definition mantissa_max :: uint32 where "mantissa_max = 0x007fffff"
definition mantissa_bits :: nat where "mantissa_bits = 24"

definition is_negated :: "uint32 \<Rightarrow> bool" where
  "is_negated c \<longleftrightarrow> c AND sign_bit \<noteq> 0"

definition log_256 :: "uint32 \<Rightarrow> nat" where
  "log_256 mantissa =
     (if mantissa > 0x0000ffff then 3
      else if mantissa > 0x000000ff then 2
      else if mantissa > 0 then 1 else 0)"

definition is_overflow :: "byte \<Rightarrow> uint32 \<Rightarrow> bool" where
  "is_overflow exponent mantissa \<longleftrightarrow>
     mantissa > 0 \<and> int (unat exponent) > 32 + 3 - int (log_256 mantissa)"

definition shift_low :: "byte \<Rightarrow> nat" where "shift_low exponent = 8 * (3 - unat exponent)"
definition shift_high :: "byte \<Rightarrow> nat" where "shift_high exponent = 8 * (unat exponent - 3)"

function logical_size :: "uint256 \<Rightarrow> nat" where
  "logical_size v = (if v \<noteq> 0 then Suc (logical_size (drop_bit 8 v)) else 0)"
  by pat_completeness auto
termination
  by (relation "measure unat") (simp_all add: drop_bit_decreases)

declare logical_size.simps [simp del]

text \<open>\<^verbatim>\<open>from_compact\<close>: \<open>None\<close> is the \<^verbatim>\<open>false\<close> return, which leaves the number as it was.\<close>

definition from_compact :: "uint32 \<Rightarrow> uint256 option" where
  "from_compact c =
     (if is_negated c then Some 0
      else
        let mantissa = c AND mantissa_max;
            exponent = ucast (drop_bit mantissa_bits c) :: byte
        in if exponent \<le> 3 then Some (ucast (drop_bit (shift_low exponent) mantissa))
           else if is_overflow exponent mantissa then None
           else Some (push_bit (shift_high exponent) (ucast mantissa)))"

definition from_big :: "uint256 \<Rightarrow> uint32" where
  "from_big big =
     (let exponent = of_nat (logical_size big) :: byte;
          mantissa64 = (if exponent \<le> 3 then push_bit (shift_low exponent) (ucast big)
                        else ucast (drop_bit (shift_high exponent) big)) :: uint64;
          mantissa = ucast mantissa64 :: uint32;
          (exponent, mantissa) =
            (if is_negated mantissa then (exponent + 1, drop_bit 8 mantissa) else (exponent, mantissa))
      in push_bit mantissa_bits (ucast exponent) OR mantissa)"

record compact =
  big :: uint256
  normal :: uint32
  overflowed :: bool

text \<open>The two constructors; an overflow leaves the default \<^verbatim>\<open>uint256_t\<close>, zero.\<close>

definition compact_of_bits :: "uint32 \<Rightarrow> compact" where
  "compact_of_bits c =
     (case from_compact c of
        Some v \<Rightarrow> \<lparr>big = v, normal = from_big v, overflowed = False\<rparr>
      | None \<Rightarrow> \<lparr>big = 0, normal = from_big 0, overflowed = True\<rparr>)"

definition compact_of_big :: "uint256 \<Rightarrow> compact" where
  "compact_of_big v = \<lparr>big = v, normal = from_big v, overflowed = False\<rparr>"

subsection \<open>What the parts mean\<close>

lemma logical_size_bounds:
  "unat v < 256 ^ logical_size v" "0 < logical_size v \<Longrightarrow> 256 ^ (logical_size v - 1) \<le> unat v"
proof (induction v rule: logical_size.induct)
  case (1 v)
  {
    case 1
    then show ?case
      using "1.IH"(1) by (subst logical_size.simps) (auto simp: unat_drop_bit div_less_iff_less_mult mult.commute)
  next
    case 2
    then have nz: "v \<noteq> 0" by (auto simp: logical_size.simps)
    then have size: "logical_size v = Suc (logical_size (drop_bit 8 v))" by (subst logical_size.simps) simp
    show ?case
    proof (cases "logical_size (drop_bit 8 v)")
      case 0
      then show ?thesis using nz size by (simp add: Suc_le_eq unat_gt_0)
    next
      case (Suc k)
      with "1.IH"(2) nz have "256 ^ k \<le> unat v div 256" by (simp add: unat_drop_bit)
      then show ?thesis using size Suc by (simp add: less_eq_div_iff_mult_less_eq mult.commute)
    qed
  }
qed

lemma logical_size_unique:
  assumes "256 ^ k \<le> unat v" and "unat v < 256 ^ Suc k"
  shows "logical_size v = Suc k"
proof (rule antisym)
  have "v \<noteq> 0" using assms(1) by (metis not_one_le_zero one_le_power unat_0 one_le_numeral order_trans)
  then have pos: "0 < logical_size v" by (subst logical_size.simps) simp
  have "256 ^ (logical_size v - 1) < (256::nat) ^ Suc k"
    using logical_size_bounds(2) [OF pos] assms(2) by linarith
  then have "logical_size v - 1 < Suc k" by (rule power_less_imp_less_exp [rotated]) simp
  then show "logical_size v \<le> Suc k" using pos by linarith
  have "(256::nat) ^ k < 256 ^ logical_size v" using logical_size_bounds(1) [of v] assms(1) by linarith
  then have "k < logical_size v" by (rule power_less_imp_less_exp [rotated]) simp
  then show "Suc k \<le> logical_size v" by simp
qed

lemma logical_size_le: "logical_size v \<le> 32"
proof (rule ccontr)
  assume big: "\<not> logical_size v \<le> 32"
  then have "(256::nat) ^ 32 \<le> 256 ^ (logical_size v - 1)" by (intro power_increasing) auto
  also have "\<dots> \<le> unat v" using big by (intro logical_size_bounds(2)) auto
  also have "unat v < 256 ^ 32" using unsigned_less [where 'a = nat, of v] by simp
  finally show False by simp
qed

lemma is_negated_odd: "is_negated c \<longleftrightarrow> odd (unat c div 2 ^ 23)"
proof -
  have "is_negated c \<longleftrightarrow> bit c 23"
    using and_exp_eq_0_iff_not_bit [of c 23] by (simp add: is_negated_def sign_bit_def)
  also have "\<dots> \<longleftrightarrow> bit (unat c) 23" by (simp add: bit_unsigned_iff)
  finally show ?thesis by (simp add: bit_iff_odd)
qed

lemma is_negated_small: "unat c < 2 ^ 24 \<Longrightarrow> is_negated c \<longleftrightarrow> 2 ^ 23 \<le> unat c"
proof -
  assume "unat c < 2 ^ 24"
  then consider "unat c div 2 ^ 23 = 0" "unat c < 2 ^ 23" | "unat c div 2 ^ 23 = 1" "2 ^ 23 \<le> unat c"
    by (cases "unat c < 2 ^ 23") (auto simp: div_nat_eqI)
  then show ?thesis by cases (simp_all add: is_negated_odd)
qed

lemma mantissa_nat: "unat (c AND mantissa_max) = unat c mod 2 ^ 23"
proof -
  have "c AND mantissa_max = take_bit 23 c"
    by (simp add: mantissa_max_def take_bit_eq_mask mask_eq_exp_minus_1)
  then show ?thesis by (simp add: take_bit_eq_mod unat_mod)
qed

lemma exponent_nat: "unat (ucast (drop_bit mantissa_bits c) :: byte) = unat c div 2 ^ 24" for c :: uint32
proof -
  have "unat c < 2 ^ 24 * 2 ^ 8" by (rule order.strict_trans2 [OF unsigned_less]) simp
  then have "unat c div 2 ^ 24 < 2 ^ 8" by (rule less_mult_imp_div_less [OF order.strict_trans2]) simp
  then show ?thesis by (simp add: unat_ucast_mod unat_drop_bit mantissa_bits_def)
qed

lemma log_256_bounds:
  assumes "0 < unat m" and "unat m < 2 ^ 23"
  shows "256 ^ (log_256 m - 1) \<le> unat m \<and> unat m < 256 ^ log_256 m \<and> 1 \<le> log_256 m \<and> log_256 m \<le> 3"
  using assms by (auto simp: log_256_def word_less_nat_alt)

lemma is_overflow_iff:
  assumes "unat m < 2 ^ 23" and "3 < unat e"
  shows "is_overflow e m \<longleftrightarrow> 2 ^ 256 \<le> unat m * 256 ^ (unat e - 3)"
proof (cases "m = 0")
  case True
  then show ?thesis by (simp add: is_overflow_def)
next
  case False
  let ?L = "log_256 m" and ?k = "unat e - 3"
  have pos: "0 < unat m" using False by (simp add: unat_gt_0)
  have L: "256 ^ (?L - 1) \<le> unat m" "unat m < 256 ^ ?L" "1 \<le> ?L" "?L \<le> 3"
    using log_256_bounds [OF pos assms(1)] by auto
  have big: "(2::nat) ^ 256 = 256 ^ 32" by simp
  have "32 + 3 - int ?L < int (unat e) \<longleftrightarrow> 32 < ?L + ?k"
    using L(4) assms(2) by linarith
  then have "is_overflow e m \<longleftrightarrow> 32 < ?L + ?k"
    unfolding is_overflow_def using False by (auto simp only: word_gt_0)
  also have "\<dots> \<longleftrightarrow> 256 ^ 32 \<le> unat m * 256 ^ ?k"
  proof
    assume "32 < ?L + ?k"
    then have "(256::nat) ^ 32 \<le> 256 ^ (?L - 1 + ?k)" using L(3) by (intro power_increasing) auto
    also have "\<dots> \<le> unat m * 256 ^ ?k" using L(1) by (simp add: power_add)
    finally show "256 ^ 32 \<le> unat m * 256 ^ ?k" .
  next
    assume le: "256 ^ 32 \<le> unat m * 256 ^ ?k"
    also have "\<dots> < 256 ^ (?L + ?k)" using L(2) by (simp add: power_add)
    finally show "32 < ?L + ?k" by (rule power_less_imp_less_exp [rotated]) simp
  qed
  finally show ?thesis unfolding big .
qed

lemma shift_values:
  "ucast (drop_bit (shift_low e) m) = (of_nat (unat m div 256 ^ (3 - unat e)) :: uint256)"
  "push_bit (shift_high e) (ucast m) = (of_nat (unat m * 256 ^ (unat e - 3)) :: uint256)" for m :: uint32
proof -
  have "unat m div 256 ^ (3 - unat e) < 2 ^ 256"
    by (rule le_less_trans [OF div_le_dividend]) (rule order.strict_trans2 [OF unsigned_less], simp)
  then show "ucast (drop_bit (shift_low e) m) = (of_nat (unat m div 256 ^ (3 - unat e)) :: uint256)"
    by (simp add: word_unat_eq_iff unat_ucast_mod unat_drop_bit unat_of_nat shift_low_def power_mult)
  show "push_bit (shift_high e) (ucast m) = (of_nat (unat m * 256 ^ (unat e - 3)) :: uint256)"
    by (simp add: push_bit_eq_mult shift_high_def power_mult)
qed

lemma from_compact_value:
  fixes c :: uint32
  defines "e \<equiv> unat c div 2 ^ 24" and "m \<equiv> unat c mod 2 ^ 23"
  assumes "\<not> is_negated c"
  shows "from_compact c =
    (if e \<le> 3 then Some (of_nat (m div 256 ^ (3 - e)))
     else if m * 256 ^ (e - 3) < 2 ^ 256 then Some (of_nat (m * 256 ^ (e - 3))) else None)"
proof -
  let ?m = "c AND mantissa_max" and ?e = "ucast (drop_bit mantissa_bits c) :: byte"
  have parts: "unat ?m = m" "unat ?e = e" unfolding e_def m_def by (rule mantissa_nat exponent_nat)+
  have m: "m < 2 ^ 23" unfolding m_def by simp
  have low: "ucast (drop_bit (shift_low ?e) ?m) = (of_nat (m div 256 ^ (3 - e)) :: uint256)"
    and high: "push_bit (shift_high ?e) (ucast ?m) = (of_nat (m * 256 ^ (e - 3)) :: uint256)"
    unfolding shift_values parts by (rule refl)+
  have over: "is_overflow ?e ?m \<longleftrightarrow> 2 ^ 256 \<le> m * 256 ^ (e - 3)" if "3 < e"
    using is_overflow_iff [of ?m ?e] m that unfolding parts by simp
  have three: "?e \<le> 3 \<longleftrightarrow> e \<le> 3" by (simp only: word_le_nat_alt parts) simp
  show ?thesis
    unfolding from_compact_def Let_def low high three using assms(3) over by auto
qed

subsection \<open>Writing\<close>

text \<open>The three significant bytes of a number of \<open>s\<close> bytes.\<close>

definition significand :: "nat \<Rightarrow> nat \<Rightarrow> nat" where
  "significand s v = (if s \<le> 3 then v * 256 ^ (3 - s) else v div 256 ^ (s - 3))"

lemma significand_bound: "v < 256 ^ s \<Longrightarrow> significand s v < 2 ^ 24"
proof -
  assume v: "v < 256 ^ s"
  show ?thesis
  proof (cases "s \<le> 3")
    case True
    then have "v * 256 ^ (3 - s) < 256 ^ s * 256 ^ (3 - s)" using v by simp
    also have "\<dots> = 2 ^ 24" using True by (simp flip: power_add)
    finally show ?thesis using True by (simp add: significand_def)
  next
    case False
    then have "256 ^ s = (256::nat) ^ (s - 3) * 2 ^ 24"
      using power_add [of "256::nat" "s - 3" 3] by simp
    then have "v div 256 ^ (s - 3) < 2 ^ 24" using v by (simp add: less_mult_imp_div_less mult.commute)
    then show ?thesis using False by (simp add: significand_def)
  qed
qed

lemma from_big_mantissa:
  fixes v :: uint256
  defines "e \<equiv> of_nat (logical_size v) :: byte"
  shows "unat (ucast (if e \<le> 3 then push_bit (shift_low e) (ucast v)
      else ucast (drop_bit (shift_high e) v) :: uint64) :: uint32) = significand (logical_size v) (unat v)"
proof -
  let ?s = "logical_size v"
  have e: "unat e = ?s" unfolding e_def using logical_size_le [of v] by (simp add: unat_of_nat)
  have small: "significand ?s (unat v) < 2 ^ 24"
    by (rule significand_bound [OF logical_size_bounds(1)])
  show ?thesis
  proof (cases "?s \<le> 3")
    case True
    have "unat v * 2 ^ (8 * (3 - ?s)) = significand ?s (unat v)"
      using True by (simp add: significand_def power_mult)
    moreover have "unat v < 2 ^ 64"
      using logical_size_bounds(1) [of v] power_increasing [OF True, of "256::nat"] by simp
    ultimately show ?thesis
      using True small by (simp add: word_le_nat_alt e shift_low_def unat_ucast_mod
          unat_push_bit)
  next
    case False
    have "unat v div 2 ^ (8 * (?s - 3)) = significand ?s (unat v)"
      using False by (simp add: significand_def power_mult)
    with False small show ?thesis
      by (simp add: word_le_nat_alt e shift_high_def unat_ucast_mod unat_drop_bit)
  qed
qed

lemma assemble_nat:
  assumes "unat m < 2 ^ 24"
  shows "unat (push_bit mantissa_bits (ucast (e :: byte)) OR m :: uint32) = unat e * 2 ^ 24 + unat m"
proof -
  have "unat e * 2 ^ 24 + unat m < 2 ^ 32" using unat_byte_less [of e] assms by simp
  then show ?thesis
    using assms by (simp add: mantissa_bits_def or_disjoint_add unat_word_ariths unat_push_bit unat_ucast_mod)
qed

lemma from_big_value:
  fixes v :: uint256
  defines "s \<equiv> logical_size v" and "m \<equiv> significand (logical_size v) (unat v)"
  shows "unat (from_big v) = (if 2 ^ 23 \<le> m then (s + 1) * 2 ^ 24 + m div 256 else s * 2 ^ 24 + m)"
proof -
  define e :: byte where "e = of_nat (logical_size v)"
  define mw where "mw = (ucast (if e \<le> 3 then push_bit (shift_low e) (ucast v)
      else ucast (drop_bit (shift_high e) v) :: uint64) :: uint32)"
  have e: "unat e = s" "unat (e + 1) = s + 1"
    using logical_size_le [of v] by (simp_all add: e_def s_def unat_of_nat unat_word_ariths)
  have m: "unat mw = m" "m < 2 ^ 24"
    using significand_bound [OF logical_size_bounds(1), of v]
    unfolding e_def mw_def m_def by (simp_all only: from_big_mantissa)
  have "from_big v = (if is_negated mw then push_bit mantissa_bits (ucast (e + 1)) OR drop_bit 8 mw
      else push_bit mantissa_bits (ucast e) OR mw)"
    by (simp add: from_big_def Let_def e_def mw_def)
  moreover have "is_negated mw \<longleftrightarrow> 2 ^ 23 \<le> m" using is_negated_small [of mw] m by simp
  moreover have "unat (drop_bit 8 mw) = m div 256" "m div 256 < 2 ^ 24"
    using m by (simp_all add: unat_drop_bit)
  ultimately show ?thesis
    using assemble_nat [of mw e] assemble_nat [of "drop_bit 8 mw" "e + 1"] e m by simp
qed

subsection \<open>Reading back\<close>

lemma from_compact_of_parts:
  assumes "unat c = e * 2 ^ 24 + m" and "m < 2 ^ 23"
  shows "from_compact c =
    (if e \<le> 3 then Some (of_nat (m div 256 ^ (3 - e)))
     else if m * 256 ^ (e - 3) < 2 ^ 256 then Some (of_nat (m * 256 ^ (e - 3))) else None)"
proof -
  have "unat c div 2 ^ 23 = 2 * e"
    using assms by (intro div_nat_eqI) auto
  then have "\<not> is_negated c" by (simp add: is_negated_odd)
  moreover have "unat c div 2 ^ 24 = e" using assms by (intro div_nat_eqI) auto
  moreover have "unat c mod 2 ^ 23 = m" 
    using assms mod_mult_self3 [of "2 * e" "2 ^ 23" m] by (simp only: mod_less) (simp add: mult.commute)
  ultimately show ?thesis using from_compact_value [of c] by simp
qed

text \<open>The bytes a compact form drops: all below the top three, or two if the sign bit would be set.\<close>

definition dropped :: "uint256 \<Rightarrow> nat" where
  "dropped v = logical_size v -
     (if 2 ^ 23 \<le> significand (logical_size v) (unat v) then 2 else 3)"

lemma from_compact_from_big:
  "from_compact (from_big v) = Some (of_nat (unat v div 256 ^ dropped v * 256 ^ dropped v))"
proof -
  let ?s = "logical_size v" and ?m = "significand (logical_size v) (unat v)"
  have m: "?m < 2 ^ 24" by (rule significand_bound [OF logical_size_bounds(1)])
  have fits: "unat v div 256 ^ k * 256 ^ k < 2 ^ 256" for k
    by (rule le_less_trans [OF div_times_less_eq_dividend]) (rule order.strict_trans2 [OF unsigned_less], simp)
  show ?thesis
  proof (cases "2 ^ 23 \<le> ?m")
    case True
    then have c: "unat (from_big v) = (?s + 1) * 2 ^ 24 + ?m div 256" by (simp add: from_big_value)
    have half: "?m div 256 < 2 ^ 23" using m by simp
    have d: "dropped v = ?s - 2" using True by (simp add: dropped_def)
    show ?thesis
    proof (cases "?s \<le> 2")
      case small: True
      then have "?m div 256 = unat v * 256 ^ (2 - ?s)"
        using Suc_diff_le [OF small] by (simp add: significand_def numeral_3_eq_3 numeral_2_eq_2)
      then show ?thesis
        using small by (simp add: from_compact_of_parts [OF c half] d)
    next
      case False
      then have "?m div 256 = unat v div 256 ^ (?s - 2)"
        using power_Suc2 [of "256::nat" "?s - 3"]
        by (auto simp: significand_def Suc_diff_le div_mult2_eq [symmetric] Suc_diff_Suc numeral_3_eq_3 numeral_2_eq_2)
      then show ?thesis
        using False fits [of "?s - 2"] by (simp add: from_compact_of_parts [OF c half] d)
    qed
  next
    case False
    then have c: "unat (from_big v) = ?s * 2 ^ 24 + ?m" by (simp add: from_big_value)
    have d: "dropped v = ?s - 3" using False by (simp add: dropped_def)
    show ?thesis
      using False fits [of "?s - 3"]
      by (simp add: from_compact_of_parts [OF c] d significand_def not_le)
  qed
qed

lemma rounded_down:
  fixes v :: uint256
  defines "w \<equiv> of_nat (unat v div 256 ^ dropped v * 256 ^ dropped v) :: uint256"
  shows "unat w = unat v div 256 ^ dropped v * 256 ^ dropped v" "logical_size w = logical_size v"
proof -
  let ?d = "dropped v"
  have "unat v div 256 ^ ?d * 256 ^ ?d < 2 ^ 256"
    by (rule le_less_trans [OF div_times_less_eq_dividend]) (rule order.strict_trans2 [OF unsigned_less], simp)
  then show w: "unat w = unat v div 256 ^ ?d * 256 ^ ?d" 
    unfolding w_def by (simp add: unat_of_nat del: of_nat_mult)
  show "logical_size w = logical_size v"
  proof (cases "logical_size v")
    case 0
    then have "v = 0" by (metis logical_size.simps nat.distinct(1))
    then show ?thesis by (simp add: w_def)
  next
    case (Suc k)
    have "?d \<le> k" using Suc by (simp add: dropped_def)
    then have split: "(256::nat) ^ k = 256 ^ (k - ?d) * 256 ^ ?d" by (simp flip: power_add)
    have "256 ^ k \<le> unat v" using logical_size_bounds(2) [of v] Suc by simp
    then have "256 ^ (k - ?d) \<le> unat v div 256 ^ ?d"
      unfolding split by (simp add: less_eq_div_iff_mult_less_eq)
    then have "256 ^ k \<le> unat w" unfolding w split by simp
    moreover have "unat w < 256 ^ Suc k"
      using logical_size_bounds(1) [of v] Suc le_less_trans [OF div_times_less_eq_dividend] unfolding w by simp
    ultimately show ?thesis using logical_size_unique Suc by simp
  qed
qed

lemma significand_rounded:
  fixes v :: uint256
  defines "w \<equiv> of_nat (unat v div 256 ^ dropped v * 256 ^ dropped v) :: uint256"
    and "m \<equiv> significand (logical_size v) (unat v)"
  shows "significand (logical_size w) (unat w) = (if 2 ^ 23 \<le> m then m div 256 * 256 else m)"
proof -
  let ?s = "logical_size v"
  have w: "unat w = unat v div 256 ^ dropped v * 256 ^ dropped v" "logical_size w = ?s"
    unfolding w_def by (rule rounded_down)+
  have step: "(256::nat) ^ (?s - 2) = 256 ^ (?s - 3) * 256" if "3 \<le> ?s"
    using that power_add [of "256::nat" "?s - 3" 1] by (simp add: eval_nat_numeral Suc_diff_Suc Suc_le_eq)
  show ?thesis
  proof (cases "?s \<le> 2")
    case True
    then have "dropped v = 0" by (simp add: dropped_def)
    moreover have "m div 256 * 256 = m"
      using Suc_diff_le [OF True] True by (simp add: m_def significand_def numeral_3_eq_3 numeral_2_eq_2)
    ultimately show ?thesis using w by (simp add: m_def)
  next
    case False
    then have s: "3 \<le> ?s" by simp
    then have "m = unat v div 256 ^ (?s - 3)" by (auto simp: m_def significand_def)
    then show ?thesis
      using w s step by (cases "2 ^ 23 \<le> m")
        (auto simp: significand_def dropped_def m_def div_mult2_eq mult.assoc [symmetric])
  qed
qed

lemma from_big_rounded:
  "from_big (of_nat (unat v div 256 ^ dropped v * 256 ^ dropped v)) = from_big v"
proof -
  let ?w = "of_nat (unat v div 256 ^ dropped v * 256 ^ dropped v) :: uint256"
    and ?m = "significand (logical_size v) (unat v)"
  have "2 ^ 23 \<le> ?m div 256 * 256" if "2 ^ 23 \<le> ?m"
    using div_le_mono [OF that, of 256] by simp
  moreover have "significand (logical_size ?w) (unat ?w) = (if 2 ^ 23 \<le> ?m then ?m div 256 * 256 else ?m)"
    by (rule significand_rounded)
  moreover have "logical_size ?w = logical_size v" by (rule rounded_down)
  ultimately have "unat (from_big ?w) = unat (from_big v)"
    by (simp only: from_big_value split: if_split) simp
  then show ?thesis by (simp add: word_unat_eq_iff)
qed

text \<open>
  Compressing a 256-bit number and expanding it again never overflows, never gives a
  larger number, loses less than one unit of the kept significand, and is idempotent.
\<close>

theorem compact_rounds_down:
  "\<exists>w. from_compact (from_big v) = Some w \<and> unat w \<le> unat v \<and>
     unat v - unat w < 256 ^ (logical_size v - 2) \<and> from_big w = from_big v"
proof (intro exI conjI)
  let ?w = "of_nat (unat v div 256 ^ dropped v * 256 ^ dropped v) :: uint256"
  show "from_compact (from_big v) = Some ?w" by (rule from_compact_from_big)
  show "unat ?w \<le> unat v" by (simp only: rounded_down div_times_less_eq_dividend)
  have "unat v - unat ?w = unat v mod 256 ^ dropped v"
    by (simp only: rounded_down minus_div_mult_eq_mod)
  also have "\<dots> < 256 ^ dropped v" by simp
  also have "\<dots> \<le> 256 ^ (logical_size v - 2)" by (intro power_increasing) (auto simp: dropped_def)
  finally show "unat v - unat ?w < 256 ^ (logical_size v - 2)" .
  show "from_big ?w = from_big v" by (rule from_big_rounded)
qed

text \<open>
  from_compact computes mantissa times 256 to the (exponent minus 3) exactly, maps
  sign-bit forms to zero and reports an overflow precisely when the value does not fit in
  256 bits.
\<close>

theorem from_compact_spec:
  "from_compact c =
    (let e = unat c div 2 ^ 24; m = unat c mod 2 ^ 23 in
     if odd (unat c div 2 ^ 23) then Some 0
     else if e \<le> 3 then Some (of_nat (m div 256 ^ (3 - e)))
     else if m * 256 ^ (e - 3) < 2 ^ 256 then Some (of_nat (m * 256 ^ (e - 3))) else None)"
proof (cases "is_negated c")
  case True
  then show ?thesis by (simp add: from_compact_def is_negated_odd)
next
  case False
  then show ?thesis using from_compact_value [OF False] by (simp add: is_negated_odd)
qed

end
