(* ===== verification/Error.thy ===== *)
theory Error
  imports Prelude
begin

text \<open>
  The error codes of \<^verbatim>\<open>include/bitcoin/bitcoin/error.hpp\<close>: a \<^verbatim>\<open>code\<close> is the value of the
  enumeration \<^verbatim>\<open>error_code_t\<close>, with \<^verbatim>\<open>success\<close> as 0; an enumerator without an initializer
  is the successor of the one before it.  An operation that can fail returns a code, and the
  test \<^verbatim>\<open>if ((ec = f()))\<close> of the sources is \<open>ec \<noteq> error_success\<close>.
\<close>

type_synonym code = nat

subsection \<open>General codes\<close>

abbreviation (input) error_success :: code where "error_success \<equiv> 0"
abbreviation (input) error_deprecated :: code where "error_deprecated \<equiv> 6"
abbreviation (input) error_unknown :: code where "error_unknown \<equiv> 43"
abbreviation (input) error_not_found :: code where "error_not_found \<equiv> 3"
abbreviation (input) error_file_system :: code where "error_file_system \<equiv> 42"
abbreviation (input) error_non_standard :: code where "error_non_standard \<equiv> 17"
abbreviation (input) error_not_implemented :: code where "error_not_implemented \<equiv> 4"
abbreviation (input) error_oversubscribed :: code where "error_oversubscribed \<equiv> 71"

subsection \<open>Network\<close>

abbreviation (input) error_service_stopped :: code where "error_service_stopped \<equiv> 1"
abbreviation (input) error_operation_failed :: code where "error_operation_failed \<equiv> 2"
abbreviation (input) error_resolve_failed :: code where "error_resolve_failed \<equiv> 7"
abbreviation (input) error_network_unreachable :: code where "error_network_unreachable \<equiv> 8"
abbreviation (input) error_address_in_use :: code where "error_address_in_use \<equiv> 9"
abbreviation (input) error_listen_failed :: code where "error_listen_failed \<equiv> 10"
abbreviation (input) error_accept_failed :: code where "error_accept_failed \<equiv> 11"
abbreviation (input) error_bad_stream :: code where "error_bad_stream \<equiv> 12"
abbreviation (input) error_channel_timeout :: code where "error_channel_timeout \<equiv> 13"
abbreviation (input) error_address_blocked :: code where "error_address_blocked \<equiv> 44"
abbreviation (input) error_channel_stopped :: code where "error_channel_stopped \<equiv> 45"
abbreviation (input) error_peer_throttling :: code where "error_peer_throttling \<equiv> 73"

subsection \<open>Check header\<close>

abbreviation (input) error_invalid_proof_of_work :: code where "error_invalid_proof_of_work \<equiv> 26"
abbreviation (input) error_futuristic_timestamp :: code where "error_futuristic_timestamp \<equiv> 27"

subsection \<open>Accept header\<close>

abbreviation (input) error_checkpoints_failed :: code where "error_checkpoints_failed \<equiv> 35"
abbreviation (input) error_old_version_block :: code where "error_old_version_block \<equiv> 36"
abbreviation (input) error_incorrect_proof_of_work :: code where "error_incorrect_proof_of_work \<equiv> 32"
abbreviation (input) error_timestamp_too_early :: code where "error_timestamp_too_early \<equiv> 33"

subsection \<open>Check block\<close>

abbreviation (input) error_block_size_limit :: code where "error_block_size_limit \<equiv> 50"
abbreviation (input) error_empty_block :: code where "error_empty_block \<equiv> 47"
abbreviation (input) error_first_not_coinbase :: code where "error_first_not_coinbase \<equiv> 28"
abbreviation (input) error_extra_coinbases :: code where "error_extra_coinbases \<equiv> 29"
abbreviation (input) error_internal_duplicate :: code where "error_internal_duplicate \<equiv> 49"
abbreviation (input) error_block_internal_double_spend :: code where "error_block_internal_double_spend \<equiv> 15"
abbreviation (input) error_forward_reference :: code where "error_forward_reference \<equiv> 79"
abbreviation (input) error_merkle_mismatch :: code where "error_merkle_mismatch \<equiv> 31"
abbreviation (input) error_block_legacy_sigop_limit :: code where "error_block_legacy_sigop_limit \<equiv> 30"
abbreviation (input) error_non_canonical_ordered :: code where "error_non_canonical_ordered \<equiv> 84"

subsection \<open>Accept block\<close>

abbreviation (input) error_block_non_final :: code where "error_block_non_final \<equiv> 34"
abbreviation (input) error_coinbase_height_mismatch :: code where "error_coinbase_height_mismatch \<equiv> 37"
abbreviation (input) error_coinbase_value_limit :: code where "error_coinbase_value_limit \<equiv> 41"
abbreviation (input) error_block_embedded_sigop_limit :: code where "error_block_embedded_sigop_limit \<equiv> 52"
abbreviation (input) error_invalid_witness_commitment :: code where "error_invalid_witness_commitment \<equiv> 25"
abbreviation (input) error_block_weight_limit :: code where "error_block_weight_limit \<equiv> 82"

subsection \<open>Check transaction\<close>

abbreviation (input) error_empty_transaction :: code where "error_empty_transaction \<equiv> 20"
abbreviation (input) error_previous_output_null :: code where "error_previous_output_null \<equiv> 23"
abbreviation (input) error_spend_overflow :: code where "error_spend_overflow \<equiv> 21"
abbreviation (input) error_invalid_coinbase_script_size :: code where "error_invalid_coinbase_script_size \<equiv> 22"
abbreviation (input) error_coinbase_transaction :: code where "error_coinbase_transaction \<equiv> 16"
abbreviation (input) error_transaction_internal_double_spend :: code where "error_transaction_internal_double_spend \<equiv> 72"
abbreviation (input) error_transaction_size_limit :: code where "error_transaction_size_limit \<equiv> 53"
abbreviation (input) error_transaction_legacy_sigop_limit :: code where "error_transaction_legacy_sigop_limit \<equiv> 54"

subsection \<open>Accept transaction\<close>

abbreviation (input) error_transaction_non_final :: code where "error_transaction_non_final \<equiv> 74"
abbreviation (input) error_premature_validation :: code where "error_premature_validation \<equiv> 69"
abbreviation (input) error_unspent_duplicate :: code where "error_unspent_duplicate \<equiv> 38"
abbreviation (input) error_missing_previous_output :: code where "error_missing_previous_output \<equiv> 19"
abbreviation (input) error_double_spend :: code where "error_double_spend \<equiv> 18"
abbreviation (input) error_coinbase_maturity :: code where "error_coinbase_maturity \<equiv> 46"
abbreviation (input) error_spend_exceeds_value :: code where "error_spend_exceeds_value \<equiv> 40"
abbreviation (input) error_transaction_embedded_sigop_limit :: code where "error_transaction_embedded_sigop_limit \<equiv> 55"
abbreviation (input) error_sequence_locked :: code where "error_sequence_locked \<equiv> 78"
abbreviation (input) error_transaction_weight_limit :: code where "error_transaction_weight_limit \<equiv> 83"

subsection \<open>Connect input\<close>

abbreviation (input) error_invalid_script :: code where "error_invalid_script \<equiv> 39"
abbreviation (input) error_invalid_script_size :: code where "error_invalid_script_size \<equiv> 56"
abbreviation (input) error_invalid_push_data_size :: code where "error_invalid_push_data_size \<equiv> 57"
abbreviation (input) error_invalid_operation_count :: code where "error_invalid_operation_count \<equiv> 58"
abbreviation (input) error_invalid_stack_size :: code where "error_invalid_stack_size \<equiv> 59"
abbreviation (input) error_invalid_stack_scope :: code where "error_invalid_stack_scope \<equiv> 60"
abbreviation (input) error_invalid_script_embed :: code where "error_invalid_script_embed \<equiv> 61"
abbreviation (input) error_invalid_signature_encoding :: code where "error_invalid_signature_encoding \<equiv> 62"
abbreviation (input) error_invalid_signature_lax_encoding :: code where "error_invalid_signature_lax_encoding \<equiv> 63"
abbreviation (input) error_incorrect_signature :: code where "error_incorrect_signature \<equiv> 64"
abbreviation (input) error_unexpected_witness :: code where "error_unexpected_witness \<equiv> 77"
abbreviation (input) error_invalid_witness :: code where "error_invalid_witness \<equiv> 80"
abbreviation (input) error_dirty_witness :: code where "error_dirty_witness \<equiv> 81"
abbreviation (input) error_stack_false :: code where "error_stack_false \<equiv> 65"

subsection \<open>Op eval\<close>

abbreviation (input) error_op_disabled :: code where "error_op_disabled \<equiv> 100"
abbreviation (input) error_op_reserved :: code where "error_op_reserved \<equiv> 101"
abbreviation (input) error_op_push_size :: code where "error_op_push_size \<equiv> 102"
abbreviation (input) error_op_push_data :: code where "error_op_push_data \<equiv> 103"
abbreviation (input) error_op_if :: code where "error_op_if \<equiv> 104"
abbreviation (input) error_op_notif :: code where "error_op_notif \<equiv> 105"
abbreviation (input) error_op_else :: code where "error_op_else \<equiv> 106"
abbreviation (input) error_op_endif :: code where "error_op_endif \<equiv> 107"
abbreviation (input) error_op_verify1 :: code where "error_op_verify1 \<equiv> 108"
abbreviation (input) error_op_verify2 :: code where "error_op_verify2 \<equiv> 109"
abbreviation (input) error_op_return :: code where "error_op_return \<equiv> 110"
abbreviation (input) error_op_to_alt_stack :: code where "error_op_to_alt_stack \<equiv> 111"
abbreviation (input) error_op_from_alt_stack :: code where "error_op_from_alt_stack \<equiv> 112"
abbreviation (input) error_op_drop2 :: code where "error_op_drop2 \<equiv> 113"
abbreviation (input) error_op_dup2 :: code where "error_op_dup2 \<equiv> 114"
abbreviation (input) error_op_dup3 :: code where "error_op_dup3 \<equiv> 115"
abbreviation (input) error_op_over2 :: code where "error_op_over2 \<equiv> 116"
abbreviation (input) error_op_rot2 :: code where "error_op_rot2 \<equiv> 117"
abbreviation (input) error_op_swap2 :: code where "error_op_swap2 \<equiv> 118"
abbreviation (input) error_op_if_dup :: code where "error_op_if_dup \<equiv> 119"
abbreviation (input) error_op_drop :: code where "error_op_drop \<equiv> 120"
abbreviation (input) error_op_dup :: code where "error_op_dup \<equiv> 121"
abbreviation (input) error_op_nip :: code where "error_op_nip \<equiv> 122"
abbreviation (input) error_op_over :: code where "error_op_over \<equiv> 123"
abbreviation (input) error_op_pick :: code where "error_op_pick \<equiv> 124"
abbreviation (input) error_op_roll :: code where "error_op_roll \<equiv> 125"
abbreviation (input) error_op_rot :: code where "error_op_rot \<equiv> 126"
abbreviation (input) error_op_swap :: code where "error_op_swap \<equiv> 127"
abbreviation (input) error_op_tuck :: code where "error_op_tuck \<equiv> 128"
abbreviation (input) error_op_size :: code where "error_op_size \<equiv> 129"
abbreviation (input) error_op_equal :: code where "error_op_equal \<equiv> 130"
abbreviation (input) error_op_equal_verify1 :: code where "error_op_equal_verify1 \<equiv> 131"
abbreviation (input) error_op_equal_verify2 :: code where "error_op_equal_verify2 \<equiv> 132"
abbreviation (input) error_op_add1 :: code where "error_op_add1 \<equiv> 133"
abbreviation (input) error_op_sub1 :: code where "error_op_sub1 \<equiv> 134"
abbreviation (input) error_op_negate :: code where "error_op_negate \<equiv> 135"
abbreviation (input) error_op_abs :: code where "error_op_abs \<equiv> 136"
abbreviation (input) error_op_not :: code where "error_op_not \<equiv> 137"
abbreviation (input) error_op_nonzero :: code where "error_op_nonzero \<equiv> 138"
abbreviation (input) error_op_add :: code where "error_op_add \<equiv> 139"
abbreviation (input) error_op_sub :: code where "error_op_sub \<equiv> 140"
abbreviation (input) error_op_bool_and :: code where "error_op_bool_and \<equiv> 141"
abbreviation (input) error_op_bool_or :: code where "error_op_bool_or \<equiv> 142"
abbreviation (input) error_op_num_equal :: code where "error_op_num_equal \<equiv> 143"
abbreviation (input) error_op_num_equal_verify1 :: code where "error_op_num_equal_verify1 \<equiv> 144"
abbreviation (input) error_op_num_equal_verify2 :: code where "error_op_num_equal_verify2 \<equiv> 145"
abbreviation (input) error_op_num_not_equal :: code where "error_op_num_not_equal \<equiv> 146"
abbreviation (input) error_op_less_than :: code where "error_op_less_than \<equiv> 147"
abbreviation (input) error_op_greater_than :: code where "error_op_greater_than \<equiv> 148"
abbreviation (input) error_op_less_than_or_equal :: code where "error_op_less_than_or_equal \<equiv> 149"
abbreviation (input) error_op_greater_than_or_equal :: code where "error_op_greater_than_or_equal \<equiv> 150"
abbreviation (input) error_op_min :: code where "error_op_min \<equiv> 151"
abbreviation (input) error_op_max :: code where "error_op_max \<equiv> 152"
abbreviation (input) error_op_within :: code where "error_op_within \<equiv> 153"
abbreviation (input) error_op_ripemd160 :: code where "error_op_ripemd160 \<equiv> 154"
abbreviation (input) error_op_sha1 :: code where "error_op_sha1 \<equiv> 155"
abbreviation (input) error_op_sha256 :: code where "error_op_sha256 \<equiv> 156"
abbreviation (input) error_op_hash160 :: code where "error_op_hash160 \<equiv> 157"
abbreviation (input) error_op_hash256 :: code where "error_op_hash256 \<equiv> 158"
abbreviation (input) error_op_code_seperator :: code where "error_op_code_seperator \<equiv> 159"
abbreviation (input) error_op_check_sig_verify1 :: code where "error_op_check_sig_verify1 \<equiv> 160"
abbreviation (input) error_op_check_sig :: code where "error_op_check_sig \<equiv> 161"
abbreviation (input) error_op_check_multisig_verify1 :: code where "error_op_check_multisig_verify1 \<equiv> 162"
abbreviation (input) error_op_check_multisig_verify2 :: code where "error_op_check_multisig_verify2 \<equiv> 163"
abbreviation (input) error_op_check_multisig_verify3 :: code where "error_op_check_multisig_verify3 \<equiv> 164"
abbreviation (input) error_op_check_multisig_verify4 :: code where "error_op_check_multisig_verify4 \<equiv> 165"
abbreviation (input) error_op_check_multisig_verify5 :: code where "error_op_check_multisig_verify5 \<equiv> 166"
abbreviation (input) error_op_check_multisig_verify6 :: code where "error_op_check_multisig_verify6 \<equiv> 167"
abbreviation (input) error_op_check_multisig_verify7 :: code where "error_op_check_multisig_verify7 \<equiv> 168"
abbreviation (input) error_op_check_multisig :: code where "error_op_check_multisig \<equiv> 169"
abbreviation (input) error_op_check_locktime_verify1 :: code where "error_op_check_locktime_verify1 \<equiv> 170"
abbreviation (input) error_op_check_locktime_verify2 :: code where "error_op_check_locktime_verify2 \<equiv> 171"
abbreviation (input) error_op_check_locktime_verify3 :: code where "error_op_check_locktime_verify3 \<equiv> 172"
abbreviation (input) error_op_check_locktime_verify4 :: code where "error_op_check_locktime_verify4 \<equiv> 173"
abbreviation (input) error_op_check_locktime_verify5 :: code where "error_op_check_locktime_verify5 \<equiv> 174"
abbreviation (input) error_op_check_locktime_verify6 :: code where "error_op_check_locktime_verify6 \<equiv> 175"
abbreviation (input) error_op_check_sequence_verify1 :: code where "error_op_check_sequence_verify1 \<equiv> 176"
abbreviation (input) error_op_check_sequence_verify2 :: code where "error_op_check_sequence_verify2 \<equiv> 177"
abbreviation (input) error_op_check_sequence_verify3 :: code where "error_op_check_sequence_verify3 \<equiv> 178"
abbreviation (input) error_op_check_sequence_verify4 :: code where "error_op_check_sequence_verify4 \<equiv> 179"
abbreviation (input) error_op_check_sequence_verify5 :: code where "error_op_check_sequence_verify5 \<equiv> 180"
abbreviation (input) error_op_check_sequence_verify6 :: code where "error_op_check_sequence_verify6 \<equiv> 181"
abbreviation (input) error_op_check_sequence_verify7 :: code where "error_op_check_sequence_verify7 \<equiv> 182"

abbreviation (input) error_op_check_multisig_verify8 :: code where "error_op_check_multisig_verify8 \<equiv> 214"

subsection \<open>TX creation\<close>

abbreviation (input) error_invalid_output :: code where "error_invalid_output \<equiv> 215"
abbreviation (input) error_lock_time_conflict :: code where "error_lock_time_conflict \<equiv> 216"
abbreviation (input) error_input_index_out_of_range :: code where "error_input_index_out_of_range \<equiv> 217"
abbreviation (input) error_input_sign_failed :: code where "error_input_sign_failed \<equiv> 218"

end
