(* ===== verification/Header.thy ===== *)
theory Header
  imports Hash Compact Point Error
begin

text \<open>
  Block headers: \<^verbatim>\<open>src/chain/header.cpp\<close>, with the hash cache each setter invalidates, the work
  a target represents and the context-free checks.  \<^verbatim>\<open>header::accept\<close> is in \<open>Chain_State\<close>.
\<close>

record header =
  version :: uint32
  previous_block_hash :: hash_digest
  merkle :: hash_digest
  timestamp :: uint32
  bits :: uint32
  nonce :: uint32
  hash_cache :: "hash_digest option"
  header_median_time_past :: uint32

definition header_default :: header where
  "header_default =
     \<lparr>version = 0, previous_block_hash = null_hash, merkle = null_hash, timestamp = 0, bits = 0,
      nonce = 0, hash_cache = None, header_median_time_past = 0\<rparr>"

definition header_reset :: "header \<Rightarrow> header" where
  "header_reset h =
     h\<lparr>version := 0, previous_block_hash := null_hash, merkle := null_hash, timestamp := 0,
       bits := 0, nonce := 0, hash_cache := None\<rparr>"

text \<open>The assignment operators copy everything but the cache.\<close>

definition header_assign :: "header \<Rightarrow> header \<Rightarrow> header" where
  "header_assign target source = source\<lparr>hash_cache := hash_cache target\<rparr>"

definition header_equal :: "header \<Rightarrow> header \<Rightarrow> bool" where
  "header_equal a b \<longleftrightarrow>
     version a = version b \<and> previous_block_hash a = previous_block_hash b \<and> merkle a = merkle b \<and>
     timestamp a = timestamp b \<and> bits a = bits b \<and> nonce a = nonce b"

definition header_is_valid :: "header \<Rightarrow> bool" where
  "header_is_valid h \<longleftrightarrow>
     version h \<noteq> 0 \<or> previous_block_hash h \<noteq> null_hash \<or> merkle h \<noteq> null_hash \<or>
     timestamp h \<noteq> 0 \<or> bits h \<noteq> 0 \<or> nonce h \<noteq> 0"

subsection \<open>Serialization\<close>

text \<open>\<^verbatim>\<open>from_data\<close> of an existing instance: it sets the fields and leaves the cache as it is.\<close>

definition header_from_data :: "bool \<Rightarrow> header \<Rightarrow> header rd" where
  "header_from_data wire h = do {
     v \<leftarrow> read_4_bytes_little_endian;
     previous \<leftarrow> read_hash;
     m \<leftarrow> read_hash;
     time \<leftarrow> read_4_bytes_little_endian;
     b \<leftarrow> read_4_bytes_little_endian;
     n \<leftarrow> read_4_bytes_little_endian;
     mtp \<leftarrow> (if wire then State_Monad.return (header_median_time_past h) else read_4_bytes_little_endian);
     ok \<leftarrow> source_valid;
     (let h' = h\<lparr>version := v, previous_block_hash := previous, merkle := m, timestamp := time,
                bits := b, nonce := n, header_median_time_past := mtp\<rparr>
      in State_Monad.return (if ok then h' else header_reset h'))
   }"

definition header_factory :: "bool \<Rightarrow> header rd" where
  "header_factory wire = header_from_data wire header_default"

definition header_to_data :: "bool \<Rightarrow> header \<Rightarrow> data_chunk" where
  "header_to_data wire h =
     write_4_bytes_little_endian (version h) @
     write_hash (previous_block_hash h) @
     write_hash (merkle h) @
     write_4_bytes_little_endian (timestamp h) @
     write_4_bytes_little_endian (bits h) @
     write_4_bytes_little_endian (nonce h) @
     (if wire then [] else write_4_bytes_little_endian (header_median_time_past h))"

definition header_serialized_size :: "bool \<Rightarrow> nat" where
  "header_serialized_size wire = (4 + 32 + 32 + 4 + 4 + 4) + (if wire then 0 else 4)"

subsection \<open>Setters and the hash cache\<close>

definition set_version :: "header \<Rightarrow> uint32 \<Rightarrow> header" where
  "set_version h v = h\<lparr>version := v, hash_cache := None\<rparr>"
definition set_previous_block_hash :: "header \<Rightarrow> hash_digest \<Rightarrow> header" where
  "set_previous_block_hash h v = h\<lparr>previous_block_hash := v, hash_cache := None\<rparr>"
definition set_merkle :: "header \<Rightarrow> hash_digest \<Rightarrow> header" where
  "set_merkle h v = h\<lparr>merkle := v, hash_cache := None\<rparr>"
definition set_timestamp :: "header \<Rightarrow> uint32 \<Rightarrow> header" where
  "set_timestamp h v = h\<lparr>timestamp := v, hash_cache := None\<rparr>"
definition set_bits :: "header \<Rightarrow> uint32 \<Rightarrow> header" where
  "set_bits h v = h\<lparr>bits := v, hash_cache := None\<rparr>"
definition set_nonce :: "header \<Rightarrow> uint32 \<Rightarrow> header" where
  "set_nonce h v = h\<lparr>nonce := v, hash_cache := None\<rparr>"

text \<open>\<^verbatim>\<open>hash()\<close>: the value returned and the instance with its cache filled.\<close>

definition header_hash :: "hash_functions \<Rightarrow> header \<Rightarrow> hash_digest" where
  "header_hash H h =
     (case hash_cache h of Some hash \<Rightarrow> hash | None \<Rightarrow> bitcoin_hash H (header_to_data True h))"

definition header_hash_fill :: "hash_functions \<Rightarrow> header \<Rightarrow> header" where
  "header_hash_fill H h = h\<lparr>hash_cache := Some (header_hash H h)\<rparr>"

definition header_proof_of_work_hash :: "hash_functions \<Rightarrow> currency \<Rightarrow> header \<Rightarrow> hash_digest" where
  "header_proof_of_work_hash H cur h =
     (if cur = litecoin then litecoin_hash H (header_to_data True h) else header_hash H h)"

subsection \<open>Proof of work\<close>

definition header_proof :: "uint32 \<Rightarrow> uint256" where
  "header_proof b =
     (let header_bits = compact_of_bits b in
      if overflowed header_bits then 0
      else
        let target = big header_bits; divisor = target + 1
        in if divisor = 0 then 0 else (NOT target) div divisor + 1)"

definition is_valid_proof_of_work :: "hash_functions \<Rightarrow> currency \<Rightarrow> bool \<Rightarrow> header \<Rightarrow> bool" where
  "is_valid_proof_of_work H cur retarget h =
     (let header_bits = compact_of_bits (bits h);
          pow_limit = big (compact_of_bits (work_limit cur retarget))
      in if overflowed header_bits then False
         else
           let target = big header_bits in
           if target < 1 \<or> target > pow_limit then False
           else to_uint256 (header_proof_of_work_hash H cur h) \<le> target)"

text \<open>The wall clock is an argument, in seconds.\<close>

definition is_valid_timestamp :: "int \<Rightarrow> header \<Rightarrow> bool" where
  "is_valid_timestamp now h \<longleftrightarrow> int (unat (timestamp h)) \<le> now + int timestamp_future_seconds"

definition header_check :: "hash_functions \<Rightarrow> currency \<Rightarrow> int \<Rightarrow> bool \<Rightarrow> header \<Rightarrow> code" where
  "header_check H cur now retarget h =
     (if \<not> is_valid_proof_of_work H cur retarget h then error_invalid_proof_of_work
      else if \<not> is_valid_timestamp now h then error_futuristic_timestamp
      else error_success)"

subsection \<open>Round trips\<close>

definition header_wf :: "bool \<Rightarrow> header \<Rightarrow> bool" where
  "header_wf wire h \<longleftrightarrow>
     length (previous_block_hash h) = 32 \<and> length (merkle h) = 32 \<and> hash_cache h = None \<and>
     (wire \<longrightarrow> header_median_time_past h = 0)"

interpretation header_codec: codec "header_to_data wire" "header_factory wire" "header_wf wire" for wire
proof unfold_locales
  fix h rest
  assume "header_wf wire h"
  then show "run_state (header_factory wire) (ready (header_to_data wire h @ rest)) = (h, ready rest)"
    using hash_codec.read_write
    by (cases h) (simp add: header_wf_def header_factory_def header_from_data_def header_to_data_def
        header_default_def wire_simps)
qed

lemma length_header_to_data [length_simps]:
  "length (previous_block_hash h) = 32 \<Longrightarrow> length (merkle h) = 32 \<Longrightarrow>
   length (header_to_data wire h) = header_serialized_size wire"
  by (simp add: header_to_data_def header_serialized_size_def write_hash_def length_simps)

lemma keeps_failure_header [failure_rules]: "keeps_failure (header_factory wire)"
  by (auto simp: header_factory_def header_from_data_def Let_def intro!: failure_rules)

subsection \<open>The hash cache\<close>

text \<open>The operations a caller can apply to a header through its interface, reads of the hash included.\<close>

inductive header_step :: "hash_functions \<Rightarrow> header \<Rightarrow> header \<Rightarrow> bool" for H where
  step_version: "header_step H h (set_version h v)"
| step_previous: "header_step H h (set_previous_block_hash h hash)"
| step_merkle: "header_step H h (set_merkle h hash)"
| step_timestamp: "header_step H h (set_timestamp h v)"
| step_bits: "header_step H h (set_bits h v)"
| step_nonce: "header_step H h (set_nonce h v)"
| step_hash: "header_step H h (header_hash_fill H h)"

definition header_coherent :: "hash_functions \<Rightarrow> header \<Rightarrow> bool" where
  "header_coherent H h \<longleftrightarrow> header_hash H h = bitcoin_hash H (header_to_data True h)"

lemma header_step_coherent: "header_step H h h' \<Longrightarrow> header_coherent H h \<Longrightarrow> header_coherent H h'"
  by (induction rule: header_step.induct)
    (simp_all add: header_coherent_def header_hash_def header_hash_fill_def header_to_data_def
      set_version_def set_previous_block_hash_def set_merkle_def set_timestamp_def set_bits_def set_nonce_def
      split: option.splits)

text \<open>
  After any sequence of setters and hash queries on a fresh header, hash() is the hash
  of the current wire form.
\<close>

theorem header_hash_current:
  assumes "(header_step H)\<^sup>*\<^sup>* h h'" and "hash_cache h = None"
  shows "header_hash H h' = bitcoin_hash H (header_to_data True h')"
proof -
  have "header_coherent H h" using assms(2) by (simp add: header_coherent_def header_hash_def)
  with assms(1) have "header_coherent H h'"
    by (induction rule: rtranclp_induct) (auto intro: header_step_coherent)
  then show ?thesis by (simp add: header_coherent_def)
qed

theorem header_hash_current_witness:
  "header_hash example_digests (set_nonce (header_hash_fill example_digests header_default) 7) =
   bitcoin_hash example_digests (header_to_data True (set_nonce (header_hash_fill example_digests header_default) 7))"
proof (rule header_hash_current)
  show "(header_step example_digests)\<^sup>*\<^sup>* header_default (set_nonce (header_hash_fill example_digests header_default) 7)"
    by (meson converse_rtranclp_into_rtranclp header_step.intros rtranclp.rtrancl_refl)
  show "hash_cache header_default = None" by (simp add: header_default_def)
qed

text \<open>
  header::from_data on a header whose hash was computed before leaves the old hash in
  the cache: the loaded header answers hash() with the hash of the header it replaced.
\<close>

theorem header_from_data_keeps_stale_hash:
  assumes "header_wf True h'" and "hash_cache h = None"
  shows "\<exists>loaded. run_state (header_from_data True (header_hash_fill H h)) (ready (header_to_data True h'))
      = (loaded, ready []) \<and> header_equal loaded h' \<and>
    header_hash H loaded = bitcoin_hash H (header_to_data True h)"
proof -
  let ?h = "header_hash_fill H h"
  let ?loaded = "?h\<lparr>version := version h', previous_block_hash := previous_block_hash h', merkle := merkle h',
    timestamp := timestamp h', bits := bits h', nonce := nonce h'\<rparr>"
  have "run_state (header_from_data True ?h) (ready (header_to_data True h' @ [])) = (?loaded, ready [])"
    using assms(1) hash_codec.read_write
    by (simp add: header_wf_def header_from_data_def header_to_data_def wire_simps u32_codec.read_back
        header_hash_fill_def del: append_Nil2)
  then show ?thesis
    using assms(2) by (intro exI [of _ ?loaded]) (simp add: header_equal_def header_hash_def header_hash_fill_def)
qed

theorem header_from_data_keeps_stale_hash_witness:
  "\<exists>loaded. run_state (header_from_data True (header_hash_fill example_digests header_default))
      (ready (header_to_data True (header_default\<lparr>nonce := 7\<rparr>))) = (loaded, ready []) \<and>
    header_equal loaded (header_default\<lparr>nonce := 7\<rparr>) \<and>
    header_hash example_digests loaded = bitcoin_hash example_digests (header_to_data True header_default)"
  by (rule header_from_data_keeps_stale_hash) (simp_all add: header_wf_def header_default_def null_hash_def)

subsection \<open>Work\<close>

lemma from_compact_bound: "from_compact c = Some t \<Longrightarrow> unat t + 1 < 2 ^ 256"
proof (cases "is_negated c")
  case True
  moreover assume "from_compact c = Some t"
  ultimately show ?thesis by (simp add: from_compact_def)
next
  case False
  let ?e = "unat c div 2 ^ 24" and ?m = "unat c mod 2 ^ 23"
  assume t: "from_compact c = Some t"
  show ?thesis
  proof (cases "?e \<le> 3")
    case True
    have "?m div 256 ^ (3 - ?e) < 2 ^ 23" by (rule le_less_trans [OF div_le_dividend]) simp
    moreover have "t = of_nat (?m div 256 ^ (3 - ?e))" using t True from_compact_value [OF False] by simp
    ultimately show ?thesis by (simp add: unat_of_nat)
  next
    case high: False
    let ?n = "?m * 256 ^ (?e - 3)"
    have n: "t = of_nat ?n" "?n < 2 ^ 256"
      using t high from_compact_value [OF False] by (simp_all split: if_splits)
    have "even ?n" using high by simp
    moreover have "odd (2 ^ 256 - 1 :: nat)" by simp
    ultimately have "?n \<noteq> 2 ^ 256 - 1" by metis
    then show ?thesis using n by (simp add: unat_of_nat del: of_nat_mult)
  qed
qed

lemma complement_division:
  fixes t :: uint256
  assumes "unat t + 1 < 2 ^ 256"
  shows "(NOT t) div (t + 1) + 1 = of_nat (2 ^ 256 div (unat t + 1))"
proof -
  let ?d = "unat t + 1"
  have d: "unat (t + 1) = ?d" using assms by (simp add: unat_word_ariths)
  have "NOT t = - 1 - t" by (simp add: not_eq_complement)
  then have "unat (NOT t) = 2 ^ 256 - ?d"
    using unat_sub [of t "- 1"] by (simp add: unsigned_minus_1_eq_mask mask_eq_exp_minus_1)
  then have "unat ((NOT t) div (t + 1)) = (2 ^ 256 - ?d) div ?d" by (simp only: unat_div d)
  moreover have "(2 ^ 256 - ?d) div ?d < 2 ^ 256" by (rule le_less_trans [OF div_le_dividend]) simp
  ultimately have "(NOT t) div (t + 1) = of_nat ((2 ^ 256 - ?d) div ?d)"
    by (simp add: word_unat_eq_iff unat_of_nat)
  moreover have "(2 ^ 256 - ?d) div ?d + 1 = 2 ^ 256 div ?d"
    using assms le_div_geq [of ?d "2 ^ 256"] by simp
  ultimately show ?thesis by (metis of_nat_1 of_nat_add)
qed

text \<open>
  header::proof, computed in 256-bit wrap-around arithmetic, is the exact quotient of
  2^256 by the target plus one, and zero for invalid bits.
\<close>

theorem header_proof_is_quotient:
  "header_proof b =
    (case from_compact b of None \<Rightarrow> 0 | Some target \<Rightarrow> of_nat (2 ^ 256 div (unat target + 1)))"
proof (cases "from_compact b")
  case None
  then show ?thesis by (simp add: header_proof_def compact_of_bits_def)
next
  case (Some t)
  have bound: "unat t + 1 < 2 ^ 256" by (rule from_compact_bound [OF Some])
  then have "unat (t + 1) = unat t + 1" by (simp add: unat_word_ariths)
  then have "t + 1 \<noteq> 0" by (metis Suc_eq_plus1 nat.distinct(1) unat_0)
  with Some complement_division [OF bound] show ?thesis
    by (simp add: header_proof_def compact_of_bits_def)
qed

end
