(* ===== verification/Chain_State.thy ===== *)
theory Chain_State
  imports Checkpoint Header
begin

text \<open>
  The consensus context of a block: \<^verbatim>\<open>src/chain/chain_state.cpp\<close>.  Fork activation, median time
  past and the required work are computed from the values of preceding headers; the
  promotions \<^verbatim>\<open>to_pool\<close>, \<^verbatim>\<open>to_block\<close> and \<^verbatim>\<open>to_header\<close> derive the context of the next height.
  Where the C++ has no result (a \<^verbatim>\<open>back()\<close> or an index outside a deque, an \<^verbatim>\<open>at()\<close> that throws, a
  division by zero) the model returns \<open>None\<close>.
\<close>

subsection \<open>State\<close>

record chain_data =
  height :: nat
  block_hash :: hash_digest
  allow_collisions_hash :: hash_digest
  bip9_bit0_hash :: hash_digest
  bip9_bit1_hash :: hash_digest
  bits_self :: uint32
  bits_ordered :: "uint32 list"
  version_self :: uint32
  version_ordered :: "uint32 list"
  timestamp_self :: uint32
  timestamp_retarget :: uint32
  timestamp_ordered :: "uint32 list"

record activations =
  active_forks :: uint32
  minimum_version :: uint32

record chain_state =
  state_data :: chain_data
  state_forks :: uint32
  state_checkpoints :: "checkpoint list"
  state_active :: activations
  state_median_time_past :: uint32
  state_work_required :: uint32
  magnetic_anomaly_activation_time :: uint64
  great_wall_activation_time :: uint64

text \<open>The networks a fork configuration selects.\<close>

abbreviation on_testnet :: "uint32 \<Rightarrow> bool" where "on_testnet forks \<equiv> is_enabled forks easy_blocks_rule"
abbreviation on_retarget :: "uint32 \<Rightarrow> bool" where "on_retarget forks \<equiv> is_enabled forks retarget_rule"
abbreviation on_mainnet :: "uint32 \<Rightarrow> bool" where
  "on_mainnet forks \<equiv> on_retarget forks \<and> \<not> on_testnet forks"

subsection \<open>Activation tests\<close>

definition version_sample_size :: "bool \<Rightarrow> nat" where
  "version_sample_size mainnet = (if mainnet then mainnet_sample else testnet_sample)"

definition is_active :: "nat \<Rightarrow> bool \<Rightarrow> bool" where
  "is_active count mainnet \<longleftrightarrow> count \<ge> (if mainnet then mainnet_active else testnet_active)"

definition is_enforced :: "nat \<Rightarrow> bool \<Rightarrow> bool" where
  "is_enforced count mainnet \<longleftrightarrow> count \<ge> (if mainnet then mainnet_enforce else testnet_enforce)"

definition is_bip16_exception :: "checkpoint \<Rightarrow> bool \<Rightarrow> bool" where
  "is_bip16_exception check mainnet \<longleftrightarrow> mainnet \<and> check = mainnet_bip16_exception_checkpoint"

definition is_bip30_exception :: "checkpoint \<Rightarrow> bool \<Rightarrow> bool" where
  "is_bip30_exception check mainnet \<longleftrightarrow>
     mainnet \<and> (check = mainnet_bip30_exception_checkpoint1 \<or> check = mainnet_bip30_exception_checkpoint2)"

definition network_checkpoint ::
  "checkpoint \<Rightarrow> checkpoint \<Rightarrow> checkpoint \<Rightarrow> bool \<Rightarrow> bool \<Rightarrow> (checkpoint \<Rightarrow> bool) \<Rightarrow> bool" where
  "network_checkpoint main test reg mainnet testnet p \<longleftrightarrow>
     (let regtest = (\<not> mainnet \<and> \<not> testnet)
      in (mainnet \<and> p main) \<or> (testnet \<and> p test) \<or> (regtest \<and> p reg))"

definition allow_collisions_by_hash :: "currency \<Rightarrow> hash_digest \<Rightarrow> bool \<Rightarrow> bool \<Rightarrow> bool" where
  "allow_collisions_by_hash cur hash mainnet testnet \<longleftrightarrow>
     network_checkpoint (mainnet_bip34_active_checkpoint cur) (testnet_bip34_active_checkpoint cur)
       (regtest_bip34_active_checkpoint cur) mainnet testnet (\<lambda>c. hash = check_hash c)"

definition allow_collisions_by_height :: "currency \<Rightarrow> nat \<Rightarrow> bool \<Rightarrow> bool \<Rightarrow> bool" where
  "allow_collisions_by_height cur h mainnet testnet \<longleftrightarrow>
     network_checkpoint (mainnet_bip34_active_checkpoint cur) (testnet_bip34_active_checkpoint cur)
       (regtest_bip34_active_checkpoint cur) mainnet testnet (\<lambda>c. h = check_height c)"

definition bip9_bit0_active_by_hash :: "currency \<Rightarrow> hash_digest \<Rightarrow> bool \<Rightarrow> bool \<Rightarrow> bool" where
  "bip9_bit0_active_by_hash cur hash mainnet testnet \<longleftrightarrow>
     network_checkpoint (mainnet_bip9_bit0_active_checkpoint cur) (testnet_bip9_bit0_active_checkpoint cur)
       regtest_bip9_bit0_active_checkpoint mainnet testnet (\<lambda>c. hash = check_hash c)"

definition bip9_bit0_active_by_height :: "currency \<Rightarrow> nat \<Rightarrow> bool \<Rightarrow> bool \<Rightarrow> bool" where
  "bip9_bit0_active_by_height cur h mainnet testnet \<longleftrightarrow>
     network_checkpoint (mainnet_bip9_bit0_active_checkpoint cur) (testnet_bip9_bit0_active_checkpoint cur)
       regtest_bip9_bit0_active_checkpoint mainnet testnet (\<lambda>c. h = check_height c)"

definition bip9_bit1_active_by_hash :: "currency \<Rightarrow> hash_digest \<Rightarrow> bool \<Rightarrow> bool \<Rightarrow> bool" where
  "bip9_bit1_active_by_hash cur hash mainnet testnet \<longleftrightarrow>
     \<not> is_bch cur \<and>
     network_checkpoint (mainnet_bip9_bit1_active_checkpoint cur) (testnet_bip9_bit1_active_checkpoint cur)
       regtest_bip9_bit1_active_checkpoint mainnet testnet (\<lambda>c. hash = check_hash c)"

definition bip9_bit1_active_by_height :: "currency \<Rightarrow> nat \<Rightarrow> bool \<Rightarrow> bool \<Rightarrow> bool" where
  "bip9_bit1_active_by_height cur h mainnet testnet \<longleftrightarrow>
     \<not> is_bch cur \<and>
     network_checkpoint (mainnet_bip9_bit1_active_checkpoint cur) (testnet_bip9_bit1_active_checkpoint cur)
       regtest_bip9_bit1_active_checkpoint mainnet testnet (\<lambda>c. h = check_height c)"

definition frozen_at :: "nat \<Rightarrow> nat \<Rightarrow> nat \<Rightarrow> nat \<Rightarrow> bool \<Rightarrow> bool \<Rightarrow> bool \<Rightarrow> bool" where
  "frozen_at main test reg h frozen mainnet testnet \<longleftrightarrow>
     (let regtest = (\<not> mainnet \<and> \<not> testnet)
      in frozen \<and> ((mainnet \<and> h \<ge> main) \<or> (testnet \<and> h \<ge> test) \<or> (regtest \<and> h \<ge> reg)))"

definition bip34 :: "currency \<Rightarrow> nat \<Rightarrow> bool \<Rightarrow> bool \<Rightarrow> bool \<Rightarrow> bool" where
  "bip34 cur h frozen mainnet testnet \<longleftrightarrow>
     frozen_at (mainnet_bip34_freeze cur) (testnet_bip34_freeze cur) (regtest_bip34_freeze cur)
       h frozen mainnet testnet"

definition bip66 :: "currency \<Rightarrow> nat \<Rightarrow> bool \<Rightarrow> bool \<Rightarrow> bool \<Rightarrow> bool" where
  "bip66 cur h frozen mainnet testnet \<longleftrightarrow>
     frozen_at (mainnet_bip66_freeze cur) (testnet_bip66_freeze cur) regtest_bip66_freeze
       h frozen mainnet testnet"

definition bip65 :: "currency \<Rightarrow> nat \<Rightarrow> bool \<Rightarrow> bool \<Rightarrow> bool \<Rightarrow> bool" where
  "bip65 cur h frozen mainnet testnet \<longleftrightarrow>
     frozen_at (mainnet_bip65_freeze cur) (testnet_bip65_freeze cur) regtest_bip65_freeze
       h frozen mainnet testnet"

subsection \<open>Bitcoin Cash rules\<close>

definition is_rule_enabled :: "nat \<Rightarrow> uint32 \<Rightarrow> nat \<Rightarrow> nat \<Rightarrow> bool" where
  "is_rule_enabled h forks mainnet_height testnet_height =
     (if \<not> on_retarget forks \<and> \<not> on_testnet forks then True
      else h > (if on_testnet forks then testnet_height else mainnet_height))"

definition is_uahf_enabled :: "nat \<Rightarrow> uint32 \<Rightarrow> bool" where
  "is_uahf_enabled h forks = is_rule_enabled h forks mainnet_uahf_height testnet_uahf_height"

definition is_daa_enabled :: "nat \<Rightarrow> uint32 \<Rightarrow> bool" where
  "is_daa_enabled h forks = is_rule_enabled h forks mainnet_daa_height testnet_daa_height"

definition is_monolith_enabled :: "nat \<Rightarrow> uint32 \<Rightarrow> bool" where
  "is_monolith_enabled h forks = is_rule_enabled h forks mainnet_monolith_height testnet_monolith_height"

text \<open>The activation stamps are 64-bit constants narrowed to the 32-bit parameter.\<close>

definition is_mtp_activated :: "uint32 \<Rightarrow> uint64 \<Rightarrow> bool" where
  "is_mtp_activated mtp activation_time \<longleftrightarrow> mtp \<ge> ucast activation_time"

subsection \<open>Median time past\<close>

definition timestamps_position :: "currency \<Rightarrow> uint32 list \<Rightarrow> bool \<Rightarrow> nat" where
  "timestamps_position cur stamps tip =
     (if is_bch cur \<and> tip \<and> length stamps \<ge> bitcoin_cash_offset_tip then bitcoin_cash_offset_tip
      else if is_bch cur \<and> \<not> tip \<and> length stamps \<ge> bitcoin_cash_offset_tip_minus_6
        then bitcoin_cash_offset_tip_minus_6
      else if length stamps > 11 then length stamps - 11
      else 0)"

definition timestamps_subset :: "currency \<Rightarrow> uint32 list \<Rightarrow> bool \<Rightarrow> uint32 list" where
  "timestamps_subset cur stamps tip =
     (let at = timestamps_position cur stamps tip;
          n = min (length stamps - at) median_time_past_interval
      in take n (drop at stamps))"

definition median_time_past :: "currency \<Rightarrow> chain_data \<Rightarrow> bool \<Rightarrow> uint32" where
  "median_time_past cur values tip =
     (let subset = sort (timestamps_subset cur (timestamp_ordered values) tip)
      in if subset = [] then 0 else subset ! (length subset div 2))"

subsection \<open>Activation\<close>

text \<open>
  The version test casts to a signed 32-bit number, which the comparison with \<^verbatim>\<open>size_t\<close> then
  converts to an unsigned 64-bit one.
\<close>

definition version_ge :: "nat \<Rightarrow> uint32 \<Rightarrow> bool" where
  "version_ge n v \<longleftrightarrow> unat (scast v :: uint64) \<ge> n"

definition count_versions :: "nat \<Rightarrow> uint32 list \<Rightarrow> nat" where
  "count_versions n history = length (filter (version_ge n) history)"

definition when_fork :: "bool \<Rightarrow> uint32 \<Rightarrow> uint32 \<Rightarrow> uint32" where
  "when_fork active rule forks = (if active then rule AND forks else 0)"

definition activation_forks :: "currency \<Rightarrow> chain_data \<Rightarrow> uint32 \<Rightarrow> uint64 \<Rightarrow> uint64 \<Rightarrow> uint32" where
  "activation_forks cur values forks anomaly_time wall_time =
     (let h = height values;
          v = unat (version_self values);
          history = version_ordered values;
          frozen = is_enabled forks bip90_rule;
          testnet = on_testnet forks;
          mainnet = on_mainnet forks;
          self = \<lparr>check_hash = block_hash values, check_height = h\<rparr>;
          mtp = median_time_past cur values True
      in when_fork True retarget_rule forks OR
         when_fork True easy_blocks_rule forks OR
         when_fork True bip90_rule forks OR
         when_fork (timestamp_self values \<ge> bip16_activation_time cur \<and> \<not> is_bip16_exception self mainnet)
           bip16_rule forks OR
         when_fork (\<not> is_bip30_exception self mainnet) bip30_rule forks OR
         when_fork (bip34 cur h frozen mainnet testnet \<or>
             (cur \<noteq> litecoin \<and> is_active (count_versions bip34_version history) mainnet \<and> v \<ge> bip34_version))
           bip34_rule forks OR
         when_fork (bip66 cur h frozen mainnet testnet \<or>
             (is_active (count_versions bip66_version history) mainnet \<and> v \<ge> bip66_version))
           bip66_rule forks OR
         when_fork (bip65 cur h frozen mainnet testnet \<or>
             (is_active (count_versions bip65_version history) mainnet \<and> v \<ge> bip65_version))
           bip65_rule forks OR
         when_fork (allow_collisions_by_hash cur (allow_collisions_hash values) mainnet testnet)
           allow_collisions_rule forks OR
         when_fork (bip9_bit0_active_by_hash cur (bip9_bit0_hash values) mainnet testnet)
           bip9_bit0_group forks OR
         when_fork (\<not> is_bch cur \<and> bip9_bit1_active_by_hash cur (bip9_bit1_hash values) mainnet testnet)
           bip9_bit1_group forks OR
         when_fork (is_bch cur \<and> is_uahf_enabled h forks)
           cash_verify_flags_script_enable_sighash_forkid forks OR
         when_fork (is_bch cur \<and> is_daa_enabled h forks) cash_low_s_rule forks OR
         when_fork (is_bch cur \<and> is_mtp_activated mtp anomaly_time) cash_checkdatasig forks OR
         when_fork (is_bch cur \<and> is_mtp_activated mtp wall_time) cash_replay_protection forks)"

definition activation_version :: "currency \<Rightarrow> chain_data \<Rightarrow> uint32 \<Rightarrow> uint32" where
  "activation_version cur values forks =
     (let h = height values;
          history = version_ordered values;
          frozen = is_enabled forks bip90_rule;
          testnet = on_testnet forks;
          mainnet = on_mainnet forks
      in if bip65 cur h frozen mainnet testnet \<or> is_enforced (count_versions bip65_version history) mainnet
           then of_nat bip65_version
         else if bip66 cur h frozen mainnet testnet \<or> is_enforced (count_versions bip66_version history) mainnet
           then of_nat bip66_version
         else if bip34 cur h frozen mainnet testnet \<or> is_enforced (count_versions bip34_version history) mainnet
           then of_nat bip34_version
         else of_nat first_version)"

definition activation :: "currency \<Rightarrow> chain_data \<Rightarrow> uint32 \<Rightarrow> uint64 \<Rightarrow> uint64 \<Rightarrow> activations" where
  "activation cur values forks anomaly_time wall_time =
     \<lparr>active_forks = activation_forks cur values forks anomaly_time wall_time,
      minimum_version = activation_version cur values forks\<rparr>"

subsection \<open>Collection sizes\<close>

definition retarget_distance :: "currency \<Rightarrow> nat \<Rightarrow> nat" where
  "retarget_distance cur h = h mod retargeting_interval cur"

definition is_retarget_height :: "currency \<Rightarrow> nat \<Rightarrow> bool" where
  "is_retarget_height cur h \<longleftrightarrow> retarget_distance cur h = 0"

definition bits_count :: "currency \<Rightarrow> nat \<Rightarrow> uint32 \<Rightarrow> nat" where
  "bits_count cur h forks =
     (let easy_work = (on_testnet forks \<and> on_retarget forks \<and> \<not> is_retarget_height cur h)
      in if easy_work then min h (retargeting_interval cur)
         else if is_bch cur then min h chain_state_timestamp_count else 1)"

definition version_count :: "nat \<Rightarrow> uint32 \<Rightarrow> nat" where
  "version_count h forks =
     (if is_enabled forks bip90_rule \<or> \<not> is_enabled forks bip34_activations then 0
      else min h (version_sample_size (on_mainnet forks)))"

definition timestamp_count :: "currency \<Rightarrow> nat \<Rightarrow> nat" where
  "timestamp_count cur h =
     (if is_bch cur then min h chain_state_timestamp_count else min h median_time_past_interval)"

text \<open>The sentinel \<^verbatim>\<open>map::unrequested\<close>.\<close>

definition unrequested :: nat where "unrequested = max_size_t"

definition retarget_height :: "currency \<Rightarrow> nat \<Rightarrow> uint32 \<Rightarrow> nat" where
  "retarget_height cur h forks =
     (if \<not> on_retarget forks then unrequested
      else h - (if is_retarget_height cur h then retargeting_interval cur else retarget_distance cur h))"

definition collision_height :: "currency \<Rightarrow> nat \<Rightarrow> uint32 \<Rightarrow> nat" where
  "collision_height cur h forks =
     (let bip34_height = check_height
            (if on_testnet forks then testnet_bip34_active_checkpoint cur
             else if \<not> on_retarget forks then regtest_bip34_active_checkpoint cur
             else mainnet_bip34_active_checkpoint cur)
      in if h > bip34_height then bip34_height else unrequested)"

definition bip9_bit0_height :: "currency \<Rightarrow> nat \<Rightarrow> uint32 \<Rightarrow> nat" where
  "bip9_bit0_height cur h forks =
     (let activation_height = check_height
            (if on_testnet forks then testnet_bip9_bit0_active_checkpoint cur
             else if \<not> on_retarget forks then regtest_bip9_bit0_active_checkpoint
             else mainnet_bip9_bit0_active_checkpoint cur)
      in if h > activation_height then activation_height else unrequested)"

definition bip9_bit1_height :: "currency \<Rightarrow> nat \<Rightarrow> uint32 \<Rightarrow> nat" where
  "bip9_bit1_height cur h forks =
     (if is_bch cur then unrequested
      else
        let activation_height = check_height
              (if on_testnet forks then testnet_bip9_bit1_active_checkpoint cur
               else mainnet_bip9_bit1_active_checkpoint cur)
        in if h > activation_height then activation_height else unrequested)"

record chain_map =
  map_bits_count :: nat
  map_bits_high :: nat
  map_bits_self :: nat
  map_version_count :: nat
  map_version_high :: nat
  map_version_self :: nat
  map_timestamp_count :: nat
  map_timestamp_high :: nat
  map_timestamp_self :: nat
  map_timestamp_retarget :: nat
  map_allow_collisions_height :: nat
  map_bip9_bit0_height :: nat
  map_bip9_bit1_height :: nat

definition get_map :: "currency \<Rightarrow> nat \<Rightarrow> uint32 \<Rightarrow> chain_map" where
  "get_map cur h forks =
     (if h = 0 then
        \<lparr>map_bits_count = 0, map_bits_high = 0, map_bits_self = 0,
         map_version_count = 0, map_version_high = 0, map_version_self = 0,
         map_timestamp_count = 0, map_timestamp_high = 0, map_timestamp_self = 0,
         map_timestamp_retarget = 0, map_allow_collisions_height = 0,
         map_bip9_bit0_height = 0, map_bip9_bit1_height = 0\<rparr>
      else
        \<lparr>map_bits_count = bits_count cur h forks, map_bits_high = h - 1, map_bits_self = h,
         map_version_count = version_count h forks, map_version_high = h - 1, map_version_self = h,
         map_timestamp_count = timestamp_count cur h, map_timestamp_high = h - 1, map_timestamp_self = h,
         map_timestamp_retarget = retarget_height cur h forks,
         map_allow_collisions_height = collision_height cur h forks,
         map_bip9_bit0_height = bip9_bit0_height cur h forks,
         map_bip9_bit1_height = bip9_bit1_height cur h forks\<rparr>)"

subsection \<open>Required work\<close>

definition last_value :: "'a list \<Rightarrow> 'a option" where
  "last_value xs = (if xs = [] then None else Some (last xs))"

definition timestamp_high :: "chain_data \<Rightarrow> uint32 option" where
  "timestamp_high values = last_value (timestamp_ordered values)"

definition bits_high :: "chain_data \<Rightarrow> uint32 option" where
  "bits_high values = last_value (bits_ordered values)"

definition range_constrain :: "int \<Rightarrow> int \<Rightarrow> int \<Rightarrow> int" where
  "range_constrain v minimum maximum = (if v < minimum then minimum else if v > maximum then maximum else v)"

definition retarget_timespan :: "currency \<Rightarrow> chain_data \<Rightarrow> nat option" where
  "retarget_timespan cur values = do {
     high \<leftarrow> timestamp_high values;
     (let timespan = int (unat high) - int (unat (timestamp_retarget values))
      in Some (nat (range_constrain timespan (int (min_timespan cur)) (int (max_timespan cur)))))
   }"

definition pow_limit_of :: "currency \<Rightarrow> uint256" where
  "pow_limit_of cur =
     (if cur = litecoin then 0x00000fffffffffffffffffffffffffffffffffffffffffffffffffffffffffff
      else big (compact_of_bits (retarget_proof_of_work_limit cur)))"

definition limited_bits :: "currency \<Rightarrow> uint256 \<Rightarrow> uint256 \<Rightarrow> uint32" where
  "limited_bits cur pow_limit target =
     (if target > pow_limit then retarget_proof_of_work_limit cur else normal (compact_of_big target))"

definition work_required_retarget :: "currency \<Rightarrow> chain_data \<Rightarrow> uint32 option" where
  "work_required_retarget cur values = do {
     b \<leftarrow> bits_high values;
     timespan \<leftarrow> retarget_timespan cur values;
     (let target = big (compact_of_bits b);
          shift = (cur = litecoin \<and> target > push_bit 236 1 - 1);
          target = (if shift then drop_bit 1 target else target);
          target = target * of_nat timespan;
          target = target div of_nat (target_timespan_seconds cur);
          target = (if shift then push_bit 1 target else target)
      in Some (limited_bits cur (pow_limit_of cur) target))
   }"

definition difficulty_adjustment_cash :: "uint256 \<Rightarrow> uint256" where
  "difficulty_adjustment_cash target = target + drop_bit 2 target"

definition work_required_adjust_cash :: "currency \<Rightarrow> chain_data \<Rightarrow> uint32 option" where
  "work_required_adjust_cash cur values = do {
     b \<leftarrow> bits_high values;
     (let target = difficulty_adjustment_cash (big (compact_of_bits b));
          pow_limit = big (compact_of_bits (retarget_proof_of_work_limit cur))
      in Some (limited_bits cur pow_limit target))
   }"

text \<open>The median of three by timestamp; the pairs carry the position of the bits.\<close>

definition select_0_2 :: "nat \<times> uint32 \<Rightarrow> nat \<times> uint32 \<Rightarrow> nat \<times> uint32" where
  "select_0_2 a b = (if snd b < snd a then b else a)"

definition select_1_3_ac :: "nat \<times> uint32 \<Rightarrow> nat \<times> uint32 \<Rightarrow> nat \<times> uint32 \<Rightarrow> nat \<times> uint32" where
  "select_1_3_ac a b c = (if snd b < snd a then a else select_0_2 b c)"

definition select_1_3 :: "nat \<times> uint32 \<Rightarrow> nat \<times> uint32 \<Rightarrow> nat \<times> uint32 \<Rightarrow> nat \<times> uint32" where
  "select_1_3 a b c = (if snd c < snd a then select_1_3_ac c b a else select_1_3_ac a b c)"

definition accumulate_work :: "uint32 list \<Rightarrow> uint256" where
  "accumulate_work bs = foldl (\<lambda>work b. work + header_proof b) 0 bs"

text \<open>The timespan is a difference of unsigned 32-bit numbers, widened afterwards.\<close>

definition daa_timespan :: "currency \<Rightarrow> uint32 \<Rightarrow> uint32 \<Rightarrow> nat" where
  "daa_timespan cur first_time last_time =
     (let actual = unat (first_time - last_time) in
      if actual > 288 * target_spacing_seconds cur then 288 * target_spacing_seconds cur
      else if actual < 72 * target_spacing_seconds cur then 72 * target_spacing_seconds cur
      else actual)"

definition cash_difficulty_adjustment :: "currency \<Rightarrow> chain_data \<Rightarrow> uint32 option" where
  "cash_difficulty_adjustment cur values =
     (let stamps = timestamp_ordered values; bs = bits_ordered values; bits_size = length bs in
      if length stamps < 147 \<or> bits_size < 147 then None
      else
        let first_block = select_1_3 (bits_size - 3, stamps ! 144) (bits_size - 2, stamps ! 145)
              (bits_size - 1, stamps ! 146);
            last_block = select_1_3 (bits_size - 147, stamps ! 0) (bits_size - 146, stamps ! 1)
              (bits_size - 145, stamps ! 2);
            work = accumulate_work (map (\<lambda>i. bs ! i) [fst last_block + 1..<fst first_block + 1]);
            work = work * of_nat (target_spacing_seconds cur);
            work = work div of_nat (daa_timespan cur (snd first_block) (snd last_block));
            pow_limit = big (compact_of_bits (retarget_proof_of_work_limit cur))
        in if work = 0 then None
           else Some (limited_bits cur pow_limit ((- work) div work)))"

definition is_retarget_or_non_limit :: "currency \<Rightarrow> nat \<Rightarrow> uint32 \<Rightarrow> bool" where
  "is_retarget_or_non_limit cur h b \<longleftrightarrow>
     b \<noteq> retarget_proof_of_work_limit cur \<or> is_retarget_height cur h"

definition decrement_size :: "nat \<Rightarrow> nat" where
  "decrement_size h = (if h = 0 then max_size_t else h - 1)"

text \<open>The reverse search; \<open>None\<close> is falling out of the loop.\<close>

fun easy_search :: "currency \<Rightarrow> nat \<Rightarrow> uint32 list \<Rightarrow> uint32 option" where
  "easy_search cur h [] = None"
| "easy_search cur h (b # bs) =
     (let h' = decrement_size h
      in if is_retarget_or_non_limit cur h' b then Some b else easy_search cur h' bs)"

definition easy_time_limit :: "currency \<Rightarrow> chain_data \<Rightarrow> uint32 option" where
  "easy_time_limit cur values = do {
     high \<leftarrow> timestamp_high values;
     Some (of_nat (min (unat high + easy_spacing_seconds cur) max_uint32))
   }"

definition easy_work_required :: "currency \<Rightarrow> chain_data \<Rightarrow> bool \<Rightarrow> uint32 option" where
  "easy_work_required cur values daa_active = do {
     limit \<leftarrow> easy_time_limit cur values;
     if timestamp_self values > limit then Some (retarget_proof_of_work_limit cur)
     else if daa_active \<and> is_bch cur then cash_difficulty_adjustment cur values
     else (case easy_search cur (height values) (rev (bits_ordered values)) of
             Some b \<Rightarrow> Some b
           | None \<Rightarrow> Some (retarget_proof_of_work_limit cur))
   }"

definition work_required :: "currency \<Rightarrow> chain_data \<Rightarrow> uint32 \<Rightarrow> uint32 option" where
  "work_required cur values forks =
     (if height values = 0 then Some 0
      else if \<not> on_retarget forks then bits_high values
      else
        let last_time_span = median_time_past cur values True;
            daa_active = (is_bch cur \<and> is_daa_enabled (height values) forks)
        in if is_retarget_height cur (height values) \<and> \<not> daa_active then work_required_retarget cur values
           else if on_testnet forks then easy_work_required cur values daa_active
           else if is_bch cur \<and> is_uahf_enabled (height values) forks \<and> daa_active
             then cash_difficulty_adjustment cur values
           else if is_bch cur \<and> is_uahf_enabled (height values) forks \<and>
               unat (last_time_span - median_time_past cur values False) > 12 * 3600
             then work_required_adjust_cash cur values
           else bits_high values)"

subsection \<open>Promotion\<close>

definition signal_version :: "uint32 \<Rightarrow> uint32" where
  "signal_version forks =
     (if is_enabled forks bip65_rule then of_nat bip65_version
      else if is_enabled forks bip66_rule then of_nat bip66_version
      else if is_enabled forks bip34_rule then of_nat bip34_version
      else if is_enabled forks bip9_bit0_group then bip9_version_base OR bip9_version_bit0
      else if is_enabled forks bip9_bit1_group then bip9_version_base OR bip9_version_bit1
      else of_nat first_version)"

definition enqueue :: "nat \<Rightarrow> 'a list \<Rightarrow> 'a \<Rightarrow> 'a list" where
  "enqueue count xs x = (let ys = xs @ [x] in if length ys > count then tl ys else ys)"

text \<open>\<open>None\<close> is the exception of \<^verbatim>\<open>deque::at\<close> in the Litecoin build.\<close>

definition promoted_retarget :: "currency \<Rightarrow> chain_data \<Rightarrow> uint32 list \<Rightarrow> uint32 option" where
  "promoted_retarget cur d stamps =
     (if cur = litecoin
      then (if length stamps < 2 then None else Some (stamps ! (length stamps - 2)))
      else Some (timestamp_self d))"

definition to_pool :: "currency \<Rightarrow> chain_state \<Rightarrow> chain_data option" where
  "to_pool cur tip_state =
     (let forks = state_forks tip_state;
          retarget = on_retarget forks;
          d = state_data tip_state;
          h = (height d + 1) mod 2 ^ 64;
          stamps = enqueue (timestamp_count cur h) (timestamp_ordered d) (timestamp_self d)
      in do {
        retarget_time \<leftarrow> (if retarget \<and> is_retarget_height cur (decrement_size h)
                          then promoted_retarget cur d stamps else Some (timestamp_retarget d));
        Some (d\<lparr>height := h, block_hash := null_hash,
          bits_self := work_limit cur retarget,
          bits_ordered := enqueue (bits_count cur h forks) (bits_ordered d) (bits_self d),
          version_self := signal_version forks,
          version_ordered := enqueue (version_count h forks) (version_ordered d) (version_self d),
          timestamp_self := - 1,
          timestamp_retarget := retarget_time,
          timestamp_ordered := stamps\<rparr>)
      })"

definition with_header :: "currency \<Rightarrow> hash_functions \<Rightarrow> uint32 \<Rightarrow> header \<Rightarrow> chain_data \<Rightarrow> chain_data" where
  "with_header cur H forks hdr d =
     (let testnet = on_testnet forks; mainnet = on_mainnet forks; hash = header_hash H hdr
      in d\<lparr>block_hash := hash, bits_self := bits hdr, version_self := version hdr,
           timestamp_self := timestamp hdr,
           allow_collisions_hash :=
             (if allow_collisions_by_height cur (height d) mainnet testnet then hash else allow_collisions_hash d),
           bip9_bit0_hash :=
             (if bip9_bit0_active_by_height cur (height d) mainnet testnet then hash else bip9_bit0_hash d),
           bip9_bit1_hash :=
             (if \<not> is_bch cur \<and> bip9_bit1_active_by_height cur (height d) mainnet testnet then hash
              else bip9_bit1_hash d)\<rparr>)"

definition to_block :: "currency \<Rightarrow> hash_functions \<Rightarrow> chain_state \<Rightarrow> header \<Rightarrow> chain_data" where
  "to_block cur H pool hdr = with_header cur H (state_forks pool) hdr (state_data pool)"

definition to_header :: "currency \<Rightarrow> hash_functions \<Rightarrow> chain_state \<Rightarrow> header \<Rightarrow> chain_data option" where
  "to_header cur H parent hdr =
     map_option (with_header cur H (state_forks parent) hdr) (to_pool cur parent)"

text \<open>The common part of the constructors.\<close>

definition make_chain_state ::
  "currency \<Rightarrow> chain_data \<Rightarrow> uint32 \<Rightarrow> checkpoint list \<Rightarrow> uint64 \<Rightarrow> uint64 \<Rightarrow> chain_state option" where
  "make_chain_state cur d forks checks anomaly_time wall_time = do {
     work \<leftarrow> work_required cur d forks;
     Some \<lparr>state_data = d, state_forks = forks, state_checkpoints = checks,
       state_active = activation cur d forks anomaly_time wall_time,
       state_median_time_past = median_time_past cur d True,
       state_work_required = work,
       magnetic_anomaly_activation_time = anomaly_time,
       great_wall_activation_time = wall_time\<rparr>
   }"

definition chain_state_of_data ::
  "currency \<Rightarrow> chain_data \<Rightarrow> checkpoint list \<Rightarrow> uint32 \<Rightarrow> uint64 \<Rightarrow> uint64 \<Rightarrow> chain_state option" where
  "chain_state_of_data cur d checks forks anomaly_time wall_time =
     make_chain_state cur d (forks OR allow_collisions_rule) checks anomaly_time wall_time"

definition chain_state_pool :: "currency \<Rightarrow> chain_state \<Rightarrow> chain_state option" where
  "chain_state_pool cur tip_state = do {
     d \<leftarrow> to_pool cur tip_state;
     make_chain_state cur d (state_forks tip_state) (state_checkpoints tip_state)
       (magnetic_anomaly_activation_time tip_state) (great_wall_activation_time tip_state)
   }"

definition chain_state_block :: "currency \<Rightarrow> hash_functions \<Rightarrow> chain_state \<Rightarrow> header \<Rightarrow> chain_state option" where
  "chain_state_block cur H pool hdr =
     make_chain_state cur (to_block cur H pool hdr) (state_forks pool) (state_checkpoints pool)
       (magnetic_anomaly_activation_time pool) (great_wall_activation_time pool)"

definition chain_state_header :: "currency \<Rightarrow> hash_functions \<Rightarrow> chain_state \<Rightarrow> header \<Rightarrow> chain_state option" where
  "chain_state_header cur H parent hdr = do {
     d \<leftarrow> to_header cur H parent hdr;
     make_chain_state cur d (state_forks parent) (state_checkpoints parent)
       (magnetic_anomaly_activation_time parent) (great_wall_activation_time parent)
   }"

subsection \<open>Queries\<close>

definition chain_state_is_valid :: "chain_state \<Rightarrow> bool" where
  "chain_state_is_valid st \<longleftrightarrow> height (state_data st) \<noteq> 0"

definition chain_is_enabled :: "chain_state \<Rightarrow> uint32 \<Rightarrow> bool" where
  "chain_is_enabled st fork = is_enabled (active_forks (state_active st)) fork"

definition is_checkpoint_conflict :: "chain_state \<Rightarrow> hash_digest \<Rightarrow> bool" where
  "is_checkpoint_conflict st hash \<longleftrightarrow>
     \<not> checkpoint_validate hash (height (state_data st)) (state_checkpoints st)"

definition is_under_checkpoint :: "chain_state \<Rightarrow> bool" where
  "is_under_checkpoint st \<longleftrightarrow> checkpoint_covered (height (state_data st)) (state_checkpoints st)"

definition is_magnetic_anomaly_enabled :: "chain_state \<Rightarrow> bool" where
  "is_magnetic_anomaly_enabled st \<longleftrightarrow>
     is_mtp_activated (state_median_time_past st) (magnetic_anomaly_activation_time st)"

definition is_great_wall_enabled :: "chain_state \<Rightarrow> bool" where
  "is_great_wall_enabled st \<longleftrightarrow>
     is_mtp_activated (state_median_time_past st) (great_wall_activation_time st)"

definition get_next_work_required :: "currency \<Rightarrow> chain_state \<Rightarrow> uint32 \<Rightarrow> uint32 option" where
  "get_next_work_required cur st time_now =
     work_required cur ((state_data st)\<lparr>timestamp_self := time_now\<rparr>) (active_forks (state_active st))"

definition header_accept :: "hash_functions \<Rightarrow> chain_state \<Rightarrow> header \<Rightarrow> code" where
  "header_accept H st h =
     (if bits h \<noteq> state_work_required st then error_incorrect_proof_of_work
      else if is_checkpoint_conflict st (header_hash H h) then error_checkpoints_failed
      else if is_under_checkpoint st then error_success
      else if version h < minimum_version (state_active st) then error_old_version_block
      else if timestamp h \<le> state_median_time_past st then error_timestamp_too_early
      else error_success)"

subsection \<open>Properties of activation\<close>

lemma when_fork_subset: "when_fork a rule forks AND NOT forks = 0"
  by (simp add: when_fork_def and.assoc)

text \<open>Chain data of a young chain, for concrete instances.\<close>

definition example_data :: chain_data where
  "example_data = \<lparr>height = 3, block_hash = null_hash, allow_collisions_hash = null_hash, bip9_bit0_hash = null_hash,
     bip9_bit1_hash = null_hash, bits_self = 0x1d00ffff, bits_ordered = [0x1d00ffff, 0x1d00ffff, 0x1d00ffff],
     version_self = 4, version_ordered = [], timestamp_self = 400, timestamp_retarget = 100,
     timestamp_ordered = [100, 200, 300]\<rparr>"

text \<open>
  activation() turns on only rules that the fork configuration has enabled.
\<close>

theorem activation_only_configured:
  "active_forks (activation cur values forks anomaly_time wall_time) AND NOT forks = 0"
  by (simp add: activation_def activation_forks_def Let_def bit.conj_disj_distrib2 when_fork_subset
      del: word_not_not)

lemma is_enabled_or: "is_enabled (a OR b) rule \<longleftrightarrow> is_enabled a rule \<or> is_enabled b rule"
  by (auto simp: is_enabled_def bit.conj_disj_distrib or_eq_0_iff)

text \<open>
  On bitcoin cash the segregated witness rules (bip141, bip143, bip147) are never
  active, whatever is configured and signalled.
\<close>

theorem bch_never_activates_segwit:
  assumes "rule \<in> {bip141_rule, bip143_rule, bip147_rule}"
  shows "\<not> is_enabled (active_forks (activation bitcoin_cash values forks anomaly_time wall_time)) rule"
proof -
  have rule: "\<not> is_enabled (when_fork a r forks) rule" if "rule AND r = 0" for a r
    using that by (simp add: is_enabled_def when_fork_def and.assoc [symmetric])
  have "rule AND retarget_rule = 0" "rule AND easy_blocks_rule = 0" "rule AND bip90_rule = 0"
    "rule AND bip16_rule = 0" "rule AND bip30_rule = 0" "rule AND bip34_rule = 0"
    "rule AND bip66_rule = 0" "rule AND bip65_rule = 0" "rule AND allow_collisions_rule = 0"
    "rule AND bip9_bit0_group = 0" "rule AND cash_low_s_rule = 0"
    "rule AND cash_verify_flags_script_enable_sighash_forkid = 0"
    "rule AND cash_checkdatasig = 0" "rule AND cash_replay_protection = 0"
    using assms by (auto simp: rule_fork_defs bip9_bit0_group_def)
  moreover have "\<not> is_enabled (when_fork (\<not> is_bch bitcoin_cash \<and> x) r forks) rule" for x r
    by (simp add: when_fork_def is_bch_def is_enabled_def)
  ultimately show ?thesis
    by (simp only: activation_def activations.simps activation_forks_def Let_def is_enabled_or rule simp_thms)
qed

theorem bch_never_activates_segwit_witness:
  "\<not> is_enabled (active_forks (activation bitcoin_cash example_data 0xffffffff 0 0)) bip141_rule"
  by (rule bch_never_activates_segwit) simp

text \<open>
  The version comparison of activation() counts every negative block version as new
  enough, since the version is converted to an unsigned size before the comparison.
\<close>

theorem version_ge_accepts_negative:
  assumes "n \<le> 2 ^ 31"
  shows "version_ge n v \<longleftrightarrow> sint v < 0 \<or> int n \<le> sint v"
proof (cases "sint v < 0")
  case True
  then have "int (unat (scast v :: uint64)) = sint v + 2 ^ 64" using unat_scast_32 [of v] by (simp only: if_True)
  moreover have "int n \<le> sint v + 2 ^ 64" using sint_bounds_32 [of v] assms by simp
  ultimately have "n \<le> unat (scast v :: uint64)" by (metis of_nat_le_iff)
  then show ?thesis unfolding version_ge_def using True by blast
next
  case False
  then have "int (unat (scast v :: uint64)) = sint v" using unat_scast_32 [of v] by (simp only: if_False)
  then show ?thesis unfolding version_ge_def using False by linarith
qed

theorem version_ge_accepts_negative_witness: "version_ge 2 (- 1) \<and> sint (- 1 :: uint32) < 0"
  using version_ge_accepts_negative [of 2 "- 1"] by simp

subsection \<open>Properties of the difficulty rules\<close>

text \<open>
  The three-comparison selection network select_1_3 returns one of its arguments, the
  one with the median timestamp.
\<close>

theorem select_1_3_is_median:
  "select_1_3 a b c \<in> {a, b, c} \<and> snd (select_1_3 a b c) = sort [snd a, snd b, snd c] ! 1"
  by (auto simp: select_1_3_def select_1_3_ac_def select_0_2_def)

text \<open>
  In the bitcoin cash difficulty adjustment a last block that is timestamped after the
  reference gives the slowest allowed timespan: the 32-bit unsigned difference wraps instead
  of being negative.
\<close>

theorem daa_timespan_wraps:
  assumes "first_time < last_time" and "unat last_time - unat first_time \<le> 2 ^ 31"
  shows "daa_timespan bitcoin_cash first_time last_time = 288 * target_spacing_seconds bitcoin_cash"
proof -
  have "unat (first_time - last_time) = 2 ^ 32 - (unat last_time - unat first_time)"
    using assms(1) by (simp add: unat_sub_if' word_less_nat_alt)
  then have "288 * 600 < unat (first_time - last_time)" using assms(2) by simp
  then show ?thesis by (simp add: daa_timespan_def target_spacing_seconds_def Let_def)
qed

theorem daa_timespan_wraps_witness:
  "daa_timespan bitcoin_cash 1 2 = 288 * target_spacing_seconds bitcoin_cash"
  by (rule daa_timespan_wraps) simp_all

lemma from_big_reads_down: "\<exists>w. from_compact (from_big v) = Some w \<and> unat w \<le> unat v"
  using from_compact_from_big [of v] rounded_down(1) [of v] by (auto simp: div_times_less_eq_dividend)

lemma limit_value: "from_compact 0x1d00ffff = Some (of_nat (0xffff * 256 ^ 26))"
proof -
  have "\<not> is_negated 0x1d00ffff" by (simp add: is_negated_def sign_bit_def)
  then show ?thesis using from_compact_value [of "0x1d00ffff"] by simp
qed

lemma pow_limit_value: "cur \<noteq> litecoin \<Longrightarrow> unat (pow_limit_of cur) = 0xffff * 256 ^ 26"
  by (simp add: pow_limit_of_def retarget_proof_of_work_limit_def compact_of_bits_def limit_value unat_of_nat)

lemma limited_bits_reads:
  assumes "cur \<noteq> litecoin"
  shows "\<exists>w. from_compact (limited_bits cur (pow_limit_of cur) target) = Some w \<and>
    unat w \<le> min (unat target) (unat (pow_limit_of cur))"
proof (cases "target > pow_limit_of cur")
  case True
  then show ?thesis
    using assms limit_value pow_limit_value [OF assms]
    by (simp add: limited_bits_def retarget_proof_of_work_limit_def unat_of_nat word_less_nat_alt)
next
  case False
  then show ?thesis
    using from_big_reads_down [of target]
    by (auto simp: limited_bits_def compact_of_big_def word_less_nat_alt)
qed

lemma retarget_timespan_bounds:
  "retarget_timespan cur values = Some ts \<Longrightarrow> min_timespan cur \<le> ts \<and> ts \<le> max_timespan cur"
  by (auto simp: retarget_timespan_def range_constrain_def Let_def timespan_defs split: Option.bind_splits if_splits)

text \<open>
  C16. For bitcoin and bitcoin cash, at a retarget height above zero with the retarget fork
  active and, for bitcoin cash, before the new difficulty adjustment (daa) is active, with
  some timestamps known and the previous bits a valid target within the proof of work limit,
  work_required is defined and its target is at most the old target scaled by the clamped
  timespan, never above the limit, and never more than four times easier.
\<close>

theorem retarget_bounded:
  assumes "cur \<noteq> litecoin" and "0 < height values" and "on_retarget forks" and "is_retarget_height cur (height values)"
    and "\<not> (is_bch cur \<and> is_daa_enabled (height values) forks)"
    and "bits_high values = Some b" and "from_compact b = Some t"
    and "unat t \<le> unat (pow_limit_of cur)" and "timestamp_ordered values \<noteq> []"
  shows "\<exists>ts r w. retarget_timespan cur values = Some ts \<and>
    min_timespan cur \<le> ts \<and> ts \<le> max_timespan cur \<and>
    work_required cur values forks = Some r \<and> from_compact r = Some w \<and>
    unat w \<le> min (unat t * ts div target_timespan_seconds cur) (unat (pow_limit_of cur)) \<and>
    unat w \<le> 4 * unat t"
proof -
  let ?T = "target_timespan_seconds cur"
  obtain ts where ts: "retarget_timespan cur values = Some ts"
    using assms(9) by (auto simp: retarget_timespan_def timestamp_high_def last_value_def Let_def)
  have bounds: "min_timespan cur \<le> ts" "ts \<le> max_timespan cur"
    using retarget_timespan_bounds [OF ts] by auto
  have T: "?T = 1209600" "max_timespan cur = 4 * ?T" "ts \<le> 4838400"
    using assms(1) bounds by (auto simp: timespan_defs)
  let ?target = "t * of_nat ts div of_nat ?T :: uint256"
  have "unat t * ts \<le> 0xffff * 256 ^ 26 * 4838400"
    using assms(8) pow_limit_value [OF assms(1)] T(3) by (intro mult_le_mono) simp_all
  also have "\<dots> < 2 ^ 256" by simp
  finally have fits: "unat t * ts < 2 ^ 256" .
  then have target: "unat ?target = unat t * ts div ?T"
    using T by (simp add: unat_div unat_word_ariths unat_of_nat)
  have work: "work_required_retarget cur values = Some (limited_bits cur (pow_limit_of cur) ?target)"
    using assms(1,6,7) ts by (simp add: work_required_retarget_def compact_of_bits_def Let_def)
  obtain w where w: "from_compact (limited_bits cur (pow_limit_of cur) ?target) = Some w"
      "unat w \<le> min (unat ?target) (unat (pow_limit_of cur))"
    using limited_bits_reads [OF assms(1)] by blast
  have "unat t * ts div ?T \<le> unat t * (4 * ?T) div ?T" using T bounds(2) by (intro div_le_mono mult_le_mono) auto
  also have "\<dots> = 4 * unat t" using T(1) by simp
  finally show ?thesis using ts bounds work w target assms(2-5) by (auto simp: work_required_def)
qed

theorem retarget_bounded_witness:
  "\<exists>ts r w. retarget_timespan bitcoin (example_data\<lparr>height := 2016\<rparr>) = Some ts \<and>
    min_timespan bitcoin \<le> ts \<and> ts \<le> max_timespan bitcoin \<and>
    work_required bitcoin (example_data\<lparr>height := 2016\<rparr>) retarget_rule = Some r \<and> from_compact r = Some w \<and>
    unat w \<le> min (unat (0xffff * 2 ^ 208 :: 256 word) * ts div target_timespan_seconds bitcoin) (unat (pow_limit_of bitcoin)) \<and>
    unat w \<le> 4 * unat (0xffff * 2 ^ 208 :: 256 word)"
proof (rule retarget_bounded [where b = "0x1d00ffff"])
  show "bits_high (example_data\<lparr>height := 2016\<rparr>) = Some 0x1d00ffff" by (simp add: bits_high_def example_data_def last_value_def)
  show "from_compact 0x1d00ffff = Some (0xffff * 2 ^ 208)" using from_compact_value [of "0x1d00ffff"] by (simp add: is_negated_odd)
  show "unat (0xffff * 2 ^ 208 :: 256 word) \<le> unat (pow_limit_of bitcoin)"
    by (simp add: pow_limit_value)
  show "on_retarget retarget_rule" by code_simp
  show "is_retarget_height bitcoin (height (example_data\<lparr>height := 2016\<rparr>))"
    by (simp add: is_retarget_height_def retarget_distance_def retargeting_interval_def timespan_defs)
  show "\<not> (is_bch bitcoin \<and> is_daa_enabled (height (example_data\<lparr>height := 2016\<rparr>)) retarget_rule)" by (simp add: is_bch_def)
qed (simp_all add: example_data_def)

lemma sorted_rank:
  assumes "sorted xs" and "k < length xs"
  shows "Suc k \<le> length (filter (\<lambda>x. x \<le> xs ! k) xs)"
    and "length xs - k \<le> length (filter (\<lambda>x. xs ! k \<le> x) xs)"
proof -
  have low: "\<forall>x \<in> set (take (Suc k) xs). x \<le> xs ! k"
    using sorted_nth_mono [OF assms(1) _ assms(2)] assms(2) by (auto simp: in_set_conv_nth less_Suc_eq_le)
  have high: "\<forall>x \<in> set (drop k xs). xs ! k \<le> x"
    using sorted_nth_mono [OF assms(1)] by (auto simp: in_set_conv_nth)
  have "filter (\<lambda>x. x \<le> xs ! k) xs
      = filter (\<lambda>x. x \<le> xs ! k) (take (Suc k) xs) @ filter (\<lambda>x. x \<le> xs ! k) (drop (Suc k) xs)"
    by (simp flip: filter_append)
  then show "Suc k \<le> length (filter (\<lambda>x. x \<le> xs ! k) xs)"
    using low assms(2) by (simp add: filter_True)
  have "filter (\<lambda>x. xs ! k \<le> x) xs
      = filter (\<lambda>x. xs ! k \<le> x) (take k xs) @ filter (\<lambda>x. xs ! k \<le> x) (drop k xs)"
    by (simp flip: filter_append)
  then show "length xs - k \<le> length (filter (\<lambda>x. xs ! k \<le> x) xs)"
    using high by (simp add: filter_True)
qed

lemma length_filter_sort: "length (filter p (sort xs)) = length (filter p xs)"
  by (simp add: filter_sort)

text \<open>
  Outside bitcoin cash median_time_past is the median of the last (at most eleven)
  timestamps: one of them, with more than half of them not above it and at least half not
  below it.
\<close>

theorem median_time_past_is_median:
  assumes "\<not> is_bch cur" and "timestamp_ordered values \<noteq> []"
  defines "recent \<equiv> drop (length (timestamp_ordered values) - 11) (timestamp_ordered values)"
  shows "median_time_past cur values True \<in> set recent \<and>
    length recent < 2 * length (filter (\<lambda>t. t \<le> median_time_past cur values True) recent) \<and>
    length recent \<le> 2 * length (filter (\<lambda>t. median_time_past cur values True \<le> t) recent)"
proof -
  let ?ts = "timestamp_ordered values" and ?k = "length recent div 2"
  have "timestamps_subset cur ?ts True = recent"
    using assms(1) by (simp add: timestamps_subset_def timestamps_position_def recent_def
        median_time_past_interval_def)
  moreover have "recent \<noteq> []" using assms(2) by (cases ?ts) (auto simp: recent_def)
  moreover have "sort recent \<noteq> []" using \<open>recent \<noteq> []\<close> by (metis length_0_conv length_sort)
  ultimately have m: "median_time_past cur values True = sort recent ! ?k"
    by (simp add: median_time_past_def)
  have k: "?k < length (sort recent)" using \<open>recent \<noteq> []\<close> by simp
  have "median_time_past cur values True \<in> set recent" using nth_mem [OF k] m by simp
  moreover have "Suc ?k \<le> length (filter (\<lambda>t. t \<le> sort recent ! ?k) recent)"
      "length recent - ?k \<le> length (filter (\<lambda>t. sort recent ! ?k \<le> t) recent)"
    using sorted_rank [OF sorted_sort k] by (simp_all add: length_filter_sort)
  ultimately show ?thesis unfolding m by linarith
qed

theorem median_time_past_is_median_witness:
  "median_time_past bitcoin example_data True \<in> set [100, 200, 300]"
  using median_time_past_is_median [of bitcoin example_data] by code_simp

text \<open>
  On bitcoin cash, with exactly 136 collected timestamps median_time_past is 0, because
  the subset of recent timestamps is empty.
\<close>

theorem bch_median_time_past_short:
  assumes "length (timestamp_ordered values) = 136"
  shows "median_time_past bitcoin_cash values True = 0"
  using assms by (simp add: median_time_past_def timestamps_subset_def timestamps_position_def is_bch_def
      bitcoin_cash_offset_tip_def)

theorem bch_median_time_past_short_witness:
  "median_time_past bitcoin_cash (example_data\<lparr>timestamp_ordered := replicate 136 5\<rparr>) True = 0"
  by (rule bch_median_time_past_short) simp

subsection \<open>Reachable states\<close>

text \<open>
  A chain state starts from data with the collection sizes that \<^verbatim>\<open>get_map\<close> requests and is then
  promoted height by height.
\<close>

inductive reachable_state :: "currency \<Rightarrow> hash_functions \<Rightarrow> chain_state \<Rightarrow> bool" for cur H where
  reach_data:
    "height d \<noteq> 0 \<Longrightarrow> height d \<le> max_size_t \<Longrightarrow>
     length (bits_ordered d) = map_bits_count (get_map cur (height d) forks) \<Longrightarrow>
     length (version_ordered d) = map_version_count (get_map cur (height d) forks) \<Longrightarrow>
     length (timestamp_ordered d) = map_timestamp_count (get_map cur (height d) forks) \<Longrightarrow>
     chain_state_of_data cur d checks forks anomaly_time wall_time = Some st \<Longrightarrow> reachable_state cur H st"
| reach_pool: "reachable_state cur H st \<Longrightarrow> chain_state_pool cur st = Some st' \<Longrightarrow> reachable_state cur H st'"
| reach_block:
    "reachable_state cur H st \<Longrightarrow> chain_state_block cur H st hdr = Some st' \<Longrightarrow> reachable_state cur H st'"
| reach_header:
    "reachable_state cur H st \<Longrightarrow> chain_state_header cur H st hdr = Some st' \<Longrightarrow> reachable_state cur H st'"

definition easy_covered :: "currency \<Rightarrow> uint32 \<Rightarrow> chain_data \<Rightarrow> bool" where
  "easy_covered cur forks d \<longleftrightarrow>
     (on_testnet forks \<and> on_retarget forks \<and> \<not> is_retarget_height cur (height d) \<longrightarrow>
      (height d - 1) mod 2016 < length (bits_ordered d))"

definition chain_inv :: "currency \<Rightarrow> uint32 \<Rightarrow> chain_data \<Rightarrow> bool" where
  "chain_inv cur forks d \<longleftrightarrow>
     height d \<le> max_size_t \<and> bits_ordered d \<noteq> [] \<and> timestamp_ordered d \<noteq> [] \<and> easy_covered cur forks d"

lemma retarget_height_mod: "is_retarget_height cur h \<longleftrightarrow> h mod 2016 = 0"
  by (simp add: is_retarget_height_def retarget_distance_def retargeting_interval_2016)

lemma length_enqueue:
  "length (enqueue count xs x) = (if length xs < count then Suc (length xs) else length xs)"
  by (auto simp: enqueue_def Let_def)

lemma enqueue_nonempty: "xs \<noteq> [] \<Longrightarrow> enqueue count xs x \<noteq> []"
  using length_enqueue [of count xs x] by (auto split: if_splits)

lemma mod_pred: "h mod 2016 \<noteq> 0 \<Longrightarrow> h mod 2016 = Suc ((h - 1) mod 2016)" for h :: nat
  by (cases h) (auto simp: mod_Suc split: if_splits)

lemma bits_count_min:
  "on_testnet forks \<Longrightarrow> on_retarget forks \<Longrightarrow> \<not> is_retarget_height cur h \<Longrightarrow> bits_count cur h forks = min h 2016"
  by (simp add: bits_count_def retargeting_interval_2016)

lemma easy_covered_promoted:
  assumes "height d \<le> max_size_t" and "bits_ordered d \<noteq> []" and "easy_covered cur forks d"
    and bits': "bits_ordered d' = enqueue (bits_count cur (height d') forks) (bits_ordered d) b"
    and height': "height d' = (height d + 1) mod 2 ^ 64"
  shows "easy_covered cur forks d'"
  unfolding easy_covered_def
proof (intro impI, elim conjE)
  assume easy: "on_testnet forks" "on_retarget forks" and h': "\<not> is_retarget_height cur (height d')"
  let ?h = "height d" and ?len = "length (bits_ordered d)"
  have "?h < 2 ^ 64 - 1"
  proof (rule ccontr)
    assume "\<not> ?h < 2 ^ 64 - 1"
    then have "?h = 2 ^ 64 - 1" using assms(1) by (simp add: max_size_t_def)
    with height' h' show False by (simp add: retarget_height_mod)
  qed
  then have succ: "height d' = ?h + 1" using height' by simp
  have len': "length (bits_ordered d') = (if ?len < min (?h + 1) 2016 then Suc ?len else ?len)"
    using bits_count_min [OF easy h'] by (simp only: bits' length_enqueue succ)
  have "?h mod 2016 < Suc ?len \<and> ?h mod 2016 < min (?h + 1) 2016 \<and> 0 < ?len"
  proof (cases "is_retarget_height cur ?h")
    case True
    then show ?thesis using assms(2) by (simp add: retarget_height_mod)
  next
    case False
    then have "(?h - 1) mod 2016 < ?len" using assms(3) easy by (simp add: easy_covered_def)
    then show ?thesis using False mod_pred [of ?h] assms(2) by (auto simp: retarget_height_mod le_imp_less_Suc)
  qed
  then show "(height d' - 1) mod 2016 < length (bits_ordered d')"
    unfolding len' succ by auto
qed

lemma to_pool_inv:
  assumes "chain_inv cur (state_forks st) (state_data st)" and "to_pool cur st = Some d"
  shows "chain_inv cur (state_forks st) d"
proof -
  let ?d = "state_data st" and ?forks = "state_forks st"
  have d: "height d = (height ?d + 1) mod 2 ^ 64"
      "bits_ordered d = enqueue (bits_count cur (height d) ?forks) (bits_ordered ?d) (bits_self ?d)"
      "timestamp_ordered d = enqueue (timestamp_count cur (height d)) (timestamp_ordered ?d) (timestamp_self ?d)"
    using assms(2) by (auto simp: to_pool_def Let_def split: Option.bind_splits)
  have inv: "height ?d \<le> max_size_t" "bits_ordered ?d \<noteq> []" "timestamp_ordered ?d \<noteq> []"
      "easy_covered cur ?forks ?d"
    using assms(1) by (auto simp: chain_inv_def)
  have "easy_covered cur ?forks d"
    by (rule easy_covered_promoted [OF inv(1,2,4) d(2) d(1)])
  moreover have "bits_ordered d \<noteq> []" "timestamp_ordered d \<noteq> []"
    using inv unfolding d by (simp_all add: enqueue_nonempty)
  moreover have "height d \<le> max_size_t" unfolding d(1) by (simp add: max_size_t_def)
  ultimately show ?thesis by (simp add: chain_inv_def)
qed

lemma with_header_inv: "chain_inv cur forks (with_header cur H forks' hdr d) \<longleftrightarrow> chain_inv cur forks d"
  by (simp add: chain_inv_def easy_covered_def with_header_def Let_def)

lemma make_chain_state_data:
  "make_chain_state cur d forks checks a w = Some st \<Longrightarrow> state_data st = d \<and> state_forks st = forks"
  by (auto simp: make_chain_state_def split: Option.bind_splits)

lemma configured_network:
  "is_enabled (forks OR allow_collisions_rule) easy_blocks_rule = is_enabled forks easy_blocks_rule"
  "is_enabled (forks OR allow_collisions_rule) retarget_rule = is_enabled forks retarget_rule"
  by (simp_all add: is_enabled_or) (simp_all add: is_enabled_def rule_fork_defs)

lemma requested_data_inv:
  assumes "height d \<noteq> 0" and "height d \<le> max_size_t"
    and "length (bits_ordered d) = map_bits_count (get_map cur (height d) forks)"
    and "length (timestamp_ordered d) = map_timestamp_count (get_map cur (height d) forks)"
  shows "chain_inv cur (forks OR allow_collisions_rule) d"
proof -
  have "easy_covered cur (forks OR allow_collisions_rule) d"
    using assms(1,3) bits_count_min [of forks cur "height d"] mod_pred [of "height d"]
    by (auto simp: easy_covered_def configured_network get_map_def min_def le_less_trans [OF mod_less_eq_dividend])
  moreover have "0 < length (bits_ordered d)" "0 < length (timestamp_ordered d)"
    using assms(1,3,4) by (auto simp: get_map_def bits_count_def timestamp_count_def Let_def
        retargeting_interval_2016 chain_state_timestamp_count_def median_time_past_interval_def)
  ultimately show ?thesis using assms(2) by (simp add: chain_inv_def)
qed

lemma reachable_inv: "reachable_state cur H st \<Longrightarrow> chain_inv cur (state_forks st) (state_data st)"
proof (induction rule: reachable_state.induct)
  case (reach_data d forks checks anomaly_time wall_time st)
  then show ?case
    using requested_data_inv [of d cur forks] make_chain_state_data
    by (auto simp: chain_state_of_data_def)
next
  case (reach_pool st st')
  then show ?case
    using to_pool_inv make_chain_state_data by (auto simp: chain_state_pool_def split: Option.bind_splits)
next
  case (reach_block st hdr st')
  then show ?case
    using make_chain_state_data by (fastforce simp: chain_state_block_def to_block_def with_header_inv)
next
  case (reach_header st hdr st')
  then show ?case
    using to_pool_inv make_chain_state_data
    by (fastforce simp: chain_state_header_def to_header_def with_header_inv split: Option.bind_splits)
qed

lemma easy_search_finds:
  "0 < h \<Longrightarrow> (h - 1) mod 2016 < length bs \<Longrightarrow> \<exists>b \<in> set bs. easy_search cur h bs = Some b"
proof (induction bs arbitrary: h)
  case (Cons b bs)
  let ?h = "h - 1"
  have h: "decrement_size h = ?h" using Cons.prems(1) by (simp add: decrement_size_def)
  show ?case
  proof (cases "is_retarget_or_non_limit cur ?h b")
    case True
    then show ?thesis by (simp add: h)
  next
    case False
    then have "?h mod 2016 \<noteq> 0" by (simp add: is_retarget_or_non_limit_def retarget_height_mod)
    then have "\<exists>b \<in> set bs. easy_search cur ?h bs = Some b"
      using Cons.IH [of ?h] Cons.prems(2) mod_pred [of ?h] by (cases ?h) auto
    then show ?thesis using False by (auto simp: h)
  qed
qed simp

lemma work_required_defined:
  assumes "bits_ordered d \<noteq> []" and "timestamp_ordered d \<noteq> []"
  shows "\<exists>w. work_required bitcoin d forks = Some w"
proof -
  have high: "bits_high d = Some (last (bits_ordered d))" "timestamp_high d = Some (last (timestamp_ordered d))"
    using assms by (auto simp: bits_high_def timestamp_high_def last_value_def)
  then show ?thesis
    by (auto simp: work_required_def Let_def is_bch_def work_required_retarget_def retarget_timespan_def
        easy_work_required_def easy_time_limit_def split: option.splits)
qed

text \<open>A reachable state of a testnet at height three.\<close>

definition example_forks :: uint32 where
  "example_forks = easy_blocks_rule OR retarget_rule"

definition example_state :: chain_state where
  "example_state = the (chain_state_of_data bitcoin example_data [] example_forks 0 0)"

lemma example_state_reachable: "reachable_state bitcoin H example_state"
  "state_forks example_state = example_forks OR allow_collisions_rule" "state_data example_state = example_data"
proof -
  obtain st where st: "chain_state_of_data bitcoin example_data [] example_forks 0 0 = Some st"
    using work_required_defined [of example_data "example_forks OR allow_collisions_rule"]
    by (auto simp: chain_state_of_data_def make_chain_state_def example_data_def)
  have "reachable_state bitcoin H st"
    by (rule reach_data [OF _ _ _ _ _ st])
      (simp_all add: example_data_def get_map_def bits_count_def version_count_def timestamp_count_def Let_def
        is_bch_def max_size_t_def retarget_height_mod example_forks_def is_enabled_or retargeting_interval_2016
        median_time_past_interval_def, simp_all add: is_enabled_def rule_fork_defs bip34_activations_def)
  then show "reachable_state bitcoin H example_state" by (simp add: example_state_def st)
  show "state_forks example_state = example_forks OR allow_collisions_rule" "state_data example_state = example_data"
    using make_chain_state_data [OF st [unfolded chain_state_of_data_def]] st by (simp_all add: example_state_def)
qed

text \<open>
  On a testnet, in every reachable state not at a retarget height, the backwards search
  for the last non-limit bits finds an entry, so the loop never runs off its collection.
\<close>

theorem easy_search_total:
  assumes "reachable_state cur H st" and "on_testnet (state_forks st)" and "on_retarget (state_forks st)"
    and "\<not> is_retarget_height cur (height (state_data st))"
  shows "\<exists>b \<in> set (bits_ordered (state_data st)).
    easy_search cur (height (state_data st)) (rev (bits_ordered (state_data st))) = Some b"
proof -
  let ?d = "state_data st"
  have "(height ?d - 1) mod 2016 < length (rev (bits_ordered ?d))"
    using reachable_inv [OF assms(1)] assms(2-4) by (simp add: chain_inv_def easy_covered_def)
  moreover have "0 < height ?d" using assms(4) by (cases "height ?d") (auto simp: retarget_height_mod)
  ultimately show ?thesis using easy_search_finds [of "height ?d" "rev (bits_ordered ?d)" cur] by simp
qed

theorem easy_search_total_witness:
  "\<exists>b \<in> set (bits_ordered (state_data example_state)).
    easy_search bitcoin (height (state_data example_state)) (rev (bits_ordered (state_data example_state))) = Some b"
  by (rule easy_search_total [OF example_state_reachable(1)])
    (simp_all add: example_state_reachable(2,3) example_data_def retarget_height_mod example_forks_def is_enabled_def
      rule_fork_defs)

text \<open>
  C17. From every state reached from properly requested data by promotions, the three
  promotions of a bitcoin chain state (to_pool, to_block, to_header) never index outside a
  collection and give a state.
\<close>

theorem bitcoin_promotion_defined:
  assumes "reachable_state bitcoin H st"
  shows "(\<exists>pool. chain_state_pool bitcoin st = Some pool) \<and>
    (\<exists>block. chain_state_block bitcoin H st hdr = Some block) \<and>
    (\<exists>next. chain_state_header bitcoin H st hdr = Some next)"
proof -
  have inv: "chain_inv bitcoin (state_forks st) (state_data st)" by (rule reachable_inv [OF assms])
  have "to_pool bitcoin st \<noteq> None"
    by (simp add: to_pool_def Let_def promoted_retarget_def split: if_splits Option.bind_splits)
  then obtain d where d: "to_pool bitcoin st = Some d" by blast
  then have "chain_inv bitcoin (state_forks st) d" by (rule to_pool_inv [OF inv])
  then have inv': "chain_inv bitcoin (state_forks st) d"
      "chain_inv bitcoin (state_forks st) (with_header bitcoin H (state_forks st) hdr d)"
      "chain_inv bitcoin (state_forks st) (to_block bitcoin H st hdr)"
    using inv by (simp_all add: with_header_inv to_block_def)
  have "\<exists>st'. make_chain_state bitcoin d' (state_forks st) checks a w = Some st'"
    if "chain_inv bitcoin (state_forks st) d'" for d' checks a w
    using work_required_defined [of d' "state_forks st"] that
    by (auto simp: make_chain_state_def chain_inv_def)
  then show ?thesis
    using inv' d by (simp add: chain_state_pool_def chain_state_block_def chain_state_header_def to_header_def)
qed

theorem bitcoin_promotion_defined_witness:
  "(\<exists>pool. chain_state_pool bitcoin example_state = Some pool) \<and>
   (\<exists>block. chain_state_block bitcoin example_digests example_state header_default = Some block) \<and>
   (\<exists>next. chain_state_header bitcoin example_digests example_state header_default = Some next)"
  by (rule bitcoin_promotion_defined [OF example_state_reachable(1)])

end
