(* ===== verification/Transaction.thy ===== *)
theory Transaction
  imports Input Chain_State "HOL-Library.Multiset"
begin

text \<open>
  Transactions: \<^verbatim>\<open>src/chain/transaction.cpp\<close>.  The record holds the serialized fields, the
  caches the class fills on demand and the part of the validation state its rules read.
  A query through a cache is a function of the record; the state change of filling the
  cache is a separate function.  Scripts are verified in the theory \<open>Verify\<close>.
\<close>

record transaction =
  tx_version :: uint32
  tx_locktime :: uint32
  tx_inputs :: "tx_input list"
  tx_outputs :: "tx_output list"
  cached_fees :: uint64
  cached_sigops :: uint32
  cached_is_standard :: bool
  tx_hash_cache :: "hash_digest option"
  witness_hash_cache :: "hash_digest option"
  outputs_hash_cache :: "hash_digest option"
  inpoints_hash_cache :: "hash_digest option"
  sequences_hash_cache :: "hash_digest option"
  segregated :: "bool option"
  total_input_cache :: "uint64 option"
  total_output_cache :: "uint64 option"
  validation_state :: "chain_state option"
  validation_duplicate :: bool

definition transaction_of :: "uint32 \<Rightarrow> uint32 \<Rightarrow> tx_input list \<Rightarrow> tx_output list \<Rightarrow> transaction" where
  "transaction_of v locktime ins outs =
     \<lparr>tx_version = v, tx_locktime = locktime, tx_inputs = ins, tx_outputs = outs,
      cached_fees = 0, cached_sigops = 0, cached_is_standard = False,
      tx_hash_cache = None, witness_hash_cache = None, outputs_hash_cache = None,
      inpoints_hash_cache = None, sequences_hash_cache = None, segregated = None,
      total_input_cache = None, total_output_cache = None,
      validation_state = None, validation_duplicate = False\<rparr>"

definition transaction_default :: transaction where
  "transaction_default = transaction_of 0 0 [] []"

text \<open>The copy constructor transfers the validation state but no cache.\<close>

definition transaction_copy :: "transaction \<Rightarrow> transaction" where
  "transaction_copy tx =
     (transaction_of (tx_version tx) (tx_locktime tx) (tx_inputs tx) (tx_outputs tx))
       \<lparr>validation_state := validation_state tx, validation_duplicate := validation_duplicate tx\<rparr>"

text \<open>The constructors that are given the hash, which they do not verify.\<close>

definition transaction_with_hash :: "transaction \<Rightarrow> hash_digest \<Rightarrow> transaction" where
  "transaction_with_hash tx hash =
     (transaction_copy tx)\<lparr>cached_sigops := cached_sigops tx, cached_fees := cached_fees tx,
       cached_is_standard := cached_is_standard tx, tx_hash_cache := Some hash\<rparr>"

text \<open>The assignment operators copy the fields and keep every cache of the target.\<close>

definition transaction_assign :: "transaction \<Rightarrow> transaction \<Rightarrow> transaction" where
  "transaction_assign target source =
     target\<lparr>tx_version := tx_version source, tx_locktime := tx_locktime source,
       tx_inputs := tx_inputs source, tx_outputs := tx_outputs source,
       validation_state := validation_state source, validation_duplicate := validation_duplicate source\<rparr>"

definition transaction_equal :: "transaction \<Rightarrow> transaction \<Rightarrow> bool" where
  "transaction_equal a b \<longleftrightarrow>
     tx_version a = tx_version b \<and> tx_locktime a = tx_locktime b \<and>
     list_all2 input_equal (tx_inputs a) (tx_inputs b) \<and>
     list_all2 output_equal (tx_outputs a) (tx_outputs b)"

definition invalidate_tx_cache :: "transaction \<Rightarrow> transaction" where
  "invalidate_tx_cache tx = tx\<lparr>tx_hash_cache := None, witness_hash_cache := None\<rparr>"

definition transaction_reset :: "transaction \<Rightarrow> transaction" where
  "transaction_reset tx =
     (invalidate_tx_cache tx)\<lparr>tx_version := 0, tx_locktime := 0, tx_inputs := [], tx_outputs := [],
       outputs_hash_cache := None, inpoints_hash_cache := None, sequences_hash_cache := None,
       segregated := None, total_input_cache := None, total_output_cache := None\<rparr>"

definition transaction_is_valid :: "transaction \<Rightarrow> bool" where
  "transaction_is_valid tx \<longleftrightarrow>
     tx_version tx \<noteq> 0 \<or> tx_locktime tx \<noteq> 0 \<or> tx_inputs tx \<noteq> [] \<or> tx_outputs tx \<noteq> []"

subsection \<open>Segregation\<close>

definition is_segregated :: "currency \<Rightarrow> transaction \<Rightarrow> bool" where
  "is_segregated cur tx =
     (if is_bch cur then False
      else case segregated tx of
             Some v \<Rightarrow> v
           | None \<Rightarrow> list_ex input_is_segregated (tx_inputs tx))"

definition strip_witness :: "transaction \<Rightarrow> transaction" where
  "strip_witness tx = tx\<lparr>segregated := Some False, tx_inputs := map strip_input_witness (tx_inputs tx)\<rparr>"

subsection \<open>Deserialization\<close>

definition witness_marker :: byte where "witness_marker = 0"
definition witness_flag :: byte where "witness_flag = 1"

text \<open>
  The template \<^verbatim>\<open>read\<close> for inputs and outputs.  The code also parses each script that was read, for
  its cache of operations; the model leaves that cache empty, and \<^verbatim>\<open>operations()\<close> parses again.
\<close>

definition read_puts :: "currency \<Rightarrow> 'a rd \<Rightarrow> 'a \<Rightarrow> 'a list rd" where
  "read_puts cur from_data dflt = do {
     count \<leftarrow> read_size_little_endian;
     if count > get_max_block_size cur then do { invalidate; State_Monad.return [] }
     else read_elements from_data dflt count
   }"

definition read_inputs :: "currency \<Rightarrow> bool \<Rightarrow> bool \<Rightarrow> tx_input list rd" where
  "read_inputs cur wire witness = read_puts cur (input_from_reader cur wire witness) input_reset"

definition read_outputs :: "currency \<Rightarrow> bool \<Rightarrow> tx_output list rd" where
  "read_outputs cur wire = read_puts cur (output_from_reader cur wire) output_default"

fun read_witnesses :: "currency \<Rightarrow> tx_input list \<Rightarrow> tx_input list rd" where
  "read_witnesses cur [] = State_Monad.return []"
| "read_witnesses cur (i # ins) = do {
     w \<leftarrow> witness_from_reader cur True;
     rest \<leftarrow> read_witnesses cur ins;
     State_Monad.return (i\<lparr>input_witness := w\<rparr> # rest)
   }"

definition read_marker :: "currency \<Rightarrow> tx_input list \<Rightarrow> bool rd" where
  "read_marker cur ins =
     (if is_bch cur \<or> length ins \<noteq> unat witness_marker then State_Monad.return False
      else do { b \<leftarrow> peek_byte; State_Monad.return (b = witness_flag) })"

definition transaction_from_wire :: "currency \<Rightarrow> bool \<Rightarrow> transaction rd" where
  "transaction_from_wire cur witness = do {
     v \<leftarrow> read_4_bytes_little_endian;
     ins \<leftarrow> read_inputs cur True witness;
     marker \<leftarrow> read_marker cur ins;
     (ins, outs) \<leftarrow>
       (if marker then do {
          skip 1;
          ins \<leftarrow> read_inputs cur True witness;
          outs \<leftarrow> read_outputs cur True;
          ins \<leftarrow> read_witnesses cur ins;
          State_Monad.return (ins, outs)
        } else do {
          outs \<leftarrow> read_outputs cur True;
          State_Monad.return (ins, outs)
        });
     locktime \<leftarrow> read_4_bytes_little_endian;
     State_Monad.return (transaction_of v locktime ins outs)
   }"

definition transaction_from_store :: "currency \<Rightarrow> bool \<Rightarrow> bool \<Rightarrow> transaction rd" where
  "transaction_from_store cur witness unconfirmed = do {
     outs \<leftarrow> read_outputs cur False;
     ins \<leftarrow> read_inputs cur False witness;
     locktime \<leftarrow> read_variable_little_endian;
     v \<leftarrow> read_variable_little_endian;
     _ \<leftarrow> (if unat locktime > max_uint32 \<or> unat v > max_uint32 then invalidate else State_Monad.return ());
     (let tx = transaction_of (ucast v) (ucast locktime) ins outs
      in if unconfirmed then do {
           n \<leftarrow> read_4_bytes_little_endian;
           f \<leftarrow> read_8_bytes_little_endian;
           standard \<leftarrow> read_byte;
           State_Monad.return (tx\<lparr>cached_sigops := n, cached_fees := f, cached_is_standard := (standard \<noteq> 0)\<rparr>)
         } else State_Monad.return tx)
   }"

definition transaction_from_reader :: "currency \<Rightarrow> bool \<Rightarrow> bool \<Rightarrow> bool \<Rightarrow> transaction rd" where
  "transaction_from_reader cur wire witness unconfirmed =
     (let witness = (if is_bch cur then False else witness) in
      do {
        tx \<leftarrow> (if wire then transaction_from_wire cur witness
              else transaction_from_store cur witness unconfirmed);
        ok \<leftarrow> source_valid;
        (let tx = (if witness then tx else strip_witness tx)
         in State_Monad.return (if ok then tx else transaction_reset tx))
      })"

subsection \<open>Serialization\<close>

definition write_inputs :: "currency \<Rightarrow> bool \<Rightarrow> bool \<Rightarrow> tx_input list \<Rightarrow> data_chunk" where
  "write_inputs cur wire witness ins =
     write_variable_little_endian (of_nat (length ins)) @ concat (map (input_to_data cur wire witness) ins)"

definition write_outputs :: "tx_output list \<Rightarrow> data_chunk" where
  "write_outputs outs =
     write_variable_little_endian (of_nat (length outs)) @ concat (map output_to_wire outs)"

definition write_witnesses :: "tx_input list \<Rightarrow> data_chunk" where
  "write_witnesses ins = concat (map (\<lambda>i. witness_to_data True (input_witness i)) ins)"

definition transaction_to_wire :: "currency \<Rightarrow> bool \<Rightarrow> transaction \<Rightarrow> data_chunk" where
  "transaction_to_wire cur witness tx =
     (let witness = ((if is_bch cur then False else witness) \<and> is_segregated cur tx) in
      write_4_bytes_little_endian (tx_version tx) @
      (if witness then
         write_byte witness_marker @ write_byte witness_flag @
         write_inputs cur True witness (tx_inputs tx) @ write_outputs (tx_outputs tx) @
         write_witnesses (tx_inputs tx)
       else
         write_inputs cur True witness (tx_inputs tx) @ write_outputs (tx_outputs tx)) @
      write_4_bytes_little_endian (tx_locktime tx))"

definition transaction_serialized_size :: "currency \<Rightarrow> bool \<Rightarrow> bool \<Rightarrow> bool \<Rightarrow> transaction \<Rightarrow> nat" where
  "transaction_serialized_size cur wire witness unconfirmed tx =
     (let witness = ((if is_bch cur then False else witness) \<and> is_segregated cur tx) in
      (if wire \<and> witness then 1 else 0) + (if wire \<and> witness then 1 else 0) +
      (if wire then 4 else variable_uint_size (ucast (tx_version tx))) +
      (if wire then 4 else variable_uint_size (ucast (tx_locktime tx))) +
      variable_uint_size (of_nat (length (tx_inputs tx))) +
      variable_uint_size (of_nat (length (tx_outputs tx))) +
      foldl (\<lambda>sum i. sum + input_serialized_size cur wire witness i) 0 (tx_inputs tx) +
      foldl (\<lambda>sum out. sum + output_serialized_size wire out) 0 (tx_outputs tx) +
      (if \<not> wire \<and> unconfirmed then 4 + 8 + 1 else 0))"

subsection \<open>Setters\<close>

text \<open>The overloads that copy their argument, and those that move it.\<close>

definition tx_set_version :: "transaction \<Rightarrow> uint32 \<Rightarrow> transaction" where
  "tx_set_version tx v = invalidate_tx_cache (tx\<lparr>tx_version := v\<rparr>)"

definition tx_set_locktime :: "transaction \<Rightarrow> uint32 \<Rightarrow> transaction" where
  "tx_set_locktime tx v = invalidate_tx_cache (tx\<lparr>tx_locktime := v\<rparr>)"

definition tx_set_inputs :: "transaction \<Rightarrow> tx_input list \<Rightarrow> transaction" where
  "tx_set_inputs tx ins =
     (invalidate_tx_cache (tx\<lparr>tx_inputs := ins\<rparr>))
       \<lparr>inpoints_hash_cache := None, sequences_hash_cache := None, segregated := None, total_input_cache := None\<rparr>"

definition tx_set_inputs_move :: "transaction \<Rightarrow> tx_input list \<Rightarrow> transaction" where
  "tx_set_inputs_move tx ins =
     (invalidate_tx_cache (tx\<lparr>tx_inputs := ins\<rparr>))\<lparr>segregated := None, total_input_cache := None\<rparr>"

definition tx_set_outputs :: "transaction \<Rightarrow> tx_output list \<Rightarrow> transaction" where
  "tx_set_outputs tx outs =
     (invalidate_tx_cache (tx\<lparr>tx_outputs := outs\<rparr>))\<lparr>outputs_hash_cache := None, total_output_cache := None\<rparr>"

definition tx_set_outputs_move :: "transaction \<Rightarrow> tx_output list \<Rightarrow> transaction" where
  "tx_set_outputs_move tx outs =
     (invalidate_tx_cache (tx\<lparr>tx_outputs := outs\<rparr>))\<lparr>total_output_cache := None\<rparr>"

subsection \<open>Tests on inputs\<close>

definition is_coinbase :: "transaction \<Rightarrow> bool" where
  "is_coinbase tx \<longleftrightarrow>
     length (tx_inputs tx) = 1 \<and> point_is_null (op_point (previous_output (hd (tx_inputs tx))))"

definition min_coinbase_size :: nat where "min_coinbase_size = 2"
definition max_coinbase_size :: nat where "max_coinbase_size = 100"

definition is_oversized_coinbase :: "transaction \<Rightarrow> bool" where
  "is_oversized_coinbase tx =
     (if \<not> is_coinbase tx then False
      else
        let script_size = script_serialized_size (input_script (hd (tx_inputs tx))) False
        in script_size < min_coinbase_size \<or> script_size > max_coinbase_size)"

definition is_null_non_coinbase :: "transaction \<Rightarrow> bool" where
  "is_null_non_coinbase tx =
     (if is_coinbase tx then False
      else list_ex (\<lambda>i. point_is_null (op_point (previous_output i))) (tx_inputs tx))"

definition all_inputs_final :: "transaction \<Rightarrow> bool" where
  "all_inputs_final tx \<longleftrightarrow> list_all input_is_final (tx_inputs tx)"

text \<open>\<^verbatim>\<open>is_final\<close>; \<open>None\<close> is the exception of \<^verbatim>\<open>safe_unsigned\<close> for a height above 32 bits.\<close>

definition is_final :: "transaction \<Rightarrow> uint64 \<Rightarrow> uint32 \<Rightarrow> bool option" where
  "is_final tx block_height block_time =
     (if tx_locktime tx = 0 then Some True
      else do {
        max_locktime \<leftarrow> (if unat (tx_locktime tx) < locktime_threshold then safe_unsigned32 block_height
                        else Some block_time);
        Some (tx_locktime tx < max_locktime \<or> all_inputs_final tx)
      })"

definition is_locked :: "transaction \<Rightarrow> uint64 \<Rightarrow> uint32 \<Rightarrow> bool" where
  "is_locked tx block_height mtp =
     (if unat (tx_version tx) < relative_locktime_min_version \<or> is_coinbase tx then False
      else list_ex (input_is_locked block_height mtp) (tx_inputs tx))"

definition is_locktime_conflict :: "transaction \<Rightarrow> bool" where
  "is_locktime_conflict tx \<longleftrightarrow> tx_locktime tx \<noteq> 0 \<and> all_inputs_final tx"

subsection \<open>Values\<close>

definition prevout_of :: "tx_input \<Rightarrow> tx_output" where
  "prevout_of i = prevout_cache (op_validation (previous_output i))"

definition sum_input_value :: "tx_input list \<Rightarrow> uint64" where
  "sum_input_value ins =
     foldl (\<lambda>sum i. ceiling_add sum (if \<not> output_is_valid (prevout_of i) then 0 else output_value (prevout_of i)))
       0 ins"

definition sum_output_value :: "tx_output list \<Rightarrow> uint64" where
  "sum_output_value outs = foldl (\<lambda>sum out. ceiling_add sum (output_value out)) 0 outs"

definition total_input_value :: "transaction \<Rightarrow> uint64" where
  "total_input_value tx =
     (case total_input_cache tx of Some v \<Rightarrow> v | None \<Rightarrow> sum_input_value (tx_inputs tx))"

definition total_output_value :: "transaction \<Rightarrow> uint64" where
  "total_output_value tx =
     (case total_output_cache tx of Some v \<Rightarrow> v | None \<Rightarrow> sum_output_value (tx_outputs tx))"

definition fees :: "transaction \<Rightarrow> uint64" where
  "fees tx = floor_subtract (total_input_value tx) (total_output_value tx)"

definition is_overspent :: "transaction \<Rightarrow> bool" where
  "is_overspent tx \<longleftrightarrow> \<not> is_coinbase tx \<and> total_output_value tx > total_input_value tx"

subsection \<open>Signature operations\<close>

text \<open>Each of the two sums saturates; their addition is unsigned.\<close>

definition transaction_signature_operations_with :: "currency \<Rightarrow> bool \<Rightarrow> bool \<Rightarrow> transaction \<Rightarrow> uint64" where
  "transaction_signature_operations_with cur bip16 bip141 tx =
     (let bip141 = (if is_bch cur then False else bip141) in
      foldl (\<lambda>sum i. ceiling_add sum (of_nat (input_signature_operations cur bip16 bip141 i))) 0 (tx_inputs tx) +
      foldl (\<lambda>sum out. ceiling_add sum (of_nat (output_signature_operations cur bip141 out))) 0 (tx_outputs tx))"

definition transaction_signature_operations :: "currency \<Rightarrow> transaction \<Rightarrow> uint64" where
  "transaction_signature_operations cur tx =
     (case validation_state tx of
        None \<Rightarrow> of_nat max_size_t
      | Some st \<Rightarrow> transaction_signature_operations_with cur (chain_is_enabled st bip16_rule)
          (\<not> is_bch cur \<and> chain_is_enabled st bip141_rule) tx)"

definition base_size_contribution :: nat where "base_size_contribution = 3"
definition total_size_contribution :: nat where "total_size_contribution = 1"

definition weight :: "currency \<Rightarrow> transaction \<Rightarrow> nat" where
  "weight cur tx =
     base_size_contribution * transaction_serialized_size cur True False False tx +
     total_size_contribution * transaction_serialized_size cur True True False tx"

definition transaction_is_standard :: "currency \<Rightarrow> transaction \<Rightarrow> bool" where
  "transaction_is_standard cur tx \<longleftrightarrow>
     list_all (\<lambda>i. pattern_of (script_operations cur (input_script i)) \<noteq> non_standard) (tx_inputs tx) \<and>
     list_all (\<lambda>out. pattern_of (script_operations cur (output_script out)) \<noteq> non_standard) (tx_outputs tx)"

definition transaction_to_store :: "currency \<Rightarrow> bool \<Rightarrow> bool \<Rightarrow> transaction \<Rightarrow> data_chunk option" where
  "transaction_to_store cur witness unconfirmed tx = do {
     outs \<leftarrow> those (map output_to_store (tx_outputs tx));
     Some (write_variable_little_endian (of_nat (length (tx_outputs tx))) @ concat outs @
       write_inputs cur False (if is_bch cur then False else witness) (tx_inputs tx) @
       write_variable_little_endian (ucast (tx_locktime tx)) @
       write_variable_little_endian (ucast (tx_version tx)) @
       (if unconfirmed then
          write_4_bytes_little_endian (ucast (transaction_signature_operations cur tx)) @
          write_8_bytes_little_endian (fees tx) @
          write_byte (if transaction_is_standard cur tx then 1 else 0)
        else []))
   }"

subsection \<open>Previous outputs\<close>

definition is_missing :: "tx_input \<Rightarrow> bool" where
  "is_missing i \<longleftrightarrow> \<not> output_is_valid (prevout_of i) \<and> \<not> point_is_null (op_point (previous_output i))"

definition is_missing_previous_outputs :: "transaction \<Rightarrow> bool" where
  "is_missing_previous_outputs tx \<longleftrightarrow> list_ex is_missing (tx_inputs tx)"

definition previous_outputs :: "transaction \<Rightarrow> point list" where
  "previous_outputs tx = map (\<lambda>i. op_point (previous_output i)) (tx_inputs tx)"

definition missing_previous_outputs :: "transaction \<Rightarrow> point list" where
  "missing_previous_outputs tx = map (\<lambda>i. op_point (previous_output i)) (filter is_missing (tx_inputs tx))"

text \<open>
  The lambda of \<^verbatim>\<open>missing_previous_transactions\<close> captures the list and returns the hash of a
  point; \<^verbatim>\<open>for_each\<close> drops the value, so nothing is appended.
\<close>

definition missing_previous_transactions :: "transaction \<Rightarrow> hash_digest list" where
  "missing_previous_transactions tx =
     remdups (foldl (\<lambda>hashes p. (let returned = point_hash p in hashes)) [] (missing_previous_outputs tx))"

fun insert_point :: "point \<Rightarrow> point list \<Rightarrow> point list" where
  "insert_point p [] = [p]"
| "insert_point p (q # qs) = (if point_less q p then q # insert_point p qs else p # q # qs)"

definition sort_points :: "point list \<Rightarrow> point list" where
  "sort_points ps = foldr insert_point ps []"

text \<open>\<^verbatim>\<open>std::unique\<close> reaches the end exactly when no two neighbours are equal.\<close>

fun no_adjacent_equal :: "point list \<Rightarrow> bool" where
  "no_adjacent_equal (p # q # ps) \<longleftrightarrow> \<not> point_equal p q \<and> no_adjacent_equal (q # ps)"
| "no_adjacent_equal _ = True"

definition is_internal_double_spend :: "transaction \<Rightarrow> bool" where
  "is_internal_double_spend tx \<longleftrightarrow> \<not> no_adjacent_equal (sort_points (previous_outputs tx))"

definition is_double_spend :: "transaction \<Rightarrow> bool \<Rightarrow> bool" where
  "is_double_spend tx include_unconfirmed \<longleftrightarrow>
     list_ex (\<lambda>i. spent (op_validation (previous_output i)) \<and>
       (include_unconfirmed \<or> confirmed (op_validation (previous_output i)))) (tx_inputs tx)"

definition is_dusty :: "currency \<Rightarrow> transaction \<Rightarrow> uint64 \<Rightarrow> bool" where
  "is_dusty cur tx minimum_output_value \<longleftrightarrow> list_ex (is_dust cur minimum_output_value) (tx_outputs tx)"

definition transaction_is_mature :: "transaction \<Rightarrow> uint64 \<Rightarrow> bool" where
  "transaction_is_mature tx h \<longleftrightarrow> list_all (\<lambda>i. is_mature (previous_output i) h) (tx_inputs tx)"

subsection \<open>Validation\<close>

definition max_sigops_factor :: nat where "max_sigops_factor = 50"
definition get_max_block_sigops :: "currency \<Rightarrow> nat" where
  "get_max_block_sigops cur = get_max_block_size cur div max_sigops_factor"
definition max_fast_sigops :: "currency \<Rightarrow> nat" where
  "max_fast_sigops cur = fast_sigops_factor * get_max_block_sigops cur"
definition min_transaction_size :: nat where "min_transaction_size = 100"

definition transaction_check :: "currency \<Rightarrow> bool \<Rightarrow> bool \<Rightarrow> transaction \<Rightarrow> code" where
  "transaction_check cur transaction_pool retarget tx =
     (if tx_inputs tx = [] \<or> tx_outputs tx = [] then error_empty_transaction
      else if is_null_non_coinbase tx then error_previous_output_null
      else if total_output_value tx > max_money cur retarget then error_spend_overflow
      else if \<not> transaction_pool \<and> is_oversized_coinbase tx then error_invalid_coinbase_script_size
      else if transaction_pool \<and> is_coinbase tx then error_coinbase_transaction
      else if transaction_pool \<and> is_internal_double_spend tx then error_transaction_internal_double_spend
      else if transaction_pool \<and>
          transaction_serialized_size cur True False False tx \<ge> get_max_block_size cur
        then error_transaction_size_limit
      else error_success)"

text \<open>\<open>None\<close> is the exception \<open>is_final\<close> may throw.\<close>

definition transaction_accept :: "currency \<Rightarrow> chain_state \<Rightarrow> bool \<Rightarrow> transaction \<Rightarrow> code option" where
  "transaction_accept cur st transaction_pool tx =
     (let bip16 = chain_is_enabled st bip16_rule;
          bip30 = chain_is_enabled st bip30_rule;
          bip68 = chain_is_enabled st bip68_rule;
          bip141 = (\<not> is_bch cur \<and> chain_is_enabled st bip141_rule);
          revert_bip30 = chain_is_enabled st allow_collisions_rule;
          max_sigops = (if bip141 then max_fast_sigops cur else get_max_block_sigops cur);
          h = of_nat (height (state_data st));
          mtp = state_median_time_past st
      in if transaction_pool \<and> is_under_checkpoint st then Some error_premature_validation
         else if is_bch cur \<and> is_magnetic_anomaly_enabled st \<and>
             transaction_serialized_size cur True False False tx < min_transaction_size
           then Some error_transaction_size_limit
         else if \<not> bip141 \<and> is_segregated cur tx then Some error_empty_transaction
         else do {
           final \<leftarrow> (if transaction_pool then is_final tx h mtp else Some True);
           Some (if \<not> final then error_transaction_non_final
             else if bip30 \<and> \<not> revert_bip30 \<and> validation_duplicate tx then error_unspent_duplicate
             else if is_missing_previous_outputs tx then error_missing_previous_output
             else if is_double_spend tx transaction_pool then error_double_spend
             else if \<not> transaction_is_mature tx h then error_coinbase_maturity
             else if is_overspent tx then error_spend_exceeds_value
             else if bip68 \<and> is_locked tx h mtp then error_sequence_locked
             else if transaction_pool \<and>
                 unat (transaction_signature_operations_with cur bip16 bip141 tx) > max_sigops
               then error_transaction_embedded_sigop_limit
             else if transaction_pool \<and> bip141 \<and> weight cur tx > max_block_weight cur
               then error_transaction_weight_limit
             else error_success)
         })"

definition transaction_accept_validated :: "currency \<Rightarrow> bool \<Rightarrow> transaction \<Rightarrow> code option" where
  "transaction_accept_validated cur transaction_pool tx =
     (case validation_state tx of
        Some st \<Rightarrow> transaction_accept cur st transaction_pool tx
      | None \<Rightarrow> Some error_operation_failed)"

subsection \<open>Hashes\<close>

definition transaction_hash :: "currency \<Rightarrow> hash_functions \<Rightarrow> bool \<Rightarrow> transaction \<Rightarrow> hash_digest" where
  "transaction_hash cur H witness tx =
     (let witness = ((if is_bch cur then False else witness) \<and> is_segregated cur tx) in
      if witness then
        (case witness_hash_cache tx of
           Some hash \<Rightarrow> hash
         | None \<Rightarrow> if is_coinbase tx then null_hash else bitcoin_hash H (transaction_to_wire cur True tx))
      else
        (case tx_hash_cache tx of
           Some hash \<Rightarrow> hash
         | None \<Rightarrow> bitcoin_hash H (transaction_to_wire cur False tx)))"

definition to_outputs :: "hash_functions \<Rightarrow> transaction \<Rightarrow> hash_digest" where
  "to_outputs H tx = bitcoin_hash H (concat (map output_to_wire (tx_outputs tx)))"

definition to_inpoints :: "hash_functions \<Rightarrow> transaction \<Rightarrow> hash_digest" where
  "to_inpoints H tx =
     bitcoin_hash H (concat (map (\<lambda>i. point_to_data True (op_point (previous_output i))) (tx_inputs tx)))"

definition to_sequences :: "hash_functions \<Rightarrow> transaction \<Rightarrow> hash_digest" where
  "to_sequences H tx =
     bitcoin_hash H (concat (map (\<lambda>i. write_4_bytes_little_endian (sequence i)) (tx_inputs tx)))"

definition outputs_hash :: "hash_functions \<Rightarrow> transaction \<Rightarrow> hash_digest" where
  "outputs_hash H tx = (case outputs_hash_cache tx of Some hash \<Rightarrow> hash | None \<Rightarrow> to_outputs H tx)"
definition inpoints_hash :: "hash_functions \<Rightarrow> transaction \<Rightarrow> hash_digest" where
  "inpoints_hash H tx = (case inpoints_hash_cache tx of Some hash \<Rightarrow> hash | None \<Rightarrow> to_inpoints H tx)"
definition sequences_hash :: "hash_functions \<Rightarrow> transaction \<Rightarrow> hash_digest" where
  "sequences_hash H tx = (case sequences_hash_cache tx of Some hash \<Rightarrow> hash | None \<Rightarrow> to_sequences H tx)"

text \<open>The transaction after the three signature hash components were read.\<close>

definition fill_signature_caches :: "hash_functions \<Rightarrow> transaction \<Rightarrow> transaction" where
  "fill_signature_caches H tx =
     tx\<lparr>outputs_hash_cache := Some (outputs_hash H tx), inpoints_hash_cache := Some (inpoints_hash H tx),
        sequences_hash_cache := Some (sequences_hash H tx)\<rparr>"

text \<open>The transaction after \<^verbatim>\<open>hash(witness)\<close> and after the two totals were read.\<close>

definition tx_fill_hash :: "currency \<Rightarrow> hash_functions \<Rightarrow> bool \<Rightarrow> transaction \<Rightarrow> transaction" where
  "tx_fill_hash cur H witness tx =
     (if (if is_bch cur then False else witness) \<and> is_segregated cur tx
      then tx\<lparr>witness_hash_cache := Some (transaction_hash cur H witness tx)\<rparr>
      else tx\<lparr>tx_hash_cache := Some (transaction_hash cur H witness tx)\<rparr>)"

definition recompute_hash :: "currency \<Rightarrow> hash_functions \<Rightarrow> transaction \<Rightarrow> transaction" where
  "recompute_hash cur H tx = tx_fill_hash cur H False (tx\<lparr>tx_hash_cache := None\<rparr>)"

definition tx_fill_totals :: "transaction \<Rightarrow> transaction" where
  "tx_fill_totals tx =
     tx\<lparr>total_input_cache := Some (total_input_value tx), total_output_cache := Some (total_output_value tx)\<rparr>"

subsection \<open>Wire round trip\<close>

text \<open>
  A transaction as it comes off the wire: no caches, inputs and outputs within the size
  guards, witnesses either all absent or all read; without inputs the output count must not
  look like the witness flag.
\<close>

definition transaction_wf :: "currency \<Rightarrow> transaction \<Rightarrow> bool" where
  "transaction_wf cur tx \<longleftrightarrow>
     tx = (transaction_of (tx_version tx) (tx_locktime tx) (tx_inputs tx) (tx_outputs tx))
       \<lparr>segregated := (if is_bch cur then Some False else None)\<rparr> \<and>
     length (tx_inputs tx) \<le> get_max_block_size cur \<and> length (tx_outputs tx) \<le> get_max_block_size cur \<and>
     list_all (input_base_wf cur True) (tx_inputs tx) \<and>
     list_all (\<lambda>out. output_wf cur out \<and> spender_height out = output_not_spent) (tx_outputs tx) \<and>
     (if is_segregated cur tx then list_all (\<lambda>i. witness_wf cur (input_witness i)) (tx_inputs tx)
      else list_all (\<lambda>i. input_witness i = witness_reset) (tx_inputs tx)) \<and>
     (tx_inputs tx = [] \<and> \<not> is_bch cur \<longrightarrow> length (tx_outputs tx) \<noteq> 1)"

lemma read_puts_ready:
  assumes "\<And>xs rest. list_all good_put xs \<Longrightarrow>
      run_state (read_elements m d (length xs)) (ready (concat (map wr xs) @ rest)) = (xs, ready rest)"
    and "list_all good_put xs" and "length xs \<le> get_max_block_size cur"
  shows "run_state (read_puts cur m d)
      (ready (write_variable_little_endian (of_nat (length xs)) @ concat (map wr xs) @ rest)) = (xs, ready rest)"
proof -
  have "length xs \<le> max_size_t" using assms(3) max_block_size_le_size_t [of cur] by simp
  then show ?thesis
    using assms(1) [OF assms(2)] assms(3) by (simp add: read_puts_def wire_simps)
qed

lemma strip_of_reset: "input_witness i = witness_reset \<Longrightarrow> strip_input_witness i = i"
  by (cases i) (simp add: strip_input_witness_def)

lemma input_wire_stripped: "input_to_data cur True witness (i\<lparr>input_witness := w\<rparr>) = input_to_data cur True witness i"
  by (simp add: input_to_data_def)

lemma read_inputs_ready:
  assumes "list_all (input_base_wf cur True) ins" and "length ins \<le> get_max_block_size cur"
  shows "run_state (read_inputs cur True witness) (ready (write_inputs cur True witness' ins @ rest)) =
    (map strip_input_witness ins, ready rest)"
proof -
  let ?ins = "map strip_input_witness ins"
  have "list_all (input_wf cur True witness) ?ins"
    using assms(1) by (auto simp: list_all_iff input_wf_def input_base_wf_def strip_input_witness_def)
  then have "run_state (read_inputs cur True witness)
      (ready (write_variable_little_endian (of_nat (length ?ins)) @
        concat (map (input_to_data cur True witness) ?ins) @ rest)) = (?ins, ready rest)"
    unfolding read_inputs_def using assms(2)
    by (intro read_puts_ready [where good_put = "input_wf cur True witness"]) (simp_all add: input_codec.elements)
  moreover have "map (input_to_data cur True witness) ?ins = map (input_to_data cur True witness') ins"
    by (simp add: input_to_data_def strip_input_witness_def)
  ultimately show ?thesis by (simp only: write_inputs_def append_assoc length_map)
qed

lemma read_outputs_ready:
  assumes "list_all (\<lambda>out. output_wf cur out \<and> spender_height out = output_not_spent) outs"
    and "length outs \<le> get_max_block_size cur"
  shows "run_state (read_outputs cur True) (ready (write_outputs outs @ rest)) = (outs, ready rest)"
  unfolding read_outputs_def write_outputs_def append_assoc
  by (rule read_puts_ready [where good_put = "\<lambda>out. output_wf cur out \<and> spender_height out = output_not_spent"])
    (use assms output_codec.elements in auto)

lemma read_witnesses_ready:
  "list_all (\<lambda>i. witness_wf cur (input_witness i)) ins \<Longrightarrow>
   run_state (read_witnesses cur (map strip_input_witness ins)) (ready (write_witnesses ins @ rest)) = (ins, ready rest)"
  by (induction ins) (simp_all add: write_witnesses_def witness_codec.read_write strip_input_witness_def)

lemma peek_byte_ready: "run_state peek_byte (ready (b # bs)) = (b, ready (b # bs))"
  by (simp add: peek_byte_def stream_peek_def good_def state.map_sel)

lemma varint_leading_byte:
  assumes "n \<noteq> 1" and "n \<le> max_size_t"
  shows "\<exists>b bs. write_variable_little_endian (of_nat n) = b # bs \<and> b \<noteq> witness_flag"
proof -
  have n: "unat (of_nat n :: uint64) = n"
    using assms(2) by (simp add: max_size_t_def unat_of_nat)
  have "(of_nat n :: uint64) < 253 \<Longrightarrow> unat (ucast (of_nat n :: uint64) :: byte) = n"
    using n by (simp add: word_less_nat_alt unat_ucast_mod)
  then have "(of_nat n :: uint64) < 253 \<Longrightarrow> ucast (of_nat n :: uint64) \<noteq> witness_flag"
    using assms(1) by (auto simp: witness_flag_def)
  then show ?thesis
    by (auto simp: write_variable_little_endian_def write_byte_def witness_flag_def)
qed

lemma read_marker_outputs:
  assumes "ins = [] \<and> \<not> is_bch cur \<longrightarrow> length outs \<noteq> 1" and "length outs \<le> get_max_block_size cur"
  shows "run_state (read_marker cur ins) (ready (write_outputs outs @ rest)) =
    (False, ready (write_outputs outs @ rest))"
proof (cases "is_bch cur \<or> ins \<noteq> []")
  case True
  then show ?thesis by (auto simp: read_marker_def witness_marker_def)
next
  case False
  then have "length outs \<noteq> 1" using assms(1) by simp
  then obtain b bs where "write_variable_little_endian (of_nat (length outs)) = b # bs" "b \<noteq> witness_flag"
    using varint_leading_byte [of "length outs"] assms(2) max_block_size_le_size_t [of cur] by auto
  then show ?thesis using False
    by (simp add: read_marker_def witness_marker_def write_outputs_def peek_byte_ready)
qed

lemma write_no_inputs: "write_inputs cur True witness [] = write_byte witness_marker"
  by (simp add: write_inputs_def write_variable_little_endian_def write_byte_def witness_marker_def)

lemma from_wire_segregated:
  assumes "is_segregated cur tx" and "transaction_wf cur tx"
  shows "run_state (transaction_from_wire cur True) (ready (transaction_to_wire cur True tx @ rest)) =
    (transaction_of (tx_version tx) (tx_locktime tx) (tx_inputs tx) (tx_outputs tx), ready rest)"
proof -
  have btc: "\<not> is_bch cur" using assms(1) by (auto simp: is_segregated_def split: if_splits)
  note good = assms(2) [unfolded transaction_wf_def]
  have marker: "run_state (read_inputs cur True True) (ready (write_byte witness_marker @ more)) = ([], ready more)"
    for more using read_inputs_ready [of cur "[]" True True more] by (simp add: write_no_inputs)
  have peek: "run_state (read_marker cur []) (ready (write_byte witness_flag @ more)) =
      (True, ready (write_byte witness_flag @ more))" for more
    using btc by (simp add: read_marker_def witness_marker_def write_byte_def peek_byte_ready)
  have skip: "run_state (skip (Suc 0)) (ready (write_byte witness_flag @ more)) = ((), ready more)" for more
    using run_read_bytes_ready [of "[witness_flag]" 1 more] by (simp add: skip_def write_byte_def)
  show ?thesis using good btc assms(1)
    by (simp add: transaction_from_wire_def transaction_to_wire_def marker peek skip read_inputs_ready
        read_outputs_ready read_witnesses_ready wire_simps)
qed

lemma from_wire_plain:
  assumes "\<not> is_segregated cur tx" and "transaction_wf cur tx"
  shows "run_state (transaction_from_wire cur witness) (ready (transaction_to_wire cur True tx @ rest)) =
    (transaction_of (tx_version tx) (tx_locktime tx) (tx_inputs tx) (tx_outputs tx), ready rest)"
proof -
  note good = assms(2) [unfolded transaction_wf_def]
  have "map strip_input_witness (tx_inputs tx) = tx_inputs tx"
    using good assms(1) by (auto simp: list_all_iff strip_of_reset intro!: map_idI)
  then show ?thesis using good assms(1)
    by (simp add: transaction_from_wire_def transaction_to_wire_def read_inputs_ready
        read_outputs_ready read_marker_outputs wire_simps)
qed

interpretation transaction_codec:
  codec "transaction_to_wire cur True" "transaction_from_reader cur True True unconfirmed" "transaction_wf cur"
  for cur unconfirmed
proof unfold_locales
  fix tx rest
  assume good: "transaction_wf cur tx"
  then have shape: "tx = (transaction_of (tx_version tx) (tx_locktime tx) (tx_inputs tx) (tx_outputs tx))
      \<lparr>segregated := (if is_bch cur then Some False else None)\<rparr>"
    by (simp add: transaction_wf_def)
  let ?tx = "transaction_of (tx_version tx) (tx_locktime tx) (tx_inputs tx) (tx_outputs tx)"
  have "run_state (transaction_from_wire cur (\<not> is_bch cur)) (ready (transaction_to_wire cur True tx @ rest)) =
      (?tx, ready rest)"
    using from_wire_segregated [OF _ good] from_wire_plain [OF _ good]
    by (cases "is_segregated cur tx") (auto simp: is_segregated_def split: if_splits)
  moreover have "(if is_bch cur then strip_witness ?tx else ?tx) = tx"
  proof (cases "is_bch cur")
    case True
    then have "map strip_input_witness (tx_inputs tx) = tx_inputs tx"
      using good by (auto simp: transaction_wf_def is_segregated_def list_all_iff strip_of_reset intro!: map_idI)
    then show ?thesis using True
      by (subst (5) shape) (simp add: strip_witness_def transaction_of_def)
  next
    case False
    then show ?thesis by (subst (5) shape) (simp add: transaction_of_def)
  qed
  ultimately show "run_state (transaction_from_reader cur True True unconfirmed)
      (ready (transaction_to_wire cur True tx @ rest)) = (tx, ready rest)"
    by (auto simp: transaction_from_reader_def wire_simps Let_def)
qed

lemma foldl_add_sum: "foldl (\<lambda>acc x. acc + f x) a xs = a + sum_list (map f xs)" for f :: "'a \<Rightarrow> nat"
  by (induction xs arbitrary: a) simp_all

lemma input_wire_size:
  assumes "length (point_hash (op_point (previous_output i))) = 32"
  shows "input_serialized_size cur True witness i =
    length (input_to_data cur True witness i) +
    (if input_witness_flag cur True witness then length (witness_to_data True (input_witness i)) else 0)"
  using assms by (simp add: input_to_data_def input_serialized_size_def length_simps Let_def)

lemma sum_list_size_split:
  "(\<And>x. x \<in> set xs \<Longrightarrow> f x = g x + (if b then h x else 0)) \<Longrightarrow>
   sum_list (map f xs) = sum_list (map g xs) + (if b then sum_list (map h xs) else 0)"
  for f g h :: "'a \<Rightarrow> nat"
  by (induction xs) auto

lemma length_transaction_to_wire [length_simps]:
  assumes "list_all (\<lambda>i. length (point_hash (op_point (previous_output i))) = 32) (tx_inputs tx)"
  shows "length (transaction_to_wire cur witness tx) =
    transaction_serialized_size cur True witness unconfirmed tx"
proof -
  let ?w = "(if is_bch cur then False else witness) \<and> is_segregated cur tx"
  have flag: "input_witness_flag cur True ?w = ?w" by (auto simp: input_witness_flag_def)
  have ins: "sum_list (map (input_serialized_size cur True ?w) (tx_inputs tx)) =
      sum_list (map (\<lambda>i. length (input_to_data cur True ?w i)) (tx_inputs tx)) +
      (if ?w then sum_list (map (\<lambda>i. length (witness_to_data True (input_witness i))) (tx_inputs tx)) else 0)"
    using assms flag by (intro sum_list_size_split) (simp add: input_wire_size list_all_iff)
  show ?thesis
    unfolding transaction_serialized_size_def Let_def foldl_add_sum ins
    by (simp add: transaction_to_wire_def Let_def write_inputs_def write_outputs_def write_witnesses_def
        write_byte_def length_simps length_concat comp_def)
qed

subsection \<open>Values\<close>

abbreviation input_amount :: "tx_input \<Rightarrow> nat" where
  "input_amount i \<equiv> unat (if \<not> output_is_valid (prevout_of i) then 0 else output_value (prevout_of i))"

lemma foldl_ceiling_add:
  "unat (foldl (\<lambda>sum x. ceiling_add sum (f x)) a xs) =
   min (unat a + sum_list (map (\<lambda>x. unat (f x)) xs)) (2 ^ 64 - 1)"
  for a :: uint64
proof (induction xs arbitrary: a)
  case Nil
  have "unat a < 2 ^ 64" by (rule order.strict_trans2 [OF unsigned_less]) simp
  then show ?case by simp
next
  case (Cons x xs)
  then show ?case by (simp add: unat_ceiling_add)
qed

lemma sum_values:
  "unat (sum_input_value ins) = min (sum_list (map input_amount ins)) (2 ^ 64 - 1)"
  "unat (sum_output_value outs) = min (sum_list (map (\<lambda>out. unat (output_value out)) outs)) (2 ^ 64 - 1)"
  unfolding sum_input_value_def sum_output_value_def foldl_ceiling_add by simp_all

lemma max_money_below_limit: "unat (max_money cur retarget) < 2 ^ 64 - 1"
  by (simp add: max_money_def recursive_money_def subsidy_interval_def retarget_subsidy_interval_def
      no_retarget_subsidy_interval_def)

subsection \<open>Double spends within a transaction\<close>

abbreviation point_key :: "point \<Rightarrow> hash_digest \<times> uint32" where
  "point_key p \<equiv> (point_hash p, point_index p)"

abbreviation points_sorted :: "point list \<Rightarrow> bool" where
  "points_sorted \<equiv> sorted_wrt (\<lambda>p q. \<not> point_less q p)"

lemma point_equal_key: "point_equal p q \<longleftrightarrow> point_key p = point_key q"
  by (simp add: point_equal_def)

lemma point_not_less_transitive: "\<not> point_less b a \<Longrightarrow> \<not> point_less c b \<Longrightarrow> \<not> point_less c a"
  using point_less_total [of a b] point_less_transitive [of c a b] by (auto simp: point_less_def point_equal_def)

lemma mset_insert_point: "mset (insert_point p qs) = add_mset p (mset qs)"
  by (induction qs) auto

lemma mset_sort_points: "mset (sort_points ps) = mset ps"
  by (induction ps) (simp_all add: sort_points_def mset_insert_point)

lemma set_insert_point: "set (insert_point p qs) = insert p (set qs)"
  using mset_insert_point by (metis set_mset_mset set_mset_add_mset_insert)

lemma sorted_insert_point: "points_sorted qs \<Longrightarrow> points_sorted (insert_point p qs)"
proof (induction qs)
  case (Cons q qs)
  show ?case
  proof (cases "point_less q p")
    case True
    then have "\<not> point_less p q" using point_less_transitive point_less_irreflexive by blast
    then show ?thesis using Cons True by (auto simp: set_insert_point)
  next
    case False
    then show ?thesis using Cons point_not_less_transitive by auto
  qed
qed simp

lemma sorted_sort_points: "points_sorted (sort_points ps)"
  by (induction ps) (simp_all add: sort_points_def sorted_insert_point)

lemma no_adjacent_equal_sorted:
  "points_sorted ps \<Longrightarrow> no_adjacent_equal ps \<longleftrightarrow> distinct (map point_key ps)"
proof (induction ps rule: no_adjacent_equal.induct)
  case (1 p q ps)
  have "point_key p \<notin> point_key ` set (q # ps)" if "\<not> point_equal p q"
  proof -
    have less: "point_less p q" using 1(2) that point_less_total [of p q] by simp
    have "\<not> point_equal p r" if "r \<in> set (q # ps)" for r
    proof
      assume "point_equal p r"
      then have "point_less r q" using less by (auto simp: point_less_def point_equal_def)
      then show False using 1(2) that point_less_irreflexive by auto
    qed
    then show ?thesis by (auto simp: point_equal_key)
  qed
  then show ?case using 1 by (auto simp: point_equal_key)
qed simp_all

lemma internal_double_spend_iff:
  "is_internal_double_spend tx \<longleftrightarrow> \<not> distinct (map point_key (previous_outputs tx))"
proof -
  have "mset (map point_key (sort_points ps)) = mset (map point_key ps)" for ps
    by (simp add: mset_sort_points)
  from mset_eq_imp_distinct_iff [OF this] show ?thesis
    by (simp add: is_internal_double_spend_def no_adjacent_equal_sorted sorted_sort_points)
qed

subsection \<open>Caches\<close>

text \<open>
  One call that changes a transaction: the setters that copy their argument, the queries that
  fill a cache, \<^verbatim>\<open>strip_witness\<close> and \<^verbatim>\<open>recompute_hash\<close>.
\<close>

inductive tx_step :: "currency \<Rightarrow> hash_functions \<Rightarrow> transaction \<Rightarrow> transaction \<Rightarrow> bool" for cur H where
  step_version: "tx_step cur H tx (tx_set_version tx v)"
| step_locktime: "tx_step cur H tx (tx_set_locktime tx v)"
| step_inputs: "tx_step cur H tx (tx_set_inputs tx ins)"
| step_outputs: "tx_step cur H tx (tx_set_outputs tx outs)"
| step_strip: "tx_step cur H tx (strip_witness tx)"
| step_hash: "tx_step cur H tx (tx_fill_hash cur H witness tx)"
| step_recompute: "tx_step cur H tx (recompute_hash cur H tx)"
| step_signature: "tx_step cur H tx (fill_signature_caches H tx)"
| step_totals: "tx_step cur H tx (tx_fill_totals tx)"

inductive tx_reachable :: "currency \<Rightarrow> hash_functions \<Rightarrow> transaction \<Rightarrow> bool" for cur H where
  constructed: "tx_reachable cur H (transaction_of v locktime ins outs)"
| stepped: "tx_reachable cur H tx \<Longrightarrow> tx_step cur H tx tx' \<Longrightarrow> tx_reachable cur H tx'"

definition holds :: "'a option \<Rightarrow> 'a \<Rightarrow> bool" where
  "holds cache v \<longleftrightarrow> cache = None \<or> cache = Some v"

definition witness_hash_value :: "currency \<Rightarrow> hash_functions \<Rightarrow> transaction \<Rightarrow> hash_digest" where
  "witness_hash_value cur H tx =
     (if is_coinbase tx then null_hash else bitcoin_hash H (transaction_to_wire cur True tx))"

definition tx_caches_current :: "currency \<Rightarrow> hash_functions \<Rightarrow> transaction \<Rightarrow> bool" where
  "tx_caches_current cur H tx \<longleftrightarrow>
     holds (tx_hash_cache tx) (bitcoin_hash H (transaction_to_wire cur False tx)) \<and>
     (is_segregated cur tx \<longrightarrow>
        holds (witness_hash_cache tx) (witness_hash_value cur H tx)) \<and>
     holds (outputs_hash_cache tx) (to_outputs H tx) \<and>
     holds (inpoints_hash_cache tx) (to_inpoints H tx) \<and>
     holds (sequences_hash_cache tx) (to_sequences H tx) \<and>
     holds (segregated tx) (list_ex input_is_segregated (tx_inputs tx)) \<and>
     holds (total_input_cache tx) (sum_input_value (tx_inputs tx)) \<and>
     holds (total_output_cache tx) (sum_output_value (tx_outputs tx))"

text \<open>
  The parts of it that the money rules and the merkle root rest on: no total and no hash is cached, or it is the one of
  the current contents.
\<close>

definition totals_current :: "transaction \<Rightarrow> bool" where
  "totals_current tx \<longleftrightarrow>
     holds (total_input_cache tx) (sum_input_value (tx_inputs tx)) \<and> holds (total_output_cache tx) (sum_output_value (tx_outputs tx))"

definition hash_current :: "currency \<Rightarrow> hash_functions \<Rightarrow> transaction \<Rightarrow> bool" where
  "hash_current cur H tx \<longleftrightarrow> holds (tx_hash_cache tx) (bitcoin_hash H (transaction_to_wire cur False tx))"

lemma holds_simps [simp]: "holds None v" "holds (Some w) v \<longleftrightarrow> w = v"
  by (simp_all add: holds_def)

lemma holds_read: "holds cache v \<Longrightarrow> (case cache of Some w \<Rightarrow> w | None \<Rightarrow> v) = v"
  by (auto simp: holds_def)

lemma to_wire_without_witness:
  "transaction_to_wire cur False tx =
   write_4_bytes_little_endian (tx_version tx) @ write_inputs cur True False (tx_inputs tx) @
   write_outputs (tx_outputs tx) @ write_4_bytes_little_endian (tx_locktime tx)"
  by (simp add: transaction_to_wire_def)

lemma write_inputs_strip:
  "write_inputs cur True witness (map strip_input_witness ins) = write_inputs cur True witness ins"
  by (simp add: write_inputs_def comp_def strip_input_witness_def input_wire_stripped)

lemma prevout_strip: "prevout_of (strip_input_witness i) = prevout_of i"
  by (simp add: prevout_of_def strip_input_witness_def)

lemma sum_input_strip: "sum_input_value (map strip_input_witness ins) = sum_input_value ins"
  by (simp add: sum_input_value_def foldl_map prevout_strip cong: if_cong)

text \<open>What a cache is compared with depends on the content only.\<close>

lemma same_content:
  assumes "tx_version tx' = tx_version tx" "tx_locktime tx' = tx_locktime tx" "tx_inputs tx' = tx_inputs tx"
    "tx_outputs tx' = tx_outputs tx" "segregated tx' = segregated tx"
  shows "is_segregated cur tx' = is_segregated cur tx" "witness_hash_value cur H tx' = witness_hash_value cur H tx"
    "transaction_to_wire cur witness tx' = transaction_to_wire cur witness tx"
    "to_outputs H tx' = to_outputs H tx" "to_inpoints H tx' = to_inpoints H tx"
    "to_sequences H tx' = to_sequences H tx"
proof -
  show seg: "is_segregated cur tx' = is_segregated cur tx" using assms by (simp add: is_segregated_def cong: option.case_cong)
  show wire: "transaction_to_wire cur witness tx' = transaction_to_wire cur witness tx" for witness
    using assms by (simp add: transaction_to_wire_def seg Let_def)
  show "witness_hash_value cur H tx' = witness_hash_value cur H tx"
    using assms by (simp add: witness_hash_value_def is_coinbase_def wire)
qed (use assms in \<open>simp_all add: to_outputs_def to_inpoints_def to_sequences_def\<close>)

lemmas cache_update_simps [simp] =
  same_content [where tx' = "tx\<lparr>tx_hash_cache := a\<rparr>" and tx = tx for tx a, simplified]
  same_content [where tx' = "tx\<lparr>witness_hash_cache := a\<rparr>" and tx = tx for tx a, simplified]
  same_content [where tx' = "tx\<lparr>outputs_hash_cache := a\<rparr>" and tx = tx for tx a, simplified]
  same_content [where tx' = "tx\<lparr>inpoints_hash_cache := a\<rparr>" and tx = tx for tx a, simplified]
  same_content [where tx' = "tx\<lparr>sequences_hash_cache := a\<rparr>" and tx = tx for tx a, simplified]
  same_content [where tx' = "tx\<lparr>total_input_cache := a\<rparr>" and tx = tx for tx a, simplified]
  same_content [where tx' = "tx\<lparr>total_output_cache := a\<rparr>" and tx = tx for tx a, simplified]

lemma strip_keeps_caches: "tx_caches_current cur H tx \<Longrightarrow> tx_caches_current cur H (strip_witness tx)"
  by (simp add: tx_caches_current_def to_wire_without_witness to_outputs_def to_inpoints_def to_sequences_def
      is_segregated_def strip_witness_def write_inputs_strip sum_input_strip comp_def
      strip_input_witness_def list_ex_iff input_is_segregated_def witness_reset_def)

lemma fill_hash_keeps_caches: "tx_caches_current cur H tx \<Longrightarrow> tx_caches_current cur H (tx_fill_hash cur H witness tx)"
  by (cases "is_segregated cur tx") (simp_all add: tx_caches_current_def tx_fill_hash_def transaction_hash_def
      holds_read flip: witness_hash_value_def)

lemma fill_signature_keeps_caches: "tx_caches_current cur H tx \<Longrightarrow> tx_caches_current cur H (fill_signature_caches H tx)"
  by (simp add: tx_caches_current_def fill_signature_caches_def outputs_hash_def inpoints_hash_def
      sequences_hash_def holds_read)

lemma fill_totals_keeps_caches: "tx_caches_current cur H tx \<Longrightarrow> tx_caches_current cur H (tx_fill_totals tx)"
  by (simp add: tx_caches_current_def tx_fill_totals_def total_input_value_def total_output_value_def holds_read)

lemma setters_keep_caches:
  assumes "tx_caches_current cur H tx"
  shows "tx_caches_current cur H (tx_set_version tx v)" "tx_caches_current cur H (tx_set_locktime tx v)"
    "tx_caches_current cur H (tx_set_inputs tx ins)" "tx_caches_current cur H (tx_set_outputs tx outs)"
    "tx_caches_current cur H (tx\<lparr>tx_hash_cache := None\<rparr>)"
  using assms
  by (simp_all add: tx_caches_current_def invalidate_tx_cache_def to_outputs_def to_inpoints_def to_sequences_def
     tx_set_version_def tx_set_locktime_def tx_set_inputs_def tx_set_outputs_def)

lemma tx_step_keeps_caches: "tx_step cur H tx tx' \<Longrightarrow> tx_caches_current cur H tx \<Longrightarrow> tx_caches_current cur H tx'"
  by (induction rule: tx_step.induct)
    (simp_all only: setters_keep_caches strip_keeps_caches fill_hash_keeps_caches recompute_hash_def
      fill_signature_keeps_caches fill_totals_keeps_caches)

lemma tx_reachable_caches_current: "tx_reachable cur H tx \<Longrightarrow> tx_caches_current cur H tx"
proof (induction rule: tx_reachable.induct)
  case (constructed v locktime ins outs)
  show ?case by (simp add: tx_caches_current_def transaction_of_def)
next
  case (stepped tx tx')
  then show ?case by (blast intro: tx_step_keeps_caches)
qed

text \<open>A transfer of 40 out of 50 satoshi, for concrete instances.\<close>

definition example_input :: tx_input where
  "example_input =
     input_of (output_point_of (point_of (replicate 32 7) 0))
       \<lparr>script_bytes = [0x51], script_cache = None, script_valid = True\<rparr> witness_reset max_input_sequence"

definition example_output :: tx_output where
  "example_output = output_of 40 \<lparr>script_bytes = [0x51], script_cache = None, script_valid = True\<rparr>"

definition example_transfer :: transaction where
  "example_transfer = transaction_of 1 0 [example_input] [example_output]"

definition example_funded :: transaction where
  "example_funded = transaction_of 1 0
     [example_input\<lparr>previous_output :=
        (previous_output example_input)\<lparr>op_validation := validation_default
          \<lparr>prevout_cache := output_of 50 script_reset, prevout_height := 1\<rparr>\<rparr>\<rparr>]
     [example_output]"

definition example_context :: chain_state where
  "example_context =
     \<lparr>state_data = example_data, state_forks = 0, state_checkpoints = [],
      state_active = \<lparr>active_forks = 0, minimum_version = 0\<rparr>, state_median_time_past = 0,
      state_work_required = 0, magnetic_anomaly_activation_time = 0, great_wall_activation_time = 0\<rparr>"

lemmas example_defs = example_input_def example_output_def example_transfer_def example_funded_def
  example_context_def input_of_def output_of_def output_point_of_def point_of_def transaction_of_def

lemma example_funded_facts:
  "tx_inputs example_funded \<noteq> []" "tx_outputs example_funded \<noteq> []" "\<not> is_coinbase example_funded"
  "total_output_value example_funded = 40" "total_input_value example_funded = 50"
  "\<not> is_null_non_coinbase example_funded" "\<not> is_segregated bitcoin example_funded"
  "\<not> is_missing_previous_outputs example_funded" "\<not> is_double_spend example_funded pool"
  "transaction_is_mature example_funded h" "\<not> chain_is_enabled example_context rule"
  by (simp_all add: example_defs is_coinbase_def is_null_non_coinbase_def point_is_null_def null_hash_def
      total_output_value_def total_input_value_def sum_input_value_def sum_output_value_def prevout_of_def
      output_is_valid_def output_not_found_def is_segregated_def is_bch_def input_is_segregated_def witness_reset_def
      is_missing_previous_outputs_def is_missing_def is_double_spend_def validation_default_def
      transaction_is_mature_def is_mature_def chain_is_enabled_def is_enabled_def ceiling_add_def)

subsection \<open>Properties\<close>

text \<open>
  C15. Reading back the wire form of a well-formed transaction (with or without witnesses,
  whatever follows it in the stream) gives the transaction and leaves the reader right
  behind it.
\<close>

theorem transaction_round_trip:
  assumes "transaction_wf cur tx"
  shows "run_state (transaction_from_reader cur True True unconfirmed) (ready (transaction_to_wire cur True tx @ rest))
    = (tx, ready rest)"
  using assms by (rule transaction_codec.read_write)

theorem transaction_round_trip_witness:
  "run_state (transaction_from_reader bitcoin True True False) (ready (transaction_to_wire bitcoin True example_transfer @ [7]))
    = (example_transfer, ready [7])"
  by (rule transaction_round_trip)
    (simp add: transaction_wf_def example_defs is_bch_def is_segregated_def input_base_wf_def point_wf_def
      script_wf_def output_wf_def get_max_block_size_def max_block_size_def input_is_segregated_def witness_reset_def)

text \<open>
  serialized_size announces exactly the number of bytes that to_data writes on the wire,
  with and without witness data.
\<close>

theorem transaction_size_exact:
  assumes "list_all (\<lambda>i. length (point_hash (op_point (previous_output i))) = 32) (tx_inputs tx)"
  shows "length (transaction_to_wire cur witness tx) = transaction_serialized_size cur True witness unconfirmed tx"
  using assms by (rule length_transaction_to_wire)

theorem transaction_size_exact_witness:
  "length (transaction_to_wire bitcoin True example_transfer) =
   transaction_serialized_size bitcoin True True False example_transfer"
  by (rule transaction_size_exact) (simp add: example_defs)

text \<open>
  is_internal_double_spend (sort, then look for equal neighbours) answers exactly
  whether two inputs spend the same output.
\<close>

theorem internal_double_spend_exact:
  "is_internal_double_spend tx \<longleftrightarrow>
   \<not> distinct (map (\<lambda>i. (point_hash (op_point (previous_output i)), point_index (op_point (previous_output i))))
       (tx_inputs tx))"
  by (simp add: internal_double_spend_iff previous_outputs_def comp_def)

subsection \<open>Stale caches\<close>

lemma tx_reachable_current: "tx_reachable cur H tx \<Longrightarrow> totals_current tx \<and> hash_current cur H tx"
  using tx_reachable_caches_current by (auto simp: tx_caches_current_def totals_current_def hash_current_def)

lemma totals_read:
  "totals_current tx \<Longrightarrow> total_output_value tx = sum_output_value (tx_outputs tx) \<and> total_input_value tx = sum_input_value (tx_inputs tx)"
  by (simp add: totals_current_def total_output_value_def total_input_value_def holds_read)

text \<open>
  A transaction that was read has nothing cached, so its caches are current, also after the previous outputs of its
  inputs were populated in place.
\<close>

lemma read_nothing_cached:
  "total_input_cache (fst (run_state (transaction_from_reader cur wire witness unconfirmed) r)) = None \<and>
   total_output_cache (fst (run_state (transaction_from_reader cur wire witness unconfirmed) r)) = None \<and>
   tx_hash_cache (fst (run_state (transaction_from_reader cur wire witness unconfirmed) r)) = None"
  by (simp add: transaction_from_reader_def transaction_from_wire_def transaction_from_store_def Let_def split_beta transaction_of_def
      strip_witness_def transaction_reset_def invalidate_tx_cache_def)

lemma read_and_populated_current:
  assumes "tx = fst (run_state (transaction_from_reader cur wire witness unconfirmed) r)"
  shows "totals_current (tx\<lparr>tx_inputs := ins\<rparr>) \<and> hash_current cur H (tx\<lparr>tx_inputs := ins\<rparr>)"
  using read_nothing_cached [of cur wire witness unconfirmed r] by (simp add: assms totals_current_def hash_current_def)

text \<open>
  The assignment operators keep the caches of the target: the hash and the totals stay those of what it was before,
  and a transaction that creates money passes both validations.
\<close>

lemma assigned_hash_stale:
  "transaction_hash cur H False (transaction_assign (tx_fill_hash cur H False target) source) = transaction_hash cur H False target"
  by (simp add: transaction_assign_def tx_fill_hash_def transaction_hash_def)

definition example_assigned :: transaction where
  "example_assigned = transaction_assign (tx_fill_totals example_funded) (example_funded\<lparr>tx_outputs := [output_of 60 script_reset]\<rparr>)"

lemma assigned_transaction_overspends:
  "transaction_check bitcoin False True example_assigned = error_success"
  "transaction_accept bitcoin example_context False example_assigned = Some error_success"
  "\<not> is_coinbase example_assigned" "map output_value (tx_outputs example_assigned) = [60]"
  "map (\<lambda>i. output_value (prevout_of i)) (tx_inputs example_assigned) = [50]"
proof -
  note facts = example_funded_facts
  have same: "tx_inputs example_assigned = tx_inputs example_funded" "tx_outputs example_assigned = [output_of 60 script_reset]"
    "total_output_value example_assigned = 40" "total_input_value example_assigned = 50"
    "segregated example_assigned = segregated example_funded"
    using facts(4,5) by (simp_all add: example_assigned_def transaction_assign_def tx_fill_totals_def total_output_value_def total_input_value_def)
  have like: "is_coinbase example_assigned = is_coinbase example_funded"
    "is_null_non_coinbase example_assigned = is_null_non_coinbase example_funded"
    "is_segregated bitcoin example_assigned = is_segregated bitcoin example_funded"
    "is_missing_previous_outputs example_assigned = is_missing_previous_outputs example_funded"
    "is_double_spend example_assigned pool = is_double_spend example_funded pool"
    "transaction_is_mature example_assigned h = transaction_is_mature example_funded h" for pool h
    by (simp_all add: is_coinbase_def is_null_non_coinbase_def is_segregated_def is_missing_previous_outputs_def is_double_spend_def
        transaction_is_mature_def same) (simp_all add: example_assigned_def transaction_assign_def tx_fill_totals_def example_defs)
  show "\<not> is_coinbase example_assigned" "map output_value (tx_outputs example_assigned) = [60]"
    "map (\<lambda>i. output_value (prevout_of i)) (tx_inputs example_assigned) = [50]"
    using like(1) facts(3) by (simp_all add: same example_defs prevout_of_def validation_default_def)
  show "transaction_check bitcoin False True example_assigned = error_success"
    using facts by (simp add: transaction_check_def same like is_oversized_coinbase_def max_money_def
        recursive_money_def subsidy_interval_def retarget_subsidy_interval_def)
  show "transaction_accept bitcoin example_context False example_assigned = Some error_success"
    using facts by (simp add: transaction_accept_def like same is_overspent_def is_bch_def Let_def)
qed

subsection \<open>Money\<close>

text \<open>
  C2. A non-coinbase transaction that holds no stale cached totals (none, or those of its
  present inputs and outputs; operator= can leave stale ones) and that passes
  transaction::check and transaction::accept creates no money: the true (unbounded) sum of
  its output values is at most the true sum of the values of the previous outputs it spends,
  although the code adds with 64-bit saturating arithmetic.
\<close>

theorem accepted_spends_no_more_than_inputs:
  assumes "totals_current tx"
    and "transaction_check cur pool retarget tx = error_success"
    and "transaction_accept cur st pool tx = Some error_success"
    and "\<not> is_coinbase tx"
  shows "sum_list (map (\<lambda>out. unat (output_value out)) (tx_outputs tx)) \<le>
    sum_list (map (\<lambda>i. if output_is_valid (prevout_of i) then unat (output_value (prevout_of i)) else 0) (tx_inputs tx))"
proof -
  have totals: "total_output_value tx = sum_output_value (tx_outputs tx)"
      "total_input_value tx = sum_input_value (tx_inputs tx)"
    using totals_read [OF assms(1)] by auto
  have "total_output_value tx \<le> max_money cur retarget"
    using assms(2) by (auto simp: transaction_check_def split: if_splits)
  then have "unat (sum_output_value (tx_outputs tx)) < 2 ^ 64 - 1"
    using max_money_below_limit [of cur retarget] by (simp add: totals word_le_nat_alt)
  moreover have "total_output_value tx \<le> total_input_value tx"
    using assms(3,4) by (auto simp: transaction_accept_def is_overspent_def Let_def
        split: if_splits bind_splits)
  moreover have "(\<lambda>i. if output_is_valid (prevout_of i) then unat (output_value (prevout_of i)) else 0) = input_amount"
    by auto
  ultimately show ?thesis
    unfolding totals word_le_nat_alt sum_values by simp
qed

theorem accepted_spends_no_more_than_inputs_witness:
  "sum_list (map (\<lambda>out. unat (output_value out)) (tx_outputs example_funded)) \<le>
    sum_list (map (\<lambda>i. if output_is_valid (prevout_of i) then unat (output_value (prevout_of i)) else 0)
      (tx_inputs example_funded))"
proof (rule accepted_spends_no_more_than_inputs [where st = example_context and pool = False and retarget = True])
  show "totals_current example_funded" by (simp add: totals_current_def example_funded_def transaction_of_def)
  show "\<not> is_coinbase example_funded"
    by (rule example_funded_facts)
  show "transaction_check bitcoin False True example_funded = error_success"
    by (simp add: transaction_check_def example_funded_facts is_oversized_coinbase_def max_money_def
        recursive_money_def subsidy_interval_def retarget_subsidy_interval_def)
  show "transaction_accept bitcoin example_context False example_funded = Some error_success"
    by (simp add: transaction_accept_def example_funded_facts is_overspent_def is_bch_def Let_def)
qed

text \<open>
  After any sequence of the copying setters, cache-filling queries, strip_witness and
  recompute_hash on a constructed transaction, every cached value (hash, the three signature
  hash components, the two totals) equals its recomputation from the current content.
\<close>

theorem transaction_caches_current:
  assumes "tx_reachable cur H tx"
  shows "transaction_hash cur H False tx = bitcoin_hash H (transaction_to_wire cur False tx) \<and>
    outputs_hash H tx = to_outputs H tx \<and>
    inpoints_hash H tx = to_inpoints H tx \<and>
    sequences_hash H tx = to_sequences H tx \<and>
    total_input_value tx = sum_input_value (tx_inputs tx) \<and>
    total_output_value tx = sum_output_value (tx_outputs tx)"
  using tx_reachable_caches_current [OF assms]
  by (simp add: tx_caches_current_def transaction_hash_def outputs_hash_def inpoints_hash_def
      sequences_hash_def total_input_value_def total_output_value_def holds_read)

theorem transaction_caches_current_witness:
  "inpoints_hash example_digests (tx_set_inputs (fill_signature_caches example_digests example_transfer) []) =
   to_inpoints example_digests (tx_set_inputs (fill_signature_caches example_digests example_transfer) [])"
proof -
  have "tx_reachable bitcoin example_digests example_transfer"
    unfolding example_transfer_def by (rule tx_reachable.constructed)
  then have "tx_reachable bitcoin example_digests (tx_set_inputs (fill_signature_caches example_digests example_transfer) [])"
    by (blast intro: tx_reachable.stepped tx_step.intros)
  from transaction_caches_current [OF this] show ?thesis by blast
qed

text \<open>
  Stripping the witnesses does not change the (non-witness) transaction hash, as the
  comment on strip_witness says, and afterwards the witness hash is that hash too.
\<close>

theorem strip_witness_keeps_hash:
  "transaction_hash cur H witness (strip_witness tx) = transaction_hash cur H False tx"
proof -
  have "\<not> is_segregated cur (strip_witness tx)" by (simp add: is_segregated_def strip_witness_def)
  moreover have "tx_hash_cache (strip_witness tx) = tx_hash_cache tx" by (simp add: strip_witness_def)
  moreover have "transaction_to_wire cur False (strip_witness tx) = transaction_to_wire cur False tx"
    by (simp add: to_wire_without_witness strip_witness_def write_inputs_strip)
  ultimately show ?thesis by (simp add: transaction_hash_def cong: option.case_cong)
qed

text \<open>
  The move overloads of set_inputs and set_outputs do not reset the signature hash
  components: once filled, they keep answering for the replaced inputs or outputs.
\<close>

theorem moving_setters_keep_stale_hashes:
  "inpoints_hash H (tx_set_inputs_move (fill_signature_caches H tx) ins) = inpoints_hash H tx \<and>
   sequences_hash H (tx_set_inputs_move (fill_signature_caches H tx) ins) = sequences_hash H tx \<and>
   outputs_hash H (tx_set_outputs_move (fill_signature_caches H tx) outs) = outputs_hash H tx"
  by (simp_all add: tx_set_inputs_move_def tx_set_outputs_move_def fill_signature_caches_def invalidate_tx_cache_def
      inpoints_hash_def sequences_hash_def outputs_hash_def)

text \<open>
  missing_previous_transactions is always empty, whichever previous outputs are
  missing.
\<close>

theorem missing_transactions_never_reported: "missing_previous_transactions tx = []"
proof -
  have "foldl (\<lambda>hashes p. (let returned = point_hash p in hashes)) acc ps = acc" for acc and ps :: "point list"
    by (induction ps) simp_all
  then show ?thesis by (simp add: missing_previous_transactions_def)
qed

end
