(* ===== verification/Program.thy ===== *)
theory Program
  imports Transaction
begin

text \<open>
  The state a script is evaluated in: \<^verbatim>\<open>machine/program.hpp\<close>, \<^verbatim>\<open>impl/machine/program.ipp\<close> and
  \<^verbatim>\<open>src/machine/program.cpp\<close>.  The three stacks are lists with the top first, so the code's
  zero-based index from the top is the list index.  The jump register is an index into the
  operations of the script.
\<close>

record program =
  prog_script :: script
  prog_transaction :: transaction
  prog_input_index :: uint32
  prog_forks :: uint32
  prog_value :: uint64
  prog_version :: script_version
  negative_count :: nat
  operation_count :: nat
  jump :: nat
  primary :: "data_chunk list"
  alternate :: "data_chunk list"
  condition :: "bool list"

subsection \<open>Constructors\<close>

definition program_of ::
  "script \<Rightarrow> transaction \<Rightarrow> uint32 \<Rightarrow> uint32 \<Rightarrow> data_chunk list \<Rightarrow> uint64 \<Rightarrow> script_version \<Rightarrow> program" where
  "program_of s tx input_index forks stack v ver =
     \<lparr>prog_script = s, prog_transaction = tx, prog_input_index = input_index, prog_forks = forks,
      prog_value = v, prog_version = ver, negative_count = 0, operation_count = 0, jump = 0,
      primary = stack, alternate = [], condition = []\<rparr>"

definition program_default :: program where
  "program_default = program_of script_reset transaction_default 0 0 [] 0 version_unversioned"

definition program_of_script :: "script \<Rightarrow> program" where
  "program_of_script s = program_of s transaction_default 0 0 [] 0 version_unversioned"

definition program_spending :: "script \<Rightarrow> transaction \<Rightarrow> uint32 \<Rightarrow> uint32 \<Rightarrow> program" where
  "program_spending s tx input_index forks =
     program_of s tx input_index forks [] (- 1) version_unversioned"

text \<open>The stack of a witness has its top last.\<close>

definition program_witness ::
  "script \<Rightarrow> transaction \<Rightarrow> uint32 \<Rightarrow> uint32 \<Rightarrow> data_chunk list \<Rightarrow> uint64 \<Rightarrow> script_version \<Rightarrow> program" where
  "program_witness s tx input_index forks stack v ver =
     program_of s tx input_index forks (rev stack) v ver"

text \<open>The copying and the moving constructor take the primary stack of another program.\<close>

definition program_continue :: "script \<Rightarrow> program \<Rightarrow> program" where
  "program_continue s other =
     program_of s (prog_transaction other) (prog_input_index other) (prog_forks other) (primary other)
       (prog_value other) version_unversioned"

subsection \<open>Registers\<close>

definition program_is_valid :: "currency \<Rightarrow> program \<Rightarrow> bool" where
  "program_is_valid cur p \<longleftrightarrow> is_valid_operations cur (prog_script p) \<and> \<not> is_unspendable cur (prog_script p)"

definition operation_overflow :: "nat \<Rightarrow> bool" where
  "operation_overflow n \<longleftrightarrow> n > max_counted_ops"

definition increment_operation_count :: "operation \<Rightarrow> program \<Rightarrow> bool \<times> program" where
  "increment_operation_count op p =
     (let p = (if opcode_is_counted (op_code op) then p\<lparr>operation_count := operation_count p + 1\<rparr> else p)
      in (\<not> operation_overflow (operation_count p), p))"

definition increment_public_keys :: "int \<Rightarrow> program \<Rightarrow> bool \<times> program" where
  "increment_public_keys public_keys p =
     (if public_keys < 0 \<or> public_keys > int max_script_public_keys then (False, p)
      else
        let p = p\<lparr>operation_count := operation_count p + nat public_keys\<rparr>
        in (\<not> operation_overflow (operation_count p), p))"

text \<open>
  The code finds the operation in the script by its address.  Here an operation comes with its
  position, \<open>None\<close> for an operation that is not one of the script's.
\<close>

definition set_jump_register :: "currency \<Rightarrow> nat option \<Rightarrow> nat \<Rightarrow> program \<Rightarrow> bool \<times> program" where
  "set_jump_register cur pos offset p =
     (let ops = script_operations cur (prog_script p)
      in if ops = [] then (False, p)
         else case pos of
                None \<Rightarrow> (False, p\<lparr>jump := length ops\<rparr>)
              | Some i \<Rightarrow>
                  if i \<ge> length ops then (False, p\<lparr>jump := length ops\<rparr>)
                  else (True, p\<lparr>jump := i + offset\<rparr>))"

definition subscript :: "currency \<Rightarrow> program \<Rightarrow> operation list" where
  "subscript cur p = drop (jump p) (script_operations cur (prog_script p))"

subsection \<open>Primary stack\<close>

definition push_item :: "data_chunk \<Rightarrow> program \<Rightarrow> program" where
  "push_item item p = p\<lparr>primary := item # primary p\<rparr>"

definition push_bool :: "bool \<Rightarrow> program \<Rightarrow> program" where
  "push_bool v = push_item (if v then [positive_1] else [])"

text \<open>\<^verbatim>\<open>pop()\<close> and \<^verbatim>\<open>item\<close> must be guarded by their callers.\<close>

definition prog_pop :: "program \<Rightarrow> data_chunk \<times> program" where
  "prog_pop p = (hd (primary p), p\<lparr>primary := tl (primary p)\<rparr>)"

definition item :: "program \<Rightarrow> nat \<Rightarrow> data_chunk" where
  "item p index = primary p ! index"

text \<open>The value is popped even if it is not a number.\<close>

definition pop_number :: "nat \<Rightarrow> program \<Rightarrow> number option \<times> program" where
  "pop_number maximum_size p =
     (if primary p = [] then (None, p)
      else case prog_pop p of (data, p) \<Rightarrow> (set_data data maximum_size, p))"

definition pop_int32 :: "program \<Rightarrow> int option \<times> program" where
  "pop_int32 p = (case pop_number max_number_size p of (v, p) \<Rightarrow> (map_option number_int32 v, p))"

definition pop_binary :: "program \<Rightarrow> (number \<times> number) option \<times> program" where
  "pop_binary p =
     (case pop_number max_number_size p of
        (None, p) \<Rightarrow> (None, p)
      | (Some first, p) \<Rightarrow>
          (case pop_number max_number_size p of
             (None, p) \<Rightarrow> (None, p)
           | (Some second, p) \<Rightarrow> (Some (first, second), p)))"

definition pop_ternary :: "program \<Rightarrow> (number \<times> number \<times> number) option \<times> program" where
  "pop_ternary p =
     (case pop_binary p of
        (None, p) \<Rightarrow> (None, p)
      | (Some (first, second), p) \<Rightarrow>
          (case pop_number max_number_size p of
             (None, p) \<Rightarrow> (None, p)
           | (Some third, p) \<Rightarrow> (Some (first, second, third), p)))"

definition pop_position :: "program \<Rightarrow> nat option \<times> program" where
  "pop_position p =
     (case pop_int32 p of
        (None, p) \<Rightarrow> (None, p)
      | (Some signed_index, p) \<Rightarrow>
          if signed_index < 0 \<or> nat signed_index \<ge> length (primary p) then (None, p)
          else (Some (nat signed_index), p))"

definition pop_section :: "nat \<Rightarrow> program \<Rightarrow> data_chunk list option \<times> program" where
  "pop_section n p =
     (if length (primary p) < n then (None, p)
      else (Some (take n (primary p)), p\<lparr>primary := drop n (primary p)\<rparr>))"

definition duplicate :: "nat \<Rightarrow> program \<Rightarrow> program" where
  "duplicate index p = push_item (item p index) p"

definition prog_swap :: "nat \<Rightarrow> nat \<Rightarrow> program \<Rightarrow> program" where
  "prog_swap left right p =
     p\<lparr>primary := (primary p)[left := item p right, right := item p left]\<rparr>"

text \<open>\<^verbatim>\<open>erase\<close> of one position, and of the positions from \<open>first\<close> up to \<open>final\<close>.\<close>

definition prog_erase :: "nat \<Rightarrow> program \<Rightarrow> program" where
  "prog_erase index p = p\<lparr>primary := take index (primary p) @ drop (Suc index) (primary p)\<rparr>"

definition prog_erase_range :: "nat \<Rightarrow> nat \<Rightarrow> program \<Rightarrow> program" where
  "prog_erase_range first final p =
     p\<lparr>primary := take final (primary p) @ drop (Suc first) (primary p)\<rparr>"

text \<open>A value is true unless all its bytes are zero, or all but a final negative zero.\<close>

fun bytes_to_bool :: "data_chunk \<Rightarrow> bool" where
  "bytes_to_bool [] = False"
| "bytes_to_bool (b # bs) = (if b \<noteq> 0 then \<not> (bs = [] \<and> b = negative_0) else bytes_to_bool bs)"

definition stack_true :: "bool \<Rightarrow> program \<Rightarrow> bool" where
  "stack_true clean p = (if clean \<and> length (primary p) \<noteq> 1 then False else bytes_to_bool (hd (primary p)))"

definition stack_result :: "bool \<Rightarrow> program \<Rightarrow> bool" where
  "stack_result clean p \<longleftrightarrow> primary p \<noteq> [] \<and> stack_true clean p"

definition is_stack_overflow :: "program \<Rightarrow> bool" where
  "is_stack_overflow p \<longleftrightarrow> length (primary p) + length (alternate p) > max_stack_size"

definition top_number :: "nat \<Rightarrow> program \<Rightarrow> number option" where
  "top_number maximum_size p = (if primary p = [] then None else set_data (item p 0) maximum_size)"

subsection \<open>Alternate stack\<close>

definition push_alternate :: "data_chunk \<Rightarrow> program \<Rightarrow> program" where
  "push_alternate v p = p\<lparr>alternate := v # alternate p\<rparr>"

definition pop_alternate :: "program \<Rightarrow> data_chunk \<times> program" where
  "pop_alternate p = (hd (alternate p), p\<lparr>alternate := tl (alternate p)\<rparr>)"

subsection \<open>Conditional stack\<close>

text \<open>
  The number of false conditions is kept in a counter, which \<^verbatim>\<open>negate\<close> and \<^verbatim>\<open>close\<close> decrease only
  when the top condition is false.
\<close>

definition open_condition :: "bool \<Rightarrow> program \<Rightarrow> program" where
  "open_condition v p =
     p\<lparr>negative_count := negative_count p + (if v then 0 else 1), condition := v # condition p\<rparr>"

definition negate_condition :: "program \<Rightarrow> program" where
  "negate_condition p =
     (let v = hd (condition p)
      in p\<lparr>negative_count := (if v then negative_count p + 1 else negative_count p - 1),
           condition := (\<not> v) # tl (condition p)\<rparr>)"

definition close_condition :: "program \<Rightarrow> program" where
  "close_condition p =
     (let v = hd (condition p)
      in p\<lparr>negative_count := (if v then negative_count p else negative_count p - 1),
           condition := tl (condition p)\<rparr>)"

definition closed :: "program \<Rightarrow> bool" where
  "closed p \<longleftrightarrow> condition p = []"

definition succeeded :: "program \<Rightarrow> bool" where
  "succeeded p \<longleftrightarrow> negative_count p = 0"

text \<open>\<^verbatim>\<open>if_\<close>: conditional operations are always executed.\<close>

definition executes :: "operation \<Rightarrow> program \<Rightarrow> bool" where
  "executes op p \<longleftrightarrow> opcode_is_conditional (op_code op) \<or> succeeded p"

lemmas program_defs = push_item_def push_bool_def prog_pop_def item_def duplicate_def prog_swap_def
  prog_erase_def prog_erase_range_def push_alternate_def pop_alternate_def

subsection \<open>Truth of a stack value\<close>

text \<open>The byte test agrees with the number the bytes denote, of any length.\<close>

lemma magnitude_Cons: "bs \<noteq> [] \<Longrightarrow> magnitude (b # bs) = unat b + 256 * magnitude bs"
  by (simp add: magnitude_def)

lemma masked_zero: "b AND 0x7f = 0 \<longleftrightarrow> b = 0 \<or> b = 0x80" for b :: byte
proof -
  have "b AND 0x7f = take_bit 7 b" by (simp add: take_bit_eq_mask mask_eq_exp_minus_1)
  moreover have "unat (take_bit 7 b) = unat b mod 128" by (simp add: unsigned_take_bit_eq) (simp add: take_bit_eq_mod)
  moreover have "unat b mod 128 = 0 \<longleftrightarrow> unat b = 0 \<or> unat b = 128" using unat_byte_less [of b] by presburger
  ultimately show ?thesis by (simp only: word_unat_eq_iff) simp
qed

lemma script_value_zero: "script_value data = 0 \<longleftrightarrow> magnitude data = 0"
  by (simp add: script_value_def)

lemma bytes_to_bool_magnitude: "bytes_to_bool data \<longleftrightarrow> magnitude data \<noteq> 0"
proof (induction data)
  case (Cons b bs)
  then show ?case
    by (cases "bs = []")
      (auto simp: magnitude_Cons unat_eq_zero magnitude_def masked_zero negative_0_def)
qed (simp add: magnitude_def)

lemma bytes_to_bool_value: "bytes_to_bool data \<longleftrightarrow> script_value data \<noteq> 0"
  by (simp add: bytes_to_bool_magnitude script_value_zero)

end
