(* ===== verification/Signing.thy ===== *)
theory Signing
  imports Transaction
begin

text \<open>
  Signatures of transactions: the signing part of \<^verbatim>\<open>src/chain/script.cpp\<close> and what it uses of
  \<^verbatim>\<open>src/math/elliptic_curve.cpp\<close>.  The curve arithmetic is the library secp256k1, a parameter of
  the model.
\<close>

subsection \<open>find\_and\_delete\<close>

definition starts_with :: "data_chunk \<Rightarrow> data_chunk \<Rightarrow> bool" where
  "starts_with bytes v \<longleftrightarrow> length bytes \<ge> length v \<and> take (length v) bytes = v"

text \<open>
  The inner loop collects consecutive matches at the iterator \<open>it\<close> and skips them in the source.
  The value is the serialization of an operation, so it is never empty.
\<close>

function match_loop :: "data_chunk \<Rightarrow> data_chunk \<Rightarrow> nat \<Rightarrow> reader \<Rightarrow> nat list \<times> nat \<times> reader" where
  "match_loop v bytes it source =
     (if v \<noteq> [] \<and> starts_with (drop it bytes) v then
        (case match_loop v bytes (it + length v) (snd (run_state (skip (length v)) source)) of
           (found, rest) \<Rightarrow> (it # found, rest))
      else ([], it, source))"
  by pat_completeness auto
termination
  by (relation "measure (\<lambda>(v, bytes, it, source). length bytes - it)") (auto simp: starts_with_def neq_Nil_conv)

declare match_loop.simps [simp del]

lemma match_loop_hit:
  "v \<noteq> [] \<Longrightarrow> starts_with (drop it bytes) v \<Longrightarrow>
   match_loop v bytes it source =
     (case match_loop v bytes (it + length v) (snd (run_state (skip (length v)) source)) of
        (found, rest) \<Rightarrow> (it # found, rest))"
  by (subst match_loop.simps) simp

lemma match_loop_miss: "\<not> (v \<noteq> [] \<and> starts_with (drop it bytes) v) \<Longrightarrow> match_loop v bytes it source = ([], it, source)"
  by (subst match_loop.simps) (auto simp only: if_False)

lemma keeps_failure_skip [failure_rules]: "keeps_failure (skip n)"
  by (auto simp: skip_def intro!: failure_rules)

lemma match_loop_length:
  "match_loop v bytes it source = (found, it', source') \<Longrightarrow> length (stream source') \<le> length (stream source)"
proof (induction v bytes it source arbitrary: found rule: match_loop.induct)
  case (1 v bytes it source)
  show ?case
  proof (cases "v \<noteq> [] \<and> starts_with (drop it bytes) v")
    case True
    then obtain found' where
      "match_loop v bytes (it + length v) (snd (run_state (skip (length v)) source)) = (found', it', source')"
      using "1.prems" by (auto simp: match_loop_hit split: prod.splits)
    from "1.IH" [OF True this] show ?thesis
      using keeps_failure_length [OF keeps_failure_skip, of "length v" source] by simp
  next
    case False
    then show ?thesis using "1.prems" match_loop_miss [OF False] by simp
  qed
qed

lemma match_loop_progress:
  assumes "match_loop v bytes it (ready (b # bs)) = (found, it', source')" and "source' \<noteq> ready (b # bs)"
  shows "length (stream source') \<le> length bs"
proof (cases "v \<noteq> [] \<and> starts_with (drop it bytes) v")
  case True
  then obtain found' where
    "match_loop v bytes (it + length v) (snd (run_state (skip (length v)) (ready (b # bs)))) = (found', it', source')"
    using assms(1) by (auto simp: match_loop_hit split: prod.splits)
  from match_loop_length [OF this] show ?thesis
    using True by (cases v) (simp_all add: skip_def read_bytes_def stream_read_def good_def split: if_splits)
next
  case False
  then show ?thesis using assms match_loop_miss [OF False] by simp
qed

text \<open>The outer loop: the matches at each operation boundary, then the next operation.\<close>

function find_loop :: "currency \<Rightarrow> data_chunk \<Rightarrow> data_chunk \<Rightarrow> nat \<Rightarrow> reader \<Rightarrow> nat list" where
  "find_loop cur v bytes it source =
     (case run_state is_exhausted source of
        (True, _) \<Rightarrow> []
      | (False, source) \<Rightarrow>
          (case match_loop v bytes it source of
             (found, it, source) \<Rightarrow>
               (case run_state (operation_from_reader cur) source of
                  (op, source) \<Rightarrow>
                    found @ find_loop cur v bytes
                      (it + (if valid_source source then operation_serialized_size op else 0)) source)))"
  by pat_completeness auto
termination
proof (relation "measure (\<lambda>(cur, v, bytes, it, source). length (stream source))")
  fix cur v bytes it source exhausted source1 found p2 it2 source2 op source3
  assume ex: "(exhausted, source1) = run_state is_exhausted source" "exhausted = False"
    and m: "(found, p2) = match_loop v bytes it source1" "(it2, source2) = p2"
    and op: "(op, source3) = run_state (operation_from_reader cur) source2"
  obtain b bs where s: "source = ready (b # bs)" "source1 = source"
    using not_exhausted [of source source1] ex by metis
  have "length (stream source3) \<le> length bs"
  proof (cases "source2 = ready (b # bs)")
    case True
    then show ?thesis using operation_from_reader_progress [of cur b bs] op by (metis snd_conv)
  next
    case False
    then have "length (stream source2) \<le> length bs"
      using match_loop_progress [of v bytes it b bs found it2 source2] m s by simp
    then show ?thesis
      using keeps_failure_length [OF keeps_failure_operation(2), of cur source2] op by (metis order_trans snd_conv)
  qed
  then show "((cur, v, bytes, it2 + (if valid_source source3 then operation_serialized_size op else 0), source3),
      cur, v, bytes, it, source) \<in> measure (\<lambda>(cur, v, bytes, it, source). length (stream source))"
    using s by simp
qed simp

declare find_loop.simps [simp del]

definition find_and_delete_one :: "currency \<Rightarrow> data_chunk \<Rightarrow> data_chunk \<Rightarrow> data_chunk" where
  "find_and_delete_one cur endorsement bytes =
     (if endorsement = [] then bytes
      else
        let v = operation_to_data (operation_of_data endorsement False);
            found = find_loop cur v bytes 0 (ready bytes)
        in foldr (\<lambda>it bytes. take it bytes @ drop (it + length v) bytes) found bytes)"

definition find_and_delete :: "currency \<Rightarrow> data_chunk list \<Rightarrow> script \<Rightarrow> script" where
  "find_and_delete cur endorsements s =
     s\<lparr>script_bytes := foldl (\<lambda>bytes endorsement. find_and_delete_one cur endorsement bytes) (script_bytes s) endorsements,
       script_cache := None\<rparr>"

subsubsection \<open>What it deletes\<close>

text \<open>The offsets of the operation \<open>o'\<close> in a serialized list of operations.\<close>

fun operation_offsets :: "operation \<Rightarrow> nat \<Rightarrow> operation list \<Rightarrow> nat list" where
  "operation_offsets o' n [] = []"
| "operation_offsets o' n (op # ops) =
     (if op = o' then [n] else []) @ operation_offsets o' (n + length (operation_to_data op)) ops"

lemma starts_with_append: "starts_with bytes v \<longleftrightarrow> (\<exists>rest. bytes = v @ rest)"
  by (auto simp: starts_with_def) (metis append_take_drop_id)

lemma boundary_match:
  assumes "operation_wf cur o'" and "list_all (operation_wf cur) ops"
  shows "starts_with (operations_to_data ops) (operation_to_data o') \<longleftrightarrow> ops \<noteq> [] \<and> hd ops = o'"
proof (cases ops)
  case Nil
  then show ?thesis by (simp add: starts_with_append operation_to_data_nonempty)
next
  case (Cons op more)
  then show ?thesis
    using operation_codec.unambiguous [of cur op o' "operations_to_data more"] assms
    by (auto simp: starts_with_append)
qed

abbreviation find_step :: "currency \<Rightarrow> data_chunk \<Rightarrow> data_chunk \<Rightarrow> nat \<Rightarrow> reader \<Rightarrow> nat list" where
  "find_step cur v bytes it source \<equiv>
     (case match_loop v bytes it source of
        (found, it, source) \<Rightarrow>
          (case run_state (operation_from_reader cur) source of
             (op, source) \<Rightarrow>
               found @ find_loop cur v bytes
                 (it + (if valid_source source then operation_serialized_size op else 0)) source))"

lemma find_loop_unfold:
  "find_loop cur v bytes it (ready bs) = (if bs = [] then [] else find_step cur v bytes it (ready bs))"
  by (subst find_loop.simps) (simp add: run_is_exhausted)

lemma find_step_end:
  assumes "operation_wf cur o'" and "bytes = pre"
  shows "find_step cur (operation_to_data o') bytes (length pre) (ready []) = []"
proof -
  have "match_loop (operation_to_data o') bytes (length pre) (ready []) = ([], length pre, ready [])"
    using assms by (intro match_loop_miss) (auto simp: starts_with_append operation_to_data_nonempty)
  moreover obtain op r where op: "run_state (operation_from_reader cur) (ready []) = (op, r)" by fastforce
  moreover have fail: "failbit r"
    using operation_codec.write_read [OF op] operation_to_data_nonempty by auto
  moreover have "find_loop cur (operation_to_data o') bytes it r = []" for it
    using fail by (subst find_loop.simps) (simp add: run_is_exhausted)
  ultimately show ?thesis by simp
qed

lemma find_loop_offsets:
  assumes "operation_wf cur o'" and "list_all (operation_wf cur) ops" and "bytes = pre @ operations_to_data ops"
  shows "find_loop cur (operation_to_data o') bytes (length pre) (ready (operations_to_data ops)) =
    operation_offsets o' (length pre) ops"
  using assms(2,3)
proof (induction ops arbitrary: pre)
  case (Cons op ops)
  let ?v = "operation_to_data o'" and ?w = "operation_to_data op" and ?rest = "operations_to_data ops"
  have good: "operation_wf cur op" "list_all (operation_wf cur) ops" using Cons.prems(1) by simp_all
  have bytes: "bytes = (pre @ ?w) @ ?rest" "drop (length pre) bytes = operations_to_data (op # ops)"
    using Cons.prems(2) by simp_all
  have IH: "find_loop cur ?v bytes (length pre + length ?w) (ready ?rest) =
      operation_offsets o' (length pre + length ?w) ops"
    using Cons.IH [OF good(2) bytes(1)] by simp
  have unfold: "find_loop cur ?v bytes (length pre) (ready (operations_to_data (op # ops))) =
      find_step cur ?v bytes (length pre) (ready (?w @ ?rest))"
    by (simp add: find_loop_unfold operation_to_data_nonempty)
  show ?case
  proof (cases "op = o'")
    case True
    have hit: "starts_with (drop (length pre) bytes) ?v"
      unfolding bytes(2) using boundary_match [OF assms(1) Cons.prems(1)] True by simp
    have skip: "snd (run_state (skip (length ?v)) (ready (?v @ ?rest))) = ready ?rest"
      using run_read_bytes_ready [of ?v "length ?v" ?rest] by (simp add: skip_def)
    have "find_step cur ?v bytes (length pre) (ready (?w @ ?rest)) =
        length pre # find_step cur ?v bytes (length pre + length ?v) (ready ?rest)"
      using match_loop_hit [OF operation_to_data_nonempty hit] skip True by (auto split: prod.splits)
    also have "find_step cur ?v bytes (length pre + length ?v) (ready ?rest) =
        find_loop cur ?v bytes (length pre + length ?v) (ready ?rest)"
    proof (cases "ops = []")
      case True
      then show ?thesis
        using find_step_end [OF assms(1), of bytes "pre @ ?w"] bytes(1) \<open>op = o'\<close> by (simp add: find_loop_unfold)
    next
      case False
      then show ?thesis by (cases ops) (simp_all add: find_loop_unfold operation_to_data_nonempty)
    qed
    finally show ?thesis using unfold IH True by simp
  next
    case False
    have "match_loop ?v bytes (length pre) (ready (?w @ ?rest)) = ([], length pre, ready (?w @ ?rest))"
      using boundary_match [OF assms(1) Cons.prems(1)] False by (intro match_loop_miss) (simp add: bytes(2))
    then show ?thesis
      using unfold IH False operation_codec.read_write [OF good(1), of ?rest]
      by (simp add: valid_source_def length_operation_to_data)
  qed
qed (simp add: find_loop_unfold)

lemma delete_offsets:
  "foldr (\<lambda>it bytes. take it bytes @ drop (it + length (operation_to_data o')) bytes)
     (operation_offsets o' (length pre) ops) (pre @ operations_to_data ops) =
   pre @ operations_to_data (filter (\<lambda>op. op \<noteq> o') ops)"
proof (induction ops arbitrary: pre)
  case (Cons op ops)
  show ?case using Cons [of "pre @ operation_to_data op"] by simp
qed simp

lemma nominal_push_wf:
  assumes "length e \<le> max_push_data_size"
  shows "operation_wf cur (operation_of_data e False)"
  using assms
  by (auto simp: operation_of_data_def is_oversized_def opcode_from_data_def nominal_opcode_from_data_def
      opcode_from_size_def operation_wf_def data_fits_def max_push_data_size_def get_max_block_size_def
      max_block_size_new_def max_block_size_def word_le_nat_alt unat_of_nat)

lemma find_and_delete_one_exact:
  assumes "list_all (operation_wf cur) ops" and "length e \<le> max_push_data_size"
  shows "find_and_delete_one cur e (operations_to_data ops) =
    operations_to_data (filter (\<lambda>op. e = [] \<or> op \<noteq> operation_of_data e False) ops)"
proof (cases "e = []")
  case False
  let ?o = "operation_of_data e False"
  have "operation_wf cur ?o" by (rule nominal_push_wf [OF assms(2)])
  from find_loop_offsets [OF this assms(1), of "operations_to_data ops" "[]"] delete_offsets [of ?o "[]" ops]
  show ?thesis using False by (simp add: find_and_delete_one_def)
qed (simp add: find_and_delete_one_def)

lemma list_all_filtered: "list_all P xs \<Longrightarrow> list_all P (filter Q xs)"
  by (simp add: list_all_iff)

lemma find_and_delete_bytes:
  assumes "list_all (operation_wf cur) ops" and "list_all (\<lambda>e. length e \<le> max_push_data_size) endorsements"
  shows "foldl (\<lambda>bytes endorsement. find_and_delete_one cur endorsement bytes) (operations_to_data ops) endorsements =
    operations_to_data
      (filter (\<lambda>op. list_all (\<lambda>e. e = [] \<or> op \<noteq> operation_of_data e False) endorsements) ops)"
  using assms
proof (induction endorsements arbitrary: ops)
  case (Cons e es)
  then show ?case
    by (simp add: find_and_delete_one_exact list_all_filtered conj_commute)
qed simp

subsection \<open>Signature hashes\<close>

text \<open>The signature hash types; the forkid variants of bitcoin cash only add a bit that the mask clears.\<close>

datatype sighash_algorithm = sighash_all | sighash_none | sighash_single

definition sighash_mask :: byte where "sighash_mask = 0x1f"
definition anyone_can_pay :: byte where "anyone_can_pay = 0x80"

definition to_sighash_enum :: "byte \<Rightarrow> sighash_algorithm" where
  "to_sighash_enum sighash_type =
     (if sighash_type AND sighash_mask = 3 then sighash_single
      else if sighash_type AND sighash_mask = 2 then sighash_none
      else sighash_all)"

definition is_any :: "byte \<Rightarrow> bool" where
  "is_any sighash_type \<longleftrightarrow> sighash_type AND anyone_can_pay \<noteq> 0"

definition signature_hash :: "currency \<Rightarrow> hash_functions \<Rightarrow> transaction \<Rightarrow> uint32 \<Rightarrow> hash_digest" where
  "signature_hash cur H tx sighash_type =
     bitcoin_hash H (transaction_to_wire cur False tx @ to_little_endian sighash_type)"

text \<open>
  \<^verbatim>\<open>script{}\<close> has no bytes; only its bytes enter the hash.  An input built from three arguments has
  an empty witness.
\<close>

definition sign_input :: "output_point \<Rightarrow> script \<Rightarrow> uint32 \<Rightarrow> tx_input" where
  "sign_input prevout s seq = input_of prevout s witness_reset seq"

definition sign_none :: "currency \<Rightarrow> hash_functions \<Rightarrow> transaction \<Rightarrow> nat \<Rightarrow> script \<Rightarrow> byte \<Rightarrow> hash_digest" where
  "sign_none cur H tx index script_code sighash_type =
     (let self = tx_inputs tx ! index;
          ins = (if is_any sighash_type
                 then [sign_input (previous_output self) script_code (sequence self)]
                 else (map (\<lambda>i. sign_input (previous_output i) script_reset 0) (tx_inputs tx))
                        [index := sign_input (previous_output self) script_code (sequence self)])
      in signature_hash cur H (transaction_of (tx_version tx) (tx_locktime tx) ins []) (ucast sighash_type))"

definition sign_single :: "currency \<Rightarrow> hash_functions \<Rightarrow> transaction \<Rightarrow> nat \<Rightarrow> script \<Rightarrow> byte \<Rightarrow> hash_digest" where
  "sign_single cur H tx index script_code sighash_type =
     (let self = tx_inputs tx ! index;
          ins = (if is_any sighash_type
                 then [sign_input (previous_output self) script_code (sequence self)]
                 else (map (\<lambda>i. sign_input (previous_output i) script_reset 0) (tx_inputs tx))
                        [index := sign_input (previous_output self) script_code (sequence self)]);
          outs = replicate index output_default @ [tx_outputs tx ! index]
      in signature_hash cur H (transaction_of (tx_version tx) (tx_locktime tx) ins outs) (ucast sighash_type))"

definition sign_all :: "currency \<Rightarrow> hash_functions \<Rightarrow> transaction \<Rightarrow> nat \<Rightarrow> script \<Rightarrow> byte \<Rightarrow> hash_digest" where
  "sign_all cur H tx index script_code sighash_type =
     (let self = tx_inputs tx ! index;
          ins = (if is_any sighash_type
                 then [sign_input (previous_output self) script_code (sequence self)]
                 else (map (\<lambda>i. sign_input (previous_output i) script_reset (sequence i)) (tx_inputs tx))
                        [index := sign_input (previous_output self) script_code (sequence self)]);
          out = tx_set_inputs_move (transaction_of (tx_version tx) (tx_locktime tx) [] (tx_outputs tx)) ins
      in signature_hash cur H out (ucast sighash_type))"

definition strip_code_seperators :: "currency \<Rightarrow> script \<Rightarrow> script" where
  "strip_code_seperators cur script_code =
     script_from_operations (filter (\<lambda>op. op_code op \<noteq> opcode_codeseparator) (script_operations cur script_code))"

definition one_hash :: hash_digest where
  "one_hash = 1 # replicate 31 0"

definition generate_unversioned_signature_hash ::
  "currency \<Rightarrow> hash_functions \<Rightarrow> transaction \<Rightarrow> uint32 \<Rightarrow> script \<Rightarrow> byte \<Rightarrow> hash_digest" where
  "generate_unversioned_signature_hash cur H tx input_index script_code sighash_type =
     (let sighash = to_sighash_enum sighash_type;
          index = unat input_index
      in if index \<ge> length (tx_inputs tx) \<or> (index \<ge> length (tx_outputs tx) \<and> sighash = sighash_single)
         then one_hash
         else
           let stripped = strip_code_seperators cur script_code
           in case sighash of
                sighash_none \<Rightarrow> sign_none cur H tx index stripped sighash_type
              | sighash_single \<Rightarrow> sign_single cur H tx index stripped sighash_type
              | sighash_all \<Rightarrow> sign_all cur H tx index stripped sighash_type)"

text \<open>
  Unlike the unversioned hash this one requires a valid input index, which the code asserts and
  \<^verbatim>\<open>script::verify\<close> checks before it evaluates a script.
\<close>

definition version_0_preimage :: "hash_functions \<Rightarrow> transaction \<Rightarrow> nat \<Rightarrow> script \<Rightarrow> uint64 \<Rightarrow> byte \<Rightarrow> data_chunk" where
  "version_0_preimage H tx index script_code v sighash_type =
     (let i = tx_inputs tx ! index;
          sighash = to_sighash_enum sighash_type;
          any = is_any sighash_type
      in to_little_endian (tx_version tx) @
         write_hash (if \<not> any then inpoints_hash H tx else null_hash) @
         write_hash (if \<not> any \<and> sighash = sighash_all then sequences_hash H tx else null_hash) @
         point_to_data True (op_point (previous_output i)) @
         script_to_data script_code True @
         to_little_endian v @
         to_little_endian (sequence i) @
         write_hash
           (if sighash = sighash_all then outputs_hash H tx
            else if sighash = sighash_single \<and> index < length (tx_outputs tx)
              then bitcoin_hash H (output_to_wire (tx_outputs tx ! index))
            else null_hash) @
         to_little_endian (tx_locktime tx) @
         write_4_bytes_little_endian (ucast sighash_type))"

definition generate_version_0_signature_hash ::
  "hash_functions \<Rightarrow> transaction \<Rightarrow> uint32 \<Rightarrow> script \<Rightarrow> uint64 \<Rightarrow> byte \<Rightarrow> hash_digest" where
  "generate_version_0_signature_hash H tx input_index script_code v sighash_type =
     bitcoin_hash H (version_0_preimage H tx (unat input_index) script_code v sighash_type)"

definition generate_signature_hash ::
  "currency \<Rightarrow> hash_functions \<Rightarrow> transaction \<Rightarrow> uint32 \<Rightarrow> script \<Rightarrow> byte \<Rightarrow> script_version \<Rightarrow> uint64 \<Rightarrow> hash_digest" where
  "generate_signature_hash cur H tx input_index script_code sighash_type ver v =
     (case ver of
        version_unversioned \<Rightarrow> generate_unversioned_signature_hash cur H tx input_index script_code sighash_type
      | version_zero \<Rightarrow> generate_version_0_signature_hash H tx input_index script_code v sighash_type
      | version_reserved \<Rightarrow> null_hash)"

subsection \<open>Signatures\<close>

text \<open>The functions of secp256k1 that the code calls; \<open>None\<close> is a failed call.\<close>

record curve_functions =
  signature_parse_der :: "data_chunk \<Rightarrow> data_chunk option"
  signature_parse_der_lax :: "data_chunk \<Rightarrow> data_chunk option"
  signature_normalize :: "data_chunk \<Rightarrow> data_chunk"
  ec_pubkey_parse :: "data_chunk \<Rightarrow> data_chunk option"
  ecdsa_verify :: "data_chunk \<Rightarrow> hash_digest \<Rightarrow> data_chunk \<Rightarrow> bool"
  ecdsa_sign :: "hash_digest \<Rightarrow> data_chunk \<Rightarrow> data_chunk option"
  signature_serialize_der :: "data_chunk \<Rightarrow> data_chunk option"

text \<open>An endorsement is a signature followed by the signature hash type.\<close>

definition parse_endorsement :: "data_chunk \<Rightarrow> (byte \<times> data_chunk) option" where
  "parse_endorsement endorsement =
     (if endorsement = [] then None else Some (last endorsement, butlast endorsement))"

definition parse_signature :: "curve_functions \<Rightarrow> data_chunk \<Rightarrow> bool \<Rightarrow> data_chunk option" where
  "parse_signature E der strict =
     (if der = [] then None
      else if strict then signature_parse_der E der else signature_parse_der_lax E der)"

definition verify_signature :: "curve_functions \<Rightarrow> data_chunk \<Rightarrow> hash_digest \<Rightarrow> data_chunk \<Rightarrow> bool" where
  "verify_signature E point hash signature =
     (case ec_pubkey_parse E point of
        None \<Rightarrow> False
      | Some pubkey \<Rightarrow> ecdsa_verify E (signature_normalize E signature) hash pubkey)"

definition check_signature ::
  "currency \<Rightarrow> hash_functions \<Rightarrow> curve_functions \<Rightarrow> data_chunk \<Rightarrow> byte \<Rightarrow> data_chunk \<Rightarrow> script \<Rightarrow> transaction \<Rightarrow>
   uint32 \<Rightarrow> script_version \<Rightarrow> uint64 \<Rightarrow> bool" where
  "check_signature cur H E signature sighash_type public_key script_code tx input_index ver v =
     (if public_key = [] then False
      else
        let sighash = generate_signature_hash cur H tx input_index script_code sighash_type ver v
        in verify_signature E public_key sighash signature)"

definition create_endorsement ::
  "currency \<Rightarrow> hash_functions \<Rightarrow> curve_functions \<Rightarrow> data_chunk \<Rightarrow> script \<Rightarrow> transaction \<Rightarrow> uint32 \<Rightarrow> byte \<Rightarrow>
   script_version \<Rightarrow> uint64 \<Rightarrow> data_chunk option" where
  "create_endorsement cur H E secret prevout_script tx input_index sighash_type ver v = do {
     let sighash = generate_signature_hash cur H tx input_index prevout_script sighash_type ver v;
     signature \<leftarrow> ecdsa_sign E sighash secret;
     out \<leftarrow> signature_serialize_der E signature;
     Some (out @ [sighash_type])
   }"

subsection \<open>Properties\<close>

text \<open>An instance of the curve, in which a signature is the key.\<close>

definition example_curve :: curve_functions where
  "example_curve = \<lparr>signature_parse_der = Some, signature_parse_der_lax = Some, signature_normalize = (\<lambda>s. s),
     ec_pubkey_parse = Some, ecdsa_verify = (\<lambda>signature hash key. signature = key),
     ecdsa_sign = (\<lambda>hash secret. Some secret), signature_serialize_der = (\<lambda>s. if s = [] then None else Some s)\<rparr>"

lemma example_check_signature:
  "check_signature cur H example_curve signature sighash_type key code tx i ver v \<longleftrightarrow> key \<noteq> [] \<and> signature = key"
  by (simp add: check_signature_def verify_signature_def example_curve_def Let_def)

lemma example_parse_signature: "parse_signature example_curve der strict = (if der = [] then None else Some der)"
  by (simp add: parse_signature_def example_curve_def)

lemma find_and_delete_operations:
  assumes "script_cache s = None \<or> script_cache s = Some (script_operations cur s)"
    and "list_all (operation_wf cur) (script_operations cur s)"
    and "operations_to_data (script_operations cur s) = script_bytes s"
    and "list_all (\<lambda>e. length e \<le> max_push_data_size) endorsements"
  shows "script_operations cur (find_and_delete cur endorsements s) =
    filter (\<lambda>op. list_all (\<lambda>e. e = [] \<or> op \<noteq> operation_of_data e False) endorsements) (script_operations cur s)"
    (is "_ = ?kept")
proof -
  have "script_operations cur (find_and_delete cur endorsements s) = parse_operations cur (ready (operations_to_data ?kept @ []))"
    using find_and_delete_bytes [OF assms(2,4)] assms(3) by (simp add: find_and_delete_def script_operations_def)
  also have "\<dots> = ?kept"
    using assms(2) by (subst parse_operations_printed) (simp_all add: list_all_filtered)
  finally show ?thesis .
qed

text \<open>
  C8. find_and_delete, which works on bytes and iterators, deletes exactly the operations
  that push one of the (nonempty) endorsements in nominal encoding and keeps all others in
  order, for every script that parses to valid operations and endorsements up to the push
  limit.
\<close>

theorem find_and_delete_exact:
  assumes "script_cache s = None" and "is_valid_operations cur s"
    and "list_all (\<lambda>e. length e \<le> 520) endorsements"
  shows "script_operations cur (find_and_delete cur endorsements s) =
    filter (\<lambda>op. \<forall>e \<in> set endorsements. e \<noteq> [] \<longrightarrow> op \<noteq> operation_of_data e False) (script_operations cur s)"
proof -
  have "script_operations cur (find_and_delete cur endorsements s) =
    filter (\<lambda>op. list_all (\<lambda>e. e = [] \<or> op \<noteq> operation_of_data e False) endorsements) (script_operations cur s)"
    using parse_lossless_aux [OF assms(1,2)] assms(1,3)
    by (intro find_and_delete_operations) (simp_all add: script_constants)
  moreover have "(\<lambda>op. list_all (\<lambda>e. e = [] \<or> op \<noteq> operation_of_data e False) endorsements) =
      (\<lambda>op. \<forall>e \<in> set endorsements. e \<noteq> [] \<longrightarrow> op \<noteq> operation_of_data e False)"
    by (auto simp: list_all_iff fun_eq_iff)
  ultimately show ?thesis by simp
qed






theorem find_and_delete_exact_witness:
  "script_operations bitcoin (find_and_delete bitcoin [[9, 9]] \<lparr>script_bytes = [2, 9, 9, 0x61, 2, 9, 9], script_cache = None, script_valid = True\<rparr>)
    = [operation_of_code opcode_nop]"
proof -
  let ?s = "\<lparr>script_bytes = [2, 9, 9, 0x61, 2, 9, 9], script_cache = None, script_valid = True\<rparr>"
  let ?op = "\<lparr>op_code = 2, op_data = [9, 9], op_valid = True\<rparr>"
  have ops: "script_operations bitcoin ?s = [?op, operation_of_code opcode_nop, ?op]"
  proof (rule bytes_script_operations)
    show "list_all (operation_wf bitcoin) [?op, operation_of_code opcode_nop, ?op]"
      using operation_wf_payload [of 2 "[9, 9]" bitcoin] by (simp add: operation_wf_simple)
  qed (simp add: operation_to_data_alt size_prefix_def operation_of_code_def)
  then show ?thesis
    by (subst find_and_delete_exact)
      (simp_all add: ops is_valid_operations_def operation_of_data_def is_oversized_def script_constants
        opcode_from_data_def nominal_opcode_from_data_def opcode_from_size_def operation_of_code_def)
qed


end
