(* ===== verification/Interpreter.thy ===== *)
theory Interpreter
  imports Program Signing
begin

text \<open>
  Script evaluation: \<^verbatim>\<open>impl/machine/interpreter.ipp\<close> and \<^verbatim>\<open>src/machine/interpreter.cpp\<close>.  An operation
  returns its code and the program it leaves, also when it fails: \<^verbatim>\<open>op_check_sig\<close> and
  \<^verbatim>\<open>op_check_multisig\<close> go on from the program their failed verification left.
\<close>

type_synonym handler = "program \<Rightarrow> code \<times> program"

subsection \<open>Shared operations\<close>

definition op_nop :: handler where "op_nop p = (error_success, p)"
definition op_disabled :: handler where "op_disabled p = (error_op_disabled, p)"
definition op_reserved :: handler where "op_reserved p = (error_op_reserved, p)"

definition op_push_number :: "byte \<Rightarrow> handler" where
  "op_push_number v p = (error_success, push_item [v] p)"

definition op_push_size :: "operation \<Rightarrow> handler" where
  "op_push_size op p =
     (if length (op_data op) > unat push_size_75 then (error_op_push_size, p)
      else (error_success, push_item (op_data op) p))"

definition op_push_data :: "data_chunk \<Rightarrow> nat \<Rightarrow> handler" where
  "op_push_data data size_limit p =
     (if length data > size_limit then (error_op_push_data, p) else (error_success, push_item data p))"

subsection \<open>Flow control\<close>

definition op_if :: handler where
  "op_if p =
     (if succeeded p then
        if primary p = [] then (error_op_if, p)
        else (error_success, open_condition (stack_true False p) (snd (prog_pop p)))
      else (error_success, open_condition False p))"

definition op_notif :: handler where
  "op_notif p =
     (if succeeded p then
        if primary p = [] then (error_op_notif, p)
        else (error_success, open_condition (\<not> stack_true False p) (snd (prog_pop p)))
      else (error_success, open_condition False p))"

definition op_else :: handler where
  "op_else p = (if closed p then (error_op_else, p) else (error_success, negate_condition p))"

definition op_endif :: handler where
  "op_endif p = (if closed p then (error_op_endif, p) else (error_success, close_condition p))"

definition op_verify :: handler where
  "op_verify p =
     (if primary p = [] then (error_op_verify1, p)
      else if \<not> stack_true False p then (error_op_verify2, p)
      else (error_success, snd (prog_pop p)))"

definition op_return :: handler where "op_return p = (error_op_return, p)"

subsection \<open>Stack operations\<close>

definition op_to_alt_stack :: handler where
  "op_to_alt_stack p =
     (if primary p = [] then (error_op_to_alt_stack, p)
      else case prog_pop p of (v, p) \<Rightarrow> (error_success, push_alternate v p))"

definition op_from_alt_stack :: handler where
  "op_from_alt_stack p =
     (if alternate p = [] then (error_op_from_alt_stack, p)
      else case pop_alternate p of (v, p) \<Rightarrow> (error_success, push_item v p))"

definition op_drop2 :: handler where
  "op_drop2 p =
     (if length (primary p) < 2 then (error_op_drop2, p)
      else (error_success, snd (prog_pop (snd (prog_pop p)))))"

definition op_dup2 :: handler where
  "op_dup2 p =
     (if length (primary p) < 2 then (error_op_dup2, p)
      else (error_success, push_item (item p 0) (push_item (item p 1) p)))"

definition op_dup3 :: handler where
  "op_dup3 p =
     (if length (primary p) < 3 then (error_op_dup3, p)
      else (error_success, push_item (item p 0) (push_item (item p 1) (push_item (item p 2) p))))"

definition op_over2 :: handler where
  "op_over2 p =
     (if length (primary p) < 4 then (error_op_over2, p)
      else (error_success, push_item (item p 2) (push_item (item p 3) p)))"

definition op_rot2 :: handler where
  "op_rot2 p =
     (if length (primary p) < 6 then (error_op_rot2, p)
      else (error_success, push_item (item p 4) (push_item (item p 5) (prog_erase_range 5 4 p))))"

definition op_swap2 :: handler where
  "op_swap2 p =
     (if length (primary p) < 4 then (error_op_swap2, p)
      else (error_success, prog_swap 2 0 (prog_swap 3 1 p)))"

definition op_if_dup :: handler where
  "op_if_dup p =
     (if primary p = [] then (error_op_if_dup, p)
      else (error_success, if stack_true False p then duplicate 0 p else p))"

definition op_depth :: handler where
  "op_depth p = (error_success, push_item (number_data (of_nat (length (primary p)))) p)"

definition op_drop :: handler where
  "op_drop p =
     (if primary p = [] then (error_op_drop, p)
      else (error_success, snd (prog_pop p)))"

definition op_dup :: handler where
  "op_dup p =
     (if primary p = [] then (error_op_dup, p)
      else (error_success, duplicate 0 p))"

definition op_nip :: handler where
  "op_nip p =
     (if length (primary p) < 2 then (error_op_nip, p)
      else (error_success, prog_erase 1 p))"

definition op_over :: handler where
  "op_over p =
     (if length (primary p) < 2 then (error_op_over, p)
      else (error_success, duplicate 1 p))"

definition op_pick :: handler where
  "op_pick p =
     (case pop_position p of
        (None, p) \<Rightarrow> (error_op_pick, p)
      | (Some index, p) \<Rightarrow> (error_success, push_item (item p index) p))"

definition op_roll :: handler where
  "op_roll p =
     (case pop_position p of
        (None, p) \<Rightarrow> (error_op_roll, p)
      | (Some index, p) \<Rightarrow> (error_success, push_item (item p index) (prog_erase index p)))"

definition op_rot :: handler where
  "op_rot p =
     (if length (primary p) < 3 then (error_op_rot, p)
      else (error_success, prog_swap 1 0 (prog_swap 2 1 p)))"

definition op_swap :: handler where
  "op_swap p =
     (if length (primary p) < 2 then (error_op_swap, p)
      else (error_success, prog_swap 1 0 p))"

definition op_tuck :: handler where
  "op_tuck p =
     (if length (primary p) < 2 then (error_op_tuck, p)
      else case prog_pop p of (first, p) \<Rightarrow> case prog_pop p of (second, p) \<Rightarrow>
        (error_success, push_item first (push_item second (push_item first p))))"

definition op_size :: handler where
  "op_size p =
     (if primary p = [] then (error_op_size, p)
      else case prog_pop p of (item0, p) \<Rightarrow>
        (error_success, push_item (number_data (of_nat (length item0))) (push_item item0 p)))"

definition op_equal :: handler where
  "op_equal p =
     (if length (primary p) < 2 then (error_op_equal, p)
      else case prog_pop p of (a, p) \<Rightarrow> case prog_pop p of (b, p) \<Rightarrow> (error_success, push_bool (a = b) p))"

definition op_equal_verify :: handler where
  "op_equal_verify p =
     (if length (primary p) < 2 then (error_op_equal_verify1, p)
      else case prog_pop p of (a, p) \<Rightarrow> case prog_pop p of (b, p) \<Rightarrow>
        (if a = b then error_success else error_op_equal_verify2, p))"

subsection \<open>Arithmetic\<close>

definition op_add1 :: handler where
  "op_add1 p =
     (case pop_number max_number_size p of
        (None, p) \<Rightarrow> (error_op_add1, p)
      | (Some n, p) \<Rightarrow> (error_success, push_item (number_data (number_add n 1)) p))"

definition op_sub1 :: handler where
  "op_sub1 p =
     (case pop_number max_number_size p of
        (None, p) \<Rightarrow> (error_op_sub1, p)
      | (Some n, p) \<Rightarrow> (error_success, push_item (number_data (number_sub n 1)) p))"

definition op_negate :: handler where
  "op_negate p =
     (case pop_number max_number_size p of
        (None, p) \<Rightarrow> (error_op_negate, p)
      | (Some n, p) \<Rightarrow> (error_success, push_item (number_data (number_negate n)) p))"

definition op_abs :: handler where
  "op_abs p =
     (case pop_number max_number_size p of
        (None, p) \<Rightarrow> (error_op_abs, p)
      | (Some n, p) \<Rightarrow> (error_success, push_item (number_data (if int64 n < 0 then number_negate n else n)) p))"

definition op_not :: handler where
  "op_not p =
     (case pop_number max_number_size p of
        (None, p) \<Rightarrow> (error_op_not, p)
      | (Some n, p) \<Rightarrow> (error_success, push_bool (is_false n) p))"

definition op_nonzero :: handler where
  "op_nonzero p =
     (case pop_number max_number_size p of
        (None, p) \<Rightarrow> (error_op_nonzero, p)
      | (Some n, p) \<Rightarrow> (error_success, push_bool (is_true n) p))"

definition op_add :: handler where
  "op_add p =
     (case pop_binary p of
        (None, p) \<Rightarrow> (error_op_add, p)
      | (Some (first, second), p) \<Rightarrow> (error_success, push_item (number_data (number_add first second)) p))"

definition op_sub :: handler where
  "op_sub p =
     (case pop_binary p of
        (None, p) \<Rightarrow> (error_op_sub, p)
      | (Some (first, second), p) \<Rightarrow> (error_success, push_item (number_data (number_sub second first)) p))"

definition op_bool_and :: handler where
  "op_bool_and p =
     (case pop_binary p of
        (None, p) \<Rightarrow> (error_op_bool_and, p)
      | (Some (first, second), p) \<Rightarrow> (error_success, push_bool (is_true first \<and> is_true second) p))"

definition op_bool_or :: handler where
  "op_bool_or p =
     (case pop_binary p of
        (None, p) \<Rightarrow> (error_op_bool_or, p)
      | (Some (first, second), p) \<Rightarrow> (error_success, push_bool (is_true first \<or> is_true second) p))"

definition op_num_equal :: handler where
  "op_num_equal p =
     (case pop_binary p of
        (None, p) \<Rightarrow> (error_op_num_equal, p)
      | (Some (first, second), p) \<Rightarrow> (error_success, push_bool (first = second) p))"

definition op_num_equal_verify :: handler where
  "op_num_equal_verify p =
     (case pop_binary p of
        (None, p) \<Rightarrow> (error_op_num_equal_verify1, p)
      | (Some (first, second), p) \<Rightarrow> (if first = second then error_success else error_op_num_equal_verify2, p))"

definition op_num_not_equal :: handler where
  "op_num_not_equal p =
     (case pop_binary p of
        (None, p) \<Rightarrow> (error_op_num_not_equal, p)
      | (Some (first, second), p) \<Rightarrow> (error_success, push_bool (first \<noteq> second) p))"

definition op_less_than :: handler where
  "op_less_than p =
     (case pop_binary p of
        (None, p) \<Rightarrow> (error_op_less_than, p)
      | (Some (first, second), p) \<Rightarrow> (error_success, push_bool (int64 second < int64 first) p))"

definition op_greater_than :: handler where
  "op_greater_than p =
     (case pop_binary p of
        (None, p) \<Rightarrow> (error_op_greater_than, p)
      | (Some (first, second), p) \<Rightarrow> (error_success, push_bool (int64 second > int64 first) p))"

definition op_less_than_or_equal :: handler where
  "op_less_than_or_equal p =
     (case pop_binary p of
        (None, p) \<Rightarrow> (error_op_less_than_or_equal, p)
      | (Some (first, second), p) \<Rightarrow> (error_success, push_bool (int64 second \<le> int64 first) p))"

definition op_greater_than_or_equal :: handler where
  "op_greater_than_or_equal p =
     (case pop_binary p of
        (None, p) \<Rightarrow> (error_op_greater_than_or_equal, p)
      | (Some (first, second), p) \<Rightarrow> (error_success, push_bool (int64 second \<ge> int64 first) p))"

definition op_min :: handler where
  "op_min p =
     (case pop_binary p of
        (None, p) \<Rightarrow> (error_op_min, p)
      | (Some (first, second), p) \<Rightarrow> (error_success, push_item (if int64 second < int64 first then number_data second else number_data first) p))"

definition op_max :: handler where
  "op_max p =
     (case pop_binary p of
        (None, p) \<Rightarrow> (error_op_max, p)
      | (Some (first, second), p) \<Rightarrow> (error_success, push_item (if int64 second > int64 first then number_data second else number_data first) p))"

definition op_within :: handler where
  "op_within p =
     (case pop_ternary p of
        (None, p) \<Rightarrow> (error_op_within, p)
      | (Some (first, second, third), p) \<Rightarrow>
          (error_success, push_bool (int64 second \<le> int64 third \<and> int64 third < int64 first) p))"

subsection \<open>Hashes\<close>

definition op_ripemd160 :: "hash_functions \<Rightarrow> handler" where
  "op_ripemd160 H p =
     (if primary p = [] then (error_op_ripemd160, p)
      else case prog_pop p of (v, p) \<Rightarrow> (error_success, push_item (ripemd160_hash H v) p))"

definition op_sha1 :: "hash_functions \<Rightarrow> handler" where
  "op_sha1 H p =
     (if primary p = [] then (error_op_sha1, p)
      else case prog_pop p of (v, p) \<Rightarrow> (error_success, push_item (sha1_hash H v) p))"

definition op_sha256 :: "hash_functions \<Rightarrow> handler" where
  "op_sha256 H p =
     (if primary p = [] then (error_op_sha256, p)
      else case prog_pop p of (v, p) \<Rightarrow> (error_success, push_item (sha256_hash H v) p))"

definition op_hash160 :: "hash_functions \<Rightarrow> handler" where
  "op_hash160 H p =
     (if primary p = [] then (error_op_hash160, p)
      else case prog_pop p of (v, p) \<Rightarrow> (error_success, push_item (ripemd160_hash H (sha256_hash H v)) p))"

definition op_hash256 :: "hash_functions \<Rightarrow> handler" where
  "op_hash256 H p =
     (if primary p = [] then (error_op_hash256, p)
      else case prog_pop p of (v, p) \<Rightarrow> (error_success, push_item (sha256_hash H (sha256_hash H v)) p))"

subsection \<open>Signatures\<close>

definition op_codeseparator :: "currency \<Rightarrow> nat option \<Rightarrow> handler" where
  "op_codeseparator cur pos p =
     (case set_jump_register cur pos 1 p of
        (True, p) \<Rightarrow> (error_success, p)
      | (False, p) \<Rightarrow> (error_op_code_seperator, p))"

text \<open>The code a signature commits to, and the version that selects the signature hash.\<close>

definition signed_code :: "currency \<Rightarrow> data_chunk list \<Rightarrow> program \<Rightarrow> script" where
  "signed_code cur endorsements p =
     (let bip143 = is_enabled (prog_forks p) bip143_rule;
          script_code = script_from_operations (subscript cur p)
      in if bip143 \<and> prog_version p = version_zero then script_code
         else find_and_delete cur endorsements script_code)"

definition signed_version :: "program \<Rightarrow> script_version" where
  "signed_version p = (if is_enabled (prog_forks p) bip143_rule then prog_version p else version_unversioned)"

definition op_check_sig_verify :: "currency \<Rightarrow> hash_functions \<Rightarrow> curve_functions \<Rightarrow> handler" where
  "op_check_sig_verify cur H E p =
     (if length (primary p) < 2 then (error_op_check_sig_verify1, p)
      else case prog_pop p of (public_key, p) \<Rightarrow> case prog_pop p of (endorsement, p) \<Rightarrow>
        (let bip66 = is_enabled (prog_forks p) bip66_rule;
             script_code = signed_code cur [endorsement] p
         in case parse_endorsement endorsement of
              None \<Rightarrow> (error_invalid_signature_encoding, p)
            | Some (sighash, distinguished) \<Rightarrow>
                (case parse_signature E distinguished bip66 of
                   None \<Rightarrow>
                     (if bip66 then error_invalid_signature_lax_encoding else error_invalid_signature_encoding, p)
                 | Some signature \<Rightarrow>
                     (if check_signature cur H E signature sighash public_key script_code (prog_transaction p)
                           (prog_input_index p) (signed_version p) (prog_value p)
                      then error_success else error_incorrect_signature, p))))"

definition op_check_sig :: "currency \<Rightarrow> hash_functions \<Rightarrow> curve_functions \<Rightarrow> handler" where
  "op_check_sig cur H E p =
     (case op_check_sig_verify cur H E p of
        (verified, p) \<Rightarrow>
          if verified = error_invalid_signature_lax_encoding then (error_op_check_sig, p)
          else (error_success, push_bool (verified = error_success) p))"

text \<open>
  The key loop of the multiple signature check starts at the key that validated the previous
  endorsement; it never runs without a key, since there are no more endorsements than keys.
\<close>

fun multisig_keys :: "(data_chunk \<Rightarrow> bool) \<Rightarrow> data_chunk list \<Rightarrow> data_chunk list option" where
  "multisig_keys check [] = None"
| "multisig_keys check (key # keys) =
     (if check key then Some (key # keys) else if keys = [] then None else multisig_keys check keys)"

fun multisig_loop ::
  "curve_functions \<Rightarrow> bool \<Rightarrow> (data_chunk \<Rightarrow> byte \<Rightarrow> data_chunk \<Rightarrow> bool) \<Rightarrow> data_chunk list \<Rightarrow> data_chunk list \<Rightarrow> code" where
  "multisig_loop E strict check [] keys = error_success"
| "multisig_loop E strict check (endorsement # endorsements) keys =
     (case parse_endorsement endorsement of
        None \<Rightarrow> error_invalid_signature_encoding
      | Some (sighash, distinguished) \<Rightarrow>
          (case parse_signature E distinguished strict of
             None \<Rightarrow> if strict then error_invalid_signature_lax_encoding else error_invalid_signature_encoding
           | Some signature \<Rightarrow>
               (case multisig_keys (check signature sighash) keys of
                  None \<Rightarrow> error_incorrect_signature
                | Some keys \<Rightarrow> multisig_loop E strict check endorsements keys)))"

definition multisig_verify ::
  "currency \<Rightarrow> hash_functions \<Rightarrow> curve_functions \<Rightarrow> data_chunk list \<Rightarrow> data_chunk list \<Rightarrow> program \<Rightarrow> code" where
  "multisig_verify cur H E public_keys endorsements p =
     (let script_code = signed_code cur endorsements p
      in multisig_loop E (is_enabled (prog_forks p) bip66_rule)
           (\<lambda>signature sighash public_key.
              check_signature cur H E signature sighash public_key script_code (prog_transaction p)
                (prog_input_index p) (signed_version p) (prog_value p))
           endorsements public_keys)"

text \<open>The second half of \<^verbatim>\<open>op_check_multisig_verify\<close>, from the number of signatures on.\<close>

definition multisig_signatures ::
  "currency \<Rightarrow> hash_functions \<Rightarrow> curve_functions \<Rightarrow> int \<Rightarrow> data_chunk list \<Rightarrow> handler" where
  "multisig_signatures cur H E key_count public_keys p =
     (case pop_int32 p of
        (None, p) \<Rightarrow> (error_op_check_multisig_verify4, p)
      | (Some signature_count, p) \<Rightarrow>
          if signature_count < 0 \<or> signature_count > key_count then (error_op_check_multisig_verify5, p)
          else
            (case pop_section (nat signature_count) p of
               (None, p) \<Rightarrow> (error_op_check_multisig_verify6, p)
             | (Some endorsements, p) \<Rightarrow>
                 if primary p = [] then (error_op_check_multisig_verify7, p)
                 else case prog_pop p of (extra, p) \<Rightarrow>
                   if extra \<noteq> [] \<and> is_enabled (prog_forks p) bip147_rule
                   then (error_op_check_multisig_verify8, p)
                   else (multisig_verify cur H E public_keys endorsements p, p)))"

definition op_check_multisig_verify :: "currency \<Rightarrow> hash_functions \<Rightarrow> curve_functions \<Rightarrow> handler" where
  "op_check_multisig_verify cur H E p =
     (case pop_int32 p of
        (None, p) \<Rightarrow> (error_op_check_multisig_verify1, p)
      | (Some key_count, p) \<Rightarrow>
          (case increment_public_keys key_count p of
             (False, p) \<Rightarrow> (error_op_check_multisig_verify2, p)
           | (True, p) \<Rightarrow>
               (case pop_section (nat key_count) p of
                  (None, p) \<Rightarrow> (error_op_check_multisig_verify3, p)
                | (Some public_keys, p) \<Rightarrow> multisig_signatures cur H E key_count public_keys p)))"

definition op_check_multisig :: "currency \<Rightarrow> hash_functions \<Rightarrow> curve_functions \<Rightarrow> handler" where
  "op_check_multisig cur H E p =
     (case op_check_multisig_verify cur H E p of
        (verified, p) \<Rightarrow>
          if verified = error_invalid_signature_lax_encoding then (error_op_check_multisig, p)
          else (error_success, push_bool (verified = error_success) p))"

subsection \<open>Locktimes\<close>

definition op_check_locktime_verify :: handler where
  "op_check_locktime_verify p =
     (if \<not> is_enabled (prog_forks p) bip65_rule then op_nop p
      else
        let tx = prog_transaction p; index = unat (prog_input_index p)
        in if index \<ge> length (tx_inputs tx) then (error_op_check_locktime_verify1, p)
           else if input_is_final (tx_inputs tx ! index) then (error_op_check_locktime_verify2, p)
           else case top_number max_check_locktime_verify_number_size p of
                  None \<Rightarrow> (error_op_check_locktime_verify3, p)
                | Some stack \<Rightarrow>
                    if int64 stack < 0 then (error_op_check_locktime_verify4, p)
                    else if (unat stack < locktime_threshold) \<noteq> (unat (tx_locktime tx) < locktime_threshold)
                      then (error_op_check_locktime_verify5, p)
                    else (if stack > ucast (tx_locktime tx) then error_op_check_locktime_verify6
                          else error_success, p))"

definition op_check_sequence_verify :: handler where
  "op_check_sequence_verify p =
     (if \<not> is_enabled (prog_forks p) bip112_rule then op_nop p
      else
        let tx = prog_transaction p; index = unat (prog_input_index p)
        in if index \<ge> length (tx_inputs tx) then (error_op_check_sequence_verify1, p)
           else case top_number max_check_sequence_verify_number_size p of
                  None \<Rightarrow> (error_op_check_sequence_verify2, p)
                | Some stack \<Rightarrow>
                    if int64 stack < 0 then (error_op_check_sequence_verify3, p)
                    else if stack AND ucast relative_locktime_disabled \<noteq> 0 then op_nop p
                    else if unat (tx_version tx) < relative_locktime_min_version
                      then (error_op_check_sequence_verify4, p)
                    else
                      let tx_sequence = sequence (tx_inputs tx ! index)
                      in if tx_sequence AND relative_locktime_disabled \<noteq> 0
                           then (error_op_check_sequence_verify5, p)
                         else if stack AND ucast relative_locktime_time_locked \<noteq>
                             ucast (tx_sequence AND relative_locktime_time_locked)
                           then (error_op_check_sequence_verify6, p)
                         else (if stack AND ucast relative_locktime_mask >
                                 ucast (tx_sequence AND relative_locktime_mask)
                               then error_op_check_sequence_verify7 else error_success, p))"

subsection \<open>The jump table\<close>

text \<open>The switch in four parts: pushes, control and stack, numbers, hashes and signatures.\<close>

abbreviation (input) opcode_verify :: opcode where "opcode_verify \<equiv> 105"
abbreviation (input) opcode_toaltstack :: opcode where "opcode_toaltstack \<equiv> 107"
abbreviation (input) opcode_fromaltstack :: opcode where "opcode_fromaltstack \<equiv> 108"
abbreviation (input) opcode_drop2 :: opcode where "opcode_drop2 \<equiv> 109"
abbreviation (input) opcode_dup2 :: opcode where "opcode_dup2 \<equiv> 110"
abbreviation (input) opcode_dup3 :: opcode where "opcode_dup3 \<equiv> 111"
abbreviation (input) opcode_over2 :: opcode where "opcode_over2 \<equiv> 112"
abbreviation (input) opcode_rot2 :: opcode where "opcode_rot2 \<equiv> 113"
abbreviation (input) opcode_swap2 :: opcode where "opcode_swap2 \<equiv> 114"
abbreviation (input) opcode_ifdup :: opcode where "opcode_ifdup \<equiv> 115"
abbreviation (input) opcode_depth :: opcode where "opcode_depth \<equiv> 116"
abbreviation (input) opcode_drop :: opcode where "opcode_drop \<equiv> 117"
abbreviation (input) opcode_nip :: opcode where "opcode_nip \<equiv> 119"
abbreviation (input) opcode_over :: opcode where "opcode_over \<equiv> 120"
abbreviation (input) opcode_pick :: opcode where "opcode_pick \<equiv> 121"
abbreviation (input) opcode_roll :: opcode where "opcode_roll \<equiv> 122"
abbreviation (input) opcode_rot :: opcode where "opcode_rot \<equiv> 123"
abbreviation (input) opcode_swap :: opcode where "opcode_swap \<equiv> 124"
abbreviation (input) opcode_tuck :: opcode where "opcode_tuck \<equiv> 125"
abbreviation (input) disabled_cat :: opcode where "disabled_cat \<equiv> 126"
abbreviation (input) disabled_substr :: opcode where "disabled_substr \<equiv> 127"
abbreviation (input) disabled_left :: opcode where "disabled_left \<equiv> 128"
abbreviation (input) disabled_right :: opcode where "disabled_right \<equiv> 129"
abbreviation (input) opcode_size :: opcode where "opcode_size \<equiv> 130"
abbreviation (input) disabled_invert :: opcode where "disabled_invert \<equiv> 131"
abbreviation (input) disabled_and :: opcode where "disabled_and \<equiv> 132"
abbreviation (input) disabled_or :: opcode where "disabled_or \<equiv> 133"
abbreviation (input) opcode_add1 :: opcode where "opcode_add1 \<equiv> 139"
abbreviation (input) opcode_sub1 :: opcode where "opcode_sub1 \<equiv> 140"
abbreviation (input) disabled_mul2 :: opcode where "disabled_mul2 \<equiv> 141"
abbreviation (input) disabled_div2 :: opcode where "disabled_div2 \<equiv> 142"
abbreviation (input) opcode_negate :: opcode where "opcode_negate \<equiv> 143"
abbreviation (input) opcode_abs :: opcode where "opcode_abs \<equiv> 144"
abbreviation (input) opcode_not :: opcode where "opcode_not \<equiv> 145"
abbreviation (input) opcode_nonzero :: opcode where "opcode_nonzero \<equiv> 146"
abbreviation (input) opcode_add :: opcode where "opcode_add \<equiv> 147"
abbreviation (input) opcode_sub :: opcode where "opcode_sub \<equiv> 148"
abbreviation (input) disabled_mul :: opcode where "disabled_mul \<equiv> 149"
abbreviation (input) disabled_div :: opcode where "disabled_div \<equiv> 150"
abbreviation (input) disabled_mod :: opcode where "disabled_mod \<equiv> 151"
abbreviation (input) disabled_lshift :: opcode where "disabled_lshift \<equiv> 152"
abbreviation (input) disabled_rshift :: opcode where "disabled_rshift \<equiv> 153"
abbreviation (input) opcode_booland :: opcode where "opcode_booland \<equiv> 154"
abbreviation (input) opcode_boolor :: opcode where "opcode_boolor \<equiv> 155"
abbreviation (input) opcode_numequal :: opcode where "opcode_numequal \<equiv> 156"
abbreviation (input) opcode_numequalverify :: opcode where "opcode_numequalverify \<equiv> 157"
abbreviation (input) opcode_numnotequal :: opcode where "opcode_numnotequal \<equiv> 158"
abbreviation (input) opcode_lessthan :: opcode where "opcode_lessthan \<equiv> 159"
abbreviation (input) opcode_greaterthan :: opcode where "opcode_greaterthan \<equiv> 160"
abbreviation (input) opcode_lessthanorequal :: opcode where "opcode_lessthanorequal \<equiv> 161"
abbreviation (input) opcode_greaterthanorequal :: opcode where "opcode_greaterthanorequal \<equiv> 162"
abbreviation (input) opcode_min :: opcode where "opcode_min \<equiv> 163"
abbreviation (input) opcode_max :: opcode where "opcode_max \<equiv> 164"
abbreviation (input) opcode_within :: opcode where "opcode_within \<equiv> 165"
abbreviation (input) opcode_ripemd160 :: opcode where "opcode_ripemd160 \<equiv> 166"
abbreviation (input) opcode_sha1 :: opcode where "opcode_sha1 \<equiv> 167"
abbreviation (input) opcode_sha256 :: opcode where "opcode_sha256 \<equiv> 168"
abbreviation (input) opcode_hash256 :: opcode where "opcode_hash256 \<equiv> 170"
abbreviation (input) opcode_nop1 :: opcode where "opcode_nop1 \<equiv> 176"
abbreviation (input) opcode_checklocktimeverify :: opcode where "opcode_checklocktimeverify \<equiv> 177"
abbreviation (input) opcode_checksequenceverify :: opcode where "opcode_checksequenceverify \<equiv> 178"
abbreviation (input) opcode_nop4 :: opcode where "opcode_nop4 \<equiv> 179"
abbreviation (input) opcode_nop5 :: opcode where "opcode_nop5 \<equiv> 180"
abbreviation (input) opcode_nop6 :: opcode where "opcode_nop6 \<equiv> 181"
abbreviation (input) opcode_nop7 :: opcode where "opcode_nop7 \<equiv> 182"
abbreviation (input) opcode_nop8 :: opcode where "opcode_nop8 \<equiv> 183"
abbreviation (input) opcode_nop9 :: opcode where "opcode_nop9 \<equiv> 184"
abbreviation (input) opcode_nop10 :: opcode where "opcode_nop10 \<equiv> 185"

definition run_push :: "operation \<Rightarrow> handler" where
  "run_push op =
     (let code = op_code op in
      if code \<le> push_size_75 then op_push_size op
      else if code = push_one_size then op_push_data (op_data op) max_uint8
      else if code = push_two_size then op_push_data (op_data op) max_uint16
      else if code = push_four_size then op_push_data (op_data op) max_uint32
      else if code = push_negative_1 then op_push_number negative_1
      else if code = reserved_80 then op_reserved
      else op_push_number (opcode_to_positive code))"

definition run_control :: "opcode \<Rightarrow> handler" where
  "run_control code =
     (
      if code = opcode_nop then op_nop
      else if code = reserved_98 then op_reserved
      else if code = opcode_if then op_if
      else if code = opcode_notif then op_notif
      else if code = disabled_verif then op_disabled
      else if code = disabled_vernotif then op_disabled
      else if code = opcode_else then op_else
      else if code = opcode_endif then op_endif
      else if code = opcode_verify then op_verify
      else if code = opcode_return then op_return
      else if code = opcode_toaltstack then op_to_alt_stack
      else if code = opcode_fromaltstack then op_from_alt_stack
      else if code = opcode_drop2 then op_drop2
      else if code = opcode_dup2 then op_dup2
      else if code = opcode_dup3 then op_dup3
      else if code = opcode_over2 then op_over2
      else if code = opcode_rot2 then op_rot2
      else if code = opcode_swap2 then op_swap2
      else if code = opcode_ifdup then op_if_dup
      else if code = opcode_depth then op_depth
      else if code = opcode_drop then op_drop
      else if code = opcode_dup then op_dup
      else if code = opcode_nip then op_nip
      else if code = opcode_over then op_over
      else if code = opcode_pick then op_pick
      else if code = opcode_roll then op_roll
      else if code = opcode_rot then op_rot
      else if code = opcode_swap then op_swap
      else if code = opcode_tuck then op_tuck
      else if code = disabled_cat then op_disabled
      else if code = disabled_substr then op_disabled
      else if code = disabled_left then op_disabled
      else if code = disabled_right then op_disabled
      else if code = opcode_size then op_size
      else if code = disabled_invert then op_disabled
      else if code = disabled_and then op_disabled
      else if code = disabled_or then op_disabled
      else if code = disabled_xor then op_disabled
      else if code = opcode_equal then op_equal
      else if code = opcode_equalverify then op_equal_verify
      else if code = reserved_137 then op_reserved
      else if code = reserved_138 then op_reserved
      else op_reserved)"

definition run_number :: "opcode \<Rightarrow> handler" where
  "run_number code =
     (
      if code = opcode_add1 then op_add1
      else if code = opcode_sub1 then op_sub1
      else if code = disabled_mul2 then op_disabled
      else if code = disabled_div2 then op_disabled
      else if code = opcode_negate then op_negate
      else if code = opcode_abs then op_abs
      else if code = opcode_not then op_not
      else if code = opcode_nonzero then op_nonzero
      else if code = opcode_add then op_add
      else if code = opcode_sub then op_sub
      else if code = disabled_mul then op_disabled
      else if code = disabled_div then op_disabled
      else if code = disabled_mod then op_disabled
      else if code = disabled_lshift then op_disabled
      else if code = disabled_rshift then op_disabled
      else if code = opcode_booland then op_bool_and
      else if code = opcode_boolor then op_bool_or
      else if code = opcode_numequal then op_num_equal
      else if code = opcode_numequalverify then op_num_equal_verify
      else if code = opcode_numnotequal then op_num_not_equal
      else if code = opcode_lessthan then op_less_than
      else if code = opcode_greaterthan then op_greater_than
      else if code = opcode_lessthanorequal then op_less_than_or_equal
      else if code = opcode_greaterthanorequal then op_greater_than_or_equal
      else if code = opcode_min then op_min
      else if code = opcode_max then op_max
      else if code = opcode_within then op_within
      else op_reserved)"

definition run_crypto :: "currency \<Rightarrow> hash_functions \<Rightarrow> curve_functions \<Rightarrow> nat option \<Rightarrow> opcode \<Rightarrow> handler" where
  "run_crypto cur H E pos code =
     (
      if code = opcode_ripemd160 then op_ripemd160 H
      else if code = opcode_sha1 then op_sha1 H
      else if code = opcode_sha256 then op_sha256 H
      else if code = opcode_hash160 then op_hash160 H
      else if code = opcode_hash256 then op_hash256 H
      else if code = opcode_codeseparator then op_codeseparator cur pos
      else if code = opcode_checksig then op_check_sig cur H E
      else if code = opcode_checksigverify then op_check_sig_verify cur H E
      else if code = opcode_checkmultisig then op_check_multisig cur H E
      else if code = opcode_checkmultisigverify then op_check_multisig_verify cur H E
      else if code = opcode_nop1 then op_nop
      else if code = opcode_checklocktimeverify then op_check_locktime_verify
      else if code = opcode_checksequenceverify then op_check_sequence_verify
      else if code \<ge> opcode_nop4 \<and> code \<le> opcode_nop10 then op_nop
      else op_reserved)"

definition run_op :: "currency \<Rightarrow> hash_functions \<Rightarrow> curve_functions \<Rightarrow> nat option \<Rightarrow> operation \<Rightarrow> handler" where
  "run_op cur H E pos op =
     (let code = op_code op in
      if code \<le> push_positive_16 then run_push op
      else if code \<le> reserved_138 then run_control code
      else if code \<le> opcode_within then run_number code
      else run_crypto cur H E pos code)"

subsection \<open>Evaluation\<close>

text \<open>One iteration of the loop over the operations of the script.\<close>

definition run_step :: "currency \<Rightarrow> hash_functions \<Rightarrow> curve_functions \<Rightarrow> nat \<Rightarrow> operation \<Rightarrow> handler" where
  "run_step cur H E i op p =
     (if is_oversized op then (error_invalid_push_data_size, p)
      else if opcode_is_disabled (op_code op) then (error_op_disabled, p)
      else case increment_operation_count op p of
        (False, p) \<Rightarrow> (error_invalid_operation_count, p)
      | (True, p) \<Rightarrow>
          if executes op p then
            (case run_op cur H E (Some i) op p of
               (ec, p) \<Rightarrow>
                 if ec \<noteq> error_success then (ec, p)
                 else if is_stack_overflow p then (error_invalid_stack_size, p)
                 else (error_success, p))
          else (error_success, p))"

fun run_loop :: "currency \<Rightarrow> hash_functions \<Rightarrow> curve_functions \<Rightarrow> nat \<Rightarrow> operation list \<Rightarrow> handler" where
  "run_loop cur H E i [] p = (error_success, p)"
| "run_loop cur H E i (op # ops) p =
     (case run_step cur H E i op p of
        (ec, p) \<Rightarrow> if ec \<noteq> error_success then (ec, p) else run_loop cur H E (Suc i) ops p)"

definition run_program :: "currency \<Rightarrow> hash_functions \<Rightarrow> curve_functions \<Rightarrow> handler" where
  "run_program cur H E p =
     (if \<not> program_is_valid cur p then (error_invalid_script, p)
      else case run_loop cur H E 0 (script_operations cur (prog_script p)) p of
        (ec, p) \<Rightarrow>
          if ec \<noteq> error_success then (ec, p)
          else (if closed p then error_success else error_invalid_stack_scope, p))"

text \<open>\<^verbatim>\<open>program::evaluate(op)\<close>: an operation outside the script.\<close>

definition run_operation :: "currency \<Rightarrow> hash_functions \<Rightarrow> curve_functions \<Rightarrow> operation \<Rightarrow> handler" where
  "run_operation cur H E op = run_op cur H E None op"

end
