(* ===== verification/Evaluation.thy ===== *)
theory Evaluation
  imports Interpreter
begin

text \<open>
  What every script evaluation keeps.  The locale \<open>data_invariant\<close> is the interface between the
  interpreter and a property of programs: the property survives the few ways the stacks and
  registers are changed, so it survives every handler that is not conditional.  Its extension
  \<open>program_invariant\<close> adds the conditional stack, and the property survives every run.  They are
  interpreted on the conditional stack, on the counter of false conditions, on the read-only
  part of the program and on the jump register.
\<close>

definition keeps :: "(program \<Rightarrow> bool) \<Rightarrow> handler \<Rightarrow> bool" where
  "keeps I h \<longleftrightarrow> (\<forall>p. I p \<longrightarrow> I (snd (h p)))"

lemma keepsI: "(\<And>p. I p \<Longrightarrow> I (snd (h p))) \<Longrightarrow> keeps I h"
  by (simp add: keeps_def)

lemma keepsD: "keeps I h \<Longrightarrow> I p \<Longrightarrow> I (snd (h p))"
  by (simp add: keeps_def)

lemma keeps_if: "(c \<Longrightarrow> keeps I f) \<Longrightarrow> (\<not> c \<Longrightarrow> keeps I g) \<Longrightarrow> keeps I (if c then f else g)"
  by simp

lemmas pop_defs = pop_number_def pop_int32_def pop_binary_def pop_ternary_def pop_position_def pop_section_def

locale data_invariant =
  fixes cur :: currency
    and I :: "program \<Rightarrow> bool"
  assumes I_primary: "I p \<Longrightarrow> I (p\<lparr>primary := st\<rparr>)"
    and I_alternate: "I p \<Longrightarrow> I (p\<lparr>alternate := st\<rparr>)"
    and I_count: "I p \<Longrightarrow> I (p\<lparr>operation_count := n\<rparr>)"
    and I_jump: "I p \<Longrightarrow> j \<le> length (script_operations cur (prog_script p)) \<Longrightarrow> I (p\<lparr>jump := j\<rparr>)"
begin

lemma primitives:
  assumes "I p"
  shows "I (push_item v p)" "I (push_bool b p)" "I (snd (prog_pop p))" "I (duplicate i p)" "I (prog_swap i j p)"
    "I (prog_erase i p)" "I (prog_erase_range i j p)" "I (push_alternate v p)" "I (snd (pop_alternate p))"
  using assms by (simp_all add: program_defs I_primary I_alternate)

lemma pop_keeps:
  assumes "I p"
  shows "I (snd (pop_number n p))" "I (snd (pop_int32 p))" "I (snd (pop_binary p))" "I (snd (pop_ternary p))"
    "I (snd (pop_position p))" "I (snd (pop_section m p))" "I (snd (increment_public_keys k p))"
    "I (snd (increment_operation_count op p))"
  using assms
  by (auto simp: pop_defs prog_pop_def increment_public_keys_def increment_operation_count_def Let_def
      I_primary I_count split: option.splits prod.splits)

text \<open>The shapes a handler is built from.\<close>

lemma shapes:
  "I p \<Longrightarrow> I (snd (c, p))"
  "I (snd m) \<Longrightarrow> (\<And>a p. I p \<Longrightarrow> I (snd (f a p))) \<Longrightarrow> I (snd (case m of (a, p) \<Rightarrow> f a p))"
  "I (snd n) \<Longrightarrow> (\<And>x. I (snd (s x))) \<Longrightarrow> I (snd (case q of None \<Rightarrow> n | Some x \<Rightarrow> s x))"
  "(b \<Longrightarrow> I (snd m)) \<Longrightarrow> (\<not> b \<Longrightarrow> I (snd n)) \<Longrightarrow> I (snd (if b then m else n))"
  "I (snd m) \<Longrightarrow> I (snd n) \<Longrightarrow> I (snd (case b of True \<Rightarrow> m | False \<Rightarrow> n))"
  "(\<And>x y. I (snd (g x y))) \<Longrightarrow> I (snd (case z of (x, y) \<Rightarrow> g x y))"
  by (auto split: prod.splits option.splits bool.splits)

lemma either: "I a \<Longrightarrow> I b \<Longrightarrow> I (if c then a else b)"
  by simp

lemmas keep_rules = keepsI shapes(1-5) either primitives pop_keeps

lemma keeps_shared:
  "keeps I op_nop" "keeps I op_disabled" "keeps I op_reserved" "keeps I op_return"
  "keeps I (op_push_number v)" "keeps I (op_push_size op)" "keeps I (op_push_data d n)"
  by (auto simp: keeps_def op_nop_def op_disabled_def op_reserved_def op_return_def op_push_number_def
      op_push_size_def op_push_data_def primitives)

lemma keeps_verify: "keeps I op_verify"
  by (auto simp: keeps_def op_verify_def intro: primitives)

lemma keeps_stack:
  "keeps I op_to_alt_stack" "keeps I op_from_alt_stack" "keeps I op_drop2" "keeps I op_dup2" "keeps I op_dup3"
  "keeps I op_over2" "keeps I op_rot2" "keeps I op_swap2" "keeps I op_if_dup" "keeps I op_depth" "keeps I op_drop"
  "keeps I op_dup" "keeps I op_nip" "keeps I op_over" "keeps I op_pick" "keeps I op_roll" "keeps I op_rot"
  "keeps I op_swap" "keeps I op_tuck" "keeps I op_size" "keeps I op_equal" "keeps I op_equal_verify"
  unfolding op_to_alt_stack_def op_from_alt_stack_def op_drop2_def op_dup2_def op_dup3_def op_over2_def op_rot2_def
    op_swap2_def op_if_dup_def op_depth_def op_drop_def op_dup_def op_nip_def op_over_def op_pick_def op_roll_def
    op_rot_def op_swap_def op_tuck_def op_size_def op_equal_def op_equal_verify_def
  by (intro keep_rules shapes(6); assumption)+

lemma keeps_arithmetic:
  "keeps I op_add1" "keeps I op_sub1" "keeps I op_negate" "keeps I op_abs" "keeps I op_not" "keeps I op_nonzero"
  "keeps I op_add" "keeps I op_sub" "keeps I op_bool_and" "keeps I op_bool_or" "keeps I op_num_equal"
  "keeps I op_num_equal_verify" "keeps I op_num_not_equal" "keeps I op_less_than" "keeps I op_greater_than"
  "keeps I op_less_than_or_equal" "keeps I op_greater_than_or_equal" "keeps I op_min" "keeps I op_max"
  "keeps I op_within"
  unfolding op_add1_def op_sub1_def op_negate_def op_abs_def op_not_def op_nonzero_def op_add_def op_sub_def
    op_bool_and_def op_bool_or_def op_num_equal_def op_num_equal_verify_def op_num_not_equal_def op_less_than_def
    op_greater_than_def op_less_than_or_equal_def op_greater_than_or_equal_def op_min_def op_max_def op_within_def
  by (intro keep_rules shapes(6); assumption)+

lemma keeps_hash:
  "keeps I (op_ripemd160 H)" "keeps I (op_sha1 H)" "keeps I (op_sha256 H)" "keeps I (op_hash160 H)"
  "keeps I (op_hash256 H)"
  unfolding op_ripemd160_def op_sha1_def op_sha256_def op_hash160_def op_hash256_def
  by (intro keep_rules; assumption)+

lemma keeps_codeseparator: "keeps I (op_codeseparator cur pos)"
  by (auto simp: keeps_def op_codeseparator_def set_jump_register_def Let_def I_jump split: option.splits)

lemma keeps_check_sig_verify: "keeps I (op_check_sig_verify cur' H E)"
  unfolding op_check_sig_verify_def Let_def
  by (intro keep_rules shapes(6); assumption)

lemma keeps_multisig_signatures: "keeps I (multisig_signatures cur' H E k keys)"
  unfolding multisig_signatures_def
  by (intro keep_rules shapes(6); assumption)

lemma keeps_check_multisig_verify: "keeps I (op_check_multisig_verify cur' H E)"
  unfolding op_check_multisig_verify_def
  by (intro keep_rules keepsD [OF keeps_multisig_signatures]; assumption)

lemma keeps_checks: "keeps I (op_check_sig cur' H E)" "keeps I (op_check_multisig cur' H E)"
  unfolding op_check_sig_def op_check_multisig_def
  by (intro keep_rules keepsD [OF keeps_check_sig_verify] keepsD [OF keeps_check_multisig_verify]; assumption)+

lemma keeps_locktime: "keeps I op_check_locktime_verify" "keeps I op_check_sequence_verify"
  by (auto simp: keeps_def op_check_locktime_verify_def op_check_sequence_verify_def op_nop_def Let_def
      split: option.splits)

lemmas keeps_data_handlers = keeps_shared keeps_verify keeps_stack keeps_arithmetic keeps_hash keeps_codeseparator
  keeps_check_sig_verify keeps_check_multisig_verify keeps_checks keeps_locktime

lemma keeps_run_data: "\<not> opcode_is_conditional (op_code op) \<Longrightarrow> keeps I (run_op cur H E pos op)"
  unfolding run_op_def run_push_def run_control_def run_number_def run_crypto_def Let_def
  by (intro keeps_if keeps_data_handlers) (simp_all add: opcode_is_conditional_def)

end

locale program_invariant = data_invariant +
  assumes I_open: "I p \<Longrightarrow> I (open_condition v p)"
    and I_negate: "I p \<Longrightarrow> \<not> closed p \<Longrightarrow> I (negate_condition p)"
    and I_close: "I p \<Longrightarrow> \<not> closed p \<Longrightarrow> I (close_condition p)"
begin

lemma keeps_flow: "keeps I op_if" "keeps I op_notif" "keeps I op_else" "keeps I op_endif"
  by (auto simp: keeps_def op_if_def op_notif_def op_else_def op_endif_def
      intro: primitives I_open I_negate I_close)

lemma keeps_run_op: "keeps I (run_op cur H E pos op)"
  unfolding run_op_def run_push_def run_control_def run_number_def run_crypto_def Let_def
  by (intro keeps_if keeps_data_handlers keeps_flow)

lemma keeps_run_step: "keeps I (run_step cur H E i op)"
  unfolding run_step_def
  by (intro keep_rules keepsD [OF keeps_run_op]; assumption)

lemma keeps_run_loop: "keeps I (run_loop cur H E i ops)"
proof (induction ops arbitrary: i)
  case Nil
  then show ?case by (simp add: keeps_def)
next
  case (Cons op ops)
  show ?case
    unfolding keeps_def run_loop.simps
    by (intro allI impI shapes keepsD [OF keeps_run_step] keepsD [OF Cons]; assumption)
qed

lemma keeps_run_program: "keeps I (run_program cur H E)"
  unfolding run_program_def
  by (intro keep_rules keepsD [OF keeps_run_loop]; assumption)

end

subsection \<open>Interpretations\<close>

text \<open>The counter of \<open>succeeded\<close> counts the false conditions.\<close>

definition counter_exact :: "program \<Rightarrow> bool" where
  "counter_exact p \<longleftrightarrow> negative_count p = length (filter Not (condition p))"

interpretation counter: program_invariant cur counter_exact for cur
proof unfold_locales
  fix p v
  show "counter_exact p \<Longrightarrow> counter_exact (open_condition v p)"
    by (simp add: counter_exact_def open_condition_def)
  assume "counter_exact p" and "\<not> closed p"
  then show "counter_exact (negate_condition p)" "counter_exact (close_condition p)"
    by (cases "condition p"; simp add: counter_exact_def negate_condition_def close_condition_def closed_def)+
qed (simp_all add: counter_exact_def)

text \<open>What a program is constructed with never changes.\<close>

definition same_inputs :: "program \<Rightarrow> program \<Rightarrow> bool" where
  "same_inputs p p' \<longleftrightarrow>
     prog_script p' = prog_script p \<and> prog_transaction p' = prog_transaction p \<and>
     prog_input_index p' = prog_input_index p \<and> prog_forks p' = prog_forks p \<and>
     prog_value p' = prog_value p \<and> prog_version p' = prog_version p"

interpretation frame: program_invariant cur "same_inputs p0" for cur p0
  by unfold_locales (auto simp: same_inputs_def open_condition_def negate_condition_def close_condition_def Let_def)

text \<open>The jump register stays inside the script.\<close>

definition jump_inside :: "currency \<Rightarrow> program \<Rightarrow> bool" where
  "jump_inside cur p \<longleftrightarrow> jump p \<le> length (script_operations cur (prog_script p))"

interpretation jump_register: program_invariant cur "jump_inside cur" for cur
  by unfold_locales (auto simp: jump_inside_def open_condition_def negate_condition_def close_condition_def Let_def)

text \<open>Only conditional operations change the conditional stack.\<close>

interpretation conditions: data_invariant cur "\<lambda>p. condition p = cs" for cur cs
  by unfold_locales simp_all

subsection \<open>Conditional nesting\<close>

definition opens :: "operation \<Rightarrow> bool" where
  "opens op \<longleftrightarrow> op_code op = opcode_if \<or> op_code op = opcode_notif"

definition closes :: "operation \<Rightarrow> bool" where
  "closes op \<longleftrightarrow> op_code op = opcode_endif"

lemma increment_condition: "condition (snd (increment_operation_count op p)) = condition p"
  by (simp add: increment_operation_count_def Let_def)

lemma run_op_depth:
  assumes "run_op cur H E pos op p = (error_success, p')"
  shows "length (condition p') + (if closes op then 1 else 0) = length (condition p) + (if opens op then 1 else 0)"
proof (cases "opcode_is_conditional (op_code op)")
  case False
  then have "condition p' = condition p"
    using keepsD [OF conditions.keeps_run_data [OF False, where cs = "condition p"], of p cur H E pos] assms by simp
  then show ?thesis using False by (simp add: opens_def closes_def opcode_is_conditional_def)
next
  case True
  then consider "op_code op = opcode_if" | "op_code op = opcode_notif" | "op_code op = opcode_else"
    | "op_code op = opcode_endif" by (auto simp: opcode_is_conditional_def)
  then show ?thesis
  proof cases
    case 1
    then show ?thesis using assms
      by (auto simp: run_op_def run_control_def op_if_def prog_pop_def open_condition_def opens_def closes_def split: if_splits)
  next
    case 2
    then show ?thesis using assms
      by (auto simp: run_op_def run_control_def op_notif_def prog_pop_def open_condition_def opens_def closes_def split: if_splits)
  next
    case 3
    then show ?thesis using assms
      by (cases "condition p") (auto simp: run_op_def run_control_def op_else_def negate_condition_def closed_def Let_def
          opens_def closes_def split: if_splits)
  next
    case 4
    then show ?thesis using assms
      by (cases "condition p") (auto simp: run_op_def run_control_def op_endif_def close_condition_def closed_def Let_def
          opens_def closes_def split: if_splits)
  qed
qed

text \<open>The cases of a successful step.\<close>

lemma run_step_success:
  assumes "run_step cur H E i op p = (error_success, p')"
  obtains q where "\<not> is_oversized op" "\<not> opcode_is_disabled (op_code op)"
    "increment_operation_count op p = (True, q)"
    "if executes op q then run_op cur H E (Some i) op q = (error_success, p') \<and> \<not> is_stack_overflow p' else p' = q"
proof -
  have 1: "\<not> is_oversized op" "\<not> opcode_is_disabled (op_code op)"
    using assms by (auto simp: run_step_def split: if_splits)
  obtain ok q where q: "increment_operation_count op p = (ok, q)" by fastforce
  with assms 1 have "ok" by (cases ok) (auto simp: run_step_def split: if_splits)
  moreover have "if executes op q then run_op cur H E (Some i) op q = (error_success, p') \<and> \<not> is_stack_overflow p'
      else p' = q"
    using assms 1 q \<open>ok\<close> by (auto simp: run_step_def split: if_splits prod.splits)
  ultimately show thesis using that 1 q by simp
qed

lemma run_step_depth:
  assumes "run_step cur H E i op p = (error_success, p')"
  shows "length (condition p') + (if closes op then 1 else 0) = length (condition p) + (if opens op then 1 else 0)"
  using assms
proof (rule run_step_success)
  fix q
  assume "increment_operation_count op p = (True, q)"
  then have q: "condition q = condition p" using increment_condition [of op p] by simp
  assume step: "if executes op q then run_op cur H E (Some i) op q = (error_success, p') \<and> \<not> is_stack_overflow p' else p' = q"
  show ?thesis
  proof (cases "executes op q")
    case True
    then show ?thesis using step run_op_depth [of cur H E "Some i" op q p'] q by simp
  next
    case False
    then show ?thesis using step q
      by (simp add: executes_def opens_def closes_def opcode_is_conditional_def)
  qed
qed

lemma run_loop_depth:
  "run_loop cur H E i ops p = (error_success, p') \<Longrightarrow>
   length (condition p') + length (filter closes ops) = length (condition p) + length (filter opens ops)"
proof (induction ops arbitrary: i p)
  case (Cons op ops)
  then obtain q where "run_step cur H E i op p = (error_success, q)"
      "run_loop cur H E (Suc i) ops q = (error_success, p')"
    by (auto split: prod.splits if_splits)
  then show ?case using run_step_depth [of cur H E i op p q] Cons.IH [of "Suc i" q] by (auto split: if_splits)
qed simp

lemma run_loop_operations:
  "run_loop cur H E i ops p = (error_success, p') \<Longrightarrow>
   list_all (\<lambda>op. \<not> is_oversized op \<and> \<not> opcode_is_disabled (op_code op)) ops"
proof (induction ops arbitrary: i p)
  case (Cons op ops)
  then obtain q where "run_step cur H E i op p = (error_success, q)"
      "run_loop cur H E (Suc i) ops q = (error_success, p')"
    by (auto split: prod.splits if_splits)
  then show ?case using Cons.IH [of "Suc i" q] by (auto elim: run_step_success)
qed simp

lemma run_loop_stack:
  "run_loop cur H E i ops p = (error_success, p') \<Longrightarrow>
   \<not> is_stack_overflow p' \<or> (primary p' = primary p \<and> alternate p' = alternate p)"
proof (induction ops arbitrary: i p)
  case (Cons op ops)
  then obtain q where step: "run_step cur H E i op p = (error_success, q)"
      "run_loop cur H E (Suc i) ops q = (error_success, p')"
    by (auto split: prod.splits if_splits)
  from step(1) have "\<not> is_stack_overflow q \<or> (primary q = primary p \<and> alternate q = alternate p)"
  proof (rule run_step_success)
    fix r
    assume "increment_operation_count op p = (True, r)"
      and "if executes op r then run_op cur H E (Some i) op r = (error_success, q) \<and> \<not> is_stack_overflow q else q = r"
    then show ?thesis by (auto simp: increment_operation_count_def Let_def split: if_splits)
  qed
  then show ?case using Cons.IH [OF step(2)] by (auto simp: is_stack_overflow_def)
qed simp

lemma run_program_success:
  assumes "run_program cur H E p = (error_success, p')"
  shows "program_is_valid cur p" "run_loop cur H E 0 (script_operations cur (prog_script p)) p = (error_success, p')"
    "closed p'"
  using assms by (auto simp: run_program_def split: if_splits prod.splits)

subsection \<open>Numbers on the stack\<close>

lemma sint_nonneg_unat: "0 \<le> int64 v \<Longrightarrow> int64 v = int (unat v)"
proof -
  assume "0 \<le> int64 v"
  moreover have "int64 v < 2 ^ 64" using sint_less [of v] by simp
  ultimately have "take_bit 64 (int64 v) = int64 v" by (simp add: take_bit_int_eq_self)
  moreover have "uint v = take_bit 64 (int64 v)" by (simp add: uint_sint)
  ultimately show ?thesis by simp
qed

lemma top_number_value:
  assumes "n \<le> 8" and "primary p \<noteq> []"
  shows "top_number n p = (if length (hd (primary p)) > n then None
    else Some (the (set_data (hd (primary p)) n))) \<and>
    (length (hd (primary p)) \<le> n \<longrightarrow> int64 (the (set_data (hd (primary p)) n)) = script_value (hd (primary p)))"
  using assms set_data_value [of "hd (primary p)" n]
  by (auto simp: top_number_def item_def hd_conv_nth set_data_def)

lemma check_locktime_success:
  assumes "is_enabled (prog_forks p) bip65_rule"
  shows "fst (op_check_locktime_verify p) = error_success \<longleftrightarrow>
    unat (prog_input_index p) < length (tx_inputs (prog_transaction p)) \<and>
    sequence (tx_inputs (prog_transaction p) ! unat (prog_input_index p)) \<noteq> 0xffffffff \<and>
    primary p \<noteq> [] \<and> length (hd (primary p)) \<le> 5 \<and>
    (let v = script_value (hd (primary p)); locktime = int (unat (tx_locktime (prog_transaction p)))
     in 0 \<le> v \<and> (v < 500000000 \<longleftrightarrow> locktime < 500000000) \<and> v \<le> locktime)"
proof (cases "primary p \<noteq> [] \<and> length (hd (primary p)) \<le> 5")
  case True
  let ?v = "the (set_data (hd (primary p)) 5)"
  have num: "top_number 5 p = Some ?v" "int64 ?v = script_value (hd (primary p))"
    using top_number_value [of 5 p] True by auto
  have nonneg: "script_value (hd (primary p)) = int (unat ?v)" if "0 \<le> int64 ?v"
    using sint_nonneg_unat [OF that] num(2) by (simp del: of_nat_unat)
  have "unat (ucast (tx_locktime (prog_transaction p)) :: 64 word) = unat (tx_locktime (prog_transaction p))"
    by (simp add: unat_ucast_mod order.strict_trans2 [OF unsigned_less])
  then show ?thesis using assms True num nonneg
    by (auto simp: op_check_locktime_verify_def Let_def script_constants locktime_threshold_def input_is_final_def
        max_input_sequence_def word_less_nat_alt word_le_nat_alt not_less simp del: of_nat_unat)
next
  case False
  then show ?thesis using assms top_number_value [of 5 p]
    by (auto simp: op_check_locktime_verify_def Let_def script_constants top_number_def split: option.splits)
qed

lemma bit_unat: "bit (unat w) n \<longleftrightarrow> bit w n" for w :: "'a::len word"
  by (simp add: bit_unsigned_iff)

lemma bit_22: "bit (4194304 :: int) n \<longleftrightarrow> n = 22"
proof -
  have "(4194304 :: int) = push_bit 22 1" by simp
  then show ?thesis by (auto simp only: bit_push_bit_iff bit_1_iff) (auto simp: bit_simps)
qed

lemma sequence_flags:
  fixes w :: "64 word" and seq :: uint32
  shows "w AND ucast relative_locktime_disabled \<noteq> 0 \<longleftrightarrow> bit w 31"
    and "seq AND relative_locktime_disabled \<noteq> 0 \<longleftrightarrow> bit seq 31"
    and "w AND ucast relative_locktime_time_locked = ucast (seq AND relative_locktime_time_locked) \<longleftrightarrow> bit w 22 = bit seq 22"
    and "w AND ucast relative_locktime_mask > ucast (seq AND relative_locktime_mask) \<longleftrightarrow>
      unat w mod 2 ^ 16 > unat seq mod 2 ^ 16"
proof -
  have 1: "(ucast relative_locktime_disabled :: 64 word) = 2 ^ 31" "relative_locktime_disabled = 2 ^ 31"
    by (simp_all add: relative_locktime_disabled_def)
  show "w AND ucast relative_locktime_disabled \<noteq> 0 \<longleftrightarrow> bit w 31"
    unfolding 1(1) by (simp only: and_exp_eq_0_iff_not_bit not_not)
  show "seq AND relative_locktime_disabled \<noteq> 0 \<longleftrightarrow> bit seq 31"
    unfolding 1(2) by (simp only: and_exp_eq_0_iff_not_bit not_not)
  have 2: "(ucast relative_locktime_time_locked :: 64 word) = push_bit 22 1" "relative_locktime_time_locked = push_bit 22 1"
    by (simp_all add: relative_locktime_time_locked_def)
  show "w AND ucast relative_locktime_time_locked = ucast (seq AND relative_locktime_time_locked) \<longleftrightarrow> bit w 22 = bit seq 22"
    unfolding 2(1) unfolding 2(2) by (subst bit_eq_iff) (auto simp: bit_simps bit_22 dest: spec [of _ 22])
  have 3: "(ucast relative_locktime_mask :: 64 word) = mask 16" "relative_locktime_mask = mask 16"
    by (simp_all add: relative_locktime_mask_def mask_eq_exp_minus_1)
  have "unat (take_bit 16 w) = unat w mod 2 ^ 16" "unat (take_bit 16 seq) = unat seq mod 2 ^ 16"
    by (simp_all add: unsigned_take_bit_eq) (simp_all add: take_bit_eq_mod)
  moreover have "unat (ucast (take_bit 16 seq) :: 64 word) = unat (take_bit 16 seq)"
    by (simp add: unat_ucast_mod order.strict_trans2 [OF unsigned_less])
  ultimately show "w AND ucast relative_locktime_mask > ucast (seq AND relative_locktime_mask) \<longleftrightarrow>
      unat w mod 2 ^ 16 > unat seq mod 2 ^ 16"
    unfolding 3(1) unfolding 3(2) by (simp only: word_less_nat_alt flip: take_bit_eq_mask)
qed

lemma check_sequence_success:
  assumes "is_enabled (prog_forks p) bip112_rule"
  shows "fst (op_check_sequence_verify p) = error_success \<longleftrightarrow>
    unat (prog_input_index p) < length (tx_inputs (prog_transaction p)) \<and>
    primary p \<noteq> [] \<and> length (hd (primary p)) \<le> 5 \<and>
    (let v = script_value (hd (primary p));
         seq = sequence (tx_inputs (prog_transaction p) ! unat (prog_input_index p))
     in 0 \<le> v \<and>
        (bit (nat v) 31 \<or>
         2 \<le> unat (tx_version (prog_transaction p)) \<and> \<not> bit seq 31 \<and>
         bit (nat v) 22 = bit seq 22 \<and> nat v mod 2 ^ 16 \<le> unat seq mod 2 ^ 16))"
proof (cases "primary p \<noteq> [] \<and> length (hd (primary p)) \<le> 5")
  case True
  let ?v = "the (set_data (hd (primary p)) 5)"
  have num: "top_number 5 p = Some ?v" "int64 ?v = script_value (hd (primary p))"
    using top_number_value [of 5 p] True by auto
  have nonneg: "nat (script_value (hd (primary p))) = unat ?v" if "0 \<le> int64 ?v"
    using sint_nonneg_unat [OF that] num(2) by (simp del: of_nat_unat)
  show ?thesis
  proof (cases "0 \<le> int64 ?v")
    case False
    then show ?thesis using assms num by (simp add: op_check_sequence_verify_def Let_def script_constants)
  next
    case nn: True
    show ?thesis using assms True num nonneg [OF nn] nn
      by (simp add: op_check_sequence_verify_def Let_def script_constants sequence_flags op_nop_def bit_unat
          relative_locktime_min_version_def not_less)
  qed
next
  case False
  then show ?thesis using assms top_number_value [of 5 p]
    by (auto simp: op_check_sequence_verify_def Let_def script_constants top_number_def split: option.splits)
qed

text \<open>Operands of up to four bytes denote integers on which 64-bit arithmetic is exact.\<close>

lemma operand_value:
  assumes "length a \<le> 4"
  shows "set_data a max_number_size = Some (word_of_int (script_value a))" and "\<bar>script_value a\<bar> < 2 ^ 31"
    and "int64 (word_of_int (script_value a)) = script_value a"
proof -
  show "set_data a max_number_size = Some (word_of_int (script_value a))"
    using assms by (intro set_data_word) (simp_all add: script_constants)
  show bound: "\<bar>script_value a\<bar> < 2 ^ 31" using script_value_bound [OF assms] by simp
  show "int64 (word_of_int (script_value a)) = script_value a"
    using bound by (intro sint_word_of_int) (simp_all add: abs_less_iff)
qed

lemma pop_operands:
  assumes "length a \<le> 4" and "length b \<le> 4"
  shows "pop_number max_number_size (p\<lparr>primary := a # st\<rparr>) =
      (Some (word_of_int (script_value a)), p\<lparr>primary := st\<rparr>)"
    and "pop_binary (p\<lparr>primary := a # b # st\<rparr>) =
      (Some (word_of_int (script_value a), word_of_int (script_value b)), p\<lparr>primary := st\<rparr>)"
  using operand_value(1) [OF assms(1)] operand_value(1) [OF assms(2)]
  by (simp_all add: pop_defs prog_pop_def)

lemma exact_result:
  "\<bar>k\<bar> < 2 ^ 32 \<Longrightarrow> script_value (number_data (word_of_int k)) = k"
  by (simp add: script_value_number_data sint_word_of_int abs_less_iff)

subsection \<open>Multiple signatures\<close>

lemma multisig_keys_first:
  "multisig_keys check keys = (if list_ex check keys then Some (dropWhile (\<lambda>k. \<not> check k) keys) else None)"
  by (induction keys) auto

text \<open>An endorsement as the loop reads it: its signature hash type and its signature.\<close>

definition read_endorsement :: "curve_functions \<Rightarrow> bool \<Rightarrow> data_chunk \<Rightarrow> (byte \<times> data_chunk) option" where
  "read_endorsement E strict e = do {
     (sighash, distinguished) \<leftarrow> parse_endorsement e;
     signature \<leftarrow> parse_signature E distinguished strict;
     Some (sighash, signature)
   }"

definition validates ::
  "curve_functions \<Rightarrow> bool \<Rightarrow> (data_chunk \<Rightarrow> byte \<Rightarrow> data_chunk \<Rightarrow> bool) \<Rightarrow> data_chunk \<Rightarrow> data_chunk \<Rightarrow> bool" where
  "validates E strict check e key \<longleftrightarrow>
     (\<exists>sighash signature. read_endorsement E strict e = Some (sighash, signature) \<and> check signature sighash key)"

lemma multisig_loop_Cons:
  assumes "read_endorsement E strict e = Some (sighash, signature)"
  shows "multisig_loop E strict check (e # es) keys =
    (if list_ex (validates E strict check e) keys
     then multisig_loop E strict check es (dropWhile (\<lambda>k. \<not> validates E strict check e k) keys)
     else error_incorrect_signature)"
proof -
  have "validates E strict check e = check signature sighash" using assms by (auto simp: validates_def)
  then show ?thesis using assms
    by (auto simp: read_endorsement_def multisig_keys_first split: Option.bind_splits)
qed

lemma multisig_loop_unread:
  "read_endorsement E strict e = None \<Longrightarrow> multisig_loop E strict check (e # es) keys \<noteq> error_success"
  by (auto simp: read_endorsement_def split: Option.bind_splits option.splits)

text \<open>
  Every endorsement is validated by a key, each key by its own position or a later one: the
  same key may serve more than once.
\<close>

fun in_order :: "('a \<Rightarrow> 'b \<Rightarrow> bool) \<Rightarrow> 'a list \<Rightarrow> 'b list \<Rightarrow> bool" where
  "in_order R [] ys = True"
| "in_order R (x # xs) ys = (\<exists>n < length ys. R x (ys ! n) \<and> in_order R xs (drop n ys))"

lemma in_order_earlier: "in_order R xs (drop n ys) \<Longrightarrow> in_order R xs ys"
proof (cases xs)
  case (Cons x more)
  assume "in_order R xs (drop n ys)"
  then obtain k where "k < length ys - n" "R x (ys ! (n + k))" "in_order R more (drop (n + k) ys)"
    using Cons by (auto simp: add.commute)
  then show ?thesis using Cons by (auto intro!: exI [of _ "n + k"])
qed simp

lemma in_order_greedy:
  "in_order R (x # xs) ys \<longleftrightarrow> list_ex (R x) ys \<and> in_order R xs (dropWhile (\<lambda>y. \<not> R x y) ys)"
proof
  let ?m = "length (takeWhile (\<lambda>y. \<not> R x y) ys)"
  have drop: "dropWhile (\<lambda>y. \<not> R x y) ys = drop ?m ys" by (rule dropWhile_eq_drop)
  {
    assume "in_order R (x # xs) ys"
    then obtain n where n: "n < length ys" "R x (ys ! n)" "in_order R xs (drop n ys)" by auto
    have "?m \<le> n"
    proof (rule ccontr)
      assume "\<not> ?m \<le> n"
      then have "ys ! n \<in> set (takeWhile (\<lambda>y. \<not> R x y) ys)"
        using takeWhile_nth [of n "\<lambda>y. \<not> R x y" ys] nth_mem [of n "takeWhile (\<lambda>y. \<not> R x y) ys"] by simp
      then show False using n(2) by (auto dest: set_takeWhileD)
    qed
    then have "drop n ys = drop (n - ?m) (drop ?m ys)" by simp
    then have "in_order R xs (drop ?m ys)" using n(3) in_order_earlier by metis
    then show "list_ex (R x) ys \<and> in_order R xs (dropWhile (\<lambda>y. \<not> R x y) ys)"
      using n(1,2) drop by (auto simp: list_ex_iff)
  }
  assume "list_ex (R x) ys \<and> in_order R xs (dropWhile (\<lambda>y. \<not> R x y) ys)"
  moreover from this have "dropWhile (\<lambda>y. \<not> R x y) ys \<noteq> []" by (auto simp: list_ex_iff dropWhile_eq_Nil_conv)
  then have "drop ?m ys \<noteq> []" by (simp only: drop not_False_eq_True)
  then have "?m < length ys" by (simp only: drop_eq_Nil not_le)
  ultimately show "in_order R (x # xs) ys"
    using drop nth_length_takeWhile [of "\<lambda>y. \<not> R x y" ys] by auto
qed

lemma multisig_loop_in_order:
  "multisig_loop E strict check es keys = error_success \<longleftrightarrow> in_order (validates E strict check) es keys"
proof (induction es arbitrary: keys)
  case (Cons e es)
  show ?case
  proof (cases "read_endorsement E strict e")
    case None
    then have "\<not> validates E strict check e k" for k by (simp add: validates_def)
    then show ?thesis using None multisig_loop_unread [OF None] by simp
  next
    case (Some pair)
    then show ?thesis using Cons multisig_loop_Cons [of E strict e "fst pair" "snd pair" check es keys]
      unfolding in_order_greedy by auto
  qed
qed simp

subsection \<open>Properties of the evaluation\<close>

text \<open>
  C10. However a script of a fresh program is evaluated, succeeded() (the counter of
  negative conditions) answers whether every open condition is true.
\<close>

theorem condition_counter_exact:
  "succeeded (snd (run_loop cur H E i ops (program_of s tx index forks st v ver))) \<longleftrightarrow>
   list_all (\<lambda>c. c) (condition (snd (run_loop cur H E i ops (program_of s tx index forks st v ver))))"
proof -
  have "counter_exact (program_of s tx index forks st v ver)"
    by (simp add: counter_exact_def program_of_def)
  from keepsD [OF counter.keeps_run_loop this, of cur H E i ops] show ?thesis
    by (auto simp: counter_exact_def succeeded_def list_all_iff filter_empty_conv)
qed

text \<open>
  C11. A successful evaluation of a program with no open condition has as many ends as ifs,
  no disabled operation and no push above 520 bytes anywhere in the script, and its two
  stacks together hold at most 1000 elements, unless both stacks are those it began with (a
  script that executes nothing does not test them).
\<close>

theorem successful_run_limits:
  assumes "run_program cur H E p = (error_success, p')" and "condition p = []"
  shows "length (filter (\<lambda>op. op_code op \<in> {opcode_if, opcode_notif}) (script_operations cur (prog_script p))) =
      length (filter (\<lambda>op. op_code op = opcode_endif) (script_operations cur (prog_script p))) \<and>
    list_all (\<lambda>op. length (op_data op) \<le> 520 \<and> \<not> opcode_is_disabled (op_code op))
      (script_operations cur (prog_script p)) \<and>
    (length (primary p') + length (alternate p') \<le> 1000 \<or> primary p' = primary p \<and> alternate p' = alternate p)"
proof -
  note run = run_program_success [OF assms(1)]
  have opens: "opens = (\<lambda>op. op_code op \<in> {opcode_if, opcode_notif})" "closes = (\<lambda>op. op_code op = opcode_endif)"
    by (auto simp: opens_def closes_def fun_eq_iff)
  have "length (primary p') + length (alternate p') \<le> 1000 \<or> primary p' = primary p \<and> alternate p' = alternate p"
    using run_loop_stack [OF run(2)] by (auto simp: is_stack_overflow_def script_constants)
  then show ?thesis
    using run_loop_depth [OF run(2)] run_loop_operations [OF run(2)] run(3) assms(2)
    unfolding opens
    by (simp add: closed_def is_stack_overflow_def script_constants is_oversized_def not_less)
qed

text \<open>
  C12. With bip65 active, checklocktimeverify succeeds exactly when the input is not final
  and the top of the stack is a nonnegative number of at most five bytes, of the same kind
  as the locktime of the transaction and not above it; it changes no stack.
\<close>

theorem check_locktime_exact:
  assumes "is_enabled (prog_forks p) bip65_rule"
  shows "snd (op_check_locktime_verify p) = p \<and>
    (fst (op_check_locktime_verify p) = error_success \<longleftrightarrow>
    unat (prog_input_index p) < length (tx_inputs (prog_transaction p)) \<and>
    sequence (tx_inputs (prog_transaction p) ! unat (prog_input_index p)) \<noteq> 0xffffffff \<and>
    primary p \<noteq> [] \<and> length (hd (primary p)) \<le> 5 \<and>
    (let v = script_value (hd (primary p)); locktime = int (unat (tx_locktime (prog_transaction p)))
     in 0 \<le> v \<and> (v < 500000000 \<longleftrightarrow> locktime < 500000000) \<and> v \<le> locktime))"
proof -
  have "snd (op_check_locktime_verify p) = p"
    by (auto simp: op_check_locktime_verify_def op_nop_def Let_def split: option.splits)
  then show ?thesis using check_locktime_success [OF assms] by blast
qed

text \<open>
  With bip112 active, checksequenceverify succeeds exactly when the top of the stack is
  a nonnegative number of at most five bytes that either has bit 31 set or, in a transaction
  of version 2 or later with an enabled relative locktime of the same kind, is not above the
  masked sequence of the input.
\<close>

theorem check_sequence_exact:
  assumes "is_enabled (prog_forks p) bip112_rule"
  shows "snd (op_check_sequence_verify p) = p \<and>
    (fst (op_check_sequence_verify p) = error_success \<longleftrightarrow>
    unat (prog_input_index p) < length (tx_inputs (prog_transaction p)) \<and>
    primary p \<noteq> [] \<and> length (hd (primary p)) \<le> 5 \<and>
    (let v = script_value (hd (primary p));
         seq = sequence (tx_inputs (prog_transaction p) ! unat (prog_input_index p))
     in 0 \<le> v \<and>
        (bit (nat v) 31 \<or>
         2 \<le> unat (tx_version (prog_transaction p)) \<and> \<not> bit seq 31 \<and>
         bit (nat v) 22 = bit seq 22 \<and> nat v mod 2 ^ 16 \<le> unat seq mod 2 ^ 16)))"
proof -
  have "snd (op_check_sequence_verify p) = p"
    by (auto simp: op_check_sequence_verify_def op_nop_def Let_def split: option.splits)
  then show ?thesis using check_sequence_success [OF assms] by blast
qed

text \<open>
  C13. The nested loops of checkmultisig accept a list of endorsements exactly when each can
  be assigned a key that validates it, at positions that never go backwards (the same key
  may be assigned more than once).
\<close>

theorem multisig_in_order:
  "multisig_loop E strict check endorsements keys = error_success \<longleftrightarrow>
   in_order (validates E strict check) endorsements keys"
  by (rule multisig_loop_in_order)

text \<open>
  The stack operations (drop2, dup2, dup3, over2, rot2, swap2, nip, over, rot, swap,
  tuck) rearrange the top of the stack as their names say, although they are written with
  positions, swaps and erasures.
\<close>

theorem stack_operations_effect:
  "op_drop2 (p\<lparr>primary := a # b # st\<rparr>) = (error_success, p\<lparr>primary := st\<rparr>) \<and>
   op_dup2 (p\<lparr>primary := a # b # st\<rparr>) = (error_success, p\<lparr>primary := a # b # a # b # st\<rparr>) \<and>
   op_dup3 (p\<lparr>primary := a # b # c # st\<rparr>) = (error_success, p\<lparr>primary := a # b # c # a # b # c # st\<rparr>) \<and>
   op_over2 (p\<lparr>primary := a # b # c # d # st\<rparr>) = (error_success, p\<lparr>primary := c # d # a # b # c # d # st\<rparr>) \<and>
   op_rot2 (p\<lparr>primary := a # b # c # d # e # f # st\<rparr>) = (error_success, p\<lparr>primary := e # f # a # b # c # d # st\<rparr>) \<and>
   op_swap2 (p\<lparr>primary := a # b # c # d # st\<rparr>) = (error_success, p\<lparr>primary := c # d # a # b # st\<rparr>) \<and>
   op_nip (p\<lparr>primary := a # b # st\<rparr>) = (error_success, p\<lparr>primary := a # st\<rparr>) \<and>
   op_over (p\<lparr>primary := a # b # st\<rparr>) = (error_success, p\<lparr>primary := b # a # b # st\<rparr>) \<and>
   op_rot (p\<lparr>primary := a # b # c # st\<rparr>) = (error_success, p\<lparr>primary := c # a # b # st\<rparr>) \<and>
   op_swap (p\<lparr>primary := a # b # st\<rparr>) = (error_success, p\<lparr>primary := b # a # st\<rparr>) \<and>
   op_tuck (p\<lparr>primary := a # b # st\<rparr>) = (error_success, p\<lparr>primary := a # b # a # st\<rparr>)"
  by (simp add: op_drop2_def op_dup2_def op_dup3_def op_over2_def op_rot2_def op_swap2_def op_nip_def op_over_def
      op_rot_def op_swap_def op_tuck_def program_defs)

lemma operand_pushed: "P v \<Longrightarrow> \<exists>r. (c, push_item v (p\<lparr>primary := st\<rparr>)) = (c, p\<lparr>primary := r # st\<rparr>) \<and> P r"
  by (auto simp: push_item_def)

text \<open>
  C9. On operands of at most four bytes the arithmetic operations of the interpreter (add,
  sub, negate, abs, min, lessthan, numequal) push the result of the integer operation on the
  numbers the operands denote: the 64-bit arithmetic never overflows.
\<close>

theorem arithmetic_refines_integers:
  assumes "length a \<le> 4" and "length b \<le> 4"
  shows "(\<exists>r. op_add (p\<lparr>primary := a # b # st\<rparr>) = (error_success, p\<lparr>primary := r # st\<rparr>) \<and>
      script_value r = script_value b + script_value a) \<and>
    (\<exists>r. op_sub (p\<lparr>primary := a # b # st\<rparr>) = (error_success, p\<lparr>primary := r # st\<rparr>) \<and>
      script_value r = script_value b - script_value a) \<and>
    (\<exists>r. op_negate (p\<lparr>primary := a # st\<rparr>) = (error_success, p\<lparr>primary := r # st\<rparr>) \<and>
      script_value r = - script_value a) \<and>
    (\<exists>r. op_abs (p\<lparr>primary := a # st\<rparr>) = (error_success, p\<lparr>primary := r # st\<rparr>) \<and>
      script_value r = \<bar>script_value a\<bar>) \<and>
    (\<exists>r. op_min (p\<lparr>primary := a # b # st\<rparr>) = (error_success, p\<lparr>primary := r # st\<rparr>) \<and>
      script_value r = min (script_value a) (script_value b)) \<and>
    (\<exists>r. op_less_than (p\<lparr>primary := a # b # st\<rparr>) = (error_success, p\<lparr>primary := r # st\<rparr>) \<and>
      (bytes_to_bool r \<longleftrightarrow> script_value b < script_value a)) \<and>
    (\<exists>r. op_num_equal (p\<lparr>primary := a # b # st\<rparr>) = (error_success, p\<lparr>primary := r # st\<rparr>) \<and>
      (bytes_to_bool r \<longleftrightarrow> script_value b = script_value a))"
proof -
  let ?x = "script_value a" and ?y = "script_value b"
  note pops = pop_operands [OF assms]
  note bounds = operand_value(2) [OF assms(1)] operand_value(2) [OF assms(2)]
  note exact = operand_value(3) [OF assms(1)] operand_value(3) [OF assms(2)]
  have ops: "word_of_int ?x + word_of_int ?y = (word_of_int (?y + ?x) :: number)"
      "word_of_int ?y - word_of_int ?x = (word_of_int (?y - ?x) :: number)" "- word_of_int ?x = (word_of_int (- ?x) :: number)"
    by (simp_all add: add.commute)
  have results: "script_value (number_data (word_of_int (?y + ?x))) = ?y + ?x"
      "script_value (number_data (word_of_int (?y - ?x))) = ?y - ?x"
      "script_value (number_data (word_of_int (- ?x))) = - ?x"
      "script_value (number_data (word_of_int ?x)) = ?x" "script_value (number_data (word_of_int ?y)) = ?y"
    using bounds by - (rule exact_result, simp add: abs_less_iff)+
  have equal: "(word_of_int ?x :: number) = word_of_int ?y \<longleftrightarrow> ?y = ?x"
    using exact by metis
  show ?thesis
    unfolding op_add_def op_sub_def op_negate_def op_abs_def op_min_def op_less_than_def op_num_equal_def pops
      number_add_def number_sub_def number_negate_def ops prod.case option.case push_bool_def exact
    using results by (intro conjI operand_pushed) (auto simp: equal positive_1_def negative_0_def)
qed

text \<open>
  C19. One signature satisfies a two-of-two checkmultisig: the key that validated an
  endorsement is not skipped for the next, so the same endorsement given twice, valid for
  the first key, is accepted.
\<close>

theorem multisig_key_reused:
  assumes "validates E (is_enabled (prog_forks p) bip66_rule)
      (\<lambda>signature sighash key. check_signature cur H E signature sighash key (signed_code cur [e, e] p)
         (prog_transaction p) (prog_input_index p) (signed_version p) (prog_value p)) e key"
    and "operation_count p \<le> 199"
  shows "fst (op_check_multisig_verify cur H E (p\<lparr>primary := [[2], key, other, [2], e, e, []]\<rparr>)) = error_success"
proof -
  let ?q = "p\<lparr>operation_count := operation_count p + 2, primary := []\<rparr>"
  have two: "set_data [2] 4 = Some 2" "number_int32 2 = 2"
    by (simp_all add: set_data_def is_negative_def negative_mask_def number_int32_def domain_constrain_int32_def)
  have same: "signed_code cur [e, e] ?q = signed_code cur [e, e] p" "signed_version ?q = signed_version p"
    by (simp_all add: signed_code_def signed_version_def subscript_def)
  have "multisig_verify cur H E [key, other] [e, e] ?q = error_success"
    unfolding multisig_verify_def Let_def multisig_loop_in_order same
    using assms(1) by (auto intro!: exI [of _ 0])
  then show ?thesis
    using assms(2)
    by (simp add: op_check_multisig_verify_def multisig_signatures_def pop_int32_def pop_number_def pop_section_def prog_pop_def
        two script_constants increment_public_keys_def operation_overflow_def Let_def)
qed

text \<open>
  checksig on an empty stack pushes false instead of failing the script, so the script
  of checksig and not evaluates to true without any input.
\<close>

theorem check_sig_tolerates_empty_stack:
  "\<exists>q. run_loop cur H E 0 [operation_of_code opcode_checksig, operation_of_code opcode_not]
     (program_of s tx index forks [] v ver) = (error_success, q) \<and> stack_result False q"
  by (simp add: run_step_def is_oversized_def script_constants opcode_is_disabled_def increment_operation_count_def
   opcode_is_counted_def operation_overflow_def executes_def succeeded_def program_of_def run_op_def run_crypto_def run_number_def
   op_check_sig_def op_check_sig_verify_def op_not_def pop_number_def prog_pop_def push_bool_def push_item_def is_stack_overflow_def
   operation_of_code_def stack_result_def stack_true_def positive_1_def set_data_def is_false_def negative_0_def Let_def)

subsection \<open>Examples\<close>

text \<open>A script that pushes an endorsement and a key, and its evaluation.\<close>

abbreviation push_operation :: "data_chunk \<Rightarrow> operation" where
  "push_operation d \<equiv> \<lparr>op_code = of_nat (length d), op_data = d, op_valid = True\<rparr>"

lemmas run_defs = run_program_def run_step_def program_is_valid_def is_unspendable_def is_valid_operations_def
  is_oversized_def script_constants opcode_is_disabled_def increment_operation_count_def
  run_op_def run_push_def op_push_size_def push_item_def executes_def succeeded_def is_stack_overflow_def closed_def
  opcode_is_counted_def operation_overflow_def opcode_is_conditional_def opcode_is_reserved_def Let_def
  program_continue_def program_spending_def program_of_def

definition example_signed_script :: script where
  "example_signed_script = \<lparr>script_bytes = [3, 9, 9, 1, 2, 9, 9], script_cache = None, script_valid = True\<rparr>"

lemma example_signed_script_facts:
  "script_operations bitcoin example_signed_script = [push_operation [9, 9, 1], push_operation [9, 9]]"
  "script_serialized_size example_signed_script False = 7"
proof -
  show "script_operations bitcoin example_signed_script = [push_operation [9, 9, 1], push_operation [9, 9]]"
    unfolding example_signed_script_def
    using operation_wf_payload [of 3 "[9, 9, 1]" bitcoin] operation_wf_payload [of 2 "[9, 9]" bitcoin]
    by (intro bytes_script_operations) (simp_all add: operation_to_data_alt size_prefix_def)
qed (simp add: script_serialized_size_def example_signed_script_def)

lemma example_signed_script_run:
  "run_program bitcoin H example_curve (program_spending example_signed_script tx index forks) =
   (error_success, (program_spending example_signed_script tx index forks)\<lparr>primary := [[9, 9], [9, 9, 1]]\<rparr>)"
  by (simp add: run_defs example_signed_script_facts)

theorem successful_run_limits_witness:
  "length (filter (\<lambda>op. op_code op \<in> {opcode_if, opcode_notif}) (script_operations bitcoin example_signed_script)) =
   length (filter (\<lambda>op. op_code op = opcode_endif) (script_operations bitcoin example_signed_script))"
  using successful_run_limits [OF example_signed_script_run [of example_digests example_transfer 0 0]]
  by (simp add: program_spending_def program_of_def)

text \<open>The size of the stacks is tested after an operation: a script without any leaves whatever it finds.\<close>

lemma empty_script_unlimited:
  "program_is_valid cur p \<Longrightarrow> closed p \<Longrightarrow> script_operations cur (prog_script p) = [] \<Longrightarrow> run_program cur H E p = (error_success, p)"
  by (simp add: run_program_def)

text \<open>A spending program with one number on its stack.\<close>

definition example_locked :: "uint32 \<Rightarrow> data_chunk \<Rightarrow> program" where
  "example_locked forks data =
     (program_spending example_signed_script (transaction_of 2 3 [example_input\<lparr>sequence := 5\<rparr>] [example_output]) 0 forks)
       \<lparr>primary := [data]\<rparr>"

lemmas example_locked_defs = example_locked_def program_spending_def program_of_def example_defs

lemma small_script_value: "script_value [2] = 2" "script_value [3] = 3"
  by (simp_all add: script_value_def is_negative_def negative_mask_def magnitude_def)

theorem check_locktime_exact_witness:
  "fst (op_check_locktime_verify (example_locked bip65_rule [2])) = error_success"
proof -
  have "is_enabled (prog_forks (example_locked bip65_rule [2])) bip65_rule"
    by (simp add: example_locked_defs is_enabled_def bip65_rule_def)
  from conjunct2 [OF check_locktime_exact [OF this]] show ?thesis
    by (simp add: example_locked_defs small_script_value)
qed

theorem check_sequence_exact_witness:
  "fst (op_check_sequence_verify (example_locked bip112_rule [2])) = error_success"
proof -
  have "is_enabled (prog_forks (example_locked bip112_rule [2])) bip112_rule"
    by (simp add: example_locked_defs is_enabled_def bip112_rule_def)
  from conjunct2 [OF check_sequence_exact [OF this]] show ?thesis
    by (simp add: example_locked_defs small_script_value)
qed

theorem arithmetic_refines_integers_witness:
  "\<exists>r. op_sub ((example_locked 0 [])\<lparr>primary := [[2], [3]]\<rparr>) = (error_success, (example_locked 0 [])\<lparr>primary := [r]\<rparr>) \<and>
     script_value r = 1"
  using arithmetic_refines_integers [of "[2]" "[3]" "[]" "example_locked 0 []"] by (simp add: small_script_value)

theorem multisig_key_reused_witness:
  "fst (op_check_multisig_verify bitcoin example_digests example_curve
     ((example_locked 0 [])\<lparr>primary := [[2], [9, 9], [8, 8], [2], [9, 9, 1], [9, 9, 1], []]\<rparr>)) = error_success"
  by (rule multisig_key_reused)
    (simp_all add: validates_def read_endorsement_def parse_endorsement_def example_parse_signature example_check_signature
      example_locked_defs)
end
