(* ===== verification/Verify.thy ===== *)
theory Verify
  imports Evaluation
begin

text \<open>
  Verification of spends: \<^verbatim>\<open>script::verify\<close>, \<^verbatim>\<open>witness::verify\<close> and the connection of transactions.
  The theorems say what a successful verification of the standard outputs has checked.
\<close>

definition witness_verify ::
  "currency \<Rightarrow> hash_functions \<Rightarrow> curve_functions \<Rightarrow> witness \<Rightarrow> transaction \<Rightarrow> uint32 \<Rightarrow> uint32 \<Rightarrow> script \<Rightarrow> uint64 \<Rightarrow> code" where
  "witness_verify cur H E w tx input_index forks program_script v =
     (case script_version_of cur program_script of
        version_zero \<Rightarrow>
          (case witness_extract_embedded_script cur (sha256_hash H) w program_script of
             None \<Rightarrow> error_invalid_witness
           | Some (s, stack) \<Rightarrow>
               (case run_program cur H E (program_witness s tx input_index forks stack v version_zero) of
                  (ec, p) \<Rightarrow>
                    if ec \<noteq> error_success then ec
                    else if \<not> stack_result True p then error_stack_false
                    else error_success))
      | version_reserved \<Rightarrow> error_success
      | version_unversioned \<Rightarrow> error_operation_failed)"

text \<open>
  \<^verbatim>\<open>witnessed\<close> is true exactly on the two paths that verify a witness.  The top of the input's
  stack is popped for the embedded script; that it is there is the code's assertion, and the
  lemma \<open>embedded_script_present\<close> below.
\<close>

definition script_verify ::
  "currency \<Rightarrow> hash_functions \<Rightarrow> curve_functions \<Rightarrow> transaction \<Rightarrow> uint32 \<Rightarrow> uint32 \<Rightarrow> script \<Rightarrow> witness \<Rightarrow> script \<Rightarrow>
   uint64 \<Rightarrow> code" where
  "script_verify cur H E tx input_index forks in_script in_witness out_script v =
     (let unwitnessed = (if witness_stack in_witness \<noteq> [] then error_unexpected_witness else error_success)
      in case run_program cur H E (program_spending in_script tx input_index forks) of (ec, spend) \<Rightarrow>
         if ec \<noteq> error_success then ec
         else case run_program cur H E (program_continue out_script spend) of (ec, prevout) \<Rightarrow>
           if ec \<noteq> error_success then ec
           else if \<not> stack_result False prevout then error_stack_false
           else if is_pay_to_witness cur out_script forks then
             (if script_operations cur in_script \<noteq> [] then error_dirty_witness
              else witness_verify cur H E in_witness tx input_index forks out_script v)
           else if is_pay_to_script_hash cur out_script forks then
             (if \<not> is_relaxed_push (script_operations cur in_script) then error_invalid_script_embed
              else case prog_pop spend of (embedded_data, spend) \<Rightarrow>
                let embedded_script = script_of_data cur embedded_data False
                in case run_program cur H E (program_continue embedded_script spend) of (ec, embedded) \<Rightarrow>
                   if ec \<noteq> error_success then ec
                   else if \<not> stack_result False embedded then error_stack_false
                   else if is_pay_to_witness cur embedded_script forks then
                     (if length (script_operations cur in_script) \<noteq> 1 then error_dirty_witness
                      else witness_verify cur H E in_witness tx input_index forks embedded_script v)
                   else unwitnessed)
           else unwitnessed)"

definition script_verify_input ::
  "currency \<Rightarrow> hash_functions \<Rightarrow> curve_functions \<Rightarrow> transaction \<Rightarrow> uint32 \<Rightarrow> uint32 \<Rightarrow> code" where
  "script_verify_input cur H E tx index forks =
     (if unat index \<ge> length (tx_inputs tx) then error_operation_failed
      else
        let i = tx_inputs tx ! unat index
        in script_verify cur H E tx index forks (input_script i) (input_witness i)
             (output_script (prevout_of i)) (output_value (prevout_of i)))"

subsection \<open>Connection\<close>

definition connect_input ::
  "currency \<Rightarrow> hash_functions \<Rightarrow> curve_functions \<Rightarrow> chain_state \<Rightarrow> nat \<Rightarrow> transaction \<Rightarrow> code" where
  "connect_input cur H E st index tx =
     (if index \<ge> length (tx_inputs tx) then error_operation_failed
      else if is_coinbase tx then error_success
      else if \<not> output_is_valid (prevout_of (tx_inputs tx ! index)) then error_missing_previous_output
      else script_verify_input cur H E tx (of_nat index) (active_forks (state_active st)))"

text \<open>The loop over the inputs stops at the first error.\<close>

fun connect_loop :: "(nat \<Rightarrow> code) \<Rightarrow> nat list \<Rightarrow> code" where
  "connect_loop connect [] = error_success"
| "connect_loop connect (i # is) =
     (let ec = connect i in if ec \<noteq> error_success then ec else connect_loop connect is)"

definition transaction_connect ::
  "currency \<Rightarrow> hash_functions \<Rightarrow> curve_functions \<Rightarrow> chain_state \<Rightarrow> transaction \<Rightarrow> code" where
  "transaction_connect cur H E st tx =
     connect_loop (\<lambda>i. connect_input cur H E st i tx) [0..<length (tx_inputs tx)]"

definition transaction_connect_validated ::
  "currency \<Rightarrow> hash_functions \<Rightarrow> curve_functions \<Rightarrow> transaction \<Rightarrow> code" where
  "transaction_connect_validated cur H E tx =
     (case validation_state tx of Some st \<Rightarrow> transaction_connect cur H E st tx | None \<Rightarrow> error_operation_failed)"

lemma connect_loop_success: "connect_loop connect is = error_success \<longleftrightarrow> (\<forall>i \<in> set is. connect i = error_success)"
  by (induction "is") (auto simp: Let_def)

subsection \<open>Single steps\<close>

text \<open>A step that succeeds while every condition is true, as one equation per kind of operation.\<close>

lemma run_step_executed:
  assumes "run_step cur H E i op p = (error_success, p')" and "negative_count p = 0"
  shows "\<exists>n. run_op cur H E (Some i) op (p\<lparr>operation_count := n\<rparr>) = (error_success, p')"
  using assms(1)
proof (rule run_step_success)
  fix q
  assume "increment_operation_count op p = (True, q)"
  then have q: "q = p\<lparr>operation_count := operation_count q\<rparr>" "negative_count q = 0"
    using assms(2) by (auto simp: increment_operation_count_def Let_def split: if_splits)
  assume "if executes op q then run_op cur H E (Some i) op q = (error_success, p') \<and> \<not> is_stack_overflow p' else p' = q"
  then have "run_op cur H E (Some i) op q = (error_success, p')"
    using q(2) by (simp add: executes_def succeeded_def)
  then show ?thesis using q(1) by metis
qed

lemma run_loop_step:
  assumes "run_loop cur H E i (op # ops) p = (error_success, p')"
  obtains q where "run_step cur H E i op p = (error_success, q)" "run_loop cur H E (Suc i) ops q = (error_success, p')"
  using assms by (auto split: prod.splits if_splits)

text \<open>What the next operation did, when it was executed and succeeded.\<close>

abbreviation unconditional :: "program \<Rightarrow> bool" where
  "unconditional p \<equiv> negative_count p = 0 \<and> condition p = []"

lemma executed_dup:
  assumes "run_op cur H E pos op p = (error_success, q)" and "op_code op = opcode_dup"
  shows "\<exists>a st. primary p = a # st \<and> q = p\<lparr>primary := a # a # st\<rparr>"
  using assms by (cases "primary p") (auto simp: run_op_def run_control_def op_dup_def program_defs split: if_splits)

lemma executed_hash160:
  assumes "run_op cur H E pos op p = (error_success, q)" and "op_code op = opcode_hash160"
  shows "\<exists>a st. primary p = a # st \<and> q = p\<lparr>primary := bitcoin_short_hash H a # st\<rparr>"
  using assms by (cases "primary p")
    (auto simp: run_op_def run_crypto_def op_hash160_def program_defs bitcoin_short_hash_def split: if_splits)

lemma executed_push:
  assumes "run_op cur H E pos op p = (error_success, q)" and "op_code op \<le> push_four_size"
  shows "q = p\<lparr>primary := op_data op # primary p\<rparr>"
proof -
  have "op_code op \<le> push_positive_16" using assms(2) by (rule order_trans) simp
  moreover have "\<not> op_code op \<le> push_size_75 \<Longrightarrow> op_code op \<in> {push_one_size, push_two_size, push_four_size}"
  proof -
    assume "\<not> op_code op \<le> push_size_75"
    then have "75 < unat (op_code op)" "unat (op_code op) \<le> 78" using assms(2) by (simp_all add: word_le_nat_alt)
    then have "unat (op_code op) = 76 \<or> unat (op_code op) = 77 \<or> unat (op_code op) = 78" by linarith
    then show ?thesis by (auto simp: word_unat_eq_iff)
  qed
  ultimately show ?thesis using assms(1)
    by (auto simp: run_op_def run_push_def op_push_size_def op_push_data_def push_item_def Let_def split: if_splits)
qed

lemma executed_equal_verify:
  assumes "run_op cur H E pos op p = (error_success, q)" and "op_code op = opcode_equalverify"
  shows "\<exists>a st. primary p = a # a # st \<and> q = p\<lparr>primary := st\<rparr>"
  using assms by (cases "primary p"; cases "tl (primary p)")
    (auto simp: run_op_def run_control_def op_equal_verify_def program_defs split: if_splits)

lemma executed_equal:
  assumes "run_op cur H E pos op p = (error_success, q)" and "op_code op = opcode_equal"
  shows "\<exists>a b st. primary p = a # b # st \<and> q = p\<lparr>primary := (if a = b then [positive_1] else []) # st\<rparr>"
  using assms by (cases "primary p"; cases "tl (primary p)")
    (auto simp: run_op_def run_control_def op_equal_def program_defs split: if_splits)

text \<open>A signature check that leaves true on the stack found a valid signature.\<close>

definition signature_valid ::
  "currency \<Rightarrow> hash_functions \<Rightarrow> curve_functions \<Rightarrow> program \<Rightarrow> data_chunk \<Rightarrow> data_chunk \<Rightarrow> bool" where
  "signature_valid cur H E p e key \<longleftrightarrow>
     (\<exists>sighash signature.
        read_endorsement E (is_enabled (prog_forks p) bip66_rule) e = Some (sighash, signature) \<and>
        check_signature cur H E signature sighash key (signed_code cur [e] p) (prog_transaction p)
          (prog_input_index p) (signed_version p) (prog_value p))"

lemma signature_valid_inputs:
  assumes "same_inputs p q" and "jump q = jump p"
  shows "signature_valid cur H E q e key = signature_valid cur H E p e key"
proof -
  have "subscript cur q = subscript cur p" using assms by (simp add: subscript_def same_inputs_def)
  then have "signed_code cur [e] q = signed_code cur [e] p" "signed_version q = signed_version p"
    using assms by (simp_all add: signed_code_def signed_version_def same_inputs_def)
  then show ?thesis using assms by (simp add: signature_valid_def same_inputs_def)
qed

lemma check_sig_verify_success:
  assumes "op_check_sig_verify cur H E p = (error_success, q)"
  shows "\<exists>key e st. primary p = key # e # st \<and> q = p\<lparr>primary := st\<rparr> \<and> signature_valid cur H E q e key"
proof -
  obtain key e st where p: "primary p = key # e # st"
    using assms by (cases "primary p"; cases "tl (primary p)") (auto simp: op_check_sig_verify_def)
  then have "q = p\<lparr>primary := st\<rparr> \<and> signature_valid cur H E q e key"
    using assms by (auto simp: op_check_sig_verify_def prog_pop_def Let_def signature_valid_def read_endorsement_def
        split: option.splits if_splits)
  then show ?thesis using p by blast
qed

lemma executed_check_sig:
  assumes "run_op cur H E pos op p = (error_success, q)" and "op_code op = opcode_checksig" and "stack_result False q"
  shows "\<exists>key e st. primary p = key # e # st \<and> signature_valid cur H E (p\<lparr>primary := st\<rparr>) e key"
proof -
  obtain verified r where r: "op_check_sig_verify cur H E p = (verified, r)" by fastforce
  then have "q = push_bool (verified = error_success) r"
    using assms(1,2) by (auto simp: run_op_def run_crypto_def op_check_sig_def split: if_splits)
  then have "verified = error_success"
    using assms(3) by (auto simp: stack_result_def stack_true_def push_bool_def push_item_def split: if_splits)
  then show ?thesis using check_sig_verify_success [of cur H E p r] r by auto
qed

lemma run_loop_executed:
  assumes "run_loop cur H E i (op # ops) p = (error_success, p')" and "negative_count p = 0"
  obtains n q where "run_op cur H E (Some i) op (p\<lparr>operation_count := n\<rparr>) = (error_success, q)"
    "run_loop cur H E (Suc i) ops q = (error_success, p')"
  using run_loop_step [OF assms(1)] run_step_executed [OF _ assms(2)] by metis

text \<open>The same facts for the head of a run, with the operation counter abstracted.\<close>

lemma run_loop_dup:
  assumes "run_loop cur H E i (op # ops) p = (error_success, p')" and "negative_count p = 0"
    and "op_code op = opcode_dup"
  obtains n a st where "primary p = a # st"
    "run_loop cur H E (Suc i) ops (p\<lparr>operation_count := n, primary := a # a # st\<rparr>) = (error_success, p')"
proof (rule run_loop_executed [OF assms(1,2)])
  fix n q
  assume "run_op cur H E (Some i) op (p\<lparr>operation_count := n\<rparr>) = (error_success, q)"
  from executed_dup [OF this assms(3)] show "run_loop cur H E (Suc i) ops q = (error_success, p') \<Longrightarrow> thesis"
    using that by auto
qed

lemma run_loop_hash160:
  assumes "run_loop cur H E i (op # ops) p = (error_success, p')" and "negative_count p = 0"
    and "op_code op = opcode_hash160"
  obtains n a st where "primary p = a # st"
    "run_loop cur H E (Suc i) ops (p\<lparr>operation_count := n, primary := bitcoin_short_hash H a # st\<rparr>) = (error_success, p')"
proof (rule run_loop_executed [OF assms(1,2)])
  fix n q
  assume "run_op cur H E (Some i) op (p\<lparr>operation_count := n\<rparr>) = (error_success, q)"
  from executed_hash160 [OF this assms(3)] show "run_loop cur H E (Suc i) ops q = (error_success, p') \<Longrightarrow> thesis"
    using that by auto
qed

lemma run_loop_push:
  assumes "run_loop cur H E i (op # ops) p = (error_success, p')" and "negative_count p = 0"
    and "op_code op \<le> push_four_size"
  obtains n where
    "run_loop cur H E (Suc i) ops (p\<lparr>operation_count := n, primary := op_data op # primary p\<rparr>) = (error_success, p')"
proof (rule run_loop_executed [OF assms(1,2)])
  fix n q
  assume "run_op cur H E (Some i) op (p\<lparr>operation_count := n\<rparr>) = (error_success, q)"
  from executed_push [OF this assms(3)] show "run_loop cur H E (Suc i) ops q = (error_success, p') \<Longrightarrow> thesis"
    using that by auto
qed

lemma run_loop_equal_verify:
  assumes "run_loop cur H E i (op # ops) p = (error_success, p')" and "negative_count p = 0"
    and "op_code op = opcode_equalverify"
  obtains n a st where "primary p = a # a # st"
    "run_loop cur H E (Suc i) ops (p\<lparr>operation_count := n, primary := st\<rparr>) = (error_success, p')"
proof (rule run_loop_executed [OF assms(1,2)])
  fix n q
  assume "run_op cur H E (Some i) op (p\<lparr>operation_count := n\<rparr>) = (error_success, q)"
  from executed_equal_verify [OF this assms(3)] show "run_loop cur H E (Suc i) ops q = (error_success, p') \<Longrightarrow> thesis"
    using that by auto
qed

lemma run_loop_equal:
  assumes "run_loop cur H E i (op # ops) p = (error_success, p')" and "negative_count p = 0"
    and "op_code op = opcode_equal"
  obtains n a b st where "primary p = a # b # st"
    "run_loop cur H E (Suc i) ops (p\<lparr>operation_count := n, primary := (if a = b then [positive_1] else []) # st\<rparr>) = (error_success, p')"
proof (rule run_loop_executed [OF assms(1,2)])
  fix n q
  assume "run_op cur H E (Some i) op (p\<lparr>operation_count := n\<rparr>) = (error_success, q)"
  from executed_equal [OF this assms(3)] show "run_loop cur H E (Suc i) ops q = (error_success, p') \<Longrightarrow> thesis"
    using that by auto
qed

lemma run_loop_check_sig_last:
  assumes "run_loop cur H E i [op] p = (error_success, p')" and "negative_count p = 0" and "op_code op = opcode_checksig"
    and "stack_result False p'"
  obtains n key e st where "primary p = key # e # st"
    "signature_valid cur H E (p\<lparr>operation_count := n, primary := st\<rparr>) e key"
proof (rule run_loop_executed [OF assms(1,2)])
  fix n q
  assume s: "run_op cur H E (Some i) op (p\<lparr>operation_count := n\<rparr>) = (error_success, q)"
    and "run_loop cur H E (Suc i) [] q = (error_success, p')"
  then have "stack_result False q" using assms(4) by simp
  from executed_check_sig [OF s assms(3) this] show thesis using that by auto
qed

text \<open>Running a pay-to-key-hash script.\<close>

lemma pay_key_hash_run:
  assumes run: "run_loop cur H E 0 ops p = (error_success, p')" and pat: "is_pay_key_hash_pattern ops"
    and push: "op_code (ops ! 2) \<le> push_four_size" and p: "negative_count p = 0" and r: "stack_result False p'"
  shows "\<exists>key e st. primary p = key # e # st \<and> bitcoin_short_hash H key = op_data (ops ! 2) \<and>
    signature_valid cur H E p e key"
proof -
  obtain o1 o2 o3 o4 o5 where ops: "ops = [o1, o2, o3, o4, o5]" and o1: "op_code o1 = opcode_dup"
    and o2: "op_code o2 = opcode_hash160" and o4: "op_code o4 = opcode_equalverify" and o5: "op_code o5 = opcode_checksig"
    using pat by (auto simp: is_pay_key_hash_pattern_def list_lengths)
  have o3: "op_code o3 \<le> push_four_size" using push ops by simp
  from run obtain n a st where a: "primary p = a # st"
    and r1: "run_loop cur H E (Suc 0) [o2, o3, o4, o5] (p\<lparr>operation_count := n, primary := a # a # st\<rparr>) = (error_success, p')"
    unfolding ops by (rule run_loop_dup [OF _ p o1])
  from r1 obtain n1 where r2: "run_loop cur H E (Suc (Suc 0)) [o3, o4, o5]
      (p\<lparr>operation_count := n1, primary := bitcoin_short_hash H a # a # st\<rparr>) = (error_success, p')"
    by (rule run_loop_hash160 [OF _ _ o2]) (simp_all add: p)
  from r2 obtain n2 where r3: "run_loop cur H E (Suc (Suc (Suc 0))) [o4, o5]
      (p\<lparr>operation_count := n2, primary := op_data o3 # bitcoin_short_hash H a # a # st\<rparr>) = (error_success, p')"
    by (rule run_loop_push [OF _ _ o3]) (simp_all add: p)
  from r3 obtain n3 where hash: "op_data o3 = bitcoin_short_hash H a"
    and r4: "run_loop cur H E (Suc (Suc (Suc (Suc 0)))) [o5]
      (p\<lparr>operation_count := n3, primary := a # st\<rparr>) = (error_success, p')"
    by (rule run_loop_equal_verify [OF _ _ o4]) (simp_all add: p)
  from r4 obtain n4 e rest where
    e: "st = e # rest" "signature_valid cur H E (p\<lparr>operation_count := n4, primary := rest\<rparr>) e a"
    by (rule run_loop_check_sig_last [OF _ _ o5 r]) (simp_all add: p)
  have "signature_valid cur H E (p\<lparr>operation_count := n4, primary := rest\<rparr>) e a = signature_valid cur H E p e a"
    by (rule signature_valid_inputs) (simp_all add: same_inputs_def)
  then show ?thesis using a e hash ops by auto
qed

text \<open>The run of a pay-to-script-hash output compares the top of the stack with the hash.\<close>

lemma pay_script_hash_run:
  assumes run: "run_loop cur H E 0 ops p = (error_success, p')" and pat: "is_pay_script_hash_pattern ops"
    and p: "negative_count p = 0" and r: "stack_result False p'"
  shows "\<exists>a st. primary p = a # st \<and> bitcoin_short_hash H a = op_data (ops ! 1)"
proof -
  obtain o1 o2 o3 where ops: "ops = [o1, o2, o3]" and o1: "op_code o1 = opcode_hash160"
    and o2: "op_code o2 \<le> push_four_size" and o3: "op_code o3 = opcode_equal"
    using pat by (auto simp: is_pay_script_hash_pattern_def list_lengths)
  from run obtain n a st where a: "primary p = a # st"
    and r1: "run_loop cur H E (Suc 0) [o2, o3]
      (p\<lparr>operation_count := n, primary := bitcoin_short_hash H a # st\<rparr>) = (error_success, p')"
    unfolding ops by (rule run_loop_hash160 [OF _ p o1])
  from r1 obtain n1 where r2: "run_loop cur H E (Suc (Suc 0)) [o3]
      (p\<lparr>operation_count := n1, primary := op_data o2 # bitcoin_short_hash H a # st\<rparr>) = (error_success, p')"
    by (rule run_loop_push [OF _ _ o2]) (simp_all add: p)
  from r2 obtain n2 where "p' = p\<lparr>operation_count := n2,
      primary := (if op_data o2 = bitcoin_short_hash H a then [positive_1] else []) # st\<rparr>"
    by (rule run_loop_equal [OF _ _ o3]) (auto simp: p)
  then have "op_data o2 = bitcoin_short_hash H a"
    using r by (auto simp: stack_result_def stack_true_def split: if_splits)
  then show ?thesis using a ops by simp
qed

subsection \<open>Verified spends\<close>

text \<open>The program of a successful verification, up to the result of the output script.\<close>

lemma run_program_inputs:
  assumes "run_program cur H E p = (ec, p')"
  shows "same_inputs p p'"
  using keepsD [OF frame.keeps_run_program, of p p cur H E] assms by (simp add: same_inputs_def)

lemma script_verify_prevout:
  assumes "script_verify cur H E tx index forks in_script in_witness out_script v = error_success"
  obtains spend prevout where
    "run_program cur H E (program_spending in_script tx index forks) = (error_success, spend)"
    "run_program cur H E (program_continue out_script spend) = (error_success, prevout)" "stack_result False prevout"
    "same_inputs (program_spending in_script tx index forks) spend"
proof -
  obtain ec spend where spend: "run_program cur H E (program_spending in_script tx index forks) = (ec, spend)" by fastforce
  obtain ec' prevout where prevout: "run_program cur H E (program_continue out_script spend) = (ec', prevout)" by fastforce
  have "ec = error_success" "ec' = error_success" "stack_result False prevout"
    using assms by (auto simp: script_verify_def Let_def spend prevout split: if_splits)
  then show thesis using that spend prevout run_program_inputs [OF spend] by simp
qed

lemmas fresh_defs = program_continue_def program_spending_def program_of_def

lemma key_hash_push:
  assumes "script_cache s = None" and "is_valid_operations cur s" and "is_pay_key_hash_pattern (script_operations cur s)"
  shows "op_code (script_operations cur s ! 2) \<le> push_four_size"
proof -
  have "operation_wf cur (script_operations cur s ! 2)" "op_data (script_operations cur s ! 2) \<noteq> []"
    using parse_lossless_aux [OF assms(1,2)] assms(3) by (auto simp: is_pay_key_hash_pattern_def list_all_length)
  from wf_data_payload [OF this] show ?thesis by (simp add: opcode_is_payload_def)
qed

text \<open>
  C3. When script::verify accepts the spending of a pay-to-key-hash output, some public key
  hashes to the twenty bytes of the output and an endorsement parses (strictly under bip66)
  to a signature that is valid for that key over the signature hash of this transaction,
  input and output script: no run of the interpreter succeeds without one.
\<close>

theorem pay_key_hash_requires_signature:
  assumes "script_verify cur H E tx index forks in_script in_witness out_script v = error_success"
    and "script_cache out_script = None" and "is_pay_key_hash_pattern (script_operations cur out_script)"
  shows "\<exists>key e. bitcoin_short_hash H key = op_data (script_operations cur out_script ! 2) \<and>
    signature_valid cur H E (program_spending out_script tx index forks) e key"
  using assms(1)
proof (rule script_verify_prevout)
  fix spend prevout
  let ?p = "program_continue out_script spend"
  assume run: "run_program cur H E ?p = (error_success, prevout)" and r: "stack_result False prevout"
    and spend: "same_inputs (program_spending in_script tx index forks) spend"
  have loop: "run_loop cur H E 0 (script_operations cur out_script) ?p = (error_success, prevout)"
    and "is_valid_operations cur out_script"
    using run_program_success(1,2) [OF run] by (simp_all add: fresh_defs program_is_valid_def)
  then have "op_code (script_operations cur out_script ! 2) \<le> push_four_size" by (intro key_hash_push assms(2,3))
  from pay_key_hash_run [OF loop assms(3) this _ r] obtain key e where
    "bitcoin_short_hash H key = op_data (script_operations cur out_script ! 2)" "signature_valid cur H E ?p e key"
    by (auto simp: fresh_defs)
  moreover have "signature_valid cur H E (program_spending out_script tx index forks) e key = signature_valid cur H E ?p e key"
    by (rule signature_valid_inputs) (use spend in \<open>simp_all add: same_inputs_def fresh_defs\<close>)
  ultimately show ?thesis by blast
qed

text \<open>The data popped for the embedded script is there, as the code asserts.\<close>

lemma embedded_script_present:
  assumes "run_program cur H E (program_continue out_script spend) = (error_success, prevout)"
    and "stack_result False prevout" and "is_pay_to_script_hash cur out_script forks"
  shows "\<exists>a st. primary spend = a # st \<and> bitcoin_short_hash H a = op_data (script_operations cur out_script ! 1)"
  using pay_script_hash_run [OF run_program_success(2) [OF assms(1)] _ _ assms(2)] assms(3)
  by (simp add: fresh_defs is_pay_to_script_hash_def)

text \<open>
  C4. When bip16 is active and script::verify accepts the spending of a pay-to-script-hash
  output, the input script consists of pushes only, leaves a script on its stack that hashes
  to the hash of the output, and that script evaluates to true on the rest of the stack.
\<close>

theorem pay_script_hash_requires_preimage:
  assumes "script_verify cur H E tx index forks in_script in_witness out_script v = error_success"
    and "is_pay_to_script_hash cur out_script forks"
  shows "is_relaxed_push (script_operations cur in_script) \<and>
    (\<exists>spend redeem st embedded.
       run_program cur H E (program_spending in_script tx index forks) = (error_success, spend) \<and>
       primary spend = redeem # st \<and>
       bitcoin_short_hash H redeem = op_data (script_operations cur out_script ! 1) \<and>
       run_program cur H E (program_continue (script_of_data cur redeem False) (spend\<lparr>primary := st\<rparr>)) =
         (error_success, embedded) \<and>
       stack_result False embedded)"
  using assms(1)
proof (rule script_verify_prevout)
  fix spend prevout
  assume spend: "run_program cur H E (program_spending in_script tx index forks) = (error_success, spend)"
    and prevout: "run_program cur H E (program_continue out_script spend) = (error_success, prevout)"
    and r: "stack_result False prevout"
  from embedded_script_present [OF prevout r assms(2)] obtain redeem st where
    redeem: "primary spend = redeem # st" "bitcoin_short_hash H redeem = op_data (script_operations cur out_script ! 1)"
    by blast
  have "\<not> is_pay_to_witness cur out_script forks"
    using assms(2) by (auto simp: is_pay_to_script_hash_def is_pay_to_witness_def is_pay_script_hash_pattern_def
        is_witness_program_pattern_def)
  then show ?thesis
    using assms spend prevout r redeem
    by (auto simp: script_verify_def prog_pop_def Let_def split: if_splits prod.splits)
qed

subsection \<open>Examples\<close>

text \<open>Digests with a constant short hash, and scripts that pay to it.\<close>

definition example_hashes :: hash_functions where
  "example_hashes = example_digests\<lparr>ripemd160_hash := \<lambda>data. replicate 20 7\<rparr>"

definition example_key_hash_script :: script where
  "example_key_hash_script =
     \<lparr>script_bytes = [0x76, 0xa9, 0x14] @ replicate 20 7 @ [0x88, 0xac], script_cache = None, script_valid = True\<rparr>"

lemma example_key_hash_script_facts:
  "script_operations bitcoin example_key_hash_script = [operation_of_code opcode_dup, operation_of_code opcode_hash160,
     push_operation (replicate 20 7), operation_of_code opcode_equalverify, operation_of_code opcode_checksig]"
  "script_serialized_size example_key_hash_script False = 25" "script_cache example_key_hash_script = None"
proof -
  let ?ops = "[operation_of_code opcode_dup, operation_of_code opcode_hash160,
    push_operation (replicate 20 7), operation_of_code opcode_equalverify, operation_of_code opcode_checksig]"
  have "list_all (operation_wf bitcoin) ?ops"
    using operation_wf_payload [of 20 "replicate 20 7" bitcoin] by (simp add: operation_wf_simple)
  then show "script_operations bitcoin example_key_hash_script = ?ops"
    unfolding example_key_hash_script_def
    by (rule bytes_script_operations) (simp add: operation_to_data_alt size_prefix_def operation_of_code_def)
qed (simp_all add: script_serialized_size_def example_key_hash_script_def)

lemma example_key_hash_run:
  "run_program bitcoin example_hashes example_curve (program_continue example_key_hash_script
      ((program_spending example_signed_script tx index 0)\<lparr>primary := [[9, 9], [9, 9, 1]]\<rparr>)) =
   (error_success, (program_spending example_key_hash_script tx index 0)\<lparr>operation_count := 4, primary := [[1]]\<rparr>)"
  by (simp add: run_defs example_key_hash_script_facts operation_of_code_def run_control_def run_crypto_def
      op_dup_def op_hash160_def op_equal_verify_def op_check_sig_def op_check_sig_verify_def program_defs
      example_check_signature parse_endorsement_def example_parse_signature example_hashes_def positive_1_def)

theorem pay_key_hash_requires_signature_witness:
  "\<exists>key e. bitcoin_short_hash example_hashes key = replicate 20 7 \<and>
    signature_valid bitcoin example_hashes example_curve (program_spending example_key_hash_script example_transfer 0 0) e key"
proof -
  have "script_verify bitcoin example_hashes example_curve example_transfer 0 0 example_signed_script
      witness_reset example_key_hash_script 0 = error_success"
    by (simp add: script_verify_def example_signed_script_run example_key_hash_run is_pay_to_witness_def
        is_pay_to_script_hash_def example_key_hash_script_facts is_witness_program_pattern_def
        is_pay_script_hash_pattern_def stack_result_def stack_true_def negative_0_def witness_reset_def)
  from pay_key_hash_requires_signature [OF this] show ?thesis
    by (simp add: example_key_hash_script_facts is_pay_key_hash_pattern_def operation_of_code_def)
qed

text \<open>A script that embeds the script of two times true, and the output that pays to its hash.\<close>

definition example_embedding_script :: script where
  "example_embedding_script = \<lparr>script_bytes = [2, 0x51, 0x51], script_cache = None, script_valid = True\<rparr>"

definition example_script_hash_script :: script where
  "example_script_hash_script =
     \<lparr>script_bytes = [0xa9, 0x14] @ replicate 20 7 @ [0x87], script_cache = None, script_valid = True\<rparr>"

abbreviation example_embedded_script :: script where
  "example_embedded_script \<equiv> \<lparr>script_bytes = [0x51, 0x51], script_cache = None, script_valid = True\<rparr>"

lemma example_script_hash_facts:
  "script_operations bitcoin example_embedding_script = [push_operation [0x51, 0x51]]"
  "script_operations bitcoin example_script_hash_script =
     [operation_of_code opcode_hash160, push_operation (replicate 20 7), operation_of_code opcode_equal]"
  "script_operations bitcoin example_embedded_script = [operation_of_code 0x51, operation_of_code 0x51]"
  "script_serialized_size example_script_hash_script False = 23" "script_serialized_size example_embedding_script False = 3"
  "script_serialized_size example_embedded_script False = 2"
proof -
  have wf: "list_all (operation_wf bitcoin) [operation_of_code opcode_hash160, push_operation (replicate 20 7), operation_of_code opcode_equal]"
    using operation_wf_payload [of 20 "replicate 20 7" bitcoin] by (simp add: operation_wf_simple)
  show "script_operations bitcoin example_embedding_script = [push_operation [0x51, 0x51]]"
    unfolding example_embedding_script_def using operation_wf_payload [of 2 "[0x51, 0x51]" bitcoin]
    by (intro bytes_script_operations) (simp_all add: operation_to_data_alt size_prefix_def)
  show "script_operations bitcoin example_script_hash_script =
     [operation_of_code opcode_hash160, push_operation (replicate 20 7), operation_of_code opcode_equal]"
    unfolding example_script_hash_script_def using wf
    by (rule bytes_script_operations) (simp add: operation_to_data_alt size_prefix_def operation_of_code_def)
  have "list_all (operation_wf bitcoin) [operation_of_code 0x51, operation_of_code 0x51]"
    by (simp add: operation_wf_simple)
  then show "script_operations bitcoin example_embedded_script = [operation_of_code 0x51, operation_of_code 0x51]"
    by (rule bytes_script_operations) (simp add: operation_to_data_alt size_prefix_def operation_of_code_def)
qed (simp_all add: script_serialized_size_def example_script_hash_script_def example_embedding_script_def)

lemma example_script_hash_runs:
  "run_program bitcoin example_hashes example_curve (program_spending example_embedding_script tx index forks) =
   (error_success, (program_spending example_embedding_script tx index forks)\<lparr>primary := [[0x51, 0x51]]\<rparr>)"
  "run_program bitcoin example_hashes example_curve (program_continue example_script_hash_script
      ((program_spending example_embedding_script tx index forks)\<lparr>primary := [[0x51, 0x51]]\<rparr>)) =
   (error_success, (program_spending example_script_hash_script tx index forks)\<lparr>operation_count := 2, primary := [[1]]\<rparr>)"
  "run_program bitcoin example_hashes example_curve (program_continue example_embedded_script
      ((program_spending example_embedding_script tx index forks)\<lparr>primary := []\<rparr>)) =
   (error_success, (program_spending example_embedded_script tx index forks)\<lparr>primary := [[1], [1]]\<rparr>)"
  by (simp_all add: run_defs example_script_hash_facts operation_of_code_def run_control_def run_crypto_def
      op_hash160_def op_equal_def prog_pop_def push_bool_def example_hashes_def positive_1_def
      opcode_to_positive_def op_push_number_def)

theorem pay_script_hash_requires_preimage_witness:
  "is_relaxed_push (script_operations bitcoin example_embedding_script)"
proof -
  have "script_verify bitcoin example_hashes example_curve example_transfer 0 bip16_rule example_embedding_script
      witness_reset example_script_hash_script 0 = error_success"
    by (simp add: script_verify_def example_script_hash_runs example_script_hash_facts is_pay_to_witness_def
        is_pay_to_script_hash_def prog_pop_def script_of_data_unprefixed script_factory_unprefixed is_relaxed_push_def
        opcode_is_relaxed_push_def is_enabled_def is_witness_program_pattern_def is_pay_script_hash_pattern_def script_constants
        stack_result_def stack_true_def negative_0_def Let_def operation_of_code_def witness_reset_def)
  from pay_script_hash_requires_preimage [OF this] show ?thesis
    by (simp add: is_pay_to_script_hash_def is_pay_script_hash_pattern_def example_script_hash_facts operation_of_code_def
        is_enabled_def bip16_rule_def)
qed

subsection \<open>Spending with a created signature\<close>

text \<open>What the curve library documents: signatures serialize and parse, and verify under the key of the secret.\<close>

definition curve_laws :: "curve_functions \<Rightarrow> (data_chunk \<Rightarrow> data_chunk) \<Rightarrow> bool" where
  "curve_laws E point \<longleftrightarrow>
     (\<forall>signature der. signature_serialize_der E signature = Some der \<longrightarrow>
        der \<noteq> [] \<and> signature_parse_der E der = Some signature \<and> signature_parse_der_lax E der = Some signature) \<and>
     (\<forall>hash secret signature. ecdsa_sign E hash secret = Some signature \<longrightarrow>
        (\<exists>key. ec_pubkey_parse E (point secret) = Some key \<and> ecdsa_verify E (signature_normalize E signature) hash key))"

lemma created_endorsement:
  assumes "curve_laws E point" and "point secret \<noteq> []"
    and "create_endorsement cur H E secret code tx index sighash_type ver v = Some e"
  obtains signature where "read_endorsement E strict e = Some (sighash_type, signature)"
    "verify_signature E (point secret) (generate_signature_hash cur H tx index code sighash_type ver v) signature"
proof -
  obtain signature der where s: "ecdsa_sign E (generate_signature_hash cur H tx index code sighash_type ver v) secret = Some signature"
    "signature_serialize_der E signature = Some der" "e = der @ [sighash_type]"
    using assms(3) by (auto simp: create_endorsement_def Let_def bind_eq_Some_conv)
  from assms(1) s(2) have der: "der \<noteq> []" "signature_parse_der E der = Some signature" "signature_parse_der_lax E der = Some signature"
    unfolding curve_laws_def by blast+
  from assms(1) s(1) obtain key where "ec_pubkey_parse E (point secret) = Some key"
    "ecdsa_verify E (signature_normalize E signature) (generate_signature_hash cur H tx index code sighash_type ver v) key"
    unfolding curve_laws_def by blast
  then show thesis
    using der s(3) that [of signature]
    by (simp add: read_endorsement_def parse_endorsement_def parse_signature_def verify_signature_def)
qed

text \<open>The unversioned signature hash depends on the operations of the script code only.\<close>

lemma unversioned_hash_operations:
  "script_operations cur code = script_operations cur code' \<Longrightarrow>
   generate_signature_hash cur H tx index code sighash_type version_unversioned v =
   generate_signature_hash cur H tx index code' sighash_type version_unversioned v'"
  by (simp add: generate_signature_hash_def generate_unversioned_signature_hash_def strip_code_seperators_def Let_def)

lemma operation_of_small_data:
  "1 < length d \<Longrightarrow> length d \<le> 75 \<Longrightarrow> operation_of_data d minimal = push_operation d"
  by (simp add: operation_of_data_def is_oversized_def script_constants opcode_from_data_def minimal_opcode_from_data_def
      nominal_opcode_from_data_def opcode_from_size_def opcode_is_payload_def word_le_nat_alt unat_of_nat)

lemma run_step_push:
  assumes "length d \<le> 75" and "negative_count p = 0" and "length (primary p) + length (alternate p) < 1000"
    and "operation_count p \<le> 201"
  shows "run_step cur H E i (push_operation d) p = (error_success, p\<lparr>primary := d # primary p\<rparr>)"
proof -
  have n: "unat (of_nat (length d) :: byte) = length d" using assms by (simp add: unat_of_nat)
  then have "of_nat (length d) \<le> (75 :: byte)" "of_nat (length d) \<le> (96 :: byte)" "\<not> (97 :: byte) \<le> of_nat (length d)"
    using assms by (simp_all add: word_le_nat_alt)
  moreover have "\<not> opcode_is_disabled (of_nat (length d))"
    using n assms(1) by (auto simp: opcode_is_disabled_def dest: arg_cong [where f = unat])
  ultimately show ?thesis
    using assms by (simp add: run_step_def is_oversized_def script_constants increment_operation_count_def opcode_is_counted_def
      operation_overflow_def executes_def succeeded_def run_op_def run_push_def op_push_size_def push_item_def is_stack_overflow_def Let_def)
qed

lemma run_step_code:
  assumes "run_op cur H E (Some i) (operation_of_code code) (p\<lparr>operation_count := Suc (operation_count p)\<rparr>) = (error_success, q)"
    and "opcode_nop \<le> code" and "\<not> opcode_is_disabled code"
    and "negative_count p = 0" and "length (primary q) + length (alternate q) \<le> 1000"
    and "operation_count p \<le> 200"
  shows "run_step cur H E i (operation_of_code code) p = (error_success, q)"
  using assms
  by (simp add: run_step_def is_oversized_def script_constants increment_operation_count_def opcode_is_counted_def
      operation_overflow_def executes_def succeeded_def is_stack_overflow_def operation_of_code_def Let_def)

lemma push_operation_size: "length d \<le> 75 \<Longrightarrow> length (operation_to_data (push_operation d)) = Suc (length d)"
proof -
  assume "length d \<le> 75"
  then have "unat (of_nat (length d) :: byte) = length d" by (simp add: unat_of_nat)
  then show ?thesis using \<open>length d \<le> 75\<close>
    by (auto simp: operation_to_data_alt size_prefix_def dest: arg_cong [where f = unat])
qed

lemma push_run:
  assumes "1 < length a" "length a \<le> 75" "1 < length b" "length b \<le> 75"
  shows "run_program cur H E (program_spending (script_from_operations [push_operation a, push_operation b]) tx index forks) =
    (error_success, (program_spending (script_from_operations [push_operation a, push_operation b]) tx index forks)\<lparr>primary := [b, a]\<rparr>)"
proof -
  have n: "unat (of_nat (length a) :: byte) = length a" using assms by (simp add: unat_of_nat)
  let ?s = "script_from_operations [push_operation a, push_operation b]"
  have "script_operations cur ?s = [push_operation a, push_operation b]"
    by (simp add: script_operations_def script_from_operations_def)
  moreover have "script_serialized_size ?s False \<le> 10000"
    using assms by (simp add: script_serialized_size_def script_from_operations_def push_operation_size)
  ultimately have "program_is_valid cur (program_spending ?s tx index forks)"
    using n assms by (auto simp: program_is_valid_def is_valid_operations_def is_unspendable_def script_constants fresh_defs dest: arg_cong [where f = unat])
  then show ?thesis using assms \<open>script_operations cur ?s = _\<close>
    by (simp add: run_program_def run_step_push fresh_defs closed_def)
qed

lemma key_hash_run:
  assumes h: "h = bitcoin_short_hash H key" "length h = 20"
    and valid: "signature_valid cur H E (program_spending (script_from_operations (to_pay_key_hash_pattern h)) tx index forks) e key"
    and spend: "same_inputs (program_spending in_script tx index forks) spend" "primary spend = [key, e]"
  shows "\<exists>q. run_program cur H E (program_continue (script_from_operations (to_pay_key_hash_pattern h)) spend) = (error_success, q) \<and>
     stack_result False q"
proof -
  let ?s = "script_from_operations (to_pay_key_hash_pattern h)"
  let ?p = "program_continue ?s spend"
  have "operation_of_data h True = push_operation h" using h(2) by (intro operation_of_small_data) simp_all
  then have pattern: "to_pay_key_hash_pattern h = [operation_of_code opcode_dup, operation_of_code opcode_hash160,
      push_operation h, operation_of_code opcode_equalverify, operation_of_code opcode_checksig]"
    by (simp add: to_pay_key_hash_pattern_def)
  have ops: "script_operations cur ?s = to_pay_key_hash_pattern h"
    by (simp add: script_operations_def script_from_operations_def)
  have size: "script_serialized_size ?s False = 25"
    using h(2) push_operation_size [of h] unfolding pattern
    by (simp add: script_serialized_size_def script_from_operations_def operation_of_code_def operation_to_data_alt size_prefix_def)
  have ok: "program_is_valid cur ?p"
    using ops size unfolding pattern
    by (simp add: program_is_valid_def is_valid_operations_def is_unspendable_def script_constants fresh_defs operation_of_code_def)
  let ?q = "\<lambda>n st. ?p\<lparr>operation_count := n, primary := st\<rparr>"
  have step1: "run_step cur H E 0 (operation_of_code opcode_dup) ?p = (error_success, ?q 1 [key, key, e])"
    using spend(2) by (intro run_step_code)
      (simp_all add: run_op_def run_control_def op_dup_def program_defs operation_of_code_def fresh_defs opcode_is_disabled_def)
  have step2: "run_step cur H E 1 (operation_of_code opcode_hash160) (?q 1 [key, key, e]) = (error_success, ?q 2 [h, key, e])"
    using h(1) by (intro run_step_code)
      (simp_all add: run_op_def run_crypto_def op_hash160_def program_defs operation_of_code_def fresh_defs
        opcode_is_disabled_def bitcoin_short_hash_def)
  have step3: "run_step cur H E 2 (push_operation h) (?q 2 [h, key, e]) = (error_success, ?q 2 [h, h, key, e])"
    using h(2) by (subst run_step_push) (simp_all add: fresh_defs)
  have step4: "run_step cur H E 3 (operation_of_code opcode_equalverify) (?q 2 [h, h, key, e]) = (error_success, ?q 3 [key, e])"
    by (intro run_step_code)
      (simp_all add: run_op_def run_control_def op_equal_verify_def program_defs operation_of_code_def fresh_defs opcode_is_disabled_def)
  have "signature_valid cur H E (?q 4 []) e key"
    using valid spend(1) by (subst signature_valid_inputs [of "program_spending ?s tx index forks"]) (simp_all add: same_inputs_def fresh_defs)
  then have "op_check_sig_verify cur H E (?q 4 [key, e]) = (error_success, ?q 4 [])"
    by (auto simp: op_check_sig_verify_def prog_pop_def signature_valid_def read_endorsement_def Let_def bind_eq_Some_conv)
  then have step5: "run_step cur H E 4 (operation_of_code opcode_checksig) (?q 3 [key, e]) = (error_success, ?q 4 [[positive_1]])"
    by (intro run_step_code)
      (simp_all add: run_op_def run_crypto_def op_check_sig_def push_bool_def push_item_def operation_of_code_def fresh_defs opcode_is_disabled_def)
  have "run_loop cur H E 0 [operation_of_code opcode_dup, operation_of_code opcode_hash160,
      push_operation h, operation_of_code opcode_equalverify, operation_of_code opcode_checksig] ?p =
      (error_success, ?q 4 [[positive_1]])"
    using step1 step2 step3 step4 step5 by (simp add: numeral_eq_Suc)
  then have "run_loop cur H E 0 (to_pay_key_hash_pattern h) ?p = (error_success, ?q 4 [[positive_1]])"
    by (simp only: pattern [symmetric])
  then have "run_program cur H E ?p = (error_success, ?q 4 [[positive_1]])"
    using ok ops by (simp add: run_program_def fresh_defs closed_def)
  then show ?thesis by (auto simp: stack_result_def stack_true_def positive_1_def negative_0_def)
qed

lemma created_signature_valid:
  assumes "curve_laws E point" and "point secret \<noteq> []"
    and "create_endorsement cur H E secret out_script tx index sighash_type version_unversioned v = Some e"
    and "out_script = script_from_operations ops" and "list_all (operation_wf cur) ops"
    and "1 < length e" and "length e \<le> 75" and "push_operation e \<notin> set ops"
  shows "signature_valid cur H E (program_spending out_script tx index forks) e (point secret)"
proof -
  let ?p = "program_spending out_script tx index forks"
  obtain signature where s: "read_endorsement E (is_enabled forks bip66_rule) e = Some (sighash_type, signature)"
    "verify_signature E (point secret) (generate_signature_hash cur H tx index out_script sighash_type version_unversioned v) signature"
    using created_endorsement [OF assms(1-3)] by blast
  have ops: "script_operations cur out_script = ops"
    by (simp add: assms(4) script_operations_def script_from_operations_def)
  have "e \<noteq> []" using assms(6) by auto
  then have "script_operations cur (signed_code cur [e] ?p) = filter (\<lambda>op. op \<noteq> push_operation e) ops"
    using find_and_delete_operations [of "script_from_operations ops" cur "[e]"] assms(4-7) ops
    by (simp add: signed_code_def subscript_def fresh_defs operation_of_small_data script_constants
        script_from_operations_def script_operations_def)
  also have "\<dots> = ops" using assms(8) by (auto intro!: filter_True)
  finally have "generate_signature_hash cur H tx index (signed_code cur [e] ?p) sighash_type version_unversioned (prog_value ?p) =
      generate_signature_hash cur H tx index out_script sighash_type version_unversioned v"
    using ops by (intro unversioned_hash_operations) simp
  then show ?thesis
    using s assms(2) by (simp add: signature_valid_def check_signature_def signed_version_def fresh_defs)
qed

lemma key_hash_spendable:
  assumes "curve_laws E point" and "h = bitcoin_short_hash H (point secret)" and "length h = 20"
    and "out_script = script_from_operations (to_pay_key_hash_pattern h)"
    and "create_endorsement cur H E secret out_script tx index sighash_type version_unversioned v = Some e"
    and "1 < length e" and "length e \<le> 75" and "e \<noteq> h" and "1 < length (point secret)" and "length (point secret) \<le> 75"
  shows "script_verify cur H E tx index forks
     (script_from_operations [operation_of_data e True, operation_of_data (point secret) True]) witness_reset out_script v
     = error_success"
proof -
  let ?in = "script_from_operations [push_operation e, push_operation (point secret)]"
  let ?ops = "to_pay_key_hash_pattern h"
  have push: "operation_of_data e True = push_operation e" "operation_of_data (point secret) True = push_operation (point secret)"
      "operation_of_data h True = push_operation h"
    using assms by (simp_all add: operation_of_small_data)
  have "list_all (operation_wf cur) ?ops"
    using operation_wf_payload [of 20 h cur] assms(3) push by (simp add: to_pay_key_hash_pattern_def operation_wf_simple)
  moreover have "push_operation e \<notin> set ?ops"
    using assms(6,8) push by (auto simp: to_pay_key_hash_pattern_def operation_of_code_def)
  ultimately have valid: "signature_valid cur H E (program_spending out_script tx index forks) e (point secret)"
    using assms by (intro created_signature_valid) auto
  note run = push_run [OF assms(6,7,9,10), of cur H E tx index forks]
  obtain q where q: "run_program cur H E (program_continue out_script
      ((program_spending ?in tx index forks)\<lparr>primary := [point secret, e]\<rparr>)) = (error_success, q)" "stack_result False q"
    using key_hash_run [OF assms(2,3) valid [unfolded assms(4)]
        run_program_inputs [OF run]] assms(4) by auto
  have "script_operations cur out_script = ?ops"
    by (simp add: assms(4) script_operations_def script_from_operations_def)
  then have "\<not> is_pay_to_witness cur out_script forks" "\<not> is_pay_to_script_hash cur out_script forks"
    by (simp_all add: is_pay_to_witness_def is_pay_to_script_hash_def is_witness_program_pattern_def
        is_pay_script_hash_pattern_def to_pay_key_hash_pattern_def)
  then show ?thesis
    unfolding push using run q by (simp add: script_verify_def witness_reset_def)
qed

text \<open>
  C5. An output that pays to the hash of a key can be spent: the input script with the
  endorsement made by create_endorsement for the secret, and the key, passes script::verify,
  for every transaction, fork configuration and curve library that behaves as documented.
\<close>

theorem pay_key_hash_spendable:
  assumes "curve_laws E point" and "h = bitcoin_short_hash H (point secret)" and "length h = 20"
    and "out_script = script_from_operations (to_pay_key_hash_pattern h)"
    and "create_endorsement cur H E secret out_script tx index sighash_type version_unversioned v = Some e"
    and "1 < length e" and "length e \<le> 75" and "e \<noteq> h" and "1 < length (point secret)" and "length (point secret) \<le> 75"
  shows "script_verify cur H E tx index forks
     (script_from_operations [operation_of_data e True, operation_of_data (point secret) True]) witness_reset out_script v
     = error_success"
  by (rule key_hash_spendable [OF assms])

theorem pay_key_hash_spendable_witness:
  "script_verify bitcoin example_hashes example_curve example_transfer 0 0
     (script_from_operations [operation_of_data [9, 9, 1] True, operation_of_data [9, 9] True]) witness_reset
     (script_from_operations (to_pay_key_hash_pattern (replicate 20 7))) 50 = error_success"
proof -
  have laws: "curve_laws example_curve (\<lambda>secret. secret)"
    by (simp add: curve_laws_def example_curve_def)
  have "create_endorsement bitcoin example_hashes example_curve [9, 9]
      (script_from_operations (to_pay_key_hash_pattern (replicate 20 7))) example_transfer 0 1 version_unversioned 50 = Some [9, 9, 1]"
    by (simp add: create_endorsement_def example_curve_def Let_def)
  from pay_key_hash_spendable [OF laws _ _ refl this] show ?thesis
    by (simp add: bitcoin_short_hash_def example_hashes_def numeral_eq_Suc)
qed

end
