(* ===== verification/Block.thy ===== *)
theory Block
  imports Verify "HOL-Library.List_Lexorder" "HOL-Library.Log_Nat"
begin

text \<open>
  Blocks: \<^verbatim>\<open>chain/block.hpp\<close> and \<^verbatim>\<open>src/chain/block.cpp\<close>, with the caches of the sizes, the number of
  inputs and the segregation.  The time points of \<^verbatim>\<open>block::validation\<close> are not modelled; its
  chain state is.  A query that fills a cache is two definitions: the value and the block
  with its cache filled.  \<open>None\<close> is an exception (\<^verbatim>\<open>safe_add\<close>, \<^verbatim>\<open>safe_unsigned\<close>) or an iterator
  past the end.
\<close>

record block =
  block_header :: header
  block_transactions :: "transaction list"
  block_segregated :: "bool option"
  total_inputs_cache :: "nat option"
  base_size_cache :: "nat option"
  total_size_cache :: "nat option"
  block_state :: "chain_state option"

text \<open>
  The constructor that moves its arguments.  The move constructor of a header drops the cached
  hash, as the copy constructors of headers and transactions drop their caches.
\<close>

definition block_of :: "header \<Rightarrow> transaction list \<Rightarrow> block" where
  "block_of h txs =
     \<lparr>block_header = h\<lparr>hash_cache := None\<rparr>, block_transactions = txs, block_segregated = None, total_inputs_cache = None,
      base_size_cache = None, total_size_cache = None, block_state = None\<rparr>"

definition block_of_copies :: "header \<Rightarrow> transaction list \<Rightarrow> block" where
  "block_of_copies h txs = block_of h (map transaction_copy txs)"

definition block_default :: block where
  "block_default = block_of header_default []"

definition block_copy :: "block \<Rightarrow> block" where
  "block_copy b = (block_of_copies (block_header b) (block_transactions b))\<lparr>block_state := block_state b\<rparr>"

definition block_move :: "block \<Rightarrow> block" where
  "block_move b = (block_of (block_header b) (block_transactions b))\<lparr>block_state := block_state b\<rparr>"

text \<open>The move assignment keeps the caches of its target.\<close>

definition block_assign :: "block \<Rightarrow> block \<Rightarrow> block" where
  "block_assign target source =
     target\<lparr>block_header := header_assign (block_header target) (block_header source),
       block_transactions := block_transactions source, block_state := block_state source\<rparr>"

definition block_equal :: "block \<Rightarrow> block \<Rightarrow> bool" where
  "block_equal a b \<longleftrightarrow>
     header_equal (block_header a) (block_header b) \<and>
     list_all2 transaction_equal (block_transactions a) (block_transactions b)"

definition block_reset :: "block \<Rightarrow> block" where
  "block_reset b = b\<lparr>block_header := header_reset (block_header b), block_transactions := []\<rparr>"

definition block_is_valid :: "block \<Rightarrow> bool" where
  "block_is_valid b \<longleftrightarrow> block_transactions b \<noteq> [] \<or> header_is_valid (block_header b)"

definition block_strip_witness :: "block \<Rightarrow> block" where
  "block_strip_witness b =
     b\<lparr>block_segregated := Some False, total_size_cache := None,
       block_transactions := map strip_witness (block_transactions b)\<rparr>"

subsection \<open>Serialization\<close>

definition block_from_data :: "currency \<Rightarrow> bool \<Rightarrow> block \<Rightarrow> block rd" where
  "block_from_data cur witness b =
     (let witness = (if is_bch cur then False else witness); b = block_reset b in
      do {
        h \<leftarrow> header_from_data True (block_header b);
        ok \<leftarrow> source_valid;
        (let b = b\<lparr>block_header := h\<rparr>
         in if \<not> ok then State_Monad.return b
            else do {
              count \<leftarrow> read_size_little_endian;
              txs \<leftarrow> (if count > get_max_block_size cur then do { invalidate; State_Monad.return [] }
                     else read_elements (transaction_from_reader cur True witness False) transaction_default count);
              ok \<leftarrow> source_valid;
              (let b = b\<lparr>block_transactions := txs\<rparr>;
                   b = (if witness then b else block_strip_witness b)
               in State_Monad.return (if ok then b else block_reset b))
            })
      })"

definition block_factory :: "currency \<Rightarrow> bool \<Rightarrow> block rd" where
  "block_factory cur witness = block_from_data cur witness block_default"

definition block_to_sink :: "currency \<Rightarrow> bool \<Rightarrow> block \<Rightarrow> data_chunk" where
  "block_to_sink cur witness b =
     (let witness = (if is_bch cur then False else witness)
      in header_to_data True (block_header b) @
         write_size_little_endian (length (block_transactions b)) @
         concat (map (transaction_to_wire cur witness) (block_transactions b)))"

text \<open>
  \<^verbatim>\<open>to_data(bool)\<close> passes its stream on without the flag, whose default is false.
\<close>

definition block_to_data :: "currency \<Rightarrow> bool \<Rightarrow> block \<Rightarrow> data_chunk" where
  "block_to_data cur witness b = block_to_sink cur False b"

definition to_hashes :: "currency \<Rightarrow> hash_functions \<Rightarrow> bool \<Rightarrow> block \<Rightarrow> hash_digest list" where
  "to_hashes cur H witness b =
     (let witness = (if is_bch cur then False else witness)
      in map (transaction_hash cur H witness) (block_transactions b))"

text \<open>\<^verbatim>\<open>std::accumulate\<close> with \<^verbatim>\<open>safe_add\<close>.\<close>

fun sum_sizes :: "('a \<Rightarrow> nat) \<Rightarrow> nat \<Rightarrow> 'a list \<Rightarrow> nat option" where
  "sum_sizes f acc [] = Some acc"
| "sum_sizes f acc (x # xs) = (if acc > max_size_t - f x then None else sum_sizes f (acc + f x) xs)"

definition block_size_of :: "currency \<Rightarrow> bool \<Rightarrow> block \<Rightarrow> nat option" where
  "block_size_of cur witness b = do {
     n \<leftarrow> sum_sizes (transaction_serialized_size cur True witness False) 0 (block_transactions b);
     Some ((header_serialized_size True + variable_uint_size (of_nat (length (block_transactions b))) + n)
       mod (max_size_t + 1))
   }"

definition block_serialized_size :: "currency \<Rightarrow> bool \<Rightarrow> block \<Rightarrow> nat option" where
  "block_serialized_size cur witness b =
     (let witness = (if is_bch cur then False else witness)
      in case (if witness then total_size_cache b else base_size_cache b) of
           Some v \<Rightarrow> Some v
         | None \<Rightarrow> block_size_of cur witness b)"

definition block_fill_size :: "currency \<Rightarrow> bool \<Rightarrow> block \<Rightarrow> block" where
  "block_fill_size cur witness b =
     (let witness = (if is_bch cur then False else witness)
      in case block_serialized_size cur witness b of
           None \<Rightarrow> b
         | Some v \<Rightarrow> if witness then b\<lparr>total_size_cache := Some v\<rparr> else b\<lparr>base_size_cache := Some v\<rparr>)"

definition set_header :: "block \<Rightarrow> header \<Rightarrow> block" where
  "set_header b h = b\<lparr>block_header := header_assign (block_header b) h\<rparr>"

definition set_transactions :: "block \<Rightarrow> transaction list \<Rightarrow> block" where
  "set_transactions b txs =
     b\<lparr>block_transactions := txs, block_segregated := None, total_inputs_cache := None,
       base_size_cache := None, total_size_cache := None\<rparr>"

definition block_hash_of :: "hash_functions \<Rightarrow> block \<Rightarrow> hash_digest" where
  "block_hash_of H b = header_hash H (block_header b)"

subsection \<open>Locators\<close>

text \<open>
  The floating-point \<^verbatim>\<open>log2\<close>, rounded upward to an integer, is the ceiling of the logarithm.
\<close>

definition locator_size :: "nat \<Rightarrow> nat" where
  "locator_size tip =
     (let first_ten_or_tip = min 10 tip;
          remaining = tip - first_ten_or_tip;
          rounded_up_log = (if remaining = 0 then 0 else if remaining = 1 then 1 else ceillog2 remaining)
      in first_ten_or_tip + rounded_up_log + 1)"

text \<open>
  The loop of \<^verbatim>\<open>locator_heights\<close>, with \<^verbatim>\<open>size_t\<close> arithmetic: \<open>n\<close> is the number of heights pushed so
  far.  A step that has been shifted out would keep the loop from ending; \<open>fuel\<close> bounds the
  iterations and \<open>None\<close> is a loop that needs more of them.
\<close>

fun locator_loop :: "nat \<Rightarrow> nat \<Rightarrow> uint64 \<Rightarrow> uint64 \<Rightarrow> uint64 list option" where
  "locator_loop 0 n step h = (if h > 0 then None else Some [0])"
| "locator_loop (Suc fuel) n step h =
     (if h > 0 then
        (let step = (if n \<ge> 10 then push_bit 1 step else step)
         in map_option ((#) h) (locator_loop fuel (Suc n) step (floor_subtract h step)))
      else Some [0])"

definition locator_heights :: "uint64 \<Rightarrow> uint64 list option" where
  "locator_heights tip = locator_loop 75 0 1 tip"

subsection \<open>Rewards\<close>

definition block_subsidy :: "currency \<Rightarrow> uint64 \<Rightarrow> bool \<Rightarrow> uint64" where
  "block_subsidy cur h retarget =
     (let subsidy = initial_block_subsidy_satoshi;
          halvings = h div subsidy_interval cur retarget
      in drop_bit (if unat halvings \<ge> 64 then 0 else unat halvings) subsidy)"

definition block_fees :: "block \<Rightarrow> uint64" where
  "block_fees b = foldl (\<lambda>sum tx. ceiling_add sum (fees tx)) 0 (block_transactions b)"

definition block_claim :: "block \<Rightarrow> uint64" where
  "block_claim b = (case block_transactions b of [] \<Rightarrow> 0 | tx # _ \<Rightarrow> total_output_value tx)"

definition block_reward :: "currency \<Rightarrow> uint64 \<Rightarrow> block \<Rightarrow> uint64" where
  "block_reward cur h b = ceiling_add (block_fees b) (block_subsidy cur h True)"

definition is_valid_coinbase_claim :: "currency \<Rightarrow> uint64 \<Rightarrow> block \<Rightarrow> bool" where
  "is_valid_coinbase_claim cur h b \<longleftrightarrow> block_claim b \<le> block_reward cur h b"

definition is_valid_coinbase_script :: "currency \<Rightarrow> nat \<Rightarrow> block \<Rightarrow> bool" where
  "is_valid_coinbase_script cur h b =
     (case block_transactions b of
        [] \<Rightarrow> False
      | tx # _ \<Rightarrow>
          (case tx_inputs tx of
             [] \<Rightarrow> False
           | i # _ \<Rightarrow> is_coinbase_pattern (script_operations cur (input_script i)) h))"

subsection \<open>Queries over the transactions\<close>

definition block_signature_operations_with :: "currency \<Rightarrow> bool \<Rightarrow> bool \<Rightarrow> block \<Rightarrow> uint64" where
  "block_signature_operations_with cur bip16 bip141 b =
     (let bip141 = (if is_bch cur then False else bip141)
      in foldl (\<lambda>sum tx. ceiling_add sum (transaction_signature_operations_with cur bip16 bip141 tx)) 0
           (block_transactions b))"

text \<open>The state is dereferenced before the test for null, so \<open>None\<close> is a null pointer here.\<close>

definition block_signature_operations :: "currency \<Rightarrow> block \<Rightarrow> uint64 option" where
  "block_signature_operations cur b = do {
     st \<leftarrow> block_state b;
     Some (block_signature_operations_with cur (chain_is_enabled st bip16_rule)
       (\<not> is_bch cur \<and> chain_is_enabled st bip141_rule) b)
   }"

definition total_inputs :: "bool \<Rightarrow> block \<Rightarrow> nat option" where
  "total_inputs with_coinbase b =
     (case total_inputs_cache b of
        Some v \<Rightarrow> Some v
      | None \<Rightarrow>
          let offset = (if with_coinbase then 0 else 1)
          in if offset > length (block_transactions b) then None
             else sum_sizes (\<lambda>tx. length (tx_inputs tx)) 0 (drop offset (block_transactions b)))"

definition block_fill_inputs :: "bool \<Rightarrow> block \<Rightarrow> block" where
  "block_fill_inputs with_coinbase b =
     (case total_inputs with_coinbase b of None \<Rightarrow> b | Some v \<Rightarrow> b\<lparr>total_inputs_cache := Some v\<rparr>)"

definition block_weight :: "currency \<Rightarrow> block \<Rightarrow> nat option" where
  "block_weight cur b = do {
     base \<leftarrow> block_serialized_size cur False b;
     full \<leftarrow> block_serialized_size cur True b;
     Some (base_size_contribution * base + total_size_contribution * full)
   }"


fun all_final :: "uint64 \<Rightarrow> uint32 \<Rightarrow> transaction list \<Rightarrow> bool option" where
  "all_final h time [] = Some True"
| "all_final h time (tx # txs) = do {
     final \<leftarrow> is_final tx h time;
     if final then all_final h time txs else Some False
   }"

definition block_is_final :: "uint64 \<Rightarrow> uint32 \<Rightarrow> block \<Rightarrow> bool option" where
  "block_is_final h time b = all_final h time (block_transactions b)"

definition is_distinct_transaction_set :: "currency \<Rightarrow> hash_functions \<Rightarrow> block \<Rightarrow> bool" where
  "is_distinct_transaction_set cur H b =
     (let hashes = sort (map (transaction_hash cur H False) (block_transactions b))
      in length (remdups_adj hashes) = length hashes)"

fun merkle_pairs :: "hash_functions \<Rightarrow> hash_digest list \<Rightarrow> hash_digest list" where
  "merkle_pairs H (a # b # hashes) = bitcoin_hash H (a @ b) # merkle_pairs H hashes"
| "merkle_pairs H hashes = []"

definition merkle_even :: "hash_digest list \<Rightarrow> hash_digest list" where
  "merkle_even hashes = (if length hashes mod 2 \<noteq> 0 then hashes @ [last hashes] else hashes)"

lemma length_merkle_pairs [simp]: "length (merkle_pairs H hashes) = length hashes div 2"
  by (induction H hashes rule: merkle_pairs.induct) auto

lemma length_merkle_even: "length (merkle_even hashes) = 2 * ((length hashes + 1) div 2)"
proof (cases "even (length hashes)")
  case True
  then show ?thesis by (auto simp: merkle_even_def even_iff_mod_2_eq_zero)
next
  case False
  then show ?thesis by (auto simp: merkle_even_def odd_iff_mod_2_eq_one)
qed

function merkle_loop :: "hash_functions \<Rightarrow> hash_digest list \<Rightarrow> hash_digest list" where
  "merkle_loop H hashes =
     (if length hashes > 1 then merkle_loop H (merkle_pairs H (merkle_even hashes)) else hashes)"
  by pat_completeness auto
termination
  by (relation "measure (\<lambda>(H, hashes). length hashes)") (auto simp: length_merkle_even)

declare merkle_loop.simps [simp del]

definition generate_merkle_root :: "currency \<Rightarrow> hash_functions \<Rightarrow> bool \<Rightarrow> block \<Rightarrow> hash_digest" where
  "generate_merkle_root cur H witness b =
     (let witness = (if is_bch cur then False else witness)
      in if block_transactions b = [] then null_hash else hd (merkle_loop H (to_hashes cur H witness b)))"


definition non_coinbase_input_count :: "block \<Rightarrow> nat" where
  "non_coinbase_input_count b =
     (if block_transactions b = [] then 0
      else foldl (\<lambda>sum tx. sum + length (tx_inputs tx)) 0 (tl (block_transactions b)))"

text \<open>The set of hashes of the transactions visited so far, from the last one backwards.\<close>

fun forward_loop :: "(transaction \<Rightarrow> hash_digest) \<Rightarrow> hash_digest list \<Rightarrow> transaction list \<Rightarrow> bool" where
  "forward_loop hash hashes [] = False"
| "forward_loop hash hashes (tx # txs) =
     (let hashes = hash tx # hashes
      in if list_ex (\<lambda>i. point_hash (op_point (previous_output i)) \<in> set hashes) (tx_inputs tx) then True
         else forward_loop hash hashes txs)"

definition is_forward_reference :: "currency \<Rightarrow> hash_functions \<Rightarrow> block \<Rightarrow> bool" where
  "is_forward_reference cur H b = forward_loop (transaction_hash cur H False) [] (rev (block_transactions b))"

text \<open>
  \<^verbatim>\<open>std::is_sorted\<close> with the comparison of the hashes from their last byte.  The comparison in the
  code takes the two ends of its ranges from different temporaries; this is the order it means.
\<close>

fun is_sorted_by :: "('a \<Rightarrow> 'a \<Rightarrow> bool) \<Rightarrow> 'a list \<Rightarrow> bool" where
  "is_sorted_by before (a # b # xs) = (\<not> before b a \<and> is_sorted_by before (b # xs))"
| "is_sorted_by before xs = True"

definition hash_cmp :: "currency \<Rightarrow> hash_functions \<Rightarrow> transaction \<Rightarrow> transaction \<Rightarrow> bool" where
  "hash_cmp cur H a b \<longleftrightarrow> rev (transaction_hash cur H False a) < rev (transaction_hash cur H False b)"

definition is_canonical_ordered :: "currency \<Rightarrow> hash_functions \<Rightarrow> block \<Rightarrow> bool" where
  "is_canonical_ordered cur H b = is_sorted_by (hash_cmp cur H) (tl (block_transactions b))"

definition block_is_internal_double_spend :: "block \<Rightarrow> bool" where
  "block_is_internal_double_spend b =
     (if block_transactions b = [] then False
      else \<not> no_adjacent_equal (sort_points (concat (map previous_outputs (tl (block_transactions b))))))"

definition block_is_segregated :: "currency \<Rightarrow> block \<Rightarrow> bool" where
  "block_is_segregated cur b =
     (if is_bch cur then False
      else case block_segregated b of
        Some v \<Rightarrow> v
      | None \<Rightarrow> list_ex (is_segregated cur) (block_transactions b))"

text \<open>The last output of the coinbase that holds a commitment decides.\<close>

definition is_valid_witness_commitment :: "currency \<Rightarrow> hash_functions \<Rightarrow> block \<Rightarrow> bool" where
  "is_valid_witness_commitment cur H b =
     (if is_bch cur then False
      else case block_transactions b of
        [] \<Rightarrow> False
      | tx # _ \<Rightarrow>
          (case tx_inputs tx of
             [] \<Rightarrow> False
           | i # _ \<Rightarrow>
               (case extract_reserved_hash i of
                  None \<Rightarrow> \<not> block_is_segregated cur b
                | Some reserved \<Rightarrow>
                    (case List.map_filter (extract_committed_hash cur) (rev (tx_outputs tx)) of
                       [] \<Rightarrow> \<not> block_is_segregated cur b
                     | committed # _ \<Rightarrow>
                         committed = bitcoin_hash H (generate_merkle_root cur H True b @ reserved)))))"

subsection \<open>Validation\<close>

text \<open>A loop over the transactions that stops at the first error.\<close>

fun first_error :: "('a \<Rightarrow> code option) \<Rightarrow> 'a list \<Rightarrow> code option" where
  "first_error f [] = Some error_success"
| "first_error f (x # xs) = do { ec \<leftarrow> f x; if ec \<noteq> error_success then Some ec else first_error f xs }"


definition accept_transactions :: "currency \<Rightarrow> chain_state \<Rightarrow> block \<Rightarrow> code option" where
  "accept_transactions cur st b = first_error (transaction_accept cur st False) (block_transactions b)"

definition connect_transactions :: "currency \<Rightarrow> hash_functions \<Rightarrow> curve_functions \<Rightarrow> chain_state \<Rightarrow> block \<Rightarrow> code option" where
  "connect_transactions cur H E st b =
     first_error (\<lambda>tx. Some (transaction_connect cur H E st tx)) (block_transactions b)"


definition get_allowed_sigops :: "nat \<Rightarrow> nat" where
  "get_allowed_sigops n = (1 + (if n = 0 then max_size_t else n - 1) div 1000000) * 20000"

definition max_block_size_old :: nat where "max_block_size_old = 8000000"

definition block_accept :: "currency \<Rightarrow> hash_functions \<Rightarrow> chain_state \<Rightarrow> bool \<Rightarrow> block \<Rightarrow> code option" where
  "block_accept cur H st transactions b =
     (let bip16 = chain_is_enabled st bip16_rule;
          bip34 = chain_is_enabled st bip34_rule;
          bip113 = chain_is_enabled st bip113_rule;
          bip141 = (\<not> is_bch cur \<and> chain_is_enabled st bip141_rule);
          block_time = (if bip113 then state_median_time_past st else timestamp (block_header b));
          h = height (state_data st)
      in do {
        n \<leftarrow> block_serialized_size cur False b;
        (let ec = header_accept H st (block_header b) in
         if ec \<noteq> error_success then Some ec
         else if is_bch cur \<and> \<not> is_monolith_enabled h (active_forks (state_active st)) \<and> n > max_block_size_old
           then Some error_block_size_limit
         else if is_under_checkpoint st then Some error_success
         else if is_bch cur \<and> is_magnetic_anomaly_enabled st \<and> \<not> is_canonical_ordered cur H b
           then Some error_non_canonical_ordered
         else if is_bch cur \<and> \<not> is_magnetic_anomaly_enabled st \<and> is_forward_reference cur H b
           then Some error_forward_reference
         else do {
           over \<leftarrow> (if bip141 then map_option (\<lambda>w. w > max_block_weight cur) (block_weight cur b) else Some False);
           if over then Some error_block_weight_limit
           else if bip34 \<and> \<not> is_valid_coinbase_script cur h b then Some error_coinbase_height_mismatch
           else if \<not> is_valid_coinbase_claim cur (of_nat h) b then Some error_coinbase_value_limit
           else do {
             final \<leftarrow> block_is_final (of_nat h) block_time b;
             if \<not> final then Some error_block_non_final
             else if bip141 \<and> \<not> is_valid_witness_commitment cur H b then Some error_invalid_witness_commitment
             else if transactions \<and>
                 unat (block_signature_operations_with cur bip16 bip141 b) > get_allowed_sigops n
               then Some error_block_embedded_sigop_limit
             else if transactions then accept_transactions cur st b
             else Some error_success
           }
         })
      })"

definition block_accept_validated :: "currency \<Rightarrow> hash_functions \<Rightarrow> bool \<Rightarrow> block \<Rightarrow> code option" where
  "block_accept_validated cur H transactions b =
     (case block_state b of Some st \<Rightarrow> block_accept cur H st transactions b | None \<Rightarrow> Some error_operation_failed)"

definition block_connect :: "currency \<Rightarrow> hash_functions \<Rightarrow> curve_functions \<Rightarrow> chain_state \<Rightarrow> block \<Rightarrow> code option" where
  "block_connect cur H E st b =
     (if is_under_checkpoint st then Some error_success else connect_transactions cur H E st b)"

definition block_connect_validated :: "currency \<Rightarrow> hash_functions \<Rightarrow> curve_functions \<Rightarrow> block \<Rightarrow> code option" where
  "block_connect_validated cur H E b =
     (case block_state b of Some st \<Rightarrow> block_connect cur H E st b | None \<Rightarrow> Some error_operation_failed)"

subsection \<open>Merkle roots\<close>

abbreviation hash_sized :: "hash_digest list \<Rightarrow> bool" where
  "hash_sized \<equiv> list_all (\<lambda>h. length h = 32)"

text \<open>The data that is hashed to compute a root: the concatenated pairs of every level.\<close>

fun merkle_chunks :: "hash_digest list \<Rightarrow> data_chunk list" where
  "merkle_chunks (a # b # hashes) = (a @ b) # merkle_chunks hashes"
| "merkle_chunks hashes = []"

lemma merkle_pairs_chunks: "merkle_pairs H hashes = map (bitcoin_hash H) (merkle_chunks hashes)"
  by (induction H hashes rule: merkle_pairs.induct) auto

function merkle_hashed :: "hash_functions \<Rightarrow> hash_digest list \<Rightarrow> data_chunk list" where
  "merkle_hashed H hashes =
     (if length hashes > 1
      then merkle_chunks (merkle_even hashes) @ merkle_hashed H (merkle_pairs H (merkle_even hashes)) else [])"
  by pat_completeness auto
termination
  by (relation "measure (\<lambda>(H, hashes). length hashes)") (auto simp: length_merkle_even)

declare merkle_hashed.simps [simp del]

lemma merkle_chunks_injective:
  "length xs = length ys \<Longrightarrow> even (length xs) \<Longrightarrow> hash_sized xs \<Longrightarrow> hash_sized ys \<Longrightarrow>
   merkle_chunks xs = merkle_chunks ys \<Longrightarrow> xs = ys"
proof (induction xs arbitrary: ys rule: merkle_chunks.induct)
  case (1 a b xs)
  then obtain c d zs where ys: "ys = c # d # zs" by (cases ys; cases "tl ys") auto
  then show ?case using 1 by simp
qed auto

lemma merkle_even_injective: "length xs = length ys \<Longrightarrow> merkle_even xs = merkle_even ys \<Longrightarrow> xs = ys"
  by (simp add: merkle_even_def split: if_splits)

lemma merkle_even_sized: "hash_sized xs \<Longrightarrow> hash_sized (merkle_even xs)"
  by (cases "xs = []") (auto simp: merkle_even_def list_all_iff)

lemma merkle_pairs_sized: "digest_sizes H \<Longrightarrow> hash_sized (merkle_pairs H xs)"
  by (induction H xs rule: merkle_pairs.induct) (auto simp: bitcoin_hash_def digest_sizes_def)

lemma merkle_loop_rec: "length xs > 1 \<Longrightarrow> merkle_loop H xs = merkle_loop H (merkle_pairs H (merkle_even xs))"
  by (subst merkle_loop.simps) simp

lemma merkle_loop_base: "\<not> length xs > 1 \<Longrightarrow> merkle_loop H xs = xs"
  by (subst merkle_loop.simps) simp

lemma merkle_loop_length: "xs \<noteq> [] \<Longrightarrow> length (merkle_loop H xs) = 1"
proof (induction H xs rule: merkle_loop.induct)
  case (1 H xs)
  show ?case
  proof (cases "length xs > 1")
    case True
    then have "merkle_pairs H (merkle_even xs) \<noteq> []"
      using length_merkle_pairs [of H "merkle_even xs"] by (auto simp: length_merkle_even simp del: length_merkle_pairs)
    then show ?thesis using 1(1) True by (simp add: merkle_loop_rec)
  next
    case False
    then show ?thesis using 1(2) by (cases xs) (simp_all add: merkle_loop_base)
  qed
qed

lemma merkle_loop_root:
  assumes "xs \<noteq> []" and "ys \<noteq> []" and "hd (merkle_loop H xs) = hd (merkle_loop H ys)"
  shows "merkle_loop H xs = merkle_loop H ys"
  using merkle_loop_length [OF assms(1), of H] merkle_loop_length [OF assms(2), of H] assms(3)
  by (cases "merkle_loop H xs"; cases "merkle_loop H ys") simp_all

lemma merkle_hashed_rec:
  "length xs > 1 \<Longrightarrow> merkle_hashed H xs = merkle_chunks (merkle_even xs) @ merkle_hashed H (merkle_pairs H (merkle_even xs))"
  by (subst merkle_hashed.simps) simp

lemma merkle_loop_injective:
  assumes "digest_sizes H"
  shows "length xs = length ys \<Longrightarrow> hash_sized xs \<Longrightarrow> hash_sized ys \<Longrightarrow>
    inj_on (bitcoin_hash H) (set (merkle_hashed H xs) \<union> set (merkle_hashed H ys)) \<Longrightarrow>
    merkle_loop H xs = merkle_loop H ys \<Longrightarrow> xs = ys"
proof (induction "length xs" arbitrary: xs ys rule: less_induct)
  case less
  show ?case
  proof (cases "length xs > 1")
    case True
    let ?xs = "merkle_even xs" and ?ys = "merkle_even ys"
    have ys: "length ys > 1" using True less.prems(1) by simp
    note rec = merkle_hashed_rec [OF True, of H] merkle_hashed_rec [OF ys, of H]
    have lengths: "length ?xs = length ?ys" "even (length ?xs)" "length (merkle_pairs H ?xs) < length xs"
      using True less.prems(1) by (simp_all add: length_merkle_even)
    have "merkle_pairs H ?xs = merkle_pairs H ?ys"
    proof (rule less.hyps)
      show "inj_on (bitcoin_hash H) (set (merkle_hashed H (merkle_pairs H ?xs)) \<union> set (merkle_hashed H (merkle_pairs H ?ys)))"
        using less.prems(4) unfolding rec by (rule inj_on_subset) auto
      show "merkle_loop H (merkle_pairs H ?xs) = merkle_loop H (merkle_pairs H ?ys)"
        using less.prems(5) unfolding merkle_loop_rec [OF True] merkle_loop_rec [OF ys] .
    qed (use lengths in \<open>simp_all only: length_merkle_pairs merkle_pairs_sized [OF assms]\<close>)
    moreover have "inj_on (bitcoin_hash H) (set (merkle_chunks ?xs) \<union> set (merkle_chunks ?ys))"
      using less.prems(4) unfolding rec by (rule inj_on_subset) auto
    ultimately have "merkle_chunks ?xs = merkle_chunks ?ys"
      unfolding merkle_pairs_chunks by (rule map_inj_on)
    then have "?xs = ?ys"
      by (rule merkle_chunks_injective [OF lengths(1,2) merkle_even_sized merkle_even_sized, OF less.prems(2,3)])
    with less.prems(1) show ?thesis by (rule merkle_even_injective)
  next
    case False
    then show ?thesis using less.prems(1,5) by (simp add: merkle_loop_base)
  qed
qed

lemma transaction_hash_plain:
  "hash_current cur H tx \<Longrightarrow> transaction_hash cur H False tx = bitcoin_hash H (transaction_to_wire cur False tx)"
  by (simp add: hash_current_def transaction_hash_def holds_read)

text \<open>
  C6. The merkle root commits to the transactions: two blocks with the same number of
  transactions, whose transactions hold no cached hash or the hash of their serialization
  (the constructors that take a hash and operator= can put another one there), and with the
  same generated root have transactions with the same serializations, unless the hash
  function collides on the data hashed for the two roots.
\<close>

theorem merkle_root_binding:
  assumes "digest_sizes H" and "list_all (hash_current cur H) (block_transactions a @ block_transactions b)"
    and "length (block_transactions a) = length (block_transactions b)"
    and "inj_on (bitcoin_hash H)
      (set (map (transaction_to_wire cur False) (block_transactions a @ block_transactions b)) \<union>
       set (merkle_hashed H (to_hashes cur H False a)) \<union> set (merkle_hashed H (to_hashes cur H False b)))"
    and "generate_merkle_root cur H False a = generate_merkle_root cur H False b"
  shows "map (transaction_to_wire cur False) (block_transactions a) = map (transaction_to_wire cur False) (block_transactions b)"
proof (cases "block_transactions a = []")
  case False
  let ?a = "map (transaction_to_wire cur False) (block_transactions a)"
  let ?b = "map (transaction_to_wire cur False) (block_transactions b)"
  have hashes: "to_hashes cur H False a = map (bitcoin_hash H) ?a" "to_hashes cur H False b = map (bitcoin_hash H) ?b"
    using assms(2) by (auto simp: to_hashes_def list_all_iff transaction_hash_plain)
  have sized: "hash_sized (map (bitcoin_hash H) ws)" for ws
    using assms(1) by (auto simp: list_all_iff bitcoin_hash_def digest_sizes_def)
  have some: "block_transactions b \<noteq> []" using assms(3) False by auto
  have loop: "merkle_loop H (to_hashes cur H False a) = merkle_loop H (to_hashes cur H False b)"
    using assms(5) False some by (intro merkle_loop_root) (simp_all add: generate_merkle_root_def to_hashes_def)
  have inj: "inj_on (bitcoin_hash H)
      (set (merkle_hashed H (to_hashes cur H False a)) \<union> set (merkle_hashed H (to_hashes cur H False b)))"
    using assms(4) by (rule inj_on_subset) auto
  have sizes: "length (to_hashes cur H False a) = length (to_hashes cur H False b)"
    "hash_sized (to_hashes cur H False a)" "hash_sized (to_hashes cur H False b)"
    using assms(3) sized unfolding hashes by (simp_all only: length_map)
  from loop have "to_hashes cur H False a = to_hashes cur H False b"
    by (rule merkle_loop_injective [OF assms(1) sizes inj])
  then show ?thesis
    unfolding hashes by (rule map_inj_on) (rule inj_on_subset [OF assms(4)], auto)
qed (use assms(3) in simp)

lemma merkle_duplicate_last:
  assumes "odd (length hashes)" and "1 < length hashes"
  shows "merkle_loop H (hashes @ [last hashes]) = merkle_loop H hashes"
proof -
  have "merkle_even (hashes @ [last hashes]) = merkle_even hashes"
    using assms(1) by (simp add: merkle_even_def odd_iff_mod_2_eq_one mod_Suc)
  moreover have "hashes \<noteq> []" using assms(2) by auto
  ultimately show ?thesis using assms(2) merkle_loop_rec [of hashes H] merkle_loop_rec [of "hashes @ [last hashes]" H] by simp
qed

subsection \<open>References and double spends\<close>

abbreviation spends_any :: "transaction \<Rightarrow> hash_digest set \<Rightarrow> bool" where
  "spends_any tx hashes \<equiv> \<exists>i \<in> set (tx_inputs tx). point_hash (op_point (previous_output i)) \<in> hashes"

lemma forward_loop_append:
  "forward_loop hash hashes (txs @ [tx]) \<longleftrightarrow>
   forward_loop hash hashes txs \<or> spends_any tx (set hashes \<union> hash ` set (txs @ [tx]))"
proof (induction txs arbitrary: hashes)
  case Nil
  show ?case by (simp add: list_ex_iff)
next
  case (Cons t txs)
  show ?case using Cons [of "hash t # hashes"] by auto
qed

lemma forward_reference_suffix:
  "forward_loop hash [] (rev txs) \<longleftrightarrow> (\<exists>j < length txs. spends_any (txs ! j) (hash ` set (drop j txs)))"
proof (induction txs)
  case (Cons tx txs)
  have "forward_loop hash [] (rev (tx # txs)) \<longleftrightarrow>
      (\<exists>j < length txs. spends_any (txs ! j) (hash ` set (drop j txs))) \<or> spends_any tx (hash ` set (tx # txs))"
    using forward_loop_append [of hash "[]" "rev txs" tx] Cons by simp
  also have "\<dots> \<longleftrightarrow> (\<exists>j < length (tx # txs). spends_any ((tx # txs) ! j) (hash ` set (drop j (tx # txs))))"
    unfolding length_Cons Ex_less_Suc2 by auto
  finally show ?case .
qed simp

lemma set_drop_nth: "x \<in> set (drop j xs) \<longleftrightarrow> (\<exists>k. j \<le> k \<and> k < length xs \<and> x = xs ! k)"
proof
  assume "x \<in> set (drop j xs)"
  then obtain n where "n < length xs - j" "x = xs ! (j + n)" by (auto simp: in_set_conv_nth)
  then show "\<exists>k. j \<le> k \<and> k < length xs \<and> x = xs ! k" by (intro exI [of _ "j + n"]) auto
next
  assume "\<exists>k. j \<le> k \<and> k < length xs \<and> x = xs ! k"
  then obtain k where k: "j \<le> k" "k < length xs" "x = xs ! k" by blast
  then have "drop j xs ! (k - j) = x" "k - j < length (drop j xs)" by auto
  then show "x \<in> set (drop j xs)" by (metis nth_mem)
qed

text \<open>
  is_forward_reference answers exactly whether some transaction of the block spends an
  output of itself or of a later transaction.
\<close>

theorem forward_reference_exact:
  "is_forward_reference cur H b \<longleftrightarrow>
   (\<exists>j k. j \<le> k \<and> k < length (block_transactions b) \<and>
      (\<exists>i \<in> set (tx_inputs (block_transactions b ! j)).
         point_hash (op_point (previous_output i)) = transaction_hash cur H False (block_transactions b ! k)))"
  unfolding is_forward_reference_def forward_reference_suffix image_iff Bex_def [of "set (drop _ _)"] set_drop_nth
  by (auto intro: order.strict_trans1) 

lemma block_double_spend_iff:
  "block_is_internal_double_spend b \<longleftrightarrow>
   \<not> distinct (map point_key (concat (map previous_outputs (tl (block_transactions b)))))"
proof -
  have "mset (map point_key (sort_points ps)) = mset (map point_key ps)" for ps
    by (simp add: mset_sort_points)
  from mset_eq_imp_distinct_iff [OF this] show ?thesis
    by (auto simp: block_is_internal_double_spend_def no_adjacent_equal_sorted sorted_sort_points)
qed

subsection \<open>Rewards\<close>

lemma initial_subsidy: "unat initial_block_subsidy_satoshi = 5000000000"
  by (simp add: initial_block_subsidy_satoshi_def initial_block_subsidy_bitcoin_def bitcoin_to_satoshi_def satoshi_per_bitcoin_def)

text \<open>
  block::subsidy halves fifty bitcoin once per subsidy interval, but from the sixty-
  fourth halving on it is fifty bitcoin again: the shift that would overflow is replaced by
  no shift.
\<close>

theorem subsidy_exact:
  "unat (block_subsidy cur h retarget) =
    (let halvings = unat h div unat (subsidy_interval cur retarget)
     in if halvings < 64 then 5000000000 div 2 ^ halvings else 5000000000)"
  unfolding block_subsidy_def Let_def unat_drop_bit_eq initial_subsidy unat_div by (simp add: drop_bit_eq_div)










subsection \<open>Locators\<close>

lemma unat_double: "unat s = 2 ^ k \<Longrightarrow> Suc k < 64 \<Longrightarrow> unat (push_bit 1 s) = 2 ^ Suc k" for s :: uint64
proof -
  assume s: "unat s = 2 ^ k" "Suc k < 64"
  have "(2::nat) ^ Suc k < 2 ^ 64" using s(2) by (intro power_strict_increasing) simp_all
  then show ?thesis using s by (simp add: push_bit_eq_mult unat_word_ariths)
qed

definition locator_ok :: "uint64 \<Rightarrow> nat \<Rightarrow> uint64 list option \<Rightarrow> bool" where
  "locator_ok h n result \<longleftrightarrow>
     (\<exists>hs. result = Some hs \<and> hs \<noteq> [] \<and> hd hs = h \<and> last hs = 0 \<and> sorted_wrt (>) hs \<and> length hs \<le> n)"

lemma locator_ok_zero: "1 \<le> n \<Longrightarrow> locator_ok 0 n (Some [0])"
  by (simp add: locator_ok_def)

lemma locator_ok_Cons:
  assumes "locator_ok h' n result" and "h' < h"
  shows "locator_ok h (Suc n) (map_option ((#) h) result)"
proof -
  obtain hs where hs: "result = Some hs" "hs \<noteq> []" "hd hs = h'" "last hs = 0" "sorted_wrt (>) hs" "length hs \<le> n"
    using assms(1) by (auto simp: locator_ok_def)
  then have "\<forall>x \<in> set hs. x \<le> h'" by (cases hs) auto
  then show ?thesis using hs assms(2) by (auto simp: locator_ok_def)
qed

lemma locator_back_off:
  "10 \<le> n \<Longrightarrow> unat step = 2 ^ k \<Longrightarrow> k + m < 64 \<Longrightarrow> unat h + 2 ^ Suc k \<le> 2 ^ Suc (k + m) \<Longrightarrow> m \<le> fuel \<Longrightarrow>
   locator_ok h (Suc m) (locator_loop fuel n step h)"
proof (induction fuel arbitrary: n step k m h)
  case 0
  then have "h = 0" by (simp add: unat_eq_zero)
  then show ?case by (simp add: locator_ok_zero)
next
  case (Suc fuel)
  show ?case
  proof (cases "h = 0")
    case False
    then have pos: "0 < unat h" by (simp add: unat_gt_0)
    then obtain m' where m: "m = Suc m'" using Suc.prems(4) by (cases m) auto
    have step: "unat (push_bit 1 step) = 2 ^ Suc k" using Suc.prems(2,3) m by (intro unat_double) auto
    let ?h = "floor_subtract h (push_bit 1 step)"
    have h: "unat ?h = unat h - 2 ^ Suc k" unfolding unat_floor_subtract step ..
    have "locator_ok ?h (Suc m') (locator_loop fuel (Suc n) (push_bit 1 step) ?h)"
    proof (rule Suc.IH [where k = "Suc k"])
      have "unat h + 2 ^ Suc k \<le> 2 ^ Suc (Suc k + m')" using Suc.prems(4) m by simp
      moreover have "(2::nat) ^ Suc (Suc k) \<le> 2 ^ Suc (Suc k + m')" by (intro power_increasing) simp_all
      ultimately show "unat ?h + 2 ^ Suc (Suc k) \<le> 2 ^ Suc (Suc k + m')" 
        unfolding h by (cases "2 ^ Suc k \<le> unat h") simp_all
    qed (use Suc.prems m step in simp_all)
    moreover have "?h < h" using h pos unfolding word_less_nat_alt by simp
    ultimately show ?thesis
      using Suc.prems(1) False m locator_ok_Cons by (simp add: word_gt_0 Let_def)
  qed (simp add: locator_ok_zero)
qed

lemma locator_first:
  "n \<le> 10 \<Longrightarrow> m < 64 \<Longrightarrow> unat h - (10 - n) + 2 \<le> 2 ^ Suc m \<Longrightarrow> 10 - n + m \<le> fuel \<Longrightarrow>
   locator_ok h (Suc (min (10 - n) (unat h) + m)) (locator_loop fuel n 1 h)"
proof (induction "10 - n" arbitrary: n h fuel)
  case 0
  then show ?case using locator_back_off [of n 1 0 m h fuel] by simp
next
  case (Suc d)
  show ?case
  proof (cases "h = 0")
    case True
    then show ?thesis by (cases fuel) (simp_all add: locator_ok_zero)
  next
    case False
    then have pos: "0 < unat h" by (simp add: unat_gt_0)
    obtain fuel' where fuel: "fuel = Suc fuel'" using Suc.prems(4) Suc.hyps(2) by (cases fuel) auto
    let ?h = "floor_subtract h 1"
    have h: "unat ?h = unat h - 1" by (simp add: unat_floor_subtract)
    have less: "?h < h" using h pos unfolding word_less_nat_alt by linarith
    have "locator_ok ?h (Suc (min (10 - Suc n) (unat ?h) + m)) (locator_loop fuel' (Suc n) 1 ?h)"
      using Suc.prems Suc.hyps(2) fuel h by (intro Suc.hyps(1)) simp_all
    then have "locator_ok h (Suc (Suc (min (10 - Suc n) (unat ?h) + m))) (map_option ((#) h) (locator_loop fuel' (Suc n) 1 ?h))"
      using less by (rule locator_ok_Cons)
    moreover have "Suc (min (10 - Suc n) (unat ?h) + m) = min (10 - n) (unat h) + m" using Suc.hyps(2) h pos by linarith
    ultimately have "locator_ok h (Suc (min (10 - n) (unat h) + m)) (map_option ((#) h) (locator_loop fuel' (Suc n) 1 ?h))"
      by (simp only:)
    moreover have "\<not> 10 \<le> n" using Suc.hyps(2) by simp
    ultimately show ?thesis using fuel False by (simp add: word_gt_0)
  qed
qed

text \<open>
  C18. The loop of locator_heights ends for every 64-bit height, before its doubling step is
  shifted out: the heights fall strictly from the top to zero, and there are at most as many
  as locator_size reserves (the code asserts it), never more than the 75 of its comment.
\<close>

theorem locator_heights_total:
  "\<exists>hs. locator_heights tip = Some hs \<and> hs \<noteq> [] \<and> hd hs = tip \<and> last hs = 0 \<and> sorted_wrt (>) hs \<and>
     length hs \<le> locator_size (unat tip) \<and> length hs \<le> 75"
proof -
  let ?r = "unat tip - 10"
  let ?log = "if ?r = 0 then 0 else if ?r = 1 then 1 else ceillog2 ?r"
  let ?m = "min 63 ?log"
  have "unat tip < 2 ^ LENGTH(64)" by (rule unsigned_less)
  then have bound: "?r + 2 \<le> 2 ^ 64" by simp
  have "?r + 2 \<le> 2 ^ Suc ?log"
  proof (cases "?r \<le> 1")
    case False
    then have "?r \<le> 2 ^ ceillog2 ?r" using ceillog2_le_iff [of ?r "ceillog2 ?r"] by simp
    then show ?thesis using False by simp
  qed auto
  then have "?r + 2 \<le> 2 ^ Suc ?m" using bound by (cases "?log \<le> 63") (simp_all add: min_def)
  then have "locator_ok tip (Suc (min 10 (unat tip) + ?m)) (locator_heights tip)"
    using locator_first [of 0 ?m tip 75] by (simp add: locator_heights_def)
  then obtain hs where "locator_heights tip = Some hs" "hs \<noteq> []" "hd hs = tip" "last hs = 0" "sorted_wrt (>) hs"
    "length hs \<le> Suc (min 10 (unat tip) + ?m)"
    by (auto simp: locator_ok_def)
  moreover have "Suc (min 10 (unat tip) + ?m) \<le> locator_size (unat tip)"
    by (simp add: locator_size_def Let_def min_def)
  ultimately show ?thesis by auto
qed

subsection \<open>Round trip\<close>

text \<open>A block as it comes off the wire.\<close>

definition block_wf :: "currency \<Rightarrow> block \<Rightarrow> bool" where
  "block_wf cur b \<longleftrightarrow>
     b = (block_of (block_header b) (block_transactions b))\<lparr>block_segregated := (if is_bch cur then Some False else None)\<rparr> \<and>
     header_wf True (block_header b) \<and> length (block_transactions b) \<le> get_max_block_size cur \<and>
     list_all (transaction_wf cur) (block_transactions b)"

lemma from_reader_bch: "is_bch cur \<Longrightarrow> transaction_from_reader cur True False unconfirmed = transaction_from_reader cur True True unconfirmed"
  by (simp add: transaction_from_reader_def)

lemma to_wire_bch: "is_bch cur \<Longrightarrow> transaction_to_wire cur False tx = transaction_to_wire cur True tx"
  by (simp add: transaction_to_wire_def)

lemma strip_wf_bch:
  assumes "transaction_wf cur tx" and "is_bch cur"
  shows "strip_witness tx = tx"
proof -
  have "map strip_input_witness (tx_inputs tx) = tx_inputs tx"
    using assms by (auto simp: transaction_wf_def is_segregated_def list_all_iff strip_of_reset intro!: map_idI)
  moreover have "segregated tx = Some False" using assms by (auto simp: transaction_wf_def dest: arg_cong [where f = segregated])
  ultimately show ?thesis by (simp add: strip_witness_def)
qed

interpretation block_codec: codec "block_to_sink cur True" "block_factory cur True" "block_wf cur" for cur
proof unfold_locales
  fix b rest
  assume good: "block_wf cur b"
  let ?witness = "\<not> is_bch cur" and ?txs = "block_transactions b"
  have reader: "transaction_from_reader cur True ?witness False = transaction_from_reader cur True True False"
    by (cases "is_bch cur") (simp_all add: from_reader_bch)
  have wire: "map (transaction_to_wire cur False) ?txs = map (transaction_to_wire cur True) ?txs" if "is_bch cur"
    using that by (simp add: to_wire_bch)
  have header: "run_state (header_from_data True (header_reset header_default)) (ready (header_to_data True (block_header b) @ more)) =
      (block_header b, ready more)" for more
    using header_codec.read_write [of True "block_header b" more] good
    by (simp add: block_wf_def header_factory_def header_reset_def header_default_def)
  have size: "length ?txs \<le> max_size_t" using good max_block_size_le_size_t [of cur] by (simp add: block_wf_def)
  have txs: "run_state (read_elements (transaction_from_reader cur True True False) transaction_default (length ?txs))
      (ready (concat (map (transaction_to_wire cur True) ?txs) @ rest)) = (?txs, ready rest)"
    using good by (intro transaction_codec.elements) (simp add: block_wf_def)
  have read_ok: "\<not> get_max_block_size cur < length ?txs" using good by (simp add: block_wf_def)
  have strip: "map strip_witness ?txs = ?txs" if "is_bch cur"
    using good that by (auto simp: block_wf_def list_all_iff strip_wf_bch intro!: map_idI)
  have shape: "\<lparr>block_header = block_header b, block_transactions = ?txs, block_segregated = (if is_bch cur then Some False else None),
      total_inputs_cache = None, base_size_cache = None, total_size_cache = None, block_state = None\<rparr> = b"
    using good by (cases b) (auto simp: block_wf_def block_of_def)
  show "run_state (block_factory cur True) (ready (block_to_sink cur True b @ rest)) = (b, ready rest)"
  proof (cases "is_bch cur")
    case True
    then have "block_to_sink cur True b = header_to_data True (block_header b) @ write_size_little_endian (length ?txs) @
        concat (map (transaction_to_wire cur True) ?txs)"
      by (simp only: block_to_sink_def Let_def if_True wire)
    then show ?thesis
      using True good size header txs reader strip [OF True] shape
      by (simp add: block_factory_def block_from_data_def block_default_def block_of_def block_reset_def
          wire_simps block_strip_witness_def header_default_def read_ok)
  next
    case False
    then have "block_to_sink cur True b = header_to_data True (block_header b) @ write_size_little_endian (length ?txs) @
        concat (map (transaction_to_wire cur True) ?txs)"
      by (simp add: block_to_sink_def)
    then show ?thesis
      using False good size header txs shape
      by (simp add: block_factory_def block_from_data_def block_default_def block_of_def block_reset_def
          wire_simps header_default_def read_ok)
  qed
qed


text \<open>
  C14. Reading back the wire form of a well-formed block, whatever follows it in the stream,
  gives the block and leaves the reader right behind it.
\<close>

theorem block_round_trip:
  assumes "block_wf cur b"
  shows "run_state (block_factory cur True) (ready (block_to_sink cur True b @ rest)) = (b, ready rest)"
  by (rule block_codec.read_write [OF assms])

subsection \<open>Sizes\<close>

lemma sum_sizes_exact:
  "acc + sum_list (map f xs) \<le> max_size_t \<Longrightarrow> sum_sizes f acc xs = Some (acc + sum_list (map f xs))"
  by (induction xs arbitrary: acc) auto

lemma block_size_exact:
  assumes "list_all (\<lambda>tx. list_all (\<lambda>i. length (point_hash (op_point (previous_output i))) = 32) (tx_inputs tx)) (block_transactions b)"
    and "length (previous_block_hash (block_header b)) = 32" and "length (merkle (block_header b)) = 32"
    and "length (block_to_sink cur witness b) \<le> max_size_t"
    and "total_size_cache b = None" and "base_size_cache b = None"
  shows "block_serialized_size cur witness b = Some (length (block_to_sink cur witness b))"
proof -
  define w where "w = (if is_bch cur then False else witness)"
  let ?txs = "block_transactions b"
  let ?n = "sum_list (map (transaction_serialized_size cur True w False) ?txs)"
  have n: "?n = length (concat (map (transaction_to_wire cur w) ?txs))"
  proof -
    have "map (transaction_serialized_size cur True w False) ?txs = map (\<lambda>tx. length (transaction_to_wire cur w tx)) ?txs"
      using assms(1) length_transaction_to_wire [of _ cur w False] by (auto simp: list_all_iff)
    then show ?thesis by (simp only: length_concat map_map comp_def)
  qed
  have total: "length (block_to_sink cur witness b) =
      header_serialized_size True + variable_uint_size (of_nat (length ?txs)) + ?n"
    unfolding block_to_sink_def Let_def n w_def [symmetric]
    using assms(2,3) by (simp add: length_simps write_size_little_endian_def)
  then have "sum_sizes (transaction_serialized_size cur True w False) 0 ?txs = Some ?n"
    using assms(4) sum_sizes_exact [of 0 "transaction_serialized_size cur True w False" ?txs] by simp
  then show ?thesis
    using assms(4,5,6) total
    unfolding block_serialized_size_def block_size_of_def Let_def w_def [symmetric] by (cases w) (simp_all add: less_Suc_eq_le)
qed

subsection \<open>Examples\<close>

text \<open>Digests whose value is one, so that every header meets its target, and a block on top of a young chain.\<close>

definition easy_digests :: hash_functions where
  "easy_digests = example_digests\<lparr>sha256_hash := \<lambda>data. 1 # replicate 31 0\<rparr>"

definition example_coinbase :: transaction where
  "example_coinbase = transaction_of 1 0
     [input_of (output_point_of (point_of null_hash null_index))
        \<lparr>script_bytes = [0x51, 0x51], script_cache = None, script_valid = True\<rparr> witness_reset max_input_sequence]
     [example_output]"

definition example_block :: block where
  "example_block = block_of
     (header_default\<lparr>merkle := 1 # replicate 31 0, timestamp := 500, bits := 0x1d00ffff, version := 1\<rparr>) [example_coinbase]"

definition example_tip :: chain_state where
  "example_tip = example_context\<lparr>state_work_required := 0x1d00ffff, state_median_time_past := 400\<rparr>"

lemma example_coinbase_facts:
  "is_coinbase example_coinbase" "tx_reachable cur easy_digests example_coinbase"
  "transaction_hash bitcoin easy_digests False example_coinbase = 1 # replicate 31 0"
  "total_output_value example_coinbase = 40" 
  "transaction_check bitcoin False True example_coinbase = error_success"
  "transaction_accept bitcoin example_tip False example_coinbase = Some error_success"
proof -
  show coinbase: "is_coinbase example_coinbase"
    by (simp add: example_coinbase_def is_coinbase_def point_is_null_def example_defs)
  show reach: "tx_reachable cur easy_digests example_coinbase" for cur
    unfolding example_coinbase_def by (rule tx_reachable.constructed)
  show "transaction_hash bitcoin easy_digests False example_coinbase = 1 # replicate 31 0"
    unfolding transaction_hash_plain [OF conjunct2 [OF tx_reachable_current [OF reach]]] bitcoin_hash_def by (simp add: easy_digests_def)
  show total: "total_output_value example_coinbase = 40"
    by (simp add: example_coinbase_def example_defs total_output_value_def sum_output_value_def ceiling_add_def)
  show "transaction_check bitcoin False True example_coinbase = error_success"
    using coinbase total
    by (simp add: transaction_check_def is_null_non_coinbase_def max_money_def recursive_money_def subsidy_interval_def
        retarget_subsidy_interval_def is_oversized_coinbase_def min_coinbase_size_def max_coinbase_size_def)
      (simp add: example_coinbase_def example_defs script_serialized_size_def)
  show "transaction_accept bitcoin example_tip False example_coinbase = Some error_success"
    using coinbase
    by (simp add: transaction_accept_def is_bch_def is_overspent_def Let_def example_tip_def chain_is_enabled_def is_enabled_def)
      (simp add: example_coinbase_def example_defs is_segregated_def is_bch_def input_is_segregated_def witness_reset_def
        is_missing_previous_outputs_def is_missing_def point_is_null_def is_double_spend_def validation_default_def
        transaction_is_mature_def is_mature_def)
qed









lemma example_block_wf: "block_wf bitcoin example_block"
proof -
  have "script_wf bitcoin \<lparr>script_bytes = [0x51, 0x51], script_cache = None, script_valid = True\<rparr>"
    by (simp add: script_wf_def get_max_block_size_def max_block_size_def is_bch_def)
  then have "transaction_wf bitcoin example_coinbase"
    by (simp add: transaction_wf_def example_coinbase_def example_defs is_bch_def is_segregated_def input_base_wf_def point_wf_def
        output_wf_def script_wf_def input_is_segregated_def witness_reset_def null_hash_def get_max_block_size_def max_block_size_def
        output_not_found_def)
  then show ?thesis
    by (simp add: block_wf_def example_block_def block_of_def header_wf_def header_default_def null_hash_def is_bch_def
        get_max_block_size_def max_block_size_def)
qed

theorem block_round_trip_witness:
  "run_state (block_factory bitcoin True) (ready (block_to_sink bitcoin True example_block @ [7])) = (example_block, ready [7])"
  by (rule block_round_trip) (rule example_block_wf)

theorem merkle_root_binding_witness:
  "map (transaction_to_wire bitcoin False) (block_transactions example_block) =
   map (transaction_to_wire bitcoin False) (block_transactions (block_strip_witness example_block))"
proof (rule merkle_root_binding [where H = easy_digests])
  let ?stripped = "strip_witness example_coinbase"
  have wire: "transaction_to_wire bitcoin False ?stripped = transaction_to_wire bitcoin False example_coinbase"
    by (simp add: transaction_to_wire_def strip_witness_def write_inputs_strip)
  have reach: "hash_current bitcoin easy_digests ?stripped" "hash_current bitcoin easy_digests example_coinbase"
    using tx_reachable_current [OF tx_reachable.stepped [OF example_coinbase_facts(2) tx_step.step_strip]]
      tx_reachable_current [OF example_coinbase_facts(2)] by blast+
  have hash: "transaction_hash bitcoin easy_digests False ?stripped = transaction_hash bitcoin easy_digests False example_coinbase"
    unfolding transaction_hash_plain [OF reach(1)] transaction_hash_plain [OF reach(2)] wire ..
  have txs: "block_transactions example_block = [example_coinbase]" "block_transactions (block_strip_witness example_block) = [?stripped]"
    by (simp_all add: example_block_def block_of_def block_strip_witness_def)
  show "digest_sizes easy_digests" by (auto simp: digest_sizes_def easy_digests_def example_digests_def)
  show "list_all (hash_current bitcoin easy_digests) (block_transactions example_block @ block_transactions (block_strip_witness example_block))"
    using reach by (simp add: txs)
  show "inj_on (bitcoin_hash easy_digests)
     (set (map (transaction_to_wire bitcoin False) (block_transactions example_block @ block_transactions (block_strip_witness example_block))) \<union>
      set (merkle_hashed easy_digests (to_hashes bitcoin easy_digests False example_block)) \<union>
      set (merkle_hashed easy_digests (to_hashes bitcoin easy_digests False (block_strip_witness example_block))))"
    by (simp add: txs wire to_hashes_def merkle_hashed.simps)
  show "length (block_transactions example_block) = length (block_transactions (block_strip_witness example_block))"
    "generate_merkle_root bitcoin easy_digests False example_block =
     generate_merkle_root bitcoin easy_digests False (block_strip_witness example_block)"
    by (simp_all add: txs hash generate_merkle_root_def to_hashes_def)
qed

text \<open>
  The cache of total_inputs does not record whether the coinbase was counted: after a
  call without the coinbase, a call with it answers the count without it.
\<close>

theorem total_inputs_ignores_its_argument:
  "total_inputs True (block_of h [example_transfer, example_transfer]) = Some 2 \<and>
   total_inputs True (block_fill_inputs False (block_of h [example_transfer, example_transfer])) = Some 1"
  by (simp add: total_inputs_def block_fill_inputs_def block_of_def example_transfer_def transaction_of_def max_size_t_def)

text \<open>
  Loading into a block keeps the cached sizes: a block whose size was asked before answers with the
  size of the block it replaced.
\<close>

theorem loaded_block_keeps_sizes:
  "block_serialized_size cur False (fst (run_state (block_from_data cur witness (b\<lparr>base_size_cache := Some n\<rparr>)) r)) = Some n"
  by (simp add: block_serialized_size_def block_from_data_def Let_def block_reset_def block_strip_witness_def split: prod.splits)

end
