(* ===== verification/Sip_Hash.thy ===== *)
theory Sip_Hash
  imports Wire
begin

text \<open>
  SipHash-2-4 (\<^verbatim>\<open>math/sip_hash.hpp\<close>, \<^verbatim>\<open>src/math/sip_hash.cpp\<close>), which makes the short transaction ids
  of compact blocks.  The class hashes a stream of bytes or of words; two specialized functions
  hash a 32-byte digest, without and with a 32-bit suffix.  The equivalences say that they agree.
\<close>

unbundle bit_operations_syntax

type_synonym sip_lanes = "uint64 \<times> uint64 \<times> uint64 \<times> uint64"

definition ROTL :: "uint64 \<Rightarrow> nat \<Rightarrow> uint64" where
  "ROTL x b = push_bit b x OR drop_bit (64 - b) x"

definition SIPROUND :: "sip_lanes \<Rightarrow> sip_lanes" where
  "SIPROUND v =
     (case v of (v0, v1, v2, v3) \<Rightarrow>
        let v0 = v0 + v1; v1 = ROTL v1 13; v1 = v1 XOR v0; v0 = ROTL v0 32;
            v2 = v2 + v3; v3 = ROTL v3 16; v3 = v3 XOR v2;
            v0 = v0 + v3; v3 = ROTL v3 21; v3 = v3 XOR v0;
            v2 = v2 + v1; v1 = ROTL v1 17; v1 = v1 XOR v2; v2 = ROTL v2 32
        in (v0, v1, v2, v3))"

text \<open>
  The member \<^verbatim>\<open>count\<close> is an \<^verbatim>\<open>int\<close> that only grows; writing \<open>2 ^ 31\<close> bytes to one hasher is undefined
  in the code and outside the model.
\<close>

record sip_hasher =
  sip_v :: sip_lanes
  sip_tmp :: uint64
  sip_count :: nat

definition sip_hasher_of :: "uint64 \<Rightarrow> uint64 \<Rightarrow> sip_hasher" where
  "sip_hasher_of k0 k1 =
     \<lparr>sip_v = (0x736f6d6570736575 XOR k0, 0x646f72616e646f6d XOR k1,
               0x6c7967656e657261 XOR k0, 0x7465646279746573 XOR k1),
      sip_tmp = 0, sip_count = 0\<rparr>"

text \<open>The absorption of a word, which the code writes out at every place.\<close>

definition sip_absorb :: "uint64 \<Rightarrow> sip_lanes \<Rightarrow> sip_lanes" where
  "sip_absorb t v =
     (case v of (v0, v1, v2, v3) \<Rightarrow>
        case SIPROUND (SIPROUND (v0, v1, v2, v3 XOR t)) of (v0, v1, v2, v3) \<Rightarrow> (v0 XOR t, v1, v2, v3))"

definition sip_write_word :: "uint64 \<Rightarrow> sip_hasher \<Rightarrow> sip_hasher" where
  "sip_write_word data h = h\<lparr>sip_v := sip_absorb data (sip_v h), sip_count := sip_count h + 8\<rparr>"

text \<open>One iteration of the byte loop, then the loop.\<close>

definition sip_write_byte :: "byte \<Rightarrow> sip_hasher \<Rightarrow> sip_hasher" where
  "sip_write_byte b h =
     (let t = sip_tmp h OR push_bit (8 * (sip_count h mod 8)) (ucast b); c = sip_count h + 1
      in if c mod 8 = 0 then \<lparr>sip_v = sip_absorb t (sip_v h), sip_tmp = 0, sip_count = c\<rparr>
         else \<lparr>sip_v = sip_v h, sip_tmp = t, sip_count = c\<rparr>)"

definition sip_write_bytes :: "data_chunk \<Rightarrow> sip_hasher \<Rightarrow> sip_hasher" where
  "sip_write_bytes data h = fold sip_write_byte data h"

definition sip_finish :: "sip_lanes \<Rightarrow> uint64" where
  "sip_finish v =
     (case v of (v0, v1, v2, v3) \<Rightarrow>
        case SIPROUND (SIPROUND (SIPROUND (SIPROUND (v0, v1, v2 XOR 0xff, v3)))) of
          (v0, v1, v2, v3) \<Rightarrow> v0 XOR v1 XOR v2 XOR v3)"

definition sip_finalize :: "sip_hasher \<Rightarrow> uint64" where
  "sip_finalize h = sip_finish (sip_absorb (sip_tmp h OR push_bit 56 (of_nat (sip_count h))) (sip_v h))"

definition get_uint64 :: "nat \<Rightarrow> hash_digest \<Rightarrow> uint64" where
  "get_uint64 i x =
     (let p = drop (i * 8) x
      in ucast (p ! 0) OR push_bit 8 (ucast (p ! 1)) OR push_bit 16 (ucast (p ! 2)) OR push_bit 24 (ucast (p ! 3)) OR
         push_bit 32 (ucast (p ! 4)) OR push_bit 40 (ucast (p ! 5)) OR push_bit 48 (ucast (p ! 6)) OR
         push_bit 56 (ucast (p ! 7)))"

text \<open>The specialized functions, in the order of their statements.\<close>

definition sip_hash_digest_lanes :: "uint64 \<Rightarrow> uint64 \<Rightarrow> hash_digest \<Rightarrow> sip_lanes" where
  "sip_hash_digest_lanes k0 k1 val =
     (let d = get_uint64 0 val in
      case SIPROUND (SIPROUND (0x736f6d6570736575 XOR k0, 0x646f72616e646f6d XOR k1, 0x6c7967656e657261 XOR k0,
          0x7465646279746573 XOR k1 XOR d)) of (v0, v1, v2, v3) \<Rightarrow>
        let v0 = v0 XOR d; d = get_uint64 1 val; v3 = v3 XOR d in
        case SIPROUND (SIPROUND (v0, v1, v2, v3)) of (v0, v1, v2, v3) \<Rightarrow>
          let v0 = v0 XOR d; d = get_uint64 2 val; v3 = v3 XOR d in
          case SIPROUND (SIPROUND (v0, v1, v2, v3)) of (v0, v1, v2, v3) \<Rightarrow>
            let v0 = v0 XOR d; d = get_uint64 3 val; v3 = v3 XOR d in
            case SIPROUND (SIPROUND (v0, v1, v2, v3)) of (v0, v1, v2, v3) \<Rightarrow> (v0 XOR d, v1, v2, v3))"

definition sip_hash_uint256 :: "uint64 \<Rightarrow> uint64 \<Rightarrow> hash_digest \<Rightarrow> uint64" where
  "sip_hash_uint256 k0 k1 val =
     (case sip_hash_digest_lanes k0 k1 val of (v0, v1, v2, v3) \<Rightarrow>
        let v3 = v3 XOR push_bit 59 4 in
        case SIPROUND (SIPROUND (v0, v1, v2, v3)) of (v0, v1, v2, v3) \<Rightarrow>
          let v0 = v0 XOR push_bit 59 4 in sip_finish (v0, v1, v2, v3))"

definition sip_hash_uint256_extra :: "uint64 \<Rightarrow> uint64 \<Rightarrow> hash_digest \<Rightarrow> uint32 \<Rightarrow> uint64" where
  "sip_hash_uint256_extra k0 k1 val extra =
     (case sip_hash_digest_lanes k0 k1 val of (v0, v1, v2, v3) \<Rightarrow>
        let d = push_bit 56 36 OR ucast extra; v3 = v3 XOR d in
        case SIPROUND (SIPROUND (v0, v1, v2, v3)) of (v0, v1, v2, v3) \<Rightarrow>
          let v0 = v0 XOR d in sip_finish (v0, v1, v2, v3))"

subsection \<open>Equivalence\<close>

lemma sip_write_bytes_append: "sip_write_bytes (a @ b) h = sip_write_bytes b (sip_write_bytes a h)"
  by (simp add: sip_write_bytes_def)

lemma list_of_8: "length p = 8 \<Longrightarrow> p = [p ! 0, p ! 1, p ! 2, p ! 3, p ! 4, p ! 5, p ! 6, p ! 7]"
  by (auto simp: length_Suc_conv eval_nat_numeral)

text \<open>The byte loop inside a word and at its end.\<close>

lemma sip_write_byte_inside:
  "k < 7 \<Longrightarrow> sip_write_byte b \<lparr>sip_v = v, sip_tmp = t, sip_count = 8 * n + k\<rparr> =
   \<lparr>sip_v = v, sip_tmp = t OR push_bit (8 * k) (ucast b), sip_count = 8 * n + (k + 1)\<rparr>"
  by (simp add: sip_write_byte_def Let_def mod_Suc)

lemma sip_write_byte_last:
  "k = 7 \<Longrightarrow> sip_write_byte b \<lparr>sip_v = v, sip_tmp = t, sip_count = 8 * n + k\<rparr> =
   \<lparr>sip_v = sip_absorb (t OR push_bit 56 (ucast b)) v, sip_tmp = 0, sip_count = 8 * n + 8\<rparr>"
  by (simp add: sip_write_byte_def Let_def mod_Suc)

text \<open>Eight bytes at a word boundary are the word of their little-endian reading.\<close>

lemma sip_write_eight:
  "sip_write_bytes [a, b, c, d, e, f, g, i] \<lparr>sip_v = v, sip_tmp = 0, sip_count = 8 * n\<rparr> =
   sip_write_word (get_uint64 0 [a, b, c, d, e, f, g, i]) \<lparr>sip_v = v, sip_tmp = 0, sip_count = 8 * n\<rparr>"
proof -
  have "sip_write_byte a \<lparr>sip_v = v, sip_tmp = 0, sip_count = 8 * n\<rparr> =
      \<lparr>sip_v = v, sip_tmp = ucast a, sip_count = 8 * n + 1\<rparr>"
    using sip_write_byte_inside [of 0 a v 0 n] by simp
  then have "sip_write_bytes [a, b, c, d, e, f, g, i] \<lparr>sip_v = v, sip_tmp = 0, sip_count = 8 * n\<rparr> =
      sip_write_byte i (sip_write_byte g (sip_write_byte f (sip_write_byte e (sip_write_byte d
        (sip_write_byte c (sip_write_byte b \<lparr>sip_v = v, sip_tmp = ucast a, sip_count = 8 * n + 1\<rparr>))))))"
    by (simp only: sip_write_bytes_def fold_simps)
  also have "\<dots> = \<lparr>sip_v = sip_absorb (get_uint64 0 [a, b, c, d, e, f, g, i]) v, sip_tmp = 0, sip_count = 8 * n + 8\<rparr>"
    by (simp add: sip_write_byte_inside sip_write_byte_last get_uint64_def or.assoc del: add_Suc_right)
  finally show ?thesis by (simp add: sip_write_word_def)
qed

lemma drop_list_of_8:
  assumes "i * 8 + 8 \<le> length x"
  obtains a b c d e f g j where "take 8 (drop (i * 8) x) = [a, b, c, d, e, f, g, j]"
    "get_uint64 i x = get_uint64 0 [a, b, c, d, e, f, g, j]"
proof -
  let ?p = "take 8 (drop (i * 8) x)"
  have "length ?p = 8" using assms by simp
  moreover have "get_uint64 i x = get_uint64 0 ?p" using assms by (simp add: get_uint64_def)
  ultimately show ?thesis using list_of_8 [of ?p] that by metis
qed

lemma sip_write_slice:
  assumes "i * 8 + 8 \<le> length x"
  shows "sip_write_bytes (take 8 (drop (i * 8) x)) \<lparr>sip_v = v, sip_tmp = 0, sip_count = 8 * n\<rparr> =
      \<lparr>sip_v = sip_absorb (get_uint64 i x) v, sip_tmp = 0, sip_count = 8 * Suc n\<rparr>"
proof -
  obtain a b c d e f g j where "take 8 (drop (i * 8) x) = [a, b, c, d, e, f, g, j]"
    and "get_uint64 i x = get_uint64 0 [a, b, c, d, e, f, g, j]"
    by (rule drop_list_of_8 [OF assms])
  then show ?thesis using sip_write_eight [of a b c d e f g j v n] by (simp add: sip_write_word_def)
qed

lemma split_32: "length x = 32 \<Longrightarrow>
   x = take 8 (drop (0 * 8) x) @ take 8 (drop (1 * 8) x) @ take 8 (drop (2 * 8) x) @ take 8 (drop (3 * 8) x)"
  by (rule nth_equalityI) (auto simp: nth_append)

lemma sip_digest_lanes:
  "sip_hash_digest_lanes k0 k1 val =
   sip_absorb (get_uint64 3 val) (sip_absorb (get_uint64 2 val) (sip_absorb (get_uint64 1 val)
     (sip_absorb (get_uint64 0 val) (sip_v (sip_hasher_of k0 k1)))))"
  by (simp add: sip_hash_digest_lanes_def sip_absorb_def sip_hasher_of_def Let_def xor.assoc split: prod.splits)

lemma sip_write_digest:
  assumes "length val = 32"
  shows "sip_write_bytes val (sip_hasher_of k0 k1) =
    \<lparr>sip_v = sip_hash_digest_lanes k0 k1 val, sip_tmp = 0, sip_count = 8 * 4\<rparr>"
proof -
  note s = sip_write_slice [of _ val]
  obtain v where v: "sip_hasher_of k0 k1 = \<lparr>sip_v = v, sip_tmp = 0, sip_count = 0\<rparr>"
    by (simp add: sip_hasher_of_def)
  then show ?thesis
    using s [of 0 _ 0] s [of 1 _ "Suc 0"] s [of 2 _ "Suc (Suc 0)"] s [of 3 _ "Suc (Suc (Suc 0))"] assms
    by (subst split_32 [OF assms]) (simp add: sip_write_bytes_append sip_digest_lanes)
qed

lemma uint32_bytes:
  "(ucast (ucast e :: byte) :: uint64) OR push_bit 8 (ucast (ucast (drop_bit 8 e) :: byte)) OR
   push_bit 16 (ucast (ucast (drop_bit 16 e) :: byte)) OR push_bit 24 (ucast (ucast (drop_bit 24 e) :: byte)) = ucast e"
  for e :: uint32
proof (rule bit_eqI)
  fix n :: nat
  consider "n < 8" | "8 \<le> n \<and> n < 16" | "16 \<le> n \<and> n < 24" | "24 \<le> n \<and> n < 32" | "32 \<le> n" by linarith
  then show "bit ((ucast (ucast e :: byte) :: uint64) OR push_bit 8 (ucast (ucast (drop_bit 8 e) :: byte)) OR
      push_bit 16 (ucast (ucast (drop_bit 16 e) :: byte)) OR push_bit 24 (ucast (ucast (drop_bit 24 e) :: byte))) n
    \<longleftrightarrow> bit (ucast e :: uint64) n"
    by cases (auto simp: bit_simps dest: bit_imp_le_length)
qed

lemma sip_write_suffix:
  "sip_write_bytes (to_little_endian extra) \<lparr>sip_v = v, sip_tmp = 0, sip_count = 8 * n\<rparr> =
   \<lparr>sip_v = v, sip_tmp = ucast extra, sip_count = 8 * n + 4\<rparr>" for extra :: uint32
proof -
  have "LENGTH(32) div 8 = Suc (Suc (Suc (Suc 0)))" by simp
  then have bytes: "to_little_endian extra =
      [ucast extra, ucast (drop_bit 8 extra), ucast (drop_bit 16 extra), ucast (drop_bit 24 extra)]"
    by (simp only: to_little_endian_def to_little_endian_loop.simps drop_bit_drop_bit) simp
  have "sip_write_byte (ucast extra) \<lparr>sip_v = v, sip_tmp = 0, sip_count = 8 * n\<rparr> =
      \<lparr>sip_v = v, sip_tmp = ucast (ucast extra :: byte), sip_count = 8 * n + 1\<rparr>"
    using sip_write_byte_inside [of 0 "ucast extra" v 0 n] by simp
  then have "sip_write_bytes (to_little_endian extra) \<lparr>sip_v = v, sip_tmp = 0, sip_count = 8 * n\<rparr> =
      sip_write_byte (ucast (drop_bit 24 extra)) (sip_write_byte (ucast (drop_bit 16 extra))
        (sip_write_byte (ucast (drop_bit 8 extra))
          \<lparr>sip_v = v, sip_tmp = ucast (ucast extra :: byte), sip_count = 8 * n + 1\<rparr>))"
    by (simp only: bytes sip_write_bytes_def fold_simps)
  also have "\<dots> = \<lparr>sip_v = v, sip_tmp = ucast extra, sip_count = 8 * n + 4\<rparr>"
    by (simp add: sip_write_byte_inside or.assoc uint32_bytes del: add_Suc_right)
  finally show ?thesis .
qed

lemma sip_finish_parts:
  "sip_finish (sip_absorb t v) =
   (case v of (v0, v1, v2, v3) \<Rightarrow> case SIPROUND (SIPROUND (v0, v1, v2, v3 XOR t)) of (v0, v1, v2, v3) \<Rightarrow>
      sip_finish (v0 XOR t, v1, v2, v3))"
  by (simp add: sip_absorb_def split: prod.splits)

text \<open>
  The two unrolled hashes of a 256-bit value (without and with an extra integer) equal
  the general incremental hasher fed with the bytes.
\<close>

theorem sip_hash_specialized:
  assumes "length val = 32"
  shows "sip_hash_uint256 k0 k1 val = sip_finalize (sip_write_bytes val (sip_hasher_of k0 k1)) \<and>
    sip_hash_uint256_extra k0 k1 val extra =
      sip_finalize (sip_write_bytes (to_little_endian extra) (sip_write_bytes val (sip_hasher_of k0 k1)))"
  using sip_write_suffix [of extra _ 4]
  by (simp add: sip_write_digest [OF assms] sip_finalize_def sip_finish_parts sip_hash_uint256_def
      sip_hash_uint256_extra_def Let_def or.commute split: prod.splits)

theorem sip_hash_specialized_witness:
  "sip_hash_uint256 1 2 (replicate 32 3) = sip_finalize (sip_write_bytes (replicate 32 3) (sip_hasher_of 1 2))"
  using sip_hash_specialized [of "replicate 32 3" 1 2 0] by (simp only: length_replicate)

text \<open>Words and bytes mix: a word is its eight bytes.\<close>

lemma sip_word_is_bytes:
  assumes "i * 8 + 8 \<le> length x" and "sip_tmp h = 0" and "8 dvd sip_count h"
  shows "sip_write_word (get_uint64 i x) h = sip_write_bytes (take 8 (drop (i * 8) x)) h"
proof -
  obtain n where "sip_count h = 8 * n" using assms(3) by (rule dvdE)
  then have "h = \<lparr>sip_v = sip_v h, sip_tmp = 0, sip_count = 8 * n\<rparr>" using assms(2) by simp
  then show ?thesis using sip_write_slice [OF assms(1), of "sip_v h" n] by (metis (no_types, lifting) sip_write_word_def sip_hasher.select_convs sip_hasher.update_convs mult_Suc_right add.commute)
qed

end
