(* ===== verification/Relay.thy ===== *)
theory Relay
  imports Handshake Block Sip_Hash
begin

text \<open>
  The messages that carry headers, transactions and blocks (\<^verbatim>\<open>src/message/\<close>): \<^verbatim>\<open>header\<close>, \<^verbatim>\<open>headers\<close>,
  \<^verbatim>\<open>transaction\<close>, \<^verbatim>\<open>block\<close>, \<^verbatim>\<open>merkle_block\<close> and the compact block messages of bip152.  The naming is
  that of \<open>Message\<close>.
\<close>

unbundle bit_operations_syntax

subsection \<open>header\<close>

definition message_header_from_data :: "uint32 \<Rightarrow> header rd" where
  "message_header_from_data v = do {
     h \<leftarrow> header_factory True;
     ok \<leftarrow> source_valid;
     if \<not> ok then State_Monad.return h
     else do {
       _ \<leftarrow> (if v \<noteq> level_canonical then do { b \<leftarrow> read_byte; invalidate_if (b \<noteq> 0) } else State_Monad.return ());
       ok \<leftarrow> source_valid;
       State_Monad.return (if ok then h else header_reset h)
     }
   }"

definition message_header_to_data :: "uint32 \<Rightarrow> header \<Rightarrow> data_chunk" where
  "message_header_to_data v h =
     header_to_data True h @ (if v \<noteq> level_canonical then write_variable_little_endian 0 else [])"

definition message_header_fixed_size :: "uint32 \<Rightarrow> nat" where
  "message_header_fixed_size v =
     header_serialized_size True + (if v = level_canonical then 0 else variable_uint_size 0)"

definition message_header_size :: "uint32 \<Rightarrow> header \<Rightarrow> nat" where
  "message_header_size v h = message_header_fixed_size v"

lemma write_zero_varint: "write_variable_little_endian 0 = [0]"
  by (simp add: write_variable_little_endian_def write_byte_def)

interpretation message_header: sized_codec message_header_to_data message_header_from_data message_header_size
  "\<lambda>_. header_wf True"
proof unfold_locales
  fix v h rest
  assume ok: "header_wf True h"
  then show "run_state (message_header_from_data v) (ready (message_header_to_data v h @ rest)) = (h, ready rest)"
    by (simp add: message_header_from_data_def message_header_to_data_def header_codec.read_write write_zero_varint wire_simps)
  show "length (message_header_to_data v h) = message_header_size v h"
    using ok by (simp add: message_header_to_data_def message_header_size_def message_header_fixed_size_def header_wf_def
        length_header_to_data write_zero_varint) (simp add: variable_uint_size_def)
qed

subsection \<open>headers\<close>

definition headers_is_valid :: "header list \<Rightarrow> bool" where
  "headers_is_valid hs \<longleftrightarrow> hs \<noteq> []"

definition headers_from_data :: "currency \<Rightarrow> uint32 \<Rightarrow> header list rd" where
  "headers_from_data cur v = do {
     n \<leftarrow> read_size_little_endian;
     invalidate_if (n > max_get_headers);
     hs \<leftarrow> (if n > max_get_headers then State_Monad.return []
           else read_elements (message_header_from_data v) header_default n);
     invalidate_if (v < level_headers cur);
     ok \<leftarrow> source_valid;
     State_Monad.return (if ok then hs else [])
   }"

definition headers_to_data :: "uint32 \<Rightarrow> header list \<Rightarrow> data_chunk" where
  "headers_to_data v hs =
     write_variable_little_endian (of_nat (length hs)) @ concat (map (message_header_to_data v) hs)"

definition headers_size :: "uint32 \<Rightarrow> header list \<Rightarrow> nat" where
  "headers_size v hs = variable_uint_size (of_nat (length hs)) + length hs * message_header_fixed_size v"

fun sequential_loop :: "hash_functions \<Rightarrow> hash_digest \<Rightarrow> header list \<Rightarrow> bool" where
  "sequential_loop H previous [] = True"
| "sequential_loop H previous (h # hs) =
     (if previous_block_hash h \<noteq> previous then False else sequential_loop H (header_hash H h) hs)"

definition is_sequential :: "hash_functions \<Rightarrow> header list \<Rightarrow> bool" where
  "is_sequential H hs = (case hs of [] \<Rightarrow> True | h # hs \<Rightarrow> sequential_loop H (header_hash H h) hs)"

definition headers_to_hashes :: "hash_functions \<Rightarrow> header list \<Rightarrow> hash_digest list" where
  "headers_to_hashes H hs = map (header_hash H) hs"

definition headers_to_inventory :: "hash_functions \<Rightarrow> uint32 \<Rightarrow> header list \<Rightarrow> inventory" where
  "headers_to_inventory H t hs = map (\<lambda>h. \<lparr>inv_type = t, inv_hash = header_hash H h\<rparr>) hs"

definition headers_wf :: "currency \<Rightarrow> uint32 \<Rightarrow> header list \<Rightarrow> bool" where
  "headers_wf cur v hs \<longleftrightarrow> level_headers cur \<le> v \<and> length hs \<le> max_get_headers \<and> list_all (header_wf True) hs"

interpretation headers_message: sized_codec headers_to_data "headers_from_data cur" headers_size "headers_wf cur" for cur
proof unfold_locales
  fix v hs rest
  assume ok: "headers_wf cur v hs"
  then show "run_state (headers_from_data cur v) (ready (headers_to_data v hs @ rest)) = (hs, ready rest)"
    using message_header.elements [of hs v header_default rest]
    by (auto simp add: headers_wf_def headers_from_data_def headers_to_data_def wire_simps small_size)
  have "length (message_header_to_data v h) = message_header_fixed_size v" if "h \<in> set hs" for h
    using ok that message_header.size_law [of h v] by (simp add: headers_wf_def list_all_iff message_header_size_def)
  then show "length (headers_to_data v hs) = headers_size v hs"
    by (simp add: headers_to_data_def headers_size_def length_simps
        length_concat_map_const [where k = "message_header_fixed_size v"])
qed

lemma sequential_loop_iff:
  "sequential_loop H previous hs \<longleftrightarrow>
   (hs \<noteq> [] \<longrightarrow> previous_block_hash (hd hs) = previous) \<and>
   (\<forall>i. Suc i < length hs \<longrightarrow> previous_block_hash (hs ! Suc i) = header_hash H (hs ! i))"
proof (induction hs arbitrary: previous)
  case (Cons h hs)
  have all: "(\<forall>i. P i) \<longleftrightarrow> P 0 \<and> (\<forall>i. P (Suc i))" for P :: "nat \<Rightarrow> bool"
    by (metis not0_implies_Suc)
  have "(\<forall>i. Suc i < length (h # hs) \<longrightarrow> previous_block_hash ((h # hs) ! Suc i) = header_hash H ((h # hs) ! i)) \<longleftrightarrow>
      (hs \<noteq> [] \<longrightarrow> previous_block_hash (hd hs) = header_hash H h) \<and>
      (\<forall>i. Suc i < length hs \<longrightarrow> previous_block_hash (hs ! Suc i) = header_hash H (hs ! i))"
    by (subst all) (auto simp: hd_conv_nth)
  then show ?case using Cons by simp
qed simp

text \<open>The headers of a message are sequential when each names the hash of the one before it.\<close>

lemma is_sequential_iff:
  "is_sequential H hs \<longleftrightarrow> (\<forall>i. Suc i < length hs \<longrightarrow> previous_block_hash (hs ! Suc i) = header_hash H (hs ! i))"
  using sequential_loop_iff [of H "previous_block_hash (hd hs)" hs]
  by (cases hs) (simp_all add: is_sequential_def)

subsection \<open>transaction, block\<close>

definition message_transaction_from_data :: "currency \<Rightarrow> uint32 \<Rightarrow> transaction rd" where
  "message_transaction_from_data cur v = transaction_from_reader cur True True False"

definition message_transaction_to_data :: "currency \<Rightarrow> bool \<Rightarrow> uint32 \<Rightarrow> transaction \<Rightarrow> data_chunk" where
  "message_transaction_to_data cur witness v tx = transaction_to_wire cur witness tx"

definition message_transaction_size :: "currency \<Rightarrow> uint32 \<Rightarrow> transaction \<Rightarrow> nat" where
  "message_transaction_size cur v tx = transaction_serialized_size cur True True False tx"

definition message_block_from_data :: "currency \<Rightarrow> uint32 \<Rightarrow> block rd" where
  "message_block_from_data cur v = block_factory cur True"

definition message_block_to_data :: "currency \<Rightarrow> uint32 \<Rightarrow> block \<Rightarrow> data_chunk" where
  "message_block_to_data cur v b = block_to_sink cur True b"

text \<open>The sum of the sizes throws on overflow.\<close>

definition message_block_size :: "currency \<Rightarrow> uint32 \<Rightarrow> block \<Rightarrow> nat option" where
  "message_block_size cur v b = block_serialized_size cur True b"

definition to_data_header_nonce :: "header \<Rightarrow> uint64 \<Rightarrow> data_chunk" where
  "to_data_header_nonce h n = header_to_data True h @ write_8_bytes_little_endian n"

definition block_nonce_hash :: "hash_functions \<Rightarrow> block \<Rightarrow> uint64 \<Rightarrow> hash_digest" where
  "block_nonce_hash H b n = sha256_hash H (to_data_header_nonce (block_header b) n)"

lemma transaction_wf_hashes:
  "transaction_wf cur tx \<Longrightarrow> list_all (\<lambda>i. length (point_hash (op_point (previous_output i))) = 32) (tx_inputs tx)"
  by (auto simp: transaction_wf_def list_all_iff input_base_wf_def point_wf_def)

lemma transaction_wf_length:
  "transaction_wf cur tx \<Longrightarrow> length (transaction_to_wire cur witness tx) = transaction_serialized_size cur True witness unconfirmed tx"
  by (rule length_transaction_to_wire [OF transaction_wf_hashes])

interpretation message_transaction:
  sized_codec "message_transaction_to_data cur True" "message_transaction_from_data cur" "message_transaction_size cur"
    "\<lambda>_. transaction_wf cur" for cur
  by unfold_locales (simp_all add: message_transaction_from_data_def message_transaction_to_data_def
      message_transaction_size_def transaction_codec.read_write transaction_wf_length [where unconfirmed = False])

text \<open>Inside the compact block messages the witness flag is set by the currency.\<close>

interpretation relayed_transaction:
  codec "transaction_to_wire cur (\<not> is_bch cur)" "transaction_from_reader cur True (\<not> is_bch cur) False" "transaction_wf cur"
  for cur
proof unfold_locales
  fix tx rest
  assume ok: "transaction_wf cur tx"
  have "transaction_to_wire cur (\<not> is_bch cur) = transaction_to_wire cur True"
    by (cases "is_bch cur") (simp_all add: fun_eq_iff to_wire_bch)
  moreover have "transaction_from_reader cur True (\<not> is_bch cur) False = transaction_from_reader cur True True False"
    by (cases "is_bch cur") (simp_all add: from_reader_bch)
  ultimately show "run_state (transaction_from_reader cur True (\<not> is_bch cur) False)
      (ready (transaction_to_wire cur (\<not> is_bch cur) tx @ rest)) = (tx, ready rest)"
    using transaction_codec.read_write [OF ok] by simp
qed

subsection \<open>prefilled\_transaction\<close>

record prefilled_transaction =
  prefilled_index :: uint64
  prefilled_tx :: transaction

definition max_index :: "currency \<Rightarrow> uint64" where
  "max_index cur = (if is_bch cur then of_nat max_uint32 else of_nat max_uint16)"

definition prefilled_default :: "currency \<Rightarrow> prefilled_transaction" where
  "prefilled_default cur = \<lparr>prefilled_index = max_index cur, prefilled_tx = transaction_default\<rparr>"

definition prefilled_is_valid :: "currency \<Rightarrow> prefilled_transaction \<Rightarrow> bool" where
  "prefilled_is_valid cur p \<longleftrightarrow> prefilled_index p < max_index cur \<and> transaction_is_valid (prefilled_tx p)"

definition prefilled_from_data :: "currency \<Rightarrow> uint32 \<Rightarrow> prefilled_transaction rd" where
  "prefilled_from_data cur v = do {
     n \<leftarrow> read_variable_little_endian;
     tx \<leftarrow> transaction_from_reader cur True (\<not> is_bch cur) False;
     ok \<leftarrow> source_valid;
     State_Monad.return (if ok then \<lparr>prefilled_index = n, prefilled_tx = tx\<rparr> else prefilled_default cur)
   }"

definition prefilled_to_data :: "currency \<Rightarrow> uint32 \<Rightarrow> prefilled_transaction \<Rightarrow> data_chunk" where
  "prefilled_to_data cur v p =
     write_variable_little_endian (prefilled_index p) @ transaction_to_wire cur (\<not> is_bch cur) (prefilled_tx p)"

definition prefilled_size :: "currency \<Rightarrow> uint32 \<Rightarrow> prefilled_transaction \<Rightarrow> nat" where
  "prefilled_size cur v p =
     variable_uint_size (prefilled_index p) + transaction_serialized_size cur True (\<not> is_bch cur) False (prefilled_tx p)"

interpretation prefilled_message: sized_codec "prefilled_to_data cur" "prefilled_from_data cur" "prefilled_size cur"
  "\<lambda>_ p. transaction_wf cur (prefilled_tx p)" for cur
  by unfold_locales (auto simp: prefilled_from_data_def prefilled_to_data_def prefilled_size_def wire_simps length_simps
      relayed_transaction.read_write transaction_wf_length [where unconfirmed = False])

subsection \<open>block\_transactions\<close>

record block_transactions_message =
  bt_block_hash :: hash_digest
  bt_transactions :: "transaction list"

definition block_transactions_default :: block_transactions_message where
  "block_transactions_default = \<lparr>bt_block_hash = null_hash, bt_transactions = []\<rparr>"

definition block_transactions_is_valid :: "block_transactions_message \<Rightarrow> bool" where
  "block_transactions_is_valid m \<longleftrightarrow> bt_block_hash m \<noteq> null_hash"

definition block_transactions_from_data :: "currency \<Rightarrow> uint32 \<Rightarrow> block_transactions_message rd" where
  "block_transactions_from_data cur v = do {
     h \<leftarrow> read_hash;
     n \<leftarrow> read_size_little_endian;
     invalidate_if (n > get_max_block_size cur);
     txs \<leftarrow> (if n > get_max_block_size cur then State_Monad.return []
            else read_elements (transaction_from_reader cur True (\<not> is_bch cur) False) transaction_default n);
     invalidate_if (v < level_bip152);
     ok \<leftarrow> source_valid;
     State_Monad.return (if ok then \<lparr>bt_block_hash = h, bt_transactions = txs\<rparr> else block_transactions_default)
   }"

definition block_transactions_to_data :: "currency \<Rightarrow> uint32 \<Rightarrow> block_transactions_message \<Rightarrow> data_chunk" where
  "block_transactions_to_data cur v m =
     write_hash (bt_block_hash m) @ write_variable_little_endian (of_nat (length (bt_transactions m))) @
     concat (map (transaction_to_wire cur (\<not> is_bch cur)) (bt_transactions m))"

definition block_transactions_size :: "currency \<Rightarrow> uint32 \<Rightarrow> block_transactions_message \<Rightarrow> nat" where
  "block_transactions_size cur v m =
     32 + variable_uint_size (of_nat (length (bt_transactions m))) +
     sum_list (map (transaction_serialized_size cur True (\<not> is_bch cur) False) (bt_transactions m))"

definition block_transactions_wf :: "currency \<Rightarrow> uint32 \<Rightarrow> block_transactions_message \<Rightarrow> bool" where
  "block_transactions_wf cur v m \<longleftrightarrow>
     level_bip152 \<le> v \<and> length (bt_block_hash m) = 32 \<and> length (bt_transactions m) \<le> get_max_block_size cur \<and>
     list_all (transaction_wf cur) (bt_transactions m)"

lemma length_concat_sum:
  "(\<And>x. x \<in> set xs \<Longrightarrow> length (f x) = g x) \<Longrightarrow> length (concat (map f xs)) = sum_list (map g xs)"
  by (induction xs) auto

lemma count_fits: "n \<le> get_max_block_size cur \<Longrightarrow> n \<le> max_size_t"
  using max_block_size_le_size_t [of cur] by simp

interpretation block_transactions_codec:
  sized_codec "block_transactions_to_data cur" "block_transactions_from_data cur" "block_transactions_size cur"
    "block_transactions_wf cur" for cur
proof unfold_locales
  fix v m rest
  assume ok: "block_transactions_wf cur v m"
  then show "run_state (block_transactions_from_data cur v) (ready (block_transactions_to_data cur v m @ rest)) = (m, ready rest)"
    using relayed_transaction.elements [of cur "bt_transactions m" transaction_default rest]
    by (auto simp: block_transactions_wf_def block_transactions_from_data_def block_transactions_to_data_def wire_simps
        hash_codec.read_write count_fits)
  show "length (block_transactions_to_data cur v m) = block_transactions_size cur v m"
    using ok by (auto simp: block_transactions_wf_def block_transactions_to_data_def block_transactions_size_def length_simps
        list_all_iff intro!: length_concat_sum transaction_wf_length)
qed

subsection \<open>merkle\_block\<close>

record merkle_block =
  mb_header :: header
  total_transactions :: nat
  mb_hashes :: "hash_digest list"
  mb_flags :: data_chunk

definition merkle_block_default :: merkle_block where
  "merkle_block_default = \<lparr>mb_header = header_default, total_transactions = 0, mb_hashes = [], mb_flags = []\<rparr>"

text \<open>The construction from a block clamps nothing: a count above 32 bits throws.\<close>

definition merkle_block_of_block :: "currency \<Rightarrow> hash_functions \<Rightarrow> block \<Rightarrow> merkle_block option" where
  "merkle_block_of_block cur H b =
     (case safe_unsigned32 (of_nat (length (block_transactions b))) of
        None \<Rightarrow> None
      | Some n \<Rightarrow> Some \<lparr>mb_header = block_header b, total_transactions = unat n, mb_hashes = to_hashes cur H False b, mb_flags = []\<rparr>)"

definition merkle_block_is_valid :: "merkle_block \<Rightarrow> bool" where
  "merkle_block_is_valid m \<longleftrightarrow> mb_hashes m \<noteq> [] \<or> mb_flags m \<noteq> [] \<or> header_is_valid (mb_header m)"

definition merkle_block_from_data :: "currency \<Rightarrow> uint32 \<Rightarrow> merkle_block rd" where
  "merkle_block_from_data cur v = do {
     h \<leftarrow> header_factory True;
     ok \<leftarrow> source_valid;
     if \<not> ok then State_Monad.return (merkle_block_default\<lparr>mb_header := h\<rparr>)
     else do {
       n \<leftarrow> read_4_bytes_little_endian;
       count \<leftarrow> read_size_little_endian;
       invalidate_if (count > get_max_block_size cur);
       hashes \<leftarrow> read_pushed read_hash count;
       k \<leftarrow> read_size_little_endian;
       flags \<leftarrow> read_bytes k;
       invalidate_if (v < level_bip37);
       ok \<leftarrow> source_valid;
       State_Monad.return
         (if ok then \<lparr>mb_header = h, total_transactions = unat n, mb_hashes = hashes, mb_flags = flags\<rparr>
          else merkle_block_default)
     }
   }"

definition merkle_block_to_data :: "uint32 \<Rightarrow> merkle_block \<Rightarrow> data_chunk option" where
  "merkle_block_to_data v m =
     (case safe_unsigned32 (of_nat (total_transactions m)) of
        None \<Rightarrow> None
      | Some total32 \<Rightarrow> Some
          (header_to_data True (mb_header m) @ write_4_bytes_little_endian total32 @
           write_variable_little_endian (of_nat (length (mb_hashes m))) @ concat (map write_hash (mb_hashes m)) @
           write_variable_little_endian (of_nat (length (mb_flags m))) @ write_bytes (mb_flags m)))"

definition merkle_block_size :: "uint32 \<Rightarrow> merkle_block \<Rightarrow> nat" where
  "merkle_block_size v m =
     header_serialized_size True + 4 + variable_uint_size (of_nat (length (mb_hashes m))) + 32 * length (mb_hashes m) +
     variable_uint_size (of_nat (length (mb_flags m))) + length (mb_flags m)"

definition merkle_block_wf :: "currency \<Rightarrow> uint32 \<Rightarrow> merkle_block \<Rightarrow> bool" where
  "merkle_block_wf cur v m \<longleftrightarrow>
     level_bip37 \<le> v \<and> header_wf True (mb_header m) \<and> total_transactions m \<le> max_uint32 \<and>
     length (mb_hashes m) \<le> get_max_block_size cur \<and> list_all (\<lambda>h. length h = 32) (mb_hashes m) \<and>
     length (mb_flags m) \<le> max_size_t"

lemma safe_unsigned32_fits: "n \<le> max_uint32 \<Longrightarrow> safe_unsigned32 (of_nat n) = Some (of_nat n)"
  by (simp add: safe_unsigned32_def unat_of_nat word_unat_eq_iff unat_ucast_mod)

interpretation merkle_block_codec:
  sized_codec "\<lambda>v m. the (merkle_block_to_data v m)" "merkle_block_from_data cur" merkle_block_size "merkle_block_wf cur" for cur
proof unfold_locales
  fix v m rest
  assume ok: "merkle_block_wf cur v m"
  then have total: "safe_unsigned32 (of_nat (total_transactions m)) = Some (of_nat (total_transactions m))"
    "unat (of_nat (total_transactions m) :: uint32) = total_transactions m"
    by (simp_all add: merkle_block_wf_def safe_unsigned32_fits unat_of_nat)
  show "run_state (merkle_block_from_data cur v) (ready (the (merkle_block_to_data v m) @ rest)) = (m, ready rest)"
    using ok by (auto simp: merkle_block_wf_def merkle_block_from_data_def merkle_block_to_data_def total wire_simps write_bytes_def
        header_codec.read_write count_fits)
  show "length (the (merkle_block_to_data v m)) = merkle_block_size v m"
    using ok by (simp add: merkle_block_wf_def merkle_block_to_data_def merkle_block_size_def total length_simps write_bytes_def
        header_wf_def length_header_to_data)
qed

subsection \<open>compact\_block\<close>

record compact_block =
  cb_header :: header
  cb_nonce :: uint64
  short_ids :: "uint64 list"
  cb_transactions :: "prefilled_transaction list"

definition compact_block_default :: compact_block where
  "compact_block_default = \<lparr>cb_header = header_default, cb_nonce = 0, short_ids = [], cb_transactions = []\<rparr>"

definition compact_block_is_valid :: "compact_block \<Rightarrow> bool" where
  "compact_block_is_valid c \<longleftrightarrow> header_is_valid (cb_header c) \<and> short_ids c \<noteq> [] \<and> cb_transactions c \<noteq> []"

text \<open>
  \<^verbatim>\<open>factory_from_block\<close>, with the nonce the random generator gives as an argument.  The block must have a
  transaction: the code takes the first without a test.
\<close>

definition short_id_of :: "uint64 \<Rightarrow> uint64 \<Rightarrow> hash_digest \<Rightarrow> uint64" where
  "short_id_of k0 k1 h = sip_hash_uint256 k0 k1 h AND 0xffffffffffff"

definition compact_block_from_block :: "currency \<Rightarrow> hash_functions \<Rightarrow> uint64 \<Rightarrow> block \<Rightarrow> compact_block" where
  "compact_block_from_block cur H n b =
     (let witness = \<not> is_bch cur;
          header_hash = block_nonce_hash H b n;
          k0 = from_little_endian 8 0 0 header_hash;
          k1 = from_little_endian 8 0 0 (drop 8 header_hash)
      in \<lparr>cb_header = header_assign header_default (block_header b), cb_nonce = n,
          short_ids = map (\<lambda>tx. short_id_of k0 k1 (transaction_hash cur H witness tx)) (drop 1 (block_transactions b)),
          cb_transactions = [\<lparr>prefilled_index = 0, prefilled_tx = block_transactions b ! 0\<rparr>]\<rparr>)"

definition read_short_id :: "uint64 rd" where
  "read_short_id = do {
     lsb \<leftarrow> read_4_bytes_little_endian;
     msb \<leftarrow> read_2_bytes_little_endian;
     State_Monad.return (push_bit 32 (ucast msb) OR ucast lsb)
   }"

definition write_short_id :: "uint64 \<Rightarrow> data_chunk" where
  "write_short_id e =
     write_4_bytes_little_endian (ucast (e AND 0xffffffff)) @
     write_2_bytes_little_endian (ucast (drop_bit 32 e AND 0xffff))"

definition compact_block_from_data :: "currency \<Rightarrow> uint32 \<Rightarrow> compact_block rd" where
  "compact_block_from_data cur v = do {
     h \<leftarrow> header_factory True;
     ok \<leftarrow> source_valid;
     if \<not> ok then State_Monad.return (compact_block_default\<lparr>cb_header := h\<rparr>)
     else do {
       n \<leftarrow> read_8_bytes_little_endian;
       count \<leftarrow> read_size_little_endian;
       invalidate_if (count > get_max_block_size cur);
       ids \<leftarrow> read_pushed read_short_id count;
       count \<leftarrow> read_size_little_endian;
       invalidate_if (count > get_max_block_size cur);
       txs \<leftarrow> (if count > get_max_block_size cur then State_Monad.return []
              else read_elements (prefilled_from_data cur v) (prefilled_default cur) count);
       invalidate_if (v < level_bip152);
       ok \<leftarrow> source_valid;
       State_Monad.return
         (if ok then \<lparr>cb_header = h, cb_nonce = n, short_ids = ids, cb_transactions = txs\<rparr> else compact_block_default)
     }
   }"

definition compact_block_to_data :: "currency \<Rightarrow> uint32 \<Rightarrow> compact_block \<Rightarrow> data_chunk" where
  "compact_block_to_data cur v c =
     header_to_data True (cb_header c) @ write_8_bytes_little_endian (cb_nonce c) @
     write_variable_little_endian (of_nat (length (short_ids c))) @ concat (map write_short_id (short_ids c)) @
     write_variable_little_endian (of_nat (length (cb_transactions c))) @
     concat (map (prefilled_to_data cur v) (cb_transactions c))"

definition compact_block_size :: "currency \<Rightarrow> uint32 \<Rightarrow> compact_block \<Rightarrow> nat" where
  "compact_block_size cur v c =
     header_serialized_size True + variable_uint_size (of_nat (length (short_ids c))) + length (short_ids c) * 6 +
     variable_uint_size (of_nat (length (cb_transactions c))) + 8 + sum_list (map (prefilled_size cur v) (cb_transactions c))"

definition compact_block_hash :: "hash_functions \<Rightarrow> compact_block \<Rightarrow> hash_digest" where
  "compact_block_hash H c = sha256_hash H (to_data_header_nonce (cb_header c) (cb_nonce c))"

definition compact_block_wf :: "currency \<Rightarrow> uint32 \<Rightarrow> compact_block \<Rightarrow> bool" where
  "compact_block_wf cur v c \<longleftrightarrow>
     level_bip152 \<le> v \<and> header_wf True (cb_header c) \<and> length (short_ids c) \<le> get_max_block_size cur \<and>
     list_all (\<lambda>i. i < 2 ^ 48) (short_ids c) \<and> length (cb_transactions c) \<le> get_max_block_size cur \<and>
     list_all (\<lambda>p. transaction_wf cur (prefilled_tx p)) (cb_transactions c)"

lemma short_id_parts:
  assumes "i < 2 ^ 48"
  shows "push_bit 32 (ucast (ucast (drop_bit 32 i AND 0xffff) :: uint16)) OR ucast (ucast (i AND 0xffffffff) :: uint32) = (i :: uint64)"
proof (rule bit_eqI)
  fix n :: nat
  have high: "\<not> bit i n" if "48 \<le> n" for n
  proof -
    have "take_bit 48 i = i" 
      using assms by (simp add: word_unat_eq_iff unsigned_take_bit_eq word_less_nat_alt take_bit_nat_eq_self)
    then show ?thesis using that by (metis bit_take_bit_iff not_le)
  qed
  have masks: "0xffff = (mask 16 :: uint64)" "0xffffffff = (mask 32 :: uint64)" by (simp_all add: mask_eq_exp_minus_1)
  consider "n < 32" | "32 \<le> n \<and> n < 48" | "48 \<le> n" by linarith
  then show "bit (push_bit 32 (ucast (ucast (drop_bit 32 i AND 0xffff) :: uint16)) OR
      ucast (ucast (i AND 0xffffffff) :: uint32) :: uint64) n \<longleftrightarrow> bit i n"
    by cases (auto simp: masks bit_simps high dest: bit_imp_le_length)
qed

interpretation short_id_codec: codec write_short_id read_short_id "\<lambda>i. i < 2 ^ 48"
  by unfold_locales (simp add: write_short_id_def read_short_id_def wire_simps short_id_parts)

interpretation compact_block_codec:
  sized_codec "compact_block_to_data cur" "compact_block_from_data cur" "compact_block_size cur" "compact_block_wf cur" for cur
proof unfold_locales
  fix v c rest
  assume ok: "compact_block_wf cur v c"
  then show "run_state (compact_block_from_data cur v) (ready (compact_block_to_data cur v c @ rest)) = (c, ready rest)"
    using prefilled_message.elements [of cur "cb_transactions c" v "prefilled_default cur" rest]
    by (auto simp: compact_block_wf_def compact_block_from_data_def compact_block_to_data_def wire_simps
        header_codec.read_write count_fits short_id_codec.pushed)
  have ids: "length (concat (map write_short_id (short_ids c))) = 6 * length (short_ids c)"
    by (rule length_concat_map_const) (simp add: write_short_id_def length_simps)
  have txs: "length (concat (map (prefilled_to_data cur v) (cb_transactions c))) = sum_list (map (prefilled_size cur v) (cb_transactions c))"
    using ok by (intro length_concat_sum prefilled_message.size_law) (simp add: compact_block_wf_def list_all_iff)
  show "length (compact_block_to_data cur v c) = compact_block_size cur v c"
    using ok by (simp add: compact_block_wf_def compact_block_to_data_def compact_block_size_def length_simps ids txs
        header_wf_def length_header_to_data)
qed

subsection \<open>A block announced as a compact block\<close>

lemma short_id_bound: "short_id_of k0 k1 h < 2 ^ 48"
proof -
  have "0xffffffffffff = (mask 48 :: uint64)" by (simp add: mask_eq_exp_minus_1)
  then have "short_id_of k0 k1 h = take_bit 48 (sip_hash_uint256 k0 k1 h)"
    by (simp add: short_id_of_def take_bit_eq_mask)
  then show ?thesis using take_bit_nat_less_exp [of 48 "unat (sip_hash_uint256 k0 k1 h)"]
    by (simp add: word_less_nat_alt unsigned_take_bit_eq)
qed

lemma compact_block_from_block_wf:
  assumes "block_wf cur b" and "block_transactions b \<noteq> []" and "level_bip152 \<le> v"
  shows "compact_block_wf cur v (compact_block_from_block cur H n b)"
proof -
  have "hash_cache (block_header b) = None" using assms(1) by (simp add: block_wf_def header_wf_def)
  then have "header_assign header_default (block_header b) = block_header b"
    by (simp add: header_assign_def header_default_def)
  moreover have "transaction_wf cur (block_transactions b ! 0)"
    using assms(1,2) by (simp add: block_wf_def list_all_length)
  moreover have "1 \<le> get_max_block_size cur"
    by (simp add: get_max_block_size_def max_block_size_new_def max_block_size_def)
  ultimately show ?thesis
    using assms short_id_bound by (auto simp: compact_block_wf_def compact_block_from_block_def Let_def block_wf_def list_all_iff)
qed

end
