(* ===== verification/Protocol.thy ===== *)
theory Protocol
  imports Relay
begin

text \<open>
  The protocol as a whole: the union of the message types, each with its command, and the
  statement that a serialized message can be taken apart again by its heading.
\<close>

interpretation message_block:
  sized_codec "message_block_to_data cur" "message_block_from_data cur" "\<lambda>v b. the (message_block_size cur v b)"
    "\<lambda>v b. block_wf cur b \<and> length (message_block_to_data cur v b) \<le> max_size_t" for cur
proof unfold_locales
  fix v b rest
  assume ok: "block_wf cur b \<and> length (message_block_to_data cur v b) \<le> max_size_t"
  then show "run_state (message_block_from_data cur v) (ready (message_block_to_data cur v b @ rest)) = (b, ready rest)"
    by (simp add: message_block_from_data_def message_block_to_data_def block_codec.read_write)
  have shape: "b = (block_of (block_header b) (block_transactions b))\<lparr>block_segregated := (if is_bch cur then Some False else None)\<rparr>"
    using ok by (simp add: block_wf_def)
  have "total_size_cache b = None" "base_size_cache b = None"
    by (subst shape, simp add: block_of_def)+
  moreover have "list_all (\<lambda>tx. list_all (\<lambda>i. length (point_hash (op_point (previous_output i))) = 32) (tx_inputs tx)) (block_transactions b)"
    using ok transaction_wf_hashes by (auto simp: block_wf_def list_all_iff)
  ultimately show "length (message_block_to_data cur v b) = the (message_block_size cur v b)"
    using ok block_size_exact [of b cur True]
    by (simp add: message_block_size_def message_block_to_data_def block_wf_def header_wf_def)
qed

subsection \<open>The union of the messages\<close>

datatype packet =
    Address_packet address
  | Alert_packet alert
  | Block_packet block
  | Block_transactions_packet block_transactions_message
  | Compact_block_packet compact_block
  | Fee_filter_packet fee_filter
  | Filter_add_packet filter_add
  | Filter_clear_packet filter_clear
  | Filter_load_packet filter_load
  | Get_address_packet
  | Get_block_transactions_packet get_block_transactions
  | Get_blocks_packet get_blocks
  | Get_data_packet inventory
  | Get_headers_packet get_blocks
  | Headers_packet "header list"
  | Inventory_packet inventory
  | Memory_pool_packet memory_pool
  | Merkle_block_packet merkle_block
  | Not_found_packet inventory
  | Ping_packet ping
  | Pong_packet pong
  | Reject_packet reject
  | Send_compact_packet send_compact
  | Send_headers_packet send_headers
  | Transaction_packet transaction
  | Verack_packet
  | Version_packet version_message

text \<open>The static member \<^verbatim>\<open>command\<close> of each class.\<close>

fun packet_command :: "packet \<Rightarrow> string" where
  "packet_command (Address_packet _) = ''addr''"
| "packet_command (Alert_packet _) = ''alert''"
| "packet_command (Block_packet _) = ''block''"
| "packet_command (Block_transactions_packet _) = ''blocktxn''"
| "packet_command (Compact_block_packet _) = ''cmpctblock''"
| "packet_command (Fee_filter_packet _) = ''feefilter''"
| "packet_command (Filter_add_packet _) = ''filteradd''"
| "packet_command (Filter_clear_packet _) = ''filterclear''"
| "packet_command (Filter_load_packet _) = ''filterload''"
| "packet_command Get_address_packet = ''getaddr''"
| "packet_command (Get_block_transactions_packet _) = ''getblocktxn''"
| "packet_command (Get_blocks_packet _) = ''getblocks''"
| "packet_command (Get_data_packet _) = ''getdata''"
| "packet_command (Get_headers_packet _) = ''getheaders''"
| "packet_command (Headers_packet _) = ''headers''"
| "packet_command (Inventory_packet _) = ''inv''"
| "packet_command (Memory_pool_packet _) = ''mempool''"
| "packet_command (Merkle_block_packet _) = ''merkleblock''"
| "packet_command (Not_found_packet _) = ''notfound''"
| "packet_command (Ping_packet _) = ''ping''"
| "packet_command (Pong_packet _) = ''pong''"
| "packet_command (Reject_packet _) = ''reject''"
| "packet_command (Send_compact_packet _) = ''sendcmpct''"
| "packet_command (Send_headers_packet _) = ''sendheaders''"
| "packet_command (Transaction_packet _) = ''tx''"
| "packet_command Verack_packet = ''verack''"
| "packet_command (Version_packet _) = ''version''"

fun packet_to_data :: "currency \<Rightarrow> uint32 \<Rightarrow> packet \<Rightarrow> data_chunk" where
  "packet_to_data cur v (Address_packet x) = address_to_data v x"
| "packet_to_data cur v (Alert_packet x) = alert_to_data v x"
| "packet_to_data cur v (Block_packet x) = message_block_to_data cur v x"
| "packet_to_data cur v (Block_transactions_packet x) = block_transactions_to_data cur v x"
| "packet_to_data cur v (Compact_block_packet x) = compact_block_to_data cur v x"
| "packet_to_data cur v (Fee_filter_packet x) = fee_filter_to_data v x"
| "packet_to_data cur v (Filter_add_packet x) = filter_add_to_data v x"
| "packet_to_data cur v (Filter_clear_packet x) = filter_clear_to_data v x"
| "packet_to_data cur v (Filter_load_packet x) = filter_load_to_data v x"
| "packet_to_data cur v Get_address_packet = get_address_to_data v ()"
| "packet_to_data cur v (Get_block_transactions_packet x) = get_block_transactions_to_data v x"
| "packet_to_data cur v (Get_blocks_packet x) = get_blocks_to_data v x"
| "packet_to_data cur v (Get_data_packet x) = inventory_to_data v x"
| "packet_to_data cur v (Get_headers_packet x) = get_blocks_to_data v x"
| "packet_to_data cur v (Headers_packet x) = headers_to_data v x"
| "packet_to_data cur v (Inventory_packet x) = inventory_to_data v x"
| "packet_to_data cur v (Memory_pool_packet x) = memory_pool_to_data v x"
| "packet_to_data cur v (Merkle_block_packet x) = the (merkle_block_to_data v x)"
| "packet_to_data cur v (Not_found_packet x) = inventory_to_data v x"
| "packet_to_data cur v (Ping_packet x) = ping_to_data v x"
| "packet_to_data cur v (Pong_packet x) = pong_to_data v x"
| "packet_to_data cur v (Reject_packet x) = reject_to_data v x"
| "packet_to_data cur v (Send_compact_packet x) = send_compact_to_data v x"
| "packet_to_data cur v (Send_headers_packet x) = send_headers_to_data v x"
| "packet_to_data cur v (Transaction_packet x) = message_transaction_to_data cur True v x"
| "packet_to_data cur v Verack_packet = verack_to_data v ()"
| "packet_to_data cur v (Version_packet x) = version_to_data v x"

fun packet_size :: "currency \<Rightarrow> uint32 \<Rightarrow> packet \<Rightarrow> nat" where
  "packet_size cur v (Address_packet x) = address_size v x"
| "packet_size cur v (Alert_packet x) = alert_size v x"
| "packet_size cur v (Block_packet x) = the (message_block_size cur v x)"
| "packet_size cur v (Block_transactions_packet x) = block_transactions_size cur v x"
| "packet_size cur v (Compact_block_packet x) = compact_block_size cur v x"
| "packet_size cur v (Fee_filter_packet x) = fee_filter_size v x"
| "packet_size cur v (Filter_add_packet x) = filter_add_size v x"
| "packet_size cur v (Filter_clear_packet x) = filter_clear_size v x"
| "packet_size cur v (Filter_load_packet x) = filter_load_size v x"
| "packet_size cur v Get_address_packet = get_address_size v ()"
| "packet_size cur v (Get_block_transactions_packet x) = get_block_transactions_size v x"
| "packet_size cur v (Get_blocks_packet x) = get_blocks_size v x"
| "packet_size cur v (Get_data_packet x) = inventory_size v x"
| "packet_size cur v (Get_headers_packet x) = get_blocks_size v x"
| "packet_size cur v (Headers_packet x) = headers_size v x"
| "packet_size cur v (Inventory_packet x) = inventory_size v x"
| "packet_size cur v (Memory_pool_packet x) = memory_pool_size v x"
| "packet_size cur v (Merkle_block_packet x) = merkle_block_size v x"
| "packet_size cur v (Not_found_packet x) = inventory_size v x"
| "packet_size cur v (Ping_packet x) = ping_size v x"
| "packet_size cur v (Pong_packet x) = pong_size v x"
| "packet_size cur v (Reject_packet x) = reject_size v x"
| "packet_size cur v (Send_compact_packet x) = send_compact_size v x"
| "packet_size cur v (Send_headers_packet x) = send_headers_size v x"
| "packet_size cur v (Transaction_packet x) = message_transaction_size cur v x"
| "packet_size cur v Verack_packet = verack_size v ()"
| "packet_size cur v (Version_packet x) = version_size v x"

fun packet_wf :: "currency \<Rightarrow> uint32 \<Rightarrow> packet \<Rightarrow> bool" where
  "packet_wf cur v (Address_packet x) = address_wf v x"
| "packet_wf cur v (Alert_packet x) = alert_wf v x"
| "packet_wf cur v (Block_packet x) = (block_wf cur x \<and> length (message_block_to_data cur v x) \<le> max_size_t)"
| "packet_wf cur v (Block_transactions_packet x) = block_transactions_wf cur v x"
| "packet_wf cur v (Compact_block_packet x) = compact_block_wf cur v x"
| "packet_wf cur v (Fee_filter_packet x) = fee_filter_wf v x"
| "packet_wf cur v (Filter_add_packet x) = filter_add_wf v x"
| "packet_wf cur v (Filter_clear_packet x) = filter_clear_wf v x"
| "packet_wf cur v (Filter_load_packet x) = filter_load_wf v x"
| "packet_wf cur v Get_address_packet = True"
| "packet_wf cur v (Get_block_transactions_packet x) = get_block_transactions_wf cur v x"
| "packet_wf cur v (Get_blocks_packet x) = get_blocks_wf v x"
| "packet_wf cur v (Get_data_packet x) = (level_minimum \<le> v \<and> inventory_wf v x)"
| "packet_wf cur v (Get_headers_packet x) = (level_headers cur \<le> v \<and> get_blocks_wf v x)"
| "packet_wf cur v (Headers_packet x) = headers_wf cur v x"
| "packet_wf cur v (Inventory_packet x) = inventory_wf v x"
| "packet_wf cur v (Memory_pool_packet x) = memory_pool_wf v x"
| "packet_wf cur v (Merkle_block_packet x) = merkle_block_wf cur v x"
| "packet_wf cur v (Not_found_packet x) = (level_bip37 \<le> v \<and> inventory_wf v x)"
| "packet_wf cur v (Ping_packet x) = ping_wf v x"
| "packet_wf cur v (Pong_packet x) = pong_valid x"
| "packet_wf cur v (Reject_packet x) = reject_wf v x"
| "packet_wf cur v (Send_compact_packet x) = (level_bip152 \<le> v)"
| "packet_wf cur v (Send_headers_packet x) = send_headers_wf v x"
| "packet_wf cur v (Transaction_packet x) = transaction_wf cur x"
| "packet_wf cur v Verack_packet = True"
| "packet_wf cur v (Version_packet x) = version_wf v x"

text \<open>The reader a type of heading selects.\<close>

fun packet_reader :: "currency \<Rightarrow> uint32 \<Rightarrow> message_type \<Rightarrow> packet option rd" where
  "packet_reader cur v unknown_type = State_Monad.return None"
| "packet_reader cur v address_type = map_state (Some \<circ> Address_packet) (address_from_data v)"
| "packet_reader cur v alert_type = map_state (Some \<circ> Alert_packet) (alert_from_data v)"
| "packet_reader cur v block_type = map_state (Some \<circ> Block_packet) (message_block_from_data cur v)"
| "packet_reader cur v block_transactions_type = map_state (Some \<circ> Block_transactions_packet) (block_transactions_from_data cur v)"
| "packet_reader cur v compact_block_type = map_state (Some \<circ> Compact_block_packet) (compact_block_from_data cur v)"
| "packet_reader cur v fee_filter_type = map_state (Some \<circ> Fee_filter_packet) (fee_filter_from_data v)"
| "packet_reader cur v filter_add_type = map_state (Some \<circ> Filter_add_packet) (filter_add_from_data v)"
| "packet_reader cur v filter_clear_type = map_state (Some \<circ> Filter_clear_packet) (filter_clear_from_data v)"
| "packet_reader cur v filter_load_type = map_state (Some \<circ> Filter_load_packet) (filter_load_from_data v)"
| "packet_reader cur v get_address_type = map_state (\<lambda>_. Some Get_address_packet) (get_address_from_data v)"
| "packet_reader cur v get_block_transactions_type = map_state (Some \<circ> Get_block_transactions_packet) (get_block_transactions_from_data cur v)"
| "packet_reader cur v get_blocks_type = map_state (Some \<circ> Get_blocks_packet) (get_blocks_from_data v)"
| "packet_reader cur v get_data_type = map_state (Some \<circ> Get_data_packet) (get_data_from_data v)"
| "packet_reader cur v get_headers_type = map_state (Some \<circ> Get_headers_packet) (get_headers_from_data cur v)"
| "packet_reader cur v headers_type = map_state (Some \<circ> Headers_packet) (headers_from_data cur v)"
| "packet_reader cur v inventory_type = map_state (Some \<circ> Inventory_packet) (inventory_from_data v)"
| "packet_reader cur v memory_pool_type = map_state (Some \<circ> Memory_pool_packet) (memory_pool_from_data v)"
| "packet_reader cur v merkle_block_type = map_state (Some \<circ> Merkle_block_packet) (merkle_block_from_data cur v)"
| "packet_reader cur v not_found_type = map_state (Some \<circ> Not_found_packet) (not_found_from_data v)"
| "packet_reader cur v ping_type = map_state (Some \<circ> Ping_packet) (ping_from_data v)"
| "packet_reader cur v pong_type = map_state (Some \<circ> Pong_packet) (pong_from_data v)"
| "packet_reader cur v reject_type = map_state (Some \<circ> Reject_packet) (reject_from_data v)"
| "packet_reader cur v send_compact_type = map_state (Some \<circ> Send_compact_packet) (send_compact_from_data v)"
| "packet_reader cur v send_headers_type = map_state (Some \<circ> Send_headers_packet) (send_headers_from_data v)"
| "packet_reader cur v transaction_type = map_state (Some \<circ> Transaction_packet) (message_transaction_from_data cur v)"
| "packet_reader cur v verack_type = map_state (\<lambda>_. Some Verack_packet) (verack_from_data v)"
| "packet_reader cur v version_type = map_state (Some \<circ> Version_packet) (version_from_data v)"

definition packet_type :: "packet \<Rightarrow> message_type" where
  "packet_type p = the (map_of command_table (packet_command p))"

lemma packet_command_ok: "command_ok (packet_command p)"
  by (cases p) (simp_all add: command_ok_def)

lemmas packet_sizes =
  address_message.announced alert_message.announced message_block.announced
  block_transactions_codec.announced compact_block_codec.announced fee_filter_message.announced
  filter_add_message.announced filter_clear_message.announced filter_load_message.announced
  get_address_message.announced get_block_transactions_message.announced
  get_blocks_message.announced get_data_message.announced get_headers_message.announced
  headers_message.announced inventory_message.announced memory_pool_message.announced
  merkle_block_codec.announced not_found_message.announced ping_message.announced
  pong_message.announced reject_message.announced send_compact_message.announced
  send_headers_message.announced message_transaction.announced verack_message.announced
  version_codec.announced

lemmas packet_payloads =
  address_message.payload alert_message.payload message_block.payload
  block_transactions_codec.payload compact_block_codec.payload fee_filter_message.payload
  filter_add_message.payload filter_clear_message.payload filter_load_message.payload
  get_address_message.payload get_block_transactions_message.payload get_blocks_message.payload
  get_data_message.payload get_headers_message.payload headers_message.payload
  inventory_message.payload memory_pool_message.payload merkle_block_codec.payload
  not_found_message.payload ping_message.payload pong_message.payload reject_message.payload
  send_compact_message.payload send_headers_message.payload message_transaction.payload
  verack_message.payload version_codec.payload

lemma packet_types [simp]:
  "packet_type (Address_packet x0) = address_type"
  "packet_type (Alert_packet x1) = alert_type"
  "packet_type (Block_packet x2) = block_type"
  "packet_type (Block_transactions_packet x3) = block_transactions_type"
  "packet_type (Compact_block_packet x4) = compact_block_type"
  "packet_type (Fee_filter_packet x5) = fee_filter_type"
  "packet_type (Filter_add_packet x6) = filter_add_type"
  "packet_type (Filter_clear_packet x7) = filter_clear_type"
  "packet_type (Filter_load_packet x8) = filter_load_type"
  "packet_type Get_address_packet = get_address_type"
  "packet_type (Get_block_transactions_packet x10) = get_block_transactions_type"
  "packet_type (Get_blocks_packet x11) = get_blocks_type"
  "packet_type (Get_data_packet x12) = get_data_type"
  "packet_type (Get_headers_packet x13) = get_headers_type"
  "packet_type (Headers_packet x14) = headers_type"
  "packet_type (Inventory_packet x15) = inventory_type"
  "packet_type (Memory_pool_packet x16) = memory_pool_type"
  "packet_type (Merkle_block_packet x17) = merkle_block_type"
  "packet_type (Not_found_packet x18) = not_found_type"
  "packet_type (Ping_packet x19) = ping_type"
  "packet_type (Pong_packet x20) = pong_type"
  "packet_type (Reject_packet x21) = reject_type"
  "packet_type (Send_compact_packet x22) = send_compact_type"
  "packet_type (Send_headers_packet x23) = send_headers_type"
  "packet_type (Transaction_packet x24) = transaction_type"
  "packet_type Verack_packet = verack_type"
  "packet_type (Version_packet x26) = version_type"
  by (simp_all add: packet_type_def command_table_def)

lemma packet_announced: "packet_wf cur v p \<Longrightarrow> length (packet_to_data cur v p) = packet_size cur v p"
proof (cases p)
  case (Block_packet b)
  assume "packet_wf cur v p"
  then show ?thesis using message_block.announced [of cur b v] Block_packet by simp
qed (simp_all add: packet_sizes)

text \<open>The message read is the message written.\<close>

lemma read_as:
  "\<exists>r. run_state rd (ready bs) = (x, r) \<and> \<not> failbit r \<Longrightarrow>
   \<exists>r. run_state (map_state (Some \<circ> f) rd) (ready bs) = (Some (f x), r) \<and> \<not> failbit r"
  by (auto simp: state.map_sel)

lemma packet_payload:
  assumes "packet_wf cur v p"
  shows "\<exists>r. run_state (packet_reader cur v (packet_type p)) (ready (packet_to_data cur v p)) = (Some p, r) \<and> \<not> failbit r"
proof (cases p)
  case Get_address_packet
  then show ?thesis by (simp add: get_address_from_data_def state.map_sel)
next
  case Verack_packet
  then show ?thesis by (simp add: verack_from_data_def state.map_sel)
qed (use assms in \<open>simp_all only: packet_types packet_reader.simps packet_to_data.simps packet_wf.simps\<close>,
  (rule read_as, rule packet_payloads, assumption)+)

lemma heading_type_of_command:
  "command h = ascii (packet_command p) \<Longrightarrow> heading_type h = packet_type p"
  by (cases p) (simp_all add: heading_type_def command_table_def)

text \<open>
  C20. What a node sends, a node reads: for every message of the protocol, the bytes that
  serialize makes of a well-formed payload start with a heading that names its type, its
  magic, the true length of the payload and its checksum, and the reader the heading selects
  turns the payload back into the same message without failing.
\<close>

theorem protocol_round_trip:
  assumes "packet_wf cur v p" and "packet_size cur v p \<le> max_uint32"
  shows "\<exists>data h payload r.
    serialize H (packet_command p) (packet_to_data cur) (packet_size cur) v p m = Some data \<and>
    run_state heading_from_data (ready data) = (h, ready payload) \<and>
    magic h = m \<and> unat (payload_size h) = length payload \<and> heading_checksum h = bitcoin_checksum H payload \<and>
    run_state (packet_reader cur v (heading_type h)) (ready payload) = (Some p, r) \<and> \<not> failbit r"
proof -
  let ?h = "\<lparr>magic = m, command = ascii (packet_command p), payload_size = of_nat (packet_size cur v p),
      heading_checksum = bitcoin_checksum H (packet_to_data cur v p)\<rparr>"
  have n: "length (packet_to_data cur v p) = packet_size cur v p" by (rule packet_announced [OF assms(1)])
  obtain data where data: "serialize H (packet_command p) (packet_to_data cur) (packet_size cur) v p m = Some data"
    and "framed H (packet_command p) (packet_to_data cur v p) m data"
    using serialize_framed [of "packet_to_data cur" v p "packet_size cur" "packet_command p" H m] n packet_command_ok [of p] assms(2)
    by blast
  then have "run_state heading_from_data (ready data) = (?h, ready (packet_to_data cur v p))"
    by (simp add: framed_def n)
  moreover have "unat (payload_size ?h) = length (packet_to_data cur v p)"
    using assms(2) by (simp add: n unat_of_nat)
  moreover have "heading_type ?h = packet_type p" by (rule heading_type_of_command) simp
  ultimately show ?thesis using data packet_payload [OF assms(1)] by fastforce
qed

definition example_version :: version_message where
  "example_version = version_default\<lparr>vm_value := 70015, user_agent := [47, 98, 47], start_height := 7, relay := True\<rparr>"

theorem protocol_round_trip_witness:
  "\<exists>data h payload r.
    serialize example_digests ''version'' (packet_to_data bitcoin) (packet_size bitcoin) 70015 (Version_packet example_version) 7 = Some data \<and>
    run_state heading_from_data (ready data) = (h, ready payload) \<and>
    magic h = 7 \<and> unat (payload_size h) = length payload \<and> heading_checksum h = bitcoin_checksum example_digests payload \<and>
    run_state (packet_reader bitcoin 70015 (heading_type h)) (ready payload) = (Some (Version_packet example_version), r) \<and> \<not> failbit r"
proof -
  have "packet_wf bitcoin 70015 (Version_packet example_version)"
    by (simp add: example_version_def version_wf_def version_fields_wf_def network_address_wf_def network_address_default_def
        version_default_def max_size_t_def word_le_nat_alt)
  moreover have "packet_size bitcoin 70015 (Version_packet example_version) \<le> max_uint32"
    by (simp add: example_version_def version_default_def version_size_def string_size_def network_address_size_def
        variable_uint_size_def)
  ultimately show ?thesis
    using protocol_round_trip [of bitcoin 70015 "Version_packet example_version" example_digests 7] by simp
qed

text \<open>
  A compact block built from a well-formed block that has transactions is read back
  from its wire form unchanged, with its 48-bit short identifiers split into two integers,
  and the announced size is the length of the bytes.
\<close>

theorem compact_block_relays:
  assumes "block_wf cur b" and "block_transactions b \<noteq> []" and "level_bip152 \<le> v"
  shows "run_state (compact_block_from_data cur v) (ready (compact_block_to_data cur v (compact_block_from_block cur H n b) @ rest)) =
      (compact_block_from_block cur H n b, ready rest) \<and>
    length (compact_block_to_data cur v (compact_block_from_block cur H n b)) =
      compact_block_size cur v (compact_block_from_block cur H n b)"
  using compact_block_from_block_wf [OF assms] compact_block_codec.stream compact_block_codec.size_law by blast

theorem compact_block_relays_witness:
  "run_state (compact_block_from_data bitcoin 70014)
     (ready (compact_block_to_data bitcoin 70014 (compact_block_from_block bitcoin example_digests 5 example_block) @ [7])) =
   (compact_block_from_block bitcoin example_digests 5 example_block, ready [7]) \<and> block_transactions example_block \<noteq> []"
proof -
  have "block_transactions example_block \<noteq> []" by (simp add: example_block_def block_of_def)
  then show ?thesis
    using compact_block_relays [OF example_block_wf, of 70014 example_digests 5 "[7]"] by (simp add: word_le_nat_alt)
qed

text \<open>
  The size of a version message counts the relay flag by the version of the message alone, the writer by the smaller
  of the two versions: towards a peer below bip37 a newer message is one byte shorter than announced.
\<close>

theorem version_size_overstated:
  assumes "version_fields_wf m" and "v < level_bip37" and "level_bip37 \<le> vm_value m"
  shows "version_size v m = Suc (length (version_to_data v m))"
  using assms by (auto simp: version_fields_wf_def version_to_data_def version_size_def length_simps Let_def min_def)

theorem version_size_overstated_witness:
  "version_size 60000 example_version = Suc (length (version_to_data 60000 example_version))"
  by (rule version_size_overstated)
    (simp_all add: example_version_def version_fields_wf_def network_address_wf_def network_address_default_def
      version_default_def max_size_t_def word_le_nat_alt word_less_nat_alt)

text \<open>
  A failed read leaves the address bytes it got in the instance, which then counts as valid.
\<close>

theorem network_address_keeps_failed_ip:
  "\<exists>a r. run_state (network_address_from_data False) (ready (replicate 8 0 @ [1])) = (a, r) \<and> failbit r \<and>
     network_address_is_valid a"
proof -
  have "to_little_endian_loop n (0 :: uint64) = replicate n 0" for n by (induction n) simp_all
  then have "write_8_bytes_little_endian 0 = replicate 8 0"
    by (simp only: write_8_bytes_little_endian_def to_little_endian_def) simp
  then have services: "run_state read_8_bytes_little_endian (ready (replicate 8 0 @ [1])) = (0, ready [1])"
    using u64_codec.read_write [of 0 "[1]"] by simp
  let ?failed = "\<lparr>stream = [], eofbit = True, failbit = True\<rparr>"
  have ip: "run_state (read_bytes 16) (ready [1]) = (1 # replicate 15 0, ?failed)"
    by (simp add: read_bytes_def stream_read_def good_def)
  obtain port r where port: "run_state read_2_bytes_big_endian ?failed = (port, r)"
    by (cases "run_state read_2_bytes_big_endian ?failed") auto
  have "keeps_failure read_2_bytes_big_endian" by (rule failure_rules)
  then have "failbit r" using keeps_failure_valid [OF _ port] by auto
  have "run_state (network_address_from_data False) (ready (replicate 8 0 @ [1])) =
      (network_address_default\<lparr>na_ip := 1 # replicate 15 0\<rparr>, r)"
    by (simp add: network_address_from_data_def services ip port run_source_valid \<open>failbit r\<close>)
  moreover have "network_address_is_valid (network_address_default\<lparr>na_ip := 1 # replicate 15 0\<rparr>)"
    by (simp add: network_address_is_valid_def numeral_eq_Suc)
  ultimately show ?thesis using \<open>failbit r\<close> by blast
qed

end
