(* ===== verification/Formats.thy ===== *)
theory Formats
  imports Prelude
begin

text \<open>
  Text formats of bytes and amounts: \<^verbatim>\<open>src/formats/base_16.cpp\<close> and \<^verbatim>\<open>base_10.cpp\<close>.  A \<^verbatim>\<open>std::string\<close> is a
  list of characters; comparisons of characters are comparisons of their codes.
\<close>

abbreviation ord :: "char \<Rightarrow> nat" where "ord c \<equiv> of_char c"

text \<open>The white space of the classic locale.\<close>

definition is_space :: "char \<Rightarrow> bool" where
  "is_space c \<longleftrightarrow> ord c = 32 \<or> 9 \<le> ord c \<and> ord c \<le> 13"

subsection \<open>Base 16\<close>

text \<open>The stream writes each byte with two lower case digits.\<close>

definition hex_digit :: "nat \<Rightarrow> char" where
  "hex_digit n = ''0123456789abcdef'' ! n"

definition encode_base16 :: "data_chunk \<Rightarrow> string" where
  "encode_base16 data = concat (map (\<lambda>v. [hex_digit (unat v div 16), hex_digit (unat v mod 16)]) data)"

definition is_base16 :: "char \<Rightarrow> bool" where
  "is_base16 c \<longleftrightarrow>
     (48 \<le> ord c \<and> ord c \<le> 57) \<or> (65 \<le> ord c \<and> ord c \<le> 70) \<or> (97 \<le> ord c \<and> ord c \<le> 102)"

definition from_hex :: "char \<Rightarrow> nat" where
  "from_hex c =
     (if 65 \<le> ord c \<and> ord c \<le> 70 then 10 + ord c - 65
      else if 97 \<le> ord c \<and> ord c \<le> 102 then 10 + ord c - 97
      else ord c - 48)"

text \<open>The pointer arithmetic of the loop reads two characters for each byte of the output.\<close>

fun from_hex_pairs :: "string \<Rightarrow> data_chunk" where
  "from_hex_pairs (a # b # cs) = of_nat (from_hex a * 16 + from_hex b) # from_hex_pairs cs"
| "from_hex_pairs cs = []"

definition decode_base16_private :: "nat \<Rightarrow> string \<Rightarrow> data_chunk option" where
  "decode_base16_private out_size s =
     (if \<not> list_all is_base16 (take (2 * out_size) s) then None else Some (from_hex_pairs (take (2 * out_size) s)))"

definition decode_base16 :: "string \<Rightarrow> data_chunk option" where
  "decode_base16 s = (if length s mod 2 \<noteq> 0 then None else decode_base16_private (length s div 2) s)"

definition decode_base16_array :: "nat \<Rightarrow> string \<Rightarrow> data_chunk option" where
  "decode_base16_array n s = (if length s \<noteq> 2 * n then None else decode_base16_private n s)"

definition encode_hash :: "hash_digest \<Rightarrow> string" where
  "encode_hash h = encode_base16 (rev h)"

definition decode_hash :: "string \<Rightarrow> hash_digest option" where
  "decode_hash s = (if length s \<noteq> 2 * 32 then None else map_option rev (decode_base16_private 32 s))"

lemma less_16_cases: "(n :: nat) < 16 \<Longrightarrow> n = 0 \<or> n = 1 \<or> n = 2 \<or> n = 3 \<or> n = 4 \<or> n = 5 \<or> n = 6 \<or> n = 7 \<or> n = 8 \<or> n = 9 \<or>
    n = 10 \<or> n = 11 \<or> n = 12 \<or> n = 13 \<or> n = 14 \<or> n = 15"
  by presburger

lemma hex_digit_facts: "n < 16 \<Longrightarrow> is_base16 (hex_digit n) \<and> from_hex (hex_digit n) = n"
  by (drule less_16_cases, elim disjE) (simp_all add: hex_digit_def is_base16_def from_hex_def)

lemma from_hex_less: "is_base16 c \<Longrightarrow> from_hex c < 16"
  by (auto simp: is_base16_def from_hex_def)

lemma hex_nibbles: "unat (v :: byte) div 16 < 16" "unat v mod 16 < 16"
  using unat_byte_less [of v] by auto

lemma encode_base16_simps [simp]:
  "encode_base16 [] = []"
  "encode_base16 (v # vs) = hex_digit (unat v div 16) # hex_digit (unat v mod 16) # encode_base16 vs"
  by (simp_all add: encode_base16_def)

lemma length_encode_base16 [simp]: "length (encode_base16 d) = 2 * length d"
  by (induction d) simp_all

lemma encode_base16_valid: "list_all is_base16 (encode_base16 d)"
  by (induction d) (simp_all add: hex_digit_facts hex_nibbles)

lemma from_hex_pairs_encode: "from_hex_pairs (encode_base16 d) = d"
  by (induction d) (simp_all add: hex_digit_facts hex_nibbles del: of_nat_add of_nat_mult)

lemma base16_decode_encode:
  "decode_base16 (encode_base16 d) = Some d" "decode_base16_array (length d) (encode_base16 d) = Some d"
  by (simp_all add: decode_base16_def decode_base16_array_def decode_base16_private_def encode_base16_valid from_hex_pairs_encode)

lemma hash_decode_encode: "length h = 32 \<Longrightarrow> decode_hash (encode_hash h) = Some h"
  by (simp add: decode_hash_def encode_hash_def decode_base16_private_def encode_base16_valid from_hex_pairs_encode)

text \<open>The text is determined up to the case of its letters.\<close>

definition lower :: "char \<Rightarrow> char" where
  "lower c = (if 65 \<le> ord c \<and> ord c \<le> 70 then char_of (ord c + 32) else c)"

lemma hex_code_cases:
  "48 \<le> n \<and> n \<le> 57 \<or> 65 \<le> n \<and> n \<le> 70 \<or> 97 \<le> n \<and> n \<le> (102 :: nat) \<Longrightarrow>
   n \<in> {48, 49, 50, 51, 52, 53, 54, 55, 56, 57, 65, 66, 67, 68, 69, 70, 97, 98, 99, 100, 101, 102}"
  unfolding insert_iff empty_iff by presburger

lemma hex_digit_from_hex:
  assumes "is_base16 c"
  shows "hex_digit (from_hex c) = lower c"
proof -
  obtain n where c: "c = char_of n" and n: "n \<in> {48, 49, 50, 51, 52, 53, 54, 55, 56, 57, 65, 66, 67, 68, 69, 70, 97, 98, 99, 100, 101, 102 :: nat}"
    using assms hex_code_cases [of "ord c"] that [of "ord c"] unfolding is_base16_def by simp
  show ?thesis
    using n unfolding c hex_digit_def from_hex_def lower_def
    by (elim insertE emptyE) (simp_all add: char_of_def bit_0)
qed

lemma base16_encode_decode:
  "list_all is_base16 s \<Longrightarrow> length s mod 2 = 0 \<Longrightarrow> encode_base16 (from_hex_pairs s) = map lower s"
proof (induction s rule: from_hex_pairs.induct)
  case (1 a b cs)
  have "from_hex a * 16 + from_hex b < 256"
    using from_hex_less [of a] from_hex_less [of b] 1(2) by simp
  then have "unat (of_nat (from_hex a * 16 + from_hex b) :: byte) = from_hex a * 16 + from_hex b"
    by (simp add: unat_of_nat del: of_nat_add of_nat_mult)
  then show ?case
    using 1 from_hex_less [of b] by (simp add: hex_digit_from_hex mod_Suc del: of_nat_add of_nat_mult split: if_splits)
qed auto

subsection \<open>Base 10\<close>

text \<open>
  Decimal amounts with a given number of decimal places.  The digits are those of the stream operators; reading
  fails above 64 bits.
\<close>

definition is_digit :: "char \<Rightarrow> bool" where
  "is_digit c \<longleftrightarrow> 48 \<le> ord c \<and> ord c \<le> 57"

definition digit_char :: "nat \<Rightarrow> char" where
  "digit_char n = char_of (48 + n)"

fun to_decimal :: "nat \<Rightarrow> string" where
  "to_decimal n = (if n < 10 then [digit_char n] else to_decimal (n div 10) @ [digit_char (n mod 10)])"

declare to_decimal.simps [simp del]

definition of_decimal :: "string \<Rightarrow> nat" where
  "of_decimal s = foldl (\<lambda>n c. n * 10 + (ord c - 48)) 0 s"

definition read_uint64 :: "string \<Rightarrow> uint64 option" where
  "read_uint64 s = (if of_decimal s \<ge> 2 ^ 64 then None else Some (of_nat (of_decimal s)))"

definition decode_base10 :: "string \<Rightarrow> byte \<Rightarrow> bool \<Rightarrow> uint64 option" where
  "decode_base10 amount decimal_places strict =
     (let places = unat decimal_places;
          point = length (takeWhile (\<lambda>c. c \<noteq> CHR ''.'') amount);
          val = take point amount @ drop (Suc point) amount
      in if \<not> list_all is_digit val then None
         else
           let actual_places = length val - point;
               end = point + places;
               round = (actual_places > places \<and> \<not> list_all (\<lambda>c. c = CHR ''0'') (drop end val));
               val = (if actual_places < places then val @ replicate (places - actual_places) CHR ''0''
                      else if actual_places > places then take end val else val)
           in if strict \<and> round then None
              else case (if val = [] then Some 0 else read_uint64 val) of
                     None \<Rightarrow> None
                   | Some number \<Rightarrow>
                       if round \<and> number = - 1 then None else Some (number + (if round then 1 else 0)))"

text \<open>The library's \<^verbatim>\<open>boost::algorithm::trim_right_if\<close> is the parameter \<open>trim_right\<close>.\<close>

definition encode_base10 :: "((char \<Rightarrow> bool) \<Rightarrow> string \<Rightarrow> string) \<Rightarrow> uint64 \<Rightarrow> byte \<Rightarrow> string" where
  "encode_base10 trim_right amount decimal_places =
     (let places = unat decimal_places;
          digits = to_decimal (unat amount);
          padded = replicate (1 + places - length digits) CHR ''0'' @ digits;
          k = length padded - places;
          pointed = take k padded @ CHR ''.'' # drop k padded
      in trim_right (\<lambda>c. c = CHR ''.'') (trim_right (\<lambda>c. c = CHR ''0'') pointed))"

abbreviation (input) btc_decimal_places :: byte where "btc_decimal_places \<equiv> 8"

definition btc_to_satoshi :: "string \<Rightarrow> uint64 option" where
  "btc_to_satoshi btc = decode_base10 btc btc_decimal_places True"

definition satoshi_to_btc :: "((char \<Rightarrow> bool) \<Rightarrow> string \<Rightarrow> string) \<Rightarrow> uint64 \<Rightarrow> string" where
  "satoshi_to_btc trim_right satoshi = encode_base10 trim_right satoshi btc_decimal_places"

text \<open>
  What the code relies on: trimming removes from the end characters that satisfy the predicate, and stops at the first
  that does not.  The function \<open>trim_right_if\<close> is one that does.
\<close>

definition trims_right :: "((char \<Rightarrow> bool) \<Rightarrow> string \<Rightarrow> string) \<Rightarrow> bool" where
  "trims_right trim_right \<longleftrightarrow>
     (\<forall>P s. (\<exists>t. s = trim_right P s @ t \<and> list_all P t) \<and> (trim_right P s = [] \<or> \<not> P (last (trim_right P s))))"

definition trim_right_if :: "(char \<Rightarrow> bool) \<Rightarrow> string \<Rightarrow> string" where
  "trim_right_if P s = rev (dropWhile P (rev s))"

lemma ord_digit_char [simp]: "n < 10 \<Longrightarrow> ord (digit_char n) = 48 + n"
  by (simp add: digit_char_def)

lemma of_decimal_append: "of_decimal (s @ t) = of_decimal s * 10 ^ length t + of_decimal t"
proof (induction t rule: rev_induct)
  case (snoc c t)
  then show ?case by (simp add: of_decimal_def algebra_simps)
qed (simp add: of_decimal_def)

lemma of_decimal_zeros [simp]: "of_decimal (replicate n CHR ''0'') = 0"
  by (induction n) (simp_all add: of_decimal_def)

lemma to_decimal_facts: "of_decimal (to_decimal n) = n \<and> list_all is_digit (to_decimal n)"
proof (induction n rule: to_decimal.induct)
  case (1 n)
  then show ?case
    by (cases "n < 10") (simp_all add: to_decimal.simps [of n] of_decimal_append, simp_all add: of_decimal_def is_digit_def)
qed

lemma trim_right_if_append:
  "trim_right_if P (s @ t) = (if list_all P t then trim_right_if P s else s @ trim_right_if P t)"
proof (cases "list_all P t")
  case True
  then have "dropWhile P (rev t @ rev s) = dropWhile P (rev s)"
    by (intro dropWhile_append2) (simp add: list_all_iff)
  then show ?thesis using True by (simp add: trim_right_if_def)
next
  case False
  then obtain c where "c \<in> set (rev t)" "\<not> P c" by (auto simp: list_all_iff)
  then have "dropWhile P (rev t @ rev s) = dropWhile P (rev t) @ rev s" by (rule dropWhile_append1)
  then show ?thesis using False by (simp add: trim_right_if_def)
qed

lemma trim_right_if_rest: "\<exists>n. s = trim_right_if (\<lambda>c. c = x) s @ replicate n x"
proof -
  have "s = rev (dropWhile (\<lambda>c. c = x) (rev s)) @ rev (takeWhile (\<lambda>c. c = x) (rev s))"
    by (metis rev_append rev_rev_ident takeWhile_dropWhile_id)
  moreover have "takeWhile (\<lambda>c. c = x) (rev s) = replicate (length (takeWhile (\<lambda>c. c = x) (rev s))) x"
    by (metis (mono_tags, lifting) replicate_length_same set_takeWhileD)
  ultimately show ?thesis unfolding trim_right_if_def by (metis rev_replicate)
qed

lemma digit_not_point: "is_digit c \<Longrightarrow> c \<noteq> CHR ''.''"
  by (auto simp: is_digit_def)

lemma decode_exact:
  assumes "list_all is_digit u" and "list_all is_digit f" and "length f \<le> unat p" and "u \<noteq> []"
    and "amount = u \<and> f = [] \<or> amount = u @ CHR ''.'' # f"
    and "of_decimal (u @ f @ replicate (unat p - length f) CHR ''0'') = n" and "n < 2 ^ 64"
  shows "decode_base10 amount p strict = Some (of_nat n)"
proof -
  have u: "takeWhile (\<lambda>c. c \<noteq> CHR ''.'') u = u"
    using assms(1) digit_not_point by (auto simp: list_all_iff)
  have uf: "takeWhile (\<lambda>c. c \<noteq> CHR ''.'') (u @ CHR ''.'' # f) = u"
    using assms(1) digit_not_point by (subst takeWhile_append2) (auto simp: list_all_iff)
  have point: "length (takeWhile (\<lambda>c. c \<noteq> CHR ''.'') amount) = length u"
    and val: "take (length u) amount @ drop (Suc (length u)) amount = u @ f"
    using assms(5) by (elim disjE conjE; simp only: u uf; simp)+
  have padded: "(if length f < unat p then (u @ f) @ replicate (unat p - length f) CHR ''0''
      else if unat p < length f then take (length u + unat p) (u @ f) else u @ f) =
      u @ f @ replicate (unat p - length f) CHR ''0''"
    using assms(3) by auto
  have digits: "list_all is_digit (u @ f)" using assms(1,2) by simp
  have fits: "\<not> unat p < length f" using assms(3) by simp
  have diff: "length (u @ f) - length u = length f" by simp
  have small: "\<not> n \<ge> 2 ^ 64" using assms(7) by simp
  show ?thesis
    unfolding decode_base10_def Let_def point val diff padded read_uint64_def assms(6)
    using digits fits small assms(4) by (simp only: simp_thms if_True if_False append_is_Nil_conv option.case add_0_right)
qed

lemma trim_right_if_keeps: "s \<noteq> [] \<Longrightarrow> \<not> P (last s) \<Longrightarrow> trim_right_if P s = s"
  by (cases s rule: rev_cases) (simp_all add: trim_right_if_def)

lemma trim_right_if_last: "\<not> list_all P s \<Longrightarrow> trim_right_if P s \<noteq> [] \<and> \<not> P (last (trim_right_if P s))"
proof -
  assume "\<not> list_all P s"
  then have "dropWhile P (rev s) \<noteq> []" by (auto simp: list_all_iff dropWhile_eq_Nil_conv)
  then show ?thesis using hd_dropWhile [of P "rev s"] by (simp add: trim_right_if_def last_rev)
qed

lemma trims_right_unique:
  assumes "trims_right trim_right"
  shows "trim_right = trim_right_if"
proof (intro ext)
  fix P s
  obtain t where t: "s = trim_right P s @ t" "list_all P t" and last: "trim_right P s = [] \<or> \<not> P (last (trim_right P s))"
    using assms unfolding trims_right_def by blast
  define u where "u = trim_right P s"
  have u: "s = u @ t" "u = [] \<or> \<not> P (last u)" using t(1) last unfolding u_def by blast+
  have "trim_right_if P s = trim_right_if P u" unfolding u(1) trim_right_if_append using t(2) by simp
  also have "\<dots> = u" using u(2) trim_right_if_keeps [of u P] by (cases "u = []") (simp_all add: trim_right_if_def)
  finally have "trim_right_if P s = trim_right P s" by (simp only: u_def)
  then show "trim_right P s = trim_right_if P s" by simp
qed

lemma trims_right_trim_right_if: "trims_right trim_right_if"
proof -
  have "\<exists>t. s = trim_right_if P s @ t \<and> list_all P t" for P s
  proof (intro exI conjI)
    show "s = trim_right_if P s @ rev (takeWhile P (rev s))"
      unfolding trim_right_if_def by (metis rev_append rev_rev_ident takeWhile_dropWhile_id)
    show "list_all P (rev (takeWhile P (rev s)))" by (auto simp: list_all_iff dest: set_takeWhileD)
  qed
  moreover have "trim_right_if P s = [] \<or> \<not> P (last (trim_right_if P s))" for P s
    using hd_dropWhile [of P "rev s"] by (auto simp: trim_right_if_def last_rev)
  ultimately show ?thesis by (simp add: trims_right_def)
qed

text \<open>The encoded text, by the integer digits and the decimal places.\<close>

lemma encoded_parts:
  assumes "list_all is_digit u" and "list_all is_digit w" and "u \<noteq> []"
  defines "s \<equiv> trim_right_if (\<lambda>c. c = CHR ''.'') (trim_right_if (\<lambda>c. c = CHR ''0'') (u @ CHR ''.'' # w))"
  shows "\<exists>f n. w = f @ replicate n CHR ''0'' \<and> (s = u \<and> f = [] \<or> s = u @ CHR ''.'' # f)"
proof -
  have last_u: "last u \<noteq> CHR ''.''" using assms(1,3) digit_not_point by (auto simp: list_all_iff)
  have "u @ CHR ''.'' # w = (u @ [CHR ''.'']) @ w" by simp
  then have trim: "trim_right_if (\<lambda>c. c = CHR ''0'') (u @ CHR ''.'' # w) =
      (if list_all (\<lambda>c. c = CHR ''0'') w then u @ [CHR ''.''] else u @ CHR ''.'' # trim_right_if (\<lambda>c. c = CHR ''0'') w)"
    by (simp only: trim_right_if_append) (simp add: trim_right_if_keeps)
  show ?thesis
  proof (cases "list_all (\<lambda>c. c = CHR ''0'') w")
    case True
    then have "w = replicate (length w) CHR ''0''" by (simp add: list_all_iff replicate_length_same)
    moreover have "s = u"
      unfolding s_def trim using True last_u assms(3)
      by (simp add: trim_right_if_append trim_right_if_keeps)
    ultimately show ?thesis by (metis append_Nil)
  next
    case False
    let ?f = "trim_right_if (\<lambda>c. c = CHR ''0'') w"
    obtain n where n: "w = ?f @ replicate n CHR ''0''" using trim_right_if_rest [of w "CHR ''0''"] by blast
    have f: "?f \<noteq> []" using trim_right_if_last [OF False] by blast
    then have "last ?f \<in> set w" using n by (metis Un_iff last_in_set set_append)
    then have "last ?f \<noteq> CHR ''.''" using assms(2) digit_not_point by (auto simp: list_all_iff)
    then have "s = u @ CHR ''.'' # ?f"
      unfolding s_def trim using False f by (simp add: trim_right_if_keeps)
    with n show ?thesis by blast
  qed
qed

text \<open>
  Reading back a written amount gives the amount, whatever the number of decimal places and in both
  modes.
\<close>

theorem base10_round_trip:
  assumes "trims_right trim_right"
  shows "decode_base10 (encode_base10 trim_right amount p) p strict = Some amount"
proof -
  let ?digits = "to_decimal (unat amount)"
  let ?padded = "replicate (1 + unat p - length ?digits) CHR ''0'' @ ?digits"
  let ?k = "length ?padded - unat p"
  define u w where "u = take ?k ?padded" and "w = drop ?k ?padded"
  have split: "u @ w = ?padded" unfolding u_def w_def by (rule append_take_drop_id)
  have "list_all is_digit ?padded"
    using to_decimal_facts [of "unat amount"] by (auto simp: list_all_iff is_digit_def)
  then have digits: "list_all is_digit u" "list_all is_digit w"
    unfolding split [symmetric] by (simp_all only: list_all_append)
  have lengths: "length w = unat p" "u \<noteq> []" by (auto simp: u_def w_def)
  have val: "of_decimal (u @ w) = unat amount"
    unfolding split by (simp add: of_decimal_append to_decimal_facts)
  obtain f n where f: "w = f @ replicate n CHR ''0''"
    and e: "encode_base10 trim_right_if amount p = u \<and> f = [] \<or> encode_base10 trim_right_if amount p = u @ CHR ''.'' # f"
    using encoded_parts [OF digits lengths(2)] unfolding encode_base10_def Let_def u_def w_def by blast
  have n: "n = unat p - length f" "length f \<le> unat p" using lengths(1) f by auto
  have "list_all is_digit f" using digits(2) f by simp
  then have "decode_base10 (encode_base10 trim_right_if amount p) p strict = Some (of_nat (unat amount))"
    using decode_exact [OF digits(1) _ n(2) lengths(2) e] val f n unsigned_less [of amount, where 'a = nat] by simp
  then show ?thesis by (simp add: trims_right_unique [OF assms])
qed

theorem base10_round_trip_witness:
  "trims_right trim_right_if \<and> decode_base10 (encode_base10 trim_right_if 150000000 8) 8 True = Some 150000000"
  using base10_round_trip [OF trims_right_trim_right_if] trims_right_trim_right_if by blast

end
