(* ===== verification/Base85.thy ===== *)
theory Base85
  imports Formats
begin

text \<open>
  Base 85 (Z85): \<^verbatim>\<open>src/formats/base_85.cpp\<close>.  Four bytes are a 32 bit number that is written with five digits; the
  accumulators are 32 bit words and wrap.
\<close>

definition encoder85 :: string where
  "encoder85 = ''0123456789abcdefghijklmnopqrstuvwxyzABCDEFGHIJKLMNOPQRSTUVWXYZ.-:+=^!/*?&<>()[]{}@%$#''"

definition decoder85 :: "nat list" where
  "decoder85 =
    [0x00, 0x44, 0x00, 0x54, 0x53, 0x52, 0x48, 0x00,
     0x4B, 0x4C, 0x46, 0x41, 0x00, 0x3F, 0x3E, 0x45,
     0x00, 0x01, 0x02, 0x03, 0x04, 0x05, 0x06, 0x07,
     0x08, 0x09, 0x40, 0x00, 0x49, 0x42, 0x4A, 0x47,
     0x51, 0x24, 0x25, 0x26, 0x27, 0x28, 0x29, 0x2A,
     0x2B, 0x2C, 0x2D, 0x2E, 0x2F, 0x30, 0x31, 0x32,
     0x33, 0x34, 0x35, 0x36, 0x37, 0x38, 0x39, 0x3A,
     0x3B, 0x3C, 0x3D, 0x4D, 0x00, 0x4E, 0x43, 0x00,
     0x00, 0x0A, 0x0B, 0x0C, 0x0D, 0x0E, 0x0F, 0x10,
     0x11, 0x12, 0x13, 0x14, 0x15, 0x16, 0x17, 0x18,
     0x19, 0x1A, 0x1B, 0x1C, 0x1D, 0x1E, 0x1F, 0x20,
     0x21, 0x22, 0x23, 0x4F, 0x00, 0x50, 0x00, 0x00]"

text \<open>The loop \<^verbatim>\<open>for (divise = base^k; divise > 0; divise /= base)\<close> over the digits of the accumulator.\<close>

function divise_loop :: "nat \<Rightarrow> 32 word \<Rightarrow> nat \<Rightarrow> nat list" where
  "divise_loop base accumulator divise =
     (if divise = 0 \<or> base < 2 then [] else unat accumulator div divise mod base # divise_loop base accumulator (divise div base))"
  by auto
termination by (relation "measure (\<lambda>(base, accumulator, divise). divise)") auto

declare divise_loop.simps [simp del]

text \<open>The state of both loops: the number of items read, the accumulator and the output.\<close>

fun encode_base85_loop :: "data_chunk \<Rightarrow> nat \<Rightarrow> 32 word \<Rightarrow> string \<Rightarrow> string" where
  "encode_base85_loop [] byte_index accumulator encoded = encoded"
| "encode_base85_loop (unencoded_byte # bytes) byte_index accumulator encoded =
     (let accumulator = accumulator * 256 + ucast unencoded_byte; byte_index = byte_index + 1 in
      if byte_index mod 4 = 0
      then encode_base85_loop bytes byte_index 0 (encoded @ map (\<lambda>d. encoder85 ! d) (divise_loop 85 accumulator (85 * 85 * 85 * 85)))
      else encode_base85_loop bytes byte_index accumulator encoded)"

definition encode_base85 :: "data_chunk \<Rightarrow> string option" where
  "encode_base85 bytes = (if length bytes mod 4 \<noteq> 0 then None else Some (encode_base85_loop bytes 0 0 []))"

text \<open>
  The guard of the decoder lets the position 96 through, one past its table of 96 entries: that read is undefined, and
  is an outcome of its own.
\<close>

datatype decoded85 = Decoded data_chunk | Refused | Undefined

fun decode_base85_loop :: "string \<Rightarrow> nat \<Rightarrow> 32 word \<Rightarrow> data_chunk \<Rightarrow> decoded85" where
  "decode_base85_loop [] char_index accumulator decoded = Decoded decoded"
| "decode_base85_loop (encoded_character # cs) char_index accumulator decoded =
     (let position = int (ord encoded_character) - 32 in
      if position < 0 \<or> position > 96 then Refused
      else if nat position \<ge> length decoder85 then Undefined
      else
        let accumulator = accumulator * 85 + of_nat (decoder85 ! nat position); char_index = char_index + 1 in
        if char_index mod 5 = 0
        then decode_base85_loop cs char_index 0 (decoded @ map of_nat (divise_loop 256 accumulator (256 * 256 * 256)))
        else decode_base85_loop cs char_index accumulator decoded)"

definition decode_base85 :: "string \<Rightarrow> decoded85" where
  "decode_base85 s = (if length s mod 5 \<noteq> 0 then Refused else decode_base85_loop s 0 0 [])"

lemma divise_loop_85:
  "divise_loop 85 accumulator (85 * 85 * 85 * 85) =
     (let n = unat accumulator in [n div 52200625 mod 85, n div 614125 mod 85, n div 7225 mod 85, n div 85 mod 85, n mod 85])"
  by (simp add: divise_loop.simps Let_def)

lemma divise_loop_256:
  "divise_loop 256 accumulator (256 * 256 * 256) =
     (let n = unat accumulator in [n div 16777216 mod 256, n div 65536 mod 256, n div 256 mod 256, n mod 256])"
  by (simp add: divise_loop.simps Let_def)

lemma decoder85_length: "length decoder85 = 96"
  by (simp add: decoder85_def)

lemma decoder85_encoder:
  assumes "d < 85"
  shows "32 \<le> (ord (encoder85 ! d)) \<and> nat (int (ord (encoder85 ! d)) - 32) < length decoder85 \<and>
    decoder85 ! nat (int (ord (encoder85 ! d)) - 32) = d"
proof -
  have "\<forall>i \<in> set [0..<85]. 32 \<le> ord (encoder85 ! i) \<and> nat (int (ord (encoder85 ! i)) - 32) < length decoder85 \<and>
    decoder85 ! nat (int (ord (encoder85 ! i)) - 32) = i"
    by (simp add: upt_rec encoder85_def decoder85_def)
  then show ?thesis using assms by simp
qed

definition group_value :: "byte \<Rightarrow> byte \<Rightarrow> byte \<Rightarrow> byte \<Rightarrow> nat" where
  "group_value a b c d = ((unat a * 256 + unat b) * 256 + unat c) * 256 + unat d"

lemma group_value_less: "group_value a b c d < 2 ^ 32"
  using unat_byte_less [of a] unat_byte_less [of b] unat_byte_less [of c] unat_byte_less [of d]
  by (simp add: group_value_def)

lemma group_value_digits:
  "group_value a b c d div 16777216 mod 256 = unat a" "group_value a b c d div 65536 mod 256 = unat b"
  "group_value a b c d div 256 mod 256 = unat c" "group_value a b c d mod 256 = unat d"
proof -
  let ?n = "group_value a b c d"
  have *: "(x * 256 + unat y) div 256 = x" "(x * 256 + unat y) mod 256 = unat y" for x and y :: byte
    using unat_byte_less [of y] by simp_all
  have "?n div 65536 = ?n div 256 div 256" "?n div 16777216 = ?n div 256 div 256 div 256" by (simp_all add: div_mult2_eq [symmetric])
  then show "?n div 16777216 mod 256 = unat a" "?n div 65536 mod 256 = unat b" "?n div 256 mod 256 = unat c" "?n mod 256 = unat d"
    using unat_byte_less [of a] by (simp_all only: group_value_def *) simp_all
qed

lemma encode_group:
  assumes "i mod 4 = 0"
  shows "encode_base85_loop (a # b # c # d # rest) i 0 out =
    encode_base85_loop rest (i + 4) 0
      (out @ map (\<lambda>d. encoder85 ! d) (divise_loop 85 (of_nat (group_value a b c d)) (85 * 85 * 85 * 85)))"
proof -
  have "ucast x = (of_nat (unat x) :: 32 word)" for x :: byte by simp
  then have acc: "((ucast a * 256 + ucast b) * 256 + ucast c) * 256 + ucast d = (of_nat (group_value a b c d) :: 32 word)"
    by (simp only: group_value_def of_nat_add of_nat_mult of_nat_numeral)
  have index: "(i + 1) mod 4 \<noteq> 0" "(i + 1 + 1) mod 4 \<noteq> 0" "(i + 1 + 1 + 1) mod 4 \<noteq> 0" "(i + 4) mod 4 = 0"
    "i + 1 + 1 + 1 + 1 = i + 4"
    using assms by presburger+
  show ?thesis
    by (simp only: encode_base85_loop.simps Let_def index if_False if_True refl mult_zero_left add_0 acc)
qed

lemma decode_group:
  assumes "i mod 5 = 0" and "list_all (\<lambda>d. d < 85) [a, b, c, d, e]"
  shows "decode_base85_loop (map (\<lambda>d. encoder85 ! d) [a, b, c, d, e] @ rest) i 0 out =
    decode_base85_loop rest (i + 5) 0
      (out @ map of_nat (divise_loop 256 (of_nat ((((a * 85 + b) * 85 + c) * 85 + d) * 85 + e)) (256 * 256 * 256)))"
proof -
  have step: "decode_base85_loop (encoder85 ! d # cs) i acc out =
    (if (i + 1) mod 5 = 0
     then decode_base85_loop cs (i + 1) 0 (out @ map of_nat (divise_loop 256 (acc * 85 + of_nat d) (256 * 256 * 256)))
     else decode_base85_loop cs (i + 1) (acc * 85 + of_nat d) out)" if "d < 85" for d cs i acc out
    using decoder85_encoder [OF that] unfolding decode_base85_loop.simps decoder85_length by (auto simp: Let_def)
  have index: "(i + 1) mod 5 \<noteq> 0" "(i + 1 + 1) mod 5 \<noteq> 0" "(i + 1 + 1 + 1) mod 5 \<noteq> 0" "(i + 1 + 1 + 1 + 1) mod 5 \<noteq> 0"
    "(i + 5) mod 5 = 0" "i + 1 + 1 + 1 + 1 + 1 = i + 5"
    using assms(1) by presburger+
  have digits: "a < 85" "b < 85" "c < 85" "d < 85" "e < 85" using assms(2) by simp_all
  show ?thesis
    by (simp only: list.map append.simps step [OF digits(1)] step [OF digits(2)] step [OF digits(3)] step [OF digits(4)]
        step [OF digits(5)] index if_False if_True refl mult_zero_left add_0 of_nat_add of_nat_mult of_nat_numeral)
qed

lemma digits_85:
  assumes "n < 2 ^ 32"
  shows "(((n div 52200625 mod 85 * 85 + n div 614125 mod 85) * 85 + n div 7225 mod 85) * 85 + n div 85 mod 85) * 85 + n mod 85 = (n :: nat)"
proof -
  have "n div 52200625 mod 85 = n div 85 div 85 div 85 div 85" "n div 614125 = n div 85 div 85 div 85" "n div 7225 = n div 85 div 85"
    using assms by (simp_all add: div_mult2_eq [symmetric] less_mult_imp_div_less)
  then show ?thesis by (simp only: div_mod_decomp [symmetric])
qed

fun fours :: "data_chunk \<Rightarrow> bool" where
  "fours (a # b # c # d # rest) = fours rest"
| "fours [] = True"
| "fours _ = False"

lemma fours_iff: "fours data \<longleftrightarrow> length data mod 4 = 0"
proof (induction data rule: fours.induct)
  case (1 a b c d rest)
  have "length (a # b # c # d # rest) = length rest + 4" by simp
  then show ?case using 1 by (simp only: fours.simps mod_add_self2)
qed simp_all

lemma encode_base85_loop_append:
  "fours data \<Longrightarrow> i mod 4 = 0 \<Longrightarrow> encode_base85_loop data i 0 out = out @ encode_base85_loop data 0 0 []"
proof (induction data arbitrary: i out rule: fours.induct)
  case (1 a b c d rest)
  let ?g = "map (\<lambda>d. encoder85 ! d) (divise_loop 85 (of_nat (group_value a b c d)) (85 * 85 * 85 * 85))"
  have rest: "encode_base85_loop rest (k + 4) 0 x = x @ encode_base85_loop rest 0 0 []" if "k mod 4 = 0" for k x
    by (rule "1.IH") (use "1.prems"(1) that in simp_all)
  show ?case
    unfolding encode_group [OF "1.prems"(2)] encode_group [of 0, OF mod_0] rest [OF "1.prems"(2)] rest [of 0, OF mod_0] by simp
qed simp_all

lemma encode_group_digits:
  assumes "fours rest"
  shows "encode_base85_loop (a # b # c # d # rest) 0 0 [] =
    (let n = group_value a b c d
     in map (\<lambda>d. encoder85 ! d) [n div 52200625 mod 85, n div 614125 mod 85, n div 7225 mod 85, n div 85 mod 85, n mod 85] @
        encode_base85_loop rest 0 0 [])"
proof -
  have n: "unat (of_nat (group_value a b c d) :: 32 word) = group_value a b c d"
    using group_value_less [of a b c d] by (simp add: unat_of_nat)
  have four: "(0 + 4) mod 4 = (0 :: nat)" by simp
  show ?thesis
    unfolding encode_group [of 0, OF mod_0] encode_base85_loop_append [OF assms four] divise_loop_85 n Let_def by simp
qed

lemma decode_base85_loop_encode:
  "fours data \<Longrightarrow> i mod 5 = 0 \<Longrightarrow> decode_base85_loop (encode_base85_loop data 0 0 []) i 0 out = Decoded (out @ data)"
proof (induction data arbitrary: i out rule: fours.induct)
  case (1 a b c d rest)
  let ?n = "group_value a b c d"
  have n: "unat (of_nat ?n :: 32 word) = ?n" using group_value_less [of a b c d] by (simp add: unat_of_nat)
  have bytes: "map of_nat (divise_loop 256 (of_nat ?n) (256 * 256 * 256)) = [a, b, c, d]"
    unfolding divise_loop_256 n Let_def group_value_digits by simp
  have digits: "list_all (\<lambda>d. d < 85) [?n div 52200625 mod 85, ?n div 614125 mod 85, ?n div 7225 mod 85, ?n div 85 mod 85, ?n mod 85]"
    by simp
  have "fours rest" using "1.prems" by simp
  then show ?case
    unfolding encode_group_digits [OF \<open>fours rest\<close>] Let_def decode_group [OF "1.prems"(2) digits]
      digits_85 [OF group_value_less] bytes
    using "1.IH" [of "i + 5" "out @ [a, b, c, d]"] "1.prems"(2) by simp
qed simp_all

text \<open>
  Base 85 encodes exactly the byte strings whose length is a multiple of four, and decoding gives them back: no
  accumulator of the round trip wraps.
\<close>

theorem base85_round_trip:
  "case encode_base85 data of
     None \<Rightarrow> length data mod 4 \<noteq> 0
   | Some s \<Rightarrow> length data mod 4 = 0 \<and> 4 * length s = 5 * length data \<and> decode_base85 s = Decoded data"
proof (cases "fours data")
  case True
  have "4 * length (encode_base85_loop data 0 0 []) = 5 * length data"
    using True
  proof (induction data rule: fours.induct)
    case (1 a b c d rest)
    then show ?case using encode_group_digits [of rest a b c d] by (simp add: Let_def del: encode_base85_loop.simps)
  qed simp_all
  moreover have "length (encode_base85_loop data 0 0 []) mod 5 = 0" using calculation by presburger
  ultimately show ?thesis
    using True decode_base85_loop_encode [OF True mod_0, of "[]"] by (simp add: encode_base85_def decode_base85_def fours_iff)
qed (simp add: fours_iff encode_base85_def)

text \<open>A character outside the alphabet is read as the digit 0, and a character of code 128 reads past the table.\<close>

lemma base85_unused_character: "decode_base85 ''~0000'' = decode_base85 ''00000''"
  by (simp add: decode_base85_def decoder85_def divise_loop_256)

lemma base85_past_table: "decode_base85 (CHR 0x80 # ''0000'') = Undefined"
  by (simp add: decode_base85_def decoder85_def)

end
