(* ===== verification/Base58.thy ===== *)
theory Base58
  imports Formats
begin

text \<open>
  Base 58: \<^verbatim>\<open>src/formats/base_58.cpp\<close>.  Both directions keep a big-endian number in a buffer of fixed size and
  multiply and add in place.  The size comes from a rational approximation of the ratio of the logarithms; that it is
  always enough (what the code asserts) is part of the correctness proofs.
\<close>

definition base58_chars :: string where
  "base58_chars = ''123456789ABCDEFGHJKLMNPQRSTUVWXYZabcdefghijkmnopqrstuvwxyz''"

text \<open>The characters are sorted, so the binary search of the code is membership.\<close>

definition is_base58_char :: "char \<Rightarrow> bool" where
  "is_base58_char c \<longleftrightarrow> c \<in> set base58_chars"

definition is_base58 :: "string \<Rightarrow> bool" where
  "is_base58 text = list_all is_base58_char text"

definition search_first_nonzero :: "data_chunk \<Rightarrow> data_chunk" where
  "search_first_nonzero data = dropWhile (\<lambda>b. b = 0) data"

definition count_leading_zeros :: "data_chunk \<Rightarrow> nat" where
  "count_leading_zeros unencoded = length (takeWhile (\<lambda>b. b = 0) unencoded)"

text \<open>
  The loop of \<^verbatim>\<open>pack_value\<close> and \<^verbatim>\<open>unpack_char\<close>, from the last digit to the first: the buffer, a number in
  base \<open>b\<close>, is multiplied by \<open>m\<close> and the carry is added.
\<close>

fun radix_loop :: "nat \<Rightarrow> nat \<Rightarrow> nat \<Rightarrow> data_chunk \<Rightarrow> data_chunk" where
  "radix_loop m b carry [] = []"
| "radix_loop m b carry (d # ds) =
     (let carry = carry + m * unat d in of_nat (carry mod b) # radix_loop m b (carry div b) ds)"

definition pack_value :: "data_chunk \<Rightarrow> nat \<Rightarrow> data_chunk" where
  "pack_value indexes carry = rev (radix_loop 256 58 carry (rev indexes))"

definition encode_base58 :: "data_chunk \<Rightarrow> string" where
  "encode_base58 unencoded =
     (let leading_zeros = count_leading_zeros unencoded;
          number_nonzero = length unencoded - leading_zeros;
          indexes_size = number_nonzero * 138 div 100 + 1;
          indexes = foldl (\<lambda>indexes v. pack_value indexes (unat v)) (replicate indexes_size 0) (drop leading_zeros unencoded);
          nonzero = search_first_nonzero indexes
      in replicate leading_zeros CHR ''1'' @ map (\<lambda>index. base58_chars ! unat index) nonzero)"

definition count_leading_ones :: "string \<Rightarrow> nat" where
  "count_leading_ones encoded = length (takeWhile (\<lambda>c. c = CHR ''1'') encoded)"

definition unpack_char :: "data_chunk \<Rightarrow> nat \<Rightarrow> data_chunk" where
  "unpack_char data carry = rev (radix_loop 58 256 carry (rev data))"

fun find_char :: "char \<Rightarrow> string \<Rightarrow> nat option" where
  "find_char c [] = None"
| "find_char c (x # xs) = (if x = c then Some 0 else map_option Suc (find_char c xs))"

fun unpack_loop :: "string \<Rightarrow> data_chunk \<Rightarrow> data_chunk option" where
  "unpack_loop [] data = Some data"
| "unpack_loop (c # cs) data =
     (case find_char c base58_chars of None \<Rightarrow> None | Some carry \<Rightarrow> unpack_loop cs (unpack_char data carry))"

definition decode_base58 :: "string \<Rightarrow> data_chunk option" where
  "decode_base58 s =
     (let leading_zeros = count_leading_ones s;
          data_size = length s * 733 div 1000 + 1
      in case unpack_loop (drop leading_zeros s) (replicate data_size 0) of
           None \<Rightarrow> None
         | Some data \<Rightarrow> Some (replicate leading_zeros 0 @ search_first_nonzero data))"

definition decode_base58_private :: "nat \<Rightarrow> string \<Rightarrow> data_chunk option" where
  "decode_base58_private out_size s =
     (case decode_base58 s of
        None \<Rightarrow> None
      | Some buffer \<Rightarrow> if length buffer \<noteq> out_size then None else Some buffer)"

subsection \<open>Numbers in a base\<close>

text \<open>The value of a little-endian list of digits, and of a big-endian one.\<close>

fun radix_val :: "nat \<Rightarrow> data_chunk \<Rightarrow> nat" where
  "radix_val b [] = 0"
| "radix_val b (d # ds) = unat d + b * radix_val b ds"

definition radix_be :: "nat \<Rightarrow> data_chunk \<Rightarrow> nat" where
  "radix_be b ds = radix_val b (rev ds)"

abbreviation digits_below :: "nat \<Rightarrow> data_chunk \<Rightarrow> bool" where
  "digits_below b ds \<equiv> list_all (\<lambda>d. unat d < b) ds"

lemma radix_val_append: "radix_val b (xs @ ys) = radix_val b xs + b ^ length xs * radix_val b ys"
  by (induction xs) (simp_all add: algebra_simps)

lemma radix_be_snoc: "radix_be b (ds @ [d]) = radix_be b ds * b + unat d"
  by (simp add: radix_be_def)

lemma radix_be_zeros [simp]: "radix_be b (replicate n 0 @ ds) = radix_be b ds"
proof -
  have "radix_val b (replicate n 0) = 0" by (induction n) simp_all
  then show ?thesis by (simp add: radix_be_def radix_val_append)
qed

lemma radix_val_bound: "digits_below b ds \<Longrightarrow> radix_val b ds < b ^ length ds"
proof (induction ds)
  case (Cons d ds)
  then have "radix_val b ds + 1 \<le> b ^ length ds" by simp
  then have "b * (radix_val b ds + 1) \<le> b * b ^ length ds" by (rule mult_le_mono2)
  then show ?case using Cons by simp
qed simp

lemma radix_loop_length [simp]: "length (radix_loop m b c ds) = length ds"
  by (induction ds arbitrary: c) (simp_all add: Let_def)

lemma radix_loop_digits: "0 < b \<Longrightarrow> b \<le> 256 \<Longrightarrow> digits_below b (radix_loop m b c ds)"
proof (induction ds arbitrary: c)
  case (Cons d ds)
  have "(c + m * unat d) mod b < b" using Cons.prems by simp
  then have "unat (of_nat ((c + m * unat d) mod b) :: byte) < b"
    using mod_less_eq_dividend [of "(c + m * unat d) mod b" 256]
    by (simp only: unat_of_nat len_of_numeral_defs) (simp add: le_less_trans)
  then show ?case using Cons by (simp add: Let_def)
qed simp

lemma radix_loop_val:
  assumes "0 < b" and "b \<le> 256"
  shows "radix_val b (radix_loop m b c ds) = (m * radix_val b ds + c) mod b ^ length ds"
proof (induction ds arbitrary: c)
  case (Cons d ds)
  let ?t = "c + m * unat d"
  have "?t mod b < b" using assms(1) by simp
  then have "?t mod b < 256" using assms(2) by simp
  then have digit: "unat (of_nat (?t mod b) :: byte) = ?t mod b"
    by (simp add: unat_of_nat del: of_nat_add of_nat_mult)
  have "m * radix_val b (d # ds) + c = b * (m * radix_val b ds) + ?t" by (simp add: algebra_simps)
  then have "(m * radix_val b (d # ds) + c) mod b ^ length (d # ds) = (b * (m * radix_val b ds) + ?t) mod (b * b ^ length ds)"
    by (simp only: length_Cons power_Suc)
  also have "\<dots> = b * ((b * (m * radix_val b ds) + ?t) div b mod b ^ length ds) + (b * (m * radix_val b ds) + ?t) mod b"
    by (rule mod_mult2_eq)
  also have "\<dots> = ?t mod b + b * ((m * radix_val b ds + ?t div b) mod b ^ length ds)"
    using assms(1) by simp
  finally show ?case using Cons digit by (simp add: Let_def)
qed simp

text \<open>One step of a conversion on the big-endian buffer.\<close>

definition radix_step :: "nat \<Rightarrow> nat \<Rightarrow> data_chunk \<Rightarrow> nat \<Rightarrow> data_chunk" where
  "radix_step m b buffer carry = rev (radix_loop m b carry (rev buffer))"

lemma radix_step_facts:
  assumes "0 < b" and "b \<le> 256"
  shows "length (radix_step m b buffer c) = length buffer" and "digits_below b (radix_step m b buffer c)"
    and "radix_be b buffer * m + c < b ^ length buffer \<Longrightarrow> radix_be b (radix_step m b buffer c) = radix_be b buffer * m + c"
proof -
  show "digits_below b (radix_step m b buffer c)"
    using radix_loop_digits [OF assms, of m c "rev buffer"] by (simp add: radix_step_def list_all_iff)
  show "radix_be b buffer * m + c < b ^ length buffer \<Longrightarrow> radix_be b (radix_step m b buffer c) = radix_be b buffer * m + c"
    by (simp add: radix_be_def radix_step_def radix_loop_val [OF assms] mult.commute)
qed (simp add: radix_step_def)

lemma radix_be_prefix: "0 < m \<Longrightarrow> radix_be m ds \<le> radix_be m (ds @ ds')"
proof (induction ds' rule: rev_induct)
  case (snoc d ds')
  have "radix_be m ds \<le> radix_be m (ds @ ds')" by (rule snoc.IH [OF snoc.prems])
  also have "\<dots> \<le> radix_be m (ds @ ds') * m + unat d" using snoc.prems by (simp add: trans_le_add1)
  finally show ?case using radix_be_snoc [of m "ds @ ds'" d] by simp
qed simp

text \<open>A conversion from base \<open>m\<close> to base \<open>b\<close> in a buffer that is large enough keeps the value.\<close>

lemma radix_convert:
  assumes "0 < b" and "b \<le> 256" and "0 < m" and "radix_be m ds < b ^ n"
  defines "buffer \<equiv> foldl (\<lambda>buffer d. radix_step m b buffer (unat d)) (replicate n 0) ds"
  shows "length buffer = n \<and> digits_below b buffer \<and> radix_be b buffer = radix_be m ds"
  unfolding buffer_def using assms(4)
proof (induction ds rule: rev_induct)
  case Nil
  then show ?case using radix_be_zeros [of b n "[]"] assms(1) by (simp add: radix_be_def list_all_iff)
next
  case (snoc d ds)
  let ?buffer = "foldl (\<lambda>buffer d. radix_step m b buffer (unat d)) (replicate n 0) ds"
  have "radix_be m ds < b ^ n" using snoc.prems radix_be_prefix [OF assms(3), of ds "[d]"] by simp
  then have IH: "length ?buffer = n" "radix_be b ?buffer = radix_be m ds" using snoc.IH by auto
  then show ?case
    using radix_step_facts [OF assms(1,2), where m = m and buffer = ?buffer and c = "unat d"] snoc.prems by (simp add: radix_be_snoc)
qed

text \<open>Digits without leading zeros are determined by their value.\<close>

lemma radix_val_injective:
  "length xs = length ys \<Longrightarrow> digits_below b xs \<Longrightarrow> digits_below b ys \<Longrightarrow> radix_val b xs = radix_val b ys \<Longrightarrow> xs = ys"
proof (induction xs ys rule: list_induct2)
  case (Cons x xs y ys)
  have split: "radix_val b (z # zs) mod b = unat z \<and> radix_val b (z # zs) div b = radix_val b zs" if "unat z < b" for z zs
    using that by simp
  have "unat x = unat y" "radix_val b xs = radix_val b ys"
    using split [of x xs] split [of y ys] Cons.prems by (simp_all del: radix_val.simps)
  then show ?case using Cons by (simp add: word_unat_eq_iff)
qed simp

lemma dropWhile_zeros: "dropWhile (\<lambda>b. b = 0) (replicate n 0 @ xs) = dropWhile (\<lambda>b. b = 0) xs"
  by (induction n) simp_all

lemma radix_be_injective:
  assumes "digits_below b xs" and "digits_below b ys" and "radix_be b xs = radix_be b ys" and "0 < b"
  shows "search_first_nonzero xs = search_first_nonzero ys"
proof -
  let ?n = "length xs" and ?k = "length ys"
  let ?xs = "replicate (?k - ?n) 0 @ xs" and ?ys = "replicate (?n - ?k) 0 @ ys"
  have "rev ?xs = rev ?ys"
  proof (rule radix_val_injective [where b = b])
    show "radix_val b (rev ?xs) = radix_val b (rev ?ys)"
      using assms(3) radix_be_zeros [of b "?k - ?n" xs] radix_be_zeros [of b "?n - ?k" ys] unfolding radix_be_def by simp
  qed (use assms in \<open>auto simp: list_all_iff\<close>)
  then have "?xs = ?ys" by (metis rev_rev_ident)
  then show ?thesis unfolding search_first_nonzero_def by (metis dropWhile_zeros)
qed

subsection \<open>The sizes of the buffers\<close>

lemma power_ratio:
  fixes a b :: nat
  assumes "a ^ q \<le> b ^ p" and "p * n \<le> q * k" and "0 < q" and "1 \<le> b"
  shows "a ^ n \<le> b ^ k"
proof -
  have "(a ^ n) ^ q = (a ^ q) ^ n" by (simp add: power_mult [symmetric] mult.commute)
  also have "\<dots> \<le> (b ^ p) ^ n" by (rule power_mono [OF assms(1)]) simp
  also have "\<dots> = b ^ (p * n)" by (simp add: power_mult)
  also have "\<dots> \<le> b ^ (q * k)" using assms(2,4) by (rule power_increasing)
  also have "\<dots> = (b ^ k) ^ q" by (simp add: power_mult [symmetric] mult.commute)
  finally show ?thesis using assms(3) by (metis power_eq_0_iff gr0_conv_Suc power_le_imp_le_base zero_le)
qed

lemma encoded_size: "(256 :: nat) ^ n \<le> 58 ^ (n * 138 div 100 + 1)"
proof (rule power_ratio [where q = 8 and p = 11])
  have "11 * n \<le> 8 * k" if "138 * n < 100 * k" for k using that by linarith
  then show "11 * n \<le> 8 * (n * 138 div 100 + 1)" using dividend_less_div_times [of 100 "n * 138"] by simp
qed simp_all

lemma decoded_size: "(58 :: nat) ^ n \<le> 256 ^ (n * 733 div 1000 + 1)"
proof (rule power_ratio [where q = 71 and p = 52])
  have "52 * n \<le> 71 * k" if "733 * n < 1000 * k" for k using that by linarith
  then show "52 * n \<le> 71 * (n * 733 div 1000 + 1)" using dividend_less_div_times [of 1000 "n * 733"] by simp
qed simp_all

subsection \<open>The alphabet\<close>

lemma base58_chars_facts: "length base58_chars = 58" "distinct base58_chars" "base58_chars ! 0 = CHR ''1''"
  by (simp_all add: base58_chars_def)

lemma find_char_nth: "distinct cs \<Longrightarrow> i < length cs \<Longrightarrow> find_char (cs ! i) cs = Some i"
proof (induction cs arbitrary: i)
  case (Cons c cs)
  then show ?case by (cases i) auto
qed simp

lemma find_char_Some: "find_char c cs = Some i \<Longrightarrow> i < length cs \<and> cs ! i = c"
  by (induction cs arbitrary: i) (auto split: if_splits)

lemma find_char_None: "find_char c cs = None \<longleftrightarrow> c \<notin> set cs"
  by (induction cs) auto

definition base58_index :: "char \<Rightarrow> byte" where
  "base58_index c = of_nat (the (find_char c base58_chars))"

abbreviation base58_char :: "byte \<Rightarrow> char" where
  "base58_char index \<equiv> base58_chars ! unat index"

lemma base58_index_char: "unat d < 58 \<Longrightarrow> base58_index (base58_char d) = d \<and> is_base58_char (base58_char d)"
  using find_char_nth [OF base58_chars_facts(2), of "unat d"] base58_chars_facts(1)
  by (simp add: base58_index_def is_base58_char_def)

lemma base58_char_index:
  assumes "is_base58_char c"
  shows "unat (base58_index c) < 58" "base58_char (base58_index c) = c" "find_char c base58_chars = Some (unat (base58_index c))"
proof -
  obtain i where i: "find_char c base58_chars = Some i"
    using assms find_char_None [of c base58_chars] by (auto simp: is_base58_char_def)
  then have "i < 58" "base58_chars ! i = c" using find_char_Some [OF i] base58_chars_facts(1) by auto
  moreover have "unat (base58_index c) = i" using i \<open>i < 58\<close> by (simp add: base58_index_def unat_of_nat)
  ultimately show "unat (base58_index c) < 58" "base58_char (base58_index c) = c"
    "find_char c base58_chars = Some (unat (base58_index c))" using i by simp_all
qed

lemma base58_index_one: "base58_index c = 0 \<longleftrightarrow> c = CHR ''1''" if "is_base58_char c"
  using base58_char_index [OF that] base58_chars_facts(3) base58_index_char [of 0] by auto

lemma unpack_loop_fold:
  "is_base58 cs \<Longrightarrow>
   unpack_loop cs data = Some (foldl (\<lambda>buffer d. radix_step 58 256 buffer (unat d)) data (map base58_index cs))"
  by (induction cs arbitrary: data)
    (simp_all add: is_base58_def base58_char_index unpack_char_def radix_step_def)

subsection \<open>Both conversions\<close>

definition base58_digits :: "data_chunk \<Rightarrow> data_chunk" where
  "base58_digits data =
     search_first_nonzero (foldl (\<lambda>indexes v. pack_value indexes (unat v)) (replicate (length data * 138 div 100 + 1) 0) data)"

lemma search_first_nonzero_props:
  "digits_below b ds \<Longrightarrow> digits_below b (search_first_nonzero ds)" "radix_be b (search_first_nonzero ds) = radix_be b ds"
  "length (search_first_nonzero ds) \<le> length ds" "search_first_nonzero (search_first_nonzero ds) = search_first_nonzero ds"
proof -
  have "ds = replicate (length (takeWhile (\<lambda>b. b = 0) ds)) 0 @ search_first_nonzero ds"
    unfolding search_first_nonzero_def
    by (metis (mono_tags, lifting) replicate_length_same set_takeWhileD takeWhile_dropWhile_id)
  then show "radix_be b (search_first_nonzero ds) = radix_be b ds" by (metis radix_be_zeros)
  show "digits_below b ds \<Longrightarrow> digits_below b (search_first_nonzero ds)"
    by (auto simp: search_first_nonzero_def list_all_iff dest: set_dropWhileD)
qed (simp_all add: search_first_nonzero_def length_dropWhile_le)

lemma bytes_below: "digits_below 256 ds"
  by (simp add: list_all_iff unat_byte_less)

lemma base58_digits_facts:
  "digits_below 58 (base58_digits data)" "radix_be 58 (base58_digits data) = radix_be 256 data"
proof -
  let ?n = "length data * 138 div 100 + 1"
  have "radix_be 256 data < 58 ^ ?n"
    using radix_val_bound [of 256 "rev data"] bytes_below [of "rev data"] encoded_size [of "length data"]
    by (simp add: radix_be_def)
  moreover have "pack_value = radix_step 256 58" by (simp add: fun_eq_iff pack_value_def radix_step_def)
  ultimately show "digits_below 58 (base58_digits data)" "radix_be 58 (base58_digits data) = radix_be 256 data"
    using radix_convert [of 58 256 data ?n] search_first_nonzero_props by (simp_all add: base58_digits_def)
qed

definition base58_bytes :: "nat \<Rightarrow> data_chunk \<Rightarrow> data_chunk" where
  "base58_bytes n ds =
     search_first_nonzero (foldl (\<lambda>buffer d. radix_step 58 256 buffer (unat d)) (replicate (n * 733 div 1000 + 1) 0) ds)"

lemma base58_bytes_facts:
  assumes "digits_below 58 ds" and "length ds \<le> n"
  shows "radix_be 256 (base58_bytes n ds) = radix_be 58 ds"
proof -
  have "radix_be 58 ds < 58 ^ length ds" using radix_val_bound [of 58 "rev ds"] assms(1) by (simp add: radix_be_def)
  also have "\<dots> \<le> 58 ^ n" using assms(2) by (rule power_increasing) simp
  also have "\<dots> \<le> 256 ^ (n * 733 div 1000 + 1)" by (rule decoded_size)
  finally show ?thesis
    using radix_convert [of 256 58 ds "n * 733 div 1000 + 1"] search_first_nonzero_props(2) by (simp add: base58_bytes_def)
qed

lemma encode_base58_alt:
  "encode_base58 data = replicate (count_leading_zeros data) CHR ''1'' @ map base58_char (base58_digits (search_first_nonzero data))"
proof -
  have "drop (count_leading_zeros data) data = search_first_nonzero data"
    by (simp add: count_leading_zeros_def search_first_nonzero_def dropWhile_eq_drop)
  moreover have "length data - count_leading_zeros data = length (search_first_nonzero data)"
    using calculation by (metis length_drop)
  ultimately show ?thesis by (simp add: encode_base58_def base58_digits_def Let_def)
qed

lemma decode_base58_alt:
  assumes "is_base58 s"
  shows "decode_base58 s = Some (replicate (count_leading_ones s) 0 @
    base58_bytes (length s) (map base58_index (dropWhile (\<lambda>c. c = CHR ''1'') s)))"
proof -
  have "drop (count_leading_ones s) s = dropWhile (\<lambda>c. c = CHR ''1'') s"
    by (simp add: count_leading_ones_def dropWhile_eq_drop)
  moreover have "is_base58 (dropWhile (\<lambda>c. c = CHR ''1'') s)"
    using assms by (auto simp: is_base58_def list_all_iff dest: set_dropWhileD)
  ultimately show ?thesis by (simp add: decode_base58_def Let_def unpack_loop_fold base58_bytes_def)
qed

lemma base58_digits_no_leading: "search_first_nonzero (base58_digits data) = base58_digits data"
  by (simp add: base58_digits_def search_first_nonzero_props(4))

text \<open>Leading ones of the text are the leading zeros of the digits.\<close>

lemma encoded_ones:
  assumes "digits_below 58 ds" and "search_first_nonzero ds = ds"
  shows "count_leading_ones (replicate z CHR ''1'' @ map base58_char ds) = z"
    and "dropWhile (\<lambda>c. c = CHR ''1'') (replicate z CHR ''1'' @ map base58_char ds) = map base58_char ds"
proof -
  have "takeWhile (\<lambda>c. c = CHR ''1'') (map base58_char ds) = [] \<and> dropWhile (\<lambda>c. c = CHR ''1'') (map base58_char ds) = map base58_char ds"
  proof (cases ds)
    case (Cons d ds')
    then have d: "d \<noteq> 0" using assms(2) hd_dropWhile [of "\<lambda>b. b = 0" ds] by (auto simp: search_first_nonzero_def split: if_splits)
    have "base58_char d \<noteq> CHR ''1''"
      using d assms(1) Cons base58_index_char [of d] base58_index_one [of "base58_char d"] by auto
    then show ?thesis using Cons by simp
  qed simp
  moreover have "takeWhile P (replicate n x @ xs) = replicate n x @ takeWhile P xs"
    "dropWhile P (replicate n x @ xs) = dropWhile P xs" if "P x" for P n and x :: char and xs
    using that by (induction n) simp_all
  ultimately show "count_leading_ones (replicate z CHR ''1'' @ map base58_char ds) = z"
    and "dropWhile (\<lambda>c. c = CHR ''1'') (replicate z CHR ''1'' @ map base58_char ds) = map base58_char ds"
    by (simp_all add: count_leading_ones_def)
qed

lemma encode_base58_valid: "is_base58 (encode_base58 data)"
  using base58_digits_facts(1) [of "search_first_nonzero data"] base58_index_char base58_index_char [of 0] base58_chars_facts(3)
  by (auto simp: is_base58_def encode_base58_alt list_all_iff)

lemma leading_zeros_split: "data = replicate (count_leading_zeros data) 0 @ search_first_nonzero data"
  unfolding search_first_nonzero_def count_leading_zeros_def
  by (metis (mono_tags, lifting) replicate_length_same set_takeWhileD takeWhile_dropWhile_id)

lemma decode_encode_base58: "decode_base58 (encode_base58 data) = Some data"
proof -
  let ?d = "search_first_nonzero data" and ?s = "encode_base58 data"
  let ?ds = "base58_digits ?d"
  have inverse: "map (base58_index \<circ> base58_char) ds = ds" if "digits_below 58 ds" for ds
    using that base58_index_char by (induction ds) simp_all
  have ones: "count_leading_ones ?s = count_leading_zeros data" "dropWhile (\<lambda>c. c = CHR ''1'') ?s = map base58_char ?ds"
    unfolding encode_base58_alt by (rule encoded_ones [OF base58_digits_facts(1) base58_digits_no_leading])+
  have len: "length ?ds \<le> length ?s" by (simp add: encode_base58_alt)
  have "base58_bytes (length ?s) ?ds = ?d"
    using radix_be_injective [of 256 "base58_bytes (length ?s) ?ds" ?d] bytes_below
      base58_bytes_facts [OF base58_digits_facts(1) len] base58_digits_facts(2) [of ?d] search_first_nonzero_props(4)
    by (simp add: base58_bytes_def)
  then have "decode_base58 ?s = Some (replicate (count_leading_zeros data) 0 @ ?d)"
    using decode_base58_alt [OF encode_base58_valid, of data] inverse [OF base58_digits_facts(1)] by (simp add: ones)
  then show ?thesis by (simp only: leading_zeros_split [symmetric])
qed

lemma leading_zeros_unique:
  assumes "search_first_nonzero ds = ds"
  shows "count_leading_zeros (replicate z 0 @ ds) = z" "search_first_nonzero (replicate z 0 @ ds) = ds"
proof -
  have "takeWhile (\<lambda>b. b = 0) ds = []"
    using assms by (metis append_self_conv2 search_first_nonzero_def takeWhile_dropWhile_id)
  then show "count_leading_zeros (replicate z 0 @ ds) = z" by (induction z) (simp_all add: count_leading_zeros_def)
  show "search_first_nonzero (replicate z 0 @ ds) = ds"
    using assms by (simp add: search_first_nonzero_def dropWhile_zeros)
qed

lemma takeWhile_replicate: "takeWhile (\<lambda>y. y = x) xs = replicate (length (takeWhile (\<lambda>y. y = x) xs)) x"
  by (induction xs) simp_all

lemma leading_ones_split: "replicate (count_leading_ones s) CHR ''1'' @ dropWhile (\<lambda>c. c = CHR ''1'') s = s"
  unfolding count_leading_ones_def by (simp only: takeWhile_replicate [symmetric] takeWhile_dropWhile_id)

lemma encode_decode_base58:
  assumes "is_base58 s"
  shows "\<exists>data. decode_base58 s = Some data \<and> encode_base58 data = s"
proof -
  let ?t = "dropWhile (\<lambda>c. c = CHR ''1'') s"
  let ?ds = "map base58_index ?t"
  let ?bytes = "base58_bytes (length s) ?ds"
  have t: "is_base58_char c" if "c \<in> set ?t" for c
    using assms that by (auto simp: is_base58_def list_all_iff dest: set_dropWhileD)
  have below: "digits_below 58 ?ds" using base58_char_index(1) t by (auto simp: list_all_iff)
  have "search_first_nonzero ?ds = ?ds"
  proof (cases ?t)
    case (Cons c t')
    then have "c \<noteq> CHR ''1''" using hd_dropWhile [of "\<lambda>c. c = CHR ''1''" s] by simp
    then show ?thesis using Cons t [of c] base58_index_one [of c] by (simp add: search_first_nonzero_def)
  next
    case Nil
    show ?thesis unfolding Nil by (simp add: search_first_nonzero_def)
  qed
  moreover have "radix_be 58 (base58_digits ?bytes) = radix_be 58 ?ds"
    using base58_bytes_facts [OF below, of "length s"] base58_digits_facts(2) [of ?bytes] by (simp add: length_dropWhile_le)
  ultimately have "base58_digits ?bytes = ?ds"
    using radix_be_injective [OF base58_digits_facts(1) below, of ?bytes] base58_digits_no_leading [of ?bytes] by simp
  moreover have "map (base58_char \<circ> base58_index) ?t = ?t" using base58_char_index(2) t by (intro map_idI) simp
  moreover have "search_first_nonzero ?bytes = ?bytes" by (simp add: base58_bytes_def search_first_nonzero_props(4))
  ultimately have "encode_base58 (replicate (count_leading_ones s) 0 @ ?bytes) = s"
    unfolding encode_base58_alt by (simp add: leading_zeros_unique leading_ones_split)
  then show ?thesis using decode_base58_alt [OF assms] by blast
qed

lemma unpack_loop_valid: "unpack_loop cs data \<noteq> None \<Longrightarrow> is_base58 cs"
proof (induction cs arbitrary: data)
  case (Cons c cs)
  then obtain i where i: "find_char c base58_chars = Some i" "unpack_loop cs (unpack_char data i) \<noteq> None"
    by (auto split: option.splits)
  then have "c \<in> set base58_chars" using find_char_None [of c base58_chars] by simp
  then show ?case using Cons.IH [OF i(2)] by (simp add: is_base58_def is_base58_char_def)
qed (simp add: is_base58_def)

lemma decode_base58_valid:
  assumes "decode_base58 s \<noteq> None"
  shows "is_base58 s"
proof -
  have "drop (count_leading_ones s) s = dropWhile (\<lambda>c. c = CHR ''1'') s"
    by (simp add: count_leading_ones_def dropWhile_eq_drop)
  then have "is_base58 (dropWhile (\<lambda>c. c = CHR ''1'') s)"
    using assms unpack_loop_valid by (auto simp: decode_base58_def Let_def split: option.splits)
  moreover have "is_base58_char CHR ''1''" by (simp add: is_base58_char_def base58_chars_def)
  ultimately have "is_base58 (replicate (count_leading_ones s) CHR ''1'' @ dropWhile (\<lambda>c. c = CHR ''1'') s)"
    by (auto simp: is_base58_def list_all_iff simp del: set_replicate_conv_if)
  then show ?thesis by (simp only: leading_ones_split)
qed

text \<open>
  C21. decode_base58 and encode_base58 are inverse to each other: a text decodes to some
  bytes exactly when it is the encoding of them, and every text over the alphabet decodes,
  so the estimated sizes of the two work arrays always suffice.
\<close>

theorem base58_bijection:
  "(decode_base58 s = Some data \<longleftrightarrow> s = encode_base58 data) \<and> (decode_base58 s \<noteq> None \<longleftrightarrow> is_base58 s)"
  using decode_encode_base58 encode_decode_base58 decode_base58_valid by (metis option.distinct(1) option.inject)

end
