(* ===== verification/Keys.thy ===== *)
theory Keys
  imports Checksum Base58 Script
begin

unbundle bit_operations_syntax

text \<open>
  Elliptic curve keys: \<^verbatim>\<open>src/math/elliptic_curve.cpp\<close> (conversions and sums), \<^verbatim>\<open>src/wallet/ec_public.cpp\<close> and
  \<^verbatim>\<open>src/wallet/ec_private.cpp\<close>.  The library secp256k1 is a parameter: a record of its functions, over a type of its
  internal points.  What the code relies on of its documented behaviour is \<open>curve_laws\<close>.
\<close>

record 'k secp256k1 =
  ec_pubkey_parse :: "data_chunk \<Rightarrow> 'k option"
  ec_pubkey_serialize :: "bool \<Rightarrow> 'k \<Rightarrow> data_chunk"
  ec_pubkey_create :: "data_chunk \<Rightarrow> 'k option"
  ec_pubkey_tweak_add :: "'k \<Rightarrow> data_chunk \<Rightarrow> 'k option"
  ec_pubkey_tweak_mul :: "'k \<Rightarrow> data_chunk \<Rightarrow> 'k option"
  ec_privkey_tweak_add :: "data_chunk \<Rightarrow> data_chunk \<Rightarrow> data_chunk option"
  ec_privkey_tweak_mul :: "data_chunk \<Rightarrow> data_chunk \<Rightarrow> data_chunk option"
  ec_seckey_verify :: "data_chunk \<Rightarrow> bool"

type_synonym ec_secret = data_chunk
type_synonym ec_point = data_chunk

abbreviation (input) ec_secret_size :: nat where "ec_secret_size \<equiv> 32"
abbreviation (input) ec_compressed_size :: nat where "ec_compressed_size \<equiv> 33"
abbreviation (input) ec_uncompressed_size :: nat where "ec_uncompressed_size \<equiv> 65"

subsection \<open>Points and secrets\<close>

text \<open>The templates, over the size of the array.\<close>

definition serialize_point :: "'k secp256k1 \<Rightarrow> nat \<Rightarrow> 'k \<Rightarrow> ec_point option" where
  "serialize_point C n pubkey =
     (let out = ec_pubkey_serialize C (n = ec_compressed_size) pubkey in if length out = n then Some out else None)"

definition ec_add :: "'k secp256k1 \<Rightarrow> ec_point \<Rightarrow> ec_secret \<Rightarrow> ec_point option" where
  "ec_add C point secret =
     (case ec_pubkey_parse C point of
        None \<Rightarrow> None
      | Some pubkey \<Rightarrow>
          (case ec_pubkey_tweak_add C pubkey secret of None \<Rightarrow> None | Some pubkey \<Rightarrow> serialize_point C (length point) pubkey))"

definition ec_multiply :: "'k secp256k1 \<Rightarrow> ec_point \<Rightarrow> ec_secret \<Rightarrow> ec_point option" where
  "ec_multiply C point secret =
     (case ec_pubkey_parse C point of
        None \<Rightarrow> None
      | Some pubkey \<Rightarrow>
          (case ec_pubkey_tweak_mul C pubkey secret of None \<Rightarrow> None | Some pubkey \<Rightarrow> serialize_point C (length point) pubkey))"

definition ec_add_secret :: "'k secp256k1 \<Rightarrow> ec_secret \<Rightarrow> ec_secret \<Rightarrow> ec_secret option" where
  "ec_add_secret C left right = ec_privkey_tweak_add C left right"

definition ec_multiply_secret :: "'k secp256k1 \<Rightarrow> ec_secret \<Rightarrow> ec_secret \<Rightarrow> ec_secret option" where
  "ec_multiply_secret C left right = ec_privkey_tweak_mul C left right"

definition compress :: "'k secp256k1 \<Rightarrow> ec_point \<Rightarrow> ec_point option" where
  "compress C point =
     (case ec_pubkey_parse C point of None \<Rightarrow> None | Some pubkey \<Rightarrow> serialize_point C ec_compressed_size pubkey)"

definition decompress :: "'k secp256k1 \<Rightarrow> ec_point \<Rightarrow> ec_point option" where
  "decompress C point =
     (case ec_pubkey_parse C point of None \<Rightarrow> None | Some pubkey \<Rightarrow> serialize_point C ec_uncompressed_size pubkey)"

definition secret_to_public :: "'k secp256k1 \<Rightarrow> nat \<Rightarrow> ec_secret \<Rightarrow> ec_point option" where
  "secret_to_public C n secret =
     (case ec_pubkey_create C secret of None \<Rightarrow> None | Some pubkey \<Rightarrow> serialize_point C n pubkey)"

definition verify_secret :: "'k secp256k1 \<Rightarrow> ec_secret \<Rightarrow> bool" where
  "verify_secret C secret = ec_seckey_verify C secret"

definition verify_point :: "'k secp256k1 \<Rightarrow> ec_point \<Rightarrow> bool" where
  "verify_point C point \<longleftrightarrow> ec_pubkey_parse C point \<noteq> None"

definition is_even_key :: "ec_point \<Rightarrow> bool" where
  "is_even_key point \<longleftrightarrow> hd point = 2"

text \<open>
  The documented behaviour the proofs use: the serialized forms have their sizes and parse to the point they are
  serialized from, an uncompressed form is unique, and adding a tweak to a secret adds it to the point.
\<close>

definition curve_laws :: "'k secp256k1 \<Rightarrow> bool" where
  "curve_laws C \<longleftrightarrow>
     (\<forall>k. length (ec_pubkey_serialize C True k) = 33 \<and> length (ec_pubkey_serialize C False k) = 65) \<and>
     (\<forall>c k. ec_pubkey_parse C (ec_pubkey_serialize C c k) = Some k) \<and>
     (\<forall>k. is_compressed_key (ec_pubkey_serialize C True k) \<and> is_uncompressed_key (ec_pubkey_serialize C False k)) \<and>
     (\<forall>p k. is_uncompressed_key p \<longrightarrow> ec_pubkey_parse C p = Some k \<longrightarrow> ec_pubkey_serialize C False k = p) \<and>
     (\<forall>s k t. ec_pubkey_create C s = Some k \<longrightarrow>
        ec_pubkey_tweak_add C k t = (case ec_privkey_tweak_add C s t of None \<Rightarrow> None | Some s' \<Rightarrow> ec_pubkey_create C s')) \<and>
     (\<forall>s t s'. length s = 32 \<longrightarrow> ec_privkey_tweak_add C s t = Some s' \<longrightarrow> length s' = 32)"

text \<open>An instance: points are numbers of 256 bits, and the point of a secret is its number.\<close>

definition example_secp :: "256 word secp256k1" where
  "example_secp =
     \<lparr>ec_pubkey_parse = (\<lambda>p. if length p = 33 \<and> hd p = 2 then Some (of_nat (le_val (tl p)))
        else if is_uncompressed_key p \<and> drop 33 p = replicate 32 0 then Some (of_nat (le_val (take 32 (tl p)))) else None),
      ec_pubkey_serialize = (\<lambda>c k. if c then 2 # to_little_endian k else 4 # to_little_endian k @ replicate 32 0),
      ec_pubkey_create = (\<lambda>s. if length s = 32 then Some (of_nat (le_val s)) else None),
      ec_pubkey_tweak_add = (\<lambda>k t. Some (k + of_nat (le_val t))),
      ec_pubkey_tweak_mul = (\<lambda>k t. Some (k * of_nat (le_val t))),
      ec_privkey_tweak_add = (\<lambda>s t. Some (to_little_endian (of_nat (le_val s) + of_nat (le_val t) :: 256 word))),
      ec_privkey_tweak_mul = (\<lambda>s t. Some (to_little_endian (of_nat (le_val s) * of_nat (le_val t) :: 256 word))),
      ec_seckey_verify = (\<lambda>s. True)\<rparr>"

lemma le_val_256:
  "length (to_little_endian (k :: 256 word)) = 32" "of_nat (le_val (to_little_endian k)) = k"
  "length bs = 32 \<Longrightarrow> to_little_endian (of_nat (le_val bs) :: 256 word) = bs"
proof -
  show len: "length (to_little_endian k) = 32" for k :: "256 word" by (simp add: to_little_endian_def)
  show bytes: "to_little_endian (of_nat (le_val bs) :: 256 word) = bs" if "length bs = 32" for bs
    using to_little_endian_of_le_val [where 'a = 256, of bs] that by (simp add: to_little_endian_def)
  have inverse: "from_little_endian 32 0 0 (to_little_endian v) = v" for v :: "256 word"
    using from_little_endian_loop [of 32 0 v "[]"] by (simp add: to_little_endian_def take_bit_full_word)
  show "of_nat (le_val (to_little_endian k)) = k"
    using bytes [OF len, of k] inverse by metis
qed

lemma example_secp_laws: "curve_laws example_secp"
proof -
  have "4 # take 32 (tl p) @ replicate 32 0 = p" if "drop 33 p = replicate 32 0" "length p = 65" "hd p = 4" for p :: data_chunk
  proof -
    have "drop 32 (drop 1 p) = drop 33 p" by (simp only: drop_drop) simp
    moreover have "drop 1 p = tl p" by (simp add: drop_Suc)
    ultimately have "drop 32 (tl p) = replicate 32 0" using that(1) by (simp only:)
    then have "take 32 (tl p) @ replicate 32 0 = tl p" by (metis append_take_drop_id)
    then show ?thesis using that(2,3) by (cases p) auto
  qed
  then show ?thesis
    unfolding curve_laws_def by (auto simp: example_secp_def le_val_256 is_compressed_key_def is_uncompressed_key_def)
qed

subsection \<open>Public keys\<close>

record ec_public =
  pub_valid :: bool
  pub_compress :: bool
  pub_point :: ec_point

definition ec_public_null :: ec_public where
  "ec_public_null = \<lparr>pub_valid = False, pub_compress = True, pub_point = replicate 33 0\<rparr>"

definition ec_public_of_point :: "ec_point \<Rightarrow> bool \<Rightarrow> ec_public" where
  "ec_public_of_point point compressed = \<lparr>pub_valid = True, pub_compress = compressed, pub_point = point\<rparr>"

definition ec_public_from_data :: "'k secp256k1 \<Rightarrow> data_chunk \<Rightarrow> ec_public" where
  "ec_public_from_data C decoded =
     (if \<not> is_public_key decoded then ec_public_null
      else if length decoded = ec_compressed_size then ec_public_of_point decoded True
      else case compress C decoded of Some compressed \<Rightarrow> ec_public_of_point compressed False | None \<Rightarrow> ec_public_null)"

definition ec_public_from_point :: "'k secp256k1 \<Rightarrow> ec_point \<Rightarrow> bool \<Rightarrow> ec_public" where
  "ec_public_from_point C point compressed =
     (if \<not> is_public_key point then ec_public_null
      else case compress C point of Some p \<Rightarrow> ec_public_of_point p compressed | None \<Rightarrow> ec_public_null)"

definition ec_public_from_string :: "'k secp256k1 \<Rightarrow> string \<Rightarrow> ec_public" where
  "ec_public_from_string C base16 =
     (case decode_base16 base16 of None \<Rightarrow> ec_public_null | Some decoded \<Rightarrow> ec_public_from_data C decoded)"

definition to_uncompressed :: "'k secp256k1 \<Rightarrow> ec_public \<Rightarrow> ec_point option" where
  "to_uncompressed C key = (if \<not> pub_valid key then None else decompress C (pub_point key))"

definition ec_public_encoded :: "'k secp256k1 \<Rightarrow> ec_public \<Rightarrow> string" where
  "ec_public_encoded C key =
     (if pub_compress key then encode_base16 (pub_point key)
      else encode_base16 (case to_uncompressed C key of Some p \<Rightarrow> p | None \<Rightarrow> replicate 65 0))"

definition ec_public_to_data :: "'k secp256k1 \<Rightarrow> ec_public \<Rightarrow> data_chunk option" where
  "ec_public_to_data C key =
     (if \<not> pub_valid key then None
      else if pub_compress key then Some (pub_point key)
      else to_uncompressed C key)"

subsection \<open>Private keys\<close>

record ec_private =
  sec_valid :: bool
  sec_compress :: bool
  sec_version :: uint16
  sec_secret :: ec_secret

abbreviation (input) compressed_sentinel :: byte where "compressed_sentinel \<equiv> 1"
abbreviation (input) wif_uncompressed_size :: nat where "wif_uncompressed_size \<equiv> 37"
abbreviation (input) wif_compressed_size :: nat where "wif_compressed_size \<equiv> 38"

definition to_address_prefix :: "uint16 \<Rightarrow> byte" where
  "to_address_prefix v = ucast (v AND 0x00FF)"

definition to_wif_prefix :: "uint16 \<Rightarrow> byte" where
  "to_wif_prefix v = ucast (drop_bit 8 v)"

definition to_version :: "byte \<Rightarrow> byte \<Rightarrow> uint16" where
  "to_version address wif = push_bit 8 (ucast wif) OR ucast address"

definition ec_private_null :: ec_private where
  "ec_private_null = \<lparr>sec_valid = False, sec_compress = True, sec_version = 0, sec_secret = replicate 32 0\<rparr>"

definition ec_private_of_secret :: "ec_secret \<Rightarrow> uint16 \<Rightarrow> bool \<Rightarrow> ec_private" where
  "ec_private_of_secret secret v compressed =
     \<lparr>sec_valid = True, sec_compress = compressed, sec_version = v, sec_secret = secret\<rparr>"

definition is_wif :: "hash_functions \<Rightarrow> data_chunk \<Rightarrow> bool" where
  "is_wif H decoded =
     (let n = length decoded in
      if n \<noteq> wif_compressed_size \<and> n \<noteq> wif_uncompressed_size then False
      else if \<not> verify_checksum H decoded then False
      else n = wif_uncompressed_size \<or> decoded ! (1 + ec_secret_size) = compressed_sentinel)"

definition ec_private_from_wif :: "hash_functions \<Rightarrow> data_chunk \<Rightarrow> byte \<Rightarrow> bool \<Rightarrow> ec_private" where
  "ec_private_from_wif H wif address_version compressed =
     (if \<not> is_wif H wif then ec_private_null
      else ec_private_of_secret (take ec_secret_size (drop 1 wif)) (to_version address_version (hd wif)) compressed)"

definition ec_private_from_string :: "hash_functions \<Rightarrow> string \<Rightarrow> byte \<Rightarrow> ec_private" where
  "ec_private_from_string H wif address_version =
     (case decode_base58 wif of
        None \<Rightarrow> ec_private_null
      | Some decoded \<Rightarrow>
          if \<not> is_wif H decoded then ec_private_null
          else ec_private_from_wif H decoded address_version (length decoded = wif_compressed_size))"

text \<open>The array that \<^verbatim>\<open>build_checked_array\<close> fills; its two writes cover it.\<close>

definition checked_array :: "hash_functions \<Rightarrow> nat \<Rightarrow> data_chunk list \<Rightarrow> data_chunk" where
  "checked_array H n slices =
     (case build_checked_array H (replicate n 0) slices of Some out \<Rightarrow> out | None \<Rightarrow> replicate n 0)"

definition ec_private_encoded :: "hash_functions \<Rightarrow> ec_private \<Rightarrow> string" where
  "ec_private_encoded H key =
     (if sec_compress key
      then encode_base58 (checked_array H wif_compressed_size [[to_wif_prefix (sec_version key)], sec_secret key, [compressed_sentinel]])
      else encode_base58 (checked_array H wif_uncompressed_size [[to_wif_prefix (sec_version key)], sec_secret key]))"

definition ec_private_to_public :: "'k secp256k1 \<Rightarrow> ec_private \<Rightarrow> ec_public" where
  "ec_private_to_public C key =
     (if \<not> sec_valid key then ec_public_null
      else case secret_to_public C ec_compressed_size (sec_secret key) of
             Some point \<Rightarrow> ec_public_of_point point (sec_compress key)
           | None \<Rightarrow> ec_public_null)"

definition ec_public_from_private :: "'k secp256k1 \<Rightarrow> ec_private \<Rightarrow> ec_public" where
  "ec_public_from_private C secret = (if \<not> sec_valid secret then ec_public_null else ec_private_to_public C secret)"

subsection \<open>Public keys as data\<close>

text \<open>
  A key accepted from bytes is written as the same bytes; the curve is consulted only for the uncompressed form, so a
  compressed form is kept as it is, on the curve or not.
\<close>

lemma ec_public_data:
  assumes "curve_laws C" and "pub_valid (ec_public_from_data C d)"
  shows "ec_public_to_data C (ec_public_from_data C d) = Some d"
proof (cases "length d = 33")
  case True
  then show ?thesis using assms(2) by (auto simp: ec_public_from_data_def ec_public_null_def ec_public_to_data_def ec_public_of_point_def)
next
  case False
  then have key: "is_uncompressed_key d" "is_public_key d"
    using assms(2) by (auto simp: ec_public_from_data_def ec_public_null_def is_public_key_def is_compressed_key_def split: if_splits)
  then obtain p where p: "compress C d = Some p" "ec_public_from_data C d = ec_public_of_point p False"
    using assms(2) False by (auto simp: ec_public_from_data_def ec_public_null_def split: option.splits)
  then obtain k where k: "ec_pubkey_parse C d = Some k" "p = ec_pubkey_serialize C True k"
    by (auto simp: compress_def serialize_point_def Let_def split: option.splits if_splits)
  have "ec_pubkey_serialize C False k = d" using assms(1) key(1) k(1) by (auto simp: curve_laws_def)
  then show ?thesis
    using assms(1) key(1) unfolding p(2) k(2)
    by (simp add: ec_public_to_data_def ec_public_of_point_def to_uncompressed_def decompress_def serialize_point_def curve_laws_def is_uncompressed_key_def)
qed

subsection \<open>Wallet import format\<close>

lemma checked_array_exact: "length (concat slices) + 4 = n \<Longrightarrow> checked_array H n slices = append_checksum H (concat slices)"
  by (simp add: checked_array_def build_checked_array_def build_array_def insert_checksum_length [of _ "length (concat slices)"])

lemma version_halves: "to_version (to_address_prefix v) (to_wif_prefix v) = v" "to_wif_prefix (to_version a w) = w"
  "to_address_prefix (to_version a w) = a"
proof -
  have low: "x AND 0x00FF = take_bit 8 x" for x :: uint16 by (simp add: take_bit_eq_mask mask_numeral)
  show "to_version (to_address_prefix v) (to_wif_prefix v) = v"
    unfolding to_version_def to_address_prefix_def to_wif_prefix_def low by (rule bit_word_eqI) (auto simp: bit_simps)
  show "to_wif_prefix (to_version a w) = w"
    unfolding to_version_def to_wif_prefix_def by (rule bit_word_eqI) (auto simp: bit_simps dest: bit_imp_le_length)
  show "to_address_prefix (to_version a w) = a"
    unfolding to_version_def to_address_prefix_def low by (rule bit_word_eqI) (auto simp: bit_simps dest: bit_imp_le_length)
qed

lemma append_checksum_facts: "length (append_checksum H body) = length body + 4" "verify_checksum H (append_checksum H body)"
  using verify_checksum_iff by (auto simp: append_checksum_def)

text \<open>
  A private key survives its text form: the secret, the compression flag and the version of the format are read
  back, and the version of the address is the one given to the reader.
\<close>

theorem wif_round_trip:
  assumes "sec_valid key" and "length (sec_secret key) = 32"
  shows "ec_private_from_string H (ec_private_encoded H key) address_version =
    key\<lparr>sec_version := to_version address_version (to_wif_prefix (sec_version key))\<rparr>"
proof -
  let ?p = "to_wif_prefix (sec_version key)"
  let ?body = "if sec_compress key then ?p # sec_secret key @ [1] else ?p # sec_secret key"
  let ?wif = "append_checksum H ?body"
  have encoded: "ec_private_encoded H key = encode_base58 ?wif"
    using assms(2) checked_array_exact [of "[[?p], sec_secret key, [1]]" 38 H] checked_array_exact [of "[[?p], sec_secret key]" 37 H]
    by (simp add: ec_private_encoded_def)
  have len: "length ?wif = (if sec_compress key then 38 else 37)" using assms(2) by (simp add: append_checksum_facts)
  have front: "hd ?wif = ?p" "take 32 (drop 1 ?wif) = sec_secret key" using assms(2) by (auto simp: append_checksum_def)
  have "sec_compress key \<Longrightarrow> ?wif ! 33 = 1" using assms(2) by (simp add: append_checksum_def nth_append)
  then have "is_wif H ?wif" using len append_checksum_facts(2) [of H ?body] by (simp add: is_wif_def Let_def)
  then show ?thesis
    using assms(1) decode_encode_base58 [of ?wif] len front
    by (simp only: ec_private_from_string_def encoded option.case ec_private_from_wif_def ec_private_of_secret_def)
      (cases key, simp)
qed

theorem wif_round_trip_witness:
  "ec_private_from_string example_digests
     (ec_private_encoded example_digests \<lparr>sec_valid = True, sec_compress = True, sec_version = 0x8000, sec_secret = replicate 32 7\<rparr>) 0 =
   \<lparr>sec_valid = True, sec_compress = True, sec_version = 0x8000, sec_secret = replicate 32 7\<rparr>"
  using wif_round_trip [of "\<lparr>sec_valid = True, sec_compress = True, sec_version = 0x8000, sec_secret = replicate 32 7\<rparr>" example_digests 0]
  by (simp add: to_version_def to_wif_prefix_def)

end
