(* ===== verification/Hd_Keys.thy ===== *)
theory Hd_Keys
  imports Keys
begin

unbundle bit_operations_syntax

text \<open>
  Extended keys: \<^verbatim>\<open>src/wallet/hd_public.cpp\<close> and \<^verbatim>\<open>src/wallet/hd_private.cpp\<close>.  A private key is a public key with a
  secret.  The keyed hash \<^verbatim>\<open>hmac_sha512_hash\<close> is vendored code, the parameter \<open>hmac\<close> (data, then key).
\<close>

record hd_lineage =
  lin_prefixes :: uint64
  lin_depth :: byte
  lin_parent_fingerprint :: uint32
  lin_child_number :: uint32

record hd_public =
  hd_valid :: bool
  hd_chain :: data_chunk
  hd_lineage :: hd_lineage
  hd_point :: ec_point

record hd_private = hd_public +
  hd_secret :: ec_secret

abbreviation (input) hd_chain_code_size :: nat where "hd_chain_code_size \<equiv> 32"
abbreviation (input) hd_key_size :: nat where "hd_key_size \<equiv> 82"
abbreviation (input) hd_first_hardened_key :: uint32 where "hd_first_hardened_key \<equiv> 0x80000000"

definition public_prefix :: "uint64 \<Rightarrow> uint32" where
  "public_prefix prefixes = ucast (prefixes AND 0x00000000FFFFFFFF)"

definition private_prefix :: "uint64 \<Rightarrow> uint32" where
  "private_prefix prefixes = ucast (drop_bit 32 prefixes)"

definition to_prefixes :: "uint32 \<Rightarrow> uint32 \<Rightarrow> uint64" where
  "to_prefixes priv publ = push_bit 32 (ucast priv) OR ucast publ"

definition no_lineage :: hd_lineage where
  "no_lineage = \<lparr>lin_prefixes = 0, lin_depth = 0, lin_parent_fingerprint = 0, lin_child_number = 0\<rparr>"

subsection \<open>Public keys\<close>

definition hd_public_null :: hd_public where
  "hd_public_null = \<lparr>hd_valid = False, hd_chain = replicate 32 0, hd_lineage = no_lineage, hd_point = replicate 33 0\<rparr>"

definition hd_public_of :: "ec_point \<Rightarrow> data_chunk \<Rightarrow> hd_lineage \<Rightarrow> hd_public" where
  "hd_public_of point chain lineage = \<lparr>hd_valid = True, hd_chain = chain, hd_lineage = lineage, hd_point = point\<rparr>"

definition hd_from_secret :: "'k secp256k1 \<Rightarrow> ec_secret \<Rightarrow> data_chunk \<Rightarrow> hd_lineage \<Rightarrow> hd_public" where
  "hd_from_secret C secret chain lineage =
     (case secret_to_public C ec_compressed_size secret of
        Some point \<Rightarrow> hd_public_of point chain lineage
      | None \<Rightarrow> hd_public_null)"

definition read_hd_public :: "(uint32 \<times> byte \<times> uint32 \<times> uint32 \<times> data_chunk \<times> ec_point) rd" where
  "read_hd_public = do {
     actual \<leftarrow> read_4_bytes_big_endian;
     depth \<leftarrow> read_byte;
     parent \<leftarrow> read_4_bytes_big_endian;
     child \<leftarrow> read_4_bytes_big_endian;
     chain \<leftarrow> read_forward hd_chain_code_size;
     point \<leftarrow> read_forward ec_compressed_size;
     State_Monad.return (actual, depth, parent, child, chain, point)
   }"

definition hd_public_from_key :: "data_chunk \<Rightarrow> uint32 \<Rightarrow> hd_public" where
  "hd_public_from_key key expected =
     (let (actual, depth, parent, child, chain, point) = fst (run_state read_hd_public (ready key)) in
      if actual \<noteq> expected then hd_public_null
      else hd_public_of point chain
             \<lparr>lin_prefixes = ucast expected, lin_depth = depth, lin_parent_fingerprint = parent, lin_child_number = child\<rparr>)"

definition key_prefix :: "data_chunk \<Rightarrow> uint32" where
  "key_prefix key = fst (run_state read_4_bytes_big_endian (ready key))"

definition hd_public_from_any_key :: "data_chunk \<Rightarrow> hd_public" where
  "hd_public_from_any_key key = hd_public_from_key key (key_prefix key)"

definition hd_public_from_string :: "string \<Rightarrow> uint32 \<Rightarrow> hd_public" where
  "hd_public_from_string encoded expected =
     (case decode_base58_private hd_key_size encoded of
        None \<Rightarrow> hd_public_null
      | Some key \<Rightarrow> hd_public_from_key key expected)"

definition hd_public_from_any_string :: "string \<Rightarrow> hd_public" where
  "hd_public_from_any_string encoded =
     (case decode_base58_private hd_key_size encoded of
        None \<Rightarrow> hd_public_null
      | Some key \<Rightarrow> hd_public_from_any_key key)"

definition hd_public_to_hd_key :: "hash_functions \<Rightarrow> ('a :: type) hd_public_scheme \<Rightarrow> data_chunk" where
  "hd_public_to_hd_key H key =
     checked_array H hd_key_size
       [to_big_endian (public_prefix (lin_prefixes (hd_lineage key))), [lin_depth (hd_lineage key)],
        to_big_endian (lin_parent_fingerprint (hd_lineage key)), to_big_endian (lin_child_number (hd_lineage key)),
        hd_chain key, hd_point key]"

definition hd_public_encoded :: "hash_functions \<Rightarrow> hd_public \<Rightarrow> string" where
  "hd_public_encoded H key = encode_base58 (hd_public_to_hd_key H key)"

definition fingerprint :: "hash_functions \<Rightarrow> ('a :: type) hd_public_scheme \<Rightarrow> uint32" where
  "fingerprint H key = key_prefix (bitcoin_short_hash H (hd_point key))"

text \<open>The two halves of the keyed hash.\<close>

definition intermediate :: "(data_chunk \<Rightarrow> data_chunk \<Rightarrow> data_chunk) \<Rightarrow> data_chunk \<Rightarrow> data_chunk \<Rightarrow> data_chunk \<times> data_chunk" where
  "intermediate hmac data chain = (take 32 (hmac data chain), take 32 (drop 32 (hmac data chain)))"

definition hd_public_derive_public ::
  "'k secp256k1 \<Rightarrow> hash_functions \<Rightarrow> (data_chunk \<Rightarrow> data_chunk \<Rightarrow> data_chunk) \<Rightarrow> hd_public \<Rightarrow> uint32 \<Rightarrow> hd_public" where
  "hd_public_derive_public C H hmac key index =
     (if index \<ge> hd_first_hardened_key then hd_public_null
      else
        let (left, right) = intermediate hmac (hd_point key @ to_big_endian index) (hd_chain key)
        in case ec_add C (hd_point key) left of
             None \<Rightarrow> hd_public_null
           | Some combined \<Rightarrow>
               if lin_depth (hd_lineage key) = 255 then hd_public_null
               else hd_public_of combined right
                      \<lparr>lin_prefixes = lin_prefixes (hd_lineage key), lin_depth = lin_depth (hd_lineage key) + 1,
                       lin_parent_fingerprint = fingerprint H key, lin_child_number = index\<rparr>)"

subsection \<open>Private keys\<close>

definition with_secret :: "hd_public \<Rightarrow> ec_secret \<Rightarrow> hd_private" where
  "with_secret key secret = hd_public.extend key (hd_private.fields secret)"

definition hd_private_null :: hd_private where
  "hd_private_null = with_secret hd_public_null (replicate 32 0)"

definition hd_private_of :: "'k secp256k1 \<Rightarrow> ec_secret \<Rightarrow> data_chunk \<Rightarrow> hd_lineage \<Rightarrow> hd_private" where
  "hd_private_of C secret chain lineage = with_secret (hd_from_secret C secret chain lineage) secret"

text \<open>The literal is an array of characters, so \<^verbatim>\<open>to_chunk\<close> takes its terminating zero too.\<close>

definition seed_magic :: data_chunk where
  "seed_magic = map of_char ''Bitcoin seed'' @ [0]"

definition hd_private_from_seed ::
  "'k secp256k1 \<Rightarrow> (data_chunk \<Rightarrow> data_chunk \<Rightarrow> data_chunk) \<Rightarrow> data_chunk \<Rightarrow> uint64 \<Rightarrow> hd_private" where
  "hd_private_from_seed C hmac seed prefixes =
     (let (left, right) = intermediate hmac seed seed_magic in
      if \<not> verify_secret C left then hd_private_null
      else hd_private_of C left right
             \<lparr>lin_prefixes = prefixes, lin_depth = 0, lin_parent_fingerprint = 0, lin_child_number = 0\<rparr>)"

definition read_hd_private :: "(uint32 \<times> byte \<times> uint32 \<times> uint32 \<times> data_chunk \<times> ec_secret) rd" where
  "read_hd_private = do {
     actual \<leftarrow> read_4_bytes_big_endian;
     depth \<leftarrow> read_byte;
     parent \<leftarrow> read_4_bytes_big_endian;
     child \<leftarrow> read_4_bytes_big_endian;
     chain \<leftarrow> read_forward hd_chain_code_size;
     _ \<leftarrow> read_byte;
     secret \<leftarrow> read_forward ec_secret_size;
     State_Monad.return (actual, depth, parent, child, chain, secret)
   }"

definition hd_private_from_key :: "'k secp256k1 \<Rightarrow> data_chunk \<Rightarrow> uint64 \<Rightarrow> hd_private" where
  "hd_private_from_key C key prefixes =
     (let (actual, depth, parent, child, chain, secret) = fst (run_state read_hd_private (ready key)) in
      if actual \<noteq> private_prefix prefixes then hd_private_null
      else hd_private_of C secret chain
             \<lparr>lin_prefixes = prefixes, lin_depth = depth, lin_parent_fingerprint = parent, lin_child_number = child\<rparr>)"

definition hd_private_from_any_key :: "'k secp256k1 \<Rightarrow> data_chunk \<Rightarrow> uint32 \<Rightarrow> hd_private" where
  "hd_private_from_any_key C key publ = hd_private_from_key C key (to_prefixes (key_prefix key) publ)"

definition hd_private_from_string :: "'k secp256k1 \<Rightarrow> string \<Rightarrow> uint64 \<Rightarrow> hd_private" where
  "hd_private_from_string C encoded prefixes =
     (case decode_base58_private hd_key_size encoded of
        None \<Rightarrow> hd_private_null
      | Some key \<Rightarrow> hd_private_from_key C key prefixes)"

definition hd_private_from_any_string :: "'k secp256k1 \<Rightarrow> string \<Rightarrow> uint32 \<Rightarrow> hd_private" where
  "hd_private_from_any_string C encoded publ =
     (case decode_base58_private hd_key_size encoded of
        None \<Rightarrow> hd_private_null
      | Some key \<Rightarrow> hd_private_from_any_key C key publ)"

definition hd_private_to_hd_key :: "hash_functions \<Rightarrow> hd_private \<Rightarrow> data_chunk" where
  "hd_private_to_hd_key H key =
     checked_array H hd_key_size
       [to_big_endian (private_prefix (lin_prefixes (hd_lineage key))), [lin_depth (hd_lineage key)],
        to_big_endian (lin_parent_fingerprint (hd_lineage key)), to_big_endian (lin_child_number (hd_lineage key)),
        hd_chain key, [0], hd_secret key]"

definition hd_private_encoded :: "hash_functions \<Rightarrow> hd_private \<Rightarrow> string" where
  "hd_private_encoded H key = encode_base58 (hd_private_to_hd_key H key)"

definition hd_private_to_public :: "hash_functions \<Rightarrow> hd_private \<Rightarrow> hd_public" where
  "hd_private_to_public H key =
     hd_public_from_key (hd_public_to_hd_key H key) (public_prefix (lin_prefixes (hd_lineage key)))"

definition derive_private ::
  "'k secp256k1 \<Rightarrow> hash_functions \<Rightarrow> (data_chunk \<Rightarrow> data_chunk \<Rightarrow> data_chunk) \<Rightarrow> hd_private \<Rightarrow> uint32 \<Rightarrow> hd_private" where
  "derive_private C H hmac key index =
     (let data = (if index \<ge> hd_first_hardened_key then [0] @ hd_secret key @ to_big_endian index
                  else hd_point key @ to_big_endian index);
          (left, right) = intermediate hmac data (hd_chain key)
      in case ec_add_secret C (hd_secret key) left of
           None \<Rightarrow> hd_private_null
         | Some child \<Rightarrow>
             if lin_depth (hd_lineage key) = 255 then hd_private_null
             else hd_private_of C child right
                    \<lparr>lin_prefixes = lin_prefixes (hd_lineage key), lin_depth = lin_depth (hd_lineage key) + 1,
                     lin_parent_fingerprint = fingerprint H key, lin_child_number = index\<rparr>)"

definition hd_private_derive_public ::
  "'k secp256k1 \<Rightarrow> hash_functions \<Rightarrow> (data_chunk \<Rightarrow> data_chunk \<Rightarrow> data_chunk) \<Rightarrow> hd_private \<Rightarrow> uint32 \<Rightarrow> hd_public" where
  "hd_private_derive_public C H hmac key index = hd_private_to_public H (derive_private C H hmac key index)"

subsection \<open>Reading back\<close>

definition hd_sized :: "('a :: type) hd_public_scheme \<Rightarrow> bool" where
  "hd_sized key \<longleftrightarrow> length (hd_chain key) = 32 \<and> length (hd_point key) = 33"

text \<open>The well-formed private keys: the sizes are right and the point is the one of the secret.\<close>

definition hd_private_ok :: "'k secp256k1 \<Rightarrow> hd_private \<Rightarrow> bool" where
  "hd_private_ok C key \<longleftrightarrow> hd_sized key \<and> hd_valid key \<and> length (hd_secret key) = 32 \<and>
     secret_to_public C ec_compressed_size (hd_secret key) = Some (hd_point key)"

lemma run_read_hd_public:
  assumes "length chain = 32" and "length point = 33"
  shows "fst (run_state read_hd_public
    (ready (to_big_endian p @ [d] @ to_big_endian f @ to_big_endian c @ chain @ point @ rest))) = (p, d, f, c, chain, point)"
  using assms by (simp add: read_hd_public_def wire_simps flip: write_4_bytes_big_endian_def)

lemma run_read_hd_private:
  assumes "length chain = 32" and "length secret = 32"
  shows "fst (run_state read_hd_private
    (ready (to_big_endian p @ [d] @ to_big_endian f @ to_big_endian c @ chain @ [x] @ secret @ rest))) = (p, d, f, c, chain, secret)"
  using assms by (simp add: read_hd_private_def wire_simps flip: write_4_bytes_big_endian_def)

lemma run_key_prefix: "key_prefix (to_big_endian p @ rest) = p"
  by (simp add: key_prefix_def wire_simps flip: write_4_bytes_big_endian_def)

text \<open>What \<^verbatim>\<open>to_hd_key\<close> writes, sizes being right.\<close>

lemma hd_public_key_bytes:
  assumes "hd_sized key"
  shows "\<exists>rest. hd_public_to_hd_key H key =
    to_big_endian (public_prefix (lin_prefixes (hd_lineage key))) @ [lin_depth (hd_lineage key)] @
    to_big_endian (lin_parent_fingerprint (hd_lineage key)) @ to_big_endian (lin_child_number (hd_lineage key)) @
    hd_chain key @ hd_point key @ rest \<and> length rest = 4"
proof -
  let ?l = "hd_lineage key"
  let ?slices = "[to_big_endian (public_prefix (lin_prefixes ?l)), [lin_depth ?l], to_big_endian (lin_parent_fingerprint ?l),
    to_big_endian (lin_child_number ?l), hd_chain key, hd_point key]"
  have "length (concat ?slices) + 4 = hd_key_size" using assms by (simp add: hd_sized_def to_big_endian_def)
  from checked_array_exact [OF this, of H] show ?thesis
    by (simp add: hd_public_to_hd_key_def append_checksum_def to_little_endian_def)
qed

lemma hd_private_key_bytes:
  assumes "hd_private_ok C key"
  shows "\<exists>rest. hd_private_to_hd_key H key =
    to_big_endian (private_prefix (lin_prefixes (hd_lineage key))) @ [lin_depth (hd_lineage key)] @
    to_big_endian (lin_parent_fingerprint (hd_lineage key)) @ to_big_endian (lin_child_number (hd_lineage key)) @
    hd_chain key @ [0] @ hd_secret key @ rest \<and> length rest = 4"
proof -
  let ?l = "hd_lineage key"
  let ?slices = "[to_big_endian (private_prefix (lin_prefixes ?l)), [lin_depth ?l], to_big_endian (lin_parent_fingerprint ?l),
    to_big_endian (lin_child_number ?l), hd_chain key, [0], hd_secret key]"
  have "length (concat ?slices) + 4 = hd_key_size" using assms by (simp add: hd_private_ok_def hd_sized_def to_big_endian_def)
  from checked_array_exact [OF this, of H] show ?thesis
    by (simp add: hd_private_to_hd_key_def append_checksum_def to_little_endian_def)
qed

definition only_public :: "hd_lineage \<Rightarrow> hd_lineage" where
  "only_public l = l\<lparr>lin_prefixes := ucast (public_prefix (lin_prefixes l))\<rparr>"

lemma public_prefix_facts: "public_prefix (ucast p) = p" "public_prefix (to_prefixes q p) = p" "private_prefix (to_prefixes q p) = q"
  "to_prefixes (private_prefix v) (public_prefix v) = v"
proof -
  have low: "x AND 0x00000000FFFFFFFF = take_bit 32 x" for x :: uint64 by (simp add: take_bit_eq_mask mask_numeral)
  show "public_prefix (ucast p) = p"
    unfolding public_prefix_def low by (rule bit_word_eqI) (auto simp: bit_simps dest: bit_imp_le_length)
  show "public_prefix (to_prefixes q p) = p"
    unfolding public_prefix_def to_prefixes_def low by (rule bit_word_eqI) (auto simp: bit_simps dest: bit_imp_le_length)
  show "private_prefix (to_prefixes q p) = q"
    unfolding private_prefix_def to_prefixes_def by (rule bit_word_eqI) (auto simp: bit_simps dest: bit_imp_le_length)
  show "to_prefixes (private_prefix v) (public_prefix v) = v"
    unfolding public_prefix_def private_prefix_def to_prefixes_def low by (rule bit_word_eqI) (auto simp: bit_simps dest: bit_imp_le_length)
qed

lemma hd_public_from_own_key:
  assumes "hd_sized key"
  shows "hd_public_from_key (hd_public_to_hd_key H key) (public_prefix (lin_prefixes (hd_lineage key))) =
      hd_public_of (hd_point key) (hd_chain key) (only_public (hd_lineage key))"
    "key_prefix (hd_public_to_hd_key H key) = public_prefix (lin_prefixes (hd_lineage key))"
    "length (hd_public_to_hd_key H key) = hd_key_size"
proof -
  let ?l = "hd_lineage key"
  obtain rest where bytes: "length rest = 4" "hd_public_to_hd_key H key =
      to_big_endian (public_prefix (lin_prefixes ?l)) @ [lin_depth ?l] @ to_big_endian (lin_parent_fingerprint ?l) @
      to_big_endian (lin_child_number ?l) @ hd_chain key @ hd_point key @ rest"
    using hd_public_key_bytes [OF assms] by blast
  have sizes: "length (hd_chain key) = 32" "length (hd_point key) = 33" using assms by (simp_all add: hd_sized_def)
  show "key_prefix (hd_public_to_hd_key H key) = public_prefix (lin_prefixes ?l)" unfolding bytes by (rule run_key_prefix)
  show "length (hd_public_to_hd_key H key) = hd_key_size" unfolding bytes using bytes(1) sizes by (simp add: to_big_endian_def)
  show "hd_public_from_key (hd_public_to_hd_key H key) (public_prefix (lin_prefixes ?l)) =
      hd_public_of (hd_point key) (hd_chain key) (only_public ?l)"
    unfolding hd_public_from_key_def bytes run_read_hd_public [OF sizes] by (cases ?l) (simp add: only_public_def)
qed

lemma hd_private_from_own_key:
  assumes "hd_private_ok C key"
  shows "hd_private_from_key C (hd_private_to_hd_key H key) (lin_prefixes (hd_lineage key)) = key"
    "key_prefix (hd_private_to_hd_key H key) = private_prefix (lin_prefixes (hd_lineage key))"
    "length (hd_private_to_hd_key H key) = hd_key_size"
proof -
  let ?l = "hd_lineage key"
  obtain rest where bytes: "length rest = 4" "hd_private_to_hd_key H key =
      to_big_endian (private_prefix (lin_prefixes ?l)) @ [lin_depth ?l] @ to_big_endian (lin_parent_fingerprint ?l) @
      to_big_endian (lin_child_number ?l) @ hd_chain key @ [0] @ hd_secret key @ rest"
    using hd_private_key_bytes [OF assms] by blast
  have sizes: "length (hd_chain key) = 32" "length (hd_secret key) = 32" using assms by (simp_all add: hd_sized_def hd_private_ok_def)
  have point: "secret_to_public C ec_compressed_size (hd_secret key) = Some (hd_point key)" and valid: "hd_valid key"
    using assms by (simp_all add: hd_private_ok_def)
  show "key_prefix (hd_private_to_hd_key H key) = private_prefix (lin_prefixes ?l)" unfolding bytes by (rule run_key_prefix)
  show "length (hd_private_to_hd_key H key) = hd_key_size" unfolding bytes using bytes(1) sizes by (simp add: to_big_endian_def)
  have l: "\<lparr>lin_prefixes = lin_prefixes ?l, lin_depth = lin_depth ?l, lin_parent_fingerprint = lin_parent_fingerprint ?l,
      lin_child_number = lin_child_number ?l\<rparr> = ?l"
    by simp
  show "hd_private_from_key C (hd_private_to_hd_key H key) (lin_prefixes ?l) = key"
    unfolding hd_private_from_key_def bytes run_read_hd_private [OF sizes]
    using valid by (simp add: l hd_private_of_def hd_from_secret_def point hd_public_of_def with_secret_def hd_public.defs hd_private.defs)
qed

text \<open>
  An extended private key survives its text form, the prefixes given to the reader being those of the key, all of
  them or the public half; of the public key the text form keeps everything but the private prefix.
\<close>

theorem hd_round_trip:
  assumes "hd_private_ok C key" and "hd_sized pub" and "hd_valid pub"
  shows "hd_private_from_string C (hd_private_encoded H key) (lin_prefixes (hd_lineage key)) = key \<and>
    hd_private_from_any_string C (hd_private_encoded H key) (public_prefix (lin_prefixes (hd_lineage key))) = key \<and>
    hd_public_from_string (hd_public_encoded H pub) (public_prefix (lin_prefixes (hd_lineage pub))) =
      pub\<lparr>hd_lineage := only_public (hd_lineage pub)\<rparr> \<and>
    hd_public_from_any_string (hd_public_encoded H pub) = pub\<lparr>hd_lineage := only_public (hd_lineage pub)\<rparr>"
proof -
  note sec = hd_private_from_own_key [OF assms(1), of H]
  note publ = hd_public_from_own_key [OF assms(2), of H]
  have decode: "decode_base58_private hd_key_size (encode_base58 bytes) = Some bytes" if "length bytes = hd_key_size" for bytes
    using that by (simp add: decode_base58_private_def decode_encode_base58)
  have pub: "hd_public_of (hd_point pub) (hd_chain pub) (only_public (hd_lineage pub)) = pub\<lparr>hd_lineage := only_public (hd_lineage pub)\<rparr>"
    using assms(3) by (simp add: hd_public_of_def)
  show ?thesis
    by (simp add: hd_private_from_string_def hd_private_from_any_string_def hd_private_from_any_key_def hd_private_encoded_def
        hd_public_from_string_def hd_public_from_any_string_def hd_public_from_any_key_def hd_public_encoded_def
        decode sec publ pub public_prefix_facts)
qed

subsection \<open>Children\<close>

lemma hd_private_of_ok:
  assumes "curve_laws C" and "length secret = 32" and "length chain = 32"
  shows "hd_private_ok C (hd_private_of C secret chain l) \<or> \<not> hd_valid (hd_private_of C secret chain l)"
  using assms
  by (auto simp: hd_private_ok_def hd_sized_def hd_private_of_def with_secret_def hd_from_secret_def hd_public_of_def hd_public_null_def
      hd_public.defs hd_private.defs secret_to_public_def serialize_point_def Let_def curve_laws_def split: option.splits if_splits)

lemma hd_private_null_invalid: "\<not> hd_valid hd_private_null"
  by (simp add: hd_private_null_def with_secret_def hd_public_null_def hd_public.defs hd_private.defs)


lemma length_run_read_forward [simp]: "length (fst (run_state (read_forward n) r)) = n"
  by (simp add: read_forward_def stream_read_def)

lemma run_read_forward_length: "run_state (read_forward n) r = (bytes, r') \<Longrightarrow> length bytes = n"
  using length_run_read_forward [of n r] by simp

lemma intermediate_sizes: "length (hmac d k) = 64 \<Longrightarrow> intermediate hmac d k = (l, r) \<Longrightarrow> length l = 32 \<and> length r = 32"
  by (auto simp: intermediate_def)

lemma derive_private_ok:
  assumes "curve_laws C" and "\<And>d k. length (hmac d k) = 64" and "length (hd_secret key) = 32"
    and "hd_valid (derive_private C H hmac key index)"
  shows "hd_private_ok C (derive_private C H hmac key index)"
proof -
  let ?d = "if index \<ge> hd_first_hardened_key then [0] @ hd_secret key @ to_big_endian index else hd_point key @ to_big_endian index"
  obtain l r where lr: "intermediate hmac ?d (hd_chain key) = (l, r)" by fastforce
  have r: "length r = 32" using intermediate_sizes [OF assms(2) lr] by simp
  show ?thesis
  proof (cases "ec_add_secret C (hd_secret key) l")
    case None
    then show ?thesis using assms(4) lr by (simp add: derive_private_def hd_private_null_invalid)
  next
    case (Some child)
    then have "length child = 32" using assms(1,3) by (auto simp: curve_laws_def ec_add_secret_def)
    then show ?thesis
      using hd_private_of_ok [OF assms(1), of child r] r Some lr assms(4)
      by (auto simp: derive_private_def hd_private_null_invalid split: if_splits)
  qed
qed

text \<open>
  C27. Every extended private key made from a seed, read from 82 bytes or derived from a
  well-formed key is invalid or well formed: its chain code and secret have 32 bytes, its
  point 33, and the point is the public key of the secret.
\<close>

theorem hd_private_typed:
  assumes "curve_laws C" and "\<And>d k. length (hmac d k) = 64" and "hd_private_ok C key"
  shows "(hd_valid (hd_private_from_seed C hmac seed prefixes) \<longrightarrow> hd_private_ok C (hd_private_from_seed C hmac seed prefixes)) \<and>
    (hd_valid (hd_private_from_key C bytes prefixes) \<longrightarrow> hd_private_ok C (hd_private_from_key C bytes prefixes)) \<and>
    (hd_valid (derive_private C H hmac key index) \<longrightarrow> hd_private_ok C (derive_private C H hmac key index))"
proof (intro conjI impI)
  note made = hd_private_of_ok [OF assms(1)]
  show "hd_private_ok C (hd_private_from_seed C hmac seed prefixes)" if "hd_valid (hd_private_from_seed C hmac seed prefixes)"
    using that made [of "take 32 (hmac seed seed_magic)" "drop 32 (hmac seed seed_magic)"] assms(2)
    by (auto simp: hd_private_from_seed_def intermediate_def Let_def hd_private_null_invalid split: if_splits)
  show "hd_private_ok C (hd_private_from_key C bytes prefixes)" if "hd_valid (hd_private_from_key C bytes prefixes)"
    using that made
    by (auto simp: hd_private_from_key_def read_hd_private_def hd_private_null_invalid Let_def split: if_splits prod.splits
        dest!: run_read_forward_length)
  show "hd_private_ok C (derive_private C H hmac key index)" if "hd_valid (derive_private C H hmac key index)"
    using derive_private_ok [OF assms(1,2) _ that] assms(3) by (simp add: hd_private_ok_def)
qed

lemma hd_private_to_public_ok:
  "hd_private_ok C key \<Longrightarrow> hd_private_to_public H key = hd_public_of (hd_point key) (hd_chain key) (only_public (hd_lineage key))"
  using hd_public_from_own_key(1) [of key H] by (simp add: hd_private_ok_def hd_private_to_public_def)

lemma hd_private_of_facts:
  assumes "hd_valid (hd_private_of C s chain l)"
  shows "secret_to_public C 33 s = Some (hd_point (hd_private_of C s chain l))" "hd_chain (hd_private_of C s chain l) = chain"
    "hd_lineage (hd_private_of C s chain l) = l"
  using assms
  by (auto simp: hd_private_of_def with_secret_def hd_from_secret_def hd_public_of_def hd_public_null_def
      hd_public.defs hd_private.defs split: option.splits)

lemma ec_add_of_secret:
  assumes "curve_laws C" and "secret_to_public C 33 s = Some p" and "ec_add_secret C s t = Some s'" and "secret_to_public C 33 s' = Some p'"
  shows "ec_add C p t = Some p'"
  using assms
  by (auto simp: curve_laws_def secret_to_public_def ec_add_secret_def ec_add_def serialize_point_def Let_def split: option.splits if_splits)

text \<open>
  C26. Public and private derivation agree where the private one succeeds: for a private key
  whose point belongs to its secret and an index that is not hardened, if the derived
  private child is valid (a failed one differs: depth 255, or a sum that is no secret), and
  if the curve behaves as documented and the keyed hash has 64 bytes, deriving the child of
  the public key gives the public key of the derived private child.
\<close>

theorem child_keys_commute:
  assumes "curve_laws C" and "\<And>d k. length (hmac d k) = 64" and "hd_private_ok C key"
    and "index < hd_first_hardened_key" and "hd_valid (derive_private C H hmac key index)"
  shows "hd_public_derive_public C H hmac (hd_private_to_public H key) index = hd_private_derive_public C H hmac key index"
proof -
  let ?child = "derive_private C H hmac key index" and ?l = "hd_lineage key"
  have ok: "hd_private_ok C ?child"
    using derive_private_ok [OF assms(1,2) _ assms(5)] assms(3) by (simp add: hd_private_ok_def)
  obtain l r where lr: "intermediate hmac (hd_point key @ to_big_endian index) (hd_chain key) = (l, r)" by fastforce
  have child: "?child = (case ec_add_secret C (hd_secret key) l of None \<Rightarrow> hd_private_null | Some s \<Rightarrow>
      if lin_depth ?l = 255 then hd_private_null else hd_private_of C s r
        \<lparr>lin_prefixes = lin_prefixes ?l, lin_depth = lin_depth ?l + 1, lin_parent_fingerprint = fingerprint H key, lin_child_number = index\<rparr>)"
    using assms(4) lr by (simp add: derive_private_def)
  obtain s where s: "ec_add_secret C (hd_secret key) l = Some s" "lin_depth ?l \<noteq> 255"
    using assms(5) child by (auto simp: hd_private_null_invalid split: option.splits if_splits)
  let ?lineage = "\<lparr>lin_prefixes = lin_prefixes ?l, lin_depth = lin_depth ?l + 1, lin_parent_fingerprint = fingerprint H key, lin_child_number = index\<rparr>"
  have made: "?child = hd_private_of C s r ?lineage" using child s by simp
  note facts = hd_private_of_facts [OF assms(5) [unfolded made], folded made]
  have "ec_add C (hd_point key) l = Some (hd_point ?child)"
    using ec_add_of_secret [OF assms(1) _ s(1) facts(1)] assms(3) by (simp add: hd_private_ok_def)
  then show ?thesis
    using s(2) assms(4) lr
    by (simp add: hd_private_derive_public_def hd_private_to_public_ok [OF ok] hd_private_to_public_ok [OF assms(3)] facts
        hd_public_derive_public_def) (simp add: hd_public_of_def only_public_def fingerprint_def)
qed

lemma split_length: "length xs = m + n \<Longrightarrow> \<exists>a b. xs = a @ b \<and> length a = m \<and> length b = n"
  by (rule exI [of _ "take m xs"], rule exI [of _ "drop m xs"]) simp

lemma key_fields:
  assumes "length body = 78"
  obtains p d f c chain x secret where
    "body = to_big_endian (p :: uint32) @ [d] @ to_big_endian (f :: uint32) @ to_big_endian (c :: uint32) @ chain @ [x] @ secret"
    "length chain = 32" "length secret = 32"
proof -
  have word: "\<exists>v :: uint32. bs = to_big_endian v" if "length bs = 4" for bs
  proof
    show "bs = to_big_endian (of_nat (le_val (rev bs)) :: uint32)"
      using to_little_endian_of_le_val [where 'a = 32, of "rev bs"] that by (simp add: to_big_endian_def)
  qed
  obtain b1 r1 where 1: "body = b1 @ r1" "length b1 = 4" "length r1 = 74" using split_length [of body 4 74] assms by auto
  obtain d r2 where 2: "r1 = d # r2" "length r2 = 73" using 1(3) by (cases r1) auto
  obtain b3 r3 where 3: "r2 = b3 @ r3" "length b3 = 4" "length r3 = 69" using split_length [of r2 4 69] 2(2) by auto
  obtain b4 r4 where 4: "r3 = b4 @ r4" "length b4 = 4" "length r4 = 65" using split_length [of r3 4 65] 3(3) by auto
  obtain chain r5 where 5: "r4 = chain @ r5" "length chain = 32" "length r5 = 33" using split_length [of r4 32 33] 4(3) by auto
  obtain x secret where 6: "r5 = x # secret" "length secret = 32" using 5(3) by (cases r5) auto
  obtain p f c :: uint32 where "b1 = to_big_endian p" "b3 = to_big_endian f" "b4 = to_big_endian c"
    using word 1(2) 3(2) 4(2) by metis
  then show thesis using that [of p d f c chain x secret] 1 2 3 4 5 6 by simp
qed

text \<open>
  The checksum at the end of an extended key is written and never read: a key is decoded from its first 78 bytes, and
  any four bytes may follow.
\<close>

theorem hd_checksum_unverified:
  assumes "length body = 78"
  shows "hd_public_from_key (body @ checksum) p = hd_public_from_key (body @ other) p \<and>
    hd_private_from_key C (body @ checksum) prefixes = hd_private_from_key C (body @ other) prefixes"
proof -
  obtain q d f c chain x secret where body:
    "body = to_big_endian (q :: uint32) @ [d] @ to_big_endian (f :: uint32) @ to_big_endian (c :: uint32) @ chain @ [x] @ secret"
    and sizes: "length chain = 32" "length secret = 32"
    using key_fields [OF assms] by blast
  have point: "length (x # secret) = 33" using sizes by simp
  show ?thesis
    using run_read_hd_private [OF sizes, of q d f c x] run_read_hd_public [OF sizes(1) point, of q d f c]
    by (simp add: body hd_public_from_key_def hd_private_from_key_def)
qed

theorem hd_checksum_unverified_witness:
  "hd_public_from_key (to_big_endian (76067358 :: uint32) @ replicate 74 3 @ [0, 0, 0, 0]) 76067358 =
   hd_public_from_key (to_big_endian (76067358 :: uint32) @ replicate 74 3 @ [1, 2, 3, 4]) 76067358"
  using hd_checksum_unverified [of "to_big_endian (76067358 :: uint32) @ replicate 74 3" "[0, 0, 0, 0]" 76067358 "[1, 2, 3, 4]" example_secp 0]
  by (simp only: append_assoc length_append length_replicate to_big_endian_def length_rev length_to_little_endian_loop) simp

text \<open>
  When the derivation of a private child fails, by the curve or at depth 255,
  derive_public of the private key answers a key that is marked valid, with the null point:
  the null key is serialized and read back as zeros.
\<close>

theorem failed_derivation_valid:
  assumes "ec_add_secret C (hd_secret key) (fst (intermediate hmac
      (if index \<ge> hd_first_hardened_key then [0] @ hd_secret key @ to_big_endian index else hd_point key @ to_big_endian index)
      (hd_chain key))) = None \<or> lin_depth (hd_lineage key) = 255"
  shows "\<not> hd_valid (derive_private C H hmac key index) \<and>
    hd_private_derive_public C H hmac key index = hd_public_of (replicate 33 0) (replicate 32 0) no_lineage"
proof -
  have null: "derive_private C H hmac key index = hd_private_null"
    using assms by (auto simp: derive_private_def Let_def split: prod.splits option.splits)
  have fields: "hd_sized hd_private_null" "hd_point hd_private_null = replicate 33 0" "hd_chain hd_private_null = replicate 32 0"
    "hd_lineage hd_private_null = no_lineage"
    by (simp_all only: hd_private_null_def with_secret_def hd_public_null_def hd_public.defs hd_private.defs hd_sized_def
        hd_public.simps length_replicate simp_thms)
  have "only_public no_lineage = no_lineage" by (simp add: only_public_def no_lineage_def public_prefix_def)
  then show ?thesis
    using hd_public_from_own_key(1) [OF fields(1), of H] fields
    by (simp add: hd_private_derive_public_def hd_private_to_public_def null hd_private_null_invalid)
qed

subsection \<open>Concrete keys\<close>

definition example_hmac :: "data_chunk \<Rightarrow> data_chunk \<Rightarrow> data_chunk" where
  "example_hmac data key = replicate 64 5"

definition example_hd_key :: hd_private where
  "example_hd_key = hd_private_from_seed example_secp example_hmac [1, 2, 3] 0x0488ADE40488B21E"

lemma example_public: "length s = 32 \<Longrightarrow> \<exists>p. secret_to_public example_secp 33 s = Some p \<and> length p = 33"
  by (simp add: secret_to_public_def example_secp_def serialize_point_def le_val_256)

lemma hd_private_of_example: "length s = 32 \<Longrightarrow> hd_valid (hd_private_of example_secp s c l)"
  using example_public [of s]
  by (auto simp: hd_private_of_def with_secret_def hd_from_secret_def hd_public_of_def hd_public.defs hd_private.defs)

lemma example_hd_key_ok: "hd_private_ok example_secp example_hd_key" "hd_valid example_hd_key"
proof -
  have key: "example_hd_key = hd_private_of example_secp (replicate 32 5) (replicate 32 5) (no_lineage\<lparr>lin_prefixes := 0x0488ADE40488B21E\<rparr>)"
    by (simp add: example_hd_key_def hd_private_from_seed_def intermediate_def example_hmac_def verify_secret_def example_secp_def no_lineage_def)
  show "hd_valid example_hd_key" unfolding key by (rule hd_private_of_example) simp
  then show "hd_private_ok example_secp example_hd_key"
    using hd_private_of_ok [OF example_secp_laws, of "replicate 32 5" "replicate 32 5"] unfolding key by auto
qed

lemma example_child_valid: "hd_valid (derive_private example_secp H example_hmac example_hd_key 7)"
proof -
  have "lin_depth (hd_lineage example_hd_key) = 0"
    using example_hd_key_ok(2)
    by (auto simp: example_hd_key_def hd_private_from_seed_def intermediate_def example_hmac_def verify_secret_def example_secp_def
        hd_private_of_facts)
  then show ?thesis
    by (simp add: derive_private_def intermediate_def example_hmac_def ec_add_secret_def hd_private_of_example le_val_256
        example_secp_def [THEN arg_cong [where f = ec_privkey_tweak_add]])
qed

theorem hd_round_trip_witness:
  "hd_private_from_string example_secp (hd_private_encoded example_digests example_hd_key) (lin_prefixes (hd_lineage example_hd_key)) = example_hd_key"
  using hd_round_trip [OF example_hd_key_ok(1), of "hd_public_of (replicate 33 2) (replicate 32 0) no_lineage" example_digests]
  by (simp add: hd_sized_def hd_public_of_def)

theorem hd_private_typed_witness:
  "hd_private_ok example_secp (derive_private example_secp example_digests example_hmac example_hd_key 7)"
  using hd_private_typed [OF example_secp_laws _ example_hd_key_ok(1), of example_hmac "[]" 0 "[]" example_digests 7]
  by (simp add: example_hmac_def example_child_valid)

theorem child_keys_commute_witness:
  "hd_public_derive_public example_secp example_digests example_hmac (hd_private_to_public example_digests example_hd_key) 7 =
   hd_private_derive_public example_secp example_digests example_hmac example_hd_key 7"
  using child_keys_commute [OF example_secp_laws _ example_hd_key_ok(1) _ example_child_valid] by (simp add: example_hmac_def)

theorem failed_derivation_valid_witness:
  "hd_private_derive_public example_secp example_digests example_hmac
     (with_secret (hd_public_of (replicate 33 2) (replicate 32 0) (no_lineage\<lparr>lin_depth := 255\<rparr>)) (replicate 32 7)) 7 =
   hd_public_of (replicate 33 0) (replicate 32 0) no_lineage"
  using failed_derivation_valid
    [of example_secp "with_secret (hd_public_of (replicate 33 2) (replicate 32 0) (no_lineage\<lparr>lin_depth := 255\<rparr>)) (replicate 32 7)"
      example_hmac 7 example_digests]
  by (simp add: with_secret_def hd_public_of_def hd_public.defs hd_private.defs)

end
