(* ===== verification/Select_Outputs.thy ===== *)
theory Select_Outputs
  imports Point "HOL-Library.Multiset"
begin

text \<open>
  Selection of unspent outputs for a spend: \<^verbatim>\<open>src/wallet/select_outputs.cpp\<close>, with \<^verbatim>\<open>src/chain/point_value.cpp\<close> and
  \<^verbatim>\<open>src/chain/points_value.cpp\<close>.  \<^verbatim>\<open>std::partition\<close> and \<^verbatim>\<open>std::sort\<close> leave the order of equivalent elements open, so they are
  the arguments \<open>part\<close> and \<open>srt\<close>, of which only the standard's guarantees are used.
\<close>

record point_value = point +
  pv_value :: uint64

definition safe_add :: "uint64 \<Rightarrow> uint64 \<Rightarrow> uint64 option" where
  "safe_add left right = (if left > - 1 - right then None else Some (left + right))"

text \<open>The sum throws when it exceeds 64 bits.\<close>

definition points_value_value :: "point_value list \<Rightarrow> uint64 option" where
  "points_value_value points =
     foldl (\<lambda>total p. case total of None \<Rightarrow> None | Some t \<Rightarrow> safe_add t (pv_value p)) (Some 0) points"

fun min_element :: "('a \<Rightarrow> 'a \<Rightarrow> bool) \<Rightarrow> 'a list \<Rightarrow> 'a option" where
  "min_element lt [] = None"
| "min_element lt (x # xs) = Some (foldl (\<lambda>m y. if lt y m then y else m) x xs)"

fun greedy_loop :: "uint64 \<Rightarrow> point_value list \<Rightarrow> point_value list \<Rightarrow> point_value list option" where
  "greedy_loop minimum_value out [] = Some out"
| "greedy_loop minimum_value out (p # points) =
     (case points_value_value (out @ [p]) of
        None \<Rightarrow> None
      | Some v \<Rightarrow> if v \<ge> minimum_value then Some (out @ [p]) else greedy_loop minimum_value (out @ [p]) points)"

type_synonym partition_function = "(point_value \<Rightarrow> bool) \<Rightarrow> point_value list \<Rightarrow> point_value list \<times> point_value list"
type_synonym sort_function = "(point_value \<Rightarrow> point_value \<Rightarrow> bool) \<Rightarrow> point_value list \<Rightarrow> point_value list"

definition greedy :: "partition_function \<Rightarrow> sort_function \<Rightarrow> point_value list \<Rightarrow> uint64 \<Rightarrow> point_value list option" where
  "greedy part srt unspent minimum_value =
     (case points_value_value unspent of
        None \<Rightarrow> None
      | Some v \<Rightarrow>
          if v < minimum_value then Some []
          else if length unspent = 1 then Some [hd unspent]
          else
            let (insufficient, sufficient) = part (\<lambda>p. pv_value p < minimum_value) unspent
            in case min_element (\<lambda>l r. pv_value l < pv_value r) sufficient of
                 Some minimum \<Rightarrow> Some [minimum]
               | None \<Rightarrow>
                   greedy_loop minimum_value []
                     (srt (\<lambda>l r. pv_value l > pv_value r) (insufficient @ sufficient)))"

definition individual :: "sort_function \<Rightarrow> point_value list \<Rightarrow> uint64 \<Rightarrow> point_value list" where
  "individual srt unspent minimum_value =
     srt (\<lambda>l r. pv_value l < pv_value r) (filter (\<lambda>p. pv_value p \<ge> minimum_value) unspent)"

datatype algorithm = Greedy | Individual

definition select_outputs ::
  "partition_function \<Rightarrow> sort_function \<Rightarrow> point_value list \<Rightarrow> uint64 \<Rightarrow> algorithm \<Rightarrow> point_value list option" where
  "select_outputs part srt unspent minimum_value option =
     (case option of
        Individual \<Rightarrow> Some (individual srt unspent minimum_value)
      | Greedy \<Rightarrow> greedy part srt unspent minimum_value)"

subsection \<open>The standard algorithms\<close>

definition partitions :: "partition_function \<Rightarrow> bool" where
  "partitions part \<longleftrightarrow> (\<forall>P xs. case part P xs of (front, back) \<Rightarrow>
     mset front + mset back = mset xs \<and> list_all P front \<and> list_all (\<lambda>x. \<not> P x) back)"

definition strict_weak :: "('a \<Rightarrow> 'a \<Rightarrow> bool) \<Rightarrow> bool" where
  "strict_weak lt \<longleftrightarrow> (\<forall>x. \<not> lt x x) \<and> (\<forall>x y z. lt x y \<longrightarrow> lt y z \<longrightarrow> lt x z) \<and>
     (\<forall>x y z. \<not> lt x y \<longrightarrow> \<not> lt y z \<longrightarrow> \<not> lt x z)"

definition sorts :: "sort_function \<Rightarrow> bool" where
  "sorts srt \<longleftrightarrow> (\<forall>lt xs. strict_weak lt \<longrightarrow> mset (srt lt xs) = mset xs \<and> sorted_wrt (\<lambda>x y. \<not> lt y x) (srt lt xs))"

fun insert_by :: "('a \<Rightarrow> 'a \<Rightarrow> bool) \<Rightarrow> 'a \<Rightarrow> 'a list \<Rightarrow> 'a list" where
  "insert_by lt x [] = [x]"
| "insert_by lt x (y # ys) = (if lt y x then y # insert_by lt x ys else x # y # ys)"

definition insertion_sort :: sort_function where
  "insertion_sort lt xs = foldr (insert_by lt) xs []"

definition stable_partition :: partition_function where
  "stable_partition P xs = (filter P xs, filter (\<lambda>x. \<not> P x) xs)"

lemma mset_insert_by: "mset (insert_by lt x xs) = add_mset x (mset xs)"
  by (induction xs) auto

lemma set_insert_by: "set (insert_by lt x xs) = insert x (set xs)"
  by (induction xs) auto

lemma sorted_insert_by:
  assumes "strict_weak lt" and "sorted_wrt (\<lambda>x y. \<not> lt y x) xs"
  shows "sorted_wrt (\<lambda>x y. \<not> lt y x) (insert_by lt x xs)"
  using assms(2)
proof (induction xs)
  case (Cons y ys)
  then have ys: "sorted_wrt (\<lambda>x y. \<not> lt y x) ys" "\<forall>z\<in>set ys. \<not> lt z y" by simp_all
  have trans: "\<not> lt a b \<Longrightarrow> \<not> lt b c \<Longrightarrow> \<not> lt a c" and asym: "lt a b \<Longrightarrow> \<not> lt b a" for a b c
    using assms(1) unfolding strict_weak_def by blast+
  show ?case
  proof (cases "lt y x")
    case True
    then show ?thesis using Cons.IH [OF ys(1)] ys(2) asym [OF True] by (simp add: set_insert_by)
  next
    case False
    then have "\<forall>z\<in>set ys. \<not> lt z x" using ys(2) trans by blast
    with False ys show ?thesis by simp
  qed
qed simp

lemma standard_algorithms: "sorts insertion_sort" "partitions stable_partition"
proof -
  have "mset (insertion_sort lt xs) = mset xs" for lt xs
    unfolding insertion_sort_def by (induction xs) (auto simp: mset_insert_by)
  moreover have "sorted_wrt (\<lambda>x y. \<not> lt y x) (insertion_sort lt xs)" if "strict_weak lt" for lt xs
    unfolding insertion_sort_def by (induction xs) (auto intro: sorted_insert_by that)
  ultimately show "sorts insertion_sort" by (simp add: sorts_def)
  show "partitions stable_partition"
    by (auto simp: partitions_def stable_partition_def list_all_iff)
qed

subsection \<open>Values\<close>

abbreviation amount :: "point_value \<Rightarrow> nat" where "amount p \<equiv> unat (pv_value p)"

lemma safe_add_exact: "safe_add a b = (if unat a + unat b < 2 ^ 64 then Some (a + b) else None)"
proof -
  have b: "unat b < 2 ^ 64" using unsigned_less [of b, where ?'a = nat] by simp
  have "unat (- 1 :: uint64) = 2 ^ 64 - 1" by (simp add: unsigned_minus_1_eq_mask mask_eq_exp_minus_1)
  with b have "unat (- 1 - b) = 2 ^ 64 - 1 - unat b" by (simp add: unat_sub_if')
  with b show ?thesis by (auto simp: safe_add_def word_less_nat_alt)
qed

lemma points_value_fold:
  "foldl (\<lambda>total p. case total of None \<Rightarrow> None | Some t \<Rightarrow> safe_add t (pv_value p)) None points = None"
  "foldl (\<lambda>total p. case total of None \<Rightarrow> None | Some t \<Rightarrow> safe_add t (pv_value p)) (Some t) points =
    (if unat t + sum_list (map amount points) < 2 ^ 64 then Some (t + of_nat (sum_list (map amount points))) else None)"
proof -
  show none: "foldl (\<lambda>total p. case total of None \<Rightarrow> None | Some t \<Rightarrow> safe_add t (pv_value p)) None points = None" for points
    by (induction points) auto
  show "foldl (\<lambda>total p. case total of None \<Rightarrow> None | Some t \<Rightarrow> safe_add t (pv_value p)) (Some t) points =
    (if unat t + sum_list (map amount points) < 2 ^ 64 then Some (t + of_nat (sum_list (map amount points))) else None)"
  proof (induction points arbitrary: t)
    case Nil
    then show ?case using unsigned_less [of t] by simp
  next
    case (Cons p points)
    show ?case
    proof (cases "unat t + amount p < 2 ^ 64")
      case True
      then have "unat (t + pv_value p) = unat t + amount p" by (simp add: unat_word_ariths(1))
      with True Cons [of "t + pv_value p"] show ?thesis by (simp add: safe_add_exact add.assoc)
    next
      case False
      then show ?thesis using none by (simp add: safe_add_exact)
    qed
  qed
qed

lemma points_value_exact:
  "points_value_value points = (if sum_list (map amount points) < 2 ^ 64 then Some (of_nat (sum_list (map amount points))) else None)"
  using points_value_fold(2) [of 0 points] by (simp add: points_value_value_def)

lemma unat_of_sum: "(n :: nat) < 2 ^ 64 \<Longrightarrow> unat (of_nat n :: uint64) = n"
  by (simp add: unat_of_nat)

subsection \<open>The fewest outputs\<close>

text \<open>No selection of as many elements sums to more than the front of the descending list.\<close>

lemma descending_front:
  fixes f :: "'a \<Rightarrow> nat"
  assumes "sorted_wrt (\<lambda>x y. f y \<le> f x) ys" and "S \<subseteq># mset ys"
  shows "(\<Sum>p\<in>#S. f p) \<le> sum_list (map f (take (size S) ys))"
  using assms
proof (induction ys arbitrary: S)
  case (Cons y ys)
  show ?case
  proof (cases "y \<in># S")
    case True
    then obtain S' where S: "S = add_mset y S'" by (metis insert_DiffM)
    then have "S' \<subseteq># mset ys" using Cons.prems(2) by simp
    with Cons S show ?thesis by simp
  next
    case False
    then have "count S x \<le> count (mset ys) x" for x
      using mset_subset_eq_count [OF Cons.prems(2), of x] by (cases "x = y") (auto simp: not_in_iff)
    then have "S \<subseteq># mset ys" by (rule mset_subset_eqI)
    with Cons have IH: "(\<Sum>p\<in>#S. f p) \<le> sum_list (map f (take (size S) ys))" by simp
    have "sum_list (map f (take n ys)) \<le> sum_list (map f (take n (y # ys)))" for n
    proof (cases n)
      case (Suc m)
      have "sum_list (map f (take (Suc m) ys)) \<le> sum_list (map f (take m ys)) + f y"
        using Cons.prems(1) by (cases "m < length ys") (auto simp: take_Suc_conv_app_nth)
      with Suc show ?thesis by simp
    qed simp
    with IH show ?thesis using order_trans by blast
  qed
qed simp

text \<open>The loop stops at the first prefix that suffices.\<close>

lemma greedy_loop_prefix:
  assumes "sum_list (map amount (out @ points)) < 2 ^ 64" and "unat m \<le> sum_list (map amount (out @ points))"
    and "sum_list (map amount out) < unat m"
  shows "\<exists>k. greedy_loop m out points = Some (out @ take k points) \<and> k \<le> length points \<and>
    unat m \<le> sum_list (map amount (out @ take k points)) \<and>
    (\<forall>j<k. sum_list (map amount (out @ take j points)) < unat m)"
  using assms
proof (induction points arbitrary: out)
  case (Cons p points)
  let ?s = "sum_list (map amount (out @ [p]))"
  have s: "?s < 2 ^ 64" using Cons.prems(1) by simp
  then have v: "points_value_value (out @ [p]) = Some (of_nat ?s)" "unat (of_nat ?s :: uint64) = ?s"
    using unat_of_sum [OF s] by (simp_all only: points_value_exact if_True)
  show ?case
  proof (cases "unat m \<le> ?s")
    case True
    then have "greedy_loop m out (p # points) = Some (out @ take 1 (p # points))"
      using v by (simp add: word_le_nat_alt del: map_append)
    then show ?thesis using True Cons.prems(3) by (intro exI [of _ 1]) simp
  next
    case False
    then have step: "greedy_loop m out (p # points) = greedy_loop m (out @ [p]) points"
      using v by (simp add: word_le_nat_alt del: map_append)
    obtain k where k: "greedy_loop m (out @ [p]) points = Some ((out @ [p]) @ take k points)" "k \<le> length points"
      "unat m \<le> sum_list (map amount ((out @ [p]) @ take k points))"
      "\<forall>j<k. sum_list (map amount ((out @ [p]) @ take j points)) < unat m"
      using Cons.IH [of "out @ [p]"] Cons.prems False by auto
    have "\<forall>j<Suc k. sum_list (map amount (out @ take j (p # points))) < unat m"
    proof (intro allI impI)
      fix j assume "j < Suc k"
      then show "sum_list (map amount (out @ take j (p # points))) < unat m"
        using k(4) Cons.prems(3) by (cases j) auto
    qed
    with k step show ?thesis by (intro exI [of _ "Suc k"]) simp
  qed
qed simp

lemma min_element_least:
  fixes xs :: "point_value list"
  assumes "min_element (\<lambda>l r. pv_value l < pv_value r) xs = Some p"
  shows "p \<in> set xs" "\<forall>q\<in>set xs. pv_value p \<le> pv_value q"
proof -
  let ?pick = "\<lambda>m y :: point_value. if pv_value y < pv_value m then y else m"
  have *: "foldl ?pick x ys \<in> insert x (set ys) \<and> (\<forall>q\<in>insert x (set ys). pv_value (foldl ?pick x ys) \<le> pv_value q)" for x ys
  proof (induction ys arbitrary: x)
    case (Cons y ys)
    from Cons [of "?pick x y"] show ?case by (auto split: if_splits)
  qed simp
  obtain x ys where "xs = x # ys" "p = foldl ?pick x ys" using assms by (cases xs) auto
  with * [of x ys] show "p \<in> set xs" "\<forall>q\<in>set xs. pv_value p \<le> pv_value q" by auto
qed

text \<open>A single output that suffices is the fewest possible, as the minimum is not zero.\<close>

definition fewest :: "uint64 \<Rightarrow> point_value list \<Rightarrow> point_value list \<Rightarrow> bool" where
  "fewest m unspent out \<longleftrightarrow> mset out \<subseteq># mset unspent \<and> unat m \<le> sum_list (map amount out) \<and>
     (\<forall>S. S \<subseteq># mset unspent \<longrightarrow> unat m \<le> (\<Sum>p\<in>#S. amount p) \<longrightarrow> length out \<le> size S) \<and>
     (\<forall>p\<in>set unspent. m \<le> pv_value p \<longrightarrow> (\<exists>q. out = [q] \<and> pv_value q \<le> pv_value p))"

lemma fewest_single:
  assumes "0 < m" and "q \<in> set unspent" and "m \<le> pv_value q" and "\<forall>p\<in>set unspent. m \<le> pv_value p \<longrightarrow> pv_value q \<le> pv_value p"
  shows "fewest m unspent [q]"
proof -
  have "0 < unat m" using assms(1) by (simp add: word_less_nat_alt)
  then have "1 \<le> size S" if "unat m \<le> (\<Sum>p\<in>#S. amount p)" for S using that by (cases S) auto
  then show ?thesis using assms by (auto simp: fewest_def word_le_nat_alt)
qed

lemma fewest_descending:
  assumes "mset ys = mset unspent" and "sorted_wrt (\<lambda>x y. amount y \<le> amount x) ys" and "k \<le> length ys"
    and "unat m \<le> sum_list (map amount (take k ys))" and "\<forall>j<k. sum_list (map amount (take j ys)) < unat m"
    and "\<forall>p\<in>set unspent. pv_value p < m"
  shows "fewest m unspent (take k ys)"
proof -
  have "mset (take k ys) \<subseteq># mset ys" by (metis append_take_drop_id mset_append mset_subset_eq_add_left)
  moreover have "length (take k ys) \<le> size S" if S: "S \<subseteq># mset unspent" "unat m \<le> (\<Sum>p\<in>#S. amount p)" for S
  proof (rule ccontr)
    assume "\<not> ?thesis"
    then have "size S < k" by simp
    then have "sum_list (map amount (take (size S) ys)) < unat m" using assms(5) by simp
    moreover have "(\<Sum>p\<in>#S. amount p) \<le> sum_list (map amount (take (size S) ys))"
      using descending_front [where f = amount, OF assms(2)] S(1) assms(1) by simp
    ultimately show False using S(2) by simp
  qed
  moreover have "\<not> m \<le> pv_value p" if "p \<in> set unspent" for p using assms(6) that by force
  ultimately show ?thesis using assms(1,4) by (simp add: fewest_def)
qed

lemma greedy_search:
  assumes "partitions part" and "sorts srt" and "0 < m" and "sum_list (map amount unspent) < 2 ^ 64"
    and "unat m \<le> sum_list (map amount unspent)" and "part (\<lambda>p. pv_value p < m) unspent = (low, high)"
  shows "\<exists>out. (case min_element (\<lambda>l r. pv_value l < pv_value r) high of Some p \<Rightarrow> Some [p]
      | None \<Rightarrow> greedy_loop m [] (srt (\<lambda>l r. pv_value l > pv_value r) (low @ high))) = Some out \<and> fewest m unspent out"
proof -
  have parts: "mset low + mset high = mset unspent" "\<forall>p\<in>set low. pv_value p < m" "\<forall>p\<in>set high. m \<le> pv_value p"
    using assms(1) [unfolded partitions_def, rule_format, where P = "\<lambda>p. pv_value p < m" and xs = unspent] assms(6)
    by (simp_all add: list_all_iff not_less)
  have set: "set unspent = set low \<union> set high"
    using arg_cong [OF parts(1), of set_mset] by simp
  show ?thesis
  proof (cases "min_element (\<lambda>l r. pv_value l < pv_value r) high")
    case (Some q)
    note q = min_element_least [OF this]
    have "pv_value q \<le> pv_value p" if "p \<in> set unspent" "m \<le> pv_value p" for p
      using that q(2) parts(2) by (auto simp: set)
    then have "fewest m unspent [q]" using q(1) parts(3) by (intro fewest_single assms(3)) (simp_all add: set)
    with Some show ?thesis by simp
  next
    case None
    then have high: "high = []" by (cases high) auto
    let ?ys = "srt (\<lambda>l r. pv_value l > pv_value r) low"
    have "strict_weak (\<lambda>l r :: point_value. pv_value l > pv_value r)" unfolding strict_weak_def by (auto simp: not_less)
    then have ys: "mset ?ys = mset unspent" "sorted_wrt (\<lambda>x y. amount y \<le> amount x) ?ys"
      using assms(2) parts(1) high by (auto simp: sorts_def not_less word_le_nat_alt)
    have "sum_mset (image_mset amount (mset ?ys)) = sum_mset (image_mset amount (mset unspent))" by (simp only: ys(1))
    then have "sum_list (map amount ?ys) = sum_list (map amount unspent)" by (simp add: sum_mset_sum_list flip: mset_map)
    then obtain k where k: "greedy_loop m [] ?ys = Some (take k ?ys)" "k \<le> length ?ys"
        "unat m \<le> sum_list (map amount (take k ?ys))" "\<forall>j<k. sum_list (map amount (take j ?ys)) < unat m"
      using greedy_loop_prefix [of "[]" ?ys m] assms(3,4,5) by (auto simp: word_less_nat_alt)
    have "\<forall>p\<in>set unspent. pv_value p < m" using set high parts(2) by simp
    from fewest_descending [OF ys k(2-4) this] k(1) None high show ?thesis by simp
  qed
qed

text \<open>
  C30. For a positive minimum, and a partition and a sort that meet the laws of the standard
  ones, the greedy selection throws only when the values sum to more than 64 bits, selects
  nothing when they do not reach the minimum, and otherwise selects outputs of the list that
  reach it, the fewest possible, and the smallest one if a single one suffices.
\<close>

theorem greedy_fewest:
  assumes "partitions part" and "sorts srt" and "0 < m"
  shows "case points_value_value unspent of
      None \<Rightarrow> greedy part srt unspent m = None
    | Some value \<Rightarrow>
        if value < m then greedy part srt unspent m = Some []
        else \<exists>out. greedy part srt unspent m = Some out \<and> fewest m unspent out"
proof (cases "sum_list (map amount unspent) < 2 ^ 64")
  case False
  then show ?thesis by (simp add: points_value_exact greedy_def)
next
  case True
  let ?total = "of_nat (sum_list (map amount unspent)) :: uint64"
  have total: "points_value_value unspent = Some ?total" "unat ?total = sum_list (map amount unspent)"
    using True unat_of_sum [OF True] by (simp_all add: points_value_exact)
  have "\<exists>out. greedy part srt unspent m = Some out \<and> fewest m unspent out" if enough: "\<not> ?total < m"
  proof (cases "length unspent = 1")
    case True
    then obtain p where p: "unspent = [p]" by (cases unspent) auto
    then have "m \<le> pv_value p" using enough total by (simp add: word_le_nat_alt not_less)
    with p fewest_single [OF assms(3), of p unspent] show ?thesis using enough total by (simp add: greedy_def)
  next
    case False
    obtain low high where part: "part (\<lambda>p. pv_value p < m) unspent = (low, high)" by fastforce
    have "unat m \<le> sum_list (map amount unspent)" using enough total(2) by (simp add: word_less_nat_alt)
    from greedy_search [OF assms True this part] show ?thesis
      using enough total False part by (simp add: greedy_def)
  qed
  then show ?thesis using total by (auto simp: greedy_def)
qed

text \<open>The other algorithm answers exactly the outputs that suffice alone, by ascending value.\<close>

lemma individual_exact:
  assumes "sorts srt"
  shows "mset (individual srt unspent m) = filter_mset (\<lambda>p. m \<le> pv_value p) (mset unspent) \<and>
    sorted_wrt (\<lambda>p q. pv_value p \<le> pv_value q) (individual srt unspent m)"
proof -
  have "strict_weak (\<lambda>l r :: point_value. pv_value l < pv_value r)" unfolding strict_weak_def by (auto simp: not_less)
  with assms show ?thesis by (auto simp: sorts_def individual_def not_less mset_filter)
qed

definition example_unspent :: "point_value list" where
  "example_unspent = map (\<lambda>v. \<lparr>point_hash = null_hash, point_index = 0, point_valid = True, pv_value = v\<rparr>) [3, 5, 4]"

text \<open>For the minimum zero an output is selected where none is needed.\<close>

lemma greedy_zero_minimum: "map pv_value (the (greedy stable_partition insertion_sort example_unspent 0)) = [3]"
  by code_simp

theorem greedy_fewest_witness:
  "map pv_value (the (greedy stable_partition insertion_sort example_unspent 8)) = [5, 4] \<and>
   (\<exists>out. greedy stable_partition insertion_sort example_unspent 8 = Some out \<and> fewest 8 example_unspent out)"
proof
  show "map pv_value (the (greedy stable_partition insertion_sort example_unspent 8)) = [5, 4]" by code_simp
  have "points_value_value example_unspent = Some 12" by code_simp
  then show "\<exists>out. greedy stable_partition insertion_sort example_unspent 8 = Some out \<and> fewest 8 example_unspent out"
    using greedy_fewest [OF standard_algorithms(2,1), of 8 example_unspent] by simp
qed

end
