(* ===== verification/Base64.thy ===== *)
theory Base64
  imports Formats
begin

unbundle bit_operations_syntax

text \<open>
  Base 64: \<^verbatim>\<open>src/formats/base_64.cpp\<close>.  The encoder packs three bytes into a 32 bit value and cuts it into four
  indexes; the decoder shifts the indexes of all characters through one 32 bit value and takes the low 24 bits after
  every fourth.
\<close>

definition base64_pad :: char where
  "base64_pad = CHR ''=''"

definition base64_table :: string where
  "base64_table = ''ABCDEFGHIJKLMNOPQRSTUVWXYZabcdefghijklmnopqrstuvwxyz0123456789+/''"

definition base64_entry :: "32 word \<Rightarrow> char" where
  "base64_entry index = base64_table ! unat index"

fun encode_base64 :: "data_chunk \<Rightarrow> string" where
  "encode_base64 [] = []"
| "encode_base64 [a] =
     (let value = push_bit 16 (ucast a :: 32 word)
      in [base64_entry (drop_bit 18 (value AND 0x00FC0000)), base64_entry (drop_bit 12 (value AND 0x0003F000)), base64_pad, base64_pad])"
| "encode_base64 [a, b] =
     (let value = push_bit 16 (ucast a :: 32 word) + push_bit 8 (ucast b)
      in [base64_entry (drop_bit 18 (value AND 0x00FC0000)), base64_entry (drop_bit 12 (value AND 0x0003F000)),
          base64_entry (drop_bit 6 (value AND 0x00000FC0)), base64_pad])"
| "encode_base64 (a # b # c # rest) =
     (let value = push_bit 16 (ucast a :: 32 word) + push_bit 8 (ucast b) + ucast c
      in [base64_entry (drop_bit 18 (value AND 0x00FC0000)), base64_entry (drop_bit 12 (value AND 0x0003F000)),
          base64_entry (drop_bit 6 (value AND 0x00000FC0)), base64_entry (value AND 0x0000003F)] @ encode_base64 rest)"

text \<open>The chain of comparisons of the decoder: the bits a character adds to the value.\<close>

definition base64_bits :: "char \<Rightarrow> 32 word option" where
  "base64_bits ch =
     (let c = of_char ch :: nat in
      if 0x41 \<le> c \<and> c \<le> 0x5A then Some (of_nat (c - 0x41))
      else if 0x61 \<le> c \<and> c \<le> 0x7A then Some (of_nat (c - 0x47))
      else if 0x30 \<le> c \<and> c \<le> 0x39 then Some (of_nat (c + 0x04))
      else if c = 0x2B then Some 0x3E
      else if c = 0x2F then Some 0x3F
      else None)"

definition low_byte :: "32 word \<Rightarrow> byte" where
  "low_byte value = ucast (value AND 0x000000FF)"

fun decode_base64_loop :: "string \<Rightarrow> nat \<Rightarrow> 32 word \<Rightarrow> data_chunk \<Rightarrow> data_chunk option" where
  "decode_base64_loop [] position value decoded = Some decoded"
| "decode_base64_loop (c # cs) position value decoded =
     (let value = push_bit 6 value in
      case base64_bits c of
        Some index \<Rightarrow>
          (let value = value OR index in
           if position = 3
           then decode_base64_loop cs 0 value
                  (decoded @ [low_byte (drop_bit 16 value), low_byte (drop_bit 8 value), low_byte value])
           else decode_base64_loop cs (position + 1) value decoded)
      | None \<Rightarrow>
          if c \<noteq> base64_pad then None
          else if length (c # cs) = 1 then Some (decoded @ [low_byte (drop_bit 16 value), low_byte (drop_bit 8 value)])
          else if length (c # cs) = 2 then Some (decoded @ [low_byte (drop_bit 10 value)])
          else None)"

definition decode_base64 :: "string \<Rightarrow> data_chunk option" where
  "decode_base64 s = (if length s mod 4 \<noteq> 0 then None else decode_base64_loop s 0 0 [])"

lemma base64_bits_pad: "base64_bits base64_pad = None"
  by (simp add: base64_bits_def base64_pad_def)

lemma base64_bits_entry:
  assumes "index < 64"
  shows "base64_bits (base64_entry index) = Some index"
proof -
  have "\<forall>i \<in> set [0..<64]. base64_bits (base64_table ! i) = Some (of_nat i)"
    by (simp add: base64_bits_def base64_table_def upt_rec)
  moreover have "unat index < 64" using assms by (simp add: word_less_nat_alt)
  ultimately show ?thesis by (simp add: base64_entry_def)
qed


lemma pack_or:
  fixes a b c :: byte
  shows "push_bit 16 (ucast a :: 32 word) + push_bit 8 (ucast b) = push_bit 16 (ucast a) OR push_bit 8 (ucast b)"
    and "push_bit 16 (ucast a :: 32 word) + push_bit 8 (ucast b) + ucast c = push_bit 16 (ucast a) OR push_bit 8 (ucast b) OR ucast c"
proof -
  show *: "push_bit 16 (ucast a :: 32 word) + push_bit 8 (ucast b) = push_bit 16 (ucast a) OR push_bit 8 (ucast b)"
    by (rule disjunctive_add_eq_or) (auto simp: bit_eq_iff bit_simps dest: bit_imp_le_length)
  show "push_bit 16 (ucast a :: 32 word) + push_bit 8 (ucast b) + ucast c = push_bit 16 (ucast a) OR push_bit 8 (ucast b) OR ucast c"
    unfolding * or.assoc [symmetric]
    by (rule disjunctive_add_eq_or) (auto simp: bit_eq_iff bit_simps dest: bit_imp_le_length)
qed

definition sextet :: "nat \<Rightarrow> 32 word \<Rightarrow> 32 word" where
  "sextet k value = drop_bit (6 * k) value AND 0x3F"

lemma masks:
  "drop_bit 18 (value AND 0x00FC0000) = sextet 3 value" "drop_bit 12 (value AND 0x0003F000) = sextet 2 value"
  "drop_bit 6 (value AND 0x00000FC0) = sextet 1 value" "value AND 0x0000003F = sextet 0 value"
  by (simp_all add: sextet_def drop_bit_and)

lemma sextet_less: "sextet k value < 64"
proof -
  have "unat (sextet k value) = take_bit 6 (unat (drop_bit (6 * k) value))"
    by (simp add: sextet_def unsigned_and_eq take_bit_eq_mask mask_numeral)
  also have "\<dots> < 2 ^ 6" by (rule take_bit_nat_less_exp)
  finally show ?thesis by (simp add: word_less_nat_alt)
qed

definition shifted :: "32 word \<Rightarrow> 32 word \<Rightarrow> 32 word" where
  "shifted value index = push_bit 6 value OR index"

lemma low_byte_ucast: "low_byte value = ucast value"
proof -
  have "value AND 0x000000FF = take_bit 8 value" by (simp add: take_bit_eq_mask mask_numeral)
  then show ?thesis unfolding low_byte_def by (simp only:) (auto intro: bit_word_eqI simp: bit_simps)
qed

lemma byte_bits:
  fixes x y :: byte
  shows "x = y \<longleftrightarrow> bit x 0 = bit y 0 \<and> bit x 1 = bit y 1 \<and> bit x 2 = bit y 2 \<and> bit x 3 = bit y 3 \<and> bit x 4 = bit y 4 \<and>
    bit x 5 = bit y 5 \<and> bit x 6 = bit y 6 \<and> bit x 7 = bit y 7"
proof -
  have less_8: "n < 8 \<Longrightarrow> n = 0 \<or> n = 1 \<or> n = 2 \<or> n = 3 \<or> n = 4 \<or> n = 5 \<or> n = 6 \<or> n = 7" for n :: nat by presburger
  show ?thesis (is "_ \<longleftrightarrow> ?bits")
  proof
    assume ?bits
    then have "bit x n = bit y n" if "n < 8" for n using less_8 [OF that] by (elim disjE) simp_all
    then show "x = y" by (intro bit_word_eqI) simp
  qed simp
qed

lemma byte_bit_high [simp]: "8 \<le> n \<Longrightarrow> \<not> bit (x :: byte) n"
  using bit_imp_le_length [of x n] by auto

lemma quad:
  fixes a b c :: byte and w :: "32 word"
  defines "value \<equiv> push_bit 16 (ucast a) OR push_bit 8 (ucast b) OR ucast c :: 32 word"
  defines "result \<equiv> shifted (shifted (shifted (shifted w (sextet 3 value)) (sextet 2 value)) (sextet 1 value)) (sextet 0 value)"
  shows "ucast (drop_bit 16 result) = a" "ucast (drop_bit 8 result) = b" "ucast result = c"
  unfolding byte_bits by (simp_all add: bit_simps shifted_def sextet_def value_def result_def)

lemma pair:
  fixes a b :: byte and w :: "32 word"
  defines "value \<equiv> push_bit 16 (ucast a) OR push_bit 8 (ucast b) :: 32 word"
  defines "result \<equiv> push_bit 6 (shifted (shifted (shifted w (sextet 3 value)) (sextet 2 value)) (sextet 1 value))"
  shows "ucast (drop_bit 16 result) = a" "ucast (drop_bit 8 result) = b"
  unfolding byte_bits by (simp_all add: bit_simps shifted_def sextet_def value_def result_def)

lemma single:
  fixes a :: byte and w :: "32 word"
  defines "value \<equiv> push_bit 16 (ucast a) :: 32 word"
  defines "result \<equiv> push_bit 6 (shifted (shifted w (sextet 3 value)) (sextet 2 value))"
  shows "ucast (drop_bit 10 result) = a"
  unfolding byte_bits by (simp add: bit_simps shifted_def sextet_def value_def result_def)

lemma decode_entry:
  assumes "index < 64"
  shows "decode_base64_loop (base64_entry index # cs) position w out =
    (let value = shifted w index in
     if position = 3
     then decode_base64_loop cs 0 value (out @ [ucast (drop_bit 16 value), ucast (drop_bit 8 value), ucast value])
     else decode_base64_loop cs (position + 1) value out)"
  using base64_bits_entry [OF assms] by (simp add: shifted_def low_byte_ucast Let_def)

lemma decode_base64_loop_encode: "decode_base64_loop (encode_base64 data) 0 w out = Some (out @ data)"
proof (induction data arbitrary: w out rule: encode_base64.induct)
  case 1
  show ?case by simp
next
  case (2 a)
  show ?case unfolding encode_base64.simps Let_def masks
    by (simp only: decode_entry [OF sextet_less] Let_def)
      (simp add: base64_bits_pad low_byte_ucast single Let_def)
next
  case (3 a b)
  show ?case unfolding encode_base64.simps Let_def pack_or masks
    by (simp only: decode_entry [OF sextet_less] Let_def)
      (simp add: base64_bits_pad low_byte_ucast pair Let_def del: One_nat_def)
next
  case (4 a b c rest)
  show ?case unfolding encode_base64.simps Let_def pack_or(2) masks
    by (simp only: append.simps decode_entry [OF sextet_less] Let_def)
      (simp add: quad 4 del: One_nat_def)
qed

lemma encode_base64_length: "length (encode_base64 data) = (length data + 2) div 3 * 4"
  proof (induction data rule: encode_base64.induct)
  case (4 a b c rest)
  have "(length (a # b # c # rest) + 2) div 3 = (length rest + 2) div 3 + 1"
    using div_add_self2 [of 3 "length rest + 2"] by (simp add: add.commute)
  then show ?case using 4 by (simp add: Let_def)
qed (simp_all add: Let_def)

text \<open>
  Decoding in base 64 undoes encoding, whatever the number of bytes of the last group, and the text has four characters
  for every group of three bytes or less.
\<close>

theorem base64_round_trip:
  "decode_base64 (encode_base64 data) = Some data \<and> length (encode_base64 data) = (length data + 2) div 3 * 4"
  by (simp add: decode_base64_def encode_base64_length decode_base64_loop_encode)

text \<open>After a pad in the place before the last the decoder returns without reading the last character.\<close>

lemma base64_last_unread: "decode_base64 ''AA=!'' = Some [0]"
  by (simp add: decode_base64_def base64_bits_def base64_pad_def low_byte_def)

end
