(* ===== verification/Cashaddr.thy ===== *)
theory Cashaddr
  imports Base64
begin

text \<open>
  The cashaddr format: \<^verbatim>\<open>src/wallet/cashaddr.cpp\<close>.  A checksum of eight 5 bit values makes the remainder of a
  polynomial over GF(32) equal to 1; the remainder is kept in 40 bits of a word.
\<close>

definition CHARSET :: string where
  "CHARSET = ''qpzry9x8gf2tvdw0s3jn54khce6mua7l''"

definition CHARSET_REV :: "int list" where
  "CHARSET_REV =
    [-1, -1, -1, -1, -1, -1, -1, -1, -1, -1, -1, -1, -1, -1, -1, -1,
     -1, -1, -1, -1, -1, -1, -1, -1, -1, -1, -1, -1, -1, -1, -1, -1,
     -1, -1, -1, -1, -1, -1, -1, -1, -1, -1, -1, -1, -1, -1, -1, -1,
     15, -1, 10, 17, 21, 20, 26, 30, 7, 5, -1, -1, -1, -1, -1, -1,
     -1, 29, -1, 24, 13, 25, 9, 8, 23, -1, 18, 22, 31, 27, 19, -1,
     1, 0, 3, 16, 11, 28, 12, 14, 6, 4, 2, -1, -1, -1, -1, -1,
     -1, 29, -1, 24, 13, 25, 9, 8, 23, -1, 18, 22, 31, 27, 19, -1,
     1, 0, 3, 16, 11, 28, 12, 14, 6, 4, 2, -1, -1, -1, -1, -1]"

definition poly_step :: "uint64 \<Rightarrow> byte \<Rightarrow> uint64" where
  "poly_step c d =
     (let c0 = ucast (drop_bit 35 c) :: byte;
          c = push_bit 5 (c AND 0x07ffffffff) XOR ucast d;
          c = (if c0 AND 0x01 \<noteq> 0 then c XOR 0x98f2bc8e61 else c);
          c = (if c0 AND 0x02 \<noteq> 0 then c XOR 0x79b76d99e2 else c);
          c = (if c0 AND 0x04 \<noteq> 0 then c XOR 0xf33e5fb3c4 else c);
          c = (if c0 AND 0x08 \<noteq> 0 then c XOR 0xae2eabe2a8 else c)
      in if c0 AND 0x10 \<noteq> 0 then c XOR 0x1e4f43e470 else c)"

definition poly_mod :: "data_chunk \<Rightarrow> uint64" where
  "poly_mod v = foldl poly_step 1 v XOR 1"

definition lower_case :: "char \<Rightarrow> char" where
  "lower_case c = char_of (ord c OR 0x20)"

definition expand_prefix :: "string \<Rightarrow> data_chunk" where
  "expand_prefix prefix = map (\<lambda>c. of_char c AND 0x1f) prefix @ [0]"

definition cashaddr_verify :: "string \<Rightarrow> data_chunk \<Rightarrow> bool" where
  "cashaddr_verify prefix payload \<longleftrightarrow> poly_mod (expand_prefix prefix @ payload) = 0"

definition create_checksum :: "string \<Rightarrow> data_chunk \<Rightarrow> data_chunk" where
  "create_checksum prefix payload =
     (let enc = expand_prefix prefix @ payload @ replicate 8 0; residue = poly_mod enc
      in map (\<lambda>i. ucast (drop_bit (5 * (7 - i)) residue AND 0x1f)) [0..<8])"

definition cashaddr_encode :: "string \<Rightarrow> data_chunk \<Rightarrow> string" where
  "cashaddr_encode prefix payload =
     (let combined = payload @ create_checksum prefix payload
      in prefix @ '':'' @ map (\<lambda>c. CHARSET ! unat c) combined)"

text \<open>The scan of the string: whether it has lower and upper case letters and the size of its prefix.\<close>

record scan =
  scan_lower :: bool
  scan_upper :: bool
  scan_number :: bool
  scan_prefix :: nat

fun scan_loop :: "string \<Rightarrow> nat \<Rightarrow> scan \<Rightarrow> scan option" where
  "scan_loop [] i st = Some st"
| "scan_loop (c # cs) i st =
     (if 97 \<le> ord c \<and> ord c \<le> 122 then scan_loop cs (i + 1) (st\<lparr>scan_lower := True\<rparr>)
      else if 65 \<le> ord c \<and> ord c \<le> 90 then scan_loop cs (i + 1) (st\<lparr>scan_upper := True\<rparr>)
      else if 48 \<le> ord c \<and> ord c \<le> 57 then scan_loop cs (i + 1) (st\<lparr>scan_number := True\<rparr>)
      else if c = CHR '':'' then
        if scan_number st \<or> i = 0 \<or> scan_prefix st \<noteq> 0 then None else scan_loop cs (i + 1) (st\<lparr>scan_prefix := i\<rparr>)
      else None)"

fun decode_values :: "string \<Rightarrow> data_chunk option" where
  "decode_values [] = Some []"
| "decode_values (c # cs) =
     (if ord c > 127 \<or> CHARSET_REV ! ord c = -1 then None
      else map_option ((#) (of_int (CHARSET_REV ! ord c))) (decode_values cs))"

text \<open>
  A failure is the pair of an empty prefix and an empty payload.  The checksum is taken off without a test of the
  number of values: with fewer than eight the range is undefined, the value \<open>None\<close>.
\<close>

definition cashaddr_decode :: "string \<Rightarrow> string \<Rightarrow> (string \<times> data_chunk) option" where
  "cashaddr_decode str default_prefix =
     (case scan_loop str 0 \<lparr>scan_lower = False, scan_upper = False, scan_number = False, scan_prefix = 0\<rparr> of
        None \<Rightarrow> Some ([], [])
      | Some st \<Rightarrow>
          if scan_upper st \<and> scan_lower st then Some ([], [])
          else
            let prefix = (if scan_prefix st = 0 then default_prefix else map lower_case (take (scan_prefix st) str));
                prefix_size = (if scan_prefix st = 0 then 0 else scan_prefix st + 1)
            in case decode_values (drop prefix_size str) of
                 None \<Rightarrow> Some ([], [])
               | Some vals \<Rightarrow>
                   if \<not> cashaddr_verify prefix vals then Some ([], [])
                   else if length vals < 8 then None
                   else Some (prefix, take (length vals - 8) vals))"

subsection \<open>The checksum is linear\<close>

definition poly_table :: "uint64 \<Rightarrow> uint64" where
  "poly_table c =
     (if bit c 35 then 0x98f2bc8e61 else 0) XOR (if bit c 36 then 0x79b76d99e2 else 0) XOR
     (if bit c 37 then 0xf33e5fb3c4 else 0) XOR (if bit c 38 then 0xae2eabe2a8 else 0) XOR
     (if bit c 39 then 0x1e4f43e470 else 0)"

lemma and_one_bit: "(x :: byte) AND push_bit k 1 \<noteq> 0 \<longleftrightarrow> bit x k"
  by (simp add: and_exp_eq_0_iff_not_bit push_bit_eq_mult)

lemma byte_tests:
  fixes x :: byte
  shows "x AND 0x01 \<noteq> 0 \<longleftrightarrow> bit x 0" "x AND 0x02 \<noteq> 0 \<longleftrightarrow> bit x 1" "x AND 0x04 \<noteq> 0 \<longleftrightarrow> bit x 2"
    "x AND 0x08 \<noteq> 0 \<longleftrightarrow> bit x 3" "x AND 0x10 \<noteq> 0 \<longleftrightarrow> bit x 4"
  using and_one_bit [of x 0] and_one_bit [of x 1] and_one_bit [of x 2] and_one_bit [of x 3] and_one_bit [of x 4]
  by simp_all

lemma poly_step_alt: "poly_step c d = push_bit 5 (c AND 0x07ffffffff) XOR ucast d XOR poly_table c"
proof -
  have "bit (ucast (drop_bit 35 c) :: byte) k \<longleftrightarrow> bit c (35 + k)" if "k < 8" for k
    using that by (simp add: bit_ucast_iff bit_drop_bit_eq)
  then show ?thesis unfolding poly_step_def Let_def byte_tests poly_table_def by (simp add: xor.assoc)
qed

lemma poly_table_xor: "poly_table (a XOR b) = poly_table a XOR poly_table b"
proof -
  have "(if p \<noteq> q then k else 0) = (if p then k else 0) XOR (if q then k else 0)" for p q and k :: uint64 by simp
  then show ?thesis unfolding poly_table_def bit_xor_iff by (simp only: xor.assoc xor.left_commute)
qed

lemma poly_step_xor: "poly_step (a XOR b) (d XOR e) = poly_step a d XOR poly_step b e"
proof -
  have "(a XOR b) AND m = (a AND m) XOR (b AND m)" for m :: uint64 by (simp add: bit_eq_iff bit_simps) blast
  moreover have "ucast (d XOR e) = (ucast d XOR ucast e :: uint64)" by (rule unsigned_xor_eq)
  ultimately show ?thesis
    unfolding poly_step_alt by (simp only: push_bit_xor poly_table_xor xor.assoc xor.left_commute)
qed

lemma poly_fold_xor:
  "length ds = length es \<Longrightarrow>
   foldl poly_step (a XOR b) (map2 (XOR) ds es) = foldl poly_step a ds XOR foldl poly_step b es"
  by (induction ds es arbitrary: a b rule: list_induct2) (simp_all add: poly_step_xor)

subsection \<open>The remainder has forty bits\<close>

lemma poly_table_bits: "take_bit 40 (poly_table c) = poly_table c"
proof -
  have "take_bit 40 (if p then k else 0) = (if p then k else 0)" if "take_bit 40 k = k" for p and k :: uint64
    using that by simp
  then show ?thesis unfolding poly_table_def take_bit_xor by simp
qed

lemma poly_step_bits: "take_bit 40 (poly_step c d) = poly_step c d"
proof -
  have "(c AND 0x07ffffffff) = take_bit 35 c" by (simp add: take_bit_eq_mask mask_numeral)
  then have "take_bit 40 (push_bit 5 (c AND 0x07ffffffff)) = push_bit 5 (c AND 0x07ffffffff)"
    by (simp add: take_bit_push_bit)
  moreover have "take_bit 40 (ucast d :: uint64) = ucast d"
    by (rule bit_word_eqI) (auto simp: bit_simps dest: bit_imp_le_length)
  ultimately show ?thesis unfolding poly_step_alt take_bit_xor poly_table_bits by simp
qed

lemma poly_fold_bits: "ds \<noteq> [] \<Longrightarrow> take_bit 40 (foldl poly_step c ds) = foldl poly_step c ds"
  by (cases ds rule: rev_cases) (simp_all add: poly_step_bits)

lemma poly_step_small:
  assumes "take_bit 35 c = c"
  shows "poly_step c d = push_bit 5 c XOR ucast d"
proof -
  have "\<not> bit c n" if "35 \<le> n" for n using that assms bit_take_bit_iff [of 35 c n] by simp
  then have "poly_table c = 0" by (simp add: poly_table_def)
  moreover have "c AND 0x07ffffffff = c" using assms by (simp add: take_bit_eq_mask mask_numeral)
  ultimately show ?thesis by (simp add: poly_step_alt)
qed

text \<open>The five bit groups of a value of forty bits, shifted in one after the other, give the value.\<close>

definition group5 :: "uint64 \<Rightarrow> nat \<Rightarrow> byte" where
  "group5 m i = ucast (drop_bit (5 * (7 - i)) m AND 0x1f)"

lemma shift_group:
  assumes "take_bit 40 m = m" and "i < 8"
  shows "poly_step (drop_bit (5 * (8 - i)) m) (group5 m i) = drop_bit (5 * (7 - i)) m"
proof -
  define x where "x = drop_bit (5 * (7 - i)) m"
  have "5 * (8 - i) = 5 + 5 * (7 - i)" using assms(2) by simp
  then have prev: "drop_bit (5 * (8 - i)) m = drop_bit 5 x" by (simp add: x_def)
  have high: "\<not> bit m n" if "40 \<le> n" for n using that assms(1) bit_take_bit_iff [of 40 m n] by simp
  have small: "take_bit 35 (drop_bit 5 x) = drop_bit 5 x"
  proof (rule bit_word_eqI)
    fix n
    show "bit (take_bit 35 (drop_bit 5 x)) n = bit (drop_bit 5 x) n"
      using high [of "5 + 5 * (7 - i) + n"] by (cases "n < 35") (simp_all add: bit_simps x_def)
  qed
  have "ucast (group5 m i) = take_bit 5 x"
  proof -
    have "x AND 0x1f = take_bit 5 x" by (simp add: take_bit_eq_mask mask_numeral)
    then show ?thesis unfolding group5_def x_def [symmetric] by (auto intro!: bit_word_eqI simp: bit_simps)
  qed
  then have "poly_step (drop_bit 5 x) (group5 m i) = push_bit 5 (drop_bit 5 x) XOR take_bit 5 x"
    unfolding poly_step_small [OF small] by simp
  also have "\<dots> = x" by (rule bit_word_eqI) (auto simp: bit_simps)
  finally show ?thesis unfolding prev x_def .
qed

lemma shift_groups:
  assumes "take_bit 40 m = m" and "n \<le> 8"
  shows "foldl poly_step 0 (map (group5 m) [0..<n]) = drop_bit (5 * (8 - n)) m"
  using assms(2)
proof (induction n)
  case 0
  have "drop_bit 40 m = 0" by (rule bit_word_eqI) (use assms(1) bit_take_bit_iff [of 40 m] in \<open>auto simp: bit_simps\<close>)
  then show ?case by simp
next
  case (Suc n)
  then show ?case using shift_group [OF assms(1), of n] by simp
qed

lemma map2_zeros: "map2 (XOR) (replicate (length ds) 0) ds = (ds :: data_chunk)"
  by (induction ds) simp_all

lemma checksum_verifies: "cashaddr_verify prefix (payload @ create_checksum prefix payload)"
proof -
  let ?v = "expand_prefix prefix @ payload"
  let ?m = "poly_mod (?v @ replicate 8 0)"
  let ?ck = "map (group5 ?m) [0..<8]"
  have ck: "create_checksum prefix payload = ?ck" by (simp add: create_checksum_def group5_def Let_def)
  have "take_bit 40 (1 :: uint64) = 1" by simp
  then have m: "take_bit 40 ?m = ?m"
    unfolding poly_mod_def take_bit_xor by (simp only: poly_fold_bits [of "?v @ replicate 8 0"] append_is_Nil_conv) 
      (simp add: poly_fold_bits)
  let ?c = "foldl poly_step 1 ?v"
  have "foldl poly_step 1 (?v @ ?ck) = foldl poly_step (?c XOR 0) (map2 (XOR) (replicate 8 0) ?ck)"
    using map2_zeros [of ?ck] by simp
  also have "\<dots> = foldl poly_step ?c (replicate 8 0) XOR foldl poly_step 0 ?ck"
    by (rule poly_fold_xor) simp
  also have "\<dots> = (?m XOR 1) XOR ?m" using shift_groups [OF m, of 8] by (simp add: poly_mod_def xor.assoc)
  also have "\<dots> = 1" by (simp add: xor.commute xor.left_commute)
  finally have "poly_mod (?v @ ?ck) = 0" by (simp add: poly_mod_def)
  then show ?thesis by (simp add: cashaddr_verify_def ck)
qed

subsection \<open>Detection of errors\<close>

text \<open>The low bits of the table are the bits that select its entries, so a step from a value other than zero is not zero.\<close>

lemma poly_table_low: "k < 5 \<Longrightarrow> bit (poly_table c) k \<longleftrightarrow> bit c (35 + k)"
proof -
  assume "k < 5"
  then have "k = 0 \<or> k = 1 \<or> k = 2 \<or> k = 3 \<or> k = 4" by auto
  then show ?thesis by (elim disjE) (simp_all add: poly_table_def bit_xor_iff)
qed

lemma poly_step_nonzero:
  assumes "take_bit 40 c = c" and "poly_step c 0 = 0"
  shows "c = 0"
proof -
  have "\<not> bit c (35 + k)" if "k < 5" for k
  proof -
    have "\<not> bit (push_bit 5 (c AND 0x07ffffffff)) k" using that by (simp only: bit_push_bit_iff) simp
    then have "bit (poly_step c 0) k \<longleftrightarrow> bit (poly_table c) k" unfolding poly_step_alt bit_xor_iff by simp
    then show ?thesis using poly_table_low [OF that, of c] assms(2) by simp
  qed
  then have high: "\<not> bit c (35 + (n - 35))" if "n < 40" for n using that by simp
  have small: "take_bit 35 c = c"
  proof (rule bit_word_eqI)
    fix n
    have "bit c n \<Longrightarrow> n < 40" using assms(1) bit_take_bit_iff [of 40 c n] by simp
    then show "bit (take_bit 35 c) n = bit c n" using high [of n] unfolding bit_take_bit_iff by (cases "n < 35") auto
  qed
  then have "push_bit 5 c = 0" using poly_step_small [OF small, of 0] assms(2) by simp
  moreover have "bit (push_bit 5 c) (n + 5) = bit c n" for n
  proof -
    have "bit c n \<Longrightarrow> n < 35" using small bit_take_bit_iff [of 35 c n] by simp
    then show ?thesis unfolding bit_push_bit_iff by auto
  qed
  ultimately have "\<not> bit c n" for n by (metis bit_0_eq bot_apply bot_bool_def)
  then show ?thesis by (simp add: bit_eq_iff)
qed

lemma poly_fold_zeros: "take_bit 40 c = c \<Longrightarrow> foldl poly_step c (replicate n 0) = 0 \<Longrightarrow> c = 0"
proof (induction n arbitrary: c)
  case (Suc n)
  then show ?case using poly_step_nonzero [of c] poly_step_bits [of c 0] by simp
qed simp

lemma small_byte_bits: "(e :: byte) < 32 \<longleftrightarrow> (\<forall>n. 5 \<le> n \<longrightarrow> \<not> bit e n)"
proof -
  have "e < 32 \<longleftrightarrow> unat e < 2 ^ 5" by (simp add: word_less_nat_alt)
  also have "\<dots> \<longleftrightarrow> take_bit 5 (unat e) = unat e" by (simp only: take_bit_nat_eq_self_iff)
  also have "\<dots> \<longleftrightarrow> (\<forall>n. bit (take_bit 5 (unat e)) n = bit (unat e) n)" by (simp only: bit_eq_iff possible_bit_nat simp_thms)
  also have "\<dots> \<longleftrightarrow> (\<forall>n. bit (unat e) n \<longrightarrow> n < 5)" unfolding bit_take_bit_iff by blast
  also have "\<dots> \<longleftrightarrow> (\<forall>n. 5 \<le> n \<longrightarrow> \<not> bit e n)"
    using bit_unsigned_iff [of e, where 'a = nat] by (simp only: possible_bit_nat simp_thms) (meson not_le)
  finally show ?thesis .
qed

lemma xor_small_byte: "(d :: byte) < 32 \<Longrightarrow> e < 32 \<Longrightarrow> d XOR e < 32"
  by (simp add: small_byte_bits bit_xor_iff)

lemma poly_fold_burst:
  "length es \<le> 8 \<Longrightarrow> list_all (\<lambda>e. e < 32) es \<Longrightarrow>
   take_bit (5 * length es) (foldl poly_step 0 es) = foldl poly_step 0 es \<and> (foldl poly_step 0 es = 0 \<longrightarrow> es = replicate (length es) 0)"
proof (induction es rule: rev_induct)
  case (snoc e es)
  let ?c = "foldl poly_step 0 es"
  have IH: "take_bit (5 * length es) ?c = ?c" "?c = 0 \<Longrightarrow> es = replicate (length es) 0" using snoc by auto
  have high: "\<not> bit ?c n" if "5 * length es \<le> n" for n
    using that IH(1) bit_take_bit_iff [of "5 * length es" ?c n] by simp
  have len: "5 * length es \<le> 35" using snoc.prems by simp
  have "take_bit 35 ?c = ?c"
  proof (rule bit_word_eqI)
    fix n
    show "bit (take_bit 35 ?c) n = bit ?c n" using high [of n] len by (cases "n < 35") (simp_all add: bit_simps)
  qed
  then have step: "foldl poly_step 0 (es @ [e]) = push_bit 5 ?c XOR ucast e" using poly_step_small [of ?c e] by simp
  have "e < 32" using snoc.prems by simp
  then have e: "\<not> bit e n" if "5 \<le> n" for n
    using small_byte_bits that by blast
  have bits: "bit (push_bit 5 ?c XOR ucast e) n \<longleftrightarrow> (if n < 5 then bit e n else n < 64 \<and> bit ?c (n - 5))" for n
    using e [of n] by (auto simp: bit_simps)
  have "take_bit (5 * length (es @ [e])) (push_bit 5 ?c XOR ucast e) = push_bit 5 ?c XOR ucast e"
  proof (rule bit_word_eqI)
    fix n
    show "bit (take_bit (5 * length (es @ [e])) (push_bit 5 ?c XOR ucast e)) n = bit (push_bit 5 ?c XOR ucast e) n"
      using high [of "n - 5"] unfolding bit_take_bit_iff bits by (cases "n < 5 * length (es @ [e])") auto
  qed
  moreover have "e = 0 \<and> ?c = 0" if "push_bit 5 ?c XOR ucast e = 0"
  proof -
    have none: "\<not> (if n < 5 then bit e n else n < 64 \<and> bit ?c (n - 5))" for n using bits [of n] that by simp
    have "\<not> bit e n" for n using none [of n] e [of n] by (cases "n < 5") auto
    moreover have "\<not> bit ?c n" for n
      using none [of "n + 5"] high [of n] len by (cases "n < 59") auto
    ultimately show ?thesis by (simp add: bit_eq_iff)
  qed
  moreover have "replicate (length es) 0 @ [0] = replicate (length (es @ [0])) (0 :: byte)" by (simp add: replicate_append_same)
  ultimately show ?case using IH(2) unfolding step by (metis length_append_singleton)
qed simp

lemma map2_xor_zero: "length a = length b \<Longrightarrow> map2 (XOR) a b = replicate (length a) 0 \<Longrightarrow> a = (b :: data_chunk)"
proof (induction a b rule: list_induct2)
  case (Cons x a y b)
  then have "x XOR y = 0" by simp
  then have "x XOR (y XOR y) = y" by (simp only: xor.assoc [symmetric]) simp
  then show ?case using Cons by simp
qed simp

lemma poly_mod_burst:
  assumes "length m = length m'" and "length m \<le> 8" and "list_all (\<lambda>d. d < 32) m" and "list_all (\<lambda>d. d < 32) m'"
    and "poly_mod (a @ m @ b) = poly_mod (a @ m' @ b)"
  shows "m = m'"
proof -
  let ?c = "foldl poly_step 1 a" and ?es = "map2 (XOR) m m'"
  have len: "length ?es = length m" using assms(1) by simp
  have zero: "foldl poly_step 0 (?es @ replicate (length b) 0) = 0"
  proof -
    have "foldl poly_step (?c XOR ?c) (map2 (XOR) (m @ b) (m' @ b)) = foldl poly_step ?c (m @ b) XOR foldl poly_step ?c (m' @ b)"
      using assms(1) by (intro poly_fold_xor) simp
    moreover have "map2 (XOR) b b = replicate (length b) (0 :: byte)" by (induction b) simp_all
    moreover have "foldl poly_step ?c (m @ b) = foldl poly_step ?c (m' @ b)"
    proof -
      have "x = y" if "x XOR 1 = y XOR 1" for x y :: uint64
        using arg_cong [OF that, of "\<lambda>w. w XOR 1"] by (simp only: xor.assoc xor_self_eq xor.right_neutral)
      then show ?thesis using assms(5) by (simp add: poly_mod_def)
    qed
    ultimately show ?thesis using assms(1) by simp
  qed
  have small: "list_all (\<lambda>e. e < 32) ?es"
    using assms(1,3,4)
  proof (induction m m' rule: list_induct2)
    case (Cons d ds e es)
    then show ?case using xor_small_byte [of d e] by simp
  qed simp
  have burst: "take_bit (5 * length m) (foldl poly_step 0 ?es) = foldl poly_step 0 ?es"
    "foldl poly_step 0 ?es = 0 \<Longrightarrow> ?es = replicate (length m) 0"
    using poly_fold_burst [OF _ small] assms(2) len by simp_all
  have "take_bit 40 (foldl poly_step 0 ?es) = foldl poly_step 0 ?es"
  proof (cases ?es rule: rev_cases)
    case (snoc es e)
    then show ?thesis by (simp add: poly_step_bits)
  next
    case Nil
    show ?thesis unfolding Nil by simp
  qed
  then have "?es = replicate (length m) 0" using burst(2) poly_fold_zeros [of "foldl poly_step 0 ?es" "length b"] zero by simp
  then show ?thesis using map2_xor_zero [OF assms(1)] by blast
qed

text \<open>
  C22. The checksum of a cash address detects every error confined to eight consecutive
  symbols: no change of them turns a valid payload into a valid one.
\<close>

theorem cashaddr_detects_bursts:
  assumes "cashaddr_verify prefix (a @ m @ b)" and "length m = length m'" and "length m \<le> 8" and "m \<noteq> m'"
    and "list_all (\<lambda>d. d < 32) m" and "list_all (\<lambda>d. d < 32) m'"
  shows "\<not> cashaddr_verify prefix (a @ m' @ b)"
  using poly_mod_burst [OF assms(2,3,5,6), of "expand_prefix prefix @ a" b] assms(1,4) by (auto simp: cashaddr_verify_def)

theorem cashaddr_detects_bursts_witness:
  "\<not> cashaddr_verify ''bchtest'' ([] @ [1, 2, 4] @ create_checksum ''bchtest'' [1, 2, 3])"
  using cashaddr_detects_bursts [of "''bchtest''" "[]" "[1, 2, 3]" "create_checksum ''bchtest'' [1, 2, 3]" "[1, 2, 4]"]
    checksum_verifies [of "''bchtest''" "[1, 2, 3]"]
  by simp

subsection \<open>Decoding\<close>

lemma CHARSET_chars:
  "i < 32 \<Longrightarrow> \<not> ord (CHARSET ! i) > 127 \<and> CHARSET_REV ! ord (CHARSET ! i) = int i \<and> CHARSET_REV ! ord (CHARSET ! i) \<noteq> -1 \<and> CHARSET ! i \<noteq> CHR '':'' \<and>
    (97 \<le> ord (CHARSET ! i) \<and> ord (CHARSET ! i) \<le> 122 \<or> 48 \<le> ord (CHARSET ! i) \<and> ord (CHARSET ! i) \<le> 57)"
proof -
  have "\<forall>i \<in> set [0..<32]. \<not> ord (CHARSET ! i) > 127 \<and> CHARSET_REV ! ord (CHARSET ! i) = int i \<and> CHARSET_REV ! ord (CHARSET ! i) \<noteq> -1 \<and> CHARSET ! i \<noteq> CHR '':'' \<and>
    (97 \<le> ord (CHARSET ! i) \<and> ord (CHARSET ! i) \<le> 122 \<or> 48 \<le> ord (CHARSET ! i) \<and> ord (CHARSET ! i) \<le> 57)"
    by (simp add: upt_rec CHARSET_def CHARSET_REV_def)
  then show "i < 32 \<Longrightarrow> ?thesis" by simp
qed

lemma decode_values_map: "list_all (\<lambda>d. d < 32) ds \<Longrightarrow> decode_values (map (\<lambda>c. CHARSET ! unat c) ds) = Some ds"
proof (induction ds)
  case (Cons d ds)
  then have "unat d < 32" by (simp add: word_less_nat_alt)
  from CHARSET_chars [OF this] have "\<not> ord (CHARSET ! unat d) > 127" "CHARSET_REV ! ord (CHARSET ! unat d) = int (unat d)"
    "CHARSET_REV ! ord (CHARSET ! unat d) \<noteq> -1" by blast+
  then show ?case using Cons by simp
qed simp

definition is_lower_letter :: "char \<Rightarrow> bool" where
  "is_lower_letter c \<longleftrightarrow> 97 \<le> ord c \<and> ord c \<le> 122"

lemma scan_prefix_letters:
  "list_all is_lower_letter p \<Longrightarrow>
   scan_loop (p @ cs) i st = scan_loop cs (i + length p) (if p = [] then st else st\<lparr>scan_lower := True\<rparr>)"
  by (induction p arbitrary: i st) (auto simp: is_lower_letter_def)

lemma scan_payload:
  fixes ds :: data_chunk
  shows "list_all (\<lambda>d. d < 32) ds \<Longrightarrow>
   \<exists>st'. scan_loop (map (\<lambda>c. CHARSET ! unat c) ds) i st = Some st' \<and> scan_upper st' = scan_upper st \<and> scan_prefix st' = scan_prefix st"
proof (induction ds arbitrary: i st)
  case (Cons d ds)
  then have "unat d < 32" by (simp add: word_less_nat_alt)
  then show ?case
    using CHARSET_chars [of "unat d"] Cons.IH [of "i + 1" "st\<lparr>scan_lower := True\<rparr>"] Cons.IH [of "i + 1" "st\<lparr>scan_number := True\<rparr>"] Cons.prems
    by auto
qed simp

lemma lower_case_letter: "is_lower_letter c \<Longrightarrow> lower_case c = c"
proof -
  assume "is_lower_letter c"
  then have "ord c \<in> set [97..<123]" by (simp only: is_lower_letter_def set_upt atLeastLessThan_iff) simp
  moreover have "\<forall>n \<in> set [97..<123]. n OR 0x20 = (n :: nat)" by simp
  ultimately have "ord c OR 0x20 = ord c" by blast
  then show ?thesis by (simp add: lower_case_def)
qed

lemma group5_small: "group5 m i < 32"
proof -
  have "drop_bit (5 * (7 - i)) m AND 0x1f = take_bit 5 (drop_bit (5 * (7 - i)) m)" by (simp add: take_bit_eq_mask mask_numeral)
  then show ?thesis unfolding small_byte_bits group5_def by (auto simp: bit_simps)
qed

lemma create_checksum_small: "list_all (\<lambda>d. d < 32) (create_checksum prefix payload)" "length (create_checksum prefix payload) = 8"
  using group5_small unfolding create_checksum_def Let_def group5_def [symmetric] by (simp_all add: list_all_iff del: upt_conv_Cons)

lemma decode_encode_cashaddr:
  assumes "prefix \<noteq> []" and "list_all is_lower_letter prefix" and "list_all (\<lambda>d. d < 32) payload"
  shows "cashaddr_decode (cashaddr_encode prefix payload) default_prefix = Some (prefix, payload)"
proof -
  let ?ck = "create_checksum prefix payload"
  let ?ds = "payload @ ?ck"
  have ds: "list_all (\<lambda>d. d < 32) ?ds" using assms(3) create_checksum_small by simp
  let ?s = "prefix @ CHR '':'' # map (\<lambda>c. CHARSET ! unat c) ?ds"
  have s: "cashaddr_encode prefix payload = ?s" by (simp add: cashaddr_encode_def)
  let ?st0 = "\<lparr>scan_lower = False, scan_upper = False, scan_number = False, scan_prefix = 0\<rparr>"
  obtain st where st: "scan_loop ?s 0 ?st0 = Some st" "\<not> scan_upper st" "scan_prefix st = length prefix"
    using scan_prefix_letters [OF assms(2), of "CHR '':'' # map (\<lambda>c. CHARSET ! unat c) ?ds" 0 ?st0]
      scan_payload [OF ds, of "length prefix + 1" "?st0\<lparr>scan_lower := True, scan_prefix := length prefix\<rparr>"] assms(1)
    by auto
  have "map lower_case prefix = prefix" using assms(2) lower_case_letter by (auto simp: list_all_iff intro: map_idI)
  then show ?thesis
    unfolding s cashaddr_decode_def st(1) using st(2,3) assms(1) decode_values_map [OF ds] checksum_verifies [of prefix payload] create_checksum_small(2)
    by simp
qed

text \<open>
  Decoding an encoded payload gives back its prefix, in lower case letters, and the payload, for payloads of 5 bit
  values.
\<close>

theorem cashaddr_round_trip:
  assumes "prefix \<noteq> []" and "list_all is_lower_letter prefix" and "list_all (\<lambda>d. d < 32) payload"
  shows "cashaddr_decode (cashaddr_encode prefix payload) default_prefix = Some (prefix, payload)"
  by (rule decode_encode_cashaddr [OF assms])

theorem cashaddr_round_trip_witness:
  "cashaddr_decode (cashaddr_encode ''bchtest'' [31, 0, 7]) ''bitcoincash'' = Some (''bchtest'', [31, 0, 7])"
  by (rule cashaddr_round_trip) (simp_all add: is_lower_letter_def word_less_nat_alt)

end
