(* ===== verification/Payment_Address.thy ===== *)
theory Payment_Address
  imports Keys Cashaddr
begin

unbundle bit_operations_syntax

text \<open>
  Payment addresses: \<^verbatim>\<open>src/wallet/payment_address.cpp\<close>.  An address is a version and a short hash; it has a base 58
  text with a checksum and, for Bitcoin Cash, a cashaddr text.  The compile time currency and the configured prefix are
  parameters.
\<close>

record payment_address =
  addr_valid :: bool
  addr_version :: byte
  addr_hash :: data_chunk

definition mainnet_p2kh :: "currency \<Rightarrow> byte" where
  "mainnet_p2kh cur = (if cur = litecoin then 0x30 else 0x00)"

abbreviation (input) mainnet_p2sh :: byte where "mainnet_p2sh \<equiv> 0x05"
abbreviation (input) testnet_p2kh :: byte where "testnet_p2kh \<equiv> 0x6f"
abbreviation (input) testnet_p2sh :: byte where "testnet_p2sh \<equiv> 0xc4"
abbreviation (input) payment_size :: nat where "payment_size \<equiv> 25"

definition cashaddr_prefix_mainnet :: string where "cashaddr_prefix_mainnet = ''bitcoincash''"
definition cashaddr_prefix_testnet :: string where "cashaddr_prefix_testnet = ''bchtest''"

definition payment_address_null :: payment_address where
  "payment_address_null = \<lparr>addr_valid = False, addr_version = 0, addr_hash = replicate 20 0\<rparr>"

definition payment_address_of :: "data_chunk \<Rightarrow> byte \<Rightarrow> payment_address" where
  "payment_address_of hash v = \<lparr>addr_valid = True, addr_version = v, addr_hash = hash\<rparr>"

definition is_address :: "hash_functions \<Rightarrow> data_chunk \<Rightarrow> bool" where
  "is_address H decoded \<longleftrightarrow> length decoded = payment_size \<and> verify_checksum H decoded"

subsection \<open>Regrouping of bits\<close>

text \<open>The inner loop of \<^verbatim>\<open>ConvertBits\<close> takes whole groups from the accumulator.\<close>

function emit_groups :: "nat \<Rightarrow> nat \<Rightarrow> nat \<Rightarrow> data_chunk \<times> nat" where
  "emit_groups tobits acc nbits =
     (if tobits = 0 \<or> nbits < tobits then ([], nbits)
      else let nbits = nbits - tobits; (out, rest) = emit_groups tobits acc nbits
           in (of_nat (drop_bit nbits acc AND (2 ^ tobits - 1)) # out, rest))"
  by auto
termination by (relation "measure (\<lambda>(tobits, acc, nbits). nbits)") auto

declare emit_groups.simps [simp del]

fun convert_loop :: "nat \<Rightarrow> nat \<Rightarrow> data_chunk \<Rightarrow> nat \<Rightarrow> nat \<Rightarrow> data_chunk \<times> nat \<times> nat" where
  "convert_loop frombits tobits [] acc nbits = ([], acc, nbits)"
| "convert_loop frombits tobits (x # xs) acc nbits =
     (let acc = (push_bit frombits acc OR unat x) AND (2 ^ (frombits + tobits - 1) - 1);
          nbits = nbits + frombits;
          (out, nbits) = emit_groups tobits acc nbits;
          (rest, acc, nbits) = convert_loop frombits tobits xs acc nbits
      in (out @ rest, acc, nbits))"

definition convert_bits :: "nat \<Rightarrow> nat \<Rightarrow> bool \<Rightarrow> data_chunk \<Rightarrow> bool \<times> data_chunk" where
  "convert_bits frombits tobits pad xs =
     (let (out, acc, nbits) = convert_loop frombits tobits xs 0 0 in
      if \<not> pad \<and> nbits \<noteq> 0 then (False, out)
      else if pad \<and> nbits \<noteq> 0 then (True, out @ [of_nat (push_bit (tobits - nbits) acc AND (2 ^ tobits - 1))])
      else (True, out))"

subsection \<open>Factories and text\<close>

text \<open>
  Decoding a cashaddr text.  The hash sizes the format allows above 20 bytes are copied into an array of 20 bytes: that
  is undefined, the value \<open>None\<close>, as is a payload shorter than its checksum.
\<close>

definition from_string_cashaddr :: "currency \<Rightarrow> string \<Rightarrow> string \<Rightarrow> payment_address option" where
  "from_string_cashaddr cur cashaddr_prefix address =
     (case cashaddr_decode address cashaddr_prefix of
        None \<Rightarrow> None
      | Some (prefix, payload) \<Rightarrow>
          if prefix \<noteq> cashaddr_prefix then Some payment_address_null
          else if payload = [] then Some payment_address_null
          else
            let extrabits = length payload * 5 mod 8 in
            if extrabits \<ge> 5 then Some payment_address_null
            else if last payload AND (2 ^ extrabits - 1) \<noteq> 0 then Some payment_address_null
            else
              let data = snd (convert_bits 5 8 False payload);
                  v = (if data = [] then 0 else hd data)
              in if data = [] then None
                 else if v AND 0x80 \<noteq> 0 then Some payment_address_null
                 else
                   let type = drop_bit 3 v AND 0x1f;
                       hash_size = 20 + 4 * unat (v AND 0x03);
                       hash_size = (if v AND 0x04 \<noteq> 0 then hash_size * 2 else hash_size)
                   in if length data \<noteq> hash_size + 1 then Some payment_address_null
                      else if hash_size > 20 then None
                      else Some (payment_address_of (drop 1 data)
                             (if prefix = cashaddr_prefix_mainnet then (if type = 0 then mainnet_p2kh cur else mainnet_p2sh)
                              else (if type = 0 then testnet_p2kh else testnet_p2sh))))"

definition from_payment :: "hash_functions \<Rightarrow> data_chunk \<Rightarrow> payment_address" where
  "from_payment H decoded =
     (if \<not> is_address H decoded then payment_address_null else payment_address_of (take 20 (drop 1 decoded)) (hd decoded))"

definition address_from_string :: "currency \<Rightarrow> hash_functions \<Rightarrow> string \<Rightarrow> string \<Rightarrow> payment_address option" where
  "address_from_string cur H cashaddr_prefix address =
     (case decode_base58_private payment_size address of
        Some decoded \<Rightarrow>
          if is_address H decoded then Some (from_payment H decoded)
          else if is_bch cur then from_string_cashaddr cur cashaddr_prefix address else Some payment_address_null
      | None \<Rightarrow> if is_bch cur then from_string_cashaddr cur cashaddr_prefix address else Some payment_address_null)"

definition from_public :: "'k secp256k1 \<Rightarrow> hash_functions \<Rightarrow> ec_public \<Rightarrow> byte \<Rightarrow> payment_address" where
  "from_public C H point v =
     (if \<not> pub_valid point then payment_address_null
      else case ec_public_to_data C point of
             None \<Rightarrow> payment_address_null
           | Some data \<Rightarrow> payment_address_of (bitcoin_short_hash H data) v)"

definition from_private :: "'k secp256k1 \<Rightarrow> hash_functions \<Rightarrow> ec_private \<Rightarrow> payment_address" where
  "from_private C H secret =
     (if \<not> sec_valid secret then payment_address_null
      else from_public C H (ec_private_to_public C secret) (to_address_prefix (sec_version secret)))"

definition from_script :: "hash_functions \<Rightarrow> script \<Rightarrow> byte \<Rightarrow> payment_address" where
  "from_script H s v = payment_address_of (bitcoin_short_hash H (script_to_data s False)) v"

definition to_payment :: "hash_functions \<Rightarrow> payment_address \<Rightarrow> data_chunk" where
  "to_payment H address = checked_array H payment_size [[addr_version address], addr_hash address]"

definition address_encoded :: "hash_functions \<Rightarrow> payment_address \<Rightarrow> string" where
  "address_encoded H address = encode_base58 (checked_array H payment_size [[addr_version address], addr_hash address])"

text \<open>A size of the hash that the format does not have raises an error.\<close>

definition pack_addr_data :: "data_chunk \<Rightarrow> byte \<Rightarrow> data_chunk option" where
  "pack_addr_data ident type =
     (let encoded_size =
            (if length ident = 20 then Some 0 else if length ident = 24 then Some 1 else if length ident = 28 then Some 2
             else if length ident = 32 then Some 3 else if length ident = 40 then Some 4 else if length ident = 48 then Some 5
             else if length ident = 56 then Some 6 else if length ident = 64 then Some 7 else None)
      in case encoded_size of
           None \<Rightarrow> None
         | Some n \<Rightarrow> Some (snd (convert_bits 8 5 True ((push_bit 3 type OR n) # ident))))"

definition encode_cashaddr :: "currency \<Rightarrow> payment_address \<Rightarrow> string option" where
  "encode_cashaddr cur wallet =
     (if addr_version wallet = mainnet_p2kh cur \<or> addr_version wallet = mainnet_p2sh
      then map_option (cashaddr_encode cashaddr_prefix_mainnet)
             (pack_addr_data (addr_hash wallet) (if addr_version wallet = mainnet_p2kh cur then 0 else 1))
      else if addr_version wallet = testnet_p2kh \<or> addr_version wallet = testnet_p2sh
      then map_option (cashaddr_encode cashaddr_prefix_testnet)
             (pack_addr_data (addr_hash wallet) (if addr_version wallet = testnet_p2kh then 0 else 1))
      else Some [])"

subsection \<open>Extraction from scripts\<close>

definition extract_input :: "'k secp256k1 \<Rightarrow> hash_functions \<Rightarrow> operation list \<Rightarrow> byte \<Rightarrow> byte \<Rightarrow> payment_address list" where
  "extract_input C H ops p2kh p2sh =
     (case input_pattern ops of
        sign_key_hash \<Rightarrow>
          [from_public C H (ec_public_from_data C (op_data (ops ! 1))) p2kh,
           payment_address_of (bitcoin_short_hash H (op_data (last ops))) p2sh]
      | sign_script_hash \<Rightarrow> [payment_address_of (bitcoin_short_hash H (op_data (last ops))) p2sh]
      | _ \<Rightarrow> [])"

definition extract_output :: "'k secp256k1 \<Rightarrow> hash_functions \<Rightarrow> operation list \<Rightarrow> byte \<Rightarrow> byte \<Rightarrow> payment_address list" where
  "extract_output C H ops p2kh p2sh =
     (case output_pattern ops of
        pay_key_hash \<Rightarrow> [payment_address_of (op_data (ops ! 2)) p2kh]
      | pay_script_hash \<Rightarrow> [payment_address_of (op_data (ops ! 1)) p2sh]
      | pay_public_key \<Rightarrow> [from_public C H (ec_public_from_data C (op_data (ops ! 0))) p2kh]
      | _ \<Rightarrow> [])"

definition extract_addresses :: "'k secp256k1 \<Rightarrow> hash_functions \<Rightarrow> operation list \<Rightarrow> byte \<Rightarrow> byte \<Rightarrow> payment_address list" where
  "extract_addresses C H ops p2kh p2sh =
     (let addresses = extract_input C H ops p2kh p2sh
      in if addresses = [] then extract_output C H ops p2kh p2sh else addresses)"

subsection \<open>Bits of groups\<close>

definition bits_msb :: "nat \<Rightarrow> nat \<Rightarrow> bool list" where
  "bits_msb n x = map (\<lambda>k. bit x (n - 1 - k)) [0..<n]"

lemma bits_msb_length [simp]: "length (bits_msb n x) = n"
  by (simp add: bits_msb_def)

lemma bits_msb_nth: "k < n \<Longrightarrow> bits_msb n x ! k = bit x (n - 1 - k)"
  by (simp add: bits_msb_def)

lemma and_mask: "x AND (2 ^ m - 1) = take_bit m x" for x :: nat
  by (simp add: take_bit_eq_mask mask_eq_exp_minus_1)

lemma bits_msb_mask: "n \<le> m \<Longrightarrow> bits_msb n (x AND (2 ^ m - 1)) = bits_msb n x"
  unfolding and_mask by (rule nth_equalityI) (auto simp: bits_msb_nth bit_take_bit_iff)

lemma bits_msb_split: "bits_msb (a + b) x = bits_msb a (drop_bit b x) @ bits_msb b x"
proof (rule nth_equalityI)
  fix k assume "k < length (bits_msb (a + b) x)"
  then show "bits_msb (a + b) x ! k = (bits_msb a (drop_bit b x) @ bits_msb b x) ! k"
    by (cases "k < a") (auto simp: bits_msb_nth nth_append bit_drop_bit_eq intro!: arg_cong [of _ _ "bit x"])
qed simp

lemma bits_msb_zero: "bits_msb n 0 = replicate n False"
  by (rule nth_equalityI) (simp_all add: bits_msb_nth)

lemma bits_msb_shift: "x < 2 ^ b \<Longrightarrow> bits_msb (a + b) (push_bit b y OR x) = bits_msb a y @ bits_msb b x"
proof (rule nth_equalityI)
  fix k assume x: "x < 2 ^ b" and "k < length (bits_msb (a + b) (push_bit b y OR x))"
  moreover have "\<not> bit x n" if "b \<le> n" for n
    using x that by (metis bit_take_bit_iff leD take_bit_nat_eq_self_iff)
  ultimately show "bits_msb (a + b) (push_bit b y OR x) ! k = (bits_msb a y @ bits_msb b x) ! k"
    by (cases "k < a") (auto simp: bits_msb_nth nth_append bit_or_iff bit_push_bit_iff add.commute)
qed simp

lemma bits_msb_inject: "x < 2 ^ n \<Longrightarrow> y < 2 ^ n \<Longrightarrow> bits_msb n x = bits_msb n y \<Longrightarrow> x = y"
proof -
  assume small: "x < 2 ^ n" "y < 2 ^ n" and eq: "bits_msb n x = bits_msb n y"
  have "bit x k = bit y k" for k
  proof (cases "k < n")
    case True
    then show ?thesis using arg_cong [OF eq, of "\<lambda>l. l ! (n - 1 - k)"] by (simp add: bits_msb_nth)
  next
    case False
    then show ?thesis using small by (metis bit_take_bit_iff take_bit_nat_eq_self_iff)
  qed
  then show ?thesis by (simp add: bit_eq_iff)
qed

abbreviation group_bits :: "nat \<Rightarrow> data_chunk \<Rightarrow> bool list" where
  "group_bits n xs \<equiv> concat (map (\<lambda>x. bits_msb n (unat x)) xs)"

lemma group_bits_length: "length (group_bits n xs) = n * length xs"
  by (induction xs) simp_all

lemma group_bits_inject:
  "list_all (\<lambda>x. unat x < 2 ^ n) xs \<Longrightarrow> list_all (\<lambda>x. unat x < 2 ^ n) ys \<Longrightarrow> length xs = length ys \<Longrightarrow>
   group_bits n xs @ r = group_bits n ys @ s \<Longrightarrow> xs = ys \<and> r = s"
proof (induction xs arbitrary: ys)
  case (Cons x xs)
  then obtain y ys' where ys: "ys = y # ys'" by (cases ys) auto
  have "bits_msb n (unat x) = bits_msb n (unat y) \<and> group_bits n xs @ r = group_bits n ys' @ s"
  proof -
    have "bits_msb n (unat x) @ (group_bits n xs @ r) = bits_msb n (unat y) @ (group_bits n ys' @ s)"
      using Cons.prems(4) unfolding ys by simp
    then show ?thesis by (subst (asm) append_eq_append_conv) simp_all
  qed
  moreover have "xs = ys' \<and> r = s" by (rule Cons.IH) (use Cons.prems calculation in \<open>simp_all add: ys\<close>)
  moreover have "unat x = unat y" by (rule bits_msb_inject) (use Cons.prems calculation in \<open>simp_all add: ys\<close>)
  ultimately show ?case unfolding ys by (simp add: word_unat_eq_iff)
qed simp

lemma unat_group: "t \<le> 8 \<Longrightarrow> unat (of_nat (x AND (2 ^ t - 1)) :: byte) = x AND (2 ^ t - 1)" "(x AND (2 ^ t - 1)) < 2 ^ t" for x :: nat
proof -
  have small: "x AND (2 ^ t - 1) < 2 ^ t" unfolding and_mask by (rule take_bit_nat_less_exp)
  then show "x AND (2 ^ t - 1) < 2 ^ t" .
  assume "t \<le> 8"
  then have "(2 :: nat) ^ t \<le> 2 ^ 8" by (intro power_increasing) simp_all
  then have "x AND (2 ^ t - 1) < 2 ^ 8" using small by linarith
  then show "unat (of_nat (x AND (2 ^ t - 1)) :: byte) = x AND (2 ^ t - 1)" by (simp add: unat_of_nat)
qed

lemma emit_groups_bits:
  assumes "0 < t" and "t \<le> 8" and "emit_groups t acc n = (out, rest)"
  shows "rest < t \<and> group_bits t out @ bits_msb rest acc = bits_msb n acc \<and> list_all (\<lambda>x. unat x < 2 ^ t) out"
  using assms(3)
proof (induction n arbitrary: out rule: less_induct)
  case (less n)
  show ?case
  proof (cases "n < t")
    case True
    then show ?thesis using less.prems by (simp add: emit_groups.simps [of t acc n])
  next
    case False
    let ?g = "drop_bit (n - t) acc AND (2 ^ t - 1)"
    obtain out' where out': "emit_groups t acc (n - t) = (out', rest)" "out = of_nat ?g # out'"
      using less.prems False assms(1) by (auto simp: emit_groups.simps [of t acc n] Let_def split: prod.splits)
    have IH: "rest < t" "group_bits t out' @ bits_msb rest acc = bits_msb (n - t) acc" "list_all (\<lambda>x. unat x < 2 ^ t) out'"
      using less.IH [OF _ out'(1)] False assms(1) by auto
    have "bits_msb n acc = bits_msb t (drop_bit (n - t) acc) @ bits_msb (n - t) acc"
      using bits_msb_split [of t "n - t" acc] False by simp
    moreover have "bits_msb t (unat (of_nat ?g :: byte)) = bits_msb t (drop_bit (n - t) acc)"
      unfolding unat_group(1) [OF assms(2)] by (rule bits_msb_mask) simp
    ultimately show ?thesis using IH unat_group(1) [OF assms(2), of "drop_bit (n - t) acc"] unat_group(2) [of "drop_bit (n - t) acc" t]
      unfolding out'(2) by (simp del: of_nat_and_eq)
  qed
qed

text \<open>The groups put out and the bits left in the accumulator are the bits read.\<close>

lemma convert_loop_bits:
  assumes "0 < t" and "t \<le> 8" and "list_all (\<lambda>x. unat x < 2 ^ f) xs"
  shows "n < t \<Longrightarrow> convert_loop f t xs acc n = (out, acc', n') \<Longrightarrow>
    n' < t \<and> group_bits t out @ bits_msb n' acc' = bits_msb n acc @ group_bits f xs \<and> list_all (\<lambda>x. unat x < 2 ^ t) out"
  using assms(3)
proof (induction xs arbitrary: acc n out)
  case (Cons x xs)
  let ?acc = "(push_bit f acc OR unat x) AND (2 ^ (f + t - 1) - 1)"
  obtain out1 n1 where e: "emit_groups t ?acc (n + f) = (out1, n1)" by (cases "emit_groups t ?acc (n + f)") auto
  obtain out2 a2 n2 where r: "convert_loop f t xs ?acc n1 = (out2, a2, n2)" by (cases "convert_loop f t xs ?acc n1") auto
  have "convert_loop f t (x # xs) acc n = (out1 @ out2, a2, n2)"
    by (simp only: convert_loop.simps Let_def e r prod.case)
  then have l: "convert_loop f t xs ?acc n1 = (out2, acc', n')" "out = out1 @ out2" using Cons.prems(2) r by simp_all
  note E = emit_groups_bits [OF assms(1,2) e]
  have "n + f \<le> f + t - 1" using Cons.prems(1) by linarith
  then have "bits_msb (n + f) ?acc = bits_msb (n + f) (push_bit f acc OR unat x)" by (rule bits_msb_mask)
  also have "\<dots> = bits_msb n acc @ bits_msb f (unat x)" by (rule bits_msb_shift) (use Cons.prems(3) in simp)
  finally have step: "group_bits t out1 @ bits_msb n1 ?acc = bits_msb n acc @ bits_msb f (unat x)" using E by (simp only:)
  have "list_all (\<lambda>x. unat x < 2 ^ f) xs" using Cons.prems(3) by simp
  then have IH: "n' < t" "group_bits t out2 @ bits_msb n' acc' = bits_msb n1 ?acc @ group_bits f xs" "list_all (\<lambda>x. unat x < 2 ^ t) out2"
    using Cons.IH [OF conjunct1 [OF E] l(1)] by blast+
  have "group_bits t (out1 @ out2) @ bits_msb n' acc' = group_bits t out1 @ (group_bits t out2 @ bits_msb n' acc')"
    by (simp only: map_append concat_append append_assoc)
  also have "\<dots> = (group_bits t out1 @ bits_msb n1 ?acc) @ group_bits f xs" unfolding IH(2) by (simp only: append_assoc)
  also have "\<dots> = bits_msb n acc @ group_bits f (x # xs)" unfolding step by (simp only: append_assoc list.map concat.simps)
  finally show ?case unfolding l(2) using E IH(1,3) by (simp only: list_all_append simp_thms)
qed simp

lemma bytes_small: "list_all (\<lambda>x. unat (x :: byte) < 2 ^ 8) xs"
  using unat_byte_less by (simp add: list_all_iff)

lemma convert_8_5:
  "\<exists>p < 5. group_bits 5 (snd (convert_bits 8 5 True data)) = group_bits 8 data @ replicate p False \<and>
     list_all (\<lambda>x. unat x < 2 ^ 5) (snd (convert_bits 8 5 True data))"
proof -
  obtain out acc n where loop: "convert_loop 8 5 data 0 0 = (out, acc, n)" by (cases "convert_loop 8 5 data 0 0") auto
  have L: "n < 5" "group_bits 5 out @ bits_msb n acc = group_bits 8 data" "list_all (\<lambda>x. unat x < 2 ^ 5) out"
    using convert_loop_bits [OF _ _ bytes_small _ loop] by (simp_all add: bits_msb_def)
  show ?thesis
  proof (cases "n = 0")
    case True
    then show ?thesis using L loop by (intro exI [of _ 0]) (simp add: convert_bits_def bits_msb_def)
  next
    case False
    let ?g = "push_bit (5 - n) acc AND (2 ^ 5 - 1)"
    have out: "snd (convert_bits 8 5 True data) = out @ [of_nat ?g]"
      unfolding convert_bits_def loop Let_def using False by simp
    have g: "unat (of_nat ?g :: byte) = ?g" "?g < 2 ^ 5" by (rule unat_group(1)) (simp, rule unat_group(2))
    have "bits_msb 5 ?g = bits_msb 5 (push_bit (5 - n) acc OR 0)" unfolding or.right_neutral by (rule bits_msb_mask) simp
    also have "\<dots> = bits_msb n acc @ replicate (5 - n) False"
      using bits_msb_shift [of 0 "5 - n" n acc] L(1) by (simp add: bits_msb_zero)
    finally have bits: "bits_msb 5 ?g = bits_msb n acc @ replicate (5 - n) False" .
    have "group_bits 5 (out @ [of_nat ?g]) = (group_bits 5 out @ bits_msb n acc) @ replicate (5 - n) False"
      by (simp only: map_append concat_append list.map concat.simps g(1) bits append_Nil2 append_assoc)
    then have "group_bits 5 (out @ [of_nat ?g]) = group_bits 8 data @ replicate (5 - n) False" unfolding L(2) .
    moreover have "list_all (\<lambda>x. unat x < 2 ^ 5) (out @ [of_nat ?g])"
      using L(3) g(2) by (simp only: list_all_append list.pred_inject g(1) simp_thms)
    moreover have "5 - n < 5" using False by simp
    ultimately show ?thesis unfolding out by blast
  qed
qed

lemma convert_5_8:
  assumes "group_bits 5 g = group_bits 8 data @ replicate p False" and "p < 8" and "list_all (\<lambda>x. unat x < 2 ^ 5) g"
  shows "snd (convert_bits 5 8 False g) = data"
proof -
  obtain out acc n where loop: "convert_loop 5 8 g 0 0 = (out, acc, n)" by (cases "convert_loop 5 8 g 0 0") auto
  have L: "n < 8" "group_bits 8 out @ bits_msb n acc = group_bits 8 data @ replicate p False"
    using convert_loop_bits [OF _ _ assms(3) _ loop] assms(1) by (simp_all add: bits_msb_def)
  have "8 * length out + n = 8 * length data + p"
    using arg_cong [OF L(2), of length] by (simp only: length_append group_bits_length bits_msb_length length_replicate)
  then have "length out = length data" using L(1) assms(2) by linarith
  then have "out = data" using group_bits_inject [OF bytes_small bytes_small _ L(2)] by blast
  then show ?thesis by (simp add: convert_bits_def loop)
qed

subsection \<open>Texts of addresses\<close>

lemma packed_payload:
  assumes "pack_addr_data ident type = Some payload"
  shows "\<exists>n p. n < 8 \<and> p < 5 \<and> length ident = (20 + 4 * (n mod 4)) * (if 4 \<le> n then 2 else 1) \<and>
    group_bits 5 payload = group_bits 8 ((push_bit 3 type OR of_nat n) # ident) @ replicate p False \<and>
    list_all (\<lambda>d. d < 32) payload"
proof -
  obtain n where n: "payload = snd (convert_bits 8 5 True ((push_bit 3 type OR of_nat n) # ident))" "n < 8"
    "length ident = (20 + 4 * (n mod 4)) * (if 4 \<le> n then 2 else 1)"
  proof -
    have "\<exists>n. payload = snd (convert_bits 8 5 True ((push_bit 3 type OR of_nat n) # ident)) \<and> n < 8 \<and>
      length ident = (20 + 4 * (n mod 4)) * (if 4 \<le> n then 2 else 1)"
      using assms unfolding pack_addr_data_def Let_def
      by (auto split: if_splits option.splits intro: exI [of _ 0] exI [of _ 1] exI [of _ 2] exI [of _ 3] exI [of _ 4] exI [of _ 5] exI [of _ 6] exI [of _ 7])
    then show ?thesis using that by blast
  qed
  obtain p where p: "p < 5" "group_bits 5 payload = group_bits 8 ((push_bit 3 type OR of_nat n) # ident) @ replicate p False"
    "list_all (\<lambda>x. unat x < 2 ^ 5) payload"
    using convert_8_5 [of "(push_bit 3 type OR of_nat n) # ident"] unfolding n(1) by blast
  have "list_all (\<lambda>d. d < 32) payload" using p(3) by (simp add: list_all_iff word_less_nat_alt)
  with n(2,3) p(1,2) show ?thesis by blast
qed

lemma suffix_equal: "xs @ b = ys @ c \<Longrightarrow> length c \<le> length b \<Longrightarrow> drop (length b - length c) b = c"
  by (auto simp: append_eq_append_conv2)

text \<open>The tests on the padding pass for every packed payload.\<close>

lemma packed_padding:
  assumes "group_bits 5 payload = group_bits 8 data @ replicate p False" and "p < 5" and "data \<noteq> []"
  shows "payload \<noteq> []" "length payload * 5 mod 8 = p" "last payload AND (2 ^ p - 1) = 0"
proof -
  have len: "5 * length payload = 8 * length data + p"
    using arg_cong [OF assms(1), of length] by (simp only: length_append group_bits_length length_replicate)
  then show "length payload * 5 mod 8 = p" using assms(2) by (simp add: mult.commute)
  show ne: "payload \<noteq> []" using len assms(3) by auto
  have "last payload AND (2 ^ p - 1) = take_bit p (last payload)" by (simp add: take_bit_eq_mask mask_eq_exp_minus_1)
  moreover have "\<not> bit (last payload) k" if "k < p" for k
  proof -
    let ?b = "bits_msb 5 (unat (last payload))"
    have "group_bits 5 payload = group_bits 5 (butlast payload @ [last payload])" using ne by simp
    also have "\<dots> = group_bits 5 (butlast payload) @ ?b" by (simp only: map_append concat_append list.map concat.simps append_Nil2)
    finally have "group_bits 5 (butlast payload) @ ?b = group_bits 8 data @ replicate p False" using assms(1) by (simp only:)
    from suffix_equal [OF this] have "drop (5 - p) ?b = replicate p False" using assms(2) by simp
    then have "drop (5 - p) ?b ! (p - 1 - k) = False" using that by simp
    then have "?b ! (5 - p + (p - 1 - k)) = False" using assms(2) by (subst (asm) nth_drop) simp_all
    moreover have "5 - p + (p - 1 - k) = 4 - k" using that assms(2) by linarith
    ultimately have "\<not> bit (unat (last payload)) (4 - (4 - k))" using bits_msb_nth [of "4 - k" 5 "unat (last payload)"] by simp
    moreover have "4 - (4 - k) = k" using that assms(2) by linarith
    ultimately show ?thesis by (simp add: bit_unsigned_iff)
  qed
  ultimately show "last payload AND (2 ^ p - 1) = 0" by (simp add: bit_eq_iff bit_take_bit_iff)
qed

lemma version_byte:
  fixes type :: byte
  assumes "type = 0 \<or> type = 1" and "n < 8"
  defines "v \<equiv> push_bit 3 type OR of_nat n :: byte"
  shows "v AND 0x80 = 0" "drop_bit 3 v AND 0x1f = type" "unat (v AND 0x03) = n mod 4" "v AND 0x04 \<noteq> 0 \<longleftrightarrow> 4 \<le> n"
proof -
  have n: "n = 0 \<or> n = 1 \<or> n = 2 \<or> n = 3 \<or> n = 4 \<or> n = 5 \<or> n = 6 \<or> n = 7" using assms(2) by presburger
  show "v AND 0x80 = 0" using n assms(1) unfolding v_def by (elim disjE) simp_all
  show "drop_bit 3 v AND 0x1f = type" using n assms(1) unfolding v_def by (elim disjE) simp_all
  show "unat (v AND 0x03) = n mod 4" using n assms(1) unfolding v_def by (elim disjE) simp_all
  show "v AND 0x04 \<noteq> 0 \<longleftrightarrow> 4 \<le> n" using n assms(1) unfolding v_def by (elim disjE) simp_all
qed

lemma from_packed_cashaddr:
  assumes "pack_addr_data ident type = Some payload" and "type = 0 \<or> type = 1" and "pfx \<noteq> []" and "list_all is_lower_letter pfx"
  shows "from_string_cashaddr cur pfx (cashaddr_encode pfx payload) =
    (if length ident = 20
     then Some (payment_address_of ident
            (if pfx = cashaddr_prefix_mainnet then (if type = 0 then mainnet_p2kh cur else mainnet_p2sh)
             else (if type = 0 then testnet_p2kh else testnet_p2sh)))
     else None)"
proof -
  obtain n p where np: "n < 8" "p < 5" "length ident = (20 + 4 * (n mod 4)) * (if 4 \<le> n then 2 else 1)"
    and bits: "group_bits 5 payload = group_bits 8 ((push_bit 3 type OR of_nat n) # ident) @ replicate p False"
    and small: "list_all (\<lambda>d. d < 32) payload"
    using packed_payload [OF assms(1)] by blast
  let ?v = "push_bit 3 type OR of_nat n :: byte"
  have decode: "cashaddr_decode (cashaddr_encode pfx payload) pfx = Some (pfx, payload)"
    by (rule decode_encode_cashaddr [OF assms(3,4) small])
  note padding = packed_padding [OF bits np(2)]
  have "list_all (\<lambda>x. unat x < 2 ^ 5) payload" using small by (simp add: list_all_iff word_less_nat_alt)
  from convert_5_8 [OF bits _ this] have data: "snd (convert_bits 5 8 False payload) = ?v # ident" using np(2) by simp
  note v = version_byte [OF assms(2) np(1)]
  have "length ident > 20 \<longleftrightarrow> length ident \<noteq> 20" unfolding np(3) by simp
  then show ?thesis
    unfolding from_string_cashaddr_def decode option.case prod.case Let_def data padding(2) [OF list.distinct(2)] list.sel
    using padding(1,3) np(2) v np(3) by (simp add: mult.commute)
qed

text \<open>
  C23. A payment address of either network and either kind survives its cash address form:
  reading it back under the prefix of the same network gives the address, and under the
  prefix of the other network the invalid address.
\<close>

theorem cashaddr_address_round_trip:
  assumes "addr_valid a" and "length (addr_hash a) = 20" and "addr_version a = v"
    and "net = cashaddr_prefix_mainnet \<and> (v = 0x00 \<or> v = 0x05) \<or> net = cashaddr_prefix_testnet \<and> (v = 0x6f \<or> v = 0xc4)"
    and "other = cashaddr_prefix_mainnet \<or> other = cashaddr_prefix_testnet"
  shows "\<exists>s. encode_cashaddr bitcoin_cash a = Some s \<and>
    from_string_cashaddr bitcoin_cash other s = Some (if other = net then a else payment_address_null)"
proof -
  define type :: byte where "type = (if v = 0x00 \<or> v = 0x6f then 0 else 1)"
  have net: "net \<noteq> []" "list_all is_lower_letter net"
    using assms(4) by (auto simp: cashaddr_prefix_mainnet_def cashaddr_prefix_testnet_def is_lower_letter_def)
  obtain payload where payload: "pack_addr_data (addr_hash a) type = Some payload"
    using assms(2) by (simp add: pack_addr_data_def)
  have different: "cashaddr_prefix_mainnet \<noteq> cashaddr_prefix_testnet"
    by (simp add: cashaddr_prefix_mainnet_def cashaddr_prefix_testnet_def)
  have encoded: "encode_cashaddr bitcoin_cash a = Some (cashaddr_encode net payload)"
    using assms(3,4) payload unfolding encode_cashaddr_def type_def by (auto simp: mainnet_p2kh_def)
  have type: "type = 0 \<or> type = 1" by (simp add: type_def)
  have "from_string_cashaddr bitcoin_cash other (cashaddr_encode net payload) = Some (if other = net then a else payment_address_null)"
  proof (cases "other = net")
    case True
    have "a = payment_address_of (addr_hash a) v" using assms(1,3) by (cases a) (simp add: payment_address_of_def)
    moreover have "v = (if net = cashaddr_prefix_mainnet then (if type = 0 then mainnet_p2kh bitcoin_cash else mainnet_p2sh)
        else (if type = 0 then testnet_p2kh else testnet_p2sh))"
      using assms(4) different by (auto simp: type_def mainnet_p2kh_def)
    ultimately show ?thesis
      using True from_packed_cashaddr [OF payload type net, of bitcoin_cash] assms(2) by simp
  next
    case False
    have "list_all (\<lambda>d. d < 32) payload" using packed_payload [OF payload] by blast
    then show ?thesis using False decode_encode_cashaddr [OF net] by (simp add: from_string_cashaddr_def)
  qed
  with encoded show ?thesis by blast
qed

theorem cashaddr_address_round_trip_witness:
  "\<exists>s. encode_cashaddr bitcoin_cash \<lparr>addr_valid = True, addr_version = 5, addr_hash = replicate 20 9\<rparr> = Some s \<and>
     from_string_cashaddr bitcoin_cash ''bitcoincash'' s = Some \<lparr>addr_valid = True, addr_version = 5, addr_hash = replicate 20 9\<rparr>"
  using cashaddr_address_round_trip [of "\<lparr>addr_valid = True, addr_version = 5, addr_hash = replicate 20 9\<rparr>" 5
      "''bitcoincash''" "''bitcoincash''"]
  by (simp add: cashaddr_prefix_mainnet_def)

text \<open>
  A well-formed cash address of a hash that is not twenty bytes long (the format allows
  24 to 64) makes from_string_cashaddr leave the bounds of the twenty-byte hash: the copy is
  undefined behaviour.
\<close>

theorem cashaddr_overflows_hash:
  assumes "pack_addr_data ident type = Some payload" and "length ident \<noteq> 20" and "type = 0 \<or> type = 1"
    and "net = cashaddr_prefix_mainnet \<or> net = cashaddr_prefix_testnet"
  shows "from_string_cashaddr cur net (cashaddr_encode net payload) = None"
  using from_packed_cashaddr [OF assms(1,3)] assms(2,4)
  by (auto simp: cashaddr_prefix_mainnet_def cashaddr_prefix_testnet_def is_lower_letter_def)

theorem cashaddr_overflows_hash_witness:
  "\<exists>payload. pack_addr_data (replicate 24 0) 0 = Some payload \<and>
     from_string_cashaddr bitcoin_cash ''bitcoincash'' (cashaddr_encode ''bitcoincash'' payload) = None"
proof -
  obtain payload where payload: "pack_addr_data (replicate 24 0) 0 = Some payload" by (simp add: pack_addr_data_def)
  moreover have "from_string_cashaddr bitcoin_cash ''bitcoincash'' (cashaddr_encode ''bitcoincash'' payload) = None"
    by (rule cashaddr_overflows_hash [OF payload]) (simp_all add: cashaddr_prefix_mainnet_def)
  ultimately show ?thesis by blast
qed

text \<open>
  An address survives its base 58 text, in every currency: the text is the encoding of the version, the hash and their
  checksum, and reading it does not reach the cashaddr reader.
\<close>

theorem address_round_trip:
  assumes "addr_valid a" and "length (addr_hash a) = 20"
  shows "address_from_string cur H pfx (address_encoded H a) = Some a \<and> is_address H (to_payment H a) \<and>
    from_payment H (to_payment H a) = a"
proof -
  let ?w = "append_checksum H (addr_version a # addr_hash a)"
  have w: "checked_array H 25 [[addr_version a], addr_hash a] = ?w"
    using checked_array_exact [of "[[addr_version a], addr_hash a]" 25 H] assms(2) by simp
  have len: "length ?w = 25" using assms(2) by (simp add: append_checksum_facts)
  have valid: "is_address H ?w" unfolding is_address_def using len append_checksum_facts(2) by blast
  have "hd ?w = addr_version a" "take 20 (drop 1 ?w) = addr_hash a" using assms(2) by (simp_all add: append_checksum_def)
  then have payment: "from_payment H ?w = a" using assms(1) valid by (cases a) (simp add: from_payment_def payment_address_of_def)
  have "decode_base58_private 25 (address_encoded H a) = Some ?w"
    unfolding decode_base58_private_def address_encoded_def w decode_encode_base58 option.case using len by simp
  then show ?thesis using valid payment by (simp add: address_from_string_def to_payment_def w)
qed

theorem address_round_trip_witness:
  "address_from_string bitcoin example_digests [] (address_encoded example_digests \<lparr>addr_valid = True, addr_version = 5, addr_hash = replicate 20 9\<rparr>) =
   Some \<lparr>addr_valid = True, addr_version = 5, addr_hash = replicate 20 9\<rparr>"
  using address_round_trip [of "\<lparr>addr_valid = True, addr_version = 5, addr_hash = replicate 20 9\<rparr>" bitcoin example_digests "[]"] by simp

subsection \<open>Addresses of scripts\<close>

text \<open>
  The addresses of the standard outputs: a script that pays a key hash or a script hash has exactly the address of that
  hash, and a script that pays a public key has the address of the key's hash.
\<close>

theorem addresses_of_outputs:
  assumes "length hash = 20" and "is_compressed_key point"
  shows "extract_addresses C H (to_pay_key_hash_pattern hash) p2kh p2sh = [payment_address_of hash p2kh] \<and>
    extract_addresses C H (to_pay_script_hash_pattern hash) p2kh p2sh = [payment_address_of hash p2sh] \<and>
    extract_addresses C H (to_pay_public_key_pattern point) p2kh p2sh = [payment_address_of (bitcoin_short_hash H point) p2kh]"
proof (intro conjI)
  have hash: "operation_of_data hash True = \<lparr>op_code = push_size_20, op_data = hash, op_valid = True\<rparr>"
    using assms(1) by (simp add: operation_of_data_nominal script_constants opcode_from_size_def)
  have key: "is_public_key point" "operation_of_data point True = \<lparr>op_code = 33, op_data = point, op_valid = True\<rparr>"
    using assms(2) by (simp_all add: is_public_key_def is_compressed_key_def operation_of_data_nominal script_constants opcode_from_size_def)
  have no_key: "\<not> is_public_key []" by (simp add: is_public_key_def is_compressed_key_def is_uncompressed_key_def)
  note patterns = extract_addresses_def extract_input_def extract_output_def input_pattern_def output_pattern_def
    is_sign_key_hash_pattern_def is_sign_script_hash_pattern_def is_sign_public_key_pattern_def is_sign_multisig_pattern_def
    is_pay_key_hash_pattern_def is_pay_script_hash_pattern_def is_null_data_pattern_def is_pay_public_key_pattern_def
    is_push_only_def opcode_is_push_def operation_of_code_def
  show "extract_addresses C H (to_pay_key_hash_pattern hash) p2kh p2sh = [payment_address_of hash p2kh]"
    using assms(1) by (simp add: to_pay_key_hash_pattern_def hash patterns word_le_nat_alt)
  show "extract_addresses C H (to_pay_script_hash_pattern hash) p2kh p2sh = [payment_address_of hash p2sh]"
    using assms(1) by (simp add: to_pay_script_hash_pattern_def hash patterns word_le_nat_alt)
  show "extract_addresses C H (to_pay_public_key_pattern point) p2kh p2sh = [payment_address_of (bitcoin_short_hash H point) p2kh]"
    using assms(2) key no_key by (simp add: to_pay_public_key_pattern_def patterns word_le_nat_alt is_endorsement_def
        from_public_def ec_public_from_data_def ec_public_to_data_def ec_public_of_point_def is_compressed_key_def)
qed

theorem addresses_of_outputs_witness:
  "extract_addresses example_secp example_digests (to_pay_script_hash_pattern (replicate 20 1)) 0 5 = [payment_address_of (replicate 20 1) 5]"
  using addresses_of_outputs [of "replicate 20 1" "2 # replicate 32 0" example_secp example_digests 0 5] by (simp add: is_compressed_key_def)

end
