(* ===== verification/Binary.thy ===== *)
theory Binary
  imports Wire Formats
begin

unbundle bit_operations_syntax

text \<open>
  Bit strings: \<^verbatim>\<open>src/utility/binary.cpp\<close>.  The bits are packed into bytes from the most significant bit on and the
  last byte may have unused bits.  The operations shift and merge whole blocks; the theory shows that each of them is
  the obvious operation on a list of bits, which is the abstract specification.
\<close>

record binary =
  blocks :: data_chunk
  final_block_excess :: byte

subsection \<open>Operations\<close>

definition blocks_size :: "nat \<Rightarrow> nat" where
  "blocks_size bit_size = (if bit_size = 0 then 0 else (bit_size - 1) div 8 + 1)"

definition is_base2 :: "string \<Rightarrow> bool" where
  "is_base2 s = list_all (\<lambda>c. c = CHR ''0'' \<or> c = CHR ''1'') s"

definition binary_empty :: binary where
  "binary_empty = \<lparr>blocks = [], final_block_excess = 0\<rparr>"

text \<open>Resizing keeps or zero fills whole blocks, then clears the bits of the last block past the size.\<close>

definition resize_blocks :: "nat \<Rightarrow> data_chunk \<Rightarrow> data_chunk" where
  "resize_blocks n bs = take n bs @ replicate (n - length bs) 0"

definition binary_resize :: "nat \<Rightarrow> binary \<Rightarrow> binary" where
  "binary_resize n b =
     (let bs = resize_blocks (blocks_size n) (blocks b); offset = n mod 8
      in if offset > 0
         then let excess = 8 - offset; last = length bs - 1
              in \<lparr>blocks = bs[last := bs ! last AND push_bit excess 0xFF], final_block_excess = of_nat excess\<rparr>
         else \<lparr>blocks = bs, final_block_excess = 0\<rparr>)"

definition binary_at :: "binary \<Rightarrow> nat \<Rightarrow> bool" where
  "binary_at b index = bit (blocks b ! (index div 8)) (8 - (index - index div 8 * 8) - 1)"

definition binary_size :: "binary \<Rightarrow> nat" where
  "binary_size b = length (blocks b) * 8 - unat (final_block_excess b)"

text \<open>The loop that pads with zero bytes ends when the size is reached.\<close>

definition binary_of_blocks :: "nat \<Rightarrow> data_chunk \<Rightarrow> binary" where
  "binary_of_blocks n bs =
     (if bs = [] then binary_empty
      else binary_resize n \<lparr>blocks = bs @ replicate (blocks_size n - length bs) 0, final_block_excess = 0\<rparr>)"

definition binary_of_number :: "nat \<Rightarrow> uint32 \<Rightarrow> binary" where
  "binary_of_number n number = binary_of_blocks n (write_4_bytes_little_endian number)"

definition binary_encoded :: "binary \<Rightarrow> string" where
  "binary_encoded b = map (\<lambda>i. if binary_at b i then CHR ''1'' else CHR ''0'') [0..<binary_size b]"

text \<open>The loop of \<^verbatim>\<open>shift_left\<close> writes the block \<open>i\<close> from blocks at \<open>i\<close> or after it.\<close>

definition shifted_block :: "nat \<Rightarrow> nat \<Rightarrow> nat \<Rightarrow> data_chunk \<Rightarrow> nat \<Rightarrow> byte" where
  "shifted_block initial_block_count block_offset offset bs i =
     (let trailing_bits =
            (if offset \<noteq> 0 \<and> block_offset + i + 1 < initial_block_count then drop_bit (8 - offset) (bs ! (block_offset + i + 1)) else 0);
          leading_bits = (if block_offset + i < initial_block_count then push_bit offset (bs ! (block_offset + i)) else 0)
      in leading_bits OR trailing_bits)"

definition shift_left :: "nat \<Rightarrow> binary \<Rightarrow> binary" where
  "shift_left distance b =
     (let initial_size = binary_size b;
          initial_block_count = length (blocks b);
          destination_size = (if distance < initial_size then initial_size - distance else 0);
          block_offset = distance div 8;
          offset = distance mod 8;
          bs = fold (\<lambda>i bs. bs[i := shifted_block initial_block_count block_offset offset bs i]) [0..<initial_block_count] (blocks b)
      in binary_resize destination_size (b\<lparr>blocks := bs\<rparr>))"

fun shift_right_loop :: "nat \<Rightarrow> byte \<Rightarrow> data_chunk \<Rightarrow> data_chunk \<times> byte" where
  "shift_right_loop offset previous [] = ([], previous)"
| "shift_right_loop offset previous (current # bs) =
     (let leading_bits = push_bit (8 - offset) previous; trailing_bits = drop_bit offset current;
          (rest, final) = shift_right_loop offset current bs
      in ((leading_bits OR trailing_bits) # rest, final))"

definition shift_right :: "nat \<Rightarrow> binary \<Rightarrow> binary" where
  "shift_right distance b =
     (let initial_size = binary_size b;
          initial_block_count = length (blocks b);
          offset = distance mod 8;
          offset_blocks = distance div 8;
          destination_size = initial_size + distance;
          (bs, previous) = shift_right_loop offset 0 (blocks b);
          c = binary_resize destination_size (b\<lparr>blocks := replicate offset_blocks 0 @ bs\<rparr>)
      in if offset_blocks + initial_block_count < length (blocks c)
         then c\<lparr>blocks := (blocks c)[length (blocks c) - 1 := push_bit (8 - offset) previous]\<rparr>
         else c)"

text \<open>The loop that merges blocks into the buffer from a position on.\<close>

definition or_blocks :: "nat \<Rightarrow> data_chunk \<Rightarrow> data_chunk \<Rightarrow> data_chunk" where
  "or_blocks start other bs = fold (\<lambda>i bs. bs[start + i := bs ! (start + i) OR other ! i]) [0..<length other] bs"

definition binary_append :: "binary \<Rightarrow> binary \<Rightarrow> binary" where
  "binary_append b post =
     (let block_offset = binary_size b div 8;
          offset = binary_size b mod 8;
          duplicate = shift_right offset (binary_of_blocks (binary_size post) (blocks post));
          c = binary_resize (binary_size b + binary_size post) b
      in c\<lparr>blocks := or_blocks block_offset (blocks duplicate) (blocks c)\<rparr>)"

definition binary_prepend :: "binary \<Rightarrow> binary \<Rightarrow> binary" where
  "binary_prepend b prior =
     (let c = shift_right (binary_size prior) b in c\<lparr>blocks := or_blocks 0 (blocks prior) (blocks c)\<rparr>)"

definition binary_substring :: "binary \<Rightarrow> nat \<Rightarrow> nat \<Rightarrow> binary" where
  "binary_substring b start len =
     (let current_size = binary_size b;
          start = (if start > current_size then current_size else start);
          len = (if len = max_size_t \<or> (start + len) mod 2 ^ 64 > current_size then current_size - start else len)
      in binary_resize len (shift_left start (binary_of_blocks current_size (blocks b))))"

definition binary_equal :: "binary \<Rightarrow> binary \<Rightarrow> bool" where
  "binary_equal a b \<longleftrightarrow> binary_size a = binary_size b \<and> list_all (\<lambda>i. binary_at a i = binary_at b i) [0..<binary_size a]"

definition is_prefix_of :: "binary \<Rightarrow> data_chunk \<Rightarrow> bool" where
  "is_prefix_of b field = binary_equal b (binary_of_blocks (binary_size b) field)"

definition is_prefix_of_number :: "binary \<Rightarrow> uint32 \<Rightarrow> bool" where
  "is_prefix_of_number b field = is_prefix_of b (write_4_bytes_little_endian field)"

definition is_prefix_of_binary :: "binary \<Rightarrow> binary \<Rightarrow> bool" where
  "is_prefix_of_binary b field = is_prefix_of b (blocks field)"

text \<open>Reading the characters one by one; the state is the blocks, the block in progress and the bits left in it.\<close>

fun read_bits :: "string \<Rightarrow> data_chunk \<Rightarrow> byte \<Rightarrow> nat \<Rightarrow> (data_chunk \<times> byte \<times> nat) option" where
  "read_bits [] bs block bit_iterator = Some (bs, block, bit_iterator)"
| "read_bits (c # cs) bs block bit_iterator =
     (if c \<noteq> CHR ''0'' \<and> c \<noteq> CHR ''1'' then None
      else
        let block = (if c = CHR ''1'' then block OR push_bit (bit_iterator - 1) 1 else block);
            bit_iterator = bit_iterator - 1
        in if bit_iterator = 0 then read_bits cs (bs @ [block]) 0 8 else read_bits cs bs block bit_iterator)"

definition binary_of_string :: "string \<Rightarrow> binary" where
  "binary_of_string s =
     (let bitstring = takeWhile (\<lambda>c. \<not> is_space c) (dropWhile is_space s)
      in case read_bits bitstring [] 0 8 of
           None \<Rightarrow> binary_empty
         | Some (bs, block, bit_iterator) \<Rightarrow>
             binary_resize (length bitstring)
               \<lparr>blocks = (if bit_iterator \<noteq> 8 then bs @ [block] else bs), final_block_excess = 0\<rparr>)"

subsection \<open>Bits of a list of blocks\<close>

definition bit_at :: "data_chunk \<Rightarrow> nat \<Rightarrow> bool" where
  "bit_at bs j \<longleftrightarrow> j div 8 < length bs \<and> bit (bs ! (j div 8)) (7 - j mod 8)"

text \<open>The abstraction to a list of bits, and the class invariant: no bit is set past the size.\<close>

definition to_bits :: "binary \<Rightarrow> bool list" where
  "to_bits b = map (bit_at (blocks b)) [0..<binary_size b]"

definition binary_ok :: "binary \<Rightarrow> bool" where
  "binary_ok b \<longleftrightarrow>
     final_block_excess b < 8 \<and> (blocks b = [] \<longrightarrow> final_block_excess b = 0) \<and>
     list_all (\<lambda>j. \<not> bit_at (blocks b) j) [binary_size b..<8 * length (blocks b)]"

lemma bit_at_nth: "k < 8 \<Longrightarrow> bit_at bs (8 * i + k) \<longleftrightarrow> i < length bs \<and> bit (bs ! i) (7 - k)"
  by (simp add: bit_at_def)

lemma byte_eqI: "(\<And>k. k < 8 \<Longrightarrow> bit x (7 - k) = bit y (7 - k)) \<Longrightarrow> x = (y :: byte)"
proof (rule bit_word_eqI)
  fix n assume *: "\<And>k. k < 8 \<Longrightarrow> bit x (7 - k) = bit y (7 - k)" and "n < LENGTH(8)"
  then show "bit x n = bit y n" using * [of "7 - n"] by simp
qed

lemma bit_high: "8 \<le> k \<Longrightarrow> \<not> bit (x :: byte) k"
  using bit_imp_le_length [of x k] by auto

lemma blocks_eqI:
  assumes "length as = length bs" and "\<And>j. bit_at as j = bit_at bs j"
  shows "as = bs"
proof (rule nth_equalityI [OF assms(1)])
  fix i assume i: "i < length as"
  show "as ! i = bs ! i"
  proof (rule byte_eqI)
    fix k :: nat assume "k < 8"
    then show "bit (as ! i) (7 - k) = bit (bs ! i) (7 - k)" using assms i bit_at_nth [of k as i] bit_at_nth [of k bs i] by simp
  qed
qed

lemma blocks_size_cases: "blocks_size n = (if n mod 8 = 0 then n div 8 else n div 8 + 1)"
proof (cases "n mod 8 = 0")
  case True
  show ?thesis
  proof (cases "n div 8")
    case (Suc m)
    have "n = 8 * (n div 8)" using True mult_div_mod_eq [of 8 n] by simp
    then have "n - 1 = 8 * m + 7" unfolding Suc by simp
    then have "(n - 1) div 8 = m" by simp
    then show ?thesis using True Suc by (auto simp: blocks_size_def)
  next
    case 0
    then have "n = 0" using True mult_div_mod_eq [of 8 n] by simp
    then show ?thesis by (simp add: blocks_size_def)
  qed
next
  case False
  then have "n - 1 = 8 * (n div 8) + (n mod 8 - 1)" using mult_div_mod_eq [of 8 n] by linarith
  moreover have "(8 * q + (r - 1)) div 8 = q" if "r < 8" for q r :: nat using that by simp
  moreover have "n mod 8 < 8" by simp
  ultimately have "(n - 1) div 8 = n div 8" by presburger
  then show ?thesis using False by (auto simp: blocks_size_def)
qed

lemma less_by_blocks: "j < n \<longleftrightarrow> j div 8 < n div 8 \<or> j div 8 = n div 8 \<and> j mod 8 < n mod 8" for j n :: nat
proof -
  have "8 * p + s < 8 * q + r \<longleftrightarrow> p < q \<or> p = q \<and> s < r" if "s < 8" "r < 8" for p q r s :: nat
    using that by (cases p q rule: linorder_cases) simp_all
  from this [of "j mod 8" "n mod 8" "j div 8" "n div 8"] show ?thesis unfolding mult_div_mod_eq by simp
qed

lemma blocks_size_covers: "j < n \<Longrightarrow> j div 8 < blocks_size n"
  unfolding blocks_size_cases using less_by_blocks [of j n] by auto

lemma length_resize_blocks [simp]: "length (resize_blocks n bs) = n"
  by (simp add: resize_blocks_def)

lemma bit_at_resize_blocks: "bit_at (resize_blocks n bs) j \<longleftrightarrow> j div 8 < n \<and> bit_at bs j"
  by (auto simp: bit_at_def resize_blocks_def nth_append split: if_splits)

lemma less_8_cases: "(k :: nat) < 8 \<Longrightarrow> k = 0 \<or> k = 1 \<or> k = 2 \<or> k = 3 \<or> k = 4 \<or> k = 5 \<or> k = 6 \<or> k = 7"
  by presburger

lemma bit_mask: "k < 8 \<Longrightarrow> bit (push_bit e (0xFF :: byte)) k \<longleftrightarrow> e \<le> k"
proof -
  assume k: "k < 8"
  have ones: "bit (0xFF :: byte) m" if "m < 8" for m using less_8_cases [OF that] by (elim disjE) simp_all
  show ?thesis using k ones [of "k - e"] by (auto simp: bit_push_bit_iff)
qed

lemma resize_facts:
  shows "length (blocks (binary_resize n b)) = blocks_size n" and "binary_size (binary_resize n b) = n"
    and "bit_at (blocks (binary_resize n b)) j \<longleftrightarrow> j < n \<and> bit_at (blocks b) j"
    and "binary_ok (binary_resize n b)"
proof -
  let ?r = "binary_resize n b" and ?bs = "resize_blocks (blocks_size n) (blocks b)"
  show len: "length (blocks ?r) = blocks_size n" by (simp add: binary_resize_def Let_def)
  have excess: "unat (final_block_excess ?r) = (if n mod 8 = 0 then 0 else 8 - n mod 8)"
    by (simp add: binary_resize_def Let_def unat_of_nat del: of_nat_diff)
  show size: "binary_size ?r = n"
    unfolding binary_size_def len excess blocks_size_cases using mult_div_mod_eq [of 8 n] by (auto simp: algebra_simps)
  show bits: "bit_at (blocks ?r) j \<longleftrightarrow> j < n \<and> bit_at (blocks b) j" for j
  proof (cases "n mod 8 = 0")
    case True
    then have "j div 8 < n div 8 \<longleftrightarrow> j < n" unfolding less_by_blocks [of j n] by simp
    then show ?thesis using True bit_at_resize_blocks [of "blocks_size n" "blocks b" j]
      by (simp add: binary_resize_def Let_def blocks_size_cases)
  next
    case False
    let ?e = "8 - n mod 8"
    have r: "blocks ?r = ?bs[n div 8 := ?bs ! (n div 8) AND push_bit ?e 0xFF]"
      using False by (simp add: binary_resize_def Let_def blocks_size_cases)
    have "bit_at (blocks ?r) j \<longleftrightarrow> bit_at ?bs j \<and> (j div 8 = n div 8 \<longrightarrow> ?e \<le> 7 - j mod 8)"
      unfolding r bit_at_def using False by (auto simp: nth_list_update bit_and_iff bit_mask blocks_size_cases split: if_splits)
    moreover have "j div 8 < blocks_size n \<and> (j div 8 = n div 8 \<longrightarrow> ?e \<le> 7 - j mod 8) \<longleftrightarrow> j < n"
    proof -
      have "n mod 8 < 8" "j mod 8 < 8" by simp_all
      then have "?e \<le> 7 - j mod 8 \<longleftrightarrow> j mod 8 < n mod 8" by linarith
      then show ?thesis using False unfolding blocks_size_cases less_by_blocks [of j n] by auto
    qed
    ultimately show ?thesis using bit_at_resize_blocks [of "blocks_size n" "blocks b" j] by blast
  qed
  have "unat (final_block_excess ?r) < 8" "blocks ?r = [] \<Longrightarrow> unat (final_block_excess ?r) = 0"
    using excess len by (auto simp: blocks_size_cases split: if_splits)
  then show "binary_ok ?r" using bits size by (simp add: binary_ok_def list_all_iff word_less_nat_alt unat_eq_0)
qed

subsection \<open>The invariant and equality\<close>

lemma to_bits_length [simp]: "length (to_bits b) = binary_size b"
  by (simp add: to_bits_def)

lemma to_bits_nth: "j < binary_size b \<Longrightarrow> to_bits b ! j = bit_at (blocks b) j"
  by (simp add: to_bits_def)

lemma ok_past_size: "binary_ok b \<Longrightarrow> binary_size b \<le> j \<Longrightarrow> \<not> bit_at (blocks b) j"
proof -
  assume ok: "binary_ok b" and j: "binary_size b \<le> j"
  show ?thesis
  proof (cases "j < 8 * length (blocks b)")
    case True
    then show ?thesis using ok j by (simp add: binary_ok_def list_all_iff)
  next
    case False
    then have "\<not> j div 8 < length (blocks b)" by (simp add: div_less_iff_less_mult mult.commute)
    then show ?thesis by (simp add: bit_at_def)
  qed
qed

lemma ok_bit: "binary_ok b \<Longrightarrow> bit_at (blocks b) j \<longleftrightarrow> j < binary_size b \<and> to_bits b ! j"
  using ok_past_size [of b j] to_bits_nth [of j b] by (cases "j < binary_size b") auto

lemma ok_length: "binary_ok b \<Longrightarrow> length (blocks b) = blocks_size (binary_size b)"
proof (cases "blocks b")
  case (Cons x xs)
  assume "binary_ok b"
  then have e: "unat (final_block_excess b) < 8" by (simp add: binary_ok_def word_less_nat_alt)
  let ?e = "unat (final_block_excess b)"
  have "binary_size b = 8 * length xs + (8 - ?e)" using Cons e by (simp add: binary_size_def)
  moreover have "blocks_size (8 * m + (8 - ?e)) = m + 1" for m
  proof (cases "?e = 0")
    case False
    then obtain r where r: "8 - ?e = r" "0 < r" "r < 8" using e by simp
    then have "(8 * m + r) mod 8 = r" "(8 * m + r) div 8 = m" by simp_all
    then show ?thesis unfolding r(1) blocks_size_cases using r(2) by simp
  qed (simp add: blocks_size_cases)
  ultimately show ?thesis using Cons by simp
qed (simp add: binary_ok_def binary_size_def blocks_size_def)

lemma ok_excess: "binary_ok b \<Longrightarrow> unat (final_block_excess b) \<le> 8 * length (blocks b)"
  by (cases "blocks b") (auto simp: binary_ok_def word_less_nat_alt)

lemma binary_at_bit: "binary_ok b \<Longrightarrow> i < binary_size b \<Longrightarrow> binary_at b i = bit_at (blocks b) i"
proof -
  assume "binary_ok b" "i < binary_size b"
  then have "i div 8 < length (blocks b)" using blocks_size_covers ok_length by simp
  moreover have "8 - (i - i div 8 * 8) - 1 = 7 - i mod 8" by (simp add: minus_div_mult_eq_mod)
  ultimately show ?thesis by (simp add: binary_at_def bit_at_def)
qed

text \<open>The bits determine the representation, so the comparison of the code is equality.\<close>

lemma to_bits_inject:
  assumes "binary_ok a" and "binary_ok b" and "to_bits a = to_bits b"
  shows "a = b"
proof -
  have size: "binary_size a = binary_size b" using assms(3) to_bits_length by metis
  then have len: "length (blocks a) = length (blocks b)" using ok_length assms(1,2) by simp
  have blocks: "blocks a = blocks b"
    by (rule blocks_eqI [OF len]) (simp only: ok_bit [OF assms(1)] ok_bit [OF assms(2)] size assms(3))
  have "unat (final_block_excess a) = unat (final_block_excess b)"
    using size ok_excess [OF assms(1)] ok_excess [OF assms(2)] len unfolding binary_size_def by linarith
  with blocks show ?thesis by (simp add: word_unat_eq_iff)
qed

lemma binary_equal_iff: "binary_ok a \<Longrightarrow> binary_ok b \<Longrightarrow> binary_equal a b \<longleftrightarrow> a = b"
proof
  assume ok: "binary_ok a" "binary_ok b" and eq: "binary_equal a b"
  then have "to_bits a = to_bits b"
    by (intro nth_equalityI) (auto simp: binary_equal_def list_all_iff to_bits_nth binary_at_bit)
  then show "a = b" by (rule to_bits_inject [OF ok])
qed (simp add: binary_equal_def list_all_iff)

subsection \<open>Refinement to lists of bits\<close>

lemma bits_eqI: "binary_size b = length xs \<Longrightarrow> (\<And>j. j < length xs \<Longrightarrow> bit_at (blocks b) j = xs ! j) \<Longrightarrow> to_bits b = xs"
  by (rule nth_equalityI) (simp_all add: to_bits_nth)

lemma resize_bits: "binary_ok b \<Longrightarrow> to_bits (binary_resize n b) = take n (to_bits b) @ replicate (n - binary_size b) False"
  by (rule bits_eqI) (auto simp: resize_facts ok_bit nth_append)

lemma of_blocks_facts:
  assumes "bs \<noteq> []"
  shows "binary_ok (binary_of_blocks n bs)" and "binary_size (binary_of_blocks n bs) = n"
    and "bit_at (blocks (binary_of_blocks n bs)) j \<longleftrightarrow> j < n \<and> bit_at bs j"
proof -
  have "bit_at (bs @ replicate k 0) j = bit_at bs j" for k by (auto simp: bit_at_def nth_append)
  then show "bit_at (blocks (binary_of_blocks n bs)) j \<longleftrightarrow> j < n \<and> bit_at bs j"
    using assms by (simp add: binary_of_blocks_def resize_facts)
qed (use assms in \<open>simp_all add: binary_of_blocks_def resize_facts\<close>)

lemma binary_empty_facts: "binary_ok binary_empty" "binary_size binary_empty = 0"
  by (simp_all add: binary_empty_def binary_ok_def binary_size_def)

lemma copy_of_blocks: "binary_ok b \<Longrightarrow> binary_of_blocks (binary_size b) (blocks b) = b"
proof (cases "blocks b = []")
  case True
  assume "binary_ok b"
  then show ?thesis using True by (cases b) (simp add: binary_of_blocks_def binary_ok_def binary_empty_def)
next
  case False
  assume ok: "binary_ok b"
  show ?thesis
    by (rule to_bits_inject [OF _ ok], rule of_blocks_facts(1) [OF False], rule bits_eqI)
      (simp_all add: of_blocks_facts [OF False] ok_bit [OF ok])
qed

subsection \<open>Shifts\<close>

text \<open>A loop that writes its cell from the cells it has not passed yet reads the initial values.\<close>

lemma in_place_loop:
  assumes "\<And>bs bs' i. length bs = length bs' \<Longrightarrow> (\<And>j. i \<le> j \<Longrightarrow> bs ! j = bs' ! j) \<Longrightarrow> f bs i = f bs' i"
  shows "n \<le> length as \<Longrightarrow> fold (\<lambda>i bs. bs[i := f bs i]) [0..<n] as = map (f as) [0..<n] @ drop n as"
proof (induction n)
  case (Suc n)
  let ?bs = "map (f as) [0..<n] @ drop n as"
  have "?bs ! j = as ! j" if "n \<le> j" for j
    using that Suc.prems by (simp add: nth_append)
  then have "f ?bs n = f as n" using Suc.prems by (intro assms) simp_all
  moreover have "?bs[n := f as n] = map (f as) [0..<Suc n] @ drop (Suc n) as"
    using Suc.prems by (simp add: list_update_append Cons_nth_drop_Suc [symmetric])
  ultimately show ?case using Suc by simp
qed simp

lemma shifted_block_bit:
  assumes "k < 8" and "r < 8"
  shows "bit (shifted_block n q r bs i) (7 - k) \<longleftrightarrow>
    (if k + r < 8 then q + i < n \<and> bit (bs ! (q + i)) (7 - (k + r)) else q + i + 1 < n \<and> bit (bs ! (q + i + 1)) (7 - (k + r - 8)))"
proof (cases "k + r < 8")
  case True
  have "bit (push_bit r x) (7 - k) \<longleftrightarrow> bit x (7 - (k + r))" "\<not> bit (drop_bit (8 - r) x) (7 - k)" if "r \<noteq> 0 \<or> k + r < 8" for x :: byte
    using True assms bit_high [of "8 - r + (7 - k)" x] by (auto simp: bit_push_bit_iff bit_drop_bit_eq)
  then show ?thesis using True by (simp add: shifted_block_def bit_or_iff)
next
  case False
  have "\<not> bit (push_bit r x) (7 - k)" "bit (drop_bit (8 - r) x) (7 - k) \<longleftrightarrow> bit x (7 - (k + r - 8))" for x :: byte
  proof -
    have "8 - r + (7 - k) = 7 - (k + r - 8)" using assms False by simp
    then show "bit (drop_bit (8 - r) x) (7 - k) \<longleftrightarrow> bit x (7 - (k + r - 8))" by (simp add: bit_drop_bit_eq)
    show "\<not> bit (push_bit r x) (7 - k)" using False assms by (auto simp: bit_push_bit_iff)
  qed
  then show ?thesis using False assms by (auto simp: shifted_block_def bit_or_iff)
qed

lemma bit_at_shifted:
  assumes "k < 8" and "r < 8"
  shows "bit_at bs (8 * i + k + (8 * q + r)) \<longleftrightarrow>
    (if k + r < 8 then q + i < length bs \<and> bit (bs ! (q + i)) (7 - (k + r))
     else q + i + 1 < length bs \<and> bit (bs ! (q + i + 1)) (7 - (k + r - 8)))"
proof (cases "k + r < 8")
  case True
  have "8 * i + k + (8 * q + r) = 8 * (q + i) + (k + r)" by simp
  then show ?thesis using bit_at_nth [OF True, of bs "q + i"] True by (simp only: if_True)
next
  case False
  have j: "8 * i + k + (8 * q + r) = 8 * (q + i + 1) + (k + r - 8)" using False by simp
  have "k + r - 8 < 8" using assms by simp
  from bit_at_nth [OF this, of bs "q + i + 1"] show ?thesis unfolding j using False by (simp only: if_False)
qed

lemma shift_loop:
  assumes "length bs = n"
  shows "fold (\<lambda>i bs. bs[i := shifted_block n q r bs i]) [0..<n] bs = map (shifted_block n q r bs) [0..<n]"
proof -
  let ?f = "shifted_block n q r"
  have "?f as i = ?f cs i" if "\<And>j. i \<le> j \<Longrightarrow> as ! j = cs ! j" for as cs i
    unfolding shifted_block_def Let_def using that [of "q + i"] that [of "q + i + 1"] by simp
  then have "fold (\<lambda>i bs. bs[i := ?f bs i]) [0..<n] bs = map (?f bs) [0..<n] @ drop n bs"
    using in_place_loop [where f = ?f and as = bs and n = n] assms by blast
  then show ?thesis using assms by simp
qed

lemma bit_at_map: "bit_at (map f [0..<n]) j \<longleftrightarrow> j div 8 < n \<and> bit (f (j div 8)) (7 - j mod 8)"
  by (auto simp: bit_at_def)

lemma shifted_blocks:
  assumes "length bs = n"
  shows "bit_at (fold (\<lambda>i bs. bs[i := shifted_block n (d div 8) (d mod 8) bs i]) [0..<n] bs) j \<longleftrightarrow> bit_at bs (j + d)"
proof -
  have small: "j mod 8 < 8" "d mod 8 < 8" by simp_all
  have bit: "bit (shifted_block n (d div 8) (d mod 8) bs (j div 8)) (7 - j mod 8) \<longleftrightarrow> bit_at bs (j + d)"
    using bit_at_shifted [OF small, of bs "j div 8" "d div 8"] shifted_block_bit [OF small, of n "d div 8" bs "j div 8"] 
    unfolding mult_div_mod_eq assms by (simp only:)
  have "j div 8 \<le> (j + d) div 8" by (rule div_le_mono) simp
  then have "bit_at bs (j + d) \<Longrightarrow> j div 8 < n"
    using assms unfolding bit_at_def by (meson le_less_trans)
  then show ?thesis unfolding shift_loop [OF assms] bit_at_map bit by blast
qed

lemma shift_left_facts:
  assumes "binary_ok b"
  shows "binary_ok (shift_left d b)" and "to_bits (shift_left d b) = drop d (to_bits b)"
proof -
  show "binary_ok (shift_left d b)" by (simp add: shift_left_def Let_def resize_facts)
  show "to_bits (shift_left d b) = drop d (to_bits b)"
    by (rule bits_eqI)
      (auto simp: shift_left_def Let_def resize_facts shifted_blocks ok_bit [OF assms] add.commute)
qed

lemma bit_at_Cons: "bit_at (x # xs) j = (if j < 8 then bit x (7 - j) else bit_at xs (j - 8))"
  by (auto simp: bit_at_def nth_Cons' div_eq_0_iff le_div_geq le_mod_geq)

lemma bit_at_Nil [simp]: "\<not> bit_at [] j"
  by (simp add: bit_at_def)

lemma bit_at_zeros: "bit_at (replicate q 0 @ bs) j \<longleftrightarrow> 8 * q \<le> j \<and> bit_at bs (j - 8 * q)"
  by (induction q arbitrary: j) (auto simp: bit_at_Cons)

lemma bit_at_take: "bit_at (take n bs) j \<longleftrightarrow> j div 8 < n \<and> bit_at bs j"
  by (auto simp: bit_at_def)

lemma merged_bit:
  fixes previous current :: byte
  assumes "r < 8" and "j < 8"
  shows "bit (push_bit (8 - r) previous OR drop_bit r current) (7 - j) \<longleftrightarrow>
    (if j < r then bit previous (r - 1 - j) else bit current (7 - (j - r)))"
proof (cases "j < r")
  case True
  then have "7 - j - (8 - r) = r - 1 - j" "8 - r \<le> 7 - j" "8 \<le> r + (7 - j)" using assms by linarith+
  then show ?thesis using True assms by (auto simp: bit_or_iff bit_push_bit_iff bit_drop_bit_eq bit_high)
next
  case False
  then have "\<not> 8 - r \<le> 7 - j" "r + (7 - j) = 7 - (j - r)" using assms by linarith+
  then show ?thesis using False by (simp add: bit_or_iff bit_push_bit_iff bit_drop_bit_eq)
qed

text \<open>The output of the loop and the block that is left over are the input moved by the offset.\<close>

lemma merged_at:
  assumes "r < 8"
  shows "j < 8 \<Longrightarrow> bit_at ((push_bit (8 - r) previous OR drop_bit r current) # out) j = bit_at (previous # current # bs) (j + 8 - r)"
    and "8 \<le> j \<Longrightarrow> bit_at (x # out) j = bit_at out (j - 8)"
    and "8 \<le> j \<Longrightarrow> bit_at (previous # bs) (j + 8 - r) = bit_at bs (j - r)"
proof -
  assume j: "j < 8"
  show "bit_at ((push_bit (8 - r) previous OR drop_bit r current) # out) j = bit_at (previous # current # bs) (j + 8 - r)"
  proof (cases "j < r")
    case True
    have "r - 1 - j = 7 - (j + 8 - r)" "j + 8 - r < 8" using assms True by simp_all
    then show ?thesis unfolding bit_at_Cons using merged_bit [OF assms j, of previous current] j True by (simp only: if_True)
  next
    case False
    have "\<not> j + 8 - r < 8" "j + 8 - r - 8 = j - r" "j - r < 8" using False j by simp_all
    then show ?thesis unfolding bit_at_Cons using merged_bit [OF assms j, of previous current] j False by (simp only: if_True if_False)
  qed
next
  assume j: "8 \<le> j"
  then have "\<not> j < 8" "\<not> j + 8 - r < 8" "j + 8 - r - 8 = j - r" using assms by simp_all
  then show "bit_at (x # out) j = bit_at out (j - 8)" "bit_at (previous # bs) (j + 8 - r) = bit_at bs (j - r)"
    unfolding bit_at_Cons by (simp_all only: if_False)
qed

lemma shift_right_loop_bits:
  assumes "r < 8"
  shows "length (fst (shift_right_loop r previous bs)) = length bs"
    and "bit_at (fst (shift_right_loop r previous bs) @ [push_bit (8 - r) (snd (shift_right_loop r previous bs))]) j =
      bit_at (previous # bs) (j + 8 - r)"
proof -
  show "length (fst (shift_right_loop r previous bs)) = length bs"
    by (induction bs arbitrary: previous) (simp_all add: Let_def split_beta)
  show "bit_at (fst (shift_right_loop r previous bs) @ [push_bit (8 - r) (snd (shift_right_loop r previous bs))]) j =
      bit_at (previous # bs) (j + 8 - r)"
  proof (induction bs arbitrary: previous j)
    case Nil
    show ?case
    proof (cases "j < 8")
      case True
      have "bit_at [previous, 0] k = bit_at [previous] k" for k by (auto simp: bit_at_Cons)
      then show ?thesis using merged_at(1) [OF assms True, where previous = previous and current = 0 and out = "[]" and bs = "[]"]
        by (simp del: push_bit_of_0)
    next
      case False
      then show ?thesis using merged_at(2,3) [OF assms, of j] by simp
    qed
  next
    case (Cons current bs)
    let ?L = "shift_right_loop r current bs"
    have loop: "fst (shift_right_loop r previous (current # bs)) = (push_bit (8 - r) previous OR drop_bit r current) # fst ?L"
      "snd (shift_right_loop r previous (current # bs)) = snd ?L" by (simp_all add: Let_def split_beta)
    show ?case
    proof (cases "j < 8")
      case True
      show ?thesis unfolding loop append_Cons by (rule merged_at(1) [OF assms True])
    next
      case False
      then have j: "8 \<le> j" "j - 8 + 8 - r = j - r" by simp_all
      show ?thesis using Cons [of current "j - 8"] unfolding loop append_Cons merged_at(2,3) [OF assms j(1)] j(2) .
    qed
  qed
qed

lemma blocks_size_add: "blocks_size (n + d) \<le> d div 8 + blocks_size n + 1"
proof -
  have "(n + d) div 8 = n div 8 + d div 8 + (n mod 8 + d mod 8) div 8" by (rule div_add1_eq)
  moreover have "n mod 8 < 8" "d mod 8 < 8" by simp_all
  moreover have "(n mod 8 + d mod 8) div 8 = (if n mod 8 + d mod 8 < 8 then 0 else 1)"
    using calculation(2,3) div_nat_eqI [of 8 1 "n mod 8 + d mod 8"] by simp
  moreover have "(n + d) mod 8 = (n mod 8 + d mod 8) mod 8" by (simp add: mod_add_eq)
  ultimately show ?thesis unfolding blocks_size_cases by (auto split: if_splits)
qed

lemma shift_right_bit:
  assumes "binary_ok b"
  shows "bit_at (blocks (shift_right d b)) j \<longleftrightarrow> d \<le> j \<and> bit_at (blocks b) (j - d)"
    and "length (blocks (shift_right d b)) = blocks_size (binary_size b + d)"
    and "final_block_excess (shift_right d b) = final_block_excess (binary_resize (binary_size b + d) b)"
proof -
  define r q n where "r = d mod 8" and "q = d div 8" and "n = binary_size b + d"
  define L where "L = shift_right_loop r 0 (blocks b)"
  define c where "c = binary_resize n (b\<lparr>blocks := replicate q 0 @ fst L\<rparr>)"
  have d: "d = 8 * q + r" "r < 8" by (simp_all add: r_def q_def)
  have result: "shift_right d b = (if q + length (blocks b) < length (blocks c)
     then c\<lparr>blocks := (blocks c)[length (blocks c) - 1 := push_bit (8 - r) (snd L)]\<rparr> else c)"
    by (simp add: shift_right_def Let_def split_beta r_def q_def n_def L_def c_def)
  show "length (blocks (shift_right d b)) = blocks_size (binary_size b + d)"
    unfolding result by (simp add: c_def resize_facts n_def)
  show "final_block_excess (shift_right d b) = final_block_excess (binary_resize (binary_size b + d) b)"
    unfolding result by (simp add: c_def n_def binary_resize_def Let_def)
  let ?all = "replicate q 0 @ fst L @ [push_bit (8 - r) (snd L)]"
  have all: "bit_at ?all j \<longleftrightarrow> d \<le> j \<and> bit_at (blocks b) (j - d)" for j
  proof -
    have "bit_at ?all j \<longleftrightarrow> 8 * q \<le> j \<and> bit_at (0 # blocks b) (j - 8 * q + 8 - r)"
      unfolding L_def bit_at_zeros shift_right_loop_bits(2) [OF d(2)] ..
    also have "\<dots> \<longleftrightarrow> d \<le> j \<and> bit_at (blocks b) (j - d)"
      using d(2) unfolding bit_at_Cons d(1) by auto
    finally show ?thesis .
  qed
  let ?m = "q + length (blocks b)"
  have lenL: "length (fst L) = length (blocks b)" unfolding L_def by (rule shift_right_loop_bits(1) [OF d(2)])
  have within: "bit_at ?all j \<Longrightarrow> j < n" for j
    unfolding all using ok_past_size [OF assms, of "j - d"] by (cases "binary_size b \<le> j - d") (auto simp: n_def)
  have c: "bit_at (blocks c) j \<longleftrightarrow> j div 8 < ?m \<and> bit_at ?all j" for j
  proof -
    have "replicate q 0 @ fst L = take ?m ?all" using lenL by simp
    then show ?thesis using within by (auto simp: c_def resize_facts bit_at_take simp del: take_append)
  qed
  have len_c: "length (blocks c) = blocks_size n" by (simp add: c_def resize_facts)
  have "bit_at (blocks (shift_right d b)) j = bit_at ?all j"
  proof (cases "?m < length (blocks c)")
    case True
    then have "length (blocks c) = ?m + 1"
      using blocks_size_add [of "binary_size b" d] ok_length [OF assms] len_c by (simp add: n_def q_def)
    then have "bit_at (blocks (shift_right d b)) j = (if j div 8 = ?m then bit (push_bit (8 - r) (snd L)) (7 - j mod 8) else bit_at (blocks c) j)"
      unfolding result using True by (auto simp: bit_at_def nth_list_update)
    moreover have "bit_at ?all j = bit (push_bit (8 - r) (snd L)) (7 - j mod 8)" if "j div 8 = ?m"
      using that lenL by (simp add: bit_at_def nth_append)
    moreover have "\<not> bit_at ?all j" if "?m < j div 8" using that lenL by (simp add: bit_at_def)
    ultimately show ?thesis using c [of j] by (cases "j div 8" ?m rule: linorder_cases) auto
  next
    case False
    then have "bit_at ?all j \<Longrightarrow> j div 8 < ?m" using within [of j] blocks_size_covers [of j n] len_c by simp
    then show ?thesis unfolding result using False c [of j] by auto
  qed
  then show "bit_at (blocks (shift_right d b)) j \<longleftrightarrow> d \<le> j \<and> bit_at (blocks b) (j - d)" unfolding all .
qed

lemma shift_right_facts:
  assumes "binary_ok b"
  shows "binary_ok (shift_right d b)" and "to_bits (shift_right d b) = replicate d False @ to_bits b"
    and "binary_size (shift_right d b) = binary_size b + d"
proof -
  let ?s = "shift_right d b" and ?n = "binary_size b + d"
  let ?r = "binary_resize ?n b"
  have same: "length (blocks ?s) = length (blocks ?r)" "final_block_excess ?s = final_block_excess ?r"
    by (simp_all add: shift_right_bit [OF assms] resize_facts)
  then show size: "binary_size ?s = ?n" using resize_facts(2) [of ?n b] by (simp add: binary_size_def)
  have bits: "bit_at (blocks ?s) j \<longleftrightarrow> d \<le> j \<and> j < ?n \<and> to_bits b ! (j - d)" for j
    unfolding shift_right_bit(1) [OF assms] ok_bit [OF assms] by auto
  have "binary_ok ?r" by (rule resize_facts)
  then show "binary_ok ?s"
    using same bits unfolding binary_ok_def size by (auto simp: list_all_iff)
  show "to_bits ?s = replicate d False @ to_bits b"
    by (rule bits_eqI) (auto simp: size bits nth_append)
qed

subsection \<open>Concatenation\<close>

lemma or_blocks_facts:
  assumes "start + length other \<le> length bs"
  shows "length (or_blocks start other bs) = length bs"
    and "bit_at (or_blocks start other bs) j \<longleftrightarrow> bit_at bs j \<or> 8 * start \<le> j \<and> bit_at other (j - 8 * start)"
proof -
  let ?f = "\<lambda>i (bs :: data_chunk). bs[start + i := bs ! (start + i) OR other ! i]"
  have loop: "length (fold ?f [0..<n] bs) = length bs \<and>
      (\<forall>i < length bs. fold ?f [0..<n] bs ! i = (if start \<le> i \<and> i < start + n then bs ! i OR other ! (i - start) else bs ! i))"
    if "n \<le> length other" for n
    using that
  proof (induction n)
    case (Suc n)
    then show ?case using assms by (auto simp: nth_list_update)
  qed auto
  then show len: "length (or_blocks start other bs) = length bs" by (simp add: or_blocks_def)
  have nth: "or_blocks start other bs ! i =
      (if start \<le> i \<and> i < start + length other then bs ! i OR other ! (i - start) else bs ! i)" if "i < length bs" for i
    using loop [of "length other"] that by (simp add: or_blocks_def)
  have "8 * start \<le> j \<longleftrightarrow> start \<le> j div 8" by (simp add: less_eq_div_iff_mult_less_eq mult.commute)
  moreover have "(j - 8 * start) div 8 = j div 8 - start \<and> (j - 8 * start) mod 8 = j mod 8" if "8 * start \<le> j"
  proof -
    obtain k where "j = 8 * start + k" using \<open>8 * start \<le> j\<close> le_Suc_ex by blast
    then show ?thesis by simp
  qed
  ultimately show "bit_at (or_blocks start other bs) j \<longleftrightarrow> bit_at bs j \<or> 8 * start \<le> j \<and> bit_at other (j - 8 * start)"
    using assms unfolding bit_at_def len by (auto simp: nth bit_or_iff split: if_splits; linarith)
qed

lemma append_facts:
  assumes "binary_ok b" and "binary_ok post"
  shows "binary_ok (binary_append b post)" and "to_bits (binary_append b post) = to_bits b @ to_bits post"
proof -
  let ?n = "binary_size b" and ?p = "binary_size post"
  let ?dup = "shift_right (?n mod 8) post" and ?c = "binary_resize (?n + ?p) b"
  let ?s = "binary_append b post"
  have s: "?s = ?c\<lparr>blocks := or_blocks (?n div 8) (blocks ?dup) (blocks ?c)\<rparr>"
    by (simp add: binary_append_def Let_def copy_of_blocks [OF assms(2)])
  have "8 * (?n div 8) + ?n mod 8 = ?n" by simp
  moreover have "blocks_size (8 * q + m) = q + blocks_size m" for q m by (simp add: blocks_size_cases)
  ultimately have "?n div 8 + blocks_size (?p + ?n mod 8) = blocks_size (?n + ?p)" by (metis add.assoc add.commute)
  then have fits: "?n div 8 + length (blocks ?dup) \<le> length (blocks ?c)"
    by (simp add: shift_right_bit(2) [OF assms(2)] resize_facts)
  have bit: "bit_at (blocks ?s) j \<longleftrightarrow> j < ?n \<and> to_bits b ! j \<or> ?n \<le> j \<and> j < ?n + ?p \<and> to_bits post ! (j - ?n)" for j
  proof -
    have "8 * (?n div 8) \<le> j \<and> ?n mod 8 \<le> j - 8 * (?n div 8) \<longleftrightarrow> ?n \<le> j"
      "j - 8 * (?n div 8) - ?n mod 8 = j - ?n"
      using mult_div_mod_eq [of 8 ?n] by linarith+
    then show ?thesis
      by (auto simp: s or_blocks_facts(2) [OF fits] shift_right_bit(1) [OF assms(2)] resize_facts ok_bit [OF assms(1)] ok_bit [OF assms(2)])
  qed
  have same: "length (blocks ?s) = length (blocks ?c)" "final_block_excess ?s = final_block_excess ?c"
    by (simp_all add: s or_blocks_facts(1) [OF fits])
  then have size: "binary_size ?s = ?n + ?p" using resize_facts(2) [of "?n + ?p" b] by (simp add: binary_size_def)
  have "binary_ok ?c" by (rule resize_facts)
  then show "binary_ok ?s" using same bit unfolding binary_ok_def size by (auto simp: list_all_iff)
  show "to_bits ?s = to_bits b @ to_bits post"
    by (rule bits_eqI) (auto simp: size bit nth_append)
qed

lemma prepend_facts:
  assumes "binary_ok b" and "binary_ok prior"
  shows "binary_ok (binary_prepend b prior)" and "to_bits (binary_prepend b prior) = to_bits prior @ to_bits b"
proof -
  let ?n = "binary_size b" and ?p = "binary_size prior"
  let ?c = "shift_right ?p b" and ?s = "binary_prepend b prior"
  have s: "?s = ?c\<lparr>blocks := or_blocks 0 (blocks prior) (blocks ?c)\<rparr>" by (simp add: binary_prepend_def Let_def)
  have "blocks_size ?p \<le> blocks_size (?n + ?p)"
    by (simp add: blocks_size_def) (auto intro!: div_le_mono)
  then have fits: "0 + length (blocks prior) \<le> length (blocks ?c)"
    by (simp add: shift_right_bit(2) [OF assms(1)] ok_length [OF assms(2)])
  have bit: "bit_at (blocks ?s) j \<longleftrightarrow> j < ?p \<and> to_bits prior ! j \<or> ?p \<le> j \<and> j < ?n + ?p \<and> to_bits b ! (j - ?p)" for j
    by (auto simp: s or_blocks_facts(2) [OF fits] shift_right_bit(1) [OF assms(1)] ok_bit [OF assms(1)] ok_bit [OF assms(2)])
  have same: "length (blocks ?s) = length (blocks ?c)" "final_block_excess ?s = final_block_excess ?c"
    by (simp_all add: s or_blocks_facts(1) [OF fits])
  then have size: "binary_size ?s = ?p + ?n" using shift_right_facts(3) [OF assms(1), of ?p] by (simp add: binary_size_def)
  have "binary_ok ?c" by (rule shift_right_facts(1) [OF assms(1)])
  then show "binary_ok ?s" using same bit unfolding binary_ok_def size by (auto simp: list_all_iff)
  show "to_bits ?s = to_bits prior @ to_bits b"
    by (rule bits_eqI) (auto simp: size bit nth_append)
qed

lemma substring_facts:
  assumes "binary_ok b"
  shows "binary_ok (binary_substring b start len)"
    and "start + len < 2 ^ 64 \<or> len = max_size_t \<Longrightarrow> binary_size b \<le> max_size_t \<Longrightarrow>
      to_bits (binary_substring b start len) = take len (drop start (to_bits b))"
proof -
  show "binary_ok (binary_substring b start len)" by (simp add: binary_substring_def Let_def resize_facts)
  let ?n = "binary_size b"
  define lo where "lo = min start ?n"
  define len' where "len' = (if len = max_size_t \<or> (lo + len) mod 2 ^ 64 > ?n then ?n - lo else len)"
  have "binary_substring b start len = binary_resize len' (shift_left lo b)"
    by (simp add: binary_substring_def Let_def copy_of_blocks [OF assms] lo_def len'_def min_def)
  then have bits: "to_bits (binary_substring b start len) = take len' (drop lo (to_bits b)) @ replicate (len' - (?n - lo)) False"
    using resize_bits [OF shift_left_facts(1) [OF assms], of len' lo] shift_left_facts(2) [OF assms, of lo]
      to_bits_length [of "shift_left lo b"] by simp
  assume range: "start + len < 2 ^ 64 \<or> len = max_size_t" "?n \<le> max_size_t"
  have "len' = min len (?n - lo)"
  proof (cases "len = max_size_t")
    case False
    then have "(lo + len) mod 2 ^ 64 = lo + len" using range(1) by (simp add: lo_def)
    then show ?thesis using False by (auto simp: len'_def min_def lo_def)
  qed (use range(2) in \<open>auto simp: len'_def\<close>)
  moreover have "drop lo (to_bits b) = drop start (to_bits b)" by (auto simp: lo_def min_def)
  ultimately show "to_bits (binary_substring b start len) = take len (drop start (to_bits b))"
    unfolding bits by (auto simp: min_def lo_def)
qed

subsection \<open>Text\<close>

lemma bit_at_snoc_zero: "bit_at (xs @ [0]) j = bit_at xs j"
  by (cases "j div 8 < length xs") (auto simp: bit_at_def nth_append less_Suc_eq)

lemma read_bits_app: "read_bits (cs @ ds) bs block k =
   (case read_bits cs bs block k of None \<Rightarrow> None | Some (bs, block, k) \<Rightarrow> read_bits ds bs block k)"
  by (induction cs arbitrary: bs block k) (simp_all add: Let_def)

text \<open>After any number of characters the blocks and the block in progress hold the bits read.\<close>

lemma read_bits_snoc:
  assumes "is_base2 cs"
  shows "\<exists>bs block. read_bits cs [] 0 8 = Some (bs, block, 8 - length cs mod 8) \<and> length bs = length cs div 8 \<and>
    (\<forall>j. bit_at (bs @ [block]) j \<longleftrightarrow> j < length cs \<and> cs ! j = CHR ''1'')"
  using assms
proof (induction cs rule: rev_induct)
  case Nil
  then show ?case by (simp add: bit_at_Cons)
next
  case (snoc c cs)
  then obtain bs block where IH: "read_bits cs [] 0 8 = Some (bs, block, 8 - length cs mod 8)" "length bs = length cs div 8"
    "\<And>j. bit_at (bs @ [block]) j \<longleftrightarrow> j < length cs \<and> cs ! j = CHR ''1''"
    by (auto simp: is_base2_def)
  let ?n = "length cs" and ?r = "length cs mod 8"
  define block' where "block' = (if c = CHR ''1'' then block OR push_bit (7 - ?r) 1 else block)"
  have r: "?r < 8" "8 - ?r - 1 = 7 - ?r" by simp_all
  have c: "c = CHR ''0'' \<or> c = CHR ''1''" using snoc.prems by (simp add: is_base2_def)
  have bits: "bit_at (bs @ [block']) j \<longleftrightarrow> j < length (cs @ [c]) \<and> (cs @ [c]) ! j = CHR ''1''" for j
  proof -
    have "bit (push_bit (7 - ?r) (1 :: byte)) (7 - m) \<longleftrightarrow> m = ?r" if "m < 8" for m
      using that r(1) by (auto simp: push_bit_eq_mult bit_exp_iff)
    then have "bit_at (bs @ [block']) j \<longleftrightarrow> bit_at (bs @ [block]) j \<or> c = CHR ''1'' \<and> j div 8 = length bs \<and> j mod 8 = ?r"
      by (auto simp: bit_at_def nth_append block'_def bit_or_iff split: if_splits)
    moreover have "j div 8 = length bs \<and> j mod 8 = ?r \<longleftrightarrow> j = ?n"
      unfolding IH(2) by (metis mult_div_mod_eq)
    ultimately show ?thesis unfolding IH(3) by (auto simp: nth_append less_Suc_eq)
  qed
  show ?case
  proof (cases "?r = 7")
    case True
    then have step: "(?n + 1) mod 8 = 0" "(?n + 1) div 8 = ?n div 8 + 1" by (simp_all add: mod_Suc div_Suc)
    have "read_bits (cs @ [c]) [] 0 8 = Some (bs @ [block'], 0, 8)"
      using c True by (auto simp: read_bits_app IH(1) block'_def)
    moreover have "bit_at (bs @ [block', 0]) j = bit_at (bs @ [block']) j" for j
      using bit_at_snoc_zero [of "bs @ [block']" j] by simp
    ultimately show ?thesis using step bits IH(2) by (intro exI [of _ "bs @ [block']"] exI [of _ 0]) simp
  next
    case False
    then have step: "(?n + 1) mod 8 = ?r + 1" "(?n + 1) div 8 = ?n div 8" using r(1) by (simp_all add: mod_Suc div_Suc)
    have "read_bits (cs @ [c]) [] 0 8 = Some (bs, block', 8 - (?r + 1))"
      using c False r by (auto simp: read_bits_app IH(1) block'_def)
    then show ?thesis using step bits IH(2) by (intro exI [of _ bs] exI [of _ block']) simp
  qed
qed

lemma of_string_ok: "binary_ok (binary_of_string s)"
  unfolding binary_of_string_def Let_def
  by (split option.split) (simp add: split_beta resize_facts(4) binary_empty_facts(1))

lemma base2_token: "is_base2 s \<Longrightarrow> takeWhile (\<lambda>c. \<not> is_space c) (dropWhile is_space s) = s"
proof -
  assume base2: "is_base2 s"
  have no_space: "\<not> is_space c" if "c \<in> set s" for c
  proof -
    have "c = CHR ''0'' \<or> c = CHR ''1''" using base2 that by (simp add: is_base2_def list_all_iff)
    then show ?thesis by (elim disjE) (simp_all add: is_space_def)
  qed
  have "dropWhile is_space s = s" using no_space by (cases s) simp_all
  moreover have "takeWhile (\<lambda>c. \<not> is_space c) s = s" using no_space by (simp add: takeWhile_eq_all_conv)
  ultimately show ?thesis by (simp only:)
qed

lemma of_string_bits:
  assumes "is_base2 s"
  shows "to_bits (binary_of_string s) = map (\<lambda>c. c = CHR ''1'') s"
proof -
  obtain bs block where read: "read_bits s [] 0 8 = Some (bs, block, 8 - length s mod 8)"
    "\<And>j. bit_at (bs @ [block]) j \<longleftrightarrow> j < length s \<and> s ! j = CHR ''1''" "length bs = length s div 8"
    using read_bits_snoc [OF assms] by blast
  let ?bs = "if 8 - length s mod 8 \<noteq> 8 then bs @ [block] else bs"
  have bits: "bit_at ?bs j \<longleftrightarrow> s ! j = CHR ''1''" if "j < length s" for j
  proof (cases "length s mod 8 = 0")
    case True
    then have "j div 8 < length bs" using that less_by_blocks [of j "length s"] read(3) by simp
    then have "bit_at bs j = bit_at (bs @ [block]) j" by (simp add: bit_at_def nth_append)
    then show ?thesis using True read(2) that by simp
  next
    case False
    then have "?bs = bs @ [block]" by simp
    then show ?thesis using read(2) [of j] that by simp
  qed
  have result: "binary_of_string s = binary_resize (length s) \<lparr>blocks = ?bs, final_block_excess = 0\<rparr>"
    by (simp only: binary_of_string_def base2_token [OF assms] read(1) Let_def option.case prod.case)
  show ?thesis
    unfolding result by (rule bits_eqI) (simp_all only: resize_facts length_map binary.simps nth_map bits simp_thms)
qed

lemmas of_string_facts = of_string_ok of_string_bits

lemma encoded_bits: "binary_ok b \<Longrightarrow> binary_encoded b = map (\<lambda>x. if x then CHR ''1'' else CHR ''0'') (to_bits b)"
  by (simp add: binary_encoded_def to_bits_def binary_at_bit)

lemma encoded_base2: "is_base2 (binary_encoded b)"
  by (auto simp: binary_encoded_def is_base2_def list_all_iff)

subsection \<open>The contract of bit strings\<close>

text \<open>
  What clients rely on: every operation keeps the invariant and acts on the bits as the operation on lists.  The
  lemmas of the contract are proved once, from the laws.
\<close>

locale bit_strings =
  fixes ok :: "'b \<Rightarrow> bool" and bits :: "'b \<Rightarrow> bool list" and join prefix_with :: "'b \<Rightarrow> 'b \<Rightarrow> 'b"
    and drop_front push_front :: "nat \<Rightarrow> 'b \<Rightarrow> 'b"
  assumes inject: "ok a \<Longrightarrow> ok b \<Longrightarrow> bits a = bits b \<Longrightarrow> a = b"
    and join: "ok a \<Longrightarrow> ok b \<Longrightarrow> ok (join a b) \<and> bits (join a b) = bits a @ bits b"
    and prefix_with: "ok a \<Longrightarrow> ok b \<Longrightarrow> ok (prefix_with a b) \<and> bits (prefix_with a b) = bits b @ bits a"
    and drop_front: "ok a \<Longrightarrow> ok (drop_front n a) \<and> bits (drop_front n a) = drop n (bits a)"
    and push_front: "ok a \<Longrightarrow> ok (push_front n a) \<and> bits (push_front n a) = replicate n False @ bits a"
begin

lemma join_assoc: "ok a \<Longrightarrow> ok b \<Longrightarrow> ok c \<Longrightarrow> join (join a b) c = join a (join b c)"
  by (rule inject) (simp_all add: join)

lemma prefix_is_join: "ok a \<Longrightarrow> ok b \<Longrightarrow> prefix_with a b = join b a"
  by (rule inject) (simp_all add: join prefix_with)

lemma drop_prefix: "ok a \<Longrightarrow> ok b \<Longrightarrow> drop_front (length (bits b)) (prefix_with a b) = a"
  by (rule inject) (simp_all add: prefix_with drop_front)

lemma drop_push: "ok a \<Longrightarrow> drop_front n (push_front n a) = a"
  by (rule inject) (simp_all add: drop_front push_front)

end

interpretation packed: bit_strings binary_ok to_bits binary_append binary_prepend shift_left shift_right
  by unfold_locales
    (simp_all add: to_bits_inject append_facts prepend_facts shift_left_facts shift_right_facts)

text \<open>
  C24. The packed bit string refines the list of its bits: append, prepend, both shifts and
  resize do on the bytes and the excess count what concatenation, dropping, padding and
  truncation do on the list, they keep the unused bits zero, and equality is equality of the
  lists.
\<close>

theorem binary_refines_bits:
  assumes "binary_ok a" and "binary_ok b"
  shows "binary_ok (binary_append a b) \<and> to_bits (binary_append a b) = to_bits a @ to_bits b \<and>
    binary_ok (binary_prepend a b) \<and> to_bits (binary_prepend a b) = to_bits b @ to_bits a \<and>
    binary_ok (shift_left n a) \<and> to_bits (shift_left n a) = drop n (to_bits a) \<and>
    binary_ok (shift_right n a) \<and> to_bits (shift_right n a) = replicate n False @ to_bits a \<and>
    binary_ok (binary_resize n a) \<and> to_bits (binary_resize n a) = take n (to_bits a) @ replicate (n - binary_size a) False \<and>
    (binary_equal a b \<longleftrightarrow> to_bits a = to_bits b)"
  using assms packed.join [OF assms] packed.prefix_with [OF assms] packed.drop_front [OF assms(1)]
    packed.push_front [OF assms(1)] resize_facts(4) [of n a] resize_bits [OF assms(1), of n] binary_equal_iff [OF assms]
    packed.inject [OF assms]
  by auto

theorem binary_refines_bits_witness:
  "to_bits (binary_append (binary_of_string ''10101'') (binary_of_string ''0011'')) = [True, False, True, False, True, False, False, True, True]"
proof -
  have "to_bits (binary_append (binary_of_string ''10101'') (binary_of_string ''0011'')) =
      to_bits (binary_of_string ''10101'') @ to_bits (binary_of_string ''0011'')"
    using binary_refines_bits [OF of_string_facts(1) of_string_facts(1)] by blast
  then show ?thesis by (simp add: of_string_facts(2) is_base2_def)
qed

text \<open>
  The text of a bit string reads back to it, and a text of zeros and ones is the text of what it reads to.
\<close>

theorem binary_text_round_trip:
  "(binary_ok b \<longrightarrow> binary_of_string (binary_encoded b) = b) \<and> (is_base2 s \<longrightarrow> binary_encoded (binary_of_string s) = s)"
proof (intro conjI impI)
  assume ok: "binary_ok b"
  have "map (\<lambda>c. c = CHR ''1'') (binary_encoded b) = map (\<lambda>x. x) (to_bits b)"
    unfolding encoded_bits [OF ok] map_map by (rule map_cong) simp_all
  then have "to_bits (binary_of_string (binary_encoded b)) = to_bits b"
    using of_string_bits [OF encoded_base2, of b] by (simp only: list.map_ident)
  then show "binary_of_string (binary_encoded b) = b" by (rule to_bits_inject [OF of_string_ok ok])
next
  assume s: "is_base2 s"
  have "(if c = CHR ''1'' then CHR ''1'' else CHR ''0'') = c" if "c \<in> set s" for c
    using s that unfolding is_base2_def list_all_iff by metis
  then have "map (\<lambda>c. if c = CHR ''1'' then CHR ''1'' else CHR ''0'') s = s" by (intro map_idI)
  then show "binary_encoded (binary_of_string s) = s"
    unfolding encoded_bits [OF of_string_ok] of_string_bits [OF s] map_map comp_def .
qed

theorem binary_text_round_trip_witness:
  "is_base2 ''1011'' \<and> binary_encoded (binary_of_string ''1011'') = ''1011''"
proof -
  have "is_base2 ''1011''" by (simp add: is_base2_def)
  then show ?thesis using binary_text_round_trip by blast
qed

lemma prefix_facts:
  assumes "binary_ok b" and "field \<noteq> []"
  shows "is_prefix_of b field \<longleftrightarrow> (\<forall>j < binary_size b. to_bits b ! j = bit_at field j)"
proof -
  let ?t = "binary_of_blocks (binary_size b) field"
  have t: "binary_ok ?t" "to_bits ?t = map (bit_at field) [0..<binary_size b]"
    by (auto intro!: bits_eqI simp: of_blocks_facts [OF assms(2)])
  have "is_prefix_of b field \<longleftrightarrow> to_bits b = to_bits ?t"
    unfolding is_prefix_of_def binary_equal_iff [OF assms(1) t(1)] by (metis to_bits_inject [OF assms(1) t(1)])
  then show ?thesis unfolding t(2) by (auto simp: list_eq_iff_nth_eq)
qed

end
