(* ===== verification/Stealth.thy ===== *)
theory Stealth
  imports Payment_Address Binary
begin

unbundle bit_operations_syntax

text \<open>
  Stealth payments: \<^verbatim>\<open>src/math/stealth.cpp\<close> and \<^verbatim>\<open>src/wallet/stealth_address.cpp\<close>, \<^verbatim>\<open>stealth_sender.cpp\<close>,
  \<^verbatim>\<open>stealth_receiver.cpp\<close>.  A receiver publishes a scan key and spend keys; a sender makes an ephemeral key pair,
  hides its public key in a null data script, whose hash is mined to start with a filter, and pays to a key only the
  receiver can derive the secret of.  The vendored digests \<^verbatim>\<open>hmac_sha256_hash\<close> and \<^verbatim>\<open>sha512_hash\<close> are the parameters
  \<open>hmac\<close> and \<open>sha512\<close>.
\<close>

subsection \<open>Scripts and ephemeral keys\<close>

definition is_stealth_script :: "currency \<Rightarrow> script \<Rightarrow> bool" where
  "is_stealth_script cur s =
     (let ops = script_operations cur s in
      if pattern_of ops \<noteq> null_data then False else length (op_data (ops ! 1)) \<ge> 32)"

definition to_stealth_prefix :: "currency \<Rightarrow> hash_functions \<Rightarrow> script \<Rightarrow> uint32 option" where
  "to_stealth_prefix cur H s =
     (if \<not> is_stealth_script cur s then None
      else Some (from_little_endian 4 0 0 (bitcoin_hash H (script_to_data s False))))"

text \<open>The literal is an array of characters, so \<^verbatim>\<open>to_chunk\<close> takes its terminating zero too.\<close>

definition stealth_magic :: data_chunk where
  "stealth_magic = map of_char ''Stealth seed'' @ [0]"

function ephemeral_loop ::
  "'k secp256k1 \<Rightarrow> (data_chunk \<Rightarrow> data_chunk \<Rightarrow> data_chunk) \<Rightarrow> data_chunk \<Rightarrow> nat \<Rightarrow> ec_secret option" where
  "ephemeral_loop C hmac seed nonce =
     (if nonce < 255 then
        let secret = hmac (of_nat nonce # seed) stealth_magic in
        case secret_to_public C ec_compressed_size secret of
          Some point \<Rightarrow> if is_even_key point then Some secret else ephemeral_loop C hmac seed (nonce + 1)
        | None \<Rightarrow> ephemeral_loop C hmac seed (nonce + 1)
      else None)"
  by auto
termination by (relation "measure (\<lambda>(C, hmac, seed, nonce). 255 - nonce)") auto

declare ephemeral_loop.simps [simp del]

definition create_ephemeral_key ::
  "'k secp256k1 \<Rightarrow> (data_chunk \<Rightarrow> data_chunk \<Rightarrow> data_chunk) \<Rightarrow> data_chunk \<Rightarrow> ec_secret option" where
  "create_ephemeral_key C hmac seed = ephemeral_loop C hmac seed 0"

lemma nonce_decreases: "nonce \<noteq> start \<Longrightarrow> unat (start - (nonce + 1)) < unat (start - nonce)" for start nonce :: uint32
proof -
  have less: "unat (d - 1) < unat d" if "d \<noteq> 0" for d :: uint32
    using that by (metis diff_less unat_minus_one unat_gt_0 word_gt_0 zero_less_one)
  assume "nonce \<noteq> start"
  then have "start - nonce \<noteq> 0" by simp
  from less [OF this] show ?thesis by (simp add: algebra_simps)
qed

text \<open>The loop over all nonces but the starting one; the buffer is the prefix of the data without its nonce.\<close>

function mine_loop ::
  "currency \<Rightarrow> hash_functions \<Rightarrow> binary \<Rightarrow> data_chunk \<Rightarrow> uint32 \<Rightarrow> uint32 \<Rightarrow> script option" where
  "mine_loop cur H flt body start nonce =
     (if nonce \<noteq> start then
        let out = script_from_operations (to_null_data_pattern (body @ to_little_endian nonce)) in
        case to_stealth_prefix cur H out of
          Some field \<Rightarrow>
            if is_prefix_of_number flt field then Some out else mine_loop cur H flt body start (nonce + 1)
        | None \<Rightarrow> mine_loop cur H flt body start (nonce + 1)
      else None)"
  by auto
termination by (relation "measure (\<lambda>(cur, H, flt, body, start, nonce). unat (start - nonce))") (auto simp: nonce_decreases)

declare mine_loop.simps [simp del]

definition create_stealth_script ::
  "currency \<Rightarrow> 'k secp256k1 \<Rightarrow> hash_functions \<Rightarrow> (data_chunk \<Rightarrow> data_chunk) \<Rightarrow> ec_secret \<Rightarrow> binary \<Rightarrow> data_chunk \<Rightarrow> script option" where
  "create_stealth_script cur C H sha512 secret flt seed =
     (let max_pad_size = max_null_data_size - 32 - 4;
          bytes = sha512 seed;
          pad_size = unat (last bytes) mod max_pad_size
      in case secret_to_public C ec_compressed_size secret of
           None \<Rightarrow> None
         | Some point \<Rightarrow>
             if \<not> is_even_key point then None
             else
               let start = from_little_endian 4 0 0 (drop max_pad_size bytes)
               in mine_loop cur H flt (drop 1 point @ take pad_size bytes) start (start + 1))"

definition create_stealth_data ::
  "currency \<Rightarrow> 'k secp256k1 \<Rightarrow> hash_functions \<Rightarrow> (data_chunk \<Rightarrow> data_chunk) \<Rightarrow> (data_chunk \<Rightarrow> data_chunk \<Rightarrow> data_chunk) \<Rightarrow>
     binary \<Rightarrow> data_chunk \<Rightarrow> (script \<times> ec_secret) option" where
  "create_stealth_data cur C H sha512 hmac flt seed =
     (case create_ephemeral_key C hmac seed of
        None \<Rightarrow> None
      | Some secret \<Rightarrow> map_option (\<lambda>s. (s, secret)) (create_stealth_script cur C H sha512 secret flt seed))"

definition extract_ephemeral_key :: "currency \<Rightarrow> script \<Rightarrow> ec_point option" where
  "extract_ephemeral_key cur s =
     (if \<not> is_stealth_script cur s then None else Some (2 # take 32 (op_data (script_operations cur s ! 1))))"

definition extract_unsigned_ephemeral_key :: "currency \<Rightarrow> script \<Rightarrow> hash_digest option" where
  "extract_unsigned_ephemeral_key cur s =
     (if \<not> is_stealth_script cur s then None else Some (take 32 (op_data (script_operations cur s ! 1))))"

definition shared_secret :: "'k secp256k1 \<Rightarrow> hash_functions \<Rightarrow> ec_secret \<Rightarrow> ec_point \<Rightarrow> ec_secret option" where
  "shared_secret C H secret point = map_option (sha256_hash H) (ec_multiply C point secret)"

definition uncover_stealth :: "'k secp256k1 \<Rightarrow> hash_functions \<Rightarrow> ec_point \<Rightarrow> ec_secret \<Rightarrow> ec_point \<Rightarrow> ec_point option" where
  "uncover_stealth C H ephemeral_or_scan scan_or_ephemeral spend =
     (case shared_secret C H scan_or_ephemeral ephemeral_or_scan of None \<Rightarrow> None | Some shared \<Rightarrow> ec_add C spend shared)"

definition uncover_stealth_secret :: "'k secp256k1 \<Rightarrow> hash_functions \<Rightarrow> ec_point \<Rightarrow> ec_secret \<Rightarrow> ec_secret \<Rightarrow> ec_secret option" where
  "uncover_stealth_secret C H ephemeral_or_scan scan_or_ephemeral spend =
     (case shared_secret C H scan_or_ephemeral ephemeral_or_scan of None \<Rightarrow> None | Some shared \<Rightarrow> ec_add_secret C spend shared)"

subsection \<open>Addresses\<close>

record stealth_address =
  sa_valid :: bool
  sa_version :: byte
  sa_scan_key :: ec_point
  sa_spend_keys :: "ec_point list"
  sa_signatures :: byte
  sa_filter :: binary

abbreviation (input) min_address_size :: nat where "min_address_size \<equiv> 42"
abbreviation (input) reuse_key_flag :: byte where "reuse_key_flag \<equiv> 1"
abbreviation (input) max_filter_bits :: nat where "max_filter_bits \<equiv> 32"
abbreviation (input) stealth_mainnet_p2kh :: byte where "stealth_mainnet_p2kh \<equiv> 0x2a"

definition stealth_address_null :: stealth_address where
  "stealth_address_null = \<lparr>sa_valid = False, sa_version = 0, sa_scan_key = replicate 33 0, sa_spend_keys = [], sa_signatures = 0,
     sa_filter = binary_empty\<rparr>"

definition stealth_address_of :: "binary \<Rightarrow> ec_point \<Rightarrow> ec_point list \<Rightarrow> byte \<Rightarrow> byte \<Rightarrow> stealth_address" where
  "stealth_address_of flt scan_key spend_keys signatures v =
     (let spenders = (if spend_keys = [] then [scan_key] else spend_keys);
          n = length spenders
      in if n > 255 then stealth_address_null
         else if binary_size flt > max_filter_bits then stealth_address_null
         else
           let coerced = (if signatures = 0 \<or> unat signatures > n then of_nat n else signatures)
           in \<lparr>sa_valid = True, sa_version = v, sa_scan_key = scan_key, sa_spend_keys = spenders, sa_signatures = coerced,
               sa_filter = flt\<rparr>)"

definition from_stealth :: "hash_functions \<Rightarrow> data_chunk \<Rightarrow> stealth_address" where
  "from_stealth H decoded =
     (if length decoded < min_address_size \<or> \<not> verify_checksum H decoded then stealth_address_null
      else if decoded ! 1 > reuse_key_flag then stealth_address_null
      else
        let scan_key = take 33 (drop 2 decoded);
            n = unat (decoded ! 35);
            required = min_address_size + n * 33
        in if length decoded < required then stealth_address_null
           else
             let keys = map (\<lambda>k. take 33 (drop (36 + k * 33) decoded)) [0..<n];
                 spend_keys = (if decoded ! 1 = reuse_key_flag then scan_key # keys else keys);
                 i = 36 + n * 33;
                 filter_bits = unat (decoded ! (i + 1));
                 filter_bytes = (filter_bits + 7) div 8
             in if filter_bits > max_filter_bits then stealth_address_null
                else if length decoded \<noteq> required + filter_bytes then stealth_address_null
                else stealth_address_of (binary_of_blocks filter_bits (take filter_bytes (drop (i + 2) decoded)))
                       scan_key spend_keys (decoded ! i) (decoded ! 0))"

definition stealth_from_string :: "hash_functions \<Rightarrow> string \<Rightarrow> stealth_address" where
  "stealth_from_string H encoded = (case decode_base58 encoded of Some decoded \<Rightarrow> from_stealth H decoded | None \<Rightarrow> stealth_address_null)"

definition reuse_key :: "stealth_address \<Rightarrow> bool" where
  "reuse_key a \<longleftrightarrow> sa_scan_key a \<in> set (sa_spend_keys a)"

definition stealth_options :: "stealth_address \<Rightarrow> byte" where
  "stealth_options a = (if reuse_key a then reuse_key_flag else 0)"

definition stealth_to_chunk :: "hash_functions \<Rightarrow> stealth_address \<Rightarrow> data_chunk" where
  "stealth_to_chunk H a =
     (let number_spend_pubkeys = (if reuse_key a then of_nat (length (sa_spend_keys a)) - 1 else of_nat (length (sa_spend_keys a)))
      in append_checksum H
           ([sa_version a, stealth_options a] @ sa_scan_key a @ [number_spend_pubkeys] @
            concat (filter (\<lambda>key. key \<noteq> sa_scan_key a) (sa_spend_keys a)) @
            [sa_signatures a, of_nat (binary_size (sa_filter a))] @ blocks (sa_filter a)))"

definition stealth_encoded :: "hash_functions \<Rightarrow> stealth_address \<Rightarrow> string" where
  "stealth_encoded H a = encode_base58 (stealth_to_chunk H a)"

subsection \<open>Sender and receiver\<close>

text \<open>The spend key of a receiver that could not be constructed is not initialized.\<close>

record stealth_receiver =
  recv_version :: byte
  scan_private :: ec_secret
  spend_private :: ec_secret
  spend_public :: "ec_point option"
  recv_address :: stealth_address

definition stealth_receiver_of :: "'k secp256k1 \<Rightarrow> ec_secret \<Rightarrow> ec_secret \<Rightarrow> binary \<Rightarrow> byte \<Rightarrow> stealth_receiver" where
  "stealth_receiver_of C scan_secret spend_secret flt v =
     (case (secret_to_public C ec_compressed_size scan_secret, secret_to_public C ec_compressed_size spend_secret) of
        (Some scan_point, Some spend_point) \<Rightarrow>
          \<lparr>recv_version = v, scan_private = scan_secret, spend_private = spend_secret, spend_public = Some spend_point,
           recv_address = stealth_address_of flt scan_point [spend_point] 0 stealth_mainnet_p2kh\<rparr>
      | _ \<Rightarrow>
          \<lparr>recv_version = v, scan_private = scan_secret, spend_private = spend_secret, spend_public = None,
           recv_address = stealth_address_null\<rparr>)"

definition derive_address :: "'k secp256k1 \<Rightarrow> hash_functions \<Rightarrow> stealth_receiver \<Rightarrow> ec_point \<Rightarrow> payment_address option" where
  "derive_address C H receiver ephemeral_public =
     (case spend_public receiver of
        None \<Rightarrow> None
      | Some spend \<Rightarrow>
          map_option (\<lambda>point. from_public C H (ec_public_of_point point True) (recv_version receiver))
            (uncover_stealth C H ephemeral_public (scan_private receiver) spend))"

definition receiver_derive_private :: "'k secp256k1 \<Rightarrow> hash_functions \<Rightarrow> stealth_receiver \<Rightarrow> ec_point \<Rightarrow> ec_secret option" where
  "receiver_derive_private C H receiver ephemeral_public =
     uncover_stealth_secret C H ephemeral_public (scan_private receiver) (spend_private receiver)"

record stealth_sender =
  send_version :: byte
  send_script :: script
  send_address :: payment_address

definition sender_initialize ::
  "currency \<Rightarrow> 'k secp256k1 \<Rightarrow> hash_functions \<Rightarrow> (data_chunk \<Rightarrow> data_chunk) \<Rightarrow> ec_secret \<Rightarrow> stealth_address \<Rightarrow> data_chunk \<Rightarrow>
     binary \<Rightarrow> byte \<Rightarrow> stealth_sender" where
  "sender_initialize cur C H sha512 ephemeral_private address seed flt v =
     (let empty = \<lparr>send_version = v, send_script = script_reset, send_address = payment_address_null\<rparr>
      in case secret_to_public C ec_compressed_size ephemeral_private of
           None \<Rightarrow> empty
         | Some ephemeral_public \<Rightarrow>
             if length (sa_spend_keys address) \<noteq> 1 then empty
             else
               case uncover_stealth C H (sa_scan_key address) ephemeral_private (hd (sa_spend_keys address)) of
                 None \<Rightarrow> empty
               | Some sender_public \<Rightarrow>
                   (case create_stealth_script cur C H sha512 ephemeral_private flt seed of
                      None \<Rightarrow> empty
                    | Some s \<Rightarrow>
                        empty\<lparr>send_script := s, send_address := from_public C H (ec_public_of_point sender_public True) v\<rparr>))"

definition stealth_sender_of ::
  "currency \<Rightarrow> 'k secp256k1 \<Rightarrow> hash_functions \<Rightarrow> (data_chunk \<Rightarrow> data_chunk) \<Rightarrow> (data_chunk \<Rightarrow> data_chunk \<Rightarrow> data_chunk) \<Rightarrow>
     stealth_address \<Rightarrow> data_chunk \<Rightarrow> binary \<Rightarrow> byte \<Rightarrow> stealth_sender" where
  "stealth_sender_of cur C H sha512 hmac address seed flt v =
     (case create_ephemeral_key C hmac seed of
        None \<Rightarrow> \<lparr>send_version = v, send_script = script_reset, send_address = payment_address_null\<rparr>
      | Some ephemeral_private \<Rightarrow> sender_initialize cur C H sha512 ephemeral_private address seed flt v)"

subsection \<open>A payment is found and spent\<close>

text \<open>The two sides of a key agreement compute the same point.\<close>

definition agreement_law :: "'k secp256k1 \<Rightarrow> bool" where
  "agreement_law C \<longleftrightarrow> (\<forall>s t ks kt. ec_pubkey_create C s = Some ks \<longrightarrow> ec_pubkey_create C t = Some kt \<longrightarrow>
     ec_pubkey_tweak_mul C ks t = ec_pubkey_tweak_mul C kt s)"

lemma curve_points:
  assumes "curve_laws C"
  shows "length (ec_pubkey_serialize C True k) = 33" "ec_pubkey_parse C (ec_pubkey_serialize C c k) = Some k"
    "is_compressed_key (ec_pubkey_serialize C True k)"
  using assms unfolding curve_laws_def by blast+

lemma shared_secret_agrees:
  assumes "curve_laws C" and "agreement_law C" and "secret_to_public C 33 s = Some ps" and "secret_to_public C 33 t = Some pt"
  shows "shared_secret C H t ps = shared_secret C H s pt"
proof -
  obtain ks kt where create: "ec_pubkey_create C s = Some ks" "ec_pubkey_create C t = Some kt"
    and points: "ps = ec_pubkey_serialize C True ks" "pt = ec_pubkey_serialize C True kt"
    using assms(3,4) by (auto simp: secret_to_public_def serialize_point_def Let_def split: option.splits if_splits)
  have "ec_pubkey_tweak_mul C ks t = ec_pubkey_tweak_mul C kt s" using assms(2) create unfolding agreement_law_def by blast
  then show ?thesis using assms(1) by (simp add: shared_secret_def ec_multiply_def points curve_points split: option.split)
qed

lemma ec_add_secret_of:
  assumes "curve_laws C" and "secret_to_public C 33 s = Some p" and "ec_add C p t = Some p'"
  shows "\<exists>s'. ec_add_secret C s t = Some s' \<and> secret_to_public C 33 s' = Some p'"
proof -
  obtain k where k: "ec_pubkey_create C s = Some k" "p = ec_pubkey_serialize C True k"
    using assms(2) by (auto simp: secret_to_public_def serialize_point_def Let_def split: option.splits if_splits)
  have "length p = 33" "ec_pubkey_parse C p = Some k" using assms(1) k(2) by (auto simp: curve_laws_def)
  moreover have "ec_pubkey_tweak_add C k t = (case ec_privkey_tweak_add C s t of None \<Rightarrow> None | Some s' \<Rightarrow> ec_pubkey_create C s')"
    using assms(1) k(1) unfolding curve_laws_def by blast
  ultimately show ?thesis
    using assms(3) by (auto simp: ec_add_def ec_add_secret_def secret_to_public_def split: option.splits)
qed

lemma mined_script:
  "mine_loop cur H flt body start nonce = Some s \<Longrightarrow>
   \<exists>n field. s = script_from_operations (to_null_data_pattern (body @ to_little_endian (n :: uint32))) \<and>
     to_stealth_prefix cur H s = Some field \<and> is_prefix_of_number flt field"
proof (induction cur H flt body start nonce rule: mine_loop.induct)
  case (1 cur H flt body start nonce)
  let ?out = "script_from_operations (to_null_data_pattern (body @ to_little_endian nonce))"
  show ?case
  proof (cases "nonce \<noteq> start \<and> (\<exists>field. to_stealth_prefix cur H ?out = Some field \<and> is_prefix_of_number flt field)")
    case True
    then have "s = ?out" using "1.prems" by (subst (asm) mine_loop.simps) auto
    with True show ?thesis by blast
  next
    case False
    with "1.prems" have ne: "nonce \<noteq> start" and rest: "mine_loop cur H flt body start (nonce + 1) = Some s"
      by (auto simp: mine_loop.simps [of cur H flt body start nonce] Let_def split: option.splits if_splits)
    show ?thesis
    proof (cases "to_stealth_prefix cur H ?out")
      case None
      from "1.IH"(1) [OF ne refl None rest] show ?thesis .
    next
      case (Some field)
      then have "\<not> is_prefix_of_number flt field" using False ne by blast
      from "1.IH"(2) [OF ne refl Some this rest] show ?thesis .
    qed
  qed
qed

lemma created_script:
  assumes "create_stealth_script cur C H sha512 secret flt seed = Some s" and "curve_laws C"
  obtains point field where "secret_to_public C 33 secret = Some point" "extract_ephemeral_key cur s = Some point"
    "to_stealth_prefix cur H s = Some field" "is_prefix_of_number flt field"
proof -
  let ?bytes = "sha512 seed"
  let ?pad = "take (unat (last ?bytes) mod 44) ?bytes"
  obtain point where point: "secret_to_public C 33 secret = Some point" "is_even_key point"
    and mined: "\<exists>start nonce. mine_loop cur H flt (drop 1 point @ ?pad) start nonce = Some s"
    using assms(1) by (auto simp: create_stealth_script_def Let_def script_constants split: option.splits if_splits)
  obtain k where k: "point = ec_pubkey_serialize C True k"
    using point(1) by (auto simp: secret_to_public_def serialize_point_def Let_def split: option.splits if_splits)
  then have len: "length point = 33" using curve_points(1) [OF assms(2)] by simp
  obtain n field where s: "s = script_from_operations (to_null_data_pattern ((drop 1 point @ ?pad) @ to_little_endian (n :: uint32)))"
    and field: "to_stealth_prefix cur H s = Some field" "is_prefix_of_number flt field"
    using mined mined_script by blast
  let ?data = "(drop 1 point @ ?pad) @ to_little_endian n"
  have "unat (last ?bytes) mod 44 < 44" by simp
  then have "length ?pad \<le> 43" by simp
  then have size: "36 \<le> length ?data" "length ?data \<le> 80" using len by (simp_all add: to_little_endian_def)
  then have "op_data (script_operations cur s ! 1) = ?data"
    using operation_of_data_nominal [of ?data]
    by (simp add: s script_operations_def script_from_operations_def to_null_data_pattern_def script_constants)
  moreover have "take 32 ?data = drop 1 point" using len by simp
  moreover have "2 # drop 1 point = point" using point(2) len by (cases point) (auto simp: is_even_key_def)
  moreover have "is_stealth_script cur s" using field(1) by (auto simp: to_stealth_prefix_def split: if_splits)
  ultimately have "extract_ephemeral_key cur s = Some point" by (simp add: extract_ephemeral_key_def)
  then show thesis using that point(1) field by blast
qed

text \<open>
  C29. A stealth payment that a sender makes to the address of a receiver is found and can
  be spent: from the script the receiver extracts the ephemeral key, derives the address
  that was paid, and derives a secret whose public key has that address; the hash of the
  script starts with the filter the sender mined for.
\<close>

theorem stealth_payment_found:
  assumes "curve_laws C" and "agreement_law C"
    and "receiver = stealth_receiver_of C scan_secret spend_secret flt v"
    and "sender = sender_initialize cur C H sha512 ephemeral (recv_address receiver) seed sender_filter v"
    and "addr_valid (send_address sender)"
  shows "\<exists>point secret key field. extract_ephemeral_key cur (send_script sender) = Some point \<and>
    derive_address C H receiver point = Some (send_address sender) \<and>
    receiver_derive_private C H receiver point = Some secret \<and>
    secret_to_public C 33 secret = Some key \<and> from_public C H (ec_public_of_point key True) v = send_address sender \<and>
    to_stealth_prefix cur H (send_script sender) = Some field \<and> is_prefix_of_number sender_filter field"
proof -
  let ?sa = "recv_address receiver"
  have paid: "length (sa_spend_keys ?sa) = 1"
    "\<exists>sender_public s. uncover_stealth C H (sa_scan_key ?sa) ephemeral (hd (sa_spend_keys ?sa)) = Some sender_public \<and>
      create_stealth_script cur C H sha512 ephemeral sender_filter seed = Some s \<and> send_script sender = s \<and>
      send_address sender = from_public C H (ec_public_of_point sender_public True) v"
    using assms(4,5)
    by (auto simp: sender_initialize_def Let_def payment_address_null_def split: option.splits if_splits)
  then obtain scan spend where keys: "secret_to_public C 33 scan_secret = Some scan" "secret_to_public C 33 spend_secret = Some spend"
    using assms(3) by (auto simp: stealth_receiver_of_def stealth_address_null_def split: option.splits)
  have receiver: "receiver = \<lparr>recv_version = v, scan_private = scan_secret, spend_private = spend_secret, spend_public = Some spend,
      recv_address = stealth_address_of flt scan [spend] 0 0x2a\<rparr>"
    using assms(3) keys by (simp add: stealth_receiver_of_def)
  have sa: "sa_scan_key ?sa = scan" "sa_spend_keys ?sa = [spend]"
    using paid(1) by (auto simp: receiver stealth_address_of_def stealth_address_null_def Let_def split: if_splits)
  obtain key s where made: "uncover_stealth C H scan ephemeral spend = Some key"
    "create_stealth_script cur C H sha512 ephemeral sender_filter seed = Some s" "send_script sender = s"
    "send_address sender = from_public C H (ec_public_of_point key True) v"
    using paid(2) sa by auto
  obtain point field where point: "secret_to_public C 33 ephemeral = Some point" "extract_ephemeral_key cur s = Some point"
    "to_stealth_prefix cur H s = Some field" "is_prefix_of_number sender_filter field"
    using created_script [OF made(2) assms(1)] by blast
  have same: "shared_secret C H scan_secret point = shared_secret C H ephemeral scan"
    by (rule shared_secret_agrees [OF assms(1,2) point(1) keys(1)])
  obtain shared where shared: "shared_secret C H ephemeral scan = Some shared" "ec_add C spend shared = Some key"
    using made(1) by (auto simp: uncover_stealth_def split: option.splits)
  obtain secret where secret: "ec_add_secret C spend_secret shared = Some secret" "secret_to_public C 33 secret = Some key"
    using ec_add_secret_of [OF assms(1) keys(2) shared(2)] by blast
  have "derive_address C H receiver point = Some (send_address sender)"
    using same shared made(4) by (simp add: derive_address_def receiver uncover_stealth_def)
  moreover have "receiver_derive_private C H receiver point = Some secret"
    using same shared secret by (simp add: receiver_derive_private_def receiver uncover_stealth_secret_def)
  ultimately show ?thesis using point secret(2) made(3,4) by auto
qed

text \<open>Without a filter the first nonce is taken, so the script is made for every even key.\<close>

lemma null_data_recognized:
  assumes "36 \<le> length data" and "length data \<le> 80"
  shows "is_stealth_script cur (script_from_operations (to_null_data_pattern data))"
proof -
  have op: "operation_of_data data True = \<lparr>op_code = opcode_from_size (length data), op_data = data, op_valid = True\<rparr>"
    using assms by (intro operation_of_data_nominal) (simp_all add: script_constants)
  have "minimal_opcode_from_data data = opcode_from_size (length data)"
    using assms by (auto simp: minimal_opcode_from_data_def)
  then have "is_minimal_push (operation_of_data data True)" by (simp add: op is_minimal_push_def opcode_from_data_def)
  then have "output_pattern (to_null_data_pattern data) = null_data"
    using assms
    by (simp add: output_pattern_def to_null_data_pattern_def script_constants is_null_data_pattern_def is_pay_key_hash_pattern_def
        is_pay_script_hash_pattern_def operation_of_code_def op)
  moreover have "op_data (to_null_data_pattern data ! 1) = data" using assms by (simp add: to_null_data_pattern_def op script_constants)
  ultimately show ?thesis
    using assms by (simp add: is_stealth_script_def script_operations_def script_from_operations_def pattern_of_def)
qed

lemma empty_filter: "is_prefix_of_number binary_empty field"
proof -
  have bytes: "write_4_bytes_little_endian field \<noteq> []" by (simp add: write_4_bytes_little_endian_def to_little_endian_def flip: length_0_conv)
  have "binary_size binary_empty = 0" by (simp add: binary_size_def binary_empty_def)
  then show ?thesis
    using of_blocks_facts(2) [OF bytes, of 0] by (simp add: is_prefix_of_number_def is_prefix_of_def binary_equal_def)
qed

lemma script_without_filter:
  assumes "curve_laws C" and "secret_to_public C 33 secret = Some point" and "is_even_key point"
  shows "\<exists>s. create_stealth_script cur C H sha512 secret binary_empty seed = Some s"
proof -
  let ?bytes = "sha512 seed"
  let ?start = "from_little_endian 4 0 0 (drop 44 ?bytes) :: uint32"
  let ?body = "drop 1 point @ take (unat (last ?bytes) mod 44) ?bytes"
  let ?data = "?body @ to_little_endian (?start + 1)"
  have "length point = 33"
    using assms(2) by (auto simp: secret_to_public_def serialize_point_def Let_def split: option.splits if_splits)
  moreover have "unat (last ?bytes) mod 44 < 44" by simp
  ultimately have "36 \<le> length ?data" "length ?data \<le> 80" by (simp_all add: to_little_endian_def)
  then have "is_stealth_script cur (script_from_operations (to_null_data_pattern ?data))" by (rule null_data_recognized)
  then have "mine_loop cur H binary_empty ?body ?start (?start + 1) = Some (script_from_operations (to_null_data_pattern ?data))"
    by (subst mine_loop.simps) (simp add: to_stealth_prefix_def empty_filter)
  then show ?thesis using assms(2,3) by (simp add: create_stealth_script_def Let_def script_constants)
qed

lemma example_agreement: "agreement_law example_secp"
  by (auto simp: agreement_law_def example_secp_def mult.commute)

lemma example_keys:
  assumes "length s = 32"
  shows "secret_to_public example_secp 33 s = Some (2 # s)"
  using assms by (simp add: secret_to_public_def example_secp_def serialize_point_def le_val_256)

theorem stealth_payment_found_witness:
  "\<exists>receiver sender point secret. receiver = stealth_receiver_of example_secp (replicate 32 3) (replicate 32 5) binary_empty 0 \<and>
    sender = sender_initialize bitcoin example_secp example_digests (\<lambda>seed. replicate 64 9) (replicate 32 7) (recv_address receiver) [1]
      binary_empty 0 \<and>
    addr_valid (send_address sender) \<and>
    extract_ephemeral_key bitcoin (send_script sender) = Some point \<and>
    derive_address example_secp example_digests receiver point = Some (send_address sender) \<and>
    receiver_derive_private example_secp example_digests receiver point = Some secret"
proof -
  let ?scan = "replicate 32 3 :: data_chunk" and ?spend = "replicate 32 5 :: data_chunk" and ?e = "replicate 32 7 :: data_chunk"
  define receiver where "receiver = stealth_receiver_of example_secp ?scan ?spend binary_empty 0"
  define sender where "sender = sender_initialize bitcoin example_secp example_digests (\<lambda>seed. replicate 64 9) ?e (recv_address receiver) [1]
      binary_empty 0"
  have keys: "secret_to_public example_secp 33 ?scan = Some (2 # ?scan)" "secret_to_public example_secp 33 ?spend = Some (2 # ?spend)"
    "secret_to_public example_secp 33 ?e = Some (2 # ?e)"
    by (rule example_keys, simp)+
  have sa: "sa_scan_key (recv_address receiver) = 2 # ?scan" "sa_spend_keys (recv_address receiver) = [2 # ?spend]"
    by (simp_all only: receiver_def stealth_receiver_of_def keys option.case prod.case stealth_receiver.simps)
      (simp_all add: stealth_address_of_def binary_size_def binary_empty_def)
  have shared: "\<exists>x. shared_secret example_secp example_digests ?e (2 # p) = Some x" if "length p = 32" for p
    using that by (simp add: shared_secret_def ec_multiply_def example_secp_def serialize_point_def le_val_256)
  have add: "\<exists>q. ec_add example_secp (2 # p) x = Some q" if "length p = 32" for p x
    using that by (simp add: ec_add_def example_secp_def serialize_point_def le_val_256)
  obtain x where x: "shared_secret example_secp example_digests ?e (2 # ?scan) = Some x" using shared [of ?scan] by auto
  obtain q where "ec_add example_secp (2 # ?spend) x = Some q" using add [of ?spend x] by auto
  with x have q: "uncover_stealth example_secp example_digests (2 # ?scan) ?e (2 # ?spend) = Some q"
    by (simp only: uncover_stealth_def option.case)
  obtain s where s: "create_stealth_script bitcoin example_secp example_digests (\<lambda>seed. replicate 64 9) ?e binary_empty [1] = Some s"
    using script_without_filter [OF example_secp_laws keys(3), of bitcoin example_digests "\<lambda>seed. replicate 64 9" "[1]"]
    by (auto simp: is_even_key_def)
  have "sender = \<lparr>send_version = 0, send_script = s, send_address = from_public example_secp example_digests (ec_public_of_point q True) 0\<rparr>"
    by (simp only: sender_def sender_initialize_def keys sa q s option.case Let_def length_Cons list.size list.sel) simp
  then have "addr_valid (send_address sender)"
    by (simp add: from_public_def ec_public_of_point_def ec_public_to_data_def payment_address_of_def)
  from stealth_payment_found [OF example_secp_laws example_agreement receiver_def sender_def this] this
  show ?thesis unfolding receiver_def [symmetric] sender_def [symmetric] by (metis receiver_def sender_def)
qed

subsection \<open>Text of addresses\<close>

definition stealth_address_wf :: "stealth_address \<Rightarrow> bool" where
  "stealth_address_wf a \<longleftrightarrow> sa_valid a \<and> length (sa_scan_key a) = 33 \<and> list_all (\<lambda>key. length key = 33) (sa_spend_keys a) \<and>
     1 \<le> length (sa_spend_keys a) \<and> length (sa_spend_keys a) \<le> 255 \<and> count_list (sa_spend_keys a) (sa_scan_key a) \<le> 1 \<and>
     binary_ok (sa_filter a) \<and> binary_size (sa_filter a) \<le> 32 \<and>
     1 \<le> unat (sa_signatures a) \<and> unat (sa_signatures a) \<le> length (sa_spend_keys a)"

lemma chunk_of_concat:
  assumes "list_all (\<lambda>x. length x = n) xs" and "k < length xs"
  shows "take n (drop (k * n) (concat xs @ rest)) = xs ! k"
  using assms
proof (induction xs arbitrary: k)
  case (Cons x xs)
  then show ?case by (cases k) (auto simp: add.commute)
qed simp

lemma length_concat_keys: "list_all (\<lambda>x. length x = n) xs \<Longrightarrow> length (concat xs) = length xs * n"
  by (induction xs) auto

text \<open>The parser on the fields in their order.\<close>

lemma from_stealth_fields:
  assumes "decoded = [v, opt] @ scan @ [of_nat (length keys)] @ concat keys @ [sigs, of_nat bits] @ raw @ checksum" and "verify_checksum H decoded"
    and "length checksum = 4" and "length scan = 33" and "list_all (\<lambda>key. length key = 33) keys" and "length keys < 256" and "bits \<le> 32"
    and "length raw = (bits + 7) div 8" and "opt \<le> 1"
  shows "from_stealth H decoded =
    stealth_address_of (binary_of_blocks bits raw) scan (if opt = 1 then scan # keys else keys) sigs v"
proof -
  let ?n = "length keys"
  have len: "length (concat keys) = ?n * 33" using assms(5) by (rule length_concat_keys)
  have size: "length decoded = 42 + ?n * 33 + (bits + 7) div 8" using assms(1,3,4,8) len by simp
  have front: "decoded ! 0 = v" "decoded ! 1 = opt" "take 33 (drop 2 decoded) = scan" "decoded ! 35 = of_nat ?n"
    using assms(1,4) by (simp_all add: nth_append)
  have n: "unat (of_nat ?n :: byte) = ?n" using assms(6) by (simp add: unat_of_nat)
  define post where "post = [sigs, of_nat bits] @ raw @ checksum"
  have tail: "drop 36 decoded = concat keys @ post" using assms(1,4) by (simp add: post_def)
  have "drop (36 + k) decoded = drop k (concat keys @ post)" for k
    unfolding tail [symmetric] by (simp add: add.commute)
  then have keys: "map (\<lambda>k. take 33 (drop (36 + k * 33) decoded)) [0..<?n] = keys"
    using chunk_of_concat [OF assms(5)] by (intro nth_equalityI) auto
  have "drop (36 + ?n * 33) decoded = post" using tail len by (metis append_eq_conv_conj drop_drop add.commute)
  then have at: "drop (j + (36 + ?n * 33)) decoded = drop j post" for j by (metis drop_drop)
  have nth: "decoded ! (36 + ?n * 33 + j) = post ! j" if "36 + ?n * 33 + j < length decoded" for j
    using at [of j] that by (metis Cons_nth_drop_Suc add.commute drop_eq_Nil list.sel(1) list.simps(3) not_le nth_via_drop)
  have ending: "decoded ! (36 + ?n * 33) = sigs" "decoded ! (36 + ?n * 33 + 1) = of_nat bits"
    "take ((bits + 7) div 8) (drop (36 + ?n * 33 + 2) decoded) = raw"
    using nth [of 0] nth [of 1] at [of 2] size assms(8) by (simp_all add: post_def add.commute)
  have bits: "unat (of_nat bits :: byte) = bits" using assms(7) by (simp add: unat_of_nat)
  show ?thesis
    using assms(2,7,9) size unfolding from_stealth_def Let_def front n keys ending bits by (simp add: not_less)
qed

lemma spend_keys_split:
  assumes "count_list keys scan \<le> 1"
  shows "length (filter (\<lambda>key. key \<noteq> scan) keys) = (if scan \<in> set keys then length keys - 1 else length keys)"
proof -
  have "length (filter (\<lambda>key. key \<noteq> scan) keys) + count_list keys scan = length keys" by (induction keys) auto
  moreover have "count_list keys scan = 0 \<longleftrightarrow> scan \<notin> set keys" by (simp add: count_list_0_iff)
  ultimately show ?thesis using assms by (cases "count_list keys scan = 0") auto
qed

lemma stealth_address_of_valid:
  assumes "1 \<le> length keys" and "length keys \<le> 255" and "binary_size flt \<le> 32" and "1 \<le> unat sigs" and "unat sigs \<le> length keys"
  shows "stealth_address_of flt scan keys sigs v =
    \<lparr>sa_valid = True, sa_version = v, sa_scan_key = scan, sa_spend_keys = keys, sa_signatures = sigs, sa_filter = flt\<rparr>"
proof -
  have "keys \<noteq> []" "sigs \<noteq> 0" using assms(1,4) by auto
  with assms show ?thesis by (simp add: stealth_address_of_def)
qed

text \<open>
  A stealth address survives its text form; a spend key that equals the scan key, of which there is at most one, comes
  first afterwards.
\<close>

theorem stealth_address_round_trip:
  assumes "stealth_address_wf a"
  shows "stealth_from_string H (stealth_encoded H a) =
    a\<lparr>sa_spend_keys := (if reuse_key a then [sa_scan_key a] else []) @ filter (\<lambda>key. key \<noteq> sa_scan_key a) (sa_spend_keys a)\<rparr>"
proof -
  let ?scan = "sa_scan_key a" and ?bits = "binary_size (sa_filter a)"
  let ?keys = "filter (\<lambda>key. key \<noteq> ?scan) (sa_spend_keys a)"
  have wf: "length ?scan = 33" "list_all (\<lambda>key. length key = 33) ?keys" "length (sa_spend_keys a) \<le> 255" "?bits \<le> 32"
    "binary_ok (sa_filter a)" "1 \<le> length (sa_spend_keys a)" "1 \<le> unat (sa_signatures a)" "unat (sa_signatures a) \<le> length (sa_spend_keys a)"
    "sa_valid a"
    using assms by (auto simp: stealth_address_wf_def list_all_iff)
  have n: "length ?keys = (if reuse_key a then length (sa_spend_keys a) - 1 else length (sa_spend_keys a))"
    using spend_keys_split [of "sa_spend_keys a" ?scan] assms by (simp add: stealth_address_wf_def reuse_key_def)
  then have number: "(if reuse_key a then of_nat (length (sa_spend_keys a)) - 1 else of_nat (length (sa_spend_keys a))) = (of_nat (length ?keys) :: byte)"
    using wf(6) by (simp add: of_nat_diff)
  have blocks: "length (blocks (sa_filter a)) = (?bits + 7) div 8"
    using ok_length [OF wf(5)] by (cases ?bits) (auto simp: blocks_size_def)
  define decoded where "decoded = stealth_to_chunk H a"
  obtain checksum where decoded: "length checksum = 4" "decoded = [sa_version a, stealth_options a] @ ?scan @ [of_nat (length ?keys)] @
      concat ?keys @ [sa_signatures a, of_nat ?bits] @ blocks (sa_filter a) @ checksum"
    unfolding decoded_def stealth_to_chunk_def Let_def number append_checksum_def append_assoc
    by (metis length_to_little_endian_4)
  have "verify_checksum H decoded" using append_checksum_facts(2) by (simp add: decoded_def stealth_to_chunk_def Let_def)
  from from_stealth_fields [OF decoded(2) this decoded(1) wf(1,2) _ wf(4) blocks]
  have "from_stealth H decoded = stealth_address_of (sa_filter a) ?scan (if reuse_key a then ?scan # ?keys else ?keys) (sa_signatures a) (sa_version a)"
    using n wf(3) copy_of_blocks [OF wf(5)] by (simp add: stealth_options_def split: if_splits)
  moreover have len: "length (if reuse_key a then ?scan # ?keys else ?keys) = length (sa_spend_keys a)" using n wf(6) by auto
  ultimately have "from_stealth H decoded = a\<lparr>sa_spend_keys := (if reuse_key a then ?scan # ?keys else ?keys)\<rparr>"
    using wf(3,4,6-9) stealth_address_of_valid [of "if reuse_key a then ?scan # ?keys else ?keys" "sa_filter a" "sa_signatures a", unfolded len]
    by (cases a) simp
  then show ?thesis by (simp add: stealth_from_string_def stealth_encoded_def decode_encode_base58 decoded_def split: if_splits)
qed

theorem stealth_address_round_trip_witness:
  "\<exists>a. stealth_address_wf a \<and> reuse_key a \<and> stealth_from_string example_digests (stealth_encoded example_digests a) = a"
proof -
  let ?a = "\<lparr>sa_valid = True, sa_version = 0x2a, sa_scan_key = replicate 33 2, sa_spend_keys = [replicate 33 2, replicate 33 3],
    sa_signatures = 1, sa_filter = binary_empty\<rparr>"
  have "replicate 33 (2 :: byte) \<noteq> replicate 33 3" by (simp only: replicate_eq_replicate) simp
  then have "stealth_address_wf ?a" "reuse_key ?a"
    "filter (\<lambda>key. key \<noteq> sa_scan_key ?a) (sa_spend_keys ?a) = [replicate 33 3]"
    using binary_empty_facts by (simp_all add: stealth_address_wf_def reuse_key_def binary_size_def binary_empty_def)
  with stealth_address_round_trip [of ?a example_digests] show ?thesis by auto
qed

end
