(* ===== verification/Mnemonic.thy ===== *)
theory Mnemonic
  imports Script Witness Formats "HOL-Library.Sublist"
begin

text \<open>
  The text of opcodes, operations, scripts and witnesses: \<^verbatim>\<open>src/machine/opcode.cpp\<close>, \<^verbatim>\<open>operation.cpp\<close>
  (\<^verbatim>\<open>from_string\<close>, \<^verbatim>\<open>to_string\<close>), \<^verbatim>\<open>script.cpp\<close>, \<^verbatim>\<open>witness.cpp\<close> and \<^verbatim>\<open>utility/string.cpp\<close>.  The Boost string
  algorithms are the fields of a record; what the code relies on is stated by \<open>text_laws\<close>.
\<close>

subsection \<open>The string library\<close>

record text_library =
  to_lower_copy :: "string \<Rightarrow> string"
  trim_copy :: "string \<Rightarrow> string"
  split_any_of :: "string \<Rightarrow> string \<Rightarrow> string list"
  lexical_cast_int64 :: "string \<Rightarrow> number option"

text \<open>The call of \<^verbatim>\<open>boost::split\<close> is \<open>split_any_of delimiters sentence\<close>, with adjacent delimiters merged.\<close>

definition split_text :: "text_library \<Rightarrow> string \<Rightarrow> string \<Rightarrow> bool \<Rightarrow> string list" where
  "split_text lib sentence delimiter trim =
     (if trim then split_any_of lib delimiter (trim_copy lib sentence) else split_any_of lib delimiter sentence)"

fun join_text :: "string list \<Rightarrow> string \<Rightarrow> string" where
  "join_text [] delimiter = []"
| "join_text [w] delimiter = w"
| "join_text (w # ws) delimiter = w @ delimiter @ join_text ws delimiter"

definition is_upper :: "char \<Rightarrow> bool" where
  "is_upper c \<longleftrightarrow> 65 \<le> ord c \<and> ord c \<le> 90"

definition text_laws :: "text_library \<Rightarrow> bool" where
  "text_laws lib \<longleftrightarrow>
     (\<forall>s. list_all (\<lambda>c. \<not> is_upper c) s \<longrightarrow> to_lower_copy lib s = s) \<and>
     (\<forall>s. s = [] \<or> \<not> is_space (hd s) \<and> \<not> is_space (last s) \<longrightarrow> trim_copy lib s = s) \<and>
     (\<forall>d. split_any_of lib [d] [] = [[]]) \<and>
     (\<forall>d ws. ws \<noteq> [] \<and> list_all (\<lambda>w. w \<noteq> [] \<and> d \<notin> set w) ws \<longrightarrow> split_any_of lib [d] (join_text ws [d]) = ws)"

subsection \<open>Opcodes\<close>

text \<open>
  The comparisons of \<^verbatim>\<open>opcode_from_string\<close> in their order, an alias after the name: \<open>zero\<close>, \<open>push_0\<close> to \<open>push_75\<close>, the
  names of single codes, and \<open>reserved_186\<close> to \<open>reserved_255\<close>.
\<close>

definition opcode_named :: "(string \<times> nat) list" where
  "opcode_named =
    [(''push_one'', 76), (''pushdata1'', 76), (''push_two'', 77), (''pushdata2'', 77), (''push_four'', 78),
     (''pushdata4'', 78), (''-1'', 79), (''reserved_80'', 80), (''reserved'', 80), (''0'', 0), (''1'', 81),
     (''2'', 82), (''3'', 83), (''4'', 84), (''5'', 85), (''6'', 86), (''7'', 87), (''8'', 88), (''9'', 89),
     (''10'', 90), (''11'', 91), (''12'', 92), (''13'', 93), (''14'', 94), (''15'', 95), (''16'', 96), (''nop'', 97),
     (''reserved_98'', 98), (''ver'', 98), (''if'', 99), (''notif'', 100), (''disabled_verif'', 101),
     (''verif'', 101), (''disabled_vernotif'', 102), (''vernotif'', 102), (''else'', 103), (''endif'', 104),
     (''verify'', 105), (''return'', 106), (''toaltstack'', 107), (''fromaltstack'', 108), (''drop2'', 109),
     (''2drop'', 109), (''dup2'', 110), (''2dup'', 110), (''dup3'', 111), (''3dup'', 111), (''over2'', 112),
     (''2over'', 112), (''rot2'', 113), (''2rot'', 113), (''swap2'', 114), (''2swap'', 114), (''ifdup'', 115),
     (''depth'', 116), (''drop'', 117), (''dup'', 118), (''nip'', 119), (''over'', 120), (''pick'', 121),
     (''roll'', 122), (''rot'', 123), (''swap'', 124), (''tuck'', 125), (''cat'', 126), (''substr'', 127),
     (''left'', 128), (''right'', 129), (''size'', 130), (''invert'', 131), (''and'', 132), (''or'', 133),
     (''xor'', 134), (''equal'', 135), (''equalverify'', 136), (''reserved_137'', 137), (''reserved1'', 137),
     (''reserved_138'', 138), (''reserved2'', 138), (''add1'', 139), (''1add'', 139), (''sub1'', 140),
     (''1sub'', 140), (''mul2'', 141), (''2mul'', 141), (''div2'', 142), (''2div'', 142), (''negate'', 143),
     (''abs'', 144), (''not'', 145), (''nonzero'', 146), (''0notequal'', 146), (''add'', 147), (''sub'', 148),
     (''mul'', 149), (''div'', 150), (''mod'', 151), (''lshift'', 152), (''rshift'', 153), (''booland'', 154),
     (''boolor'', 155), (''numequal'', 156), (''numequalverify'', 157), (''numnotequal'', 158), (''lessthan'', 159),
     (''greaterthan'', 160), (''lessthanorequal'', 161), (''greaterthanorequal'', 162), (''min'', 163),
     (''max'', 164), (''within'', 165), (''ripemd160'', 166), (''sha1'', 167), (''sha256'', 168), (''hash160'', 169),
     (''hash256'', 170), (''codeseparator'', 171), (''checksig'', 172), (''checksigverify'', 173),
     (''checkmultisig'', 174), (''checkmultisigverify'', 175), (''nop1'', 176), (''checklocktimeverify'', 177),
     (''nop2'', 177), (''checksequenceverify'', 178), (''nop3'', 178), (''nop4'', 179), (''nop5'', 180),
     (''nop6'', 181), (''nop7'', 182), (''nop8'', 183), (''nop9'', 184), (''nop10'', 185)]"

definition opcode_pushes :: "(string \<times> nat) list" where
  "opcode_pushes = map (\<lambda>n. (''push_'' @ to_decimal n, n)) [0..<76]"

definition opcode_reserved :: "(string \<times> nat) list" where
  "opcode_reserved = map (\<lambda>n. (''reserved_'' @ to_decimal n, n)) [186..<256]"

definition opcode_table :: "(string \<times> nat) list" where
  "opcode_table = (''zero'', 0) # opcode_pushes @ opcode_named @ opcode_reserved"

text \<open>The names of the codes 97 to 185, with those of 177 and 178 before their forks.\<close>

definition opcode_names :: "string list" where
  "opcode_names =
    [''nop'', ''ver'', ''if'', ''notif'', ''verif'', ''vernotif'', ''else'', ''endif'', ''verify'', ''return'',
     ''toaltstack'', ''fromaltstack'', ''2drop'', ''2dup'', ''3dup'', ''2over'', ''2rot'', ''2swap'', ''ifdup'',
     ''depth'', ''drop'', ''dup'', ''nip'', ''over'', ''pick'', ''roll'', ''rot'', ''swap'', ''tuck'', ''cat'',
     ''substr'', ''left'', ''right'', ''size'', ''invert'', ''and'', ''or'', ''xor'', ''equal'', ''equalverify'',
     ''reserved_137'', ''reserved_138'', ''1add'', ''1sub'', ''2mul'', ''2div'', ''negate'', ''abs'', ''not'',
     ''nonzero'', ''add'', ''sub'', ''mul'', ''div'', ''mod'', ''lshift'', ''rshift'', ''booland'', ''boolor'',
     ''numequal'', ''numequalverify'', ''numnotequal'', ''lessthan'', ''greaterthan'', ''lessthanorequal'',
     ''greaterthanorequal'', ''min'', ''max'', ''within'', ''ripemd160'', ''sha1'', ''sha256'', ''hash160'',
     ''hash256'', ''codeseparator'', ''checksig'', ''checksigverify'', ''checkmultisig'', ''checkmultisigverify'',
     ''nop1'', ''nop2'', ''nop3'', ''nop4'', ''nop5'', ''nop6'', ''nop7'', ''nop8'', ''nop9'', ''nop10'']"

definition opcode_to_hexadecimal :: "opcode \<Rightarrow> string" where
  "opcode_to_hexadecimal code = ''0x'' @ encode_base16 [code]"

definition opcode_from_hexadecimal :: "string \<Rightarrow> opcode option" where
  "opcode_from_hexadecimal s =
     (if length s \<noteq> 4 \<or> s ! 0 \<noteq> CHR ''0'' \<or> s ! 1 \<noteq> CHR ''x'' then None
      else map_option hd (decode_base16 (drop 2 s)))"

definition opcode_to_string :: "opcode \<Rightarrow> uint32 \<Rightarrow> string" where
  "opcode_to_string code active =
     (let n = unat code in
      if n = 0 then ''zero''
      else if n \<le> 75 then ''push_'' @ to_decimal n
      else if n = 76 then ''pushdata1''
      else if n = 77 then ''pushdata2''
      else if n = 78 then ''pushdata4''
      else if n = 79 then ''-1''
      else if n = 80 then ''reserved''
      else if n \<le> 96 then to_decimal (n - 80)
      else if n = 177 then (if is_enabled active bip65_rule then ''checklocktimeverify'' else ''nop2'')
      else if n = 178 then (if is_enabled active bip112_rule then ''checksequenceverify'' else ''nop3'')
      else if n \<le> 185 then opcode_names ! (n - 97)
      else opcode_to_hexadecimal code)"

definition opcode_from_string :: "text_library \<Rightarrow> string \<Rightarrow> opcode option" where
  "opcode_from_string lib s =
     (case map_of opcode_table (to_lower_copy lib s) of
        Some n \<Rightarrow> Some (of_nat n)
      | None \<Rightarrow> opcode_from_hexadecimal s)"

subsection \<open>Operations\<close>

definition is_push_token :: "string \<Rightarrow> bool" where
  "is_push_token token \<longleftrightarrow> length token > 1 \<and> hd token = CHR ''['' \<and> last token = CHR '']''"

definition quote :: char where "quote = CHR 0x27"

definition is_text_token :: "string \<Rightarrow> bool" where
  "is_text_token token \<longleftrightarrow> length token > 1 \<and> hd token = quote \<and> last token = quote"

definition is_valid_data_size :: "opcode \<Rightarrow> nat \<Rightarrow> bool" where
  "is_valid_data_size code n \<longleftrightarrow> code > push_size_75 \<or> unat code = n"

definition trim_token :: "string \<Rightarrow> string" where
  "trim_token token = butlast (tl token)"

definition split_push_token :: "text_library \<Rightarrow> string \<Rightarrow> string list" where
  "split_push_token lib token = split_text lib (trim_token token) ''.'' False"

definition opcode_from_data_prefix :: "string \<Rightarrow> data_chunk \<Rightarrow> opcode option" where
  "opcode_from_data_prefix first data =
     (let n = length data in
      if first = ''0'' then (if n \<le> 75 then Some (opcode_from_size n) else None)
      else if first = ''1'' then (if n \<le> max_uint8 then Some push_one_size else None)
      else if first = ''2'' then (if n \<le> max_uint16 then Some push_two_size else None)
      else if first = ''4'' then (if n \<le> max_uint32 then Some push_four_size else None)
      else None)"

definition data_from_number_token :: "text_library \<Rightarrow> string \<Rightarrow> data_chunk option" where
  "data_from_number_token lib token = map_option number_data (lexical_cast_int64 lib token)"

definition operation_with :: "opcode \<Rightarrow> data_chunk \<Rightarrow> operation" where
  "operation_with code data = \<lparr>op_code = code, op_data = data, op_valid = True\<rparr>"

text \<open>The branches of \<^verbatim>\<open>operation::from_string\<close>; the operation is reset when none of them succeeds.\<close>

definition operation_from_string :: "text_library \<Rightarrow> string \<Rightarrow> operation" where
  "operation_from_string lib mnemonic =
     (if is_push_token mnemonic then
        (case split_push_token lib mnemonic of
           [part] \<Rightarrow>
             (case decode_base16 part of
                Some data \<Rightarrow> operation_with (nominal_opcode_from_data data) data
              | None \<Rightarrow> operation_reset)
         | [first, part] \<Rightarrow>
             (case decode_base16 part of
                Some data \<Rightarrow>
                  (case opcode_from_data_prefix first data of
                     Some code \<Rightarrow> operation_with code data
                   | None \<Rightarrow> operation_reset)
              | None \<Rightarrow> operation_reset)
         | _ \<Rightarrow> operation_reset)
      else if is_text_token mnemonic then
        let data = map of_char (trim_token mnemonic) in operation_with (nominal_opcode_from_data data) data
      else case opcode_from_string lib mnemonic of
        Some code \<Rightarrow> if is_valid_data_size code 0 then operation_with code [] else operation_reset
      | None \<Rightarrow>
          (case data_from_number_token lib mnemonic of
             Some data \<Rightarrow> operation_with (nominal_opcode_from_data data) data
           | None \<Rightarrow> operation_reset))"

definition opcode_to_prefix :: "opcode \<Rightarrow> data_chunk \<Rightarrow> string" where
  "opcode_to_prefix code data =
     (if code = opcode_from_size (length data) then []
      else if code = push_one_size then ''1.''
      else if code = push_two_size then ''2.''
      else if code = push_four_size then ''4.''
      else ''0.'')"

definition operation_to_string :: "operation \<Rightarrow> uint32 \<Rightarrow> string" where
  "operation_to_string op active =
     (if \<not> op_valid op then ''<invalid>''
      else if op_data op = [] then opcode_to_string (op_code op) active
      else ''['' @ opcode_to_prefix (op_code op) (op_data op) @ encode_base16 (op_data op) @ '']'')"

subsection \<open>Scripts and witnesses\<close>

definition script_from_string :: "text_library \<Rightarrow> string \<Rightarrow> script" where
  "script_from_string lib mnemonic =
     (let tokens = split_text lib mnemonic '' '' True;
          ops = map (operation_from_string lib) (if tokens = [] \<or> hd tokens = [] then [] else tokens)
      in if list_all op_valid ops then script_from_operations ops else script_reset)"

definition script_to_string :: "currency \<Rightarrow> script \<Rightarrow> uint32 \<Rightarrow> string" where
  "script_to_string cur s active = join_text (map (\<lambda>op. operation_to_string op active) (script_operations cur s)) '' ''"

definition witness_to_string :: "text_library \<Rightarrow> witness \<Rightarrow> string" where
  "witness_to_string lib w =
     (if \<not> witness_valid w then ''<invalid>''
      else trim_copy lib (concat (map (\<lambda>element. ''['' @ encode_base16 element @ ''] '') (witness_stack w))))"

subsection \<open>The table of opcodes\<close>

lemmas string_eval = list.map fst_conv snd_conv distinct.simps list.set insert_iff empty_iff list.inject list.distinct char.inject
  simp_thms

lemma opcode_named_distinct: "distinct (map fst opcode_named)"
  by (simp only: opcode_named_def string_eval)

text \<open>The shape of a name: lower case letters, digits, the underscore and the minus sign.\<close>

definition is_name_char :: "char \<Rightarrow> bool" where
  "is_name_char c \<longleftrightarrow> 97 \<le> ord c \<and> ord c \<le> 122 \<or> is_digit c \<or> ord c = 95 \<or> ord c = 45"

lemma opcode_named_shape:
  "list_all (\<lambda>(s, n). s \<noteq> [] \<and> list_all is_name_char s) opcode_named"
  by (simp add: opcode_named_def is_name_char_def is_digit_def)

lemma opcode_named_prefix:
  "list_all (\<lambda>(s, n). take 2 s \<noteq> ''0x'' \<and> s \<noteq> ''zero'' \<and> \<not> (take 5 s = ''push_'' \<and> list_all is_digit (drop 5 s))) opcode_named"
  by (simp add: opcode_named_def is_digit_def)

text \<open>The names that are printed are entries of the table.\<close>

definition printed_names :: "string list" where
  "printed_names = [''pushdata1'', ''pushdata2'', ''pushdata4'', ''-1'', ''reserved''] @ map to_decimal [1..<17] @ opcode_names"

lemma opcode_names_length: "length opcode_names = 89"
  by (simp add: opcode_names_def)

lemma decimals_16:
  "map to_decimal [1..<17] = [''1'', ''2'', ''3'', ''4'', ''5'', ''6'', ''7'', ''8'', ''9'', ''10'', ''11'', ''12'', ''13'', ''14'', ''15'', ''16'']"
  by (simp add: upt_rec to_decimal.simps digit_char_def char_of_def bit_Suc_0_iff)

lemma printed_names_subseq: "subseq (zip printed_names [76..<186]) opcode_named"
  unfolding printed_names_def decimals_16 by (simp add: opcode_names_def opcode_named_def)

lemma printed_names_length: "length printed_names = 110"
  unfolding printed_names_def decimals_16 by (simp add: opcode_names_length)

lemma printed_name:
  assumes "76 \<le> n" and "n < 186"
  shows "(printed_names ! (n - 76), n) \<in> set opcode_named"
proof -
  let ?zip = "zip printed_names [76..<186]"
  have "[76..<186] ! (n - 76) = n" by (subst nth_upt) (use assms in auto)
  then have "(printed_names ! (n - 76), n) = ?zip ! (n - 76)"
    using assms nth_zip [of "n - 76" printed_names "[76..<186]"] by (simp add: printed_names_length del: upt_conv_Cons)
  also have "\<dots> \<in> set ?zip" using assms by (intro nth_mem) (simp add: printed_names_length)
  finally show ?thesis using list_emb_set [OF printed_names_subseq] by metis
qed

lemma map_of_generated: "inj_on f (set xs) \<Longrightarrow> n \<in> set xs \<Longrightarrow> map_of (map (\<lambda>n. (f n, n)) xs) (f n) = Some n"
  by (induction xs) (auto simp: inj_on_def)

lemma map_of_generated_None: "(\<And>n. f n \<noteq> s) \<Longrightarrow> map_of (map (\<lambda>n. (f n, n)) xs) s = None"
  by (induction xs) auto

lemma inj_decimal: "inj_on (\<lambda>n. p @ to_decimal n) A"
  by (rule inj_onI) (metis same_append_eq to_decimal_facts)

lemma table_pushed: "n < 76 \<Longrightarrow> map_of opcode_table (''push_'' @ to_decimal n) = Some n"
proof -
  assume "n < 76"
  then have "map_of opcode_pushes (''push_'' @ to_decimal n) = Some n"
    unfolding opcode_pushes_def by (intro map_of_generated [OF inj_decimal]) (simp only: set_upt atLeastLessThan_iff, simp)
  then show ?thesis by (simp add: opcode_table_def map_add_Some_iff)
qed

lemma table_named:
  assumes "(s, n) \<in> set opcode_named"
  shows "map_of opcode_table s = Some n"
proof -
  have "map_of opcode_named s = Some n" using assms opcode_named_distinct by simp
  moreover have shape: "s \<noteq> ''zero''" "\<not> (take 5 s = ''push_'' \<and> list_all is_digit (drop 5 s))"
    using assms opcode_named_prefix by (auto simp: list_all_iff)
  moreover have "map_of opcode_pushes s = None"
    unfolding opcode_pushes_def
  proof (rule map_of_generated_None)
    fix n
    show "''push_'' @ to_decimal n \<noteq> s" using shape(2) to_decimal_facts [of n] by auto
  qed
  ultimately show ?thesis by (simp add: opcode_table_def map_add_def)
qed

lemma table_hexadecimal: "map_of opcode_table (CHR ''0'' # CHR ''x'' # s) = None"
proof -
  let ?s = "CHR ''0'' # CHR ''x'' # s"
  have "(?s, n) \<notin> set opcode_named" for n using opcode_named_prefix by (auto simp: list_all_iff)
  then have "map_of opcode_named ?s = None" by (metis map_of_SomeD not_Some_eq)
  moreover have "map_of opcode_pushes ?s = None" "map_of opcode_reserved ?s = None"
    unfolding opcode_pushes_def opcode_reserved_def by (rule map_of_generated_None; simp)+
  ultimately show ?thesis by (simp add: opcode_table_def map_add_def)
qed

lemma fork_names: "(''checklocktimeverify'', 177) \<in> set opcode_named" "(''checksequenceverify'', 178) \<in> set opcode_named"
  by (simp_all add: opcode_named_def)

lemma nth_fork_names: "printed_names ! 101 = ''nop2''" "printed_names ! 102 = ''nop3''"
  unfolding printed_names_def decimals_16 by (simp_all add: opcode_names_def)

lemma nth_middle_part: "length A = a \<Longrightarrow> k < length B \<Longrightarrow> (A @ B @ C) ! (a + k) = B ! k"
  by (simp add: nth_append)

lemma nth_last_part: "length A = a \<Longrightarrow> length B = b \<Longrightarrow> (A @ B @ C) ! (a + b + k) = C ! k"
  by (simp add: nth_append)

lemma opcode_to_string_printed:
  assumes "76 \<le> unat code" and "unat code < 186" and "unat code \<noteq> 177" and "unat code \<noteq> 178"
  shows "opcode_to_string code active = printed_names ! (unat code - 76)"
proof -
  define n where "n = unat code"
  have n: "n = 76 \<or> n = 77 \<or> n = 78 \<or> n = 79 \<or> n = 80 \<or> 81 \<le> n \<and> n \<le> 96 \<or> 97 \<le> n"
    using assms(1) unfolding n_def by linarith
  have middle: "printed_names ! (n - 76) = to_decimal (n - 80)" if "81 \<le> n" "n \<le> 96"
  proof -
    have "printed_names ! (5 + (n - 81)) = map to_decimal [1..<17] ! (n - 81)"
      unfolding printed_names_def by (rule nth_middle_part) (use that in \<open>simp_all del: upt_conv_Cons\<close>)
    also have "\<dots> = to_decimal ([1..<17] ! (n - 81))" by (rule nth_map) (use that in simp)
    also have "[1..<17] ! (n - 81) = n - 80" by (subst nth_upt) (use that in auto)
    finally show ?thesis using that by (simp add: add.commute)
  qed
  have high: "printed_names ! (n - 76) = opcode_names ! (n - 97)" if "97 \<le> n"
  proof -
    have "printed_names ! (5 + 16 + (n - 97)) = opcode_names ! (n - 97)"
      unfolding printed_names_def by (rule nth_last_part) simp_all
    then show ?thesis using that by (simp add: add.commute)
  qed
  show ?thesis using n assms middle high unfolding opcode_to_string_def n_def [symmetric] Let_def
   by (elim disjE conjE) (simp_all add: printed_names_def)
qed

lemma printed_opcode:
  assumes "76 \<le> unat code" and "unat code < 186"
  shows "(opcode_to_string code active, unat code) \<in> set opcode_named"
  using printed_name [OF assms] fork_names opcode_to_string_printed [OF assms] nth_fork_names
  by (cases "unat code = 177 \<or> unat code = 178") (auto simp: opcode_to_string_def)

lemma table_printed:
  assumes "unat code < 186"
  shows "map_of opcode_table (opcode_to_string code active) = Some (unat code)"
proof -
  consider "unat code = 0" | "1 \<le> unat code" "unat code \<le> 75" | "76 \<le> unat code" by linarith
  then show ?thesis
  proof cases
    case 1
    then show ?thesis by (simp add: opcode_to_string_def opcode_table_def)
  next
    case 2
    then show ?thesis using table_pushed [of "unat code"] by (simp add: opcode_to_string_def)
  next
    case 3
    then show ?thesis using table_named [OF printed_opcode [OF 3 assms]] by blast
  qed
qed

subsection \<open>Reading back what is printed\<close>

lemma name_char_facts: "is_name_char c \<Longrightarrow> \<not> is_upper c \<and> \<not> is_space c \<and> c \<noteq> CHR ''['' \<and> c \<noteq> quote \<and> c \<noteq> CHR '' ''"
  by (auto simp: is_name_char_def is_upper_def is_space_def is_digit_def quote_def)

lemma digit_name: "list_all is_digit s \<Longrightarrow> list_all is_name_char s"
  by (auto simp: list_all_iff is_name_char_def)

lemma to_decimal_not_Nil: "to_decimal n \<noteq> []"
  by (simp add: to_decimal.simps [of n])

lemma hex_digit_name: "n < 16 \<Longrightarrow> is_name_char (hex_digit n)"
  by (drule less_16_cases, elim disjE) (simp_all add: hex_digit_def is_name_char_def is_digit_def)

lemma encode_base16_names: "list_all is_name_char (encode_base16 d)"
  using hex_digit_name hex_nibbles by (auto simp: encode_base16_def list_all_iff)

lemma opcode_to_string_shape: "opcode_to_string code active \<noteq> [] \<and> list_all is_name_char (opcode_to_string code active)"
proof (cases "76 \<le> unat code \<and> unat code < 186")
  case True
  have "(opcode_to_string code active, unat code) \<in> set opcode_named"
    using True printed_opcode by blast
  then show ?thesis using opcode_named_shape by (auto simp: list_all_iff)
next
  case False
  then consider "unat code = 0" | "1 \<le> unat code" "unat code \<le> 75" | "unat code \<ge> 186" by linarith
  then show ?thesis
  proof cases
    case 3
    then have "opcode_to_string code active = ''0x'' @ encode_base16 [code]"
      by (simp add: opcode_to_string_def opcode_to_hexadecimal_def Let_def)
    moreover have "list_all is_name_char ''0x''" by (simp add: is_name_char_def is_digit_def)
    ultimately show ?thesis using encode_base16_names [of "[code]"] by (simp only: list_all_append append_is_Nil_conv) simp
  qed (use digit_name to_decimal_facts in \<open>simp_all add: opcode_to_string_def is_name_char_def is_digit_def\<close>)
qed

lemma lower_names: "text_laws lib \<Longrightarrow> list_all is_name_char s \<Longrightarrow> to_lower_copy lib s = s"
  using name_char_facts by (simp add: text_laws_def list_all_iff)

lemma opcode_read_back:
  assumes "text_laws lib"
  shows "opcode_from_string lib (opcode_to_string code active) = Some code"
proof (cases "unat code < 186")
  case True
  then show ?thesis
    using table_printed [OF True] lower_names [OF assms] opcode_to_string_shape [of code active] by (simp add: opcode_from_string_def)
next
  case False
  then have shown: "opcode_to_string code active = CHR ''0'' # CHR ''x'' # encode_base16 [code]"
    by (simp add: opcode_to_string_def opcode_to_hexadecimal_def Let_def)
  have "map_of opcode_table (to_lower_copy lib (opcode_to_string code active)) = None"
    using lower_names [OF assms] opcode_to_string_shape [of code active] unfolding shown by (simp add: table_hexadecimal del: encode_base16_simps)
  moreover have "opcode_from_hexadecimal (opcode_to_string code active) = Some code"
    unfolding shown opcode_from_hexadecimal_def using base16_decode_encode [of "[code]"] by (simp del: encode_base16_simps)
  ultimately show ?thesis by (simp add: opcode_from_string_def)
qed

lemma is_name_text:
  assumes "s \<noteq> []" and "list_all is_name_char s"
  shows "\<not> is_push_token s \<and> \<not> is_text_token s"
  using assms name_char_facts by (cases s) (auto simp: is_push_token_def is_text_token_def)

lemma split_single: "text_laws lib \<Longrightarrow> s \<noteq> [] \<Longrightarrow> d \<notin> set s \<Longrightarrow> split_any_of lib [d] s = [s]"
  unfolding text_laws_def by (elim conjE allE [of _ d] allE [of _ "[s]"]) simp

lemma split_pair:
  "text_laws lib \<Longrightarrow> s \<noteq> [] \<Longrightarrow> t \<noteq> [] \<Longrightarrow> d \<notin> set s \<Longrightarrow> d \<notin> set t \<Longrightarrow> split_any_of lib [d] (s @ d # t) = [s, t]"
  unfolding text_laws_def by (elim conjE allE [of _ d] allE [of _ "[s, t]"]) simp

text \<open>A push token: the opcode of the data when there is no prefix, and the one the prefix asks for.\<close>

lemma push_token_read:
  assumes "text_laws lib" and "d \<noteq> []"
  shows "operation_from_string lib (''['' @ encode_base16 d @ '']'') = operation_with (nominal_opcode_from_data d) d"
    and "p \<noteq> CHR ''.'' \<Longrightarrow> opcode_from_data_prefix [p] d = Some code \<Longrightarrow>
      operation_from_string lib (''['' @ [p, CHR ''.''] @ encode_base16 d @ '']'') = operation_with code d"
proof -
  have "is_base16 c \<Longrightarrow> c \<noteq> CHR ''.''" for c by (auto simp: is_base16_def)
  then have hex: "CHR ''.'' \<notin> set (encode_base16 d)" using encode_base16_valid [of d] by (auto simp: list_all_iff)
  have nonempty: "encode_base16 d \<noteq> []" using assms(2) length_encode_base16 [of d] by (metis length_0_conv mult_is_0 zero_neq_numeral)
  show "operation_from_string lib (''['' @ encode_base16 d @ '']'') = operation_with (nominal_opcode_from_data d) d"
    using split_single [OF assms(1) nonempty hex] base16_decode_encode(1) [of d]
    by (simp add: operation_from_string_def is_push_token_def split_push_token_def trim_token_def split_text_def butlast_append)
  show "operation_from_string lib (''['' @ [p, CHR ''.''] @ encode_base16 d @ '']'') = operation_with code d"
    if "p \<noteq> CHR ''.''" "opcode_from_data_prefix [p] d = Some code"
    using that split_pair [OF assms(1) _ nonempty _ hex, of "[p]"] base16_decode_encode(1) [of d]
    by (simp add: operation_from_string_def is_push_token_def split_push_token_def trim_token_def split_text_def butlast_append)
qed

lemma prefix_read:
  assumes "data_fits code (length d)" and "d \<noteq> []" and "code \<noteq> opcode_from_size (length d)"
  shows "\<exists>p. p \<noteq> CHR ''.'' \<and> opcode_to_prefix code d = [p, CHR ''.''] \<and> opcode_from_data_prefix [p] d = Some code"
proof -
  have "code = push_one_size \<or> code = push_two_size \<or> code = push_four_size"
    using assms by (auto simp: data_fits_def opcode_from_size_def word_le_nat_alt split: if_splits)
  then show ?thesis
  proof (elim disjE)
    assume "code = push_one_size"
    then show ?thesis using assms by (intro exI [of _ "CHR ''1''"]) (simp add: opcode_to_prefix_def opcode_from_data_prefix_def data_fits_def)
  next
    assume "code = push_two_size"
    then show ?thesis using assms by (intro exI [of _ "CHR ''2''"]) (simp add: opcode_to_prefix_def opcode_from_data_prefix_def data_fits_def)
  next
    assume "code = push_four_size"
    then show ?thesis using assms by (intro exI [of _ "CHR ''4''"]) (simp add: opcode_to_prefix_def opcode_from_data_prefix_def data_fits_def)
  qed
qed

lemma operation_data_read_back:
  assumes "text_laws lib" and "data_fits code (length d)" and "d \<noteq> []"
  shows "operation_from_string lib (operation_to_string (operation_with code d) active) = operation_with code d"
proof (cases "code = opcode_from_size (length d)")
  case True
  show ?thesis using push_token_read(1) [OF assms(1,3)] assms(3) unfolding True
    by (simp add: operation_to_string_def opcode_to_prefix_def nominal_opcode_from_data_def operation_with_def)
next
  case False
  then obtain p where p: "p \<noteq> CHR ''.''" "opcode_to_prefix code d = [p, CHR ''.'']" "opcode_from_data_prefix [p] d = Some code"
    using prefix_read [OF assms(2,3)] by blast
  then show ?thesis using push_token_read(2) [OF assms(1,3) p(1,3)] assms(3)
    by (simp add: operation_to_string_def operation_with_def)
qed

lemma operation_code_read_back:
  assumes "text_laws lib" and "is_valid_data_size code 0"
  shows "operation_from_string lib (operation_to_string (operation_with code []) active) = operation_with code []"
proof -
  let ?s = "opcode_to_string code active"
  have "operation_to_string (operation_with code []) active = ?s" by (simp add: operation_to_string_def operation_with_def)
  moreover have "\<not> is_push_token ?s" "\<not> is_text_token ?s"
    using is_name_text [of ?s] opcode_to_string_shape [of code active] by blast+
  ultimately show ?thesis using opcode_read_back [OF assms(1), of code active] assms(2) by (simp add: operation_from_string_def)
qed

lemma operation_read_back:
  assumes "text_laws lib" and "operation_wf cur op"
  shows "operation_from_string lib (operation_to_string op active) = op"
proof -
  have fits: "data_fits (op_code op) (length (op_data op))" using assms(2) by (simp add: operation_wf_def)
  have op: "op = operation_with (op_code op) (op_data op)"
    using assms(2) by (cases op) (simp add: operation_wf_def operation_with_def)
  show ?thesis
  proof (cases "op_data op = []")
    case True
    have "is_valid_data_size (op_code op) 0"
      using fits True by (auto simp: data_fits_def is_valid_data_size_def split: if_splits)
    then show ?thesis using operation_code_read_back [OF assms(1)] op True by metis
  next
    case False
    then show ?thesis using operation_data_read_back [OF assms(1) fits] op by metis
  qed
qed

definition is_word :: "string \<Rightarrow> bool" where
  "is_word w \<longleftrightarrow> w \<noteq> [] \<and> list_all (\<lambda>c. \<not> is_space c) w"

lemma names_word: "s \<noteq> [] \<Longrightarrow> list_all is_name_char s \<Longrightarrow> is_word s"
  using name_char_facts by (auto simp: is_word_def list_all_iff)

lemma operation_to_string_word: "op_valid op \<Longrightarrow> is_word (operation_to_string op active)"
proof -
  assume valid: "op_valid op"
  have hex: "list_all (\<lambda>c. \<not> is_space c) (encode_base16 (op_data op))"
    using encode_base16_names [of "op_data op"] name_char_facts by (auto simp: list_all_iff)
  have "list_all (\<lambda>c. \<not> is_space c) (opcode_to_prefix (op_code op) (op_data op))"
    by (simp add: opcode_to_prefix_def is_space_def)
  moreover have "list_all (\<lambda>c. \<not> is_space c) ''[''" "list_all (\<lambda>c. \<not> is_space c) '']''" by (simp_all add: is_space_def)
  ultimately have "is_word (''['' @ opcode_to_prefix (op_code op) (op_data op) @ encode_base16 (op_data op) @ '']'')"
    using hex by (simp add: is_word_def)
  then show ?thesis
    using valid names_word opcode_to_string_shape [of "op_code op" active] by (simp add: operation_to_string_def)
qed

lemma join_words_ends:
  "ws \<noteq> [] \<Longrightarrow> list_all is_word ws \<Longrightarrow>
   join_text ws d \<noteq> [] \<and> \<not> is_space (hd (join_text ws d)) \<and> \<not> is_space (last (join_text ws d))"
  by (induction ws d rule: join_text.induct) (auto simp: is_word_def list_all_iff)

lemma split_words:
  assumes "text_laws lib" and "list_all is_word ws"
  shows "split_text lib (join_text ws '' '') '' '' True = (if ws = [] then [[]] else ws)"
proof (cases "ws = []")
  case False
  have "trim_copy lib (join_text ws '' '') = join_text ws '' ''"
    using assms(1) join_words_ends [OF False assms(2), of "'' ''"] unfolding text_laws_def by blast
  moreover have "list_all (\<lambda>w. w \<noteq> [] \<and> CHR '' '' \<notin> set w) ws"
  proof -
    have "is_space CHR '' ''" by (simp add: is_space_def)
    then show ?thesis using assms(2) by (auto simp: list_all_iff is_word_def)
  qed
  ultimately show ?thesis using False assms(1) unfolding text_laws_def by (simp add: split_text_def)
qed (use assms(1) in \<open>simp add: split_text_def text_laws_def\<close>)

text \<open>
  C25. The text form of a script reads back to the script: a script whose bytes parse to
  valid operations is printed by to_string, under any forks, to a text from which
  from_string recovers the same bytes and operations, although names have aliases and pushes
  are printed with their data and size prefix.
\<close>

theorem script_text_round_trip:
  assumes "text_laws lib" and "script_cache s = None" and "is_valid_operations cur s"
  shows "script_from_string lib (script_to_string cur s active) =
    \<lparr>script_bytes = script_bytes s, script_cache = Some (script_operations cur s), script_valid = True\<rparr>"
proof -
  let ?ops = "script_operations cur s"
  let ?ws = "map (\<lambda>op. operation_to_string op active) ?ops"
  have parsed: "operations_to_data ?ops = script_bytes s" "list_all (operation_wf cur) ?ops"
    using parse_lossless_aux [OF assms(2,3)] by simp_all
  then have valid: "op_valid op" if "op \<in> set ?ops" for op using that by (auto simp: list_all_iff operation_wf_def)
  have words: "list_all is_word ?ws" using operation_to_string_word valid by (auto simp: list_all_iff)
  let ?tokens = "split_text lib (join_text ?ws '' '') '' '' True"
  have "hd ?ws \<noteq> []" if "?ws \<noteq> []" using that words by (cases ?ws) (auto simp: is_word_def)
  then have "(if ?tokens = [] \<or> hd ?tokens = [] then [] else ?tokens) = ?ws"
    unfolding split_words [OF assms(1) words] by auto
  moreover have "map (operation_from_string lib) ?ws = ?ops"
    unfolding map_map comp_def
    by (rule map_idI) (use operation_read_back [OF assms(1)] parsed(2) in \<open>auto simp: list_all_iff\<close>)
  moreover have "list_all op_valid ?ops" using valid by (simp add: list_all_iff)
  ultimately show ?thesis
    using parsed(1) by (simp only: script_from_string_def script_to_string_def script_from_operations_def Let_def if_True)
qed

subsection \<open>A library with these laws\<close>

fun split_at :: "string \<Rightarrow> string \<Rightarrow> string \<Rightarrow> string list" where
  "split_at ds [] w = [w]"
| "split_at ds (c # cs) w =
     (if c \<in> set ds then (if cs \<noteq> [] \<and> hd cs \<in> set ds then split_at ds cs w else w # split_at ds cs []) else split_at ds cs (w @ [c]))"

definition ascii_library :: text_library where
  "ascii_library =
     \<lparr>to_lower_copy = map (\<lambda>c. if is_upper c then char_of (ord c + 32) else c),
      trim_copy = (\<lambda>s. trim_right_if is_space (dropWhile is_space s)),
      split_any_of = (\<lambda>ds s. split_at ds s []),
      lexical_cast_int64 = (\<lambda>s. None)\<rparr>"

lemma split_at_word: "d \<notin> set v \<Longrightarrow> split_at [d] (v @ s) w = split_at [d] s (w @ v)"
  by (induction v arbitrary: w) auto

lemma split_at_join:
  "ws \<noteq> [] \<Longrightarrow> list_all (\<lambda>w. w \<noteq> [] \<and> d \<notin> set w) ws \<Longrightarrow> split_at [d] (join_text ws [d]) [] = ws"
proof (induction ws "[d]" rule: join_text.induct)
  case (2 w)
  then show ?case using split_at_word [of d w "[]" "[]"] by simp
next
  case (3 w v vs)
  have "join_text (v # vs) [d] \<noteq> []" "hd (join_text (v # vs) [d]) \<noteq> d"
    using 3 by (cases vs; cases v; auto)+
  then show ?case using 3 split_at_word [of d w "d # join_text (v # vs) [d]" "[]"] by simp
qed simp

lemma ascii_library_laws: "text_laws ascii_library"
  unfolding text_laws_def
proof (intro conjI allI impI)
  fix s assume "list_all (\<lambda>c. \<not> is_upper c) s"
  then show "to_lower_copy ascii_library s = s" by (simp add: ascii_library_def list_all_iff map_idI)
next
  fix s assume "s = [] \<or> \<not> is_space (hd s) \<and> \<not> is_space (last s)"
  then show "trim_copy ascii_library s = s"
    by (cases s) (auto simp: ascii_library_def trim_right_if_keeps, auto simp: trim_right_if_def)
qed (simp_all add: ascii_library_def split_at_join)

theorem script_text_round_trip_witness:
  "text_laws ascii_library \<and>
   script_from_string ascii_library
     (script_to_string bitcoin \<lparr>script_bytes = operations_to_data example_operations, script_cache = None, script_valid = True\<rparr> 0) =
   \<lparr>script_bytes = operations_to_data example_operations, script_cache = Some example_operations, script_valid = True\<rparr>"
  using script_text_round_trip [OF ascii_library_laws, of
      "\<lparr>script_bytes = operations_to_data example_operations, script_cache = None, script_valid = True\<rparr>" bitcoin 0]
    parse_operations_printed [OF example_operations_wf, of "[]"] ascii_library_laws
  by (simp add: is_valid_operations_def script_operations_def)

end
