(* ===== verification/Config_Text.thy ===== *)
theory Config_Text
  imports Stealth Mnemonic Transaction
begin

text \<open>
  Points, inputs, outputs and scripts as command line text: \<^verbatim>\<open>src/config/hash256.cpp\<close>, \<^verbatim>\<open>point.cpp\<close>, \<^verbatim>\<open>input.cpp\<close>,
  \<^verbatim>\<open>output.cpp\<close>, \<^verbatim>\<open>script.cpp\<close>.  A stream operator that throws is \<open>None\<close>.  The conversions of \<^verbatim>\<open>boost::lexical_cast\<close> join the string
  library as further fields.
\<close>

record convert_library = text_library +
  lexical_cast_uint64 :: "string \<Rightarrow> uint64 option"
  lexical_cast_uint32 :: "string \<Rightarrow> uint32 option"

definition convert_laws :: "convert_library \<Rightarrow> bool" where
  "convert_laws lib \<longleftrightarrow> text_laws (text_library.truncate lib) \<and>
     (\<forall>n. lexical_cast_uint64 lib (to_decimal (unat n)) = Some n) \<and>
     (\<forall>n. lexical_cast_uint32 lib (to_decimal (unat n)) = Some n)"

text \<open>The extraction of a string from a stream: the first run of characters that are not white space.\<close>

definition read_token :: "string \<Rightarrow> string" where
  "read_token s = takeWhile (\<lambda>c. \<not> is_space c) (dropWhile is_space s)"

abbreviation tokens_of :: "convert_library \<Rightarrow> string \<Rightarrow> string list" where
  "tokens_of lib tuple \<equiv> split_text (text_library.truncate lib) tuple '':'' True"

subsection \<open>Hashes, points and inputs\<close>

definition config_hash256 :: "string \<Rightarrow> hash_digest option" where
  "config_hash256 hexcode = decode_hash (read_token hexcode)"

text \<open>The point is default constructed, hence not marked valid, and then assigned.\<close>

definition decode_point :: "convert_library \<Rightarrow> string \<Rightarrow> point option" where
  "decode_point lib tuple =
     (let tokens = tokens_of lib tuple in
      if length tokens \<noteq> 2 then None
      else do {
        txhash \<leftarrow> config_hash256 (tokens ! 0);
        index \<leftarrow> lexical_cast_uint32 lib (trim_copy lib (tokens ! 1));
        Some \<lparr>point_hash = txhash, point_index = index, point_valid = False\<rparr>
      })"

definition encode_point :: "point \<Rightarrow> string" where
  "encode_point p = encode_hash (point_hash p) @ '':'' @ to_decimal (unat (point_index p))"

definition config_point :: "convert_library \<Rightarrow> string \<Rightarrow> point option" where
  "config_point lib tuple = decode_point lib (read_token tuple)"

definition decode_input :: "convert_library \<Rightarrow> string \<Rightarrow> tx_input option" where
  "decode_input lib tuple =
     (let tokens = tokens_of lib tuple in
      if length tokens \<noteq> 2 \<and> length tokens \<noteq> 3 then None
      else do {
        p \<leftarrow> config_point lib (tokens ! 0 @ '':'' @ tokens ! 1);
        let input = input_reset\<lparr>sequence := max_input_sequence, previous_output := output_point_of p\<rparr>;
        if length tokens = 3
        then map_option (\<lambda>n. input\<lparr>sequence := n\<rparr>) (lexical_cast_uint32 lib (trim_copy lib (tokens ! 2)))
        else Some input
      })"

definition encode_input :: "tx_input \<Rightarrow> string" where
  "encode_input i = encode_point (op_point (previous_output i)) @ '':'' @ to_decimal (unat (sequence i))"

definition config_input :: "convert_library \<Rightarrow> string \<Rightarrow> tx_input option" where
  "config_input lib tuple = decode_input lib (read_token tuple)"

definition config_input_of_point :: "point \<Rightarrow> tx_input" where
  "config_input_of_point p = input_of (output_point_of p) script_reset witness_reset max_input_sequence"

subsection \<open>Outputs and scripts\<close>

record config_output =
  co_is_stealth :: bool
  co_amount :: uint64
  co_version :: byte
  co_script :: script
  co_pay_to_hash :: data_chunk

definition config_output_default :: config_output where
  "config_output_default = \<lparr>co_is_stealth = False, co_amount = 0, co_version = 0, co_script = script_reset, co_pay_to_hash = replicate 20 0\<rparr>"

text \<open>The functions of other components that the parser calls, as one record: currency, digests, curve, prefix.\<close>

record 'k environment =
  ctx_currency :: currency
  ctx_hashes :: hash_functions
  ctx_secp :: "'k secp256k1"
  ctx_sha512 :: "data_chunk \<Rightarrow> data_chunk"
  ctx_hmac256 :: "data_chunk \<Rightarrow> data_chunk \<Rightarrow> data_chunk"
  ctx_cashaddr_prefix :: string

abbreviation (input) minimum_seed_size :: nat where "minimum_seed_size \<equiv> 16"

text \<open>A target that is a stealth address, with the seed of the ephemeral key in the third token.\<close>

definition stealth_target ::
  "'k environment \<Rightarrow> string list \<Rightarrow> stealth_address \<Rightarrow> config_output \<Rightarrow> config_output option" where
  "stealth_target X tokens stealth argument =
     (if length (sa_spend_keys stealth) \<noteq> 1 \<or> length tokens \<noteq> 3 then None
      else do {
        seed \<leftarrow> decode_base16 (tokens ! 2);
        if length seed < minimum_seed_size then None else do {
          (s, ephemeral_secret) \<leftarrow> create_stealth_data (ctx_currency X) (ctx_secp X) (ctx_hashes X) (ctx_sha512 X) (ctx_hmac256 X)
             (sa_filter stealth) seed;
          stealth_key \<leftarrow> uncover_stealth (ctx_secp X) (ctx_hashes X) (sa_scan_key stealth) ephemeral_secret (hd (sa_spend_keys stealth));
          Some (argument\<lparr>co_script := s, co_is_stealth := True,
            co_pay_to_hash := bitcoin_short_hash (ctx_hashes X) stealth_key, co_version := sa_version stealth\<rparr>)
        }
      })"

definition config_output_of :: "convert_library \<Rightarrow> 'k environment \<Rightarrow> string \<Rightarrow> config_output option" where
  "config_output_of lib X text =
     (let tokens = tokens_of lib (read_token text) in
      if length tokens < 2 \<or> length tokens > 3 then None
      else do {
        amount \<leftarrow> lexical_cast_uint64 lib (trim_copy lib (tokens ! 1));
        if amount > max_money (ctx_currency X) True then None
        else do {
          let argument = config_output_default\<lparr>co_amount := amount\<rparr>;
          let target = hd tokens;
          payment \<leftarrow> address_from_string (ctx_currency X) (ctx_hashes X) (ctx_cashaddr_prefix X) target;
          if addr_valid payment
          then Some (argument\<lparr>co_version := addr_version payment, co_pay_to_hash := addr_hash payment\<rparr>)
          else
            let stealth = stealth_from_string (ctx_hashes X) target
            in if sa_valid stealth then stealth_target X tokens stealth argument
               else map_option (\<lambda>decoded. argument\<lparr>co_script := script_of_data (ctx_currency X) decoded False\<rparr>) (decode_base16 target)
        }
      })"

definition config_script :: "convert_library \<Rightarrow> string \<Rightarrow> script option" where
  "config_script lib s =
     (let mnemonic = trim_copy lib s; value = script_from_string (text_library.truncate lib) mnemonic
      in if \<not> script_valid value \<and> length mnemonic > 0 then None else Some value)"

subsection \<open>Fields joined by colons\<close>

definition is_field :: "string \<Rightarrow> bool" where
  "is_field w \<longleftrightarrow> w \<noteq> [] \<and> list_all (\<lambda>c. \<not> is_space c \<and> c \<noteq> CHR '':'') w"

lemma join_text_chars: "set (join_text ws d) \<subseteq> (\<Union>w\<in>set ws. set w) \<union> set d"
  by (induction ws d rule: join_text.induct) auto

lemma read_fields:
  assumes "convert_laws lib" and "ws \<noteq> []" and "list_all is_field ws"
  shows "tokens_of lib (read_token (join_text ws '':'')) = ws"
proof -
  let ?s = "join_text ws '':''"
  have "\<not> is_space (CHR '':'')" by (simp add: is_space_def)
  then have plain: "\<forall>c\<in>set ?s. \<not> is_space c"
    using join_text_chars [of ws "'':''"] assms(3) by (fastforce simp: is_field_def list_all_iff)
  then have token: "read_token ?s = ?s"
    unfolding read_token_def by (metis (no_types, lifting) dropWhile_eq_self_iff hd_in_set takeWhile_eq_all_conv)
  have laws: "text_laws (text_library.truncate lib)" using assms(1) by (simp add: convert_laws_def)
  have "trim_copy (text_library.truncate lib) ?s = ?s"
    using laws plain unfolding text_laws_def by (metis hd_in_set last_in_set)
  moreover have "list_all (\<lambda>w. w \<noteq> [] \<and> CHR '':'' \<notin> set w) ws" using assms(3) by (auto simp: is_field_def list_all_iff)
  ultimately show ?thesis using laws assms(2) by (simp add: token split_text_def text_laws_def)
qed

lemma field_facts: "is_field (to_decimal n)" "is_field (encode_base16 d) \<longleftrightarrow> d \<noteq> []"
proof -
  have digits: "is_field s" if "list_all is_digit s" "s \<noteq> []" for s
    using that by (auto simp: is_field_def list_all_iff is_digit_def is_space_def)
  show "is_field (to_decimal n)" using digits to_decimal_facts to_decimal_not_Nil by blast
  have "list_all (\<lambda>c. \<not> is_space c \<and> c \<noteq> CHR '':'') (encode_base16 d)"
    using encode_base16_names [of d] by (auto simp: list_all_iff is_name_char_def is_space_def is_digit_def)
  then show "is_field (encode_base16 d) \<longleftrightarrow> d \<noteq> []" by (cases d) (auto simp: is_field_def)
qed

lemma base58_field: "data \<noteq> [] \<Longrightarrow> is_field (encode_base58 data)"
proof -
  assume "data \<noteq> []"
  moreover have "decode_base58 [] = Some []" by code_simp
  ultimately have "encode_base58 data \<noteq> []" using decode_encode_base58 [of data] by auto
  moreover have "\<forall>c\<in>set base58_chars. \<not> is_space c \<and> c \<noteq> CHR '':''"
    by (simp add: base58_chars_def is_space_def)
  ultimately show ?thesis
    using encode_base58_valid [of data] by (auto simp: is_field_def is_base58_def is_base58_char_def list_all_iff)
qed

lemma trim_field: "convert_laws lib \<Longrightarrow> is_field w \<Longrightarrow> trim_copy lib w = w"
proof -
  assume "convert_laws lib" "is_field w"
  then have "trim_copy (text_library.truncate lib) w = w"
    unfolding convert_laws_def text_laws_def is_field_def list_all_iff by (metis hd_in_set last_in_set)
  then show ?thesis by (simp add: text_library.truncate_def)
qed

subsection \<open>Round trips\<close>

lemma token_field: "is_field w \<Longrightarrow> read_token w = w"
proof -
  assume "is_field w"
  then have "\<forall>c\<in>set w. \<not> is_space c" by (auto simp: is_field_def list_all_iff)
  then show ?thesis unfolding read_token_def by (metis (no_types, lifting) dropWhile_eq_self_iff hd_in_set takeWhile_eq_all_conv)
qed

lemma point_fields:
  "encode_point p = join_text [encode_hash (point_hash p), to_decimal (unat (point_index p))] '':''"
  by (simp add: encode_point_def)

lemma hash_field: "length h = 32 \<Longrightarrow> is_field (encode_hash h)"
  using field_facts(2) [of "rev h"] by (auto simp: encode_hash_def)

lemma point_text:
  assumes "convert_laws lib" and "length (point_hash p) = 32"
  shows "config_point lib (encode_point p) = Some (p\<lparr>point_valid := False\<rparr>)"
proof -
  let ?ws = "[encode_hash (point_hash p), to_decimal (unat (point_index p))]"
  have ws: "list_all is_field ?ws" using hash_field [OF assms(2)] field_facts(1) by simp
  have "tokens_of lib (read_token (encode_point p)) = ?ws" unfolding point_fields by (rule read_fields [OF assms(1) _ ws]) simp
  moreover have "config_hash256 (encode_hash (point_hash p)) = Some (point_hash p)"
    using hash_field [OF assms(2)] hash_decode_encode [OF assms(2)] by (simp add: config_hash256_def token_field)
  moreover have "lexical_cast_uint32 lib (to_decimal (unat (point_index p))) = Some (point_index p)"
    using assms(1) by (simp add: convert_laws_def)
  ultimately show ?thesis
    using trim_field [OF assms(1) field_facts(1)] by (simp add: config_point_def decode_point_def)
qed

text \<open>
  An input survives its text form as far as the text goes: the point and the sequence are read back, scripts and
  witnesses are empty.
\<close>

theorem input_text_round_trip:
  assumes "convert_laws lib" and "length (point_hash (op_point (previous_output i))) = 32"
  shows "config_input lib (encode_input i) =
    Some (input_reset\<lparr>previous_output := output_point_of ((op_point (previous_output i))\<lparr>point_valid := False\<rparr>), sequence := sequence i\<rparr>)"
proof -
  let ?p = "op_point (previous_output i)"
  let ?h = "encode_hash (point_hash ?p)" and ?n = "to_decimal (unat (point_index ?p))" and ?q = "to_decimal (unat (sequence i))"
  have ws: "list_all is_field [?h, ?n, ?q]" using hash_field [OF assms(2)] field_facts(1) by simp
  have "encode_input i = join_text [?h, ?n, ?q] '':''" by (simp add: encode_input_def encode_point_def)
  then have "tokens_of lib (read_token (encode_input i)) = [?h, ?n, ?q]" using read_fields [OF assms(1) _ ws] by simp
  moreover have "config_point lib (?h @ '':'' @ ?n) = Some (?p\<lparr>point_valid := False\<rparr>)"
    using point_text [OF assms] by (simp add: encode_point_def)
  moreover have "lexical_cast_uint32 lib ?q = Some (sequence i)" using assms(1) by (simp add: convert_laws_def)
  ultimately show ?thesis
    using trim_field [OF assms(1) field_facts(1)] by (simp add: config_input_def decode_input_def)
qed

text \<open>The text of an address and an amount is read as a payment to the hash of the address.\<close>

lemma output_of_address:
  assumes "convert_laws lib" and "addr_valid a" and "length (addr_hash a) = 20" and "v \<le> max_money (ctx_currency X) True"
  shows "config_output_of lib X (address_encoded (ctx_hashes X) a @ '':'' @ to_decimal (unat v)) =
    Some (config_output_default\<lparr>co_amount := v, co_version := addr_version a, co_pay_to_hash := addr_hash a\<rparr>)"
proof -
  let ?a = "address_encoded (ctx_hashes X) a"
  have "checked_array (ctx_hashes X) 25 [[addr_version a], addr_hash a] \<noteq> []"
    using assms(3) checked_array_exact [of "[[addr_version a], addr_hash a]" 25 "ctx_hashes X"] by (simp add: append_checksum_def)
  then have ws: "list_all is_field [?a, to_decimal (unat v)]"
    using field_facts(1) base58_field by (simp add: address_encoded_def)
  have "tokens_of lib (read_token (join_text [?a, to_decimal (unat v)] '':'')) = [?a, to_decimal (unat v)]"
    by (rule read_fields [OF assms(1) _ ws]) simp
  moreover have "lexical_cast_uint64 lib (to_decimal (unat v)) = Some v" using assms(1) by (simp add: convert_laws_def)
  moreover have "address_from_string (ctx_currency X) (ctx_hashes X) (ctx_cashaddr_prefix X) ?a = Some a"
    using address_round_trip [OF assms(2,3)] by simp
  ultimately show ?thesis
    using assms(2,4) trim_field [OF assms(1) field_facts(1)] by (simp add: config_output_of_def Let_def not_less)
qed

subsection \<open>A converter with these laws\<close>

definition ascii_converter :: convert_library where
  "ascii_converter = text_library.extend ascii_library
     (convert_library.fields (\<lambda>s. Some (of_nat (of_decimal s))) (\<lambda>s. Some (of_nat (of_decimal s))))"

lemma ascii_converter_laws: "convert_laws ascii_converter"
proof -
  have "text_library.truncate ascii_converter = ascii_library"
    by (simp add: ascii_converter_def text_library.defs convert_library.defs)
  then have "text_laws (text_library.truncate ascii_converter)" using ascii_library_laws by simp
  moreover have "lexical_cast_uint64 ascii_converter = (\<lambda>s. Some (of_nat (of_decimal s)))"
    "lexical_cast_uint32 ascii_converter = (\<lambda>s. Some (of_nat (of_decimal s)))"
    by (simp_all add: ascii_converter_def text_library.defs convert_library.defs)
  ultimately show ?thesis using to_decimal_facts by (simp only: convert_laws_def) simp
qed

theorem input_text_round_trip_witness:
  "config_input ascii_converter
     (encode_input (input_of (output_point_of \<lparr>point_hash = replicate 32 7, point_index = 3, point_valid = False\<rparr>) script_reset witness_reset 9)) =
   Some (input_of (output_point_of \<lparr>point_hash = replicate 32 7, point_index = 3, point_valid = False\<rparr>) script_reset witness_reset 9)"
  using input_text_round_trip [OF ascii_converter_laws,
      of "input_of (output_point_of \<lparr>point_hash = replicate 32 7, point_index = 3, point_valid = False\<rparr>) script_reset witness_reset 9"]
  by (simp add: input_of_def output_point_of_def input_reset_def)

end
