(* ===== verification/Wallet_Transaction.thy ===== *)
theory Wallet_Transaction
  imports Config_Text Verify
begin

unbundle bit_operations_syntax

text \<open>
  Building and signing transactions: \<^verbatim>\<open>src/wallet/transaction_functions.cpp\<close>.  The result is an error code with a transaction
  or a signature; \<open>None\<close> is an exception of the text conversions the code goes through.
\<close>

text \<open>The outputs with those for a parsed target appended; \<open>None\<close> is the answer false.\<close>

definition push_scripts :: "tx_output list \<Rightarrow> config_output \<Rightarrow> byte \<Rightarrow> tx_output list option" where
  "push_scripts outputs output script_version =
     (if \<not> co_is_stealth output \<and> script_valid (co_script output)
      then Some (outputs @ [output_of (co_amount output) (co_script output)])
      else if co_pay_to_hash output = replicate 20 0 then None
      else
        let hash = co_pay_to_hash output;
            payment_ops = (if co_version output \<noteq> script_version then to_pay_key_hash_pattern hash else to_pay_script_hash_pattern hash);
            outputs = (if co_is_stealth output then outputs @ [output_of 0 (co_script output)] else outputs)
        in Some (outputs @ [output_of (co_amount output) (script_from_operations payment_ops)]))"

type_synonym raw_output = "payment_address \<times> uint64"

fun push_destinies ::
  "convert_library \<Rightarrow> 'k environment \<Rightarrow> byte \<Rightarrow> raw_output list \<Rightarrow> tx_output list \<Rightarrow> (code + tx_output list) option" where
  "push_destinies lib X script_version [] outputs = Some (Inr outputs)"
| "push_destinies lib X script_version ((address, amount) # destinies) outputs =
     (case config_output_of lib X (address_encoded (ctx_hashes X) address @ '':'' @ to_decimal (unat amount)) of
        None \<Rightarrow> None
      | Some output \<Rightarrow>
          (case push_scripts outputs output script_version of
             None \<Rightarrow> Some (Inl error_invalid_output)
           | Some outputs \<Rightarrow> push_destinies lib X script_version destinies outputs))"

definition tx_encode ::
  "convert_library \<Rightarrow> 'k environment \<Rightarrow> point list \<Rightarrow> raw_output list \<Rightarrow> tx_output list \<Rightarrow> uint32 \<Rightarrow> uint32 \<Rightarrow> byte \<Rightarrow>
     (code \<times> transaction) option" where
  "tx_encode lib X outputs_to_spend destiny_and_amount extra_outputs locktime v script_version =
     (let tx = tx_set_locktime (tx_set_version transaction_default v) locktime;
          tx = tx\<lparr>tx_inputs := tx_inputs tx @ map config_input_of_point outputs_to_spend\<rparr>
      in case push_destinies lib X script_version destiny_and_amount (tx_outputs tx) of
           None \<Rightarrow> None
         | Some (Inl e) \<Rightarrow> Some (e, transaction_default)
         | Some (Inr outputs) \<Rightarrow>
             let tx = tx\<lparr>tx_outputs := outputs @ extra_outputs\<rparr>
             in if is_locktime_conflict tx then Some (error_lock_time_conflict, transaction_default)
                else Some (error_success, tx))"

definition anyone_flag :: "byte \<Rightarrow> bool \<Rightarrow> byte" where
  "anyone_flag sign_type any = (if any then sign_type OR anyone_can_pay else sign_type)"

definition input_signature_old ::
  "currency \<Rightarrow> hash_functions \<Rightarrow> curve_functions \<Rightarrow> ec_secret \<Rightarrow> script \<Rightarrow> transaction \<Rightarrow> uint32 \<Rightarrow> byte \<Rightarrow> bool \<Rightarrow> code \<times> data_chunk" where
  "input_signature_old cur H E private_key prevout_script tx index sign_type any =
     (if unat index \<ge> length (tx_inputs tx) then (error_input_index_out_of_range, [])
      else case create_endorsement cur H E private_key prevout_script tx index (anyone_flag sign_type any) version_unversioned (- 1) of
             None \<Rightarrow> (error_input_sign_failed, [])
           | Some endorse \<Rightarrow> (error_success, endorse))"

definition input_signature_btc ::
  "currency \<Rightarrow> hash_functions \<Rightarrow> curve_functions \<Rightarrow> ec_secret \<Rightarrow> script \<Rightarrow> transaction \<Rightarrow> uint64 \<Rightarrow> uint32 \<Rightarrow> byte \<Rightarrow> bool \<Rightarrow>
     code \<times> data_chunk" where
  "input_signature_btc cur H E private_key prevout_script tx amount index sign_type any =
     (if unat index \<ge> length (tx_inputs tx) then (error_input_index_out_of_range, [])
      else case create_endorsement cur H E private_key prevout_script tx index (anyone_flag sign_type any) version_zero amount of
             None \<Rightarrow> (error_input_sign_failed, [])
           | Some endorse \<Rightarrow> (error_success, endorse))"

definition input_signature_bch ::
  "currency \<Rightarrow> hash_functions \<Rightarrow> curve_functions \<Rightarrow> ec_secret \<Rightarrow> script \<Rightarrow> transaction \<Rightarrow> uint64 \<Rightarrow> uint32 \<Rightarrow> byte \<Rightarrow> bool \<Rightarrow>
     code \<times> data_chunk" where
  "input_signature_bch cur H E private_key prevout_script tx amount index sign_type any =
     input_signature_btc cur H E private_key prevout_script tx amount index (sign_type OR 0x40) any"

definition input_set_script :: "script \<Rightarrow> transaction \<Rightarrow> uint32 \<Rightarrow> code \<times> transaction" where
  "input_set_script s raw_tx index =
     (if unat index \<ge> length (tx_inputs raw_tx) then (error_input_index_out_of_range, transaction_default)
      else
        let tx_out = transaction_copy raw_tx
        in (error_success, tx_out\<lparr>tx_inputs := (tx_inputs tx_out)[unat index := (tx_inputs tx_out ! unat index)\<lparr>input_script := s\<rparr>]\<rparr>))"

definition input_set ::
  "convert_library \<Rightarrow> 'k secp256k1 \<Rightarrow> data_chunk \<Rightarrow> ec_public \<Rightarrow> transaction \<Rightarrow> uint32 \<Rightarrow> (code \<times> transaction) option" where
  "input_set lib C signature public_key raw_tx index =
     map_option (\<lambda>s. input_set_script s raw_tx index)
       (config_script lib (''['' @ encode_base16 signature @ ''] ['' @ ec_public_encoded C public_key @ '']''))"

subsection \<open>The transaction that is built\<close>

text \<open>What an address stands for: a script hash under the version given for scripts, and a key hash under any other.\<close>

definition pays :: "byte \<Rightarrow> raw_output \<Rightarrow> tx_output" where
  "pays script_version destiny = (case destiny of (address, amount) \<Rightarrow>
     output_of amount (script_from_operations
       (if addr_version address \<noteq> script_version then to_pay_key_hash_pattern (addr_hash address)
        else to_pay_script_hash_pattern (addr_hash address))))"

definition payable :: "currency \<Rightarrow> raw_output \<Rightarrow> bool" where
  "payable cur destiny = (case destiny of (address, amount) \<Rightarrow>
     addr_valid address \<and> length (addr_hash address) = 20 \<and> addr_hash address \<noteq> replicate 20 0 \<and> amount \<le> max_money cur True)"

lemma push_destinies_pay:
  assumes "convert_laws lib" and "list_all (payable (ctx_currency X)) destinies"
  shows "push_destinies lib X script_version destinies outputs = Some (Inr (outputs @ map (pays script_version) destinies))"
  using assms(2)
proof (induction destinies arbitrary: outputs)
  case (Cons d destinies)
  obtain a v where d: "d = (a, v)" by fastforce
  have a: "addr_valid a" "length (addr_hash a) = 20" "addr_hash a \<noteq> replicate 20 0" "v \<le> max_money (ctx_currency X) True"
    using Cons.prems by (simp_all add: d payable_def)
  have "push_scripts outputs (config_output_default\<lparr>co_amount := v, co_version := addr_version a, co_pay_to_hash := addr_hash a\<rparr>) script_version =
      Some (outputs @ [pays script_version d])"
    using a(3) by (simp add: push_scripts_def config_output_default_def script_reset_def pays_def d)
  then show ?case
    using Cons output_of_address [OF assms(1) a(1,2,4)] by (simp only: d push_destinies.simps option.case) simp
qed simp

lemma tx_encode_pays_destinies:
  assumes "convert_laws lib" and "list_all (payable (ctx_currency X)) destinies"
  shows "tx_encode lib X points destinies extra locktime v script_version =
    Some (if locktime = 0
      then (error_success, transaction_of v 0 (map config_input_of_point points) (map (pays script_version) destinies @ extra))
      else (error_lock_time_conflict, transaction_default))"
proof -
  have final: "list_all input_is_final (map config_input_of_point points)"
    by (simp add: list_all_iff config_input_of_point_def input_of_def input_is_final_def)
  show ?thesis
    using final push_destinies_pay [OF assms]
    by (simp add: tx_encode_def is_locktime_conflict_def all_inputs_final_def Let_def tx_set_locktime_def tx_set_version_def
        invalidate_tx_cache_def transaction_default_def transaction_of_def)
qed

text \<open>
  \<^verbatim>\<open>tx_encode\<close> builds the transaction that spends the points and pays the amounts to the addresses in their order,
  followed by the extra outputs; but every input is final, so any lock time other than zero is refused as a conflict.
\<close>

text \<open>
  tx_encode builds the transaction that spends the points and pays the amounts to the
  addresses in their order, followed by the extra outputs; but every input is final, so any
  lock time other than zero is refused as a conflict.
\<close>

theorem tx_encode_pays:
  assumes "convert_laws lib" and "list_all (payable (ctx_currency X)) destinies"
  shows "tx_encode lib X points destinies extra locktime v script_version =
    Some (if locktime = 0
      then (error_success, transaction_of v 0 (map config_input_of_point points) (map (pays script_version) destinies @ extra))
      else (error_lock_time_conflict, transaction_default))"
  by (rule tx_encode_pays_destinies [OF assms])

subsection \<open>Signed transactions\<close>

lemma anyone_sign_inputs:
  assumes "map (\<lambda>i. (previous_output i, sequence i)) ins = map (\<lambda>i. (previous_output i, sequence i)) ins'"
  shows "map (\<lambda>i. f (previous_output i) (sequence i)) ins = map (\<lambda>i. f (previous_output i) (sequence i)) ins'"
  using arg_cong [OF assms, of "map (\<lambda>(p, q). f p q)"] by (simp add: comp_def)

text \<open>The unversioned signature hash does not see the scripts of the inputs.\<close>

lemma unversioned_hash_inputs:
  assumes "map (\<lambda>i. (previous_output i, sequence i)) (tx_inputs tx) = map (\<lambda>i. (previous_output i, sequence i)) (tx_inputs tx')"
    and "tx_version tx = tx_version tx'" and "tx_locktime tx = tx_locktime tx'" and "tx_outputs tx = tx_outputs tx'"
  shows "generate_unversioned_signature_hash cur H tx index s t = generate_unversioned_signature_hash cur H tx' index s t"
proof -
  have len: "length (tx_inputs tx) = length (tx_inputs tx')" using arg_cong [OF assms(1), of length] by simp
  have self: "previous_output (tx_inputs tx ! k) = previous_output (tx_inputs tx' ! k) \<and> sequence (tx_inputs tx ! k) = sequence (tx_inputs tx' ! k)"
    if "k < length (tx_inputs tx)" for k
    using arg_cong [OF assms(1), of "\<lambda>xs. xs ! k"] that len by simp
  have maps: "map (\<lambda>i. sign_input (previous_output i) script_reset 0) (tx_inputs tx) = map (\<lambda>i. sign_input (previous_output i) script_reset 0) (tx_inputs tx')"
    "map (\<lambda>i. sign_input (previous_output i) script_reset (sequence i)) (tx_inputs tx) = map (\<lambda>i. sign_input (previous_output i) script_reset (sequence i)) (tx_inputs tx')"
    using anyone_sign_inputs [OF assms(1), of "\<lambda>p q. sign_input p script_reset 0"] anyone_sign_inputs [OF assms(1), of "\<lambda>p q. sign_input p script_reset q"]
    by simp_all
  show ?thesis
  proof (cases "unat index < length (tx_inputs tx)")
    case True
    then show ?thesis
      using self [OF True]
      by (simp add: generate_unversioned_signature_hash_def sign_none_def sign_single_def sign_all_def maps len assms(2-4) Let_def
          split: sighash_algorithm.split)
  next
    case False
    then show ?thesis by (simp add: generate_unversioned_signature_hash_def len)
  qed
qed

lemma pushed_script:
  assumes "convert_laws lib" and "1 < length e" and "length e \<le> 75" and "1 < length k" and "length k \<le> 75"
  shows "config_script lib (''['' @ encode_base16 e @ ''] ['' @ encode_base16 k @ '']'') =
    Some (script_from_operations [operation_of_data e True, operation_of_data k True])"
proof -
  let ?lib = "text_library.truncate lib"
  have laws: "text_laws ?lib" using assms(1) by (simp add: convert_laws_def)
  let ?ws = "[''['' @ encode_base16 e @ '']'', ''['' @ encode_base16 k @ '']'']"
  have plain: "list_all (\<lambda>c. \<not> is_space c) (encode_base16 d)" for d
    using encode_base16_names [of d] by (auto simp: list_all_iff is_name_char_def is_space_def is_digit_def)
  have joined: "''['' @ encode_base16 e @ ''] ['' @ encode_base16 k @ '']'' = join_text ?ws '' ''" by simp
  have "list_all (\<lambda>w. w \<noteq> [] \<and> CHR '' '' \<notin> set w) ?ws"
    using plain [of e] plain [of k] by (auto simp: list_all_iff is_space_def)
  then have split: "split_any_of ?lib '' '' (join_text ?ws '' '') = ?ws" using laws unfolding text_laws_def by blast
  have "\<not> is_space (hd (join_text ?ws '' ''))" "\<not> is_space (last (join_text ?ws '' ''))" by (simp_all add: is_space_def)
  then have trim: "trim_copy ?lib (join_text ?ws '' '') = join_text ?ws '' ''" using laws unfolding text_laws_def by blast
  have op: "operation_from_string ?lib (''['' @ encode_base16 d @ '']'') = operation_of_data d True" if "1 < length d" "length d \<le> 75" for d
  proof -
    have "d \<noteq> []" using that by auto
    then show ?thesis
      using push_token_read(1) [OF laws, of d] operation_of_data_nominal [of d] that
      by (simp add: operation_with_def nominal_opcode_from_data_def script_constants)
  qed
  have valid: "op_valid (operation_of_data d True)" if "1 < length d" "length d \<le> 75" for d
    using operation_of_data_nominal [of d] that by (simp add: script_constants)
  have "script_from_string ?lib (join_text ?ws '' '') = script_from_operations [operation_of_data e True, operation_of_data k True]"
    unfolding script_from_string_def split_text_def if_True trim split Let_def
    using op [OF assms(2,3)] op [OF assms(4,5)] valid [OF assms(2,3)] valid [OF assms(4,5)] by simp
  moreover have "trim_copy lib s = trim_copy ?lib s" for s by (simp add: text_library.truncate_def)
  ultimately show ?thesis unfolding joined config_script_def Let_def by (simp only: trim) (simp add: script_from_operations_def)
qed

text \<open>
  What the wallet signs, the node accepts: when an input that spends the hash of a key is signed with its secret and the
  signature is set into the transaction together with the key, going through the text form of the script, then
  \<^verbatim>\<open>script::verify\<close> of that transaction succeeds for the input, under any forks.
\<close>

text \<open>
  C28. What the wallet signs, the node accepts: when an input that spends the hash of a key
  is signed by input_signature_old with its secret and input_set puts the signature and the
  key into the transaction, through the text form of the script, then script::verify of that
  transaction succeeds for the input, under any forks.
\<close>

theorem wallet_spend_verifies:
  assumes "convert_laws lib" and "Verify.curve_laws E point" and "h = bitcoin_short_hash H (point secret)" and "length h = 20"
    and "prevout = script_from_operations (to_pay_key_hash_pattern h)"
    and "input_signature_old cur H E secret prevout tx index sign_type any = (error_success, e)"
    and "1 < length e" and "length e \<le> 75" and "e \<noteq> h" and "1 < length (point secret)" and "length (point secret) \<le> 75"
    and "ec_public_encoded C public_key = encode_base16 (point secret)"
  shows "\<exists>tx'. input_set lib C e public_key tx index = Some (error_success, tx') \<and>
    script_verify cur H E tx' index forks (input_script (tx_inputs tx' ! unat index)) witness_reset prevout v = error_success"
proof -
  have inside: "unat index < length (tx_inputs tx)"
    and made: "create_endorsement cur H E secret prevout tx index (anyone_flag sign_type any) version_unversioned (- 1) = Some e"
    using assms(6,7) by (auto simp: input_signature_old_def split: if_splits option.splits)
  let ?s = "script_from_operations [operation_of_data e True, operation_of_data (point secret) True]"
  define tx' where "tx' = (transaction_copy tx)\<lparr>tx_inputs := (tx_inputs tx)[unat index := (tx_inputs tx ! unat index)\<lparr>input_script := ?s\<rparr>]\<rparr>"
  have set: "input_set lib C e public_key tx index = Some (error_success, tx')"
    using pushed_script [OF assms(1,7,8,10,11)] inside
    by (simp add: input_set_def assms(12) input_set_script_def tx'_def transaction_copy_def transaction_of_def)
  have "map (\<lambda>i. (previous_output i, sequence i)) (tx_inputs tx') = map (\<lambda>i. (previous_output i, sequence i)) (tx_inputs tx)"
    using inside by (intro nth_equalityI) (auto simp: tx'_def nth_list_update)
  then have "generate_unversioned_signature_hash cur H tx' index prevout (anyone_flag sign_type any) =
      generate_unversioned_signature_hash cur H tx index prevout (anyone_flag sign_type any)"
    by (rule unversioned_hash_inputs) (simp_all add: tx'_def transaction_copy_def transaction_of_def)
  then have "create_endorsement cur H E secret prevout tx' index (anyone_flag sign_type any) version_unversioned v = Some e"
    using made by (simp add: create_endorsement_def generate_signature_hash_def Let_def)
  from key_hash_spendable [OF assms(2-5) this assms(7-11)]
  have "script_verify cur H E tx' index forks ?s witness_reset prevout v = error_success" .
  moreover have "input_script (tx_inputs tx' ! unat index) = ?s" using inside by (simp add: tx'_def)
  ultimately show ?thesis using set by auto
qed

definition example_environment :: "256 word environment" where
  "example_environment = \<lparr>ctx_currency = bitcoin, ctx_hashes = example_digests, ctx_secp = example_secp, ctx_sha512 = (\<lambda>d. d),
    ctx_hmac256 = (\<lambda>d k. d), ctx_cashaddr_prefix = []\<rparr>"

theorem tx_encode_pays_witness:
  "payable bitcoin (payment_address_of (replicate 20 9) 5, 7) \<and>
   tx_encode ascii_converter example_environment [point_reset] [(payment_address_of (replicate 20 9) 5, 7)] [] 0 1 5 =
   Some (error_success, transaction_of 1 0 [config_input_of_point point_reset]
     [output_of 7 (script_from_operations (to_pay_script_hash_pattern (replicate 20 9)))])"
proof -
  have "(7 :: uint64) \<le> max_money bitcoin True" by code_simp
  then have "payable bitcoin (payment_address_of (replicate 20 9) 5, 7)" by (simp add: payable_def payment_address_of_def)
  with tx_encode_pays [OF ascii_converter_laws, of example_environment "[(payment_address_of (replicate 20 9) 5, 7)]" "[point_reset]" "[]" 0 1 5]
  show ?thesis by (simp add: pays_def payment_address_of_def example_environment_def)
qed

theorem wallet_spend_verifies_witness:
  "\<exists>tx'. input_set ascii_converter example_secp [9, 9, 1] (ec_public_of_point [9, 9] True) example_transfer 0 = Some (error_success, tx') \<and>
     script_verify bitcoin example_hashes example_curve tx' 0 0 (input_script (tx_inputs tx' ! 0)) witness_reset
       (script_from_operations (to_pay_key_hash_pattern (replicate 20 7))) 50 = error_success"
proof -
  have laws: "Verify.curve_laws example_curve (\<lambda>secret. secret)"
    by (simp add: Verify.curve_laws_def example_curve_def)
  have hash: "replicate 20 7 = bitcoin_short_hash example_hashes [9, 9]" by (simp add: bitcoin_short_hash_def example_hashes_def)
  have signed: "input_signature_old bitcoin example_hashes example_curve [9, 9] (script_from_operations (to_pay_key_hash_pattern (replicate 20 7)))
      example_transfer 0 1 False = (error_success, [9, 9, 1])"
    by (simp add: input_signature_old_def create_endorsement_def example_curve_def Let_def example_transfer_def transaction_of_def anyone_flag_def)
  have other: "[9, 9, 1] \<noteq> replicate 20 (7 :: byte)"
  proof
    assume "[9, 9, 1] = replicate 20 (7 :: byte)"
    from arg_cong [OF this, of length] show False by simp
  qed
  from wallet_spend_verifies [OF ascii_converter_laws laws hash _ refl signed _ _ other,
      of example_secp "ec_public_of_point [9, 9] True" 0 50]
  show ?thesis by (simp add: ec_public_encoded_def ec_public_of_point_def)
qed

end
