(* ===== verification/Keoken.thy ===== *)
theory Keoken
  imports Wallet_Transaction
begin

unbundle bit_operations_syntax

text \<open>
  The token protocol of \<^verbatim>\<open>src/bitprim/keoken/\<close>: messages that create assets and send tokens (\<^verbatim>\<open>message/\<close>), carried by a null
  data output after the mark of the protocol, their extraction from a transaction (\<^verbatim>\<open>transaction_extractor.cpp\<close>) and the
  transactions that carry them (\<^verbatim>\<open>wallet/create_transanction.cpp\<close>).  Names are strings of bytes, amounts the bits of
  a signed 64-bit integer.
\<close>

subsection \<open>Messages\<close>

definition protocol_name :: data_chunk where "protocol_name = [0x00, 0x00, 0x4b, 0x50]"

abbreviation (input) kp_min_size :: opcode where "kp_min_size \<equiv> 4"
abbreviation (input) kp_max_size :: opcode where "kp_max_size \<equiv> push_four_size"
abbreviation (input) min_asset_name_size :: nat where "min_asset_name_size \<equiv> 1"
abbreviation (input) max_name_size :: nat where "max_name_size \<equiv> 33"

text \<open>The loop that collects the bytes before the terminator; the counter is the room left before the limit.\<close>

primrec null_terminated_loop :: "nat \<Rightarrow> data_chunk \<Rightarrow> byte \<Rightarrow> data_chunk option rd" where
  "null_terminated_loop 0 res b = State_Monad.return None"
| "null_terminated_loop (Suc n) res b = do {
     ok \<leftarrow> source_valid;
     if ok \<and> b \<noteq> 0 then
       (if n = 0 then State_Monad.return None
        else do { b' \<leftarrow> read_byte; null_terminated_loop n (res @ [b]) b' })
     else State_Monad.return (if ok then Some res else None)
   }"

definition read_null_terminated_string :: "nat \<Rightarrow> data_chunk option rd" where
  "read_null_terminated_string limit =
     (if limit = 0 then State_Monad.return None
      else do { b \<leftarrow> read_byte; null_terminated_loop limit [] b })"

definition base_serialized_size :: nat where "base_serialized_size = 2 + 2"

definition base_to_data :: "uint16 \<Rightarrow> uint16 \<Rightarrow> data_chunk" where
  "base_to_data v t = write_2_bytes_big_endian v @ write_2_bytes_big_endian t"

record create_asset =
  asset_name :: data_chunk
  asset_amount :: uint64

text \<open>The members keep their values when the name is refused.\<close>

definition create_asset_from_data :: "create_asset \<Rightarrow> (bool \<times> create_asset) rd" where
  "create_asset_from_data m = do {
     name_opt \<leftarrow> read_null_terminated_string max_name_size;
     case name_opt of
       None \<Rightarrow> do { _ \<leftarrow> invalidate; State_Monad.return (False, m) }
     | Some name \<Rightarrow>
         if length name < min_asset_name_size then do { _ \<leftarrow> invalidate; State_Monad.return (False, m) }
         else do {
           amount \<leftarrow> read_8_bytes_big_endian;
           ok \<leftarrow> source_valid;
           State_Monad.return (ok, \<lparr>asset_name = name, asset_amount = amount\<rparr>)
         }
   }"

definition create_asset_to_data :: "create_asset \<Rightarrow> data_chunk" where
  "create_asset_to_data m = base_to_data 0 0 @ write_bytes (asset_name m @ [0]) @ write_8_bytes_big_endian (asset_amount m)"

definition create_asset_size :: "create_asset \<Rightarrow> nat" where
  "create_asset_size m = base_serialized_size + 8 + length (asset_name m) + 1"

record send_tokens =
  tokens_asset_id :: uint32
  tokens_amount :: uint64

definition send_tokens_from_data :: "(bool \<times> send_tokens) rd" where
  "send_tokens_from_data = do {
     asset_id \<leftarrow> read_4_bytes_big_endian;
     amount \<leftarrow> read_8_bytes_big_endian;
     ok \<leftarrow> source_valid;
     State_Monad.return (ok, \<lparr>tokens_asset_id = asset_id, tokens_amount = amount\<rparr>)
   }"

definition send_tokens_to_data :: "send_tokens \<Rightarrow> data_chunk" where
  "send_tokens_to_data m =
     base_to_data 0 1 @ write_4_bytes_big_endian (tokens_asset_id m) @ write_8_bytes_big_endian (tokens_amount m)"

definition send_tokens_size :: "send_tokens \<Rightarrow> nat" where
  "send_tokens_size m = base_serialized_size + 4 + 8"

subsection \<open>Extraction\<close>

text \<open>
  The empty answer is no token data.  The comparison with the mark walks over the pushed data; more than four bytes
  would be read past its end, the value \<open>None\<close>.
\<close>

definition get_keoken_data :: "operation list \<Rightarrow> data_chunk option" where
  "get_keoken_data ops =
     (case ops of
        [] \<Rightarrow> Some []
      | f # ops \<Rightarrow>
          if op_code f \<noteq> opcode_return then Some []
          else case ops of
            [] \<Rightarrow> Some []
          | f # ops \<Rightarrow>
              if op_code f \<noteq> 4 then Some []
              else if length (op_data f) > 4 then None
              else if op_data f \<noteq> take (length (op_data f)) protocol_name then Some []
              else case ops of
                [] \<Rightarrow> Some []
              | f # ops \<Rightarrow>
                  if op_code f < kp_min_size then Some []
                  else if op_code f > kp_max_size then Some []
                  else Some (op_data f))"

fun keoken_loop :: "currency \<Rightarrow> tx_output list \<Rightarrow> data_chunk option" where
  "keoken_loop cur [] = Some []"
| "keoken_loop cur (out # outs) =
     (case get_keoken_data (script_operations cur (output_script out)) of
        None \<Rightarrow> None
      | Some data \<Rightarrow> if data \<noteq> [] then Some data else keoken_loop cur outs)"

definition first_keoken_output :: "currency \<Rightarrow> transaction \<Rightarrow> data_chunk option" where
  "first_keoken_output cur tx = keoken_loop cur (tx_outputs tx)"

subsection \<open>Transactions\<close>

abbreviation (input) fees :: uint64 where "fees \<equiv> 2000"

definition create_keoken_output :: "data_chunk \<Rightarrow> tx_output" where
  "create_keoken_output keoken_message =
     output_of 0 (script_from_operations
       [operation_of_code opcode_return, operation_of_data protocol_name True, operation_of_data keoken_message True])"

definition tx_encode_create_asset ::
  "convert_library \<Rightarrow> 'k environment \<Rightarrow> point list \<Rightarrow> payment_address \<Rightarrow> uint64 \<Rightarrow> data_chunk \<Rightarrow> uint64 \<Rightarrow> uint32 \<Rightarrow> uint32 \<Rightarrow> byte \<Rightarrow>
     (code \<times> transaction) option" where
  "tx_encode_create_asset lib X outputs_to_spend asset_owner utxo_satoshis name amount locktime v script_version =
     tx_encode lib X outputs_to_spend [(asset_owner, utxo_satoshis - fees)]
       [create_keoken_output (create_asset_to_data \<lparr>asset_name = name, asset_amount = amount\<rparr>)] locktime v script_version"

definition tx_encode_send_token ::
  "convert_library \<Rightarrow> 'k environment \<Rightarrow> point list \<Rightarrow> payment_address \<Rightarrow> uint64 \<Rightarrow> payment_address \<Rightarrow> uint64 \<Rightarrow> uint32 \<Rightarrow> uint64 \<Rightarrow>
     uint32 \<Rightarrow> uint32 \<Rightarrow> byte \<Rightarrow> (code \<times> transaction) option" where
  "tx_encode_send_token lib X outputs_to_spend asset_owner utxo_satoshis asset_receiver dust asset_id amount locktime v script_version =
     tx_encode lib X outputs_to_spend [(asset_receiver, dust), (asset_owner, utxo_satoshis - dust - fees)]
       [create_keoken_output (send_tokens_to_data \<lparr>tokens_asset_id = asset_id, tokens_amount = amount\<rparr>)] locktime v script_version"

definition sign_and_set ::
  "convert_library \<Rightarrow> 'k environment \<Rightarrow> curve_functions \<Rightarrow> script \<Rightarrow> ec_secret \<Rightarrow> ec_public \<Rightarrow> uint64 \<Rightarrow> transaction \<Rightarrow>
     (code \<times> transaction) option" where
  "sign_and_set lib X E prevout_script private_key public_key amount tx =
     (case input_signature_bch (ctx_currency X) (ctx_hashes X) E private_key prevout_script tx amount 0 1 False of
        (ec, signature) \<Rightarrow>
          if ec \<noteq> error_success then Some (ec, transaction_default)
          else input_set lib (ctx_secp X) signature public_key tx 0)"

text \<open>Both complete functions sign what the encoder answers and pass every error on.\<close>

definition complete ::
  "(code \<times> transaction) option \<Rightarrow> (transaction \<Rightarrow> (code \<times> transaction) option) \<Rightarrow> (code \<times> transaction) option" where
  "complete raw_tx sign =
     (case raw_tx of
        None \<Rightarrow> None
      | Some (ec, tx) \<Rightarrow>
          if ec \<noteq> error_success then Some (ec, transaction_default)
          else (case sign tx of
                  None \<Rightarrow> None
                | Some (ec', tx') \<Rightarrow> if ec' \<noteq> error_success then Some (ec', transaction_default) else Some (error_success, tx')))"

definition create_asset_tx_complete ::
  "convert_library \<Rightarrow> 'k environment \<Rightarrow> curve_functions \<Rightarrow> point \<Rightarrow> script \<Rightarrow> ec_secret \<Rightarrow> ec_public \<Rightarrow> uint64 \<Rightarrow> payment_address \<Rightarrow>
     data_chunk \<Rightarrow> uint64 \<Rightarrow> (code \<times> transaction) option" where
  "create_asset_tx_complete lib X E output_to_spend prevout_script private_key public_key amount addr name quantity =
     complete (tx_encode_create_asset lib X [output_to_spend] addr amount name quantity 0 1 5)
       (sign_and_set lib X E prevout_script private_key public_key amount)"

definition send_token_tx_complete ::
  "convert_library \<Rightarrow> 'k environment \<Rightarrow> curve_functions \<Rightarrow> point \<Rightarrow> script \<Rightarrow> ec_secret \<Rightarrow> ec_public \<Rightarrow> uint64 \<Rightarrow> payment_address \<Rightarrow>
     payment_address \<Rightarrow> uint64 \<Rightarrow> uint32 \<Rightarrow> uint64 \<Rightarrow> (code \<times> transaction) option" where
  "send_token_tx_complete lib X E output_to_spend prevout_script private_key public_key amount addr_origin addr_dest dust asset_id
       quantity =
     complete (tx_encode_send_token lib X [output_to_spend] addr_origin amount addr_dest dust asset_id quantity 0 1 5)
       (sign_and_set lib X E prevout_script private_key public_key amount)"

subsection \<open>Reading back\<close>

lemma run_null_terminated_loop:
  assumes "0 \<notin> set name" and "length name < n"
  shows "run_state (null_terminated_loop n res (hd (name @ [0]))) (ready (tl (name @ [0]) @ rest)) = (Some (res @ name), ready rest)"
  using assms
proof (induction name arbitrary: n res)
  case Nil
  then obtain m where "n = Suc m" by (cases n) auto
  then show ?case by (simp add: run_source_valid)
next
  case (Cons b name)
  then obtain m where m: "n = Suc m" "length name < m" by (cases n) auto
  obtain c cs where split: "name @ [0] = c # cs" by (cases name) auto
  have "run_state (null_terminated_loop m (res @ [b]) c) (ready (cs @ rest)) = (Some ((res @ [b]) @ name), ready rest)"
    using Cons.IH [of m "res @ [b]"] Cons.prems(1) m(2) split by simp
  then show ?case using Cons.prems(1) m split by (simp add: run_source_valid run_read_byte_ready)
qed

lemma run_read_null_terminated_string:
  assumes "0 \<notin> set name" and "length name < limit"
  shows "run_state (read_null_terminated_string limit) (ready (name @ 0 # rest)) = (Some name, ready rest)"
proof -
  obtain c cs where split: "name @ [0] = c # cs" by (cases name) auto
  then have bytes: "name @ 0 # rest = c # cs @ rest" by (metis append_Cons append_assoc append_Nil)
  have "run_state (null_terminated_loop limit [] c) (ready (cs @ rest)) = (Some name, ready rest)"
    using run_null_terminated_loop [OF assms, of "[]" rest] split by simp
  then show ?thesis using assms(2) unfolding bytes by (simp add: read_null_terminated_string_def run_read_byte_ready)
qed

text \<open>What follows version and type is read back.\<close>

lemma run_create_asset:
  assumes "0 \<notin> set (asset_name m)" and "1 \<le> length (asset_name m)" and "length (asset_name m) \<le> 32"
  shows "\<exists>body. create_asset_to_data m = base_to_data 0 0 @ body \<and>
    run_state (create_asset_from_data m') (ready (body @ rest)) = ((True, m), ready rest)"
proof (intro exI conjI)
  show "create_asset_to_data m = base_to_data 0 0 @ (asset_name m @ 0 # write_8_bytes_big_endian (asset_amount m))"
    by (simp add: create_asset_to_data_def write_bytes_def)
  have "length (asset_name m) < 33" using assms(3) by simp
  from run_read_null_terminated_string [OF assms(1) this, of "write_8_bytes_big_endian (asset_amount m) @ rest"]
  show "run_state (create_asset_from_data m') (ready ((asset_name m @ 0 # write_8_bytes_big_endian (asset_amount m)) @ rest)) =
      ((True, m), ready rest)"
    using assms(2) by (cases "asset_name m = []") (simp_all add: create_asset_from_data_def wire_simps)
qed

lemma run_send_tokens:
  "\<exists>body. send_tokens_to_data m = base_to_data 0 1 @ body \<and> run_state send_tokens_from_data (ready (body @ rest)) = ((True, m), ready rest)"
proof (intro exI conjI)
  show "send_tokens_to_data m = base_to_data 0 1 @ write_4_bytes_big_endian (tokens_asset_id m) @ write_8_bytes_big_endian (tokens_amount m)"
    by (simp add: send_tokens_to_data_def)
  show "run_state send_tokens_from_data
      (ready ((write_4_bytes_big_endian (tokens_asset_id m) @ write_8_bytes_big_endian (tokens_amount m)) @ rest)) = ((True, m), ready rest)"
    by (simp add: send_tokens_from_data_def wire_simps)
qed

lemma message_sizes: "length (create_asset_to_data m) = create_asset_size m" "length (send_tokens_to_data t) = send_tokens_size t"
  by (simp_all add: create_asset_to_data_def create_asset_size_def send_tokens_to_data_def send_tokens_size_def base_to_data_def
      base_serialized_size_def write_bytes_def write_2_bytes_big_endian_def write_4_bytes_big_endian_def write_8_bytes_big_endian_def to_big_endian_def)

text \<open>An output for a message is recognized, one for an address is not.\<close>

lemma keoken_output_data:
  assumes "4 \<le> length message" and "length message \<le> 75"
  shows "get_keoken_data (script_operations cur (output_script (create_keoken_output message))) = Some message"
proof -
  have "operation_of_data message True = \<lparr>op_code = opcode_from_size (length message), op_data = message, op_valid = True\<rparr>"
    "operation_of_data protocol_name True = \<lparr>op_code = opcode_from_size (length protocol_name), op_data = protocol_name, op_valid = True\<rparr>"
    using assms operation_of_data_nominal [of message] operation_of_data_nominal [of protocol_name]
    by (simp_all add: script_constants protocol_name_def)
  moreover have "unat (opcode_from_size (length message)) = length message" using assms by (simp add: opcode_from_size_def unat_of_nat)
  ultimately show ?thesis
    using assms
    by (simp add: get_keoken_data_def create_keoken_output_def output_of_def script_operations_def script_from_operations_def
        operation_of_code_def opcode_from_size_def protocol_name_def word_less_nat_alt unat_of_nat)
qed

lemma paying_output_data: "get_keoken_data (script_operations cur (output_script (pays v d))) = Some []"
  by (simp add: get_keoken_data_def pays_def output_of_def script_operations_def script_from_operations_def
      to_pay_key_hash_pattern_def to_pay_script_hash_pattern_def operation_of_code_def split: prod.split)

lemma first_keoken:
  assumes "4 \<le> length message" and "length message \<le> 75"
  shows "keoken_loop cur (map (pays v) ds @ [create_keoken_output message]) = Some message"
proof (induction ds)
  case Nil
  have "message \<noteq> []" using assms(1) by auto
  then show ?case using keoken_output_data [OF assms, of cur] by simp
next
  case (Cons d ds)
  then show ?case using paying_output_data [of cur v d] by simp
qed

text \<open>
  C31. A transaction made for a new asset carries it: for a name of 1 to 32 bytes none of
  which is zero, the locktime zero, an owner and a rest that can be paid, and number
  conversions that behave as documented, the encoder succeeds, spends the given points, pays
  the owner the rest after the fees, and the message found in the transaction has the
  version and the type of the creation of an asset and reads back to its name and amount.
\<close>

theorem asset_carried:
  assumes "convert_laws lib" and "payable (ctx_currency X) (owner, utxo - fees)"
    and "0 \<notin> set name" and "1 \<le> length name" and "length name \<le> 32"
  shows "\<exists>tx body. tx_encode_create_asset lib X points owner utxo name amount 0 v script_version = Some (error_success, tx) \<and>
    map (op_point \<circ> previous_output) (tx_inputs tx) = points \<and>
    hd (tx_outputs tx) = pays script_version (owner, utxo - fees) \<and>
    first_keoken_output cur tx = Some (base_to_data 0 0 @ body) \<and>
    run_state (create_asset_from_data m) (ready (body @ rest)) = ((True, \<lparr>asset_name = name, asset_amount = amount\<rparr>), ready rest)"
proof -
  let ?m = "\<lparr>asset_name = name, asset_amount = amount\<rparr>"
  let ?tx = "transaction_of v 0 (map config_input_of_point points)
    (map (pays script_version) [(owner, utxo - fees)] @ [create_keoken_output (create_asset_to_data ?m)])"
  have built: "tx_encode_create_asset lib X points owner utxo name amount 0 v script_version = Some (error_success, ?tx)"
    using tx_encode_pays_destinies [OF assms(1), of X "[(owner, utxo - fees)]"] assms(2) by (simp add: tx_encode_create_asset_def)
  obtain body where body: "create_asset_to_data ?m = base_to_data 0 0 @ body"
    "run_state (create_asset_from_data m) (ready (body @ rest)) = ((True, ?m), ready rest)"
    using run_create_asset [of ?m m rest] assms(3-5) by auto
  have "4 \<le> length (create_asset_to_data ?m)" "length (create_asset_to_data ?m) \<le> 75"
    using assms(5) by (simp_all add: message_sizes create_asset_size_def base_serialized_size_def)
  from first_keoken [OF this, of cur script_version "[(owner, utxo - fees)]"]
  have "first_keoken_output cur ?tx = Some (base_to_data 0 0 @ body)"
    by (simp add: first_keoken_output_def transaction_of_def body(1))
  moreover have "map (op_point \<circ> previous_output) (tx_inputs ?tx) = points"
    by (simp add: transaction_of_def config_input_of_point_def input_of_def output_point_of_def comp_def)
  moreover have "hd (tx_outputs ?tx) = pays script_version (owner, utxo - fees)" by (simp add: transaction_of_def)
  ultimately show ?thesis using built body(2) by blast
qed

text \<open>
  The encoder does not test the name: it builds the transaction also for an empty one, one of more than 32 bytes or
  with a zero in it, and these do not read back.
\<close>

lemma any_name_encoded:
  assumes "convert_laws lib" and "payable (ctx_currency X) (owner, utxo - fees)"
  shows "\<exists>tx. tx_encode_create_asset lib X points owner utxo name amount 0 v script_version = Some (error_success, tx)"
  using tx_encode_pays_destinies [OF assms(1), of X "[(owner, utxo - fees)]"] assms(2) by (simp add: tx_encode_create_asset_def)

lemma names_not_read_back:
  "\<forall>name \<in> {[], [65, 0, 66], replicate 33 65}.
     fst (run_state (create_asset_from_data \<lparr>asset_name = [9], asset_amount = 9\<rparr>)
       (ready (drop 4 (create_asset_to_data \<lparr>asset_name = name, asset_amount = 7\<rparr>)))) \<noteq> (True, \<lparr>asset_name = name, asset_amount = 7\<rparr>)"
  by code_simp

lemma tokens_carried:
  assumes "convert_laws lib" and "payable (ctx_currency X) (receiver, dust)" and "payable (ctx_currency X) (owner, utxo - dust - fees)"
  shows "\<exists>tx body. tx_encode_send_token lib X points owner utxo receiver dust asset amount 0 v script_version = Some (error_success, tx) \<and>
    take 2 (tx_outputs tx) = [pays script_version (receiver, dust), pays script_version (owner, utxo - dust - fees)] \<and>
    first_keoken_output cur tx = Some (base_to_data 0 1 @ body) \<and>
    run_state send_tokens_from_data (ready (body @ rest)) = ((True, \<lparr>tokens_asset_id = asset, tokens_amount = amount\<rparr>), ready rest)"
proof -
  let ?m = "\<lparr>tokens_asset_id = asset, tokens_amount = amount\<rparr>" and ?ds = "[(receiver, dust), (owner, utxo - dust - fees)]"
  let ?tx = "transaction_of v 0 (map config_input_of_point points) (map (pays script_version) ?ds @ [create_keoken_output (send_tokens_to_data ?m)])"
  have built: "tx_encode_send_token lib X points owner utxo receiver dust asset amount 0 v script_version = Some (error_success, ?tx)"
    using tx_encode_pays_destinies [OF assms(1), of X ?ds] assms(2,3) by (simp add: tx_encode_send_token_def)
  obtain body where body: "send_tokens_to_data ?m = base_to_data 0 1 @ body"
    "run_state send_tokens_from_data (ready (body @ rest)) = ((True, ?m), ready rest)"
    using run_send_tokens [of ?m rest] by auto
  have "4 \<le> length (send_tokens_to_data ?m)" "length (send_tokens_to_data ?m) \<le> 75"
    by (simp_all add: message_sizes send_tokens_size_def base_serialized_size_def)
  from first_keoken [OF this, of cur script_version ?ds]
  have "first_keoken_output cur ?tx = Some (base_to_data 0 1 @ body)" by (simp add: first_keoken_output_def transaction_of_def body(1))
  moreover have "take 2 (tx_outputs ?tx) = map (pays script_version) ?ds" by (simp add: transaction_of_def)
  ultimately show ?thesis using built body(2) by auto
qed

theorem asset_carried_witness:
  "\<exists>tx body. tx_encode_create_asset ascii_converter example_environment [point_reset] (payment_address_of (replicate 20 9) 0) 5000 [65, 66] 7 0 1 5 =
     Some (error_success, tx) \<and> first_keoken_output bitcoin tx = Some (base_to_data 0 0 @ body) \<and>
     run_state (create_asset_from_data \<lparr>asset_name = [], asset_amount = 0\<rparr>) (ready body) =
       ((True, \<lparr>asset_name = [65, 66], asset_amount = 7\<rparr>), ready [])"
proof -
  have "(3000 :: uint64) \<le> max_money bitcoin True" by code_simp
  then have "payable (ctx_currency example_environment) (payment_address_of (replicate 20 9) 0, 5000 - fees)"
    by (simp add: payable_def payment_address_of_def example_environment_def)
  from asset_carried [OF ascii_converter_laws this, of "[65, 66]" "[point_reset]" 7 1 5 bitcoin "\<lparr>asset_name = [], asset_amount = 0\<rparr>" "[]"]
  show ?thesis by auto
qed

end
