(* ===== verification/Encrypted_Keys.thy ===== *)
theory Encrypted_Keys
  imports Stealth
begin

unbundle bit_operations_syntax

text \<open>
  Private keys encrypted with a passphrase (bip38): \<^verbatim>\<open>src/wallet/encrypted_keys.cpp\<close>, its parsers under
  \<^verbatim>\<open>src/wallet/parse_encrypted_keys/\<close>, and the text forms of \<^verbatim>\<open>ek_private.cpp\<close>, \<^verbatim>\<open>ek_public.cpp\<close> and \<^verbatim>\<open>ek_token.cpp\<close>.  The
  vendored ciphers and the unicode normalization are the record \<open>cipher\<close>; what the proofs use of them is \<open>cipher_laws\<close>.
\<close>

record cipher =
  aes256_encrypt :: "data_chunk \<Rightarrow> data_chunk \<Rightarrow> data_chunk"
  aes256_decrypt :: "data_chunk \<Rightarrow> data_chunk \<Rightarrow> data_chunk"
  crypto_scrypt :: "data_chunk \<Rightarrow> data_chunk \<Rightarrow> nat \<Rightarrow> nat \<Rightarrow> nat \<Rightarrow> nat \<Rightarrow> data_chunk"
  to_normal_nfc_form :: "string \<Rightarrow> string"

text \<open>A block decrypts to what was encrypted under the same key, and the derived keys have the length asked for.\<close>

definition cipher_laws :: "cipher \<Rightarrow> bool" where
  "cipher_laws K \<longleftrightarrow>
     (\<forall>key block. length block = 16 \<longrightarrow> length (aes256_encrypt K key block) = 16 \<and>
        aes256_decrypt K key (aes256_encrypt K key block) = block) \<and>
     (\<forall>data salt N r p n. length (crypto_scrypt K data salt N r p n) = n)"

type_synonym encrypted_private = data_chunk
type_synonym encrypted_public = data_chunk
type_synonym encrypted_token = data_chunk

abbreviation (input) half :: nat where "half \<equiv> 16"
abbreviation (input) quarter :: nat where "quarter \<equiv> 8"
abbreviation (input) ek_salt_size :: nat where "ek_salt_size \<equiv> 4"
abbreviation (input) ek_entropy_size :: nat where "ek_entropy_size \<equiv> 8"
abbreviation (input) ek_seed_size :: nat where "ek_seed_size \<equiv> 24"
abbreviation (input) encrypted_token_decoded_size :: nat where "encrypted_token_decoded_size \<equiv> 53"
abbreviation (input) ek_private_decoded_size :: nat where "ek_private_decoded_size \<equiv> 43"
abbreviation (input) encrypted_public_decoded_size :: nat where "encrypted_public_decoded_size \<equiv> 55"
abbreviation (input) ek_max_lot :: uint32 where "ek_max_lot \<equiv> 1048575"
abbreviation (input) ek_max_sequence :: uint32 where "ek_max_sequence \<equiv> 4095"

abbreviation (input) lot_sequence_key :: byte where "lot_sequence_key \<equiv> 4"
abbreviation (input) ec_compressed_key :: byte where "ec_compressed_key \<equiv> 32"
abbreviation (input) ec_non_multiplied :: byte where "ec_non_multiplied \<equiv> 192"

subsection \<open>Arrays\<close>

definition slice :: "nat \<Rightarrow> nat \<Rightarrow> data_chunk \<Rightarrow> data_chunk" where
  "slice i j bytes = take (j - i) (drop i bytes)"

definition split_array :: "data_chunk \<Rightarrow> data_chunk \<times> data_chunk" where
  "split_array bytes = (let h = length bytes div 2 in (take h bytes, take h (drop h bytes)))"

definition xor_data :: "nat \<Rightarrow> data_chunk \<Rightarrow> data_chunk \<Rightarrow> nat \<Rightarrow> nat \<Rightarrow> data_chunk" where
  "xor_data n bytes1 bytes2 offset1 offset2 = map (\<lambda>i. bytes1 ! (i + offset1) XOR bytes2 ! (i + offset2)) [0..<n]"

text \<open>The template hands its last two arguments on in the other order.\<close>

definition scrypt :: "cipher \<Rightarrow> data_chunk \<Rightarrow> data_chunk \<Rightarrow> nat \<Rightarrow> nat \<Rightarrow> nat \<Rightarrow> nat \<Rightarrow> data_chunk" where
  "scrypt K data salt N p r n = crypto_scrypt K data salt N r p n"

definition scrypt_array :: "cipher \<Rightarrow> nat \<Rightarrow> data_chunk \<Rightarrow> data_chunk \<Rightarrow> nat \<Rightarrow> nat \<Rightarrow> nat \<Rightarrow> data_chunk" where
  "scrypt_array K n data salt N p r = scrypt K data salt N r p n"

subsection \<open>Parsers\<close>

record parse_encrypted_prefix =
  ek_prefix :: data_chunk
  ek_valid :: bool

record parse_encrypted_key = parse_encrypted_prefix +
  ek_flags :: data_chunk
  ek_salt :: data_chunk
  ek_entropy :: data_chunk

record parse_encrypted_private = parse_encrypted_key +
  priv_data1 :: data_chunk
  priv_data2 :: data_chunk

record parse_encrypted_public = parse_encrypted_key +
  conf_sign :: data_chunk
  conf_data :: data_chunk

record parse_encrypted_token = parse_encrypted_prefix +
  tok_entropy :: data_chunk
  tok_sign :: data_chunk
  tok_data :: data_chunk

definition prefix_context :: "'a parse_encrypted_prefix_scheme \<Rightarrow> byte" where
  "prefix_context parse = last (ek_prefix parse)"

definition flags :: "'a parse_encrypted_key_scheme \<Rightarrow> byte" where
  "flags parse = hd (ek_flags parse)"

definition compressed :: "'a parse_encrypted_key_scheme \<Rightarrow> bool" where
  "compressed parse \<longleftrightarrow> flags parse AND ec_compressed_key \<noteq> 0"

definition lot_sequence :: "'a parse_encrypted_key_scheme \<Rightarrow> bool" where
  "lot_sequence parse \<longleftrightarrow> flags parse AND lot_sequence_key \<noteq> 0"

definition owner_salt :: "'a parse_encrypted_key_scheme \<Rightarrow> data_chunk" where
  "owner_salt parse = (if lot_sequence parse then slice 0 ek_salt_size (ek_entropy parse) else ek_entropy parse)"

definition private_magic :: data_chunk where "private_magic = [0x01]"
abbreviation (input) private_default_context :: byte where "private_default_context \<equiv> 0x42"
abbreviation (input) private_multiplied_context :: byte where "private_multiplied_context \<equiv> 0x43"

definition private_prefix_factory :: "byte \<Rightarrow> bool \<Rightarrow> data_chunk" where
  "private_prefix_factory address multiplied =
     (let base = if multiplied then private_multiplied_context else private_default_context
      in private_magic @ [base + address])"

definition parse_private :: "hash_functions \<Rightarrow> encrypted_private \<Rightarrow> parse_encrypted_private" where
  "parse_private H key =
     \<lparr>ek_prefix = slice 0 2 key, ek_valid = (slice 0 1 (slice 0 2 key) = private_magic \<and> verify_checksum H key),
      ek_flags = slice 2 3 key, ek_salt = slice 3 7 key, ek_entropy = slice 7 15 key,
      priv_data1 = slice 15 23 key, priv_data2 = slice 23 39 key\<rparr>"

definition multiplied :: "parse_encrypted_private \<Rightarrow> bool" where
  "multiplied parse \<longleftrightarrow> flags parse AND ec_non_multiplied = 0"

definition private_address_version :: "parse_encrypted_private \<Rightarrow> byte" where
  "private_address_version parse =
     prefix_context parse - (if multiplied parse then private_multiplied_context else private_default_context)"

definition public_magic :: data_chunk where "public_magic = [0x64, 0x3b, 0xf6, 0xa8]"
abbreviation (input) public_default_context :: byte where "public_default_context \<equiv> 0x9a"

definition public_prefix_factory :: "byte \<Rightarrow> data_chunk" where
  "public_prefix_factory address = public_magic @ [public_default_context + address]"

definition parse_public :: "hash_functions \<Rightarrow> encrypted_public \<Rightarrow> parse_encrypted_public" where
  "parse_public H key =
     \<lparr>ek_prefix = slice 0 5 key, ek_valid = (slice 0 4 (slice 0 5 key) = public_magic \<and> verify_checksum H key),
      ek_flags = slice 5 6 key, ek_salt = slice 6 10 key, ek_entropy = slice 10 18 key,
      conf_sign = slice 18 19 key, conf_data = slice 19 51 key\<rparr>"

definition public_address_version :: "parse_encrypted_public \<Rightarrow> byte" where
  "public_address_version parse = prefix_context parse - public_default_context"

definition token_magic :: data_chunk where "token_magic = [0x2c, 0xe9, 0xb3, 0xe1, 0xff, 0x39, 0xe2]"
abbreviation (input) lot_context :: byte where "lot_context \<equiv> 0x51"
abbreviation (input) token_default_context :: byte where "token_default_context \<equiv> 0x53"

definition token_prefix_factory :: "bool \<Rightarrow> data_chunk" where
  "token_prefix_factory lot = token_magic @ [if lot then lot_context else token_default_context]"

definition parse_token :: "hash_functions \<Rightarrow> encrypted_token \<Rightarrow> parse_encrypted_token" where
  "parse_token H value =
     (let prefix = slice 0 8 value; ctx = last prefix in
      \<lparr>ek_prefix = prefix,
       ek_valid = (slice 0 7 prefix = token_magic \<and> (ctx = token_default_context \<or> ctx = lot_context) \<and> verify_checksum H value),
       tok_entropy = slice 8 16 value, tok_sign = slice 16 17 value, tok_data = slice 17 49 value\<rparr>)"

definition token_lot_sequence :: "parse_encrypted_token \<Rightarrow> bool" where
  "token_lot_sequence parse \<longleftrightarrow> prefix_context parse = lot_context"

subsection \<open>Salts and signs\<close>

definition address_hash :: "hash_functions \<Rightarrow> payment_address \<Rightarrow> hash_digest" where
  "address_hash H address = bitcoin_hash H (map of_char (address_encoded H address))"

definition address_salt :: "hash_functions \<Rightarrow> payment_address \<Rightarrow> data_chunk option" where
  "address_salt H address = (if addr_valid address then Some (slice 0 ek_salt_size (address_hash H address)) else None)"

definition point_address :: "'k secp256k1 \<Rightarrow> hash_functions \<Rightarrow> ec_point \<Rightarrow> byte \<Rightarrow> bool \<Rightarrow> payment_address" where
  "point_address C H point v cmp = from_public C H (ec_public_of_point point cmp) v"

definition secret_address :: "'k secp256k1 \<Rightarrow> hash_functions \<Rightarrow> ec_secret \<Rightarrow> byte \<Rightarrow> bool \<Rightarrow> payment_address" where
  "secret_address C H secret v cmp = from_private C H (ec_private_of_secret secret (ucast v) cmp)"

definition address_validate :: "hash_functions \<Rightarrow> data_chunk \<Rightarrow> payment_address \<Rightarrow> bool" where
  "address_validate H salt address \<longleftrightarrow> addr_valid address \<and> take (length salt) (address_hash H address) = salt"

definition point_hash_of :: "ec_point \<Rightarrow> data_chunk" where
  "point_hash_of point = slice 1 ec_compressed_size point"

definition point_sign :: "byte \<Rightarrow> data_chunk \<Rightarrow> data_chunk" where
  "point_sign b hash = [b XOR (last hash AND 0x01)]"

definition scrypt_token :: "cipher \<Rightarrow> data_chunk \<Rightarrow> data_chunk \<Rightarrow> data_chunk" where
  "scrypt_token K data salt = scrypt_array K 32 data salt 16384 8 8"

definition scrypt_pair :: "cipher \<Rightarrow> data_chunk \<Rightarrow> data_chunk \<Rightarrow> data_chunk" where
  "scrypt_pair K data salt = scrypt_array K 64 data salt 1024 1 1"

definition scrypt_private :: "cipher \<Rightarrow> data_chunk \<Rightarrow> data_chunk \<Rightarrow> data_chunk" where
  "scrypt_private K data salt = scrypt_array K 64 data salt 16384 8 8"

definition set_flags :: "bool \<Rightarrow> bool \<Rightarrow> bool \<Rightarrow> data_chunk" where
  "set_flags cmp lot mult =
     (let b = 0;
          b = if cmp then b OR ec_compressed_key else b;
          b = if lot then b OR lot_sequence_key else b;
          b = if \<not> mult then b OR ec_non_multiplied else b
      in [b])"

subsection \<open>Key pairs\<close>

definition create_private_key ::
  "cipher \<Rightarrow> hash_functions \<Rightarrow> data_chunk \<Rightarrow> data_chunk \<Rightarrow> data_chunk \<Rightarrow> data_chunk \<Rightarrow> data_chunk \<Rightarrow> data_chunk \<Rightarrow> byte \<Rightarrow> encrypted_private" where
  "create_private_key K H fl salt entropy derived1 derived2 seed v =
     (let prefix = private_prefix_factory v True;
          encrypt1 = aes256_encrypt K derived2 (xor_data half seed derived1 0 0);
          combined = slice quarter half encrypt1 @ slice half (half + quarter) seed;
          encrypt2 = aes256_encrypt K derived2 (xor_data half combined derived1 0 half);
          quarter1 = slice 0 quarter encrypt1
      in checked_array H ek_private_decoded_size [prefix, fl, salt, entropy, quarter1, encrypt2])"

definition create_public_key ::
  "cipher \<Rightarrow> 'k secp256k1 \<Rightarrow> hash_functions \<Rightarrow> data_chunk \<Rightarrow> data_chunk \<Rightarrow> data_chunk \<Rightarrow> data_chunk \<Rightarrow> data_chunk \<Rightarrow> ec_secret \<Rightarrow> byte \<Rightarrow>
   encrypted_public option" where
  "create_public_key K C H fl salt entropy derived1 derived2 secret v =
     (case secret_to_public C ec_compressed_size secret of
        None \<Rightarrow> None
      | Some point \<Rightarrow>
          let prefix = public_prefix_factory v;
              hash = point_hash_of point;
              encrypted1 = aes256_encrypt K derived2 (xor_data half hash derived1 0 0);
              encrypted2 = aes256_encrypt K derived2 (xor_data half hash derived1 half half);
              sign = point_sign (hd point) derived2
          in build_checked_array H (replicate encrypted_public_decoded_size 0)
               [prefix, fl, salt, entropy, sign, encrypted1, encrypted2])"

definition create_key_pair ::
  "cipher \<Rightarrow> 'k secp256k1 \<Rightarrow> hash_functions \<Rightarrow> encrypted_token \<Rightarrow> data_chunk \<Rightarrow> byte \<Rightarrow> bool \<Rightarrow>
   (encrypted_private \<times> encrypted_public \<times> ec_point) option" where
  "create_key_pair K C H token seed v cmp =
     (let parse = parse_token H token in
      if \<not> ek_valid parse then None
      else
        let point = tok_sign parse @ tok_data parse;
            factor = bitcoin_hash H seed
        in do {
          point_copy \<leftarrow> ec_multiply C point factor;
          salt \<leftarrow> address_salt H (point_address C H point_copy v cmp);
          let salt_entropy = salt @ tok_entropy parse;
          let (left, right) = split_array (scrypt_pair K point salt_entropy);
          let fl = set_flags cmp (token_lot_sequence parse) True;
          out_public \<leftarrow> create_public_key K C H fl salt (tok_entropy parse) left right factor v;
          Some (create_private_key K H fl salt (tok_entropy parse) left right seed v, out_public, point_copy)
        })"

subsection \<open>Tokens\<close>

definition normal :: "cipher \<Rightarrow> string \<Rightarrow> data_chunk" where
  "normal K passphrase = map of_char (to_normal_nfc_form K passphrase)"

definition build_token ::
  "cipher \<Rightarrow> 'k secp256k1 \<Rightarrow> hash_functions \<Rightarrow> string \<Rightarrow> data_chunk \<Rightarrow> data_chunk \<Rightarrow> data_chunk \<Rightarrow> encrypted_token option" where
  "build_token K C H passphrase salt entropy prefix =
     (let lot = length salt = ek_salt_size;
          factor = scrypt_token K (normal K passphrase) salt;
          factor = if lot then bitcoin_hash H (factor @ entropy) else factor
      in case secret_to_public C ec_compressed_size factor of
           None \<Rightarrow> None
         | Some point \<Rightarrow> build_checked_array H (replicate encrypted_token_decoded_size 0) [prefix, entropy, point])"

definition create_token ::
  "cipher \<Rightarrow> 'k secp256k1 \<Rightarrow> hash_functions \<Rightarrow> string \<Rightarrow> data_chunk \<Rightarrow> encrypted_token option" where
  "create_token K C H passphrase entropy = build_token K C H passphrase entropy entropy (token_prefix_factory False)"

text \<open>
  The lot and the sequence are joined by a logical disjunction, which is 0 or 1, and the outcome of the creation is
  dropped: a token that can not be made leaves the output (\<open>out\<close>) as it was.
\<close>

definition create_token_lot ::
  "cipher \<Rightarrow> 'k secp256k1 \<Rightarrow> hash_functions \<Rightarrow> encrypted_token \<Rightarrow> string \<Rightarrow> data_chunk \<Rightarrow> uint32 \<Rightarrow> uint32 \<Rightarrow> bool \<times> encrypted_token" where
  "create_token_lot K C H out passphrase salt lot sequence =
     (if lot > ek_max_lot \<or> sequence > ek_max_sequence then (False, out)
      else
        let joined = (if push_bit 12 lot \<noteq> 0 \<or> sequence \<noteq> 0 then 1 else 0 :: uint32);
            entropy = salt @ to_big_endian joined;
            prefix = token_prefix_factory True
        in (True, case build_token K C H passphrase salt entropy prefix of Some token \<Rightarrow> token | None \<Rightarrow> out))"

subsection \<open>Encryption and decryption\<close>

definition encrypt ::
  "cipher \<Rightarrow> 'k secp256k1 \<Rightarrow> hash_functions \<Rightarrow> ec_secret \<Rightarrow> string \<Rightarrow> byte \<Rightarrow> bool \<Rightarrow> encrypted_private option" where
  "encrypt K C H secret passphrase v cmp =
     (case address_salt H (secret_address C H secret v cmp) of
        None \<Rightarrow> None
      | Some salt \<Rightarrow>
          let (left, right) = split_array (scrypt_private K (normal K passphrase) salt);
              prefix = private_prefix_factory v False;
              encrypted1 = aes256_encrypt K right (xor_data half secret left 0 0);
              encrypted2 = aes256_encrypt K right (xor_data half secret left half half)
          in build_checked_array H (replicate ek_private_decoded_size 0)
               [prefix, set_flags cmp False False, salt, encrypted1, encrypted2])"

definition decrypt_multiplied ::
  "cipher \<Rightarrow> 'k secp256k1 \<Rightarrow> hash_functions \<Rightarrow> parse_encrypted_private \<Rightarrow> string \<Rightarrow> ec_secret option" where
  "decrypt_multiplied K C H parse passphrase =
     (let secret = scrypt_token K (normal K passphrase) (owner_salt parse);
          secret = if lot_sequence parse then bitcoin_hash H (secret @ ek_entropy parse) else secret
      in do {
        point \<leftarrow> secret_to_public C ec_compressed_size secret;
        let salt_entropy = ek_salt parse @ ek_entropy parse;
        let (left, right) = split_array (scrypt_pair K point salt_entropy);
        let encrypt2 = aes256_decrypt K right (priv_data2 parse);
        let decrypt2 = xor_data half encrypt2 left 0 half;
        let (part_left, part_right) = split_array decrypt2;
        let extended = aes256_decrypt K right (priv_data1 parse @ part_left);
        let decrypt1 = xor_data half extended left 0 0;
        let factor = bitcoin_hash H (decrypt1 @ part_right);
        secret \<leftarrow> ec_multiply_secret C secret factor;
        if \<not> address_validate H (ek_salt parse) (secret_address C H secret (private_address_version parse) (compressed parse)) then None
        else Some secret
      })"

definition decrypt_secret ::
  "cipher \<Rightarrow> 'k secp256k1 \<Rightarrow> hash_functions \<Rightarrow> parse_encrypted_private \<Rightarrow> string \<Rightarrow> ec_secret option" where
  "decrypt_secret K C H parse passphrase =
     (let (left, right) = split_array (scrypt_private K (normal K passphrase) (ek_salt parse));
          encrypt1 = aes256_decrypt K right (ek_entropy parse @ priv_data1 parse);
          encrypt2 = aes256_decrypt K right (priv_data2 parse);
          secret = xor_data 32 (encrypt1 @ encrypt2) left 0 0
      in if \<not> address_validate H (ek_salt parse) (secret_address C H secret (private_address_version parse) (compressed parse)) then None
         else Some secret)"

definition decrypt ::
  "cipher \<Rightarrow> 'k secp256k1 \<Rightarrow> hash_functions \<Rightarrow> encrypted_private \<Rightarrow> string \<Rightarrow> (ec_secret \<times> byte \<times> bool) option" where
  "decrypt K C H key passphrase =
     (let parse = parse_private H key in
      if \<not> ek_valid parse then None
      else
        case if multiplied parse then decrypt_multiplied K C H parse passphrase else decrypt_secret K C H parse passphrase of
          None \<Rightarrow> None
        | Some secret \<Rightarrow> Some (secret, private_address_version parse, compressed parse))"

definition decrypt_public ::
  "cipher \<Rightarrow> 'k secp256k1 \<Rightarrow> hash_functions \<Rightarrow> encrypted_public \<Rightarrow> string \<Rightarrow> (ec_point \<times> byte \<times> bool) option" where
  "decrypt_public K C H key passphrase =
     (let parse = parse_public H key in
      if \<not> ek_valid parse then None
      else
        let v = public_address_version parse;
            factor = scrypt_token K (normal K passphrase) (owner_salt parse);
            factor = if lot_sequence parse then bitcoin_hash H (factor @ ek_entropy parse) else factor
        in do {
          point \<leftarrow> secret_to_public C ec_compressed_size factor;
          let salt_entropy = ek_salt parse @ ek_entropy parse;
          let (left, right) = split_array (scrypt_pair K point salt_entropy);
          let (encrypt_left, encrypt_right) = split_array (conf_data parse);
          let decrypt1 = xor_data half (aes256_decrypt K right encrypt_left) left 0 0;
          let decrypt2 = xor_data half (aes256_decrypt K right encrypt_right) left 0 half;
          let sign_byte = point_sign (hd (conf_sign parse)) right;
          product \<leftarrow> ec_multiply C (sign_byte @ decrypt1 @ decrypt2) factor;
          if \<not> address_validate H (ek_salt parse) (point_address C H product v (compressed parse)) then None
          else Some (product, v, compressed parse)
        })"

subsection \<open>Text\<close>

text \<open>The three classes of text forms differ in the size of their array.\<close>

record ek_text =
  ek_text_valid :: bool
  ek_text_value :: data_chunk

definition ek_null :: "nat \<Rightarrow> ek_text" where
  "ek_null n = \<lparr>ek_text_valid = False, ek_text_value = replicate n 0\<rparr>"

definition ek_of :: "data_chunk \<Rightarrow> ek_text" where
  "ek_of value = \<lparr>ek_text_valid = True, ek_text_value = value\<rparr>"

definition ek_from_string :: "hash_functions \<Rightarrow> nat \<Rightarrow> string \<Rightarrow> ek_text" where
  "ek_from_string H n encoded =
     (case decode_base58_private n encoded of
        Some key \<Rightarrow> if verify_checksum H key then ek_of key else ek_null n
      | None \<Rightarrow> ek_null n)"

definition ek_encoded :: "ek_text \<Rightarrow> string" where
  "ek_encoded key = encode_base58 (ek_text_value key)"

subsection \<open>Arrays of known lengths\<close>

lemma length_xor_data [simp]: "length (xor_data n xs ys i j) = n"
  by (simp add: xor_data_def)

lemma xor_twice: "(a XOR b) XOR b = (a :: byte)"
  by (simp add: xor.assoc)

text \<open>The exclusive or with the same bytes undoes itself.\<close>

lemma xor_data_twice:
  assumes "i + n \<le> length xs"
  shows "xor_data n (xor_data n xs ys i j) ys 0 j = slice i (i + n) xs"
proof -
  have "xor_data n (xor_data n xs ys i j) ys 0 j = map (\<lambda>m. xs ! (m + i)) [0..<n]"
    unfolding xor_data_def by (rule map_cong [OF refl]) (simp add: xor_twice)
  also have "\<dots> = slice i (i + n) xs"
    unfolding slice_def by (rule nth_equalityI) (use assms in \<open>simp_all add: add.commute\<close>)
  finally show ?thesis .
qed

lemma xor_data_append:
  assumes "length xs = n"
  shows "xor_data (n + m) (xs @ xs') ys 0 0 = xor_data n xs ys 0 0 @ xor_data m xs' ys 0 n"
proof -
  have "[0..<n + m] = [0..<n] @ map (\<lambda>i. i + n) [0..<m]" 
    using upt_add_eq_append [of 0 n m] map_add_upt [of n m] by (simp add: add.commute)
  moreover have "map (\<lambda>i. (xs @ xs') ! (i + 0) XOR ys ! (i + 0)) [0..<n] = xor_data n xs ys 0 0"
    unfolding xor_data_def by (rule map_cong [OF refl]) (simp add: assms nth_append)
  moreover have "map (\<lambda>i. (xs @ xs') ! (i + 0) XOR ys ! (i + 0)) (map (\<lambda>i. i + n) [0..<m]) = xor_data m xs' ys 0 n"
    unfolding xor_data_def map_map by (rule map_cong [OF refl]) (simp add: assms nth_append)
  ultimately show ?thesis unfolding xor_data_def [of "n + m"] by (simp only: map_append)
qed

lemma slice_append:
  "length xs = i \<Longrightarrow> slice i j (xs @ ys) = slice 0 (j - i) ys"
  "length xs = n \<Longrightarrow> slice 0 n (xs @ ys) = xs"
  by (simp_all add: slice_def)

lemma slice_all: "length xs = n \<Longrightarrow> slice 0 n xs = xs"
  by (simp add: slice_def)

lemma slice_join: "i \<le> j \<Longrightarrow> j \<le> k \<Longrightarrow> slice i j xs @ slice j k xs = slice i k xs"
proof -
  assume le: "i \<le> j" "j \<le> k"
  have "drop j xs = drop (j - i) (drop i xs)" using le by simp
  moreover have "take (k - i) (drop i xs) = take (j - i) (drop i xs) @ take (k - j) (drop (j - i) (drop i xs))"
    using take_add [of "j - i" "k - j" "drop i xs"] le by simp
  ultimately show ?thesis by (simp add: slice_def)
qed

lemma split_array_append: "length xs = n \<Longrightarrow> length ys = n \<Longrightarrow> split_array (xs @ ys) = (xs, ys)"
  by (simp add: split_array_def Let_def)

lemma checked_slices:
  "length (concat slices) + 4 = n \<Longrightarrow> build_checked_array H (replicate n 0) slices = Some (append_checksum H (concat slices))"
  by (auto simp: build_checked_array_def build_array_def insert_checksum_length [of _ "length (concat slices)"])

lemma cipher_facts:
  assumes "cipher_laws K"
  shows "length b = 16 \<Longrightarrow> length (aes256_encrypt K k b) = 16" "length b = 16 \<Longrightarrow> aes256_decrypt K k (aes256_encrypt K k b) = b"
    "length (scrypt_token K d s) = 32" "length (scrypt_pair K d s) = 64" "length (scrypt_private K d s) = 64"
  using assms by (auto simp: cipher_laws_def scrypt_token_def scrypt_pair_def scrypt_private_def scrypt_array_def scrypt_def)

lemma split_64:
  assumes "length d = 64"
  obtains left right where "split_array d = (left, right)" "length left = 32" "length right = 32"
  using assms by (auto simp: split_array_def Let_def)

text \<open>The flags are read as they were set.\<close>

lemma flags_read:
  "[b] = set_flags c l m \<Longrightarrow> (b AND ec_compressed_key \<noteq> 0) = c \<and> (b AND lot_sequence_key \<noteq> 0) = l \<and> (b AND ec_non_multiplied = 0) = m"
  by (cases c; cases l; cases m) (simp_all add: set_flags_def)

lemma sign_read: "point_sign (hd (point_sign b h)) h = [b]"
  by (simp add: point_sign_def xor.assoc)

subsection \<open>What is written is parsed\<close>

lemma verify_appended [simp]: "verify_checksum H (append_checksum H d)"
  by (auto simp: verify_checksum_iff)

lemma parse_private_written:
  assumes "length p = 2" "length f = 1" "length salt = 4" "length e = 8" "length d1 = 8" "length d2 = 16"
  shows "parse_private H (append_checksum H (p @ f @ salt @ e @ d1 @ d2)) =
    \<lparr>ek_prefix = p, ek_valid = (take 1 p = private_magic), ek_flags = f, ek_salt = salt, ek_entropy = e, priv_data1 = d1, priv_data2 = d2\<rparr>"
proof -
  have "verify_checksum H (append_checksum H (p @ f @ salt @ e @ d1 @ d2))" by simp
  with assms show ?thesis by (simp add: parse_private_def append_checksum_def slice_def)
qed

lemma parse_public_written:
  assumes "length p = 5" "length f = 1" "length salt = 4" "length e = 8" "length g = 1" "length d1 = 16" "length d2 = 16"
  shows "parse_public H (append_checksum H (p @ f @ salt @ e @ g @ d1 @ d2)) =
    \<lparr>ek_prefix = p, ek_valid = (take 4 p = public_magic), ek_flags = f, ek_salt = salt, ek_entropy = e, conf_sign = g, conf_data = d1 @ d2\<rparr>"
proof -
  have "verify_checksum H (append_checksum H (p @ f @ salt @ e @ g @ d1 @ d2))" by simp
  with assms show ?thesis by (simp add: parse_public_def append_checksum_def slice_def)
qed

lemma parse_token_written:
  assumes "length e = 8" "length point = 33"
  shows "parse_token H (append_checksum H (token_prefix_factory lot @ e @ point)) =
    \<lparr>ek_prefix = token_prefix_factory lot, ek_valid = True, tok_entropy = e, tok_sign = [hd point], tok_data = tl point\<rparr>"
proof -
  have "verify_checksum H (append_checksum H (token_prefix_factory lot @ e @ point))" by simp
  moreover have "take 1 point = [hd point]" using assms by (cases point) auto
  ultimately show ?thesis using assms
    by (simp add: parse_token_def append_checksum_def slice_def token_prefix_factory_def token_magic_def Let_def drop_Suc)
qed

subsection \<open>Encrypted secrets\<close>

lemma salt_validates:
  assumes "digest_sizes H" and "address_salt H a = Some salt"
  shows "length salt = 4" "address_validate H salt a"
  using assms by (auto simp: address_salt_def address_validate_def slice_def address_hash_def bitcoin_hash_def digest_sizes_def split: if_splits)

lemma private_version:
  assumes "ek_prefix parse = private_prefix_factory v (multiplied parse)"
  shows "private_address_version parse = v"
  using assms by (simp add: private_address_version_def prefix_context_def private_prefix_factory_def Let_def)

lemma secret_address_point:
  assumes "secret_to_public C 33 s = Some p"
  shows "secret_address C H s v cmp = point_address C H p v cmp"
proof -
  have "(0x00FF :: uint16) = mask 8" by (simp add: mask_eq_exp_minus_1)
  then have "to_address_prefix (ucast v) = ucast (take_bit 8 (ucast v :: uint16))"
    unfolding to_address_prefix_def by (simp only: take_bit_eq_mask)
  also have "\<dots> = v" by (intro bit_word_eqI) (simp add: bit_simps)
  finally have "to_address_prefix (ucast v) = v" .
  then show ?thesis
    by (simp add: secret_address_def point_address_def from_private_def ec_private_of_secret_def ec_private_to_public_def assms)
qed

text \<open>
  A secret encrypted with a passphrase decrypts with it, to the same secret, address
  version and compression.
\<close>

theorem encrypt_decrypts:
  assumes "cipher_laws K" and "digest_sizes H" and "length secret = 32" and "encrypt K C H secret passphrase v cmp = Some key"
  shows "decrypt K C H key passphrase = Some (secret, v, cmp)"
proof -
  obtain salt where salt: "address_salt H (secret_address C H secret v cmp) = Some salt"
    using assms(4) by (auto simp: encrypt_def split: option.splits)
  note valid = salt_validates [OF assms(2) salt]
  obtain left right where d: "split_array (scrypt_private K (normal K passphrase) salt) = (left, right)" "length left = 32"
    using split_64 [OF cipher_facts(5) [OF assms(1)]] by metis
  define e1 e2 where e: "e1 = aes256_encrypt K right (xor_data half secret left 0 0)"
    "e2 = aes256_encrypt K right (xor_data half secret left half half)"
  have len: "length e1 = 16" "length e2 = 16" by (simp_all add: e cipher_facts [OF assms(1)])
  obtain b where b: "set_flags cmp False False = [b]" by (simp add: set_flags_def Let_def)
  have "key = append_checksum H (private_prefix_factory v False @ [b] @ salt @ take 8 e1 @ drop 8 e1 @ e2)"
    using assms(4) valid(1) len append_take_drop_id [of 8 e1, symmetric]
    unfolding append_assoc [of "take 8 e1", symmetric] append_take_drop_id
    by (simp add: encrypt_def salt d e [symmetric] b checked_slices private_prefix_factory_def private_magic_def Let_def)
  then have parse: "parse_private H key = \<lparr>ek_prefix = private_prefix_factory v False, ek_valid = True, ek_flags = [b], ek_salt = salt,
      ek_entropy = take 8 e1, priv_data1 = drop 8 e1, priv_data2 = e2\<rparr>" (is "_ = ?parse")
    using parse_private_written [of "private_prefix_factory v False" "[b]" salt "take 8 e1" "drop 8 e1" e2 H] valid(1) len
    by (simp add: private_prefix_factory_def private_magic_def Let_def)
  have flags: "compressed ?parse = cmp" "\<not> multiplied ?parse"
    using flags_read [OF b [symmetric]] by (simp_all add: compressed_def multiplied_def flags_def)
  then have v: "private_address_version ?parse = v" by (intro private_version) simp
  have "xor_data 32 (aes256_decrypt K right e1 @ aes256_decrypt K right e2) left 0 0 = slice 0 16 secret @ slice 16 32 secret"
    using xor_data_append [of "xor_data half secret left 0 0" 16 16 "xor_data half secret left half half" left] assms(3)
      xor_data_twice [of 0 16 secret left 0] xor_data_twice [of 16 16 secret left 16]
    by (simp add: e cipher_facts [OF assms(1)])
  also have "\<dots> = secret" using assms(3) by (simp add: slice_join slice_all)
  finally have "decrypt_secret K C H ?parse passphrase = Some secret"
    using valid by (simp add: decrypt_secret_def d v flags)
  then show ?thesis by (simp add: decrypt_def parse flags v)
qed

text \<open>Encryption fails only for a secret that has no address.\<close>

lemma encrypt_succeeds:
  assumes "cipher_laws K" and "digest_sizes H" and "addr_valid (secret_address C H secret v cmp)"
  shows "\<exists>key. encrypt K C H secret passphrase v cmp = Some key"
proof -
  obtain salt where salt: "address_salt H (secret_address C H secret v cmp) = Some salt" using assms(3) by (simp add: address_salt_def)
  obtain left right where d: "split_array (scrypt_private K (normal K passphrase) salt) = (left, right)" by fastforce
  show ?thesis
    by (simp add: encrypt_def salt d checked_slices private_prefix_factory_def private_magic_def set_flags_def Let_def
        cipher_facts [OF assms(1)] salt_validates(1) [OF assms(2) salt])
qed

text \<open>An instance: the cipher turns blocks around, the derivation pads the data.\<close>

definition example_cipher :: cipher where
  "example_cipher = \<lparr>aes256_encrypt = (\<lambda>key. rev), aes256_decrypt = (\<lambda>key. rev),
     crypto_scrypt = (\<lambda>data salt N r p n. take n (data @ salt @ replicate n 7)), to_normal_nfc_form = id\<rparr>"

lemma example_cipher_laws: "cipher_laws example_cipher"
  by (auto simp: cipher_laws_def example_cipher_def min_def)

lemma example_address:
  "length s = 32 \<Longrightarrow> addr_valid (secret_address example_secp H s v True)"
  by (simp add: secret_address_point [OF example_keys] point_address_def from_public_def ec_public_of_point_def ec_public_to_data_def
      payment_address_of_def)

theorem encrypt_decrypts_witness:
  "\<exists>key. encrypt example_cipher example_secp example_digests (replicate 32 7) ''pass'' 0 True = Some key \<and>
    decrypt example_cipher example_secp example_digests key ''pass'' = Some (replicate 32 7, 0, True)"
proof -
  obtain key where "encrypt example_cipher example_secp example_digests (replicate 32 7) ''pass'' 0 True = Some key"
    using encrypt_succeeds [OF example_cipher_laws example_digest_sizes example_address] by fastforce
  with encrypt_decrypts [OF example_cipher_laws example_digest_sizes _ this] show ?thesis by simp
qed

text \<open>The text form of a key or token that has its checksum reads back.\<close>

lemma ek_text_round_trip:
  assumes "length key = n" and "verify_checksum H key"
  shows "ek_from_string H n (ek_encoded (ek_of key)) = ek_of key"
  using assms by (simp add: ek_from_string_def ek_encoded_def ek_of_def decode_base58_private_def decode_encode_base58)

subsection \<open>Key pairs from tokens\<close>

text \<open>Multiplying a secret multiplies its point.\<close>

definition multiply_law :: "'k secp256k1 \<Rightarrow> bool" where
  "multiply_law C \<longleftrightarrow> (\<forall>s k t. ec_pubkey_create C s = Some k \<longrightarrow>
     ec_pubkey_tweak_mul C k t = (case ec_privkey_tweak_mul C s t of None \<Rightarrow> None | Some s' \<Rightarrow> ec_pubkey_create C s'))"

lemma ec_multiply_secret_of:
  assumes "curve_laws C" and "multiply_law C" and "secret_to_public C 33 s = Some p" and "ec_multiply C p t = Some p'"
  shows "\<exists>s'. ec_multiply_secret C s t = Some s' \<and> secret_to_public C 33 s' = Some p'"
proof -
  obtain k where k: "ec_pubkey_create C s = Some k" "p = ec_pubkey_serialize C True k"
    using assms(3) by (auto simp: secret_to_public_def serialize_point_def Let_def split: option.splits if_splits)
  have "length p = 33" "ec_pubkey_parse C p = Some k" using assms(1) k(2) by (auto simp: curve_laws_def)
  moreover have "ec_pubkey_tweak_mul C k t = (case ec_privkey_tweak_mul C s t of None \<Rightarrow> None | Some s' \<Rightarrow> ec_pubkey_create C s')"
    using assms(2) k(1) unfolding multiply_law_def by blast
  ultimately show ?thesis
    using assms(4) by (auto simp: ec_multiply_def ec_multiply_secret_def secret_to_public_def split: option.splits)
qed

lemma ec_multiply_commutes:
  assumes "curve_laws C" and "agreement_law C" and "secret_to_public C 33 s = Some ps" and "secret_to_public C 33 t = Some pt"
  shows "ec_multiply C ps t = ec_multiply C pt s"
proof -
  obtain ks kt where create: "ec_pubkey_create C s = Some ks" "ec_pubkey_create C t = Some kt"
    and points: "ps = ec_pubkey_serialize C True ks" "pt = ec_pubkey_serialize C True kt"
    using assms(3,4) by (auto simp: secret_to_public_def serialize_point_def Let_def split: option.splits if_splits)
  have "ec_pubkey_tweak_mul C ks t = ec_pubkey_tweak_mul C kt s" using assms(2) create unfolding agreement_law_def by blast
  then show ?thesis using assms(1) by (simp add: ec_multiply_def points curve_points split: option.split)
qed

lemma secret_to_public_length: "curve_laws C \<Longrightarrow> secret_to_public C 33 s = Some p \<Longrightarrow> length p = 33"
  by (auto simp: secret_to_public_def serialize_point_def Let_def split: option.splits if_splits)

text \<open>
  The private key made for a token decrypts to the product of the owner's secret and the factor of the seed.
\<close>

lemma private_of_seed:
  assumes laws: "cipher_laws K" and sizes: "length salt = 4" "length entropy = 8" "length seed = 24"
    and owner: "owner = (if lot then take 4 entropy else entropy)"
    and secret: "s = (if lot then bitcoin_hash H (scrypt_token K (normal K passphrase) owner @ entropy)
      else scrypt_token K (normal K passphrase) owner)"
    and point: "secret_to_public C 33 s = Some P"
    and derived: "split_array (scrypt_pair K P (salt @ entropy)) = (left, right)"
    and product: "ec_multiply_secret C s (bitcoin_hash H seed) = Some s'" and valid: "address_validate H salt (secret_address C H s' v cmp)"
  shows "decrypt K C H (create_private_key K H (set_flags cmp lot True) salt entropy left right seed v) passphrase = Some (s', v, cmp)"
proof -
  define e1 where "e1 = aes256_encrypt K right (xor_data half seed left 0 0)"
  define combined where "combined = slice 8 16 e1 @ slice 16 24 seed"
  define e2 where "e2 = aes256_encrypt K right (xor_data half combined left 0 half)"
  have len: "length e1 = 16" "length e2 = 16" "length (slice 0 8 e1) = 8" "length combined = 16"
    using sizes by (simp_all add: e1_def e2_def combined_def cipher_facts [OF laws] slice_def)
  obtain b where b: "set_flags cmp lot True = [b]" by (simp add: set_flags_def Let_def)
  have key: "create_private_key K H [b] salt entropy left right seed v =
      append_checksum H (private_prefix_factory v True @ [b] @ salt @ entropy @ slice 0 8 e1 @ e2)"
    using sizes len
    by (simp add: create_private_key_def checked_array_def e1_def [symmetric] combined_def [symmetric] e2_def [symmetric]
        checked_slices private_prefix_factory_def private_magic_def Let_def)
  have parse: "parse_private H (create_private_key K H [b] salt entropy left right seed v) =
      \<lparr>ek_prefix = private_prefix_factory v True, ek_valid = True, ek_flags = [b], ek_salt = salt,
       ek_entropy = entropy, priv_data1 = slice 0 8 e1, priv_data2 = e2\<rparr>" (is "_ = ?parse")
    unfolding key by (subst parse_private_written) (use sizes len in \<open>simp_all add: private_prefix_factory_def private_magic_def Let_def\<close>)
  have flags: "compressed ?parse = cmp" "multiplied ?parse" "lot_sequence ?parse = lot"
    using flags_read [OF b [symmetric]] by (simp_all add: compressed_def multiplied_def lot_sequence_def flags_def)
  then have v: "private_address_version ?parse = v" by (intro private_version) simp
  have "xor_data half (aes256_decrypt K right e2) left 0 half = combined"
    using xor_data_twice [of 0 16 combined left 16] len by (simp add: e2_def cipher_facts [OF laws] slice_all)
  moreover have "split_array combined = (slice 8 16 e1, slice 16 24 seed)"
    unfolding combined_def by (rule split_array_append [of _ 8]) (use sizes len in \<open>simp_all add: slice_def\<close>)
  moreover have "slice 0 8 e1 @ slice 8 16 e1 = e1" using len by (simp add: slice_join slice_all)
  moreover have "xor_data half (aes256_decrypt K right e1) left 0 0 = slice 0 16 seed"
    using xor_data_twice [of 0 16 seed left 0] sizes by (simp add: e1_def cipher_facts [OF laws])
  moreover have "slice 0 16 seed @ slice 16 24 seed = seed" using sizes by (simp add: slice_join slice_all)
  moreover have "owner_salt ?parse = owner" using owner flags(3) by (simp add: owner_salt_def slice_def)
  ultimately have "decrypt_multiplied K C H ?parse passphrase = Some s'"
    using point secret product valid
    by (simp add: decrypt_multiplied_def Let_def flags v derived cong: if_cong)
  then show ?thesis by (simp add: decrypt_def b parse flags v)
qed

text \<open>The confirmation of the same key decrypts to its point.\<close>

lemma public_of_seed:
  assumes laws: "cipher_laws K" "curve_laws C" and sizes: "length salt = 4" "length entropy = 8"
    and owner: "owner = (if lot then take 4 entropy else entropy)"
    and secret: "s = (if lot then bitcoin_hash H (scrypt_token K (normal K passphrase) owner @ entropy)
      else scrypt_token K (normal K passphrase) owner)"
    and point: "secret_to_public C 33 s = Some P"
    and derived: "split_array (scrypt_pair K P (salt @ entropy)) = (left, right)"
    and made: "create_public_key K C H (set_flags cmp lot True) salt entropy left right f v = Some key"
    and product: "secret_to_public C 33 f = Some Q" "ec_multiply C Q s = Some point'"
    and valid: "address_validate H salt (point_address C H point' v cmp)"
  shows "decrypt_public K C H key passphrase = Some (point', v, cmp)"
proof -
  define hash where "hash = point_hash_of Q"
  have len33: "length Q = 33" using secret_to_public_length [OF laws(2) product(1)] .
  define e1 e2 where e: "e1 = aes256_encrypt K right (xor_data half hash left 0 0)" "e2 = aes256_encrypt K right (xor_data half hash left half half)"
  have len: "length e1 = 16" "length e2 = 16" "length hash = 32"
    using len33 by (simp_all add: e hash_def point_hash_of_def cipher_facts [OF laws(1)] slice_def)
  obtain b where b: "set_flags cmp lot True = [b]" by (simp add: set_flags_def Let_def)
  obtain g where g: "point_sign (hd Q) right = [g]" by (simp add: point_sign_def)
  have key: "key = append_checksum H (public_prefix_factory v @ [b] @ salt @ entropy @ [g] @ e1 @ e2)"
    using made sizes len
    by (simp add: create_public_key_def product(1) hash_def [symmetric] e [symmetric] b g
        checked_slices public_prefix_factory_def public_magic_def Let_def)
  have parse: "parse_public H key = \<lparr>ek_prefix = public_prefix_factory v, ek_valid = True, ek_flags = [b], ek_salt = salt,
       ek_entropy = entropy, conf_sign = [g], conf_data = e1 @ e2\<rparr>" (is "_ = ?parse")
    unfolding key by (subst parse_public_written) (use sizes len in \<open>simp_all add: public_prefix_factory_def public_magic_def\<close>)
  have flags: "compressed ?parse = cmp" "lot_sequence ?parse = lot"
    using flags_read [OF b [symmetric]] by (simp_all add: compressed_def lot_sequence_def flags_def)
  have v: "public_address_version ?parse = v"
    by (simp add: public_address_version_def prefix_context_def public_prefix_factory_def)
  have "xor_data half (aes256_decrypt K right e1) left 0 0 = slice 0 16 hash" "xor_data half (aes256_decrypt K right e2) left 0 half = slice 16 32 hash"
    using xor_data_twice [of 0 16 hash left 0] xor_data_twice [of 16 16 hash left 16] len by (simp_all add: e cipher_facts [OF laws(1)])
  moreover have "point_sign g right = [hd Q]" using sign_read [of "hd Q" right] by (simp add: g)
  moreover have "[hd Q] @ slice 0 16 hash @ slice 16 32 hash = Q"
    using len33 len(3) by (cases Q) (simp_all add: slice_join slice_all hash_def point_hash_of_def slice_def)
  moreover have "owner_salt ?parse = owner" using owner flags(2) by (simp add: owner_salt_def slice_def)
  ultimately show ?thesis
    using point secret product valid len
    by (simp add: decrypt_public_def Let_def parse flags v derived split_array_append cong: if_cong)
qed

lemma build_token_written:
  assumes "curve_laws C" and "length entropy = 8" and "build_token K C H passphrase salt entropy (token_prefix_factory lot) = Some token"
  obtains P where "secret_to_public C 33 (if length salt = 4 then bitcoin_hash H (scrypt_token K (normal K passphrase) salt @ entropy)
      else scrypt_token K (normal K passphrase) salt) = Some P"
    and "parse_token H token = \<lparr>ek_prefix = token_prefix_factory lot, ek_valid = True, tok_entropy = entropy, tok_sign = [hd P], tok_data = tl P\<rparr>"
    and "[hd P] @ tl P = P"
proof -
  let ?s = "if length salt = 4 then bitcoin_hash H (scrypt_token K (normal K passphrase) salt @ entropy)
      else scrypt_token K (normal K passphrase) salt"
  obtain P where P: "secret_to_public C 33 ?s = Some P"
    and token: "build_checked_array H (replicate 53 0) [token_prefix_factory lot, entropy, P] = Some token"
    using assms(3) unfolding build_token_def Let_def by (auto split: option.splits)
  have len: "length P = 33" using secret_to_public_length [OF assms(1) P] .
  then have "token = append_checksum H (token_prefix_factory lot @ entropy @ P)"
    using token assms(2) by (simp add: checked_slices token_prefix_factory_def token_magic_def)
  with parse_token_written [OF assms(2) len] have "parse_token H token =
      \<lparr>ek_prefix = token_prefix_factory lot, ek_valid = True, tok_entropy = entropy, tok_sign = [hd P], tok_data = tl P\<rparr>" by simp
  moreover have "[hd P] @ tl P = P" using len by (cases P) auto
  ultimately show thesis using that P by blast
qed

text \<open>A token as the owner of a passphrase makes it, without or with a lot.\<close>

definition token_of ::
  "cipher \<Rightarrow> 'k secp256k1 \<Rightarrow> hash_functions \<Rightarrow> string \<Rightarrow> encrypted_token \<Rightarrow> bool" where
  "token_of K C H passphrase token \<longleftrightarrow>
     (\<exists>entropy. length entropy = 8 \<and> create_token K C H passphrase entropy = Some token) \<or>
     (\<exists>out salt lot sequence. length salt = 4 \<and> create_token_lot K C H out passphrase salt lot sequence = (True, token) \<and> token \<noteq> out)"

lemma token_built:
  assumes "token_of K C H passphrase token"
  obtains lot entropy where "length entropy = 8"
    and "build_token K C H passphrase (if lot then take 4 entropy else entropy) entropy (token_prefix_factory lot) = Some token"
proof -
  consider (plain) entropy where "length entropy = 8" "create_token K C H passphrase entropy = Some token"
    | (lot) out salt lot sequence where "length salt = 4" "create_token_lot K C H out passphrase salt lot sequence = (True, token)" "token \<noteq> out"
    using assms by (auto simp: token_of_def)
  then show thesis
  proof cases
    case plain
    then show ?thesis using that [of entropy False] by (simp add: create_token_def)
  next
    case lot
    let ?e = "salt @ to_big_endian (if push_bit 12 lot \<noteq> 0 \<or> sequence \<noteq> 0 then 1 else 0 :: uint32)"
    let ?b = "build_token K C H passphrase salt ?e (token_prefix_factory True)"
    have "(if lot > ek_max_lot \<or> sequence > ek_max_sequence then (False, out)
        else (True, case ?b of Some token \<Rightarrow> token | None \<Rightarrow> out)) = (True, token)"
      using lot(2) unfolding create_token_lot_def Let_def .
    then have "?b = Some token" using lot(3) by (cases ?b) (simp_all only: option.simps split: if_splits, simp_all)
    then show ?thesis using that [of ?e True] lot(1) by (simp add: to_big_endian_def)
  qed
qed

text \<open>
  C32. Who holds only the token of a passphrase can make key pairs for its owner: the
  private key decrypts under the passphrase to a secret of the point that was announced, and
  the confirmation decrypts to that point, both with the version and the compression that
  were asked for.
\<close>

theorem key_pair_decrypts:
  assumes "cipher_laws K" and "curve_laws C" and "agreement_law C" and "multiply_law C" and "digest_sizes H"
    and "token_of K C H passphrase token" and "length seed = 24"
    and "create_key_pair K C H token seed v cmp = Some (priv, pub, point)"
  shows "\<exists>secret. decrypt K C H priv passphrase = Some (secret, v, cmp) \<and> secret_to_public C 33 secret = Some point \<and>
    decrypt_public K C H pub passphrase = Some (point, v, cmp)"
proof -
  obtain lot entropy where e: "length entropy = 8"
    and built: "build_token K C H passphrase (if lot then take 4 entropy else entropy) entropy (token_prefix_factory lot) = Some token"
    using token_built [OF assms(6)] .
  let ?owner = "if lot then take 4 entropy else entropy"
  define s where "s = (if lot then bitcoin_hash H (scrypt_token K (normal K passphrase) ?owner @ entropy)
      else scrypt_token K (normal K passphrase) ?owner)"
  have lot: "(length ?owner = 4) = lot" using e by simp
  obtain P where P: "secret_to_public C 33 s = Some P" "[hd P] @ tl P = P"
    and parse: "parse_token H token = \<lparr>ek_prefix = token_prefix_factory lot, ek_valid = True, tok_entropy = entropy, tok_sign = [hd P], tok_data = tl P\<rparr>"
    using build_token_written [OF assms(2) e built] unfolding lot s_def [symmetric] by metis
  have "token_lot_sequence (parse_token H token) = lot"
    by (simp add: parse token_lot_sequence_def prefix_context_def token_prefix_factory_def)
  then obtain salt left right where made: "ec_multiply C P (bitcoin_hash H seed) = Some point"
    "address_salt H (point_address C H point v cmp) = Some salt"
    "split_array (scrypt_pair K P (salt @ entropy)) = (left, right)"
    "create_public_key K C H (set_flags cmp lot True) salt entropy left right (bitcoin_hash H seed) v = Some pub"
    "priv = create_private_key K H (set_flags cmp lot True) salt entropy left right seed v"
    using assms(8) P(2) by (auto simp: create_key_pair_def parse Let_def bind_eq_Some_conv case_prod_beta intro: prod.collapse [symmetric])
  note valid = salt_validates [OF assms(5) made(2)]
  obtain s' where s': "ec_multiply_secret C s (bitcoin_hash H seed) = Some s'" "secret_to_public C 33 s' = Some point"
    using ec_multiply_secret_of [OF assms(2,4) P(1) made(1)] by blast
  obtain Q where Q: "secret_to_public C 33 (bitcoin_hash H seed) = Some Q"
    using made(4) by (auto simp: create_public_key_def split: option.splits)
  have "decrypt K C H priv passphrase = Some (s', v, cmp)"
    unfolding made(5) by (rule private_of_seed [OF assms(1) valid(1) e assms(7) refl s_def P(1) made(3) s'(1)])
      (simp add: secret_address_point [OF s'(2)] valid)
  moreover have "decrypt_public K C H pub passphrase = Some (point, v, cmp)"
    using public_of_seed [OF assms(1,2) valid(1) e refl s_def P(1) made(3,4) Q _ valid(2)]
      ec_multiply_commutes [OF assms(2,3) P(1) Q] made(1) by simp
  ultimately show ?thesis using s'(2) by blast
qed

lemma example_multiply: "multiply_law example_secp"
  by (auto simp: multiply_law_def example_secp_def le_val_256)

theorem key_pair_decrypts_witness:
  "\<exists>token priv pub point secret. create_token example_cipher example_secp example_digests ''pass'' (replicate 8 5) = Some token \<and>
    create_key_pair example_cipher example_secp example_digests token (replicate 24 3) 0 True = Some (priv, pub, point) \<and>
    decrypt example_cipher example_secp example_digests priv ''pass'' = Some (secret, 0, True) \<and>
    secret_to_public example_secp 33 secret = Some point \<and>
    decrypt_public example_cipher example_secp example_digests pub ''pass'' = Some (point, 0, True)"
proof -
  let ?K = example_cipher and ?C = example_secp and ?H = example_digests
  obtain token where token: "create_token ?K ?C ?H ''pass'' (replicate 8 5) = Some token"
    by (simp add: create_token_def build_token_def example_keys cipher_facts [OF example_cipher_laws] checked_slices
        token_prefix_factory_def token_magic_def)
  then have of: "token_of ?K ?C ?H ''pass'' token" by (auto simp: token_of_def intro!: exI [of _ "replicate 8 5"])
  let ?s = "scrypt_token ?K (normal ?K ''pass'') (replicate 8 5)"
  obtain P where P: "secret_to_public ?C 33 ?s = Some P" "[hd P] @ tl P = P" and parse: "parse_token ?H token =
      \<lparr>ek_prefix = token_prefix_factory False, ek_valid = True, tok_entropy = replicate 8 5, tok_sign = [hd P], tok_data = tl P\<rparr>"
    using build_token_written [OF example_secp_laws, of "replicate 8 5" ?K ?H "''pass''" "replicate 8 5" False token] token
    by (auto simp: create_token_def)
  have "P = 2 # ?s" using P(1) by (simp add: example_keys cipher_facts [OF example_cipher_laws])
  then have "ec_multiply ?C P f = Some (2 # to_little_endian (of_nat (le_val ?s) * of_nat (le_val f) :: 256 word))" for f
    by (simp add: ec_multiply_def example_secp_def serialize_point_def le_val_256 cipher_facts [OF example_cipher_laws])
  then obtain point where point: "ec_multiply ?C P (bitcoin_hash ?H (replicate 24 3)) = Some point" by blast
  have valid: "addr_valid (point_address ?C ?H point 0 True)"
    by (simp add: point_address_def from_public_def ec_public_of_point_def ec_public_to_data_def payment_address_of_def)
  then obtain salt where salt: "address_salt ?H (point_address ?C ?H point 0 True) = Some salt" by (simp add: address_salt_def)
  have "create_public_key ?K ?C ?H (set_flags True False True) salt (replicate 8 5) left right (bitcoin_hash ?H (replicate 24 3)) 0 \<noteq> None"
    for left right
    using salt_validates(1) [OF example_digest_sizes salt]
    by (simp add: create_public_key_def example_keys bitcoin_hash_def example_digests_def checked_slices public_prefix_factory_def
        public_magic_def set_flags_def point_sign_def cipher_facts [OF example_cipher_laws] Let_def)
  then have "create_key_pair ?K ?C ?H token (replicate 24 3) 0 True \<noteq> None"
    using P(2) by (auto simp: create_key_pair_def parse point salt token_lot_sequence_def prefix_context_def token_prefix_factory_def
        case_prod_beta Let_def bind_eq_None_conv)
  then obtain priv pub point where made: "create_key_pair ?K ?C ?H token (replicate 24 3) 0 True = Some (priv, pub, point)" by auto
  from key_pair_decrypts [OF example_cipher_laws example_secp_laws example_agreement example_multiply example_digest_sizes of _ made]
  show ?thesis using token made by auto
qed

subsection \<open>Lots\<close>

text \<open>
  The lot and the sequence do not get into a token: all sequences but zero give the token of the sequence one, whatever the
  lot.
\<close>

lemma lot_token_collapses:
  assumes "lot \<le> 1048575" and "0 < sequence" and "sequence \<le> 4095"
  shows "create_token_lot K C H out passphrase salt lot sequence = create_token_lot K C H out passphrase salt 0 1"
  using assms by (simp add: create_token_lot_def Let_def linorder_not_le [symmetric] word_gt_0)

text \<open>A token for a lot whose point does not exist is reported as made although nothing was written.\<close>

lemma lot_token_not_written:
  assumes "lot \<le> 1048575" and "sequence \<le> 4095" and "length salt = 4" and "\<And>s. secret_to_public C 33 s = None"
  shows "create_token_lot K C H out passphrase salt lot sequence = (True, out)"
  using assms by (simp add: create_token_lot_def build_token_def Let_def linorder_not_le [symmetric])

end
