(* ===== verification/Word_List.thy ===== *)
theory Word_List
  imports Binary Hash Mnemonic
begin

unbundle bit_operations_syntax

text \<open>
  Mnemonic words (bip39): \<^verbatim>\<open>src/wallet/mnemonic.cpp\<close>.  Entropy followed by some bits of its hash is cut into groups of
  eleven bits, each the position of a word in a dictionary of 2048 words.  The dictionaries (data) are an argument, and
  so are the vendored key derivation and the unicode normalization.  A read past the end of the data is \<open>None\<close>.
\<close>

type_synonym dictionary = "string list"

abbreviation (input) dictionary_size :: nat where "dictionary_size \<equiv> 2048"
abbreviation (input) mnemonic_word_multiple :: nat where "mnemonic_word_multiple \<equiv> 3"
abbreviation (input) mnemonic_seed_multiple :: nat where "mnemonic_seed_multiple \<equiv> 4"
abbreviation (input) bits_per_word :: nat where "bits_per_word \<equiv> 11"
abbreviation (input) entropy_bit_divisor :: nat where "entropy_bit_divisor \<equiv> 32"
abbreviation (input) hmac_iterations :: nat where "hmac_iterations \<equiv> 2048"

definition bip39_shift :: "nat \<Rightarrow> byte" where
  "bip39_shift n = push_bit (8 - n mod 8 - 1) 1"

fun find_position :: "string list \<Rightarrow> string \<Rightarrow> nat option" where
  "find_position [] value = None"
| "find_position (x # xs) value = (if x = value then Some 0 else map_option Suc (find_position xs value))"

subsection \<open>Creation\<close>

text \<open>The position of a word, from the bits of the data that start at bit number \<open>n\<close>; \<open>left\<close> bits are still to be read.\<close>

fun position_loop :: "data_chunk \<Rightarrow> nat \<Rightarrow> nat \<Rightarrow> nat \<Rightarrow> nat option" where
  "position_loop data 0 n position = Some position"
| "position_loop data (Suc left) n position =
     (let position = 2 * position; byte = n div 8 in
      if byte \<ge> length data then None
      else position_loop data left (n + 1) (if data ! byte AND bip39_shift n > 0 then position + 1 else position))"

fun words_loop :: "dictionary \<Rightarrow> data_chunk \<Rightarrow> nat list \<Rightarrow> string list option" where
  "words_loop lexicon data [] = Some []"
| "words_loop lexicon data (w # ws) =
     (case position_loop data bits_per_word (w * bits_per_word) 0 of
        None \<Rightarrow> None
      | Some position \<Rightarrow> map_option ((#) (lexicon ! position)) (words_loop lexicon data ws))"

definition create_mnemonic :: "hash_functions \<Rightarrow> data_chunk \<Rightarrow> dictionary \<Rightarrow> string list option" where
  "create_mnemonic H entropy lexicon =
     (if length entropy mod mnemonic_seed_multiple \<noteq> 0 then Some []
      else
        let entropy_bits = length entropy * 8;
            check_bits = entropy_bits div entropy_bit_divisor;
            total_bits = entropy_bits + check_bits;
            word_count = total_bits div bits_per_word;
            data = entropy @ sha256_hash H entropy
        in words_loop lexicon data [0..<word_count])"

subsection \<open>Validation\<close>

fun set_position :: "nat \<Rightarrow> nat \<Rightarrow> nat \<Rightarrow> data_chunk \<Rightarrow> data_chunk" where
  "set_position position 0 n data = data"
| "set_position position (Suc left) n data =
     set_position position left (n + 1)
       (if bit position left then data[n div 8 := data ! (n div 8) OR bip39_shift n] else data)"

fun validate_loop :: "dictionary \<Rightarrow> string list \<Rightarrow> nat \<Rightarrow> data_chunk \<Rightarrow> data_chunk option" where
  "validate_loop lexicon [] n data = Some data"
| "validate_loop lexicon (w # ws) n data =
     (case find_position lexicon w of
        None \<Rightarrow> None
      | Some position \<Rightarrow> validate_loop lexicon ws (n + bits_per_word) (set_position position bits_per_word n data))"

text \<open>The final comparison runs over the words that were created.\<close>

definition validate_mnemonic :: "hash_functions \<Rightarrow> string list \<Rightarrow> dictionary \<Rightarrow> bool option" where
  "validate_mnemonic H ws lexicon =
     (if length ws mod mnemonic_word_multiple \<noteq> 0 then Some False
      else
        let total_bits = bits_per_word * length ws;
            check_bits = total_bits div (entropy_bit_divisor + 1);
            entropy_bits = total_bits - check_bits
        in case validate_loop lexicon ws 0 (replicate ((total_bits + 8 - 1) div 8) 0) of
             None \<Rightarrow> Some False
           | Some data \<Rightarrow>
               map_option (\<lambda>created. length created \<le> length ws \<and> take (length created) ws = created)
                 (create_mnemonic H (resize_blocks (entropy_bits div 8) data) lexicon))"

fun validate_any :: "hash_functions \<Rightarrow> string list \<Rightarrow> dictionary list \<Rightarrow> bool option" where
  "validate_any H ws [] = Some False"
| "validate_any H ws (lexicon # lexicons) =
     (case validate_mnemonic H ws lexicon of None \<Rightarrow> None | Some valid \<Rightarrow> if valid then Some True else validate_any H ws lexicons)"

subsection \<open>Seeds\<close>

definition decode_mnemonic ::
  "(data_chunk \<Rightarrow> data_chunk \<Rightarrow> nat \<Rightarrow> data_chunk) \<Rightarrow> string list \<Rightarrow> data_chunk" where
  "decode_mnemonic pbkdf2 mnemonic =
     pbkdf2 (map of_char (join_text mnemonic '' '')) (map of_char ''mnemonic'') hmac_iterations"

definition decode_mnemonic_passphrase ::
  "(data_chunk \<Rightarrow> data_chunk \<Rightarrow> nat \<Rightarrow> data_chunk) \<Rightarrow> (string \<Rightarrow> string) \<Rightarrow> string list \<Rightarrow> string \<Rightarrow> data_chunk" where
  "decode_mnemonic_passphrase pbkdf2 to_normal_nfkd_form mnemonic passphrase =
     pbkdf2 (map of_char (join_text mnemonic '' '')) (map of_char (to_normal_nfkd_form (''mnemonic'' @ passphrase))) hmac_iterations"

subsection \<open>Bits\<close>

lemma bit_shift: "i < 8 \<Longrightarrow> bit (bip39_shift n) i \<longleftrightarrow> i = 7 - n mod 8"
  by (auto simp: bip39_shift_def bit_simps)

lemma shift_test:
  assumes "n div 8 < length data"
  shows "data ! (n div 8) AND bip39_shift n > 0 \<longleftrightarrow> bit_at data n"
proof -
  have "data ! (n div 8) AND bip39_shift n \<noteq> 0 \<longleftrightarrow> bit (data ! (n div 8)) (7 - n mod 8)"
  proof
    assume "data ! (n div 8) AND bip39_shift n \<noteq> 0"
    then obtain i where "bit (data ! (n div 8) AND bip39_shift n) i" using bit_eqI [of "data ! (n div 8) AND bip39_shift n" 0] by auto
    moreover from this have "i < 8" using bit_imp_le_length [of "data ! (n div 8)" i] by (auto simp: bit_simps)
    ultimately show "bit (data ! (n div 8)) (7 - n mod 8)" by (auto simp: bit_simps bit_shift)
  next
    assume "bit (data ! (n div 8)) (7 - n mod 8)"
    then have "bit (data ! (n div 8) AND bip39_shift n) (7 - n mod 8)" by (simp add: bit_simps bit_shift)
    then show "data ! (n div 8) AND bip39_shift n \<noteq> 0" by auto
  qed
  then show ?thesis using assms by (simp add: bit_at_def word_gt_0)
qed

lemma set_bit_at:
  assumes "n div 8 < length data"
  shows "bit_at (data[n div 8 := data ! (n div 8) OR bip39_shift n]) j \<longleftrightarrow> j = n \<or> bit_at data j"
proof (cases "j div 8 = n div 8")
  case True
  have "j mod 8 < 8" "n mod 8 < 8" by simp_all
  then have "7 - j mod 8 = 7 - n mod 8 \<longleftrightarrow> j mod 8 = n mod 8" by linarith
  also have "\<dots> \<longleftrightarrow> j = n" using True by (metis div_mult_mod_eq)
  finally have same: "bit (bip39_shift n) (7 - j mod 8) \<longleftrightarrow> j = n" by (simp add: bit_shift)
  show ?thesis unfolding bit_at_def True using assms by (simp add: bit_or_iff same disj_commute)
qed (auto simp: bit_at_def)

text \<open>The position that is read has the bits that are read, the first one as the highest.\<close>

lemma position_loop_bits:
  assumes "(n + left - 1) div 8 < length data \<or> left = 0"
  shows "\<exists>p. position_loop data left n acc = Some p \<and> p div 2 ^ left = acc \<and> (\<forall>i < left. bit p i = bit_at data (n + (left - 1 - i)))"
  using assms
proof (induction data left n acc rule: position_loop.induct)
  case (2 data left n acc)
  let ?a = "if data ! (n div 8) AND bip39_shift n > 0 then 2 * acc + 1 else 2 * acc"
  have "n div 8 \<le> (n + Suc left - 1) div 8" by (simp add: div_le_mono)
  then have inside: "n div 8 < length data" using 2(2) by linarith
  have last: "(n + 1 + left - 1) div 8 < length data \<or> left = 0" using 2(2) by simp
  obtain p where p: "position_loop data left (n + 1) ?a = Some p" "p div 2 ^ left = ?a"
    "\<forall>i < left. bit p i = bit_at data (n + 1 + (left - 1 - i))"
    using 2(1) [OF refl refl _ last] inside by auto
  have "p div 2 ^ Suc left = p div 2 ^ left div 2" by (simp only: power_Suc2 div_mult2_eq)
  then have "p div 2 ^ Suc left = acc" unfolding p(2) by simp
  moreover have "bit p left = bit_at data n"
    using p(2) shift_test [OF inside] by (simp add: bit_iff_odd split: if_splits)
  moreover have "bit p i = bit_at data (n + (Suc left - 1 - i))" if "i < left" for i
  proof -
    have "n + (Suc left - 1 - i) = n + 1 + (left - 1 - i)" using that by simp
    then show ?thesis using p(3) that by (simp only:)
  qed
  ultimately have "p div 2 ^ Suc left = acc \<and> (\<forall>i < Suc left. bit p i = bit_at data (n + (Suc left - 1 - i)))"
    by (auto simp: less_Suc_eq)
  then show ?case using p(1) inside by (simp add: Let_def)
qed auto

definition word_at :: "data_chunk \<Rightarrow> nat \<Rightarrow> nat" where
  "word_at data w = the (position_loop data bits_per_word (w * bits_per_word) 0)"

lemma word_at_facts:
  assumes "(w * 11 + 10) div 8 < length data"
  shows "position_loop data bits_per_word (w * bits_per_word) 0 = Some (word_at data w)" and "word_at data w < 2048"
    and "i < 11 \<Longrightarrow> bit (word_at data w) i = bit_at data (w * 11 + (10 - i))"
proof -
  obtain p where p: "position_loop data 11 (w * 11) 0 = Some p" "p div 2 ^ 11 = 0"
    "\<forall>i < 11. bit p i = bit_at data (w * 11 + (11 - 1 - i))"
    using position_loop_bits [of "w * 11" 11 data 0] assms by (auto simp: add.commute)
  show "position_loop data bits_per_word (w * bits_per_word) 0 = Some (word_at data w)" using p(1) by (simp add: word_at_def)
  show "word_at data w < 2048" using p(1,2) by (simp add: word_at_def)
  show "bit (word_at data w) i = bit_at data (w * 11 + (10 - i))" if "i < 11" using p(1,3) that by (simp add: word_at_def)
qed

lemma words_loop_map:
  assumes "\<And>w. w \<in> set ws \<Longrightarrow> (w * 11 + 10) div 8 < length data"
  shows "words_loop lexicon data ws = Some (map (\<lambda>w. lexicon ! word_at data w) ws)"
  using assms by (induction ws) (simp_all add: word_at_facts(1))

lemma length_set_position [simp]: "length (set_position p left n data) = length data"
  by (induction p left n data rule: set_position.induct) auto

lemma bit_set_position:
  assumes "n + left \<le> 8 * length data"
  shows "bit_at (set_position p left n data) j \<longleftrightarrow> bit_at data j \<or> n \<le> j \<and> j < n + left \<and> bit p (n + left - 1 - j)"
  using assms
proof (induction p left n data rule: set_position.induct)
  case (2 p left n data)
  let ?d = "if bit p left then data[n div 8 := data ! (n div 8) OR bip39_shift n] else data"
  have "n div 8 < length data" using 2(2) by (simp add: div_less_iff_less_mult mult.commute)
  then have "bit_at ?d j \<longleftrightarrow> bit_at data j \<or> j = n \<and> bit p left" using set_bit_at by auto
  moreover have "bit_at (set_position p left (n + 1) ?d) j \<longleftrightarrow>
      bit_at ?d j \<or> n + 1 \<le> j \<and> j < n + 1 + left \<and> bit p (n + 1 + left - 1 - j)"
    using 2 by (cases "bit p left") simp_all
  ultimately show ?case by (cases "j = n") auto
qed auto

text \<open>The validation sets the bits of all positions.\<close>

lemma validate_loop_bits:
  assumes "n + 11 * length ps \<le> 8 * length data" and "list_all2 (\<lambda>w p. find_position lexicon w = Some p) ws ps"
  shows "\<exists>d. validate_loop lexicon ws n data = Some d \<and> length d = length data \<and>
    (\<forall>j. bit_at d j \<longleftrightarrow> bit_at data j \<or> n \<le> j \<and> j < n + 11 * length ps \<and> bit (ps ! ((j - n) div 11)) (10 - (j - n) mod 11))"
  using assms(2,1)
proof (induction ws ps arbitrary: n data rule: list_all2_induct)
  case (Cons w ws p ps)
  let ?d = "set_position p 11 n data"
  obtain d where d: "validate_loop lexicon ws (n + 11) ?d = Some d" "length d = length data"
    "\<And>j. bit_at d j \<longleftrightarrow> bit_at ?d j \<or> n + 11 \<le> j \<and> j < n + 11 + 11 * length ps \<and> bit (ps ! ((j - (n + 11)) div 11)) (10 - (j - (n + 11)) mod 11)"
    using Cons.IH [of "n + 11" ?d] Cons.prems by auto
  have "bit_at d j \<longleftrightarrow> bit_at data j \<or> n \<le> j \<and> j < n + 11 * length (p # ps) \<and> bit ((p # ps) ! ((j - n) div 11)) (10 - (j - n) mod 11)" for j
  proof -
    have first: "bit_at ?d j \<longleftrightarrow> bit_at data j \<or> n \<le> j \<and> j < n + 11 \<and> bit p (10 - (j - n))"
      using bit_set_position [of n 11 data p j] Cons.prems by (auto simp: add.commute)
    consider "j < n" | "n \<le> j" "j < n + 11" | k where "j = n + 11 + k" by (metis le_add_diff_inverse not_le)
    then show ?thesis
    proof cases
      case 2
      then have "(j - n) div 11 = 0" "(j - n) mod 11 = j - n" by auto
      with 2 show ?thesis by (auto simp: d(3) first)
    next
      case 3
      then have "(j - n) div 11 = Suc (k div 11)" "(j - n) mod 11 = k mod 11" "\<not> j < n + 11" by (simp_all add: div_add_self1)
      then have "bit_at ?d j = bit_at data j" "(j - n) div 11 = Suc (k div 11)" "(j - n) mod 11 = k mod 11" using first by auto
      with 3 show ?thesis by (simp add: d(3))
    qed (auto simp: d(3) first)
  qed
  then show ?case using d(1,2) Cons.hyps by simp
qed auto

lemma find_position_nth: "distinct lexicon \<Longrightarrow> p < length lexicon \<Longrightarrow> find_position lexicon (lexicon ! p) = Some p"
proof (induction lexicon arbitrary: p)
  case (Cons x xs)
  then show ?case by (cases p) (auto simp: nth_mem)
qed simp

subsection \<open>Exact validation\<close>

text \<open>Of entropy of \<open>4 k\<close> bytes, at most 1024, all reads are inside the data.\<close>

lemma create_mnemonic_words:
  assumes "digest_sizes H" and "length entropy = 4 * k" and "k \<le> 256"
  shows "create_mnemonic H entropy lexicon =
    Some (map (\<lambda>w. lexicon ! word_at (entropy @ sha256_hash H entropy) w) [0..<3 * k])"
    and "w < 3 * k \<Longrightarrow> (w * 11 + 10) div 8 < length (entropy @ sha256_hash H entropy)"
proof -
  have len: "length (entropy @ sha256_hash H entropy) = 4 * k + 32" using assms(1,2) by (simp add: digest_sizes_def)
  show inside: "(w * 11 + 10) div 8 < length (entropy @ sha256_hash H entropy)" if "w < 3 * k" for w
  proof -
    have "w * 11 + 10 < 8 * (4 * k + 32)" using that assms(3) by presburger
    then show ?thesis unfolding len by (simp add: div_less_iff_less_mult mult.commute)
  qed
  have "(4 * k * 8 + 4 * k * 8 div 32) div 11 = 3 * k" by simp
  then show "create_mnemonic H entropy lexicon =
      Some (map (\<lambda>w. lexicon ! word_at (entropy @ sha256_hash H entropy) w) [0..<3 * k])"
    using words_loop_map [of "[0..<3 * k]" "entropy @ sha256_hash H entropy" lexicon] inside
    by (simp add: create_mnemonic_def assms(2) Let_def)
qed

text \<open>The entropy is found again from the words.\<close>

lemma validate_created:
  assumes "digest_sizes H" and "distinct lexicon" and "length lexicon = 2048" and "length entropy = 4 * k" and "k \<le> 256"
    and "create_mnemonic H entropy lexicon = Some ws"
  shows "validate_mnemonic H ws lexicon = Some True"
proof -
  let ?data = "entropy @ sha256_hash H entropy"
  note created = create_mnemonic_words [OF assms(1,4,5)]
  define ps where "ps = map (word_at ?data) [0..<3 * k]"
  have ws: "ws = map (\<lambda>p. lexicon ! p) ps" using assms(6) created(1) [of lexicon] by (simp add: ps_def comp_def)
  have len: "length ps = 3 * k" by (simp add: ps_def)
  have "list_all2 (\<lambda>w p. find_position lexicon w = Some p) ws ps"
    using word_at_facts(2) [OF created(2)] find_position_nth [OF assms(2)] assms(3)
    by (auto simp: ws ps_def list_all2_conv_all_nth)
  moreover have "0 + 11 * length ps \<le> 8 * ((33 * k + 7) div 8)" unfolding len by presburger
  ultimately obtain d where d: "validate_loop lexicon ws 0 (replicate ((33 * k + 7) div 8) 0) = Some d" "length d = (33 * k + 7) div 8"
    "\<And>j. bit_at d j \<longleftrightarrow> bit_at (replicate ((33 * k + 7) div 8) 0) j \<or> j < 33 * k \<and> bit (ps ! (j div 11)) (10 - j mod 11)"
    using validate_loop_bits [of 0 ps "replicate ((33 * k + 7) div 8) 0" lexicon ws] len by auto
  have "resize_blocks (4 * k) d = entropy"
  proof (rule blocks_eqI)
    show "bit_at (resize_blocks (4 * k) d) j = bit_at entropy j" for j
    proof (cases "j div 8 < 4 * k")
      case True
      then have j: "j < 32 * k" by (simp add: div_less_iff_less_mult)
      then have w: "j div 11 < 3 * k" by (simp add: div_less_iff_less_mult)
      have "bit (word_at ?data (j div 11)) (10 - j mod 11) = bit_at ?data (j div 11 * 11 + (10 - (10 - j mod 11)))"
        by (rule word_at_facts(3) [OF created(2) [OF w]]) simp
      also have "j div 11 * 11 + (10 - (10 - j mod 11)) = j"
        using mod_less_divisor [of 11 j] div_mult_mod_eq [of j 11] by linarith
      also have "bit_at ?data j = bit_at entropy j" using True assms(4) by (simp add: bit_at_def nth_append)
      finally show ?thesis
        using True j w by (simp add: bit_at_resize_blocks d(3) ps_def) (simp add: bit_at_def)
    qed (simp add: bit_at_resize_blocks bit_at_def assms(4))
  qed (simp add: assms(4))
  moreover have "length ws = 3 * k" by (simp add: ws len)
  moreover have "(33 * k - 33 * k div 33) div 8 = 4 * k" by simp
  ultimately show ?thesis using d(1) assms(6) by (simp add: validate_mnemonic_def Let_def add.commute)
qed

text \<open>
  C36. Validation of mnemonic words accepts exactly the words that creation makes of some
  entropy (of at most 768 words, for which no bit of the hash is missing).
\<close>

theorem mnemonic_exact:
  assumes "digest_sizes H" and "distinct lexicon" and "length lexicon = 2048" and "length ws \<le> 768"
  shows "validate_mnemonic H ws lexicon =
    Some (\<exists>entropy. length entropy mod 4 = 0 \<and> length entropy \<le> 1024 \<and> create_mnemonic H entropy lexicon = Some ws)"
proof (cases "\<exists>entropy. length entropy mod 4 = 0 \<and> length entropy \<le> 1024 \<and> create_mnemonic H entropy lexicon = Some ws")
  case True
  then obtain entropy k where "length entropy = 4 * k" "k \<le> 256" "create_mnemonic H entropy lexicon = Some ws"
    by (auto simp: mod_eq_0_iff_dvd elim!: dvdE)
  with validate_created [OF assms(1-3)] show ?thesis using True by auto
next
  case False
  have "validate_mnemonic H ws lexicon = Some False"
  proof (cases "length ws mod 3 = 0")
    case True
    then obtain k where k: "length ws = 3 * k" by (auto simp: mod_eq_0_iff_dvd elim!: dvdE)
    show ?thesis
    proof (cases "validate_loop lexicon ws 0 (replicate ((11 * length ws + 8 - 1) div 8) 0)")
      case (Some d)
      let ?e = "resize_blocks ((11 * length ws - 11 * length ws div 33) div 8) d"
      have e: "length ?e = 4 * k" by (simp add: k)
      have "k \<le> 256" using assms(4) k by simp
      note created = create_mnemonic_words(1) [OF assms(1) e this, of lexicon]
      have "length ?e mod 4 = 0" "length ?e \<le> 1024" unfolding e using \<open>k \<le> 256\<close> by simp_all
      with False have "create_mnemonic H ?e lexicon \<noteq> Some ws" by metis
      then show ?thesis using True Some created k by (simp add: validate_mnemonic_def Let_def)
    qed (simp add: validate_mnemonic_def True Let_def)
  qed (simp add: validate_mnemonic_def)
  with False show ?thesis by simp
qed

definition example_lexicon :: dictionary where
  "example_lexicon = map (\<lambda>i. replicate i CHR ''x'') [0..<2048]"

lemma example_lexicon_facts: "distinct example_lexicon" "length example_lexicon = 2048"
  by (simp_all add: example_lexicon_def distinct_map inj_on_def)

theorem mnemonic_exact_witness:
  "\<exists>ws. create_mnemonic example_digests [1, 2, 3, 4] example_lexicon = Some ws \<and> length ws = 3 \<and>
    validate_mnemonic example_digests ws example_lexicon = Some True"
proof -
  obtain ws where ws: "create_mnemonic example_digests [1, 2, 3, 4] example_lexicon = Some ws" "length ws = 3"
    using create_mnemonic_words(1) [OF example_digest_sizes, of "[1, 2, 3, 4]" 1 example_lexicon] by auto
  then show ?thesis
    using mnemonic_exact [OF example_digest_sizes example_lexicon_facts, of ws] by (auto intro!: exI [of _ "[1, 2, 3, 4]"])
qed

end
