(* ===== verification/Signed_Message.thy ===== *)
theory Signed_Message
  imports Payment_Address
begin

unbundle bit_operations_syntax

text \<open>
  Signed messages and mini keys: \<^verbatim>\<open>src/wallet/message.cpp\<close>, \<^verbatim>\<open>src/wallet/mini_keys.cpp\<close> and the recoverable signatures of
  \<^verbatim>\<open>src/math/elliptic_curve.cpp\<close>.  The calls of secp256k1 that make a recoverable signature and recover a point
  are the record \<open>recovery\<close>.
\<close>

record 'k recovery =
  ecdsa_sign_recoverable :: "hash_digest \<Rightarrow> ec_secret \<Rightarrow> (data_chunk \<times> int) option"
  ecdsa_recover :: "data_chunk \<Rightarrow> int \<Rightarrow> hash_digest \<Rightarrow> 'k option"

text \<open>
  The compact form of a signature has 64 bytes and a recovery id from 0 to 3, and from it the point of the secret that
  signed is recovered.
\<close>

definition recovery_laws :: "'k secp256k1 \<Rightarrow> 'k recovery \<Rightarrow> bool" where
  "recovery_laws C R \<longleftrightarrow>
     (\<forall>hash secret sig rid. ecdsa_sign_recoverable R hash secret = Some (sig, rid) \<longrightarrow>
        length sig = 64 \<and> 0 \<le> rid \<and> rid \<le> 3 \<and> ec_pubkey_create C secret \<noteq> None \<and>
        ecdsa_recover R sig rid hash = ec_pubkey_create C secret)"

record recoverable_signature =
  rec_signature :: data_chunk
  recovery_id :: byte

text \<open>The conversion of the recovery id throws when it does not fit, which the laws exclude.\<close>

definition sign_recoverable :: "'k recovery \<Rightarrow> ec_secret \<Rightarrow> hash_digest \<Rightarrow> recoverable_signature option" where
  "sign_recoverable R secret hash =
     (case ecdsa_sign_recoverable R hash secret of
        None \<Rightarrow> None
      | Some (sig, rid) \<Rightarrow> Some \<lparr>rec_signature = sig, recovery_id = of_int rid\<rparr>)"

definition recover_public ::
  "'k secp256k1 \<Rightarrow> 'k recovery \<Rightarrow> nat \<Rightarrow> recoverable_signature \<Rightarrow> hash_digest \<Rightarrow> ec_point option" where
  "recover_public C R n recoverable hash =
     (case ecdsa_recover R (rec_signature recoverable) (uint (recovery_id recoverable)) hash of
        None \<Rightarrow> None
      | Some pubkey \<Rightarrow> serialize_point C n pubkey)"

subsection \<open>Messages\<close>

abbreviation (input) max_recovery_id :: byte where "max_recovery_id \<equiv> 3"
abbreviation (input) magic_compressed :: byte where "magic_compressed \<equiv> 31"
abbreviation (input) magic_uncompressed :: byte where "magic_uncompressed \<equiv> 27"
abbreviation (input) magic_differential :: byte where "magic_differential \<equiv> 4"

definition message_prefix :: data_chunk where
  "message_prefix = map of_char (''Bitcoin Signed Message:'' @ [CHR 0x0A])"

definition hash_message :: "hash_functions \<Rightarrow> data_chunk \<Rightarrow> hash_digest" where
  "hash_message H message =
     bitcoin_hash H (write_string message_prefix @ write_variable_little_endian (of_nat (length message)) @ message)"

definition recover ::
  "'k secp256k1 \<Rightarrow> 'k recovery \<Rightarrow> hash_functions \<Rightarrow> bool \<Rightarrow> data_chunk \<Rightarrow> byte \<Rightarrow> hash_digest \<Rightarrow> data_chunk option" where
  "recover C R H cmp compact rid message_digest =
     (let recoverable = \<lparr>rec_signature = compact, recovery_id = rid\<rparr> in
      if cmp then map_option (bitcoin_short_hash H) (recover_public C R ec_compressed_size recoverable message_digest)
      else map_option (bitcoin_short_hash H) (recover_public C R ec_uncompressed_size recoverable message_digest))"

definition recovery_id_to_magic :: "byte \<Rightarrow> bool \<Rightarrow> byte option" where
  "recovery_id_to_magic rid cmp =
     (if rid > max_recovery_id then None
      else Some (rid + (if cmp then magic_compressed else magic_uncompressed)))"

definition magic_to_recovery_id :: "byte \<Rightarrow> (byte \<times> bool) option" where
  "magic_to_recovery_id magic =
     (if magic < magic_uncompressed \<or> magic > magic_compressed + max_recovery_id then None
      else
        let rid = magic - magic_uncompressed; cmp = rid \<ge> magic_differential
        in Some (if cmp then rid - magic_differential else rid, cmp))"

definition sign_message ::
  "'k recovery \<Rightarrow> hash_functions \<Rightarrow> data_chunk \<Rightarrow> ec_secret \<Rightarrow> bool \<Rightarrow> data_chunk option" where
  "sign_message R H message secret cmp =
     (case sign_recoverable R secret (hash_message H message) of
        None \<Rightarrow> None
      | Some recoverable \<Rightarrow>
          (case recovery_id_to_magic (recovery_id recoverable) cmp of
             None \<Rightarrow> None
           | Some magic \<Rightarrow> Some ([magic] @ rec_signature recoverable)))"

definition sign_message_private ::
  "'k recovery \<Rightarrow> hash_functions \<Rightarrow> data_chunk \<Rightarrow> ec_private \<Rightarrow> data_chunk option" where
  "sign_message_private R H message secret = sign_message R H message (sec_secret secret) (sec_compress secret)"

definition sign_message_wif ::
  "currency \<Rightarrow> 'k recovery \<Rightarrow> hash_functions \<Rightarrow> data_chunk \<Rightarrow> string \<Rightarrow> data_chunk option" where
  "sign_message_wif cur R H message wif =
     (let secret = ec_private_from_string H wif (mainnet_p2kh cur)
      in if sec_valid secret then sign_message R H message (sec_secret secret) (sec_compress secret) else None)"

definition verify_message ::
  "'k secp256k1 \<Rightarrow> 'k recovery \<Rightarrow> hash_functions \<Rightarrow> data_chunk \<Rightarrow> payment_address \<Rightarrow> data_chunk \<Rightarrow> bool" where
  "verify_message C R H message address signature =
     (let magic = hd signature; compact = take 64 (drop 1 signature) in
      case magic_to_recovery_id magic of
        None \<Rightarrow> False
      | Some (rid, cmp) \<Rightarrow>
          (case recover C R H cmp compact rid (hash_message H message) of
             None \<Rightarrow> False
           | Some hash \<Rightarrow> hash = addr_hash address))"

subsection \<open>Mini keys\<close>

definition check_minikey :: "hash_functions \<Rightarrow> string \<Rightarrow> bool" where
  "check_minikey H minikey \<longleftrightarrow>
     (length minikey = 22 \<or> length minikey = 30) \<and> sha256_hash H (map of_char (minikey @ ''?'')) ! 0 = 0x00"

definition minikey_to_secret :: "hash_functions \<Rightarrow> string \<Rightarrow> ec_secret option" where
  "minikey_to_secret H key = (if \<not> check_minikey H key then None else Some (sha256_hash H (map of_char key)))"

subsection \<open>What is signed is verified\<close>

text \<open>The magic byte holds the recovery id and the compression, and nothing else is a magic byte.\<close>

lemma magic_exact: "magic_to_recovery_id magic = Some (rid, cmp) \<longleftrightarrow> recovery_id_to_magic rid cmp = Some magic"
proof
  assume "magic_to_recovery_id magic = Some (rid, cmp)"
  then have range: "27 \<le> unat magic" "unat magic \<le> 34" and rid: "cmp = (4 \<le> magic - 27)" "rid = (if cmp then magic - 27 - 4 else magic - 27)"
    by (auto simp: magic_to_recovery_id_def Let_def word_le_nat_alt word_less_nat_alt split: if_splits)
  have "unat (magic - 27) = unat magic - 27" using range by (simp add: unat_sub word_le_nat_alt)
  then have "unat rid \<le> 3" using range rid by (auto simp: word_le_nat_alt unat_sub)
  then show "recovery_id_to_magic rid cmp = Some magic" using rid by (simp add: recovery_id_to_magic_def word_less_nat_alt)
next
  assume made: "recovery_id_to_magic rid cmp = Some magic"
  then have rid: "unat rid \<le> 3" and magic: "magic = rid + (if cmp then 31 else 27)"
    by (auto simp: recovery_id_to_magic_def word_less_nat_alt split: if_splits)
  have "unat magic = unat rid + (if cmp then 31 else 27)" using rid unfolding magic by (simp add: unat_word_ariths)
  moreover have "unat (magic - 27) = unat rid + (if cmp then 4 else 0)"
  proof -
    have "magic - 27 = rid + (if cmp then 4 else 0)" by (simp add: magic)
    then show ?thesis using rid by (simp add: unat_word_ariths)
  qed
  ultimately show "magic_to_recovery_id magic = Some (rid, cmp)"
    using rid by (auto simp: magic_to_recovery_id_def Let_def word_less_nat_alt word_le_nat_alt magic split: if_splits)
qed

text \<open>
  C37. A message that a private key signed is verified for the address of the key, whatever
  its version and compression.
\<close>

theorem signed_message_verifies:
  assumes "curve_laws C" and "recovery_laws C R" and "sec_valid key" and "sign_message_private R H message key = Some signature"
  shows "verify_message C R H message (from_private C H key) signature"
proof -
  let ?secret = "sec_secret key" and ?h = "hash_message H message"
  obtain sig rid where sig: "ecdsa_sign_recoverable R ?h ?secret = Some (sig, rid)"
    and magic: "recovery_id_to_magic (of_int rid) (sec_compress key) = Some (hd signature)" and signature: "signature = hd signature # sig"
    using assms(4) by (auto simp: sign_message_private_def sign_message_def sign_recoverable_def split: option.splits)
  have laws: "length sig = 64" "0 \<le> rid" "rid \<le> 3" "ec_pubkey_create C ?secret \<noteq> None" "ecdsa_recover R sig rid ?h = ec_pubkey_create C ?secret"
    using assms(2) sig unfolding recovery_laws_def by blast+
  then obtain k where k: "ec_pubkey_create C ?secret = Some k" by blast
  have rid: "uint (of_int rid :: byte) = rid" using laws(2,3) by (simp add: uint_word_of_int)
  have compact: "take 64 (drop 1 signature) = sig" using laws(1) by (subst signature) simp
  let ?n = "if sec_compress key then 33 else 65"
  have point: "recover_public C R ?n \<lparr>rec_signature = sig, recovery_id = of_int rid\<rparr> ?h =
      Some (ec_pubkey_serialize C (sec_compress key) k)"
    using assms(1) by (simp add: recover_public_def rid laws(5) k serialize_point_def curve_laws_def)
  have "ec_public_to_data C (ec_private_to_public C key) = Some (ec_pubkey_serialize C (sec_compress key) k)"
    using assms(1,3)
    by (simp add: ec_private_to_public_def secret_to_public_def k serialize_point_def ec_public_to_data_def ec_public_of_point_def
        to_uncompressed_def decompress_def curve_laws_def)
  moreover have "pub_valid (ec_private_to_public C key)"
    using assms(1,3) by (simp add: ec_private_to_public_def secret_to_public_def k serialize_point_def ec_public_of_point_def curve_laws_def)
  ultimately have "addr_hash (from_private C H key) = bitcoin_short_hash H (ec_pubkey_serialize C (sec_compress key) k)"
    using assms(3) by (simp add: from_private_def from_public_def payment_address_of_def)
  moreover have "magic_to_recovery_id (hd signature) = Some (of_int rid, sec_compress key)" using magic by (simp add: magic_exact)
  ultimately show ?thesis
    using point by (cases "sec_compress key") (simp_all add: verify_message_def Let_def compact [simplified] recover_def)
qed

text \<open>An instance: the signature is the secret, twice.\<close>

definition example_recovery :: "256 word recovery" where
  "example_recovery =
     \<lparr>ecdsa_sign_recoverable = (\<lambda>hash secret. if length secret = 32 then Some (secret @ secret, 1) else None),
      ecdsa_recover = (\<lambda>sig rid hash. ec_pubkey_create example_secp (take 32 sig))\<rparr>"

lemma example_recovery_laws: "recovery_laws example_secp example_recovery"
  by (auto simp: recovery_laws_def example_recovery_def example_secp_def)

theorem signed_message_verifies_witness:
  "\<exists>signature. sign_message_private example_recovery example_digests [1, 2] (ec_private_of_secret (replicate 32 9) 0x8000 False) = Some signature \<and>
    verify_message example_secp example_recovery example_digests [1, 2]
      (from_private example_secp example_digests (ec_private_of_secret (replicate 32 9) 0x8000 False)) signature"
proof -
  let ?key = "ec_private_of_secret (replicate 32 9) 0x8000 False"
  obtain signature where "sign_message_private example_recovery example_digests [1, 2] ?key = Some signature"
    by (simp add: sign_message_private_def sign_message_def sign_recoverable_def example_recovery_def ec_private_of_secret_def
        recovery_id_to_magic_def)
  with signed_message_verifies [OF example_secp_laws example_recovery_laws _ this] show ?thesis by (simp add: ec_private_of_secret_def)
qed

end
