(* ===== verification/Coordination.thy ===== *)
theory Coordination
  imports Error "HOL-Library.Multiset"
begin

text \<open>
  The coordination of threads: \<^verbatim>\<open>src/utility/sequencer.cpp\<close>, \<^verbatim>\<open>include/impl/utility/subscriber.ipp\<close>,
  \<^verbatim>\<open>resubscriber.ipp\<close>, \<^verbatim>\<open>pending.ipp\<close> and \<^verbatim>\<open>include/utility/synchronizer.hpp\<close>.  The body of a critical section is a function on
  the members of the class.  What the threads do around it, and how they interleave, is a step relation: each critical
  section, each call of a handler and each hand-over to the service is a step of its own, so any two of them can come in
  either order.  A handler is a value; what matters of a call is that it happens, and what it answers.
\<close>

text \<open>Invariants of interleavings, once for all machines.\<close>

locale state_machine =
  fixes initial :: "'s \<Rightarrow> bool" and step :: "'s \<Rightarrow> 's \<Rightarrow> bool" and holds :: "'s \<Rightarrow> bool"
  assumes initially: "initial s \<Longrightarrow> holds s" and kept: "step s t \<Longrightarrow> holds s \<Longrightarrow> holds t"
begin

lemma always:
  assumes "initial s" and "step\<^sup>*\<^sup>* s t"
  shows "holds t"
  using assms(2) by induction (auto intro: initially kept assms(1))

end

subsection \<open>Sequencer\<close>

record 'a sequencer =
  executing :: bool
  actions :: "'a list"

definition sequencer_init :: "'a sequencer" where
  "sequencer_init = \<lparr>executing = False, actions = []\<rparr>"

text \<open>The critical sections of \<^verbatim>\<open>lock\<close> and \<^verbatim>\<open>unlock\<close>, with the handler they leave to be posted.\<close>

definition sequencer_lock :: "'a \<Rightarrow> 'a sequencer \<Rightarrow> 'a sequencer \<times> 'a option" where
  "sequencer_lock handler s =
     (if executing s then (s\<lparr>actions := actions s @ [handler]\<rparr>, None) else (s\<lparr>executing := True\<rparr>, Some handler))"

definition sequencer_unlock :: "'a sequencer \<Rightarrow> 'a sequencer \<times> 'a option" where
  "sequencer_unlock s =
     (case actions s of
        [] \<Rightarrow> (s\<lparr>executing := False\<rparr>, None)
      | handler # rest \<Rightarrow> (s\<lparr>executing := True, actions := rest\<rparr>, Some handler))"

text \<open>
  The machine: handlers that left a critical section and are not posted yet, those the service has and did not start,
  those that run (until they call \<^verbatim>\<open>unlock\<close>), and the history of locks and completions.
\<close>

record 'a sequence =
  sequenced :: "'a sequencer"
  unposted :: "'a list"
  posted :: "'a list"
  running :: "'a list"
  locked :: "'a list"
  finished :: "'a list"

definition sequence_init :: "'a sequence" where
  "sequence_init = \<lparr>sequenced = sequencer_init, unposted = [], posted = [], running = [], locked = [], finished = []\<rparr>"

inductive sequence_step :: "'a sequence \<Rightarrow> 'a sequence \<Rightarrow> bool" where
  locks: "sequencer_lock a (sequenced w) = (s, post) \<Longrightarrow>
    sequence_step w (w\<lparr>sequenced := s, unposted := unposted w @ case_option [] (\<lambda>a. [a]) post, locked := locked w @ [a]\<rparr>)"
| posts: "a \<in> set (unposted w) \<Longrightarrow>
    sequence_step w (w\<lparr>unposted := remove1 a (unposted w), posted := posted w @ [a]\<rparr>)"
| starts: "a \<in> set (posted w) \<Longrightarrow>
    sequence_step w (w\<lparr>posted := remove1 a (posted w), running := running w @ [a]\<rparr>)"
| unlocks: "a \<in> set (running w) \<Longrightarrow> sequencer_unlock (sequenced w) = (s, post) \<Longrightarrow>
    sequence_step w (w\<lparr>sequenced := s, unposted := unposted w @ case_option [] (\<lambda>a. [a]) post,
      running := remove1 a (running w), finished := finished w @ [a]\<rparr>)"

text \<open>Between its lock and its unlock at most one handler is under way, and all of them in the order of their locks.\<close>

definition in_order :: "'a sequence \<Rightarrow> bool" where
  "in_order w \<longleftrightarrow>
     (let under_way = unposted w @ posted w @ running w in
      length under_way = (if executing (sequenced w) then 1 else 0) \<and>
      (\<not> executing (sequenced w) \<longrightarrow> actions (sequenced w) = []) \<and>
      locked w = finished w @ under_way @ actions (sequenced w))"

lemma single_member: "length xs \<le> 1 \<Longrightarrow> a \<in> set xs \<Longrightarrow> xs = [a]"
  by (cases xs) auto

lemma sequence_step_in_order:
  assumes "sequence_step w w'" and "in_order w"
  shows "in_order w'"
  using assms
proof cases
  case (locks a s post)
  then show ?thesis using assms(2)
    by (cases "executing (sequenced w)") (auto simp: in_order_def sequencer_lock_def Let_def split: if_splits)
next
  case (posts a)
  then have "unposted w = [a]" using assms(2) by (intro single_member) (auto simp: in_order_def Let_def split: if_splits)
  then show ?thesis using assms(2) posts by (auto simp: in_order_def Let_def split: if_splits)
next
  case (starts a)
  then have "posted w = [a]" using assms(2) by (intro single_member) (auto simp: in_order_def Let_def split: if_splits)
  then show ?thesis using assms(2) starts by (auto simp: in_order_def Let_def split: if_splits)
next
  case (unlocks a s post)
  then have "running w = [a]" using assms(2) by (intro single_member) (auto simp: in_order_def Let_def split: if_splits)
  then show ?thesis using assms(2) unlocks
    by (auto simp: in_order_def Let_def sequencer_unlock_def split: if_splits list.splits)
qed

interpretation sequencing: state_machine "\<lambda>w. w = sequence_init" sequence_step in_order
proof unfold_locales
  show "in_order w" if "w = sequence_init" for w :: "'a sequence"
    using that by (simp add: in_order_def sequence_init_def sequencer_init_def)
qed (rule sequence_step_in_order)

text \<open>
  C33. However the threads interleave, the sequencer runs one handler at a time and in the
  order of the locks: those that finished, the one under way and those that wait are, in
  this order, the ones that were locked; and when one waits, one is under way.
\<close>

theorem sequencer_serializes:
  assumes "sequence_step\<^sup>*\<^sup>* sequence_init w"
  shows "length (unposted w @ posted w @ running w) \<le> 1 \<and>
    locked w = finished w @ (unposted w @ posted w @ running w) @ actions (sequenced w) \<and>
    (actions (sequenced w) \<noteq> [] \<longrightarrow> unposted w @ posted w @ running w \<noteq> [])"
  using sequencing.always [OF refl assms] by (auto simp: in_order_def Let_def split: if_splits)

lemma locks_step:
  "sequence_step w (w\<lparr>sequenced := fst (sequencer_lock a (sequenced w)),
    unposted := unposted w @ case_option [] (\<lambda>a. [a]) (snd (sequencer_lock a (sequenced w))), locked := locked w @ [a]\<rparr>)"
  by (rule sequence_step.locks) simp

theorem sequencer_serializes_witness:
  "\<exists>w :: nat sequence. sequence_step\<^sup>*\<^sup>* sequence_init w \<and> locked w = [1, 2] \<and> actions (sequenced w) = [2] \<and>
    length (unposted w @ posted w @ running w) \<le> 1 \<and> unposted w @ posted w @ running w \<noteq> []"
proof -
  obtain v :: "nat sequence" where v: "sequence_step sequence_init v" "sequenced v = \<lparr>executing = True, actions = []\<rparr>" "locked v = [1]"
    by (rule that [OF locks_step [of sequence_init 1]]) (simp_all add: sequencer_lock_def sequence_init_def sequencer_init_def)
  obtain w where w: "sequence_step v w" "actions (sequenced w) = [2]" "locked w = [1, 2]"
    by (rule that [OF locks_step [of v 2]]) (simp_all add: sequencer_lock_def v)
  have reach: "sequence_step\<^sup>*\<^sup>* sequence_init w" using v(1) w(1) by (meson r_into_rtranclp rtranclp_trans)
  show ?thesis using sequencer_serializes [OF reach] w reach by (intro exI [of _ w]) simp
qed

subsection \<open>Subscriptions\<close>

text \<open>The members that \<^verbatim>\<open>subscriber\<close> and \<^verbatim>\<open>resubscriber\<close> share, and the critical sections on them.\<close>

record 'h subscriber =
  sub_stopped :: bool
  subscriptions :: "'h list"

definition subscriber_init :: "'h subscriber" where
  "subscriber_init = \<lparr>sub_stopped = True, subscriptions = []\<rparr>"

definition subscriber_start :: "'h subscriber \<Rightarrow> 'h subscriber" where
  "subscriber_start s = (if sub_stopped s then s\<lparr>sub_stopped := False\<rparr> else s)"

definition subscriber_stop :: "'h subscriber \<Rightarrow> 'h subscriber" where
  "subscriber_stop s = (if \<not> sub_stopped s then s\<lparr>sub_stopped := True\<rparr> else s)"

text \<open>The second component tells whether the handler is called at once with the arguments for a stopped service.\<close>

definition subscribe :: "'h \<Rightarrow> 'h subscriber \<Rightarrow> 'h subscriber \<times> bool" where
  "subscribe notify s =
     (if \<not> sub_stopped s then (s\<lparr>subscriptions := subscriptions s @ [notify]\<rparr>, False) else (s, True))"

definition take_subscriptions :: "'h subscriber \<Rightarrow> 'h subscriber \<times> 'h list" where
  "take_subscriptions s = (s\<lparr>subscriptions := []\<rparr>, subscriptions s)"

definition resubscribe :: "'h \<Rightarrow> 'h subscriber \<Rightarrow> 'h subscriber \<times> bool" where
  "resubscribe handler s = (if sub_stopped s then (s, False) else (s\<lparr>subscriptions := subscriptions s @ [handler]\<rparr>, True))"

text \<open>
  The machine of a \<^verbatim>\<open>subscriber\<close>: \<open>invoking\<close> is the rest of the temporary list of the invocation that holds
  \<^verbatim>\<open>invoke_mutex_\<close>; the histories are the handlers that were accepted, those notified by an invocation and those
  called back because the service was stopped.
\<close>

record 'h notification =
  subscribed :: "'h subscriber"
  invoking :: "'h list option"
  accepted :: "'h list"
  notified :: "'h list"
  refused :: "'h list"

definition notification_init :: "'h notification" where
  "notification_init = \<lparr>subscribed = subscriber_init, invoking = None, accepted = [], notified = [], refused = []\<rparr>"

inductive subscriber_step :: "'h notification \<Rightarrow> 'h notification \<Rightarrow> bool" where
  starting: "subscriber_step w (w\<lparr>subscribed := subscriber_start (subscribed w)\<rparr>)"
| stopping: "subscriber_step w (w\<lparr>subscribed := subscriber_stop (subscribed w)\<rparr>)"
| accepts: "subscribe h (subscribed w) = (s, False) \<Longrightarrow> subscriber_step w (w\<lparr>subscribed := s, accepted := accepted w @ [h]\<rparr>)"
| refuses: "subscribe h (subscribed w) = (s, True) \<Longrightarrow> subscriber_step w (w\<lparr>subscribed := s, refused := refused w @ [h]\<rparr>)"
| takes: "invoking w = None \<Longrightarrow> take_subscriptions (subscribed w) = (s, hs) \<Longrightarrow>
    subscriber_step w (w\<lparr>subscribed := s, invoking := Some hs\<rparr>)"
| notifies: "invoking w = Some (h # hs) \<Longrightarrow> subscriber_step w (w\<lparr>invoking := Some hs, notified := notified w @ [h]\<rparr>)"
| returns: "invoking w = Some [] \<Longrightarrow> subscriber_step w (w\<lparr>invoking := None\<rparr>)"

definition once_each :: "'h notification \<Rightarrow> bool" where
  "once_each w \<longleftrightarrow> accepted w = notified w @ (case invoking w of None \<Rightarrow> [] | Some hs \<Rightarrow> hs) @ subscriptions (subscribed w)"

lemmas subscriber_defs = subscriber_start_def subscriber_stop_def subscribe_def take_subscriptions_def resubscribe_def

interpretation notifying: state_machine "\<lambda>w. w = notification_init" subscriber_step once_each
proof unfold_locales
  show "once_each w" if "w = notification_init" for w :: "'a notification"
    using that by (simp add: once_each_def notification_init_def subscriber_init_def)
  show "once_each w'" if "subscriber_step w w'" "once_each w" for w w' :: "'a notification"
    using that by cases (auto simp: once_each_def subscriber_defs split: if_splits option.splits)
qed

text \<open>
  C34. However subscriptions, invocations, starts and stops interleave, every accepted
  handler is notified exactly once, in the order of subscription: the accepted ones are
  those notified, those of the invocation under way and those subscribed since, in this
  order.
\<close>

theorem subscriber_notifies_once:
  assumes "subscriber_step\<^sup>*\<^sup>* notification_init w"
  shows "accepted w = notified w @ (case invoking w of None \<Rightarrow> [] | Some hs \<Rightarrow> hs) @ subscriptions (subscribed w)"
  using notifying.always [OF refl assms] by (simp add: once_each_def)

lemma subscriber_notifies_once_step:
  "subscriber_step notification_init (notification_init\<lparr>subscribed := subscriber_start subscriber_init\<rparr>)"
  using subscriber_step.starting [of notification_init] by (simp add: notification_init_def)

theorem subscriber_notifies_once_witness:
  "\<exists>w :: nat notification. subscriber_step\<^sup>*\<^sup>* notification_init w \<and> notified w = [] \<and> invoking w = Some [7] \<and>
    accepted w = notified w @ [7] @ subscriptions (subscribed w)"
proof -
  obtain v :: "nat notification" where v: "subscriber_step notification_init v"
      "subscribed v = \<lparr>sub_stopped = False, subscriptions = []\<rparr>" "invoking v = None" "notified v = []"
    by (rule that [OF subscriber_notifies_once_step]) (simp_all add: notification_init_def subscriber_init_def subscriber_defs)
  obtain u :: "nat notification" where u: "subscriber_step v u" "subscribed u = \<lparr>sub_stopped = False, subscriptions = [7]\<rparr>" "invoking u = None" "notified u = []"
    by (rule that [OF subscriber_step.accepts [of 7 v "\<lparr>sub_stopped = False, subscriptions = [7]\<rparr>"]])
      (use v in \<open>simp_all add: subscribe_def\<close>)
  obtain w where w: "subscriber_step u w" "invoking w = Some [7]" "notified w = []"
    by (rule that [OF subscriber_step.takes [of u "\<lparr>sub_stopped = False, subscriptions = []\<rparr>" "[7]"]])
      (use u in \<open>simp_all add: take_subscriptions_def\<close>)
  have reach: "subscriber_step\<^sup>*\<^sup>* notification_init w"
    using v(1) u(1) w(1) by (meson r_into_rtranclp rtranclp_trans)
  show ?thesis using subscriber_notifies_once [OF reach] w reach by (intro exI [of _ w]) simp
qed

text \<open>
  The machine of a \<^verbatim>\<open>resubscriber\<close>: a handler that answers true is subscribed again in a critical section of its own
  (\<open>renewing\<close> is the handler in between); the others, and those that come back to a stopped service, are dropped.
\<close>

record 'h renewal = "'h notification" +
  renewing :: "'h option"
  dropped :: "'h list"

definition renewal_init :: "'h renewal" where
  "renewal_init = notification.extend notification_init \<lparr>renewing = None, dropped = []\<rparr>"

inductive resubscriber_step :: "'h renewal \<Rightarrow> 'h renewal \<Rightarrow> bool" where
  starting: "resubscriber_step w (w\<lparr>subscribed := subscriber_start (subscribed w)\<rparr>)"
| stopping: "resubscriber_step w (w\<lparr>subscribed := subscriber_stop (subscribed w)\<rparr>)"
| accepts: "subscribe h (subscribed w) = (s, False) \<Longrightarrow> resubscriber_step w (w\<lparr>subscribed := s, accepted := accepted w @ [h]\<rparr>)"
| refuses: "subscribe h (subscribed w) = (s, True) \<Longrightarrow> resubscriber_step w (w\<lparr>subscribed := s, refused := refused w @ [h]\<rparr>)"
| takes: "invoking w = None \<Longrightarrow> take_subscriptions (subscribed w) = (s, hs) \<Longrightarrow>
    resubscriber_step w (w\<lparr>subscribed := s, invoking := Some hs\<rparr>)"
| declines: "invoking w = Some (h # hs) \<Longrightarrow> renewing w = None \<Longrightarrow>
    resubscriber_step w (w\<lparr>invoking := Some hs, notified := notified w @ [h], dropped := dropped w @ [h]\<rparr>)"
| agrees: "invoking w = Some (h # hs) \<Longrightarrow> renewing w = None \<Longrightarrow>
    resubscriber_step w (w\<lparr>invoking := Some hs, notified := notified w @ [h], renewing := Some h\<rparr>)"
| renews: "renewing w = Some h \<Longrightarrow> resubscribe h (subscribed w) = (s, True) \<Longrightarrow>
    resubscriber_step w (w\<lparr>subscribed := s, renewing := None\<rparr>)"
| lapses: "renewing w = Some h \<Longrightarrow> resubscribe h (subscribed w) = (s, False) \<Longrightarrow>
    resubscriber_step w (w\<lparr>subscribed := s, renewing := None, dropped := dropped w @ [h]\<rparr>)"
| returns: "invoking w = Some [] \<Longrightarrow> renewing w = None \<Longrightarrow> resubscriber_step w (w\<lparr>invoking := None\<rparr>)"

definition accounted :: "'h renewal \<Rightarrow> bool" where
  "accounted w \<longleftrightarrow>
     mset (accepted w) = mset (dropped w) + mset (case invoking w of None \<Rightarrow> [] | Some hs \<Rightarrow> hs) +
       mset (case renewing w of None \<Rightarrow> [] | Some h \<Rightarrow> [h]) + mset (subscriptions (subscribed w))"

interpretation renewal: state_machine "\<lambda>w. w = renewal_init" resubscriber_step accounted
proof unfold_locales
  show "accounted w" if "w = renewal_init" for w :: "'a renewal"
    using that by (simp add: accounted_def renewal_init_def notification_init_def subscriber_init_def notification.defs)
  show "accounted w'" if "resubscriber_step w w'" "accounted w" for w w' :: "'a renewal"
    using that by cases (auto simp: accounted_def subscriber_defs split: if_splits option.splits)
qed

text \<open>
  No handler of a resubscriber is lost or doubled: the accepted ones are, with multiplicity, those that were dropped,
  those of the invocation under way, the one about to be renewed and those subscribed.
\<close>

lemma resubscriber_accounts:
  assumes "resubscriber_step\<^sup>*\<^sup>* renewal_init w"
  shows "mset (accepted w) = mset (dropped w) + mset (case invoking w of None \<Rightarrow> [] | Some hs \<Rightarrow> hs) +
    mset (case renewing w of None \<Rightarrow> [] | Some h \<Rightarrow> [h]) + mset (subscriptions (subscribed w))"
  using renewal.always [OF refl assms] by (simp add: accounted_def)

text \<open>
  What the destructor asserts: once an invocation took the subscriptions of a stopped service, none appear again while it
  stays stopped, whatever handlers answer.
\<close>

lemma resubscriber_cleared:
  assumes "sub_stopped (subscribed w)" and "take_subscriptions (subscribed w) = (s, hs)"
    and "(\<lambda>u v. resubscriber_step u v \<and> sub_stopped (subscribed v))\<^sup>*\<^sup>* (w\<lparr>subscribed := s, invoking := Some hs\<rparr>) w'"
  shows "subscriptions (subscribed w') = []"
proof -
  have "sub_stopped (subscribed w') \<and> subscriptions (subscribed w') = []"
    using assms(3)
  proof (induction rule: rtranclp_induct)
    case base
    show ?case using assms(1,2) by (auto simp: take_subscriptions_def)
  next
    case (step u v)
    from step(2) have "resubscriber_step u v" by simp
    then show ?case using step by cases (auto simp: subscriber_defs split: if_splits)
  qed
  then show ?thesis by simp
qed

subsection \<open>Synchronizer\<close>

datatype synchronizer_terminate = on_error | on_success | on_count

record synchronizer =
  clearance_count :: nat
  counter :: nat
  terminate :: synchronizer_terminate

definition synchronizer_of :: "nat \<Rightarrow> synchronizer_terminate \<Rightarrow> synchronizer" where
  "synchronizer_of n mode = \<lparr>clearance_count = n, counter = 0, terminate = mode\<rparr>"

definition sync_complete :: "synchronizer_terminate \<Rightarrow> code \<Rightarrow> bool" where
  "sync_complete mode ec = (case mode of on_error \<Rightarrow> ec \<noteq> error_success | on_success \<Rightarrow> ec = error_success | on_count \<Rightarrow> False)"

definition sync_result :: "synchronizer_terminate \<Rightarrow> code \<Rightarrow> code" where
  "sync_result mode ec =
     (case mode of
        on_error \<Rightarrow> if ec \<noteq> error_success then ec else error_success
      | on_success \<Rightarrow> if ec = error_success then error_success else ec
      | on_count \<Rightarrow> error_success)"

text \<open>A call, with the code the handler is called with if it is.\<close>

definition sync_call :: "code \<Rightarrow> synchronizer \<Rightarrow> synchronizer \<times> code option" where
  "sync_call ec s =
     (let initial_count = counter s in
      if initial_count = clearance_count s then (s, None)
      else
        let count = if sync_complete (terminate s) ec then clearance_count s else initial_count + 1
        in (s\<lparr>counter := count\<rparr>, if count = clearance_count s then Some (sync_result (terminate s) ec) else None))"

text \<open>The calls of all threads, in the order of their critical sections, with the codes the handler gets.\<close>

fun sync_calls :: "code list \<Rightarrow> synchronizer \<Rightarrow> code list" where
  "sync_calls [] s = []"
| "sync_calls (ec # ecs) s = (let (s', fired) = sync_call ec s in case_option [] (\<lambda>c. [c]) fired @ sync_calls ecs s')"

text \<open>What the modes promise: the first code that completes, and otherwise the code of the last call that was counted.\<close>

definition sync_promise :: "synchronizer_terminate \<Rightarrow> nat \<Rightarrow> code list \<Rightarrow> code list" where
  "sync_promise mode n ecs =
     (case List.find (sync_complete mode) (take n ecs) of
        Some ec \<Rightarrow> [sync_result mode ec]
      | None \<Rightarrow> if n \<noteq> 0 \<and> n \<le> length ecs then [sync_result mode (ecs ! (n - 1))] else [])"

lemma find_member: "List.find P xs = Some x \<Longrightarrow> P x \<and> x \<in> set xs"
  by (induction xs) (auto split: if_splits)

lemma sync_calls_cleared: "counter s = clearance_count s \<Longrightarrow> sync_calls ecs s = []"
  by (induction ecs) (simp_all add: sync_call_def)

lemma sync_calls_counting:
  assumes "counter s + m = clearance_count s"
  shows "sync_calls ecs s = sync_promise (terminate s) m ecs"
  using assms
proof (induction ecs arbitrary: s m)
  case Nil
  then show ?case by (auto simp: sync_promise_def)
next
  case (Cons ec ecs)
  show ?case
  proof (cases m)
    case 0
    then show ?thesis using Cons.prems sync_calls_cleared [of s "ec # ecs"] by (simp add: sync_promise_def)
  next
    case (Suc k)
    show ?thesis
    proof (cases "sync_complete (terminate s) ec")
      case True
      then show ?thesis using Cons.prems Suc by (simp add: sync_call_def sync_calls_cleared sync_promise_def)
    next
      case False
      let ?s = "s\<lparr>counter := counter s + 1\<rparr>"
      show ?thesis
      proof (cases k)
        case 0
        then show ?thesis using Cons.prems Suc False by (simp add: sync_call_def sync_calls_cleared sync_promise_def)
      next
        case (Suc j)
        have "sync_calls ecs ?s = sync_promise (terminate s) k ecs" using Cons.IH [of ?s k] Cons.prems \<open>m = Suc k\<close> by simp
        then show ?thesis
          using Cons.prems \<open>m = Suc k\<close> Suc False by (simp add: sync_call_def sync_promise_def split: option.split)
      qed
    qed
  qed
qed

text \<open>
  The handler of a synchronizer is called at most once, whatever calls come from whatever threads: on the first code
  that terminates the mode, or else when the count is reached, with success unless the mode has an error to tell.
  When no operation succeeds, the mode \<^verbatim>\<open>on_success\<close> gives the code of the last one.
\<close>

text \<open>
  C35. The handler of a synchronizer is called at most once, whatever calls come from
  whatever threads: on the first code that terminates the mode, or else when the count is
  reached, with success unless the mode has an error to tell. When no operation succeeds,
  the mode on_success gives the code of the last one.
\<close>

theorem synchronizer_calls_once:
  "sync_calls ecs (synchronizer_of n mode) =
     (case mode of
        on_count \<Rightarrow> if 0 < n \<and> n \<le> length ecs then [error_success] else []
      | on_error \<Rightarrow> (case List.find (\<lambda>ec. ec \<noteq> error_success) (take n ecs) of
          Some ec \<Rightarrow> [ec] | None \<Rightarrow> if 0 < n \<and> n \<le> length ecs then [error_success] else [])
      | on_success \<Rightarrow> if error_success \<in> set (take n ecs) then [error_success]
          else if 0 < n \<and> n \<le> length ecs then [ecs ! (n - 1)] else [])"
proof -
  have promise: "sync_calls ecs (synchronizer_of n mode) = sync_promise mode n ecs"
    using sync_calls_counting [of "synchronizer_of n mode" n ecs] by (simp add: synchronizer_of_def)
  have last: "ecs ! (n - 1) \<in> set (take n ecs)" if "0 < n" "n \<le> length ecs"
    using that by (auto simp: in_set_conv_nth intro!: exI [of _ "n - 1"])
  have result: "sync_result on_error ec = ec" "sync_result on_success ec = ec" "sync_result on_count ec = error_success" for ec
    by (simp_all add: sync_result_def)
  show ?thesis
  proof (cases mode)
    case on_error
    have "ecs ! (n - 1) = error_success" if "List.find (\<lambda>ec. ec \<noteq> error_success) (take n ecs) = None" "0 < n" "n \<le> length ecs"
      using that(1) last [OF that(2,3)] by (auto simp: find_None_iff)
    moreover have "sync_complete on_error = (\<lambda>ec. ec \<noteq> error_success)" by (simp add: sync_complete_def fun_eq_iff)
    ultimately show ?thesis unfolding promise unfolding on_error
      by (cases "List.find (\<lambda>ec. ec \<noteq> error_success) (take n ecs)") (simp_all add: sync_promise_def result)
  next
    case on_success
    have complete: "sync_complete on_success = (\<lambda>ec. ec = error_success)" by (simp add: sync_complete_def fun_eq_iff)
    show ?thesis
    proof (cases "List.find (\<lambda>ec. ec = error_success) (take n ecs)")
      case None
      then have "error_success \<notin> set (take n ecs)" by (auto simp: find_None_iff)
      with None show ?thesis unfolding promise unfolding on_success by (simp add: sync_promise_def result complete)
    next
      case (Some ec)
      then have "ec = error_success" "error_success \<in> set (take n ecs)" using find_member [OF Some] by auto
      with Some show ?thesis unfolding promise unfolding on_success by (simp add: sync_promise_def result complete)
    qed
  next
    case on_count
    have "List.find (sync_complete on_count) xs = None" for xs by (simp add: find_None_iff sync_complete_def)
    then show ?thesis unfolding promise unfolding on_count by (simp add: sync_promise_def result)
  qed
qed

subsection \<open>Pending elements\<close>

record 'e pending =
  pend_stopped :: bool
  elements :: "'e list"

definition pending_init :: "'e pending" where
  "pending_init = \<lparr>pend_stopped = False, elements = []\<rparr>"

definition pending_exists :: "('e \<Rightarrow> bool) \<Rightarrow> 'e pending \<Rightarrow> bool" where
  "pending_exists matches p = list_ex matches (elements p)"

definition pending_store :: "'e \<Rightarrow> 'e pending \<Rightarrow> 'e pending \<times> code" where
  "pending_store e p =
     (if pend_stopped p then (p, error_service_stopped) else (p\<lparr>elements := elements p @ [e]\<rparr>, error_success))"

definition pending_store_unless :: "'e \<Rightarrow> ('e \<Rightarrow> bool) \<Rightarrow> 'e pending \<Rightarrow> 'e pending \<times> code" where
  "pending_store_unless e matches p =
     (if \<not> pend_stopped p \<and> \<not> list_ex matches (elements p) then (p\<lparr>elements := elements p @ [e]\<rparr>, error_success)
      else (p, if pend_stopped p then error_service_stopped else error_address_in_use))"

definition pending_remove :: "'e \<Rightarrow> 'e pending \<Rightarrow> 'e pending" where
  "pending_remove e p = (if e \<in> set (elements p) then p\<lparr>elements := remove1 e (elements p)\<rparr> else p)"

text \<open>Stopping and closing, with the elements that are told to stop, or to close, afterwards.\<close>

definition pending_stop :: "'e pending \<Rightarrow> 'e pending \<times> 'e list" where
  "pending_stop p = (if \<not> pend_stopped p then (p\<lparr>pend_stopped := True\<rparr>, elements p) else (p, []))"

definition pending_close :: "'e pending \<Rightarrow> 'e pending \<times> 'e list" where
  "pending_close p = (p\<lparr>elements := []\<rparr>, elements p)"

record 'e pool =
  pool :: "'e pending"
  told :: "'e list"

definition pool_init :: "'e pool" where
  "pool_init = \<lparr>pool = pending_init, told = []\<rparr>"

inductive pool_step :: "'e pool \<Rightarrow> 'e pool \<Rightarrow> bool" where
  stores: "pending_store e (pool w) = (p, ec) \<Longrightarrow> pool_step w (w\<lparr>pool := p\<rparr>)"
| stores_unless: "pending_store_unless e matches (pool w) = (p, ec) \<Longrightarrow> pool_step w (w\<lparr>pool := p\<rparr>)"
| removes: "pool_step w (w\<lparr>pool := pending_remove e (pool w)\<rparr>)"
| stops: "pending_stop (pool w) = (p, es) \<Longrightarrow> pool_step w (w\<lparr>pool := p, told := told w @ es\<rparr>)"
| closes: "pending_close (pool w) = (p, es) \<Longrightarrow> pool_step w (w\<lparr>pool := p\<rparr>)"

definition none_escapes :: "'e pool \<Rightarrow> bool" where
  "none_escapes w \<longleftrightarrow> (if pend_stopped (pool w) then set (elements (pool w)) \<subseteq> set (told w) else told w = [])"

interpretation pooling: state_machine "\<lambda>w. w = pool_init" pool_step none_escapes
proof unfold_locales
  show "none_escapes w" if "w = pool_init" for w :: "'a pool"
    using that by (simp add: none_escapes_def pool_init_def pending_init_def)
  show "none_escapes w'" if "pool_step w w'" "none_escapes w" for w w' :: "'a pool"
    using that
    by cases (auto simp: none_escapes_def pending_store_def pending_store_unless_def pending_remove_def pending_stop_def
        pending_close_def split: if_splits dest: in_set_remove1 [THEN iffD1] notin_set_remove1)
qed

text \<open>Once the collection is stopped, every element it still holds has been told to stop: none gets in behind the stop.\<close>

lemma pending_none_escapes:
  assumes "pool_step\<^sup>*\<^sup>* pool_init w" and "pend_stopped (pool w)"
  shows "set (elements (pool w)) \<subseteq> set (told w)"
  using pooling.always [OF refl assms(1)] assms(2) by (simp add: none_escapes_def)

text \<open>Elements stored unless one of the same key is there keep distinct keys.\<close>

lemma pending_keys_distinct:
  assumes "distinct (map key (elements p))" and "pending_store_unless e (\<lambda>x. key x = key e) p = (p', ec)"
  shows "distinct (map key (elements p'))" and "ec = error_success \<longleftrightarrow> \<not> pend_stopped p \<and> key e \<notin> key ` set (elements p)"
proof -
  have "list_ex (\<lambda>x. key x = key e) (elements p) \<longleftrightarrow> key e \<in> key ` set (elements p)" by (auto simp: list_ex_iff image_iff) metis
  then show "distinct (map key (elements p'))" and "ec = error_success \<longleftrightarrow> \<not> pend_stopped p \<and> key e \<notin> key ` set (elements p)"
    using assms by (auto simp: pending_store_unless_def split: if_splits)
qed

end
