(* ===== verification/Uri.thy ===== *)
theory Uri
  imports Stealth Mnemonic
begin

text \<open>
  Uniform resource identifiers: \<^verbatim>\<open>src/wallet/uri.cpp\<close>, \<^verbatim>\<open>src/wallet/bitcoin_uri.cpp\<close> and the parser template of
  \<^verbatim>\<open>include/wallet/uri_reader.hpp\<close>.  A loop that advances an iterator to a delimiter is \<open>takeWhile\<close> with \<open>dropWhile\<close>.
  A \<^verbatim>\<open>std::map\<close> is the list of its entries in the order of iteration.
\<close>

subsection \<open>Characters\<close>

definition is_alpha :: "char \<Rightarrow> bool" where
  "is_alpha c \<longleftrightarrow> 65 \<le> ord c \<and> ord c \<le> 90 \<or> 97 \<le> ord c \<and> ord c \<le> 122"

definition is_scheme :: "char \<Rightarrow> bool" where
  "is_scheme c \<longleftrightarrow> is_alpha c \<or> 48 \<le> ord c \<and> ord c \<le> 57 \<or> c = CHR ''+'' \<or> c = CHR ''-'' \<or> c = CHR ''.''"

definition is_path_char :: "char \<Rightarrow> bool" where
  "is_path_char c \<longleftrightarrow> is_alpha c \<or> 48 \<le> ord c \<and> ord c \<le> 57 \<or> c \<in> set ''-._~!$&()*+,;=:@'' \<or> c = CHR 0x27"

definition is_path :: "char \<Rightarrow> bool" where
  "is_path c \<longleftrightarrow> is_path_char c \<or> c = CHR ''/''"

definition is_query :: "char \<Rightarrow> bool" where
  "is_query c \<longleftrightarrow> is_path_char c \<or> c = CHR ''/'' \<or> c = CHR ''?''"

definition is_query_char :: "char \<Rightarrow> bool" where
  "is_query_char c \<longleftrightarrow> is_query c \<and> c \<noteq> CHR ''&'' \<and> c \<noteq> CHR ''=''"

subsection \<open>Escapes\<close>

fun validate :: "(char \<Rightarrow> bool) \<Rightarrow> string \<Rightarrow> bool" where
  "validate is_valid [] = True"
| "validate is_valid (c # cs) =
     (if c = CHR ''%'' then
        (case cs of
           a # b # rest \<Rightarrow> is_base16 a \<and> is_base16 b \<and> validate is_valid rest
         | _ \<Rightarrow> False)
      else is_valid c \<and> validate is_valid cs)"

fun unescape :: "string \<Rightarrow> string" where
  "unescape [] = []"
| "unescape (c # cs) =
     (case cs of
        a # b # rest \<Rightarrow>
          if c = CHR ''%'' \<and> is_base16 a \<and> is_base16 b then char_of (from_hex a * 16 + from_hex b) # unescape rest
          else c # unescape cs
      | _ \<Rightarrow> c # unescape cs)"

definition upper_digit :: "nat \<Rightarrow> char" where
  "upper_digit n = ''0123456789ABCDEF'' ! n"

text \<open>
  The character is widened to an \<^verbatim>\<open>int\<close> before it is written in hexadecimal, and \<^verbatim>\<open>char\<close> is signed: from 128 on the number
  is negative and has eight digits.
\<close>

definition escape_char :: "char \<Rightarrow> string" where
  "escape_char c =
     CHR ''%'' # (if ord c < 128 then [] else ''FFFFFF'') @ [upper_digit (ord c div 16), upper_digit (ord c mod 16)]"

definition escape :: "(char \<Rightarrow> bool) \<Rightarrow> string \<Rightarrow> string" where
  "escape is_valid s = concat (map (\<lambda>c. if is_valid c then [c] else escape_char c) s)"

subsection \<open>Identifiers\<close>

record uri =
  uri_scheme :: string
  uri_authority :: string
  uri_path :: string
  uri_query :: string
  uri_fragment :: string
  has_authority :: bool
  has_query :: bool
  has_fragment :: bool

definition uri_default :: uri where
  "uri_default = \<lparr>uri_scheme = [], uri_authority = [], uri_path = [], uri_query = [], uri_fragment = [],
     has_authority = False, has_query = False, has_fragment = False\<rparr>"

text \<open>The steps of \<^verbatim>\<open>decode\<close> in their order; a step that fails leaves the parts that were stored before it.\<close>

definition decode_fragment :: "bool \<Rightarrow> string \<Rightarrow> uri \<Rightarrow> bool \<times> uri" where
  "decode_fragment strict s u =
     (let u = u\<lparr>has_fragment := s \<noteq> [], uri_fragment := (if s \<noteq> [] then tl s else [])\<rparr>
      in (\<not> strict \<or> validate is_query (uri_fragment u), u))"

definition decode_query_part :: "bool \<Rightarrow> string \<Rightarrow> uri \<Rightarrow> bool \<times> uri" where
  "decode_query_part strict s u =
     (let present = s \<noteq> [] \<and> hd s \<noteq> CHR ''#'';
          s = if present then tl s else s;
          u = u\<lparr>has_query := present, uri_query := takeWhile (\<lambda>c. c \<noteq> CHR ''#'') s\<rparr>
      in if strict \<and> \<not> validate is_query (uri_query u) then (False, u)
         else decode_fragment strict (dropWhile (\<lambda>c. c \<noteq> CHR ''#'') s) u)"

definition decode_path :: "bool \<Rightarrow> string \<Rightarrow> uri \<Rightarrow> bool \<times> uri" where
  "decode_path strict s u =
     (let inside = (\<lambda>c. c \<noteq> CHR ''#'' \<and> c \<noteq> CHR ''?'');
          u = u\<lparr>uri_path := takeWhile inside s\<rparr>
      in if strict \<and> \<not> validate is_path (uri_path u) then (False, u)
         else decode_query_part strict (dropWhile inside s) u)"

definition decode_authority :: "bool \<Rightarrow> string \<Rightarrow> uri \<Rightarrow> bool \<times> uri" where
  "decode_authority strict s u =
     (let u = u\<lparr>uri_authority := [], has_authority := False\<rparr> in
      if take 2 s = ''//'' then
        let inside = (\<lambda>c. c \<noteq> CHR ''#'' \<and> c \<noteq> CHR ''?'' \<and> c \<noteq> CHR ''/'');
            u = u\<lparr>has_authority := True, uri_authority := takeWhile inside (drop 2 s)\<rparr>
        in if strict \<and> \<not> validate is_path_char (uri_authority u) then (False, u)
           else decode_path strict (dropWhile inside (drop 2 s)) u
      else decode_path strict s u)"

definition uri_decode :: "string \<Rightarrow> bool \<Rightarrow> uri \<Rightarrow> bool \<times> uri" where
  "uri_decode encoded strict u =
     (let u = u\<lparr>uri_scheme := takeWhile (\<lambda>c. c \<noteq> CHR '':'') encoded\<rparr>;
          rest = dropWhile (\<lambda>c. c \<noteq> CHR '':'') encoded
      in if uri_scheme u = [] \<or> \<not> is_alpha (hd (uri_scheme u)) then (False, u)
         else if \<not> list_all is_scheme (uri_scheme u) then (False, u)
         else if rest = [] then (False, u)
         else decode_authority strict (tl rest) u)"

definition uri_encoded :: "uri \<Rightarrow> string" where
  "uri_encoded u =
     uri_scheme u @ '':'' @ (if has_authority u then ''//'' @ uri_authority u else []) @ uri_path u @
     (if has_query u then ''?'' @ uri_query u else []) @ (if has_fragment u then ''#'' @ uri_fragment u else [])"

definition scheme_of :: "uri \<Rightarrow> string" where
  "scheme_of u = map (\<lambda>c. if 65 \<le> ord c \<and> ord c \<le> 90 then char_of (ord c - 65 + 97) else c) (uri_scheme u)"

definition set_scheme :: "string \<Rightarrow> uri \<Rightarrow> uri" where
  "set_scheme scheme u = u\<lparr>uri_scheme := scheme\<rparr>"

definition authority_of :: "uri \<Rightarrow> string" where
  "authority_of u = unescape (uri_authority u)"

definition set_authority :: "string \<Rightarrow> uri \<Rightarrow> uri" where
  "set_authority authority u = u\<lparr>has_authority := True, uri_authority := escape is_path_char authority\<rparr>"

definition remove_authority :: "uri \<Rightarrow> uri" where
  "remove_authority u = u\<lparr>has_authority := False\<rparr>"

definition path_of :: "uri \<Rightarrow> string" where
  "path_of u = unescape (uri_path u)"

definition set_path :: "string \<Rightarrow> uri \<Rightarrow> uri" where
  "set_path path u = u\<lparr>uri_path := escape is_path path\<rparr>"

definition query_of :: "uri \<Rightarrow> string" where
  "query_of u = unescape (uri_query u)"

definition set_query :: "string \<Rightarrow> uri \<Rightarrow> uri" where
  "set_query query u = u\<lparr>has_query := True, uri_query := escape is_query query\<rparr>"

definition remove_query :: "uri \<Rightarrow> uri" where
  "remove_query u = u\<lparr>has_query := False\<rparr>"

definition fragment_of :: "uri \<Rightarrow> string" where
  "fragment_of u = unescape (uri_fragment u)"

definition set_fragment :: "string \<Rightarrow> uri \<Rightarrow> uri" where
  "set_fragment fragment u = u\<lparr>has_fragment := True, uri_fragment := escape is_query fragment\<rparr>"

definition remove_fragment :: "uri \<Rightarrow> uri" where
  "remove_fragment u = u\<lparr>has_fragment := False\<rparr>"

subsection \<open>Queries\<close>

text \<open>The order of strings, by the codes of their characters.\<close>

fun string_less :: "string \<Rightarrow> string \<Rightarrow> bool" where
  "string_less [] t = (t \<noteq> [])"
| "string_less (a # s) [] = False"
| "string_less (a # s) (b # t) = (ord a < ord b \<or> a = b \<and> string_less s t)"

type_synonym query_map = "(string \<times> string) list"

fun map_assign :: "string \<Rightarrow> string \<Rightarrow> query_map \<Rightarrow> query_map" where
  "map_assign k v [] = [(k, v)]"
| "map_assign k v ((k', v') # m) =
     (if k = k' then (k, v) # m else if string_less k k' then (k, v) # (k', v') # m else (k', v') # map_assign k v m)"

text \<open>One round of the loop: the key, the value and what is left.\<close>

definition take_term :: "string \<Rightarrow> string \<times> string \<times> string" where
  "take_term s =
     (let key = takeWhile (\<lambda>c. c \<noteq> CHR ''&'' \<and> c \<noteq> CHR ''='') s;
          s = dropWhile (\<lambda>c. c \<noteq> CHR ''&'' \<and> c \<noteq> CHR ''='') s;
          s = if s \<noteq> [] \<and> hd s \<noteq> CHR ''&'' then tl s else s;
          value = takeWhile (\<lambda>c. c \<noteq> CHR ''&'') s;
          s = dropWhile (\<lambda>c. c \<noteq> CHR ''&'') s
      in (key, value, if s \<noteq> [] then tl s else s))"

lemma take_term_shorter:
  assumes "s \<noteq> []" and "take_term s = (key, value, rest)"
  shows "length rest < length s"
proof -
  define t where "t = dropWhile (\<lambda>c. c \<noteq> CHR ''&'' \<and> c \<noteq> CHR ''='') s"
  define v where "v = (if t \<noteq> [] \<and> hd t \<noteq> CHR ''&'' then tl t else t)"
  define w where "w = dropWhile (\<lambda>c. c \<noteq> CHR ''&'') v"
  have rest: "rest = (if w \<noteq> [] then tl w else w)" 
    using assms(2) unfolding take_term_def Let_def t_def [symmetric] v_def [symmetric] w_def [symmetric] by (simp only: prod.inject)
  have le: "length t \<le> length s" "length v \<le> length t" "length w \<le> length v"
    unfolding t_def v_def w_def by (simp_all only: length_dropWhile_le) simp
  show ?thesis
  proof (cases "w = []")
    case True
    then show ?thesis using rest assms(1) by simp
  next
    case False
    then have "length rest < length w" using rest by simp
    then show ?thesis using le by linarith
  qed
qed

function decode_terms :: "string \<Rightarrow> query_map \<Rightarrow> query_map" where
  "decode_terms s out =
     (if s = [] then out
      else let (key, value, rest) = take_term s in decode_terms rest (map_assign (unescape key) (unescape value) out))"
  by auto
termination by (relation "measure (\<lambda>(s, out). length s)") (simp_all, metis take_term_shorter)

declare decode_terms.simps [simp del]

definition decode_query :: "uri \<Rightarrow> query_map" where
  "decode_query u = decode_terms (uri_query u) []"

definition encode_term :: "string \<times> string \<Rightarrow> string" where
  "encode_term = (\<lambda>(key, value). escape is_query_char key @ (if value \<noteq> [] then ''='' @ escape is_query_char value else []))"

definition encode_query :: "query_map \<Rightarrow> uri \<Rightarrow> uri" where
  "encode_query m u = u\<lparr>has_query := m \<noteq> [], uri_query := join_text (map encode_term m) ''&''\<rparr>"

subsection \<open>Bitcoin identifiers\<close>

record bitcoin_uri =
  buri_strict :: bool
  buri_scheme :: string
  buri_address :: string
  buri_query :: query_map

definition bitcoin_uri_default :: bitcoin_uri where
  "bitcoin_uri_default = \<lparr>buri_strict = True, buri_scheme = [], buri_address = [], buri_query = []\<rparr>"

definition bitcoin_scheme :: string where "bitcoin_scheme = ''bitcoin''"

definition buri_valid :: "bitcoin_uri \<Rightarrow> bool" where
  "buri_valid b \<longleftrightarrow> buri_address b \<noteq> [] \<or> buri_query b \<noteq> [] \<or> buri_scheme b \<noteq> []"

definition buri_encoded :: "bitcoin_uri \<Rightarrow> string" where
  "buri_encoded b = uri_encoded (encode_query (buri_query b) (set_path (buri_address b) (set_scheme bitcoin_scheme uri_default)))"

definition parameter :: "string \<Rightarrow> bitcoin_uri \<Rightarrow> string" where
  "parameter key b = (case map_of (buri_query b) key of None \<Rightarrow> [] | Some value \<Rightarrow> value)"

definition set_term :: "string \<Rightarrow> string \<Rightarrow> bitcoin_uri \<Rightarrow> bitcoin_uri" where
  "set_term key value b = b\<lparr>buri_query := map_assign key value (buri_query b)\<rparr>"

definition set_amount :: "((char \<Rightarrow> bool) \<Rightarrow> string \<Rightarrow> string) \<Rightarrow> uint64 \<Rightarrow> bitcoin_uri \<Rightarrow> bitcoin_uri" where
  "set_amount trim_right satoshis b = set_term ''amount'' (encode_base10 trim_right satoshis 8) b"

definition set_amount_text :: "((char \<Rightarrow> bool) \<Rightarrow> string \<Rightarrow> string) \<Rightarrow> string \<Rightarrow> bitcoin_uri \<Rightarrow> bool \<times> bitcoin_uri" where
  "set_amount_text trim_right satoshis b =
     (case decode_base10 satoshis 8 (buri_strict b) of
        None \<Rightarrow> (False, b)
      | Some decoded \<Rightarrow> (True, set_amount trim_right decoded b))"

text \<open>The parsing of an address may leave the bounds of its array (see \<open>Payment_Address\<close>), which is \<open>None\<close>.\<close>

definition set_address :: "currency \<Rightarrow> hash_functions \<Rightarrow> string \<Rightarrow> string \<Rightarrow> bitcoin_uri \<Rightarrow> (bool \<times> bitcoin_uri) option" where
  "set_address cur H cashaddr_prefix address b =
     (case address_from_string cur H cashaddr_prefix address of
        None \<Rightarrow> None
      | Some payment \<Rightarrow>
          Some (if addr_valid payment \<or> sa_valid (stealth_from_string H address) then (True, b\<lparr>buri_address := address\<rparr>) else (False, b)))"

definition buri_set_scheme :: "string \<Rightarrow> bitcoin_uri \<Rightarrow> bool \<times> bitcoin_uri" where
  "buri_set_scheme scheme b = (if scheme = bitcoin_scheme then (True, b\<lparr>buri_scheme := scheme\<rparr>) else (False, b))"

definition buri_set_path :: "currency \<Rightarrow> hash_functions \<Rightarrow> string \<Rightarrow> string \<Rightarrow> bitcoin_uri \<Rightarrow> (bool \<times> bitcoin_uri) option" where
  "buri_set_path cur H cashaddr_prefix path b =
     (if buri_address b = [] then set_address cur H cashaddr_prefix path b else Some (False, b))"

definition buri_set_authority :: "currency \<Rightarrow> hash_functions \<Rightarrow> string \<Rightarrow> string \<Rightarrow> bitcoin_uri \<Rightarrow> (bool \<times> bitcoin_uri) option" where
  "buri_set_authority cur H cashaddr_prefix authority b =
     (if \<not> buri_strict b then buri_set_path cur H cashaddr_prefix authority b else Some (False, b))"

definition set_parameter :: "((char \<Rightarrow> bool) \<Rightarrow> string \<Rightarrow> string) \<Rightarrow> string \<Rightarrow> string \<Rightarrow> bitcoin_uri \<Rightarrow> bool \<times> bitcoin_uri" where
  "set_parameter trim_right key value b =
     (if key = ''amount'' then set_amount_text trim_right value b
      else (take 4 key \<noteq> ''req-'', if key = ''label'' \<or> key = ''message'' \<or> key = ''r'' then set_term key value b else b))"

fun set_parameters :: "((char \<Rightarrow> bool) \<Rightarrow> string \<Rightarrow> string) \<Rightarrow> query_map \<Rightarrow> bitcoin_uri \<Rightarrow> bitcoin_uri" where
  "set_parameters trim_right [] b = b"
| "set_parameters trim_right ((key, value) # m) b =
     (if key = [] then set_parameters trim_right m b
      else let (ok, b) = set_parameter trim_right key value b
           in if ok then set_parameters trim_right m b else bitcoin_uri_default)"

text \<open>
  \<^verbatim>\<open>uri_reader::parse\<close> for this reader; the answer of \<^verbatim>\<open>set_scheme\<close> is dropped, and \<^verbatim>\<open>set_fragment\<close> always fails.
\<close>

definition buri_parse ::
  "currency \<Rightarrow> hash_functions \<Rightarrow> string \<Rightarrow> ((char \<Rightarrow> bool) \<Rightarrow> string \<Rightarrow> string) \<Rightarrow> string \<Rightarrow> bool \<Rightarrow> bitcoin_uri option" where
  "buri_parse cur H cashaddr_prefix trim_right text strict =
     (let (ok, parsed) = uri_decode text strict uri_default in
      if \<not> ok then Some bitcoin_uri_default
      else
        let out = snd (buri_set_scheme (scheme_of parsed) (bitcoin_uri_default\<lparr>buri_strict := strict\<rparr>)) in do {
          (ok, out) \<leftarrow> (if has_authority parsed then buri_set_authority cur H cashaddr_prefix (authority_of parsed) out else Some (True, out));
          if \<not> ok then Some bitcoin_uri_default else do {
            (ok, out) \<leftarrow> (if path_of parsed \<noteq> [] then buri_set_path cur H cashaddr_prefix (path_of parsed) out else Some (True, out));
            if \<not> ok then Some bitcoin_uri_default
            else if has_fragment parsed then Some bitcoin_uri_default
            else Some (set_parameters trim_right (decode_query parsed) out)
          }
        })"

subsection \<open>Escapes read back\<close>

lemma upper_digit_facts: "n < 16 \<Longrightarrow> is_base16 (upper_digit n) \<and> from_hex (upper_digit n) = n"
  by (drule less_16_cases, elim disjE) (simp_all add: upper_digit_def is_base16_def from_hex_def)

lemma escape_simps [simp]:
  "escape ok [] = []" "escape ok (c # cs) = (if ok c then [c] else escape_char c) @ escape ok cs"
  by (simp_all add: escape_def)

text \<open>The text of ASCII characters survives the escapes, and what is escaped is valid.\<close>

lemma escape_round_trip:
  assumes "list_all (\<lambda>c. ord c < 128) s" and "\<not> ok CHR ''%''"
  shows "unescape (escape ok s) = s" and "validate ok (escape ok s)"
proof -
  have digits: "is_base16 (upper_digit (ord c div 16))" "is_base16 (upper_digit (ord c mod 16))"
    "from_hex (upper_digit (ord c div 16)) * 16 + from_hex (upper_digit (ord c mod 16)) = ord c" if "ord c < 128" for c
    using that upper_digit_facts [of "ord c div 16"] upper_digit_facts [of "ord c mod 16"] by simp_all
  have plain: "unescape (c # t) = c # unescape t" if "c \<noteq> CHR ''%''" for c t
    using that by (simp split: list.split)
  show "unescape (escape ok s) = s"
    using assms
  proof (induction s)
    case (Cons c s)
    show ?case
    proof (cases "ok c")
      case True
      then have "c \<noteq> CHR ''%''" using Cons.prems(2) by auto
      then show ?thesis using True Cons plain by (simp del: unescape.simps)
    next
      case False
      then show ?thesis using Cons digits [of c] by (simp add: escape_char_def)
    qed
  qed simp
  show "validate ok (escape ok s)"
    using assms
  proof (induction s)
    case (Cons c s)
    then show ?case using digits [of c] by (cases "ok c") (auto simp: escape_char_def)
  qed simp
qed

subsection \<open>Decoding loses nothing\<close>

lemma until_hash: "s = [] \<or> hd s = CHR ''#'' \<Longrightarrow> decode_fragment strict s u = (ok, u') \<Longrightarrow>
    (if has_fragment u' then ''#'' @ uri_fragment u' else []) = s"
  by (cases s) (auto simp: decode_fragment_def Let_def)

lemma dropWhile_stops: "dropWhile (\<lambda>c. c \<noteq> x) s = [] \<or> hd (dropWhile (\<lambda>c. c \<noteq> x) s) = x"
  by (induction s) auto

lemma dropWhile_stops2: "dropWhile (\<lambda>c. c \<noteq> x \<and> c \<noteq> y) s = [] \<or> hd (dropWhile (\<lambda>c. c \<noteq> x \<and> c \<noteq> y) s) = x \<or>
    hd (dropWhile (\<lambda>c. c \<noteq> x \<and> c \<noteq> y) s) = y"
  by (induction s) auto

lemma decode_fragment_keeps:
  "decode_fragment strict s u = (ok, u') \<Longrightarrow> u' = u\<lparr>has_fragment := has_fragment u', uri_fragment := uri_fragment u'\<rparr>"
  by (auto simp: decode_fragment_def Let_def)

lemma decode_query_lossless:
  assumes "s = [] \<or> hd s = CHR ''#'' \<or> hd s = CHR ''?''" and "decode_query_part strict s u = (True, u')"
  shows "(if has_query u' then ''?'' @ uri_query u' else []) @ (if has_fragment u' then ''#'' @ uri_fragment u' else []) = s"
    and "uri_scheme u' = uri_scheme u \<and> has_authority u' = has_authority u \<and> uri_authority u' = uri_authority u \<and> uri_path u' = uri_path u"
proof -
  let ?present = "s \<noteq> [] \<and> hd s \<noteq> CHR ''#''"
  define t where "t = (if ?present then tl s else s)"
  define v where "v = u\<lparr>has_query := ?present, uri_query := takeWhile (\<lambda>c. c \<noteq> CHR ''#'') t\<rparr>"
  have rest: "decode_fragment strict (dropWhile (\<lambda>c. c \<noteq> CHR ''#'') t) v = (True, u')"
    using assms(2) unfolding decode_query_part_def Let_def t_def [symmetric] v_def [symmetric] by (simp split: if_splits)
  note keeps = decode_fragment_keeps [OF rest]
  have parts: "has_query u' = ?present" "uri_query u' = takeWhile (\<lambda>c. c \<noteq> CHR ''#'') t"
    by (subst keeps, simp add: v_def)+
  have "(if has_fragment u' then ''#'' @ uri_fragment u' else []) = dropWhile (\<lambda>c. c \<noteq> CHR ''#'') t"
    by (rule until_hash [OF dropWhile_stops rest])
  then have "(if has_query u' then ''?'' @ uri_query u' else []) @ (if has_fragment u' then ''#'' @ uri_fragment u' else []) =
      (if ?present then ''?'' @ takeWhile (\<lambda>c. c \<noteq> CHR ''#'') t else []) @ dropWhile (\<lambda>c. c \<noteq> CHR ''#'') t"
    by (simp only: parts)
  also have "\<dots> = s" using assms(1) by (cases s) (auto simp: t_def)
  finally show "(if has_query u' then ''?'' @ uri_query u' else []) @ (if has_fragment u' then ''#'' @ uri_fragment u' else []) = s" .
  show "uri_scheme u' = uri_scheme u \<and> has_authority u' = has_authority u \<and> uri_authority u' = uri_authority u \<and> uri_path u' = uri_path u"
    by (subst keeps, simp add: v_def)+
qed

lemma decode_path_lossless:
  assumes "decode_path strict s u = (True, u')"
  shows "uri_path u' @ (if has_query u' then ''?'' @ uri_query u' else []) @ (if has_fragment u' then ''#'' @ uri_fragment u' else []) = s"
    and "uri_scheme u' = uri_scheme u \<and> has_authority u' = has_authority u \<and> uri_authority u' = uri_authority u"
proof -
  let ?in = "\<lambda>c. c \<noteq> CHR ''#'' \<and> c \<noteq> CHR ''?''"
  have rest: "decode_query_part strict (dropWhile ?in s) (u\<lparr>uri_path := takeWhile ?in s\<rparr>) = (True, u')"
    using assms by (simp add: decode_path_def Let_def split: if_splits)
  note parts = decode_query_lossless [OF dropWhile_stops2 rest]
  show "uri_path u' @ (if has_query u' then ''?'' @ uri_query u' else []) @ (if has_fragment u' then ''#'' @ uri_fragment u' else []) = s"
    unfolding parts(1) using parts(2) by simp
  show "uri_scheme u' = uri_scheme u \<and> has_authority u' = has_authority u \<and> uri_authority u' = uri_authority u" using parts(2) by simp
qed

lemma decode_authority_lossless:
  assumes "decode_authority strict s u = (True, u')"
  shows "(if has_authority u' then ''//'' @ uri_authority u' else []) @ uri_path u' @ (if has_query u' then ''?'' @ uri_query u' else []) @
      (if has_fragment u' then ''#'' @ uri_fragment u' else []) = s"
    and "uri_scheme u' = uri_scheme u"
proof -
  let ?in = "\<lambda>c. c \<noteq> CHR ''#'' \<and> c \<noteq> CHR ''?'' \<and> c \<noteq> CHR ''/''"
  have "(if has_authority u' then ''//'' @ uri_authority u' else []) @ uri_path u' @ (if has_query u' then ''?'' @ uri_query u' else []) @
      (if has_fragment u' then ''#'' @ uri_fragment u' else []) = s \<and> uri_scheme u' = uri_scheme u"
  proof (cases "take 2 s = ''//''")
    case True
    have "decode_path strict (dropWhile ?in (drop 2 s)) (u\<lparr>has_authority := True, uri_authority := takeWhile ?in (drop 2 s)\<rparr>) = (True, u')"
      using assms True by (simp add: decode_authority_def Let_def split: if_splits)
    note parts = decode_path_lossless [OF this]
    show ?thesis unfolding parts(1) using parts(2) True append_take_drop_id [of 2 s] by (simp del: append_take_drop_id)
  next
    case False
    then have "decode_path strict s (u\<lparr>uri_authority := [], has_authority := False\<rparr>) = (True, u')"
      using assms by (simp add: decode_authority_def Let_def)
    note parts = decode_path_lossless [OF this]
    show ?thesis unfolding parts(1) using parts(2) by simp
  qed
  then show "(if has_authority u' then ''//'' @ uri_authority u' else []) @ uri_path u' @ (if has_query u' then ''?'' @ uri_query u' else []) @
      (if has_fragment u' then ''#'' @ uri_fragment u' else []) = s" and "uri_scheme u' = uri_scheme u" by blast+
qed

text \<open>Any text that decodes, strictly or not, is encoded to itself.\<close>

theorem uri_lossless:
  assumes "uri_decode s strict u = (True, u')"
  shows "uri_encoded u' = s"
proof -
  let ?in = "\<lambda>c. c \<noteq> CHR '':''"
  have colon: "dropWhile ?in s \<noteq> []" and rest: "decode_authority strict (tl (dropWhile ?in s)) (u\<lparr>uri_scheme := takeWhile ?in s\<rparr>) = (True, u')"
    using assms by (auto simp: uri_decode_def Let_def split: if_splits)
  have "hd (dropWhile ?in s) = CHR '':''" using dropWhile_stops [of "CHR '':''" s] colon by blast
  then have "CHR '':'' # tl (dropWhile ?in s) = dropWhile ?in s" using colon by (metis list.collapse)
  then show ?thesis
    unfolding uri_encoded_def decode_authority_lossless [OF rest] by simp
qed

theorem uri_lossless_witness:
  "\<exists>u. uri_decode ''http://a.b/c?d=e#f'' True uri_default = (True, u) \<and> uri_query u = ''d=e'' \<and> uri_encoded u = ''http://a.b/c?d=e#f''"
proof -
  obtain u where u: "uri_decode ''http://a.b/c?d=e#f'' True uri_default = (True, u)" "uri_query u = ''d=e''"
    by (simp add: uri_decode_def decode_authority_def decode_path_def decode_query_part_def decode_fragment_def Let_def uri_default_def
        is_alpha_def is_scheme_def is_path_char_def is_path_def is_query_def)
  then show ?thesis using uri_lossless [OF u(1)] by blast
qed

subsection \<open>Queries read back\<close>

lemma escape_chars: "c \<in> set (escape ok s) \<Longrightarrow> ok c \<or> c = CHR ''%'' \<or> is_base16 c"
proof (induction s)
  case (Cons d s)
  have "ord d div 16 < 16" "ord d mod 16 < 16" using nat_of_char_less_256 [of d] by (auto intro: less_mult_imp_div_less)
  then have "is_base16 (upper_digit (ord d div 16))" "is_base16 (upper_digit (ord d mod 16))" using upper_digit_facts by blast+
  moreover have "is_base16 CHR ''F''" by (simp add: is_base16_def)
  ultimately show ?case using Cons by (auto simp: escape_char_def split: if_splits)
qed simp

lemma query_chars: "c \<in> set (escape is_query_char s) \<Longrightarrow> c \<noteq> CHR ''&'' \<and> c \<noteq> CHR ''=''"
  using escape_chars [of c is_query_char s] by (auto simp: is_query_char_def is_base16_def)

lemma percent_escaped: "\<not> is_query_char CHR ''%''" "\<not> is_path CHR ''%''" "\<not> is_query CHR ''%''"
  by (simp_all add: is_query_char_def is_query_def is_path_def is_path_char_def is_alpha_def)

lemma takeWhile_until: "\<forall>c \<in> set s. P c \<Longrightarrow> t = [] \<or> \<not> P (hd t) \<Longrightarrow> takeWhile P (s @ t) = s"
  by (induction s; cases t) auto

lemma dropWhile_until: "\<forall>c \<in> set s. P c \<Longrightarrow> t = [] \<or> \<not> P (hd t) \<Longrightarrow> dropWhile P (s @ t) = t"
  by (induction s; cases t) auto

lemma take_term_parts:
  assumes "\<forall>c \<in> set k. c \<noteq> CHR ''&'' \<and> c \<noteq> CHR ''=''" and "\<forall>c \<in> set v. c \<noteq> CHR ''&''" and "t = [] \<or> hd t = CHR ''&''"
    and "u = t \<and> v = [] \<or> u = CHR ''='' # v @ t"
  shows "take_term (k @ u) = (k, v, if t = [] then [] else tl t)"
proof -
  have u: "u = [] \<or> \<not> (hd u \<noteq> CHR ''&'' \<and> hd u \<noteq> CHR ''='')" using assms(3,4) by auto
  have t: "t = [] \<or> \<not> hd t \<noteq> CHR ''&''" using assms(3) by simp
  have rest: "(if u \<noteq> [] \<and> hd u \<noteq> CHR ''&'' then tl u else u) = v @ t" using assms(3,4) by auto
  show ?thesis
    unfolding take_term_def Let_def takeWhile_until [OF assms(1) u] dropWhile_until [OF assms(1) u] rest
      takeWhile_until [OF assms(2) t] dropWhile_until [OF assms(2) t]
    by simp
qed

lemma take_term_encoded:
  assumes "t = [] \<or> hd t = CHR ''&''"
  shows "take_term (encode_term (k, v) @ t) = (escape is_query_char k, escape is_query_char v, if t = [] then [] else tl t)"
proof -
  have "encode_term (k, v) @ t = escape is_query_char k @ ((if v \<noteq> [] then ''='' @ escape is_query_char v else []) @ t)"
    by (simp add: encode_term_def)
  then show ?thesis
    using take_term_parts [of "escape is_query_char k" "escape is_query_char v" t "(if v \<noteq> [] then ''='' @ escape is_query_char v else []) @ t"]
      assms query_chars by auto
qed

lemma encode_term_nonempty: "k \<noteq> [] \<Longrightarrow> encode_term (k, v) \<noteq> []"
  by (cases k) (auto simp: encode_term_def escape_char_def)

text \<open>The decoder assigns the terms one after the other.\<close>

lemma decode_terms_encoded:
  assumes "list_all (\<lambda>(k, v). k \<noteq> [] \<and> list_all (\<lambda>c. ord c < 128) k \<and> list_all (\<lambda>c. ord c < 128) v) m"
  shows "decode_terms (join_text (map encode_term m) ''&'') out = fold (\<lambda>(k, v). map_assign k v) m out"
  using assms
proof (induction m arbitrary: out)
  case Nil
  then show ?case by (simp add: decode_terms.simps)
next
  case (Cons tm m)
  obtain k v where tm: "tm = (k, v)" by fastforce
  have read: "unescape (escape is_query_char k) = k" "unescape (escape is_query_char v) = v"
    using Cons.prems escape_round_trip(1) [of _ is_query_char] percent_escaped by (simp_all add: tm)
  have nonempty: "encode_term tm \<noteq> []" using Cons.prems encode_term_nonempty by (simp add: tm)
  show ?case
  proof (cases m)
    case Nil
    have "take_term (encode_term tm) = (escape is_query_char k, escape is_query_char v, [])"
      using take_term_encoded [of "[]" k v] by (simp add: tm)
    then show ?thesis using Nil nonempty read by (subst decode_terms.simps) (simp add: decode_terms.simps [of "[]"] tm)
  next
    case (Cons t m')
    let ?rest = "join_text (map encode_term m) ''&''"
    have "take_term (encode_term tm @ CHR ''&'' # ?rest) = (escape is_query_char k, escape is_query_char v, ?rest)"
      using take_term_encoded [of "CHR ''&'' # ?rest" k v] by (simp add: tm)
    moreover have "join_text (map encode_term (tm # m)) ''&'' = encode_term tm @ CHR ''&'' # ?rest" using Cons by simp
    ultimately show ?thesis
      using nonempty read Cons.IH [of "map_assign k v out"] Cons.prems by (subst decode_terms.simps) (simp add: tm)
  qed
qed

lemma string_less_facts: "\<not> string_less s s" "string_less s t \<Longrightarrow> \<not> string_less t s \<and> s \<noteq> t"
proof -
  show irrefl: "\<not> string_less s s" for s by (induction s) auto
  have "string_less s t \<Longrightarrow> \<not> string_less t s" for s t 
  proof (induction s t rule: string_less.induct)
    case (1 t)
    then show ?case by (cases t) auto
  qed auto
  then show "string_less s t \<Longrightarrow> \<not> string_less t s \<and> s \<noteq> t" using irrefl by blast
qed

abbreviation map_ordered :: "query_map \<Rightarrow> bool" where
  "map_ordered \<equiv> sorted_wrt (\<lambda>x y. string_less (fst x) (fst y))"

lemma map_assign_last:
  "\<forall>x \<in> set out. string_less (fst x) k \<Longrightarrow> map_assign k v out = out @ [(k, v)]"
  by (induction out) (use string_less_facts in auto)

lemma assign_ordered: "map_ordered (out @ m) \<Longrightarrow> fold (\<lambda>(k, v). map_assign k v) m out = out @ m"
proof (induction m arbitrary: out)
  case (Cons tm m)
  have "map_assign (fst tm) (snd tm) out = out @ [tm]"
    using Cons.prems map_assign_last [of out "fst tm" "snd tm"] by (simp add: sorted_wrt_append)
  then show ?case using Cons.IH [of "out @ [tm]"] Cons.prems by (simp add: case_prod_beta)
qed simp

text \<open>A query of ASCII terms with nonempty keys survives its text.\<close>

lemma query_round_trip:
  assumes "map_ordered m" and "list_all (\<lambda>(k, v). k \<noteq> [] \<and> list_all (\<lambda>c. ord c < 128) k \<and> list_all (\<lambda>c. ord c < 128) v) m"
  shows "decode_query (encode_query m u) = m"
  using decode_terms_encoded [OF assms(2), of "[]"] assign_ordered [of "[]" m] assms(1) by (simp add: decode_query_def encode_query_def)

subsection \<open>Bitcoin identifiers read back\<close>

lemma validate_append: "validate ok s \<Longrightarrow> validate ok t \<Longrightarrow> validate ok (s @ t)"
proof (induction ok s rule: validate.induct)
  case (2 ok c cs)
  show ?case
  proof (cases "c = CHR ''%''")
    case True
    with 2(3) obtain a b rest where "cs = a # b # rest" by (auto split: list.splits)
    with True 2 show ?thesis by simp
  qed (use 2 in auto)
qed simp

lemma validate_plain: "list_all ok s \<Longrightarrow> CHR ''%'' \<notin> set s \<Longrightarrow> validate ok s"
  by (induction s) auto

lemma validate_weaken: "validate ok s \<Longrightarrow> (\<And>c. ok c \<Longrightarrow> ok' c) \<Longrightarrow> validate ok' s"
  by (induction ok s rule: validate.induct) (auto split: list.splits if_splits)

lemma encode_term_valid:
  assumes "list_all (\<lambda>c. ord c < 128) k" and "list_all (\<lambda>c. ord c < 128) v"
  shows "validate is_query (encode_term (k, v))"
proof -
  have "validate is_query (escape is_query_char s)" if "list_all (\<lambda>c. ord c < 128) s" for s
    using validate_weaken [OF escape_round_trip(2) [of s is_query_char]] that percent_escaped(1) by (auto simp: is_query_char_def)
  moreover have "validate is_query ''=''" by (simp add: is_query_def is_path_char_def)
  ultimately show ?thesis using assms validate_append by (auto simp: encode_term_def simp del: append_Cons intro!: validate_append)
qed

abbreviation ascii_terms :: "query_map \<Rightarrow> bool" where
  "ascii_terms \<equiv> list_all (\<lambda>(k, v). k \<noteq> [] \<and> list_all (\<lambda>c. ord c < 128) k \<and> list_all (\<lambda>c. ord c < 128) v)"

lemma query_valid: "ascii_terms m \<Longrightarrow> validate is_query (join_text (map encode_term m) ''&'')"
proof (induction m)
  case (Cons tm m)
  have "validate is_query (encode_term tm)" using Cons.prems encode_term_valid by (cases tm) simp
  moreover have "validate is_query ''&''" by (simp add: is_query_def is_path_char_def)
  ultimately show ?case using Cons by (cases m) (auto simp del: append_Cons intro!: validate_append)
qed simp

lemma hash_not_in_query: "CHR ''#'' \<notin> set (join_text (map encode_term m) ''&'')"
proof -
  have "CHR ''#'' \<notin> set (escape is_query_char s)" for s
    using escape_chars [of "CHR ''#''" is_query_char s] by (auto simp: is_query_char_def is_query_def is_path_char_def is_alpha_def is_base16_def)
  then have "CHR ''#'' \<notin> set (encode_term tm)" for tm by (cases tm) (simp add: encode_term_def)
  then show ?thesis by (induction m rule: induct_list012) auto
qed

text \<open>What a reader decodes of an identifier with a path that needs no escapes.\<close>

lemma decode_simple:
  assumes "list_all is_path p" and "p \<noteq> []" and "hd p \<noteq> CHR ''/''" and "ascii_terms m"
    and "sch \<noteq> []" and "is_alpha (hd sch)" and "list_all is_scheme sch"
  shows "uri_decode (sch @ '':'' @ p @ (if m \<noteq> [] then ''?'' @ join_text (map encode_term m) ''&'' else [])) True uri_default =
    (True, uri_default\<lparr>uri_scheme := sch, uri_path := p, has_query := m \<noteq> [], uri_query := join_text (map encode_term m) ''&''\<rparr>)"
proof -
  let ?q = "join_text (map encode_term m) ''&''"
  let ?tail = "if m \<noteq> [] then ''?'' @ ?q else []"
  let ?in = "\<lambda>c. c \<noteq> CHR ''#'' \<and> c \<noteq> CHR ''?''"
  have p: "\<forall>c \<in> set p. ?in c" and "CHR ''%'' \<notin> set p"
    using assms(1) by (auto simp: list_all_iff is_path_def is_path_char_def is_alpha_def)
  then have valid: "validate is_path p" using assms(1) validate_plain by blast
  have tail: "?tail = [] \<or> \<not> ?in (hd ?tail)" by simp
  have query: "decode_query_part True ?tail u = (True, u\<lparr>has_query := m \<noteq> [], uri_query := ?q, has_fragment := False, uri_fragment := []\<rparr>)" for u
  proof -
    have all: "takeWhile (\<lambda>c. c \<noteq> CHR ''#'') ?q = ?q" "dropWhile (\<lambda>c. c \<noteq> CHR ''#'') ?q = []"
      using hash_not_in_query [of m] by (auto simp: takeWhile_eq_all_conv)
    have start: "(if m \<noteq> [] then tl ?tail else ?tail) = ?q" "(?tail \<noteq> [] \<and> hd ?tail \<noteq> CHR ''#'') = (m \<noteq> [])"
      by simp_all
    show ?thesis
      unfolding decode_query_part_def Let_def start all using query_valid [OF assms(4)] by (simp add: decode_fragment_def)
  qed
  have path: "decode_path True (p @ ?tail) u = (True, u\<lparr>uri_path := p, has_query := m \<noteq> [], uri_query := ?q, has_fragment := False, uri_fragment := []\<rparr>)" for u
    unfolding decode_path_def Let_def takeWhile_until [OF p tail] dropWhile_until [OF p tail] query using valid by simp
  have slash: "take 2 (p @ ?tail) \<noteq> ''//''" using assms(2,3) by (cases p) auto
  have authority: "decode_authority True (p @ ?tail) u = decode_path True (p @ ?tail) (u\<lparr>uri_authority := [], has_authority := False\<rparr>)" for u
    unfolding decode_authority_def Let_def using slash by (simp only: if_False)
  have colon: "\<forall>c \<in> set sch. c \<noteq> CHR '':''" using assms(7) by (auto simp: list_all_iff is_scheme_def is_alpha_def)
  have "takeWhile (\<lambda>c. c \<noteq> CHR '':'') (sch @ '':'' @ r) = sch" "dropWhile (\<lambda>c. c \<noteq> CHR '':'') (sch @ '':'' @ r) = '':'' @ r" for r
    by (rule takeWhile_until [OF colon] dropWhile_until [OF colon], simp)+
  then show ?thesis
    unfolding uri_decode_def Let_def using assms(5-7) by (simp add: authority path uri_default_def)
qed

definition buri_keys :: "string set" where
  "buri_keys = {''amount'', ''label'', ''message'', ''r''}"

text \<open>The parameters are assigned again, the amount in its normal form.\<close>

lemma set_parameters_assign:
  assumes "trims_right trim_right" and "fst ` set m \<subseteq> buri_keys"
    and "\<And>v. (''amount'', v) \<in> set m \<Longrightarrow> \<exists>n. v = encode_base10 trim_right n 8"
  shows "set_parameters trim_right m b = b\<lparr>buri_query := fold (\<lambda>(k, v). map_assign k v) m (buri_query b)\<rparr>"
  using assms(2,3)
proof (induction m arbitrary: b)
  case (Cons tm m)
  obtain k v where tm: "tm = (k, v)" by fastforce
  have "set_parameter trim_right k v b = (True, set_term k v b)"
  proof (cases "k = ''amount''")
    case True
    then obtain n where v: "v = encode_base10 trim_right n 8" using Cons.prems(2) by (auto simp: tm)
    then show ?thesis
      using True base10_round_trip [OF assms(1), of n 8 "buri_strict b"] by (simp add: set_parameter_def set_amount_text_def set_amount_def)
  next
    case False
    then show ?thesis using Cons.prems(1) by (auto simp: set_parameter_def tm buri_keys_def)
  qed
  moreover have "k \<noteq> []" using Cons.prems(1) by (auto simp: tm buri_keys_def)
  ultimately show ?case using Cons.IH [of "set_term k v b"] Cons.prems by (simp add: tm set_term_def)
qed simp

lemma base58_path: "is_base58 s \<Longrightarrow> list_all is_path s"
proof -
  have "list_all is_path base58_chars"
    by (simp add: base58_chars_def is_path_def is_path_char_def is_alpha_def)
  then show "is_base58 s \<Longrightarrow> list_all is_path s" by (auto simp: is_base58_def is_base58_char_def list_all_iff)
qed

lemma escape_all: "list_all ok s \<Longrightarrow> escape ok s = s"
  by (induction s) simp_all

lemma unescape_path:
  assumes "list_all is_path p"
  shows "unescape p = p"
proof -
  have "list_all (\<lambda>c. ord c < 128) p" using assms by (auto simp: list_all_iff is_path_def is_path_char_def is_alpha_def)
  then show ?thesis using escape_round_trip(1) [of p is_path] percent_escaped(2) escape_all [OF assms] by simp
qed

text \<open>The text of an address is a path without escapes.\<close>

lemma address_text:
  assumes "length (addr_hash a) = 20"
  shows "list_all is_path (address_encoded H a)" and "address_encoded H a \<noteq> []" and "hd (address_encoded H a) \<noteq> CHR ''/''"
proof -
  let ?p = "address_encoded H a"
  show "list_all is_path ?p" by (intro base58_path) (simp add: address_encoded_def encode_base58_valid)
  have data: "decode_base58 ?p = Some (append_checksum H (addr_version a # addr_hash a))"
    using checked_array_exact [of "[[addr_version a], addr_hash a]" 25 H] assms by (simp add: address_encoded_def decode_encode_base58)
  show nonempty: "?p \<noteq> []"
  proof
    assume "?p = []"
    moreover have "decode_base58 [] = Some []" by code_simp
    ultimately show False using data by (simp add: append_checksum_def)
  qed
  have "CHR ''/'' \<notin> set base58_chars" by (simp add: base58_chars_def)
  then show "hd ?p \<noteq> CHR ''/''"
    using encode_base58_valid hd_in_set [OF nonempty] by (auto simp: address_encoded_def is_base58_def is_base58_char_def list_all_iff)
qed

text \<open>
  C38. A bitcoin identifier of a payment address with amount, label, message and payment
  request survives its text, if the texts are ASCII.
\<close>

theorem bitcoin_uri_round_trip:
  assumes "trims_right trim_right" and "addr_valid a" and "length (addr_hash a) = 20"
    and "b = \<lparr>buri_strict = True, buri_scheme = bitcoin_scheme, buri_address = address_encoded H a, buri_query = m\<rparr>"
    and "map_ordered m" and "fst ` set m \<subseteq> buri_keys" and "\<forall>(k, v) \<in> set m. list_all (\<lambda>c. ord c < 128) v"
    and "\<And>v. (''amount'', v) \<in> set m \<Longrightarrow> \<exists>n. v = encode_base10 trim_right n 8"
  shows "buri_parse cur H pfx trim_right (buri_encoded b) True = Some b"
proof -
  let ?p = "address_encoded H a"
  have p: "list_all is_path ?p" by (rule address_text(1) [OF assms(3)])
  have address: "address_from_string cur H pfx ?p = Some a" using address_round_trip [OF assms(2,3)] by blast
  note nonempty = address_text(2) [OF assms(3), of H] and slash = address_text(3) [OF assms(3), of H]
  have "list_all (\<lambda>c. ord c < 128) k \<and> k \<noteq> []" if "k \<in> buri_keys" for k using that by (auto simp: buri_keys_def)
  then have ascii: "ascii_terms m" using assms(6,7) by (fastforce simp: list_all_iff)
  have encoded: "buri_encoded b = bitcoin_scheme @ '':'' @ ?p @ (if m \<noteq> [] then ''?'' @ join_text (map encode_term m) ''&'' else [])"
    by (simp add: buri_encoded_def uri_encoded_def encode_query_def set_path_def set_scheme_def uri_default_def escape_all p assms(4))
  let ?u = "uri_default\<lparr>uri_scheme := bitcoin_scheme, uri_path := ?p, has_query := m \<noteq> [], uri_query := join_text (map encode_term m) ''&''\<rparr>"
  have decoded: "uri_decode (buri_encoded b) True uri_default = (True, ?u)"
    unfolding encoded
    by (rule decode_simple [OF p nonempty slash ascii]) (simp_all add: bitcoin_scheme_def is_scheme_def is_alpha_def)
  have path: "path_of ?u = ?p" by (simp add: path_of_def unescape_path [OF p])
  have scheme: "scheme_of ?u = bitcoin_scheme" by (simp add: scheme_of_def bitcoin_scheme_def)
  have query: "decode_query ?u = m"
    using query_round_trip [OF assms(5) ascii, of uri_default] by (simp add: decode_query_def encode_query_def)
  have parts: "has_authority ?u = False" "has_fragment ?u = False" by (simp_all add: uri_default_def)
  let ?b = "\<lparr>buri_strict = True, buri_scheme = bitcoin_scheme, buri_address = ?p, buri_query = []\<rparr>"
  have "set_parameters trim_right m ?b = b"
    using set_parameters_assign [OF assms(1,6,8), of ?b] assign_ordered [of "[]" m] assms(5) by (simp add: assms(4))
  moreover have "buri_set_path cur H pfx ?p \<lparr>buri_strict = True, buri_scheme = bitcoin_scheme, buri_address = [], buri_query = []\<rparr> = Some (True, ?b)"
    by (simp add: buri_set_path_def set_address_def address assms(2))
  moreover have "snd (buri_set_scheme bitcoin_scheme (bitcoin_uri_default\<lparr>buri_strict := True\<rparr>)) =
      \<lparr>buri_strict = True, buri_scheme = bitcoin_scheme, buri_address = [], buri_query = []\<rparr>"
    by (simp add: buri_set_scheme_def bitcoin_uri_default_def)
  ultimately show ?thesis
    unfolding buri_parse_def Let_def decoded prod.case scheme path query parts using nonempty by simp
qed

text \<open>
  A character from 128 on does not survive: it is escaped with eight digits, of which two are read back.
\<close>

lemma escape_high_character:
  assumes "128 \<le> ord c" and "\<not> ok c"
  shows "unescape (escape ok [c]) = CHR 0xFF # ''FFFF'' @ [upper_digit (ord c div 16), upper_digit (ord c mod 16)]"
  using assms by (simp add: escape_char_def is_base16_def from_hex_def char_of_def bit_0)

text \<open>
  The scheme of an identifier is not enforced: under another scheme the address is accepted, as a valid identifier
  without scheme.
\<close>

lemma scheme_not_enforced:
  assumes "addr_valid a" and "length (addr_hash a) = 20"
  shows "buri_parse cur H pfx trim_right (''ether:'' @ address_encoded H a) True =
    Some \<lparr>buri_strict = True, buri_scheme = [], buri_address = address_encoded H a, buri_query = []\<rparr>"
proof -
  let ?p = "address_encoded H a"
  let ?u = "uri_default\<lparr>uri_scheme := ''ether'', uri_path := ?p, has_query := False, uri_query := []\<rparr>"
  have p: "list_all is_path ?p" by (rule address_text(1) [OF assms(2)])
  have decoded: "uri_decode (''ether:'' @ ?p) True uri_default = (True, ?u)"
    using decode_simple [OF p address_text(2,3) [OF assms(2)], of "[]" "''ether''"] by (simp add: is_scheme_def is_alpha_def)
  have path: "path_of ?u = ?p" by (simp add: path_of_def unescape_path [OF p])
  have "address_from_string cur H pfx ?p = Some a" using address_round_trip [OF assms] by blast
  then have set: "buri_set_path cur H pfx ?p \<lparr>buri_strict = True, buri_scheme = [], buri_address = [], buri_query = []\<rparr> =
      Some (True, \<lparr>buri_strict = True, buri_scheme = [], buri_address = ?p, buri_query = []\<rparr>)"
    by (simp add: buri_set_path_def set_address_def assms(1))
  have scheme: "snd (buri_set_scheme (scheme_of ?u) (bitcoin_uri_default\<lparr>buri_strict := True\<rparr>)) =
      \<lparr>buri_strict = True, buri_scheme = [], buri_address = [], buri_query = []\<rparr>"
    by (simp add: buri_set_scheme_def bitcoin_uri_default_def scheme_of_def bitcoin_scheme_def)
  have parts: "has_authority ?u = False" "has_fragment ?u = False" "decode_query ?u = []"
    by (simp_all add: uri_default_def decode_query_def decode_terms.simps)
  show ?thesis
    unfolding buri_parse_def Let_def decoded prod.case scheme path parts using address_text(2) [OF assms(2), of H] by (simp add: set)
qed

theorem bitcoin_uri_round_trip_witness:
  "\<exists>b. buri_query b = [(''label'', ''a b&c'')] \<and> buri_parse bitcoin example_digests [] trim_right_if (buri_encoded b) True = Some b"
proof -
  let ?a = "\<lparr>addr_valid = True, addr_version = 5, addr_hash = replicate 20 9\<rparr>"
  define b where "b = \<lparr>buri_strict = True, buri_scheme = bitcoin_scheme, buri_address = address_encoded example_digests ?a,
    buri_query = [(''label'', ''a b&c'')]\<rparr>"
  have "buri_parse bitcoin example_digests [] trim_right_if (buri_encoded b) True = Some b"
    by (rule bitcoin_uri_round_trip [OF trims_right_trim_right_if _ _ b_def]) (simp_all add: buri_keys_def)
  then show ?thesis by (intro exI [of _ b]) (simp add: b_def)
qed

end
