(* ===== verification/Serializer.thy ===== *)
theory Serializer
  imports Hash
begin

unbundle bit_operations_syntax

text \<open>
  Reading and writing over iterators: \<^verbatim>\<open>include/impl/utility/deserializer.ipp\<close> (with its bounds checked) and
  \<^verbatim>\<open>serializer.ipp\<close>.  They implement the same interface as the stream reader and writer of \<open>Wire\<close>; a
  deserializer is the bytes from its iterator to the end, with its flag.
\<close>

record deserializer =
  unread :: "byte list"
  ds_valid :: bool

type_synonym 'a ds = "(deserializer, 'a) state"

abbreviation over :: "byte list \<Rightarrow> deserializer" where
  "over bs \<equiv> \<lparr>unread = bs, ds_valid = True\<rparr>"

subsection \<open>Deserializer\<close>

definition ds_is_valid :: "bool ds" where
  "ds_is_valid = State (\<lambda>d. (ds_valid d, d))"

definition ds_invalidate :: "unit ds" where
  "ds_invalidate = State (\<lambda>d. ((), d\<lparr>ds_valid := False\<rparr>))"

definition ds_is_exhausted :: "bool ds" where
  "ds_is_exhausted = State (\<lambda>d. (\<not> ds_valid d \<or> length (unread d) = 0, d))"

text \<open>What every read does first: without the room it invalidates, and when valid it moves the iterator.\<close>

definition advance :: "nat \<Rightarrow> data_chunk option ds" where
  "advance n = State (\<lambda>d.
     let d = (if n \<le> length (unread d) then d else d\<lparr>ds_valid := False\<rparr>) in
     if \<not> ds_valid d then (None, d) else (Some (take n (unread d)), d\<lparr>unread := drop n (unread d)\<rparr>))"

definition ds_peek_byte :: "byte ds" where
  "ds_peek_byte = State (\<lambda>d.
     let d = (if 1 \<le> length (unread d) then d else d\<lparr>ds_valid := False\<rparr>) in
     (if ds_valid d then hd (unread d) else 0, d))"

definition ds_read_byte :: "byte ds" where
  "ds_read_byte = map_state (\<lambda>b. case b of None \<Rightarrow> 0 | Some bs \<Rightarrow> hd bs) (advance 1)"

definition ds_read_forward :: "nat \<Rightarrow> data_chunk ds" where
  "ds_read_forward n = map_state (\<lambda>b. case b of None \<Rightarrow> replicate n 0 | Some bs \<Rightarrow> bs) (advance n)"

definition ds_read_reverse :: "nat \<Rightarrow> data_chunk ds" where
  "ds_read_reverse n = map_state (\<lambda>b. case b of None \<Rightarrow> replicate n 0 | Some bs \<Rightarrow> rev bs) (advance n)"

definition ds_read_bytes :: "nat \<Rightarrow> data_chunk ds" where
  "ds_read_bytes n = map_state (\<lambda>b. case b of None \<Rightarrow> replicate n 0 | Some bs \<Rightarrow> bs) (advance n)"

definition ds_read_all :: "data_chunk ds" where
  "ds_read_all = do { d \<leftarrow> State_Monad.get; ds_read_bytes (length (unread d)) }"

definition ds_skip :: "nat \<Rightarrow> unit ds" where
  "ds_skip n = map_state (\<lambda>_. ()) (advance n)"

definition ds_read_hash :: "hash_digest ds" where "ds_read_hash = ds_read_forward 32"
definition ds_read_short_hash :: "hash_digest ds" where "ds_read_short_hash = ds_read_forward 20"
definition ds_read_mini_hash :: "hash_digest ds" where "ds_read_mini_hash = ds_read_forward 6"

fun from_big_endian :: "nat \<Rightarrow> 'a::len word \<Rightarrow> data_chunk \<Rightarrow> 'a word" where
  "from_big_endian 0 out bs = out"
| "from_big_endian (Suc i) out [] = out"
| "from_big_endian (Suc i) out (b # bs) = from_big_endian i (out OR push_bit (8 * i) (ucast b)) bs"

definition ds_read_big_endian :: "'a::len word ds" where
  "ds_read_big_endian =
     map_state (\<lambda>b. case b of None \<Rightarrow> 0 | Some bs \<Rightarrow> from_big_endian (LENGTH('a) div 8) 0 bs) (advance (LENGTH('a) div 8))"

definition ds_read_little_endian :: "'a::len word ds" where
  "ds_read_little_endian =
     map_state (\<lambda>b. case b of None \<Rightarrow> 0 | Some bs \<Rightarrow> from_little_endian (LENGTH('a) div 8) 0 0 bs) (advance (LENGTH('a) div 8))"

definition ds_read_variable_big_endian :: "uint64 ds" where
  "ds_read_variable_big_endian = do {
     v \<leftarrow> ds_read_byte;
     if v = varint_eight_bytes then ds_read_big_endian
     else if v = varint_four_bytes then map_state ucast (ds_read_big_endian :: uint32 ds)
     else if v = varint_two_bytes then map_state ucast (ds_read_big_endian :: uint16 ds)
     else State_Monad.return (ucast v)
   }"

definition ds_read_variable_little_endian :: "uint64 ds" where
  "ds_read_variable_little_endian = do {
     v \<leftarrow> ds_read_byte;
     if v = varint_eight_bytes then ds_read_little_endian
     else if v = varint_four_bytes then map_state ucast (ds_read_little_endian :: uint32 ds)
     else if v = varint_two_bytes then map_state ucast (ds_read_little_endian :: uint16 ds)
     else State_Monad.return (ucast v)
   }"

definition ds_read_size_big_endian :: "nat ds" where
  "ds_read_size_big_endian = do {
     size \<leftarrow> ds_read_variable_big_endian;
     if unat size \<le> max_size_t then State_Monad.return (unat size)
     else do { ds_invalidate; State_Monad.return 0 }
   }"

definition ds_read_size_little_endian :: "nat ds" where
  "ds_read_size_little_endian = do {
     size \<leftarrow> ds_read_variable_little_endian;
     if unat size \<le> max_size_t then State_Monad.return (unat size)
     else do { ds_invalidate; State_Monad.return 0 }
   }"

definition ds_read_error_code :: "uint32 ds" where
  "ds_read_error_code = ds_read_little_endian"

definition ds_read_string_size :: "nat \<Rightarrow> data_chunk ds" where
  "ds_read_string_size n = map_state (\<lambda>b. case b of None \<Rightarrow> [] | Some bs \<Rightarrow> takeWhile (\<lambda>c. c \<noteq> 0) bs) (advance n)"

definition ds_read_string :: "data_chunk ds" where
  "ds_read_string = do { size \<leftarrow> ds_read_size_little_endian; ds_read_string_size size }"

subsection \<open>Serializer\<close>

text \<open>
  A serializer writes through an iterator into memory of others and checks nothing: its state is that memory and the
  position of the iterator, and leaving the memory is the outcome \<open>None\<close>.
\<close>

record serializer =
  buffer :: "byte list"
  position :: nat
  sz_valid :: bool

definition sz_init :: "byte list \<Rightarrow> serializer" where
  "sz_init bs = \<lparr>buffer = bs, position = 0, sz_valid = True\<rparr>"

definition sz_write_forward :: "data_chunk \<Rightarrow> serializer \<Rightarrow> serializer option" where
  "sz_write_forward bs s =
     (let p = position s; q = p + length bs in
      if q \<le> length (buffer s) then Some (s\<lparr>buffer := take p (buffer s) @ bs @ drop q (buffer s), position := q\<rparr>) else None)"

definition sz_write_reverse :: "data_chunk \<Rightarrow> serializer \<Rightarrow> serializer option" where
  "sz_write_reverse bs = sz_write_forward (rev bs)"

definition sz_write_byte :: "byte \<Rightarrow> serializer \<Rightarrow> serializer option" where
  "sz_write_byte b s =
     (if position s < length (buffer s) then Some (s\<lparr>buffer := (buffer s)[position s := b], position := position s + 1\<rparr>) else None)"

definition sz_write_bytes :: "data_chunk \<Rightarrow> serializer \<Rightarrow> serializer option" where
  "sz_write_bytes bs = sz_write_forward bs"

definition sz_write_hash :: "hash_digest \<Rightarrow> serializer \<Rightarrow> serializer option" where
  "sz_write_hash h = sz_write_forward h"

definition sz_write_little_endian :: "'a::len word \<Rightarrow> serializer \<Rightarrow> serializer option" where
  "sz_write_little_endian v = sz_write_forward (to_little_endian v)"

definition sz_write_big_endian :: "'a::len word \<Rightarrow> serializer \<Rightarrow> serializer option" where
  "sz_write_big_endian v = sz_write_forward (to_big_endian v)"

definition sz_write_variable_little_endian :: "uint64 \<Rightarrow> serializer \<Rightarrow> serializer option" where
  "sz_write_variable_little_endian v s =
     (if v < 0xfd then sz_write_byte (ucast v) s
      else if unat v \<le> max_uint16 then do { s \<leftarrow> sz_write_byte varint_two_bytes s; sz_write_little_endian (ucast v :: uint16) s }
      else if unat v \<le> max_uint32 then do { s \<leftarrow> sz_write_byte varint_four_bytes s; sz_write_little_endian (ucast v :: uint32) s }
      else do { s \<leftarrow> sz_write_byte varint_eight_bytes s; sz_write_little_endian v s })"

definition sz_write_variable_big_endian :: "uint64 \<Rightarrow> serializer \<Rightarrow> serializer option" where
  "sz_write_variable_big_endian v s =
     (if v < 0xfd then sz_write_byte (ucast v) s
      else if unat v \<le> max_uint16 then do { s \<leftarrow> sz_write_byte varint_two_bytes s; sz_write_big_endian (ucast v :: uint16) s }
      else if unat v \<le> max_uint32 then do { s \<leftarrow> sz_write_byte varint_four_bytes s; sz_write_big_endian (ucast v :: uint32) s }
      else do { s \<leftarrow> sz_write_byte varint_eight_bytes s; sz_write_big_endian v s })"

definition sz_write_size_little_endian :: "nat \<Rightarrow> serializer \<Rightarrow> serializer option" where
  "sz_write_size_little_endian n = sz_write_variable_little_endian (of_nat n)"

definition sz_write_size_big_endian :: "nat \<Rightarrow> serializer \<Rightarrow> serializer option" where
  "sz_write_size_big_endian n = sz_write_variable_big_endian (of_nat n)"

definition sz_write_error_code :: "uint32 \<Rightarrow> serializer \<Rightarrow> serializer option" where
  "sz_write_error_code ec = sz_write_little_endian ec"

definition sz_write_string :: "data_chunk \<Rightarrow> serializer \<Rightarrow> serializer option" where
  "sz_write_string str s = do { s \<leftarrow> sz_write_variable_little_endian (of_nat (length str)) s; sz_write_forward str s }"

definition sz_write_string_size :: "data_chunk \<Rightarrow> nat \<Rightarrow> serializer \<Rightarrow> serializer option" where
  "sz_write_string_size str n s =
     (let k = min n (length str) in do { s \<leftarrow> sz_write_bytes (take k str) s; sz_write_bytes (replicate (n - k) 0) s })"

definition sz_skip :: "nat \<Rightarrow> serializer \<Rightarrow> serializer option" where
  "sz_skip n s = (if position s + n \<le> length (buffer s) then Some (s\<lparr>position := position s + n\<rparr>) else None)"

text \<open>
  The size is read without a break after the case of eight bytes, so that case continues in the one of four: the iterator
  moves by both sizes and the first four of the bytes are the result.
\<close>

definition sz_read_size_little_endian :: "serializer \<Rightarrow> (nat \<times> serializer) option" where
  "sz_read_size_little_endian s =
     (if position s < length (buffer s) then
        (let prefix = buffer s ! position s; s = s\<lparr>position := position s + 1\<rparr>; begin = drop (position s) (buffer s) in
         if prefix = varint_eight_bytes \<or> prefix = varint_four_bytes then do {
           s \<leftarrow> sz_skip ((if prefix = varint_eight_bytes then 8 else 0) + 4) s;
           Some (unat (from_little_endian 4 0 0 begin :: uint32), s) }
         else if prefix = varint_two_bytes then do { s \<leftarrow> sz_skip 2 s; Some (unat (from_little_endian 2 0 0 begin :: uint16), s) }
         else Some (unat prefix, s))
      else None)"

definition sz_read_size_big_endian :: "serializer \<Rightarrow> (nat \<times> serializer) option" where
  "sz_read_size_big_endian s =
     (if position s < length (buffer s) then
        (let prefix = buffer s ! position s; s = s\<lparr>position := position s + 1\<rparr>; begin = drop (position s) (buffer s) in
         if prefix = varint_eight_bytes \<or> prefix = varint_four_bytes then do {
           s \<leftarrow> sz_skip ((if prefix = varint_eight_bytes then 8 else 0) + 4) s;
           Some (unat (from_big_endian 4 0 begin :: uint32), s) }
         else if prefix = varint_two_bytes then do { s \<leftarrow> sz_skip 2 s; Some (unat (from_big_endian 2 0 begin :: uint16), s) }
         else Some (unat prefix, s))
      else None)"

subsection \<open>Agreement of the two readers\<close>

text \<open>
  A read of the stream reader and one of the deserializer agree when they fail on the same bytes, give the same value
  and leave the same bytes when they do not, and both stay failed once failed.
\<close>

definition agrees :: "'a rd \<Rightarrow> 'a ds \<Rightarrow> bool" where
  "agrees m f \<longleftrightarrow> keeps_failure m \<and> (\<forall>d. \<not> ds_valid d \<longrightarrow> \<not> ds_valid (snd (run_state f d))) \<and>
     (\<forall>bs. ds_valid (snd (run_state f (over bs))) = (\<not> failbit (snd (run_state m (ready bs)))) \<and>
        (ds_valid (snd (run_state f (over bs))) \<longrightarrow>
           (\<exists>x rest. run_state m (ready bs) = (x, ready rest) \<and> run_state f (over bs) = (x, over rest))))"

lemma agrees_return: "agrees (State_Monad.return x) (State_Monad.return x)"
  by (simp add: agrees_def failure_rules)

lemma agrees_bind:
  assumes "agrees m f" and "\<And>x. agrees (g x) (h x)"
  shows "agrees (m \<bind> g) (f \<bind> h)"
proof -
  have fail: "keeps_failure (m \<bind> g)" using assms by (auto simp: agrees_def intro!: failure_rules)
  have invalid: "\<not> ds_valid (snd (run_state (f \<bind> h) d))" if "\<not> ds_valid d" for d
  proof -
    obtain y e where y: "run_state f d = (y, e)" by fastforce
    then have "\<not> ds_valid e" using assms(1) that unfolding agrees_def by (metis snd_conv)
    then have "\<not> ds_valid (snd (run_state (h y) e))" using assms(2) [of y] unfolding agrees_def by blast
    then show ?thesis by (simp add: y)
  qed
  show ?thesis
    unfolding agrees_def
  proof (intro conjI allI)
    fix bs
    obtain x r where m: "run_state m (ready bs) = (x, r)" by fastforce
    obtain y d where f: "run_state f (over bs) = (y, d)" by fastforce
    have first: "ds_valid d = (\<not> failbit r)" "ds_valid d \<Longrightarrow> \<exists>rest. x = y \<and> r = ready rest \<and> d = over rest"
      using assms(1) unfolding agrees_def by (metis m f snd_conv prod.inject)+
    have "ds_valid (snd (run_state (f \<bind> h) (over bs))) = (\<not> failbit (snd (run_state (m \<bind> g) (ready bs)))) \<and>
      (ds_valid (snd (run_state (f \<bind> h) (over bs))) \<longrightarrow>
        (\<exists>x rest. run_state (m \<bind> g) (ready bs) = (x, ready rest) \<and> run_state (f \<bind> h) (over bs) = (x, over rest)))"
    proof (cases "ds_valid d")
      case True
      then obtain rest where "x = y" "r = ready rest" "d = over rest" using first(2) by blast
      then show ?thesis using assms(2) [of y] m f unfolding agrees_def by simp
    next
      case False
      then have "failbit (snd (run_state (g x) r))" "\<not> ds_valid (snd (run_state (h y) d))"
        using first(1) assms(2) unfolding agrees_def keeps_failure_def by blast+
      then show ?thesis by (simp add: m f)
    qed
    then show "ds_valid (snd (run_state (f \<bind> h) (over bs))) = (\<not> failbit (snd (run_state (m \<bind> g) (ready bs))))"
      and "ds_valid (snd (run_state (f \<bind> h) (over bs))) \<longrightarrow>
        (\<exists>x rest. run_state (m \<bind> g) (ready bs) = (x, ready rest) \<and> run_state (f \<bind> h) (over bs) = (x, over rest))"
      by blast+
  qed (use fail invalid in auto)
qed

lemma agrees_map:
  assumes "agrees m f"
  shows "agrees (map_state k m) (map_state k f)"
proof -
  have "map_state k m = m \<bind> (\<lambda>x. State_Monad.return (k x))" "map_state k f = f \<bind> (\<lambda>x. State_Monad.return (k x))"
    by (intro state.expand ext; simp add: state.map_sel split_beta map_prod_def)+
  then show ?thesis using agrees_bind [OF assms agrees_return] by simp
qed

lemma agrees_if: "agrees m f \<Longrightarrow> agrees n g \<Longrightarrow> agrees (if b then m else n) (if b then f else g)"
  by simp

lemma agrees_read:
  assumes "keeps_failure m"
    and "\<And>bs. n \<le> length bs \<Longrightarrow> run_state m (ready bs) = (v (take n bs), ready (drop n bs))"
    and "\<And>bs. length bs < n \<Longrightarrow> failbit (snd (run_state m (ready bs)))"
  shows "agrees m (map_state (\<lambda>b. case b of None \<Rightarrow> c | Some bs \<Rightarrow> v bs) (advance n))"
proof -
  have "\<not> failbit (snd (run_state m (ready bs))) \<longleftrightarrow> n \<le> length bs" for bs
    using assms(2) [of bs] assms(3) [of bs] by (cases "n \<le> length bs") auto
  then show ?thesis
    using assms(1,2) by (auto simp: agrees_def advance_def state.map_sel Let_def)
qed

lemma stream_read_ready:
  "n \<le> length bs \<Longrightarrow> run_state (stream_read n) (ready bs) = (take n bs, ready (drop n bs))"
  "length bs < n \<Longrightarrow> failbit (snd (run_state (stream_read n) (ready bs)))"
  by (simp_all add: stream_read_def good_def)

lemma stream_read_one:
  "run_state (stream_read (Suc 0)) (ready (b # bs)) = ([b], ready bs)"
  "run_state (stream_read (Suc 0)) (ready []) = ([0], \<lparr>stream = [], eofbit = True, failbit = True\<rparr>)"
  by (simp_all add: stream_read_def good_def)

lemma little_endian_stream_ready:
  "n \<le> length bs \<Longrightarrow> run_state (from_little_endian_stream n i out) (ready bs) = (from_little_endian n i out (take n bs), ready (drop n bs))"
  "length bs < n \<Longrightarrow> failbit (snd (run_state (from_little_endian_stream n i out) (ready bs)))"
proof (induction n arbitrary: i out bs)
  case (Suc n)
  { case 1 with Suc.IH show ?case by (cases bs) (auto simp: wire_simps stream_read_one) }
  { case 2 with Suc.IH show ?case
      by (cases bs) (auto simp: wire_simps stream_read_one from_little_endian_stream_failed) }
qed (auto)

lemma big_endian_stream_failed:
  "failbit r \<Longrightarrow> failbit (snd (run_state (from_big_endian_stream n out) r))"
  using keeps_failure_endian(2) [of n out] by (auto simp: keeps_failure_def)

lemma big_endian_stream_ready:
  "n \<le> length bs \<Longrightarrow> run_state (from_big_endian_stream n out) (ready bs) = (from_big_endian n out (take n bs), ready (drop n bs))"
  "length bs < n \<Longrightarrow> failbit (snd (run_state (from_big_endian_stream n out) (ready bs)))"
proof (induction n arbitrary: out bs)
  case (Suc n)
  { case 1 with Suc.IH show ?case by (cases bs) (auto simp: wire_simps stream_read_one) }
  { case 2 with Suc.IH show ?case
      by (cases bs) (auto simp: wire_simps stream_read_one big_endian_stream_failed) }
qed (auto)

lemma agrees_bytes:
  "agrees read_byte ds_read_byte" "agrees (read_bytes n) (ds_read_bytes n)" "agrees (read_forward n) (ds_read_forward n)"
proof -
  have "run_state read_byte (ready bs) = (hd (take 1 bs), ready (drop 1 bs))" if "1 \<le> length bs" for bs
    using that by (cases bs) (auto simp: wire_simps)
  then show "agrees read_byte ds_read_byte"
    unfolding ds_read_byte_def by (intro agrees_read failure_rules) (auto simp: read_byte_def stream_get_def good_def)
  show "agrees (read_bytes n) (ds_read_bytes n)"
    unfolding ds_read_bytes_def by (intro agrees_read failure_rules) (auto simp: read_bytes_def stream_read_ready)
  show "agrees (read_forward n) (ds_read_forward n)"
    unfolding ds_read_forward_def by (intro agrees_read failure_rules) (auto simp: read_forward_def stream_read_ready)
qed

lemma agrees_little_endian:
  "n = LENGTH('a) div 8 \<Longrightarrow> agrees (from_little_endian_stream n 0 0) (ds_read_little_endian :: 'a::len word ds)"
  unfolding ds_read_little_endian_def by (intro agrees_read failure_rules) (auto simp: little_endian_stream_ready)

lemma agrees_big_endian:
  "n = LENGTH('a) div 8 \<Longrightarrow> agrees (from_big_endian_stream n 0) (ds_read_big_endian :: 'a::len word ds)"
  unfolding ds_read_big_endian_def by (intro agrees_read failure_rules) (auto simp: big_endian_stream_ready)

lemma agrees_invalidate: "agrees invalidate ds_invalidate"
  by (auto simp: agrees_def invalidate_def ds_invalidate_def keeps_failure_def)

lemmas agrees_rules = agrees_return agrees_bind agrees_map agrees_if agrees_bytes agrees_little_endian agrees_big_endian agrees_invalidate

lemma agrees_variable:
  "agrees read_variable_little_endian ds_read_variable_little_endian"
  "agrees read_variable_big_endian ds_read_variable_big_endian"
  unfolding read_variable_little_endian_def ds_read_variable_little_endian_def read_variable_big_endian_def
    ds_read_variable_big_endian_def read_8_bytes_little_endian_def read_4_bytes_little_endian_def read_2_bytes_little_endian_def
    read_8_bytes_big_endian_def read_4_bytes_big_endian_def read_2_bytes_big_endian_def
  by (intro agrees_rules; simp)+


lemma agrees_sizes:
  "agrees read_size_little_endian ds_read_size_little_endian" "agrees read_size_big_endian ds_read_size_big_endian"
  unfolding read_size_little_endian_def ds_read_size_little_endian_def read_size_big_endian_def ds_read_size_big_endian_def
  by (intro agrees_rules agrees_variable)+

lemma agrees_skip: "agrees (skip n) (ds_skip n)"
proof -
  have "ds_skip n = map_state (\<lambda>b. case b of None \<Rightarrow> () | Some bs \<Rightarrow> (\<lambda>_. ()) bs) (advance n)" by (simp add: ds_skip_def)
  moreover have "keeps_failure (skip n)" unfolding skip_def by (intro failure_rules)
  ultimately show ?thesis
    by (simp only:) (intro agrees_read; auto simp: skip_def read_bytes_def stream_read_ready split_beta)
qed

text \<open>
  Both readers agree on bytes, hashes, integers, sizes and skips, and by the lemmas above on whatever is composed of them.
\<close>

theorem readers_agree:
  "agrees read_byte ds_read_byte \<and> agrees (read_bytes n) (ds_read_bytes n) \<and> agrees (skip n) (ds_skip n) \<and>
   agrees read_hash ds_read_hash \<and> agrees read_short_hash ds_read_short_hash \<and> agrees read_mini_hash ds_read_mini_hash \<and>
   agrees read_2_bytes_little_endian ds_read_little_endian \<and> agrees read_4_bytes_little_endian ds_read_little_endian \<and>
   agrees read_8_bytes_little_endian ds_read_little_endian \<and> agrees read_2_bytes_big_endian ds_read_big_endian \<and>
   agrees read_4_bytes_big_endian ds_read_big_endian \<and> agrees read_8_bytes_big_endian ds_read_big_endian \<and>
   agrees read_size_little_endian ds_read_size_little_endian \<and> agrees read_size_big_endian ds_read_size_big_endian \<and>
   agrees read_error_code ds_read_error_code"
  unfolding read_hash_def ds_read_hash_def read_short_hash_def ds_read_short_hash_def read_mini_hash_def ds_read_mini_hash_def
    read_8_bytes_little_endian_def read_4_bytes_little_endian_def read_2_bytes_little_endian_def
    read_8_bytes_big_endian_def read_4_bytes_big_endian_def read_2_bytes_big_endian_def read_error_code_def ds_read_error_code_def
  by (intro conjI agrees_rules agrees_sizes agrees_skip; simp)


text \<open>
  They differ on a truncated string, which the stream reader gives as far as it goes, and on a peek at the end.
\<close>

lemma truncated_string_differs:
  "run_state (read_string_size 3) (ready [65]) = ([65], \<lparr>stream = [], eofbit = True, failbit = False\<rparr>)"
  "run_state (ds_read_string_size 3) (over [65]) = ([], \<lparr>unread = [65], ds_valid = False\<rparr>)"
  by code_simp+

lemma peek_at_end_differs:
  "\<not> failbit (snd (run_state peek_byte (ready [])))" "\<not> ds_valid (snd (run_state ds_peek_byte (over [])))"
  by (simp_all add: peek_byte_def stream_peek_def good_def state.map_sel ds_peek_byte_def)

subsection \<open>Agreement of the two writers\<close>

lemma write_byte_forward: "sz_write_byte b s = sz_write_forward [b] s"
  by (auto simp: sz_write_byte_def sz_write_forward_def upd_conv_take_nth_drop Let_def)

lemma write_forward_append: "(do { s \<leftarrow> sz_write_forward a s; sz_write_forward b s }) = sz_write_forward (a @ b) s"
  by (auto simp: sz_write_forward_def Let_def ac_simps)

lemmas forward_simps = write_byte_forward write_forward_append sz_write_little_endian_def sz_write_big_endian_def

lemma write_variable_forward:
  "sz_write_variable_little_endian v s = sz_write_forward (write_variable_little_endian v) s"
  "sz_write_variable_big_endian v s = sz_write_forward (write_variable_big_endian v) s"
  by (simp_all add: sz_write_variable_little_endian_def write_variable_little_endian_def sz_write_variable_big_endian_def
      write_variable_big_endian_def forward_simps write_byte_def write_2_bytes_little_endian_def write_4_bytes_little_endian_def
      write_8_bytes_little_endian_def write_2_bytes_big_endian_def write_4_bytes_big_endian_def write_8_bytes_big_endian_def)

text \<open>
  What a serializer puts at its iterator is what the stream writer appends; nothing else changes, and without room for
  all of it the memory is left.
\<close>

theorem writers_agree:
  "sz_write_byte b s = sz_write_forward (write_byte b) s \<and>
   sz_write_size_little_endian n s = sz_write_forward (write_size_little_endian n) s \<and>
   sz_write_size_big_endian n s = sz_write_forward (write_size_big_endian n) s \<and>
   sz_write_variable_little_endian v s = sz_write_forward (write_variable_little_endian v) s \<and>
   sz_write_variable_big_endian v s = sz_write_forward (write_variable_big_endian v) s \<and>
   sz_write_string str s = sz_write_forward (write_string str) s \<and>
   sz_write_string_size str n s = sz_write_forward (write_string_size str n) s"
  by (simp add: write_byte_forward write_variable_forward sz_write_size_little_endian_def sz_write_size_big_endian_def
      write_size_little_endian_def write_size_big_endian_def sz_write_string_def sz_write_string_size_def sz_write_bytes_def
      write_string_def write_string_size_def write_forward_append write_byte_def Let_def)

text \<open>
  The size of a varint of eight bytes is read as the first four of them, and the iterator ends four bytes too far (or outside).
\<close>

lemma size_falls_through:
  assumes "length bs = 8"
  shows "sz_read_size_little_endian (sz_init (varint_eight_bytes # bs @ rest)) =
    (if 4 \<le> length rest then
       Some (unat (from_little_endian 4 0 0 bs :: uint32),
         \<lparr>buffer = varint_eight_bytes # bs @ rest, position = 13, sz_valid = True\<rparr>)
     else None)"
proof -
  obtain a b c d es where "bs = a # b # c # d # es" using assms by (auto simp: length_Suc_conv eval_nat_numeral)
  then show ?thesis using assms
    by (auto simp: sz_read_size_little_endian_def sz_init_def sz_skip_def Let_def eval_nat_numeral)
qed

text \<open>A size that a serializer wrote is read back by the deserializer, at the start of the same memory.\<close>

theorem size_read_back:
  assumes "n \<le> max_size_t" and "sz_write_size_little_endian n (sz_init bs) = Some s"
  shows "run_state ds_read_size_little_endian (over (buffer s)) = (n, over (drop (position s) bs))"
proof -
  have "buffer s = write_size_little_endian n @ drop (position s) bs"
    using assms(2) by (auto simp: sz_write_size_little_endian_def write_variable_forward write_size_little_endian_def
        sz_write_forward_def sz_init_def Let_def split: if_splits)
  moreover have "run_state read_size_little_endian (ready (write_size_little_endian n @ drop (position s) bs)) = (n, ready (drop (position s) bs))"
    using assms(1) by (simp add: wire_simps)
  ultimately show ?thesis using agrees_sizes(1) unfolding agrees_def by (metis prod.inject snd_conv reader.select_convs(1,3))
qed

theorem size_read_back_witness:
  "run_state ds_read_size_little_endian (over [5, 2]) = (5, over [2])"
proof -
  have "sz_write_size_little_endian 5 (sz_init [1, 2]) = Some \<lparr>buffer = [5, 2], position = 1, sz_valid = True\<rparr>"
    by (simp add: sz_write_size_little_endian_def sz_write_variable_little_endian_def sz_write_byte_def sz_init_def)
  from size_read_back [OF _ this] show ?thesis by (simp add: max_size_t_def)
qed

end
