(* ===== verification/Streaming.thy ===== *)
theory Streaming
  imports Hash
begin

unbundle bit_operations_syntax

text \<open>
  What the digests of \<^verbatim>\<open>src/math/external\<close> share: a message of any length enters in pieces, whole blocks are compressed and
  the rest waits in a buffer.  The reference is the plain one: cut the padded message into blocks and compress them in order.
  The locales state the contract of a context that is updated in pieces and of one that keys it (HMAC), and carry the proofs
  that the buffered form computes the reference.
\<close>

subsection \<open>Blocks\<close>

definition blocks :: "nat \<Rightarrow> 'a list \<Rightarrow> 'a list list" where
  "blocks n xs = map (\<lambda>i. take n (drop (i * n) xs)) [0..<length xs div n]"

definition rest_of :: "nat \<Rightarrow> 'a list \<Rightarrow> 'a list" where
  "rest_of n xs = drop (length xs div n * n) xs"

definition absorbed :: "nat \<Rightarrow> ('s \<Rightarrow> 'a list \<Rightarrow> 's) \<Rightarrow> 's \<Rightarrow> 'a list \<Rightarrow> 's" where
  "absorbed n f s xs = foldl f s (blocks n xs)"

lemma length_rest_of [simp]: "length (rest_of n xs) = length xs mod n"
  by (simp add: rest_of_def minus_div_mult_eq_mod)

lemma blocks_short: "length xs < n \<Longrightarrow> blocks n xs = []"
  by (simp add: blocks_def)

lemma rest_short: "length xs < n \<Longrightarrow> rest_of n xs = xs"
  by (simp add: rest_of_def)

lemma blocks_block:
  assumes "length b = n" and "0 < n"
  shows "blocks n (b @ ys) = b # blocks n ys"
proof -
  have "length (b @ ys) div n = Suc (length ys div n)" using assms by (simp add: div_add_self1)
  then show ?thesis
    by (simp add: blocks_def upt_conv_Cons assms map_Suc_upt [symmetric] del: upt_Suc map_Suc_upt)
qed

lemma rest_block:
  assumes "length b = n" and "0 < n"
  shows "rest_of n (b @ ys) = rest_of n ys"
  using assms by (simp add: rest_of_def div_add_self1)

lemma block_step:
  assumes "n \<le> length xs" and "0 < n"
  shows "blocks n xs = take n xs # blocks n (drop n xs)" and "rest_of n xs = rest_of n (drop n xs)"
  using assms blocks_block [of "take n xs" n "drop n xs"] rest_block [of "take n xs" n "drop n xs"] by simp_all

lemma whole_append:
  assumes "length xs = k * n" and "0 < n"
  shows "blocks n (xs @ ys) = blocks n xs @ blocks n ys" and "rest_of n (xs @ ys) = rest_of n ys"
  using assms(1)
proof (induction k arbitrary: xs)
  case (Suc k)
  { case 1
    then show ?case using Suc.IH(1) [of "drop n xs"] assms(2) by (simp add: block_step(1) [of n xs] block_step(1) [of n "xs @ ys"]) }
  { case 2
    then show ?case using Suc.IH(2) [of "drop n xs"] assms(2) by (simp add: block_step(2) [of n "xs @ ys"]) }
qed (simp_all add: blocks_def rest_of_def)

lemma blocks_rest:
  assumes "0 < n"
  shows "blocks n (xs @ ys) = blocks n xs @ blocks n (rest_of n xs @ ys)" and "rest_of n (xs @ ys) = rest_of n (rest_of n xs @ ys)"
proof -
  let ?w = "take (length xs div n * n) xs"
  have w: "length ?w = length xs div n * n" by (simp add: div_times_less_eq_dividend)
  have xs: "xs = ?w @ rest_of n xs" by (simp add: rest_of_def)
  have "blocks n xs = blocks n ?w"
    using whole_append(1) [OF w assms, of "rest_of n xs"] xs assms by (simp add: blocks_short)
  then show "blocks n (xs @ ys) = blocks n xs @ blocks n (rest_of n xs @ ys)"
    using whole_append(1) [OF w assms, of "rest_of n xs @ ys"] xs by (metis append_assoc)
  show "rest_of n (xs @ ys) = rest_of n (rest_of n xs @ ys)"
    using whole_append(2) [OF w assms, of "rest_of n xs @ ys"] xs by (metis append_assoc)
qed

subsection \<open>The buffer of a context\<close>

text \<open>The loop over whole blocks of the input, and the update of state and buffer around it; \<open>r\<close> bytes wait in the buffer.\<close>

definition memcpy :: "data_chunk \<Rightarrow> nat \<Rightarrow> data_chunk \<Rightarrow> data_chunk" where
  "memcpy dst i src = take i dst @ src @ drop (i + length src) dst"

function transform_loop :: "nat \<Rightarrow> ('s \<Rightarrow> data_chunk \<Rightarrow> 's) \<Rightarrow> 's \<Rightarrow> data_chunk \<Rightarrow> 's \<times> data_chunk" where
  "transform_loop n f s input =
     (if 0 < n \<and> n \<le> length input then transform_loop n f (f s (take n input)) (drop n input) else (s, input))"
  by pat_completeness auto
termination by (relation "measure (\<lambda>(n, f, s, input). length input)") auto

declare transform_loop.simps [simp del]

definition buffer_update :: "nat \<Rightarrow> ('s \<Rightarrow> data_chunk \<Rightarrow> 's) \<Rightarrow> nat \<Rightarrow> 's \<Rightarrow> data_chunk \<Rightarrow> data_chunk \<Rightarrow> 's \<times> data_chunk" where
  "buffer_update n f r s buf input =
     (if length input < n - r then (s, memcpy buf r input)
      else
        (let buf = memcpy buf r (take (n - r) input);
             (s, input) = transform_loop n f (f s buf) (drop (n - r) input)
         in (s, memcpy buf 0 input)))"

lemma transform_loop_absorbs:
  "0 < n \<Longrightarrow> transform_loop n f s input = (absorbed n f s input, rest_of n input)"
proof (induction "length input" arbitrary: s input rule: less_induct)
  case less
  show ?case
  proof (cases "n \<le> length input")
    case True
    then show ?thesis
      using less.hyps [of "drop n input" "f s (take n input)"] less.prems
      by (subst transform_loop.simps) (simp add: absorbed_def block_step)
  next
    case False
    then show ?thesis by (subst transform_loop.simps) (simp add: absorbed_def blocks_short rest_short)
  qed
qed

lemma length_memcpy [simp]: "i + length src \<le> length dst \<Longrightarrow> length (memcpy dst i src) = length dst"
  by (simp add: memcpy_def)

lemma take_memcpy: "i + length src \<le> length dst \<Longrightarrow> take (i + length src) (memcpy dst i src) = take i dst @ src"
  by (simp add: memcpy_def)

lemma buffer_update_absorbs:
  assumes "0 < n" and "length buf = n" and "take (length msg mod n) buf = rest_of n msg"
    and "buffer_update n f (length msg mod n) (absorbed n f s msg) buf x = (s', buf')"
  shows "s' = absorbed n f s (msg @ x)" and "length buf' = n" and "take (length (msg @ x) mod n) buf' = rest_of n (msg @ x)"
proof -
  let ?r = "length msg mod n"
  have r: "?r < n" using assms(1) by simp
  note split = blocks_rest [OF assms(1), of msg x]
  have "s' = absorbed n f s (msg @ x) \<and> length buf' = n \<and> take (length (msg @ x) mod n) buf' = rest_of n (msg @ x)"
  proof (cases "length x < n - ?r")
    case True
    then have short: "length (rest_of n msg @ x) < n" by simp
    have "length (msg @ x) mod n = (?r + length x) mod n" by (simp add: mod_add_left_eq)
    then have "length (msg @ x) mod n = ?r + length x" using short by simp
    moreover have "?r + length x \<le> length buf" using True assms(2) r by simp
    ultimately show ?thesis
      using assms(3,4) True split by (auto simp: buffer_update_def absorbed_def blocks_short [OF short] rest_short [OF short] take_memcpy assms(2))
  next
    case False
    let ?b = "memcpy buf ?r (take (n - ?r) x)" and ?y = "drop (n - ?r) x"
    have b: "?b = rest_of n msg @ take (n - ?r) x" using assms(2,3) r False by (simp add: memcpy_def)
    have len: "length ?b = n" using r False by (simp add: b)
    have "rest_of n msg @ x = ?b @ ?y" by (simp add: b)
    then have parts: "blocks n (msg @ x) = blocks n msg @ ?b # blocks n ?y" "rest_of n (msg @ x) = rest_of n ?y"
      by (simp_all add: split blocks_block [OF len assms(1)] rest_block [OF len assms(1)])
    have result: "s' = absorbed n f (f (absorbed n f s msg) ?b) ?y" "buf' = memcpy ?b 0 (rest_of n ?y)"
      using assms(4) False by (auto simp: buffer_update_def transform_loop_absorbs [OF assms(1)] Let_def)
    have fits: "0 + length (rest_of n ?y) \<le> length ?b" using assms(1) len by (simp add: less_imp_le)
    have "length (rest_of n (msg @ x)) = length (rest_of n ?y)" using parts(2) by simp
    then have "take (length (msg @ x) mod n) buf' = rest_of n (msg @ x)"
      using take_memcpy [OF fits] parts(2) unfolding result(2) length_rest_of by simp
    then show ?thesis using fits len by (simp add: absorbed_def parts(1) result)
  qed
  then show "s' = absorbed n f s (msg @ x)" and "length buf' = n" and "take (length (msg @ x) mod n) buf' = rest_of n (msg @ x)"
    by auto
qed

subsection \<open>The contract of a context\<close>

text \<open>
  A context counts bits modulo \<open>M\<close> and updates state and buffer as above.  It then holds a message: the state has absorbed its
  whole blocks and the buffer starts with the rest.
\<close>

locale digest_context =
  fixes n M :: nat and f :: "'s \<Rightarrow> data_chunk \<Rightarrow> 's" and first :: 's
    and st :: "'c \<Rightarrow> 's" and bits :: "'c \<Rightarrow> nat" and buf :: "'c \<Rightarrow> data_chunk" and update :: "'c \<Rightarrow> data_chunk \<Rightarrow> 'c"
  assumes block: "0 < n" and modulus: "8 * n dvd M"
    and update_bits: "bits (update c x) = (bits c + 8 * length x) mod M"
    and update_buffer: "buffer_update n f (bits c div 8 mod n) (st c) (buf c) x = (st (update c x), buf (update c x))"
begin

definition holds :: "'c \<Rightarrow> data_chunk \<Rightarrow> bool" where
  "holds c msg \<longleftrightarrow> st c = absorbed n f first msg \<and> bits c = 8 * length msg mod M \<and> length (buf c) = n \<and>
     take (length msg mod n) (buf c) = rest_of n msg"

lemma waiting:
  assumes "holds c msg"
  shows "bits c div 8 mod n = length msg mod n"
proof -
  obtain k where M: "M = 8 * (n * k)" using modulus unfolding dvd_def by (metis mult.assoc)
  have "bits c = 8 * (length msg mod (n * k))" using assms unfolding holds_def by (simp add: M)
  then show ?thesis by (simp add: mod_mod_cancel)
qed

lemma holds_update:
  assumes "holds c msg"
  shows "holds (update c x) (msg @ x)"
proof -
  have c: "st c = absorbed n f first msg" "bits c = 8 * length msg mod M" "length (buf c) = n" "take (length msg mod n) (buf c) = rest_of n msg"
    using assms by (simp_all add: holds_def)
  note absorbs = buffer_update_absorbs [OF block c(3,4) update_buffer [of c x, unfolded waiting [OF assms] c(1)]]
  have "bits (update c x) = 8 * length (msg @ x) mod M" by (simp add: update_bits c(2) mod_add_left_eq)
  then show ?thesis using absorbs unfolding holds_def by blast
qed

lemma holds_updates: "holds c msg \<Longrightarrow> holds (foldl update c xs) (msg @ concat xs)"
proof (induction xs arbitrary: c msg)
  case (Cons x xs)
  then show ?case using Cons.IH [OF holds_update [OF Cons.prems, of x]] by simp
qed simp

end

subsection \<open>Padding\<close>

text \<open>
  The reference padding: a one bit, the fewest zeros that leave \<open>t\<close> bytes of a block, and the number of bits in these.
  The contexts instead take as many bytes of one constant block as are missing.
\<close>

definition pad_message :: "nat \<Rightarrow> nat \<Rightarrow> (nat \<Rightarrow> data_chunk) \<Rightarrow> data_chunk \<Rightarrow> data_chunk" where
  "pad_message n t enc msg =
     msg @ [0x80] @ replicate ((2 * n - t - 1 - length msg mod n) mod n) 0 @ enc (8 * length msg)"

definition pad_length :: "nat \<Rightarrow> nat \<Rightarrow> nat \<Rightarrow> nat" where
  "pad_length n t r = (if r < n - t then n - t - r else 2 * n - t - r)"

lemma pad_taken:
  assumes "t < n" and "r < n"
  shows "take (pad_length n t r) (0x80 # replicate (n - 1) 0) = [0x80 :: byte] @ replicate ((2 * n - t - 1 - r) mod n) 0"
proof (cases "r < n - t")
  case True
  have "2 * n - t - 1 - r = (n - t - 1 - r) + n" using True assms by simp
  then have "(2 * n - t - 1 - r) mod n = (n - t - 1 - r) mod n" by (simp only: mod_add_self2)
  also have "\<dots> = n - t - 1 - r" using assms by (intro mod_less) simp
  finally have "(2 * n - t - 1 - r) mod n = n - t - 1 - r" .
  moreover have "pad_length n t r = Suc (n - t - 1 - r)" using True by (simp add: pad_length_def)
  moreover have "min (n - 1) (n - t - 1 - r) = n - t - 1 - r" by simp
  ultimately show ?thesis by (simp add: take_replicate min.commute)
next
  case False
  then have "(2 * n - t - 1 - r) mod n = 2 * n - t - 1 - r" using assms by (intro mod_less) simp
  moreover have "pad_length n t r = Suc (2 * n - t - 1 - r)" using False assms by (simp add: pad_length_def)
  moreover have "min (n - 1) (2 * n - t - 1 - r) = 2 * n - t - 1 - r" using False assms by simp
  ultimately show ?thesis by (simp add: take_replicate min.commute)
qed

locale finished_digest = digest_context n M f first st bits buf update
  for n M :: nat and f :: "'s \<Rightarrow> data_chunk \<Rightarrow> 's" and first :: 's
    and st :: "'c \<Rightarrow> 's" and bits :: "'c \<Rightarrow> nat" and buf :: "'c \<Rightarrow> data_chunk" and update :: "'c \<Rightarrow> data_chunk \<Rightarrow> 'c" +
  fixes t :: nat and enc :: "nat \<Rightarrow> data_chunk" and out :: "'s \<Rightarrow> data_chunk" and init :: "'c \<Rightarrow> 'c" and final :: "'c \<Rightarrow> data_chunk \<times> 'c"
  assumes room: "t < n" and enc: "enc (b mod M) = enc b"
    and init: "st (init c) = first" "bits (init c) = 0" "buf (init c) = buf c"
    and final: "fst (final c) =
      out (st (update (update c (take (pad_length n t (bits c div 8 mod n)) (0x80 # replicate (n - 1) 0))) (enc (bits c))))"
    and final_buffer: "length (buf (snd (final c))) = n"
begin

definition digest :: "data_chunk \<Rightarrow> data_chunk" where
  "digest msg = out (absorbed n f first (pad_message n t enc msg))"

lemma holds_init: "length (buf c) = n \<Longrightarrow> holds (init c) []"
  by (simp add: holds_def init absorbed_def blocks_def rest_of_def)

lemma holds_final:
  assumes "holds c msg"
  shows "fst (final c) = digest msg"
proof -
  let ?r = "length msg mod n" and ?pad = "[0x80 :: byte] @ replicate ((2 * n - t - 1 - length msg mod n) mod n) 0"
  have bits: "enc (bits c) = enc (8 * length msg)" using assms enc [of "8 * length msg"] by (simp add: holds_def)
  have "fst (final c) = out (st (update (update c ?pad) (enc (8 * length msg))))"
    unfolding final bits waiting [OF assms] pad_taken [OF room mod_less_divisor [OF block]] ..
  moreover have "holds (update (update c ?pad) (enc (8 * length msg))) (pad_message n t enc msg)"
    using holds_update [OF holds_update [OF assms], of ?pad "enc (8 * length msg)"] by (simp add: pad_message_def)
  ultimately show ?thesis by (simp add: digest_def holds_def)
qed

lemma updates_exact:
  "length (buf c) = n \<Longrightarrow> fst (final (foldl update (init c) xs)) = digest (concat xs)"
  using holds_final [OF holds_updates [OF holds_init]] by simp

lemma pair_exact:
  "length (buf c) = n \<Longrightarrow> fst (final (update (update (init c) x) y)) = digest (x @ y)"
  using updates_exact [of c "[x, y]"] by simp

end

end
