(* ===== verification/Sha2.thy ===== *)
theory Sha2
  imports Streaming
begin

unbundle bit_operations_syntax

text \<open>
  SHA-256 and SHA-512 as \<^verbatim>\<open>src/math/external/sha256.c\<close> and \<^verbatim>\<open>sha512.c\<close> compute them: rounds over an array whose roles rotate by
  macros, a schedule computed in place, and a context that is updated in pieces.  The two files differ in the word size, the
  rotations and the constants; what they write alike is one definition here, over words of any size.
\<close>

subsection \<open>Rounds\<close>

definition Ch :: "'a::len word \<Rightarrow> 'a word \<Rightarrow> 'a word \<Rightarrow> 'a word" where
  "Ch x y z = (x AND (y XOR z)) XOR z"

definition Maj :: "'a::len word \<Rightarrow> 'a word \<Rightarrow> 'a word \<Rightarrow> 'a word" where
  "Maj x y z = (x AND (y OR z)) OR (y AND z)"

definition SHR :: "'a::len word \<Rightarrow> nat \<Rightarrow> 'a word" where
  "SHR x n = drop_bit n x"

definition ROTR :: "'a::len word \<Rightarrow> nat \<Rightarrow> 'a word" where
  "ROTR x n = drop_bit n x OR push_bit (LENGTH('a) - n) x"

text \<open>\<^verbatim>\<open>RND\<close> changes the variables \<open>d\<close> and \<open>h\<close> only.\<close>

definition RND :: "('a::len word \<Rightarrow> 'a word) \<Rightarrow> ('a word \<Rightarrow> 'a word) \<Rightarrow>
    'a word \<Rightarrow> 'a word \<Rightarrow> 'a word \<Rightarrow> 'a word \<Rightarrow> 'a word \<Rightarrow> 'a word \<Rightarrow> 'a word \<Rightarrow> 'a word \<Rightarrow> 'a word \<Rightarrow> 'a word \<times> 'a word" where
  "RND S0 S1 a b c d e f g h k =
     (let t0 = h + S1 e + Ch e f g + k; t1 = S0 a + Maj a b c in (d + t0, t0 + t1))"

definition RNDr :: "nat \<Rightarrow> ('a::len word \<Rightarrow> 'a word) \<Rightarrow> ('a word \<Rightarrow> 'a word) \<Rightarrow> 'a word list \<Rightarrow> 'a word list \<Rightarrow> nat \<Rightarrow> 'a word \<Rightarrow> 'a word list" where
  "RNDr n S0 S1 S W i k =
     (let (d, h) = RND S0 S1 (S ! ((n - i) mod 8)) (S ! ((n + 1 - i) mod 8)) (S ! ((n + 2 - i) mod 8)) (S ! ((n + 3 - i) mod 8))
            (S ! ((n + 4 - i) mod 8)) (S ! ((n + 5 - i) mod 8)) (S ! ((n + 6 - i) mod 8)) (S ! ((n + 7 - i) mod 8)) (W ! i + k)
      in S[(n + 3 - i) mod 8 := d, (n + 7 - i) mod 8 := h])"

definition sha_extend :: "('a::len word \<Rightarrow> 'a word) \<Rightarrow> ('a word \<Rightarrow> 'a word) \<Rightarrow> nat \<Rightarrow> 'a word list \<Rightarrow> 'a word list" where
  "sha_extend s0 s1 n W = foldl (\<lambda>W i. W @ [s1 (W ! (i - 2)) + W ! (i - 7) + s0 (W ! (i - 15)) + W ! (i - 16)]) W [16..<n]"

text \<open>The unrolled rounds, each with its number and its constant.\<close>

definition sha_rounds :: "nat \<Rightarrow> ('a::len word \<Rightarrow> 'a word) \<Rightarrow> ('a word \<Rightarrow> 'a word) \<Rightarrow> (nat \<times> 'a word) list \<Rightarrow> 'a word list \<Rightarrow> 'a word list \<Rightarrow> 'a word list" where
  "sha_rounds n S0 S1 calls W S = foldl (\<lambda>S (i, k). RNDr n S0 S1 S W i k) S calls"

subsection \<open>The constants of the standard\<close>

text \<open>
  The constants of the standard are the first bits of the fractional parts of roots of the first primes.  The greatest number whose
  power does not exceed \<open>x\<close> is computed from that of \<open>x div 2 ^ n\<close>, one bit a step.
\<close>

function floor_root :: "nat \<Rightarrow> nat \<Rightarrow> nat" where
  "floor_root n x =
     (if x = 0 \<or> n = 0 then 0
      else let r = 2 * floor_root n (x div 2 ^ n) in if (r + 1) ^ n \<le> x then r + 1 else r)"
  by auto
termination
  by (relation "measure snd") (auto simp: int_one_le_iff_zero_less intro!: div_less_dividend one_less_power)

declare floor_root.simps [simp del]

definition first_primes :: "nat list" where
  "first_primes =
     [2, 3, 5, 7, 11, 13, 17, 19, 23, 29, 31, 37, 41, 43, 47, 53, 59, 61, 67, 71,
      73, 79, 83, 89, 97, 101, 103, 107, 109, 113, 127, 131, 137, 139, 149, 151, 157, 163, 167, 173,
      179, 181, 191, 193, 197, 199, 211, 223, 227, 229, 233, 239, 241, 251, 257, 263, 269, 271, 277, 281,
      283, 293, 307, 311, 313, 317, 331, 337, 347, 349, 353, 359, 367, 373, 379, 383, 389, 397, 401, 409]"

definition root_bits :: "nat \<Rightarrow> nat \<Rightarrow> 'a::len word" where
  "root_bits n p = of_nat (floor_root n (p * 2 ^ (n * LENGTH('a))))"

lemma floor_root_exact: "0 < n \<Longrightarrow> floor_root n x ^ n \<le> x \<and> x < (floor_root n x + 1) ^ n"
proof (induction n x rule: floor_root.induct)
  case (1 n x)
  show ?case
  proof (cases "x = 0")
    case False
    define q where "q = floor_root n (x div 2 ^ n)"
    have q: "q ^ n \<le> x div 2 ^ n" "x div 2 ^ n < (q + 1) ^ n" using 1 False by (simp_all add: q_def)
    have "(2 * q) ^ n \<le> x" using q(1) by (simp add: less_eq_div_iff_mult_less_eq power_mult_distrib mult.commute)
    moreover have "x < (2 * q + 2) ^ n"
      using q(2) by (simp add: div_less_iff_less_mult power_mult_distrib [symmetric] algebra_simps)
    ultimately show ?thesis
      using False 1(2) by (simp add: floor_root.simps [of n x] Let_def flip: q_def)
  qed (use 1 in \<open>simp add: floor_root.simps\<close>)
qed


lemma floor_root_eq:
  assumes "r ^ n \<le> x" and "x < (r + 1) ^ n"
  shows "floor_root n x = r"
proof -
  have "0 < n" using assms by (cases n) auto
  note exact = floor_root_exact [OF this, of x]
  have "r < floor_root n x + 1" "floor_root n x < r + 1"
    using exact assms by (auto intro: power_less_imp_less_base [where n = n] simp del: One_nat_def)
  then show ?thesis by simp
qed

text \<open>A word is checked against the standard by two powers: the integer part of the root stands above it.\<close>

definition root_checked :: "nat \<Rightarrow> nat \<Rightarrow> 'a::len word \<Rightarrow> bool" where
  "root_checked n p c =
     (let r = floor_root n p * 2 ^ LENGTH('a) + unat c; x = p * 2 ^ (n * LENGTH('a)) in r ^ n \<le> x \<and> x < (r + 1) ^ n)"

lemma root_bits_eq: "root_checked n p (c :: 'a::len word) \<Longrightarrow> root_bits n p = c"
  using floor_root_eq [of "floor_root n p * 2 ^ LENGTH('a) + unat c" n "p * 2 ^ (n * LENGTH('a))"]
  by (simp add: root_checked_def root_bits_def Let_def)

lemma roots_eq: "list_all2 (root_checked n) ps cs \<Longrightarrow> map (root_bits n) ps = cs"
  by (induction rule: list_all2_induct) (simp_all add: root_bits_eq)

subsection \<open>The rounds of the standard\<close>

text \<open>
  The standard shifts eight working variables through each round and defines the schedule by recursion.
\<close>

definition std_ch :: "'a::len word \<Rightarrow> 'a word \<Rightarrow> 'a word \<Rightarrow> 'a word" where
  "std_ch x y z = (x AND y) XOR (NOT x AND z)"

definition std_maj :: "'a::len word \<Rightarrow> 'a word \<Rightarrow> 'a word \<Rightarrow> 'a word" where
  "std_maj x y z = (x AND y) XOR (x AND z) XOR (y AND z)"

fun std_schedule :: "('a::len word \<Rightarrow> 'a word) \<Rightarrow> ('a word \<Rightarrow> 'a word) \<Rightarrow> 'a word list \<Rightarrow> nat \<Rightarrow> 'a word" where
  "std_schedule s0 s1 M t =
     (if t < 16 then M ! t
      else s1 (std_schedule s0 s1 M (t - 2)) + std_schedule s0 s1 M (t - 7) + s0 (std_schedule s0 s1 M (t - 15)) + std_schedule s0 s1 M (t - 16))"

declare std_schedule.simps [simp del]

fun std_round :: "('a::len word \<Rightarrow> 'a word) \<Rightarrow> ('a word \<Rightarrow> 'a word) \<Rightarrow> 'a word list \<Rightarrow> 'a word \<Rightarrow> 'a word \<Rightarrow> 'a word list" where
  "std_round S0 S1 [a, b, c, d, e, f, g, h] k w =
     (let T1 = h + S1 e + std_ch e f g + k + w; T2 = S0 a + std_maj a b c in [T1 + T2, a, b, c, d + T1, e, f, g])"
| "std_round S0 S1 S k w = S"

definition std_rounds :: "nat \<Rightarrow> ('a::len word \<Rightarrow> 'a word) \<Rightarrow> ('a word \<Rightarrow> 'a word) \<Rightarrow> 'a word list \<Rightarrow> (nat \<Rightarrow> 'a word) \<Rightarrow> 'a word list \<Rightarrow> 'a word list" where
  "std_rounds n S0 S1 K w S = foldl (\<lambda>S t. std_round S0 S1 S (K ! t) (w t)) S [0..<n]"

lemma Ch_std: "Ch x y z = std_ch x y z"
  by (intro bit_word_eqI) (auto simp: Ch_def std_ch_def bit_simps)

lemma Maj_std: "Maj x y z = std_maj x y z"
  by (intro bit_word_eqI) (auto simp: Maj_def std_maj_def bit_simps)

lemma ROTR_rotates:
  assumes "n < LENGTH('a)"
  shows "ROTR (x :: 'a::len word) n = word_rotr n x"
proof (intro bit_word_eqI)
  fix m assume "m < LENGTH('a)"
  then show "bit (ROTR x n) m = bit (word_rotr n x) m"
    using assms by (cases "m + n < LENGTH('a)") (auto simp: ROTR_def bit_simps mod_if ac_simps dest: bit_imp_le_length)
qed

lemma length_sha_extend: "length (sha_extend s0 s1 n W) = length W + (n - 16)"
proof -
  have "length (foldl (\<lambda>W i. W @ [g W i]) W is) = length W + length is" for g :: "'a word list \<Rightarrow> nat \<Rightarrow> 'a word" and "is"
    by (induction "is" arbitrary: W) simp_all
  then show ?thesis by (simp add: sha_extend_def)
qed

lemma sha_extend_std:
  assumes "length M = 16" and "16 \<le> n"
  shows "sha_extend s0 s1 n M = map (std_schedule s0 s1 M) [0..<n]"
  using assms(2)
proof (induction n rule: dec_induct)
  case base
  have "M = map ((!) M) [0..<16]" using assms(1) by (metis map_nth)
  moreover have "map (std_schedule s0 s1 M) [0..<16] = map ((!) M) [0..<16]" by (simp add: std_schedule.simps cong: map_cong)
  ultimately show ?case by (simp add: sha_extend_def)
next
  case (step n)
  have "sha_extend s0 s1 (Suc n) M = sha_extend s0 s1 n M @ [s1 (sha_extend s0 s1 n M ! (n - 2)) + sha_extend s0 s1 n M ! (n - 7) +
      s0 (sha_extend s0 s1 n M ! (n - 15)) + sha_extend s0 s1 n M ! (n - 16)]"
    using step(1) by (simp add: sha_extend_def)
  also have "\<dots> = map (std_schedule s0 s1 M) [0..<Suc n]"
    unfolding step.IH using step(1) by (simp add: std_schedule.simps [of s0 s1 M n])
  finally show ?case .
qed

text \<open>After \<open>i\<close> rounds the variables of the standard are the array, read from the index that \<open>i\<close> rounds rotated to.\<close>

definition roles :: "nat \<Rightarrow> 'a list \<Rightarrow> 'a list" where
  "roles q S = map (\<lambda>j. S ! ((q + j) mod 8)) [0, 1, 2, 3, 4, 5, 6, 7]"

lemma role_index:
  assumes "8 dvd n" and "i \<le> n"
  shows "(n + j - i) mod 8 = (7 * i mod 8 + j) mod (8 :: nat)"
proof -
  have "(n + j - i) mod 8 = (n + j - i + 8 * i) mod 8" by simp
  also have "n + j - i + 8 * i = n + (7 * i + j)" using assms(2) by simp
  also have "\<dots> mod 8 = (7 * i + j) mod 8" using assms(1) by (auto elim!: dvdE)
  finally show ?thesis by (simp add: mod_add_left_eq)
qed

lemma role_turns: "7 * Suc i mod 8 = (7 * i mod 8 + 7) mod (8 :: nat)"
  by (simp add: mod_add_right_eq add.commute)

lemma eight_cases:
  fixes q :: nat
  assumes "q < 8"
  obtains "q = 0" | "q = 1" | "q = 2" | "q = 3" | "q = 4" | "q = 5" | "q = 6" | "q = 7"
  using assms by linarith

lemma eight_elements:
  assumes "length S = 8"
  obtains a b c d e f g h where "S = [a, b, c, d, e, f, g, h]"
  using assms by (auto simp: length_Suc_conv eval_nat_numeral)

lemma RNDr_std:
  assumes "8 dvd n" and "i \<le> n" and "length S = 8"
  shows "roles (7 * Suc i mod 8) (RNDr n S0 S1 S W i k) = std_round S0 S1 (roles (7 * i mod 8) S) k (W ! i)"
proof -
  obtain a b c d e f g h where S: "S = [a, b, c, d, e, f, g, h]" using assms(3) by (rule eight_elements)
  note index = role_index [OF assms(1,2)] role_index [OF assms(1,2), of 0, simplified] role_turns
  have "7 * i mod 8 < (8 :: nat)" by simp
  then show ?thesis
    unfolding RNDr_def index
    by (cases rule: eight_cases)
      (simp_all only: S, simp_all add: RND_def roles_def Let_def Ch_std Maj_std nth_Cons' ac_simps)
qed

lemma length_RNDr [simp]: "length (RNDr n S0 S1 S W i k) = length S"
  by (simp add: RNDr_def split_beta Let_def)

lemma length_sha_rounds [simp]: "length (sha_rounds n S0 S1 calls W S) = length S"
  unfolding sha_rounds_def by (induction calls arbitrary: S) (simp_all add: split_beta)

lemma numbered_calls:
  assumes "map fst calls = [0..<n]"
  shows "calls = map (\<lambda>i. (i, map snd calls ! i)) [0..<n]"
proof (rule nth_equalityI)
  have len: "length calls = n" using assms by (metis length_map length_upt minus_nat.diff_0)
  then show "length calls = length (map (\<lambda>i. (i, map snd calls ! i)) [0..<n])" by simp
  fix i assume "i < length calls"
  then show "calls ! i = map (\<lambda>i. (i, map snd calls ! i)) [0..<n] ! i"
    using arg_cong [OF assms, of "\<lambda>xs. xs ! i"] len by (simp add: prod_eq_iff)
qed

lemma sha_rounds_std:
  assumes "8 dvd n" and "length S = 8" and "\<And>i. i < n \<Longrightarrow> W ! i = w i" and "map fst calls = [0..<n]"
  shows "sha_rounds n S0 S1 calls W S = std_rounds n S0 S1 (map snd calls) w S"
proof -
  let ?K = "map snd calls"
  define run where "run m = foldl (\<lambda>S i. RNDr n S0 S1 S W i (?K ! i)) S [0..<m]" for m
  define std where "std m = foldl (\<lambda>S t. std_round S0 S1 S (?K ! t) (w t)) (roles 0 S) [0..<m]" for m
  have step: "run 0 = S" "std 0 = roles 0 S" "run (Suc m) = RNDr n S0 S1 (run m) W m (?K ! m)" "std (Suc m) = std_round S0 S1 (std m) (?K ! m) (w m)" for m
    by (simp_all add: run_def std_def)
  have len: "length (run m) = 8" for m by (induction m) (simp_all add: step assms(2))
  have rotated: "roles (7 * m mod 8) (run m) = std m" if "m \<le> n" for m
    using that
  proof (induction m)
    case (Suc m)
    have "roles (7 * Suc m mod 8) (run (Suc m)) = std_round S0 S1 (roles (7 * m mod 8) (run m)) (?K ! m) (W ! m)"
      unfolding step by (rule RNDr_std [OF assms(1) _ len]) (use Suc.prems in simp)
    also have "\<dots> = std (Suc m)" using Suc assms(3) [of m] by (simp only: step)
    finally show ?case .
  qed (simp add: step)
  have turn: "7 * n mod 8 = 0" using assms(1) by (auto elim!: dvdE)
  have whole: "roles 0 S' = S'" if "length S' = 8" for S' :: "'a word list"
    by (rule eight_elements [OF that]) (simp add: roles_def)
  have "run n = std_rounds n S0 S1 ?K w S"
    using rotated [of n] unfolding turn by (simp add: whole [OF len] whole [OF assms(2)] std_def std_rounds_def)
  moreover have "sha_rounds n S0 S1 calls W S = run n"
    unfolding sha_rounds_def run_def by (subst numbered_calls [OF assms(4)]) (simp add: foldl_map)
  ultimately show ?thesis by simp
qed

subsection \<open>Numbers as bytes\<close>

text \<open>The big-endian bytes of a number and back, as the standards write them.\<close>

definition be_bytes :: "nat \<Rightarrow> nat \<Rightarrow> data_chunk" where
  "be_bytes t b = map (\<lambda>i. of_nat (b div 256 ^ (t - Suc i))) [0..<t]"

definition be_word :: "data_chunk \<Rightarrow> 'a::len word" where
  "be_word bs = foldl (\<lambda>w b. w * 256 + ucast b) 0 bs"

lemma length_be_bytes [simp]: "length (be_bytes t b) = t"
  by (simp add: be_bytes_def)

lemma of_nat_byte: "of_nat m = (of_nat n :: byte) \<longleftrightarrow> m mod 256 = n mod 256"
  by (simp add: word_of_nat_eq_iff take_bit_eq_mod)

lemma be_bytes_append:
  assumes "c < 256 ^ k"
  shows "be_bytes (j + k) (b * 256 ^ k + c) = be_bytes j b @ be_bytes k c"
proof (rule nth_equalityI)
  fix i assume "i < length (be_bytes (j + k) (b * 256 ^ k + c))"
  then have i: "i < j + k" by simp
  show "be_bytes (j + k) (b * 256 ^ k + c) ! i = (be_bytes j b @ be_bytes k c) ! i"
  proof (cases "i < j")
    case True
    then have "(256 :: nat) ^ (j + k - Suc i) = 256 ^ k * 256 ^ (j - Suc i)" by (simp flip: power_add)
    then have "(b * 256 ^ k + c) div 256 ^ (j + k - Suc i) = b div 256 ^ (j - Suc i)"
      using assms by (simp add: div_mult2_eq)
    then show ?thesis using True by (simp add: be_bytes_def nth_append)
  next
    case False
    let ?e = "j + k - Suc i"
    have e: "k = Suc (k - Suc ?e) + ?e" "k - Suc (i - j) = ?e" using False i by auto
    have "b * 256 ^ k = (b * 256 ^ (k - Suc ?e) * 256) * 256 ^ ?e" by (subst e(1)) (simp add: power_add)
    then have "(b * 256 ^ k + c) div 256 ^ ?e = b * 256 ^ (k - Suc ?e) * 256 + c div 256 ^ ?e"
      by (simp only: div_mult_self3 power_not_zero zero_neq_numeral not_False_eq_True)
    then have "of_nat ((b * 256 ^ k + c) div 256 ^ ?e) = (of_nat (c div 256 ^ ?e) :: byte)" by (simp add: of_nat_byte del: of_nat_add of_nat_mult)
    moreover have "i - j < k" using False i by simp
    ultimately show ?thesis using False i e(2) by (simp add: be_bytes_def nth_append)
  qed
qed simp

lemma be_bytes_mod: "be_bytes t (b mod 256 ^ t) = be_bytes t b"
proof -
  have "b div 256 ^ t * 256 ^ t + b mod 256 ^ t = b" by (rule div_mult_mod_eq)
  moreover have "be_bytes (0 + t) (b div 256 ^ t * 256 ^ t + b mod 256 ^ t) = be_bytes 0 (b div 256 ^ t) @ be_bytes t (b mod 256 ^ t)"
    by (rule be_bytes_append) simp
  ultimately show ?thesis by (simp add: be_bytes_def [of 0])
qed

subsection \<open>Counting of bits in two words\<close>

lemma unat_bound: "unat (w :: 'a::len word) < 2 ^ LENGTH('a)"
  by (rule unsigned_less)

lemma once_over: "N \<le> m \<Longrightarrow> m < N + N \<Longrightarrow> m mod N = m - (N :: nat)"
  by (simp add: le_mod_geq)

lemma carry_exact:
  fixes b1 :: "'a::len word"
  shows "unat (c1 + b1) = (if c1 + b1 < b1 then unat c1 + unat b1 - 2 ^ LENGTH('a) else unat c1 + unat b1)"
    and "c1 + b1 < b1 \<Longrightarrow> 2 ^ LENGTH('a) \<le> unat c1 + unat b1"
proof -
  let ?N = "2 ^ LENGTH('a) :: nat"
  have bound: "unat c1 + unat b1 < ?N + ?N" "unat c1 < ?N" using unat_bound [of c1] unat_bound [of b1] by linarith+
  have "unat (c1 + b1) = (unat c1 + unat b1) mod ?N" by (rule unat_word_ariths)
  then have over: "unat (c1 + b1) = (if ?N \<le> unat c1 + unat b1 then unat c1 + unat b1 - ?N else unat c1 + unat b1)"
    using once_over [OF _ bound(1)] by simp
  have "c1 + b1 < b1 \<longleftrightarrow> ?N \<le> unat c1 + unat b1" 
  proof (cases "?N \<le> unat c1 + unat b1")
    case True
    then have "unat c1 + unat b1 - ?N < unat b1" using bound(2) by linarith
    then show ?thesis using True over word_less_nat_alt [of "c1 + b1" b1] by simp
  next
    case False
    then show ?thesis using over word_less_nat_alt [of "c1 + b1" b1] by simp
  qed
  then show "unat (c1 + b1) = (if c1 + b1 < b1 then unat c1 + unat b1 - ?N else unat c1 + unat b1)"
    and "c1 + b1 < b1 \<Longrightarrow> ?N \<le> unat c1 + unat b1"
    using over by simp_all
qed

lemma two_digits:
  assumes "y < (N :: nat)"
  shows "x mod N * N + y = (x * N + y) mod (N * N)"
  using assms by (simp add: mod_mult2_eq)

lemma count_update:
  fixes c0 c1 :: "'a::len word"
  assumes "LENGTH('a) = 3 + s" and "b1 = push_bit 3 (of_nat len)" and "b0 = of_nat (len div 2 ^ s)"
  shows "unat ((if c1 + b1 < b1 then c0 + 1 else c0) + b0) * 2 ^ LENGTH('a) + unat (c1 + b1) =
    (unat c0 * 2 ^ LENGTH('a) + unat c1 + 8 * len) mod (2 ^ LENGTH('a) * 2 ^ LENGTH('a))"
proof -
  let ?N = "2 ^ LENGTH('a) :: nat"
  define q :: nat where "q = (if c1 + b1 < b1 then 1 else 0)"
  have "b1 = of_nat (8 * len)" by (simp add: assms(2) push_bit_eq_mult mult.commute)
  then have b1: "unat b1 = 8 * len mod ?N" by (simp only: unat_of_nat)
  have "(if c1 + b1 < b1 then c0 + 1 else c0) + b0 = of_nat (unat c0 + q + len div 2 ^ s)" by (simp add: q_def assms(3))
  then have hi: "unat ((if c1 + b1 < b1 then c0 + 1 else c0) + b0) = (unat c0 + q + len div 2 ^ s) mod ?N" by (simp only: unat_of_nat)
  have lo: "q * ?N + unat (c1 + b1) = unat c1 + unat b1"
    using carry_exact(2) [of c1 b1] unfolding carry_exact(1) [of c1 b1] q_def by simp
  have "len div 2 ^ s = 8 * len div ?N" using assms(1) by (simp add: power_add)
  then have "len div 2 ^ s * ?N + unat b1 = 8 * len" by (simp only: b1 div_mult_mod_eq)
  then have "(unat c0 + q + len div 2 ^ s) * ?N + unat (c1 + b1) = unat c0 * ?N + unat c1 + 8 * len"
    using lo by (simp add: algebra_simps)
  then show ?thesis unfolding hi two_digits [OF unat_bound] by simp
qed

subsection \<open>The compression of the standard\<close>

definition std_compress :: "nat \<Rightarrow> nat \<Rightarrow> ('a::len word \<Rightarrow> 'a word) \<Rightarrow> ('a word \<Rightarrow> 'a word) \<Rightarrow> ('a word \<Rightarrow> 'a word) \<Rightarrow> ('a word \<Rightarrow> 'a word) \<Rightarrow>
    'a word list \<Rightarrow> 'a word list \<Rightarrow> data_chunk \<Rightarrow> 'a word list" where
  "std_compress n w s0 s1 S0 S1 K H block =
     map2 (+) H (std_rounds n S0 S1 K (std_schedule s0 s1 (map be_word (blocks w block))) H)"

lemma absorbed_cong:
  assumes "P s" and "\<And>s b. P s \<Longrightarrow> length b = n \<Longrightarrow> f s b = g s b \<and> P (g s b)" and "0 < n"
  shows "absorbed n f s xs = absorbed n g s xs"
proof -
  have "foldl f s bs = foldl g s bs \<and> P (foldl g s bs)" if "\<forall>b \<in> set bs. length b = n" for bs
    using that by (induction bs rule: rev_induct) (auto simp: assms)
  moreover have "length (take n (drop (i * n) xs)) = n" if "i < length xs div n" for i
  proof -
    have "Suc i * n \<le> length xs div n * n" using that by (intro mult_le_mono1) simp
    then have "i * n + n \<le> length xs" using div_times_less_eq_dividend [of "length xs" n] unfolding mult_Suc by linarith
    then show ?thesis by simp
  qed
  ultimately show ?thesis unfolding absorbed_def by (auto simp: blocks_def)
qed

lemma blocks_nth: "length xs = k * w \<Longrightarrow> 0 < w \<Longrightarrow> blocks w xs = map (\<lambda>i. take w (drop (i * w) xs)) [0..<k]"
  by (simp add: blocks_def)

lemma foldl_keeps: "P s \<Longrightarrow> (\<And>s b. P s \<Longrightarrow> P (f s b)) \<Longrightarrow> P (foldl f s bs)"
  by (induction bs arbitrary: s) auto

lemma byte_of_word: "(ucast (drop_bit k w) :: byte) = of_nat (unat (w :: 'a::len word) div 2 ^ k)" "(ucast w :: byte) = of_nat (unat w)"
proof -
  show w: "(ucast w :: byte) = of_nat (unat w)" for w :: "'a word" by simp
  show "(ucast (drop_bit k w) :: byte) = of_nat (unat w div 2 ^ k)"
    unfolding w unat_drop_bit_eq by (simp only: drop_bit_eq_div)
qed

text \<open>A loop that mixes the bytes of a key into an array.\<close>

lemma xor_loop:
  assumes "length key \<le> length pad"
  shows "foldl (\<lambda>pad i. pad[i := pad ! i XOR key ! i]) pad [0..<length key] =
    map (\<lambda>i. if i < length key then pad ! i XOR key ! i else (pad ! i :: byte)) [0..<length pad]"
proof -
  have "foldl (\<lambda>pad i. pad[i := pad ! i XOR key ! i]) pad [0..<m] =
      map (\<lambda>i. if i < m then pad ! i XOR key ! i else pad ! i) [0..<length pad]" if "m \<le> length key" for m
    using that
  proof (induction m)
    case 0
    then show ?case by (simp add: map_nth)
  next
    case (Suc m)
    then show ?case using assms by (auto simp: intro!: nth_equalityI simp: nth_list_update less_Suc_eq)
  qed
  from this [of "length key"] show ?thesis by simp
qed

end
