(* ===== verification/Sha256.thy ===== *)
theory Sha256
  imports Sha2
begin

unbundle bit_operations_syntax

text \<open>
  \<^verbatim>\<open>src/math/external/sha256.c\<close> and \<^verbatim>\<open>hmac_sha256.c\<close>: SHA-256 and its keyed form, as the code computes them, against the standards.
\<close>

subsection \<open>The code\<close>

definition sha256_S0 :: "uint32 \<Rightarrow> uint32" where "sha256_S0 x = ROTR x 2 XOR ROTR x 13 XOR ROTR x 22"
definition sha256_S1 :: "uint32 \<Rightarrow> uint32" where "sha256_S1 x = ROTR x 6 XOR ROTR x 11 XOR ROTR x 25"
definition sha256_s0 :: "uint32 \<Rightarrow> uint32" where "sha256_s0 x = ROTR x 7 XOR ROTR x 18 XOR SHR x 3"
definition sha256_s1 :: "uint32 \<Rightarrow> uint32" where "sha256_s1 x = ROTR x 17 XOR ROTR x 19 XOR SHR x 10"

definition be32dec :: "data_chunk \<Rightarrow> uint32" where
  "be32dec p = ucast (p ! 3) + push_bit 8 (ucast (p ! 2)) + push_bit 16 (ucast (p ! 1)) + push_bit 24 (ucast (p ! 0))"

definition be32enc :: "uint32 \<Rightarrow> data_chunk" where
  "be32enc x = [ucast (drop_bit 24 x), ucast (drop_bit 16 x), ucast (drop_bit 8 x), ucast x]"

definition be32dec_vect :: "data_chunk \<Rightarrow> nat \<Rightarrow> uint32 list" where
  "be32dec_vect src n = map (\<lambda>i. be32dec (drop (i * 4) src)) [0..<n div 4]"

definition be32enc_vect :: "uint32 list \<Rightarrow> nat \<Rightarrow> data_chunk" where
  "be32enc_vect src n = concat (map (\<lambda>i. be32enc (src ! i)) [0..<n div 4])"

definition sha256_calls :: "(nat \<times> uint32) list" where
  "sha256_calls =
    [(0, 0x428a2f98), (1, 0x71374491), (2, 0xb5c0fbcf), (3, 0xe9b5dba5),
     (4, 0x3956c25b), (5, 0x59f111f1), (6, 0x923f82a4), (7, 0xab1c5ed5),
     (8, 0xd807aa98), (9, 0x12835b01), (10, 0x243185be), (11, 0x550c7dc3),
     (12, 0x72be5d74), (13, 0x80deb1fe), (14, 0x9bdc06a7), (15, 0xc19bf174),
     (16, 0xe49b69c1), (17, 0xefbe4786), (18, 0x0fc19dc6), (19, 0x240ca1cc),
     (20, 0x2de92c6f), (21, 0x4a7484aa), (22, 0x5cb0a9dc), (23, 0x76f988da),
     (24, 0x983e5152), (25, 0xa831c66d), (26, 0xb00327c8), (27, 0xbf597fc7),
     (28, 0xc6e00bf3), (29, 0xd5a79147), (30, 0x06ca6351), (31, 0x14292967),
     (32, 0x27b70a85), (33, 0x2e1b2138), (34, 0x4d2c6dfc), (35, 0x53380d13),
     (36, 0x650a7354), (37, 0x766a0abb), (38, 0x81c2c92e), (39, 0x92722c85),
     (40, 0xa2bfe8a1), (41, 0xa81a664b), (42, 0xc24b8b70), (43, 0xc76c51a3),
     (44, 0xd192e819), (45, 0xd6990624), (46, 0xf40e3585), (47, 0x106aa070),
     (48, 0x19a4c116), (49, 0x1e376c08), (50, 0x2748774c), (51, 0x34b0bcb5),
     (52, 0x391c0cb3), (53, 0x4ed8aa4a), (54, 0x5b9cca4f), (55, 0x682e6ff3),
     (56, 0x748f82ee), (57, 0x78a5636f), (58, 0x84c87814), (59, 0x8cc70208),
     (60, 0x90befffa), (61, 0xa4506ceb), (62, 0xbef9a3f7), (63, 0xc67178f2)]"

definition SHA256Transform :: "uint32 list \<Rightarrow> data_chunk \<Rightarrow> uint32 list" where
  "SHA256Transform state block =
     (let W = sha_extend sha256_s0 sha256_s1 64 (be32dec_vect block 64);
          S = sha_rounds 64 sha256_S0 sha256_S1 sha256_calls W state
      in map (\<lambda>i. state ! i + S ! i) [0..<8])"

record SHA256CTX =
  state256 :: "uint32 list"
  count256_0 :: uint32
  count256_1 :: uint32
  buf256 :: data_chunk

definition SHA256_PAD :: data_chunk where
  "SHA256_PAD = 0x80 # replicate 63 0"

definition sha256_initial :: "uint32 list" where
  "sha256_initial =
     [0x6A09E667, 0xBB67AE85, 0x3C6EF372, 0xA54FF53A,
      0x510E527F, 0x9B05688C, 0x1F83D9AB, 0x5BE0CD19]"

definition SHA256Init :: "SHA256CTX \<Rightarrow> SHA256CTX" where
  "SHA256Init context' = context'\<lparr>count256_0 := 0, count256_1 := 0, state256 := sha256_initial\<rparr>"

definition sha256_waiting :: "SHA256CTX \<Rightarrow> nat" where
  "sha256_waiting context' = unat (drop_bit 3 (count256_1 context') AND 0x3f)"

definition SHA256Update :: "SHA256CTX \<Rightarrow> data_chunk \<Rightarrow> SHA256CTX" where
  "SHA256Update context' input =
     (let r = sha256_waiting context';
          bitlen1 = push_bit 3 (of_nat (length input) :: uint32);
          bitlen0 = of_nat (length input div 2 ^ 29) :: uint32;
          count1 = count256_1 context' + bitlen1;
          count0 = (if count1 < bitlen1 then count256_0 context' + 1 else count256_0 context') + bitlen0;
          (state, buf) = buffer_update 64 SHA256Transform r (state256 context') (buf256 context') input
      in \<lparr>state256 = state, count256_0 = count0, count256_1 = count1, buf256 = buf\<rparr>)"

definition SHA256Pad :: "SHA256CTX \<Rightarrow> SHA256CTX" where
  "SHA256Pad context' =
     (let len = be32enc_vect [count256_0 context', count256_1 context'] 8;
          r = sha256_waiting context';
          plen = (if r < 56 then 56 - r else 120 - r)
      in SHA256Update (SHA256Update context' (take plen SHA256_PAD)) len)"

text \<open>The context is overwritten with zeros once the digest is written.\<close>

definition SHA256_zeroized :: SHA256CTX where
  "SHA256_zeroized = \<lparr>state256 = replicate 8 0, count256_0 = 0, count256_1 = 0, buf256 = replicate 64 0\<rparr>"

definition SHA256Final :: "SHA256CTX \<Rightarrow> data_chunk \<times> SHA256CTX" where
  "SHA256Final context' = (be32enc_vect (state256 (SHA256Pad context')) 32, SHA256_zeroized)"

text \<open>The context of a single call is a local variable whose contents are arbitrary before the initialisation.\<close>

definition SHA256 :: "SHA256CTX \<Rightarrow> data_chunk \<Rightarrow> data_chunk" where
  "SHA256 garbage input = fst (SHA256Final (SHA256Update (SHA256Init garbage) input))"

subsection \<open>Keyed digests\<close>

record HMACSHA256CTX =
  ctx256 :: SHA256CTX
  ictx256 :: SHA256CTX
  octx256 :: SHA256CTX

text \<open>The loop that mixes a key into a constant block.\<close>

definition key_pad256 :: "byte \<Rightarrow> data_chunk \<Rightarrow> data_chunk" where
  "key_pad256 b key = foldl (\<lambda>pad i. pad[i := pad ! i XOR key ! i]) (replicate 64 b) [0..<length key]"

definition HMACSHA256Init :: "HMACSHA256CTX \<Rightarrow> data_chunk \<Rightarrow> HMACSHA256CTX" where
  "HMACSHA256Init context' key =
     (let (key, ictx) =
            (if length key > 64 then SHA256Final (SHA256Update (SHA256Init (ictx256 context')) key) else (key, ictx256 context'))
      in context'\<lparr>ictx256 := SHA256Update (SHA256Init ictx) (key_pad256 0x36 key),
                  octx256 := SHA256Update (SHA256Init (octx256 context')) (key_pad256 0x5c key)\<rparr>)"

definition HMACSHA256Update :: "HMACSHA256CTX \<Rightarrow> data_chunk \<Rightarrow> HMACSHA256CTX" where
  "HMACSHA256Update context' input = context'\<lparr>ictx256 := SHA256Update (ictx256 context') input\<rparr>"

definition HMACSHA256Final :: "HMACSHA256CTX \<Rightarrow> data_chunk" where
  "HMACSHA256Final context' =
     (let hash = fst (SHA256Final (ictx256 context')) in fst (SHA256Final (SHA256Update (octx256 context') hash)))"

definition HMACSHA256 :: "HMACSHA256CTX \<Rightarrow> data_chunk \<Rightarrow> data_chunk \<Rightarrow> data_chunk" where
  "HMACSHA256 garbage input key = HMACSHA256Final (HMACSHA256Update (HMACSHA256Init garbage key) input)"

subsection \<open>The standard\<close>

text \<open>
  The digest of the standard: rotations of words, constants from the cube roots and initial words from the square roots of the first
  primes, the compression of its working variables, the padded message cut into blocks.
\<close>

definition std256_S0 :: "uint32 \<Rightarrow> uint32" where "std256_S0 x = word_rotr 2 x XOR word_rotr 13 x XOR word_rotr 22 x"
definition std256_S1 :: "uint32 \<Rightarrow> uint32" where "std256_S1 x = word_rotr 6 x XOR word_rotr 11 x XOR word_rotr 25 x"
definition std256_s0 :: "uint32 \<Rightarrow> uint32" where "std256_s0 x = word_rotr 7 x XOR word_rotr 18 x XOR drop_bit 3 x"
definition std256_s1 :: "uint32 \<Rightarrow> uint32" where "std256_s1 x = word_rotr 17 x XOR word_rotr 19 x XOR drop_bit 10 x"

definition std256_K :: "uint32 list" where "std256_K = map (root_bits 3) (take 64 first_primes)"
definition std256_H :: "uint32 list" where "std256_H = map (root_bits 2) (take 8 first_primes)"

definition sha256_compress :: "uint32 list \<Rightarrow> data_chunk \<Rightarrow> uint32 list" where
  "sha256_compress = std_compress 64 4 std256_s0 std256_s1 std256_S0 std256_S1 std256_K"

definition sha256_standard :: "data_chunk \<Rightarrow> data_chunk" where
  "sha256_standard msg = concat (map (\<lambda>w. be_bytes 4 (unat w))
     (absorbed 64 sha256_compress std256_H (pad_message 64 8 (be_bytes 8) msg)))"

definition hmac256_standard :: "data_chunk \<Rightarrow> data_chunk \<Rightarrow> data_chunk" where
  "hmac256_standard key msg =
     (let k0 = (if length key > 64 then sha256_standard key else key);
          k = k0 @ replicate (64 - length k0) 0
      in sha256_standard (map (\<lambda>b. b XOR 0x5c) k @ sha256_standard (map (\<lambda>b. b XOR 0x36) k @ msg)))"

subsection \<open>The transformation\<close>

lemma sha256_sigmas: "sha256_S0 = std256_S0" "sha256_S1 = std256_S1" "sha256_s0 = std256_s0" "sha256_s1 = std256_s1"
  by (simp_all add: fun_eq_iff sha256_S0_def sha256_S1_def sha256_s0_def sha256_s1_def std256_S0_def std256_S1_def std256_s0_def std256_s1_def
      ROTR_rotates SHR_def)

lemma be32enc_bytes: "be32enc x = be_bytes 4 (unat x)"
  by (simp add: be32enc_def be_bytes_def upt_rec byte_of_word(1))

lemma be32dec_word: "4 \<le> length p \<Longrightarrow> be32dec p = be_word (take 4 p)"
proof -
  assume "4 \<le> length p"
  then obtain a b c d q where "p = a # b # c # d # q" by (auto simp: Suc_le_length_iff eval_nat_numeral)
  then show ?thesis by (simp add: be32dec_def be_word_def push_bit_eq_mult algebra_simps)
qed

lemma be32dec_vect_words: "length block = 64 \<Longrightarrow> be32dec_vect block 64 = map be_word (blocks 4 block)"
  by (simp add: be32dec_vect_def blocks_nth [of block 16 4] be32dec_word)

lemma sha256_numbered: "map fst sha256_calls = [0..<64]"
  by (simp add: sha256_calls_def upt_rec)

text \<open>The constants and the initial words written in the code are those of the standard.\<close>

lemma std256_K_calls: "std256_K = map snd sha256_calls"
  unfolding std256_K_def by (rule roots_eq) (simp add: first_primes_def sha256_calls_def root_checked_def floor_root.simps)

lemma std256_H_initial: "std256_H = sha256_initial"
  unfolding std256_H_def by (rule roots_eq) (simp add: first_primes_def sha256_initial_def root_checked_def floor_root.simps)

lemma SHA256Transform_std:
  assumes "length H = 8" and "length block = 64"
  shows "SHA256Transform H block = sha256_compress H block \<and> length (sha256_compress H block) = 8"
proof -
  let ?M = "map be_word (blocks 4 block) :: uint32 list"
  have M: "length ?M = 16" using assms(2) by (simp add: blocks_def)
  have W: "sha_extend std256_s0 std256_s1 64 ?M = map (std_schedule std256_s0 std256_s1 ?M) [0..<64]" by (rule sha_extend_std [OF M]) simp
  let ?S = "std_rounds 64 std256_S0 std256_S1 (map snd sha256_calls) (std_schedule std256_s0 std256_s1 ?M) H"
  have S: "sha_rounds 64 std256_S0 std256_S1 sha256_calls (map (std_schedule std256_s0 std256_s1 ?M) [0..<64]) H = ?S"
    by (rule sha_rounds_std) (simp_all add: assms(1) sha256_numbered)
  have "length ?S = 8" unfolding S [symmetric] by (simp add: assms(1))
  then obtain s1 s2 s3 s4 s5 s6 s7 s8 where "?S = [s1, s2, s3, s4, s5, s6, s7, s8]" by (rule eight_elements)
  moreover obtain h1 h2 h3 h4 h5 h6 h7 h8 where "H = [h1, h2, h3, h4, h5, h6, h7, h8]" using assms(1) by (rule eight_elements)
  ultimately have "map (\<lambda>i. H ! i + ?S ! i) [0..<8] = map2 (+) H ?S" "length (map2 (+) H ?S) = 8" by (simp_all add: upt_rec)
  then show ?thesis
    by (simp add: SHA256Transform_def sha256_compress_def std256_K_calls std_compress_def sha256_sigmas be32dec_vect_words [OF assms(2)] W S Let_def)
qed

subsection \<open>The context\<close>

definition bits256 :: "SHA256CTX \<Rightarrow> nat" where
  "bits256 c = unat (count256_0 c) * 2 ^ 32 + unat (count256_1 c)"

lemma sha256_waits: "sha256_waiting c = bits256 c div 8 mod 64"
proof -
  have "unat (drop_bit 3 x AND 0x3f) = unat x div 8 mod 64" for x :: uint32
  proof -
    have "(0x3f :: uint32) = mask 6" by (simp add: mask_eq_exp_minus_1)
    then have "drop_bit 3 x AND 0x3f = take_bit 6 (drop_bit 3 x)" by (simp only: take_bit_eq_mask)
    moreover have "unat (take_bit 6 (drop_bit 3 x)) = take_bit 6 (drop_bit 3 (unat x))"
      by (simp only: unsigned_take_bit_eq unat_drop_bit_eq)
    ultimately show ?thesis by (simp add: take_bit_eq_mod drop_bit_eq_div)
  qed
  moreover have "(a * 2 ^ 32 + b) div 8 mod 64 = b div 8 mod 64" for a b :: nat
  proof -
    have "(a * 2 ^ 32 + b) div 8 = a * 2 ^ 23 * 64 + b div 8" by simp
    then show ?thesis by (simp only: mod_mult_self3)
  qed
  ultimately show ?thesis by (simp only: sha256_waiting_def bits256_def)
qed

lemma be32enc_pair: "be32enc_vect [c0, c1] 8 = be_bytes 8 (unat c0 * 2 ^ 32 + unat c1)"
proof -
  have "unat c1 < 256 ^ 4" using unat_bound [of c1] by simp
  from be_bytes_append [OF this, of 4 "unat c0"] show ?thesis
    by (simp add: be32enc_vect_def be32enc_bytes upt_rec)
qed

interpretation sha256: finished_digest 64 "2 ^ 32 * 2 ^ 32" SHA256Transform sha256_initial state256 bits256 buf256 SHA256Update
  8 "be_bytes 8" "\<lambda>s. be32enc_vect s 32" SHA256Init SHA256Final
proof unfold_locales
  show "bits256 (SHA256Update c x) = (bits256 c + 8 * length x) mod (2 ^ 32 * 2 ^ 32)" for c x
    using count_update [of 29 "push_bit 3 (of_nat (length x))" "length x" "of_nat (length x div 2 ^ 29)" "count256_1 c" "count256_0 c"]
    by (simp only: bits256_def SHA256Update_def Let_def split_beta SHA256CTX.select_convs) simp
  show "buffer_update 64 SHA256Transform (bits256 c div 8 mod 64) (state256 c) (buf256 c) x = (state256 (SHA256Update c x), buf256 (SHA256Update c x))" for c x
    by (simp add: SHA256Update_def Let_def split_beta sha256_waits)
  show "be_bytes 8 (b mod (2 ^ 32 * 2 ^ 32)) = be_bytes 8 b" for b
    using be_bytes_mod [of 8 b] by simp
  show "fst (SHA256Final c) = be32enc_vect (state256 (SHA256Update (SHA256Update c (take (pad_length 64 8 (bits256 c div 8 mod 64)) (0x80 # replicate (64 - 1) 0)))
      (be_bytes 8 (bits256 c)))) 32" for c
    by (simp add: SHA256Final_def SHA256Pad_def Let_def be32enc_pair sha256_waits SHA256_PAD_def pad_length_def bits256_def)
qed (simp_all add: SHA256Init_def SHA256Final_def SHA256_zeroized_def bits256_def)

lemma sha256_absorbed:
  "absorbed 64 SHA256Transform sha256_initial m = absorbed 64 sha256_compress sha256_initial m \<and>
   length (absorbed 64 sha256_compress sha256_initial m) = 8"
proof
  have init: "length sha256_initial = 8" by (simp add: sha256_initial_def)
  show "absorbed 64 SHA256Transform sha256_initial m = absorbed 64 sha256_compress sha256_initial m"
    by (rule absorbed_cong [where P = "\<lambda>H. length H = 8"]) (simp_all add: SHA256Transform_std init)
  have "length (absorbed 64 SHA256Transform s m) = 8" if "length s = 8" for s
    unfolding absorbed_def by (rule foldl_keeps) (simp_all add: that SHA256Transform_def)
  then show "length (absorbed 64 sha256_compress sha256_initial m) = 8"
    using init \<open>absorbed 64 SHA256Transform sha256_initial m = absorbed 64 sha256_compress sha256_initial m\<close> by metis
qed

lemma sha256_digest: "sha256.digest msg = sha256_standard msg"
proof -
  have "be32enc_vect s 32 = concat (map (\<lambda>w. be_bytes 4 (unat w)) s)" if "length s = 8" for s
    by (rule eight_elements [OF that]) (simp add: be32enc_vect_def be32enc_bytes upt_rec)
  then show ?thesis by (simp add: sha256.digest_def sha256_standard_def std256_H_initial sha256_absorbed)
qed

text \<open>
  C39. However a message is cut into pieces, the SHA-256 context of the library, with its
  buffer, its count of bits in two words and its rotating rounds, gives the digest that the
  standard defines for the whole message.
\<close>

theorem sha256_exact:
  assumes "length (buf256 garbage) = 64"
  shows "fst (SHA256Final (foldl SHA256Update (SHA256Init garbage) pieces)) = sha256_standard (concat pieces)"
  using sha256.updates_exact [OF assms] by (simp add: sha256_digest)

theorem sha256_exact_witness:
  "fst (SHA256Final (foldl SHA256Update (SHA256Init SHA256_zeroized) [[97], [98, 99]])) = sha256_standard [97, 98, 99]"
  using sha256_exact [of SHA256_zeroized "[[97], [98, 99]]"] by (simp add: SHA256_zeroized_def)

lemma length_sha256_standard [simp]: "length (sha256_standard msg) = 32"
proof -
  have "length (concat (map (\<lambda>w. be_bytes 4 (unat w)) s)) = 32" if "length s = 8" for s :: "uint32 list"
    by (rule eight_elements [OF that]) simp
  then show ?thesis by (simp add: sha256_standard_def std256_H_initial sha256_absorbed)
qed

lemma SHA256_standard:
  assumes "length (buf256 garbage) = 64"
  shows "SHA256 garbage input = sha256_standard input"
  using sha256.updates_exact [OF assms, of "[input]"] by (simp add: SHA256_def sha256_digest)

lemma key_pad256_std:
  assumes "length key \<le> 64"
  shows "key_pad256 b key = map (\<lambda>k. k XOR b) (key @ replicate (64 - length key) 0)"
  unfolding key_pad256_def using xor_loop [of key "replicate 64 b"] assms
  by (intro nth_equalityI) (auto simp: nth_append ac_simps)

lemma hmac256_exact_arrays:
  assumes "length (buf256 (ictx256 garbage)) = 64" and "length (buf256 (octx256 garbage)) = 64"
  shows "HMACSHA256 garbage input key = hmac256_standard key input"
proof -
  define k0 where "k0 = (if length key > 64 then sha256_standard key else key)"
  have k0: "length k0 \<le> 64" by (simp add: k0_def)
  define ictx where "ictx = (if length key > 64 then SHA256_zeroized else ictx256 garbage)"
  have ictx: "length (buf256 ictx) = 64" by (simp add: ictx_def SHA256_zeroized_def assms(1))
  have "fst (SHA256Final (SHA256Update (SHA256Init (ictx256 garbage)) key)) = sha256_standard key"
    using sha256.updates_exact [OF assms(1), of "[key]"] by (simp add: sha256_digest)
  then have key: "(if length key > 64 then SHA256Final (SHA256Update (SHA256Init (ictx256 garbage)) key) else (key, ictx256 garbage)) = (k0, ictx)"
    by (simp add: k0_def ictx_def SHA256Final_def)
  show ?thesis
    using sha256.pair_exact [OF ictx, of "key_pad256 0x36 k0" input] sha256.pair_exact [OF assms(2), of "key_pad256 0x5c k0"]
    by (simp add: HMACSHA256_def HMACSHA256Init_def key HMACSHA256Update_def HMACSHA256Final_def Let_def sha256_digest
        key_pad256_std [OF k0] hmac256_standard_def k0_def [symmetric])
qed

text \<open>The keyed digest is the one of its standard, for keys of any length.\<close>

theorem hmac256_exact:
  assumes "length (buf256 (ictx256 garbage)) = 64" and "length (buf256 (octx256 garbage)) = 64"
  shows "HMACSHA256 garbage input key = hmac256_standard key input"
  using assms by (rule hmac256_exact_arrays)

theorem hmac256_exact_witness:
  "HMACSHA256 \<lparr>ctx256 = SHA256_zeroized, ictx256 = SHA256_zeroized, octx256 = SHA256_zeroized\<rparr> [97] [98] = hmac256_standard [98] [97]"
  by (rule hmac256_exact) (simp_all add: SHA256_zeroized_def)

end
