(* ===== verification/Sha512.thy ===== *)
theory Sha512
  imports Sha2
begin

unbundle bit_operations_syntax

text \<open>
  \<^verbatim>\<open>src/math/external/sha512.c\<close>, \<^verbatim>\<open>hmac_sha512.c\<close> and \<^verbatim>\<open>pkcs5_pbkdf2.c\<close>: SHA-512, its keyed form and the derivation of keys from passphrases.
\<close>

subsection \<open>The code\<close>

definition sha512_S0 :: "uint64 \<Rightarrow> uint64" where "sha512_S0 x = ROTR x 28 XOR ROTR x 34 XOR ROTR x 39"
definition sha512_S1 :: "uint64 \<Rightarrow> uint64" where "sha512_S1 x = ROTR x 14 XOR ROTR x 18 XOR ROTR x 41"
definition sha512_s0 :: "uint64 \<Rightarrow> uint64" where "sha512_s0 x = ROTR x 1 XOR ROTR x 8 XOR SHR x 7"
definition sha512_s1 :: "uint64 \<Rightarrow> uint64" where "sha512_s1 x = ROTR x 19 XOR ROTR x 61 XOR SHR x 6"

definition be64dec :: "data_chunk \<Rightarrow> uint64" where
  "be64dec p = ucast (p ! 7) + push_bit 8 (ucast (p ! 6)) + push_bit 16 (ucast (p ! 5)) + push_bit 24 (ucast (p ! 4)) + push_bit 32 (ucast (p ! 3)) + push_bit 40 (ucast (p ! 2)) + push_bit 48 (ucast (p ! 1)) + push_bit 56 (ucast (p ! 0))"

definition be64enc :: "uint64 \<Rightarrow> data_chunk" where
  "be64enc x = [ucast (drop_bit 56 x), ucast (drop_bit 48 x), ucast (drop_bit 40 x), ucast (drop_bit 32 x), ucast (drop_bit 24 x), ucast (drop_bit 16 x), ucast (drop_bit 8 x), ucast x]"

definition be64dec_vect :: "data_chunk \<Rightarrow> nat \<Rightarrow> uint64 list" where
  "be64dec_vect src n = map (\<lambda>i. be64dec (drop (i * 8) src)) [0..<n div 8]"

definition be64enc_vect :: "uint64 list \<Rightarrow> nat \<Rightarrow> data_chunk" where
  "be64enc_vect src n = concat (map (\<lambda>i. be64enc (src ! i)) [0..<n div 8])"

definition sha512_calls :: "(nat \<times> uint64) list" where
  "sha512_calls =
    [(0, 0x428a2f98d728ae22), (1, 0x7137449123ef65cd), (2, 0xb5c0fbcfec4d3b2f), (3, 0xe9b5dba58189dbbc),
     (4, 0x3956c25bf348b538), (5, 0x59f111f1b605d019), (6, 0x923f82a4af194f9b), (7, 0xab1c5ed5da6d8118),
     (8, 0xd807aa98a3030242), (9, 0x12835b0145706fbe), (10, 0x243185be4ee4b28c), (11, 0x550c7dc3d5ffb4e2),
     (12, 0x72be5d74f27b896f), (13, 0x80deb1fe3b1696b1), (14, 0x9bdc06a725c71235), (15, 0xc19bf174cf692694),
     (16, 0xe49b69c19ef14ad2), (17, 0xefbe4786384f25e3), (18, 0x0fc19dc68b8cd5b5), (19, 0x240ca1cc77ac9c65),
     (20, 0x2de92c6f592b0275), (21, 0x4a7484aa6ea6e483), (22, 0x5cb0a9dcbd41fbd4), (23, 0x76f988da831153b5),
     (24, 0x983e5152ee66dfab), (25, 0xa831c66d2db43210), (26, 0xb00327c898fb213f), (27, 0xbf597fc7beef0ee4),
     (28, 0xc6e00bf33da88fc2), (29, 0xd5a79147930aa725), (30, 0x06ca6351e003826f), (31, 0x142929670a0e6e70),
     (32, 0x27b70a8546d22ffc), (33, 0x2e1b21385c26c926), (34, 0x4d2c6dfc5ac42aed), (35, 0x53380d139d95b3df),
     (36, 0x650a73548baf63de), (37, 0x766a0abb3c77b2a8), (38, 0x81c2c92e47edaee6), (39, 0x92722c851482353b),
     (40, 0xa2bfe8a14cf10364), (41, 0xa81a664bbc423001), (42, 0xc24b8b70d0f89791), (43, 0xc76c51a30654be30),
     (44, 0xd192e819d6ef5218), (45, 0xd69906245565a910), (46, 0xf40e35855771202a), (47, 0x106aa07032bbd1b8),
     (48, 0x19a4c116b8d2d0c8), (49, 0x1e376c085141ab53), (50, 0x2748774cdf8eeb99), (51, 0x34b0bcb5e19b48a8),
     (52, 0x391c0cb3c5c95a63), (53, 0x4ed8aa4ae3418acb), (54, 0x5b9cca4f7763e373), (55, 0x682e6ff3d6b2b8a3),
     (56, 0x748f82ee5defb2fc), (57, 0x78a5636f43172f60), (58, 0x84c87814a1f0ab72), (59, 0x8cc702081a6439ec),
     (60, 0x90befffa23631e28), (61, 0xa4506cebde82bde9), (62, 0xbef9a3f7b2c67915), (63, 0xc67178f2e372532b),
     (64, 0xca273eceea26619c), (65, 0xd186b8c721c0c207), (66, 0xeada7dd6cde0eb1e), (67, 0xf57d4f7fee6ed178),
     (68, 0x06f067aa72176fba), (69, 0x0a637dc5a2c898a6), (70, 0x113f9804bef90dae), (71, 0x1b710b35131c471b),
     (72, 0x28db77f523047d84), (73, 0x32caab7b40c72493), (74, 0x3c9ebe0a15c9bebc), (75, 0x431d67c49c100d4c),
     (76, 0x4cc5d4becb3e42b6), (77, 0x597f299cfc657e2a), (78, 0x5fcb6fab3ad6faec), (79, 0x6c44198c4a475817)]"

definition SHA512Transform :: "uint64 list \<Rightarrow> data_chunk \<Rightarrow> uint64 list" where
  "SHA512Transform state block =
     (let W = sha_extend sha512_s0 sha512_s1 80 (be64dec_vect block 128);
          S = sha_rounds 80 sha512_S0 sha512_S1 sha512_calls W state
      in map (\<lambda>i. state ! i + S ! i) [0..<8])"

record SHA512CTX =
  state512 :: "uint64 list"
  count512_0 :: uint64
  count512_1 :: uint64
  buf512 :: data_chunk

definition SHA512_PAD :: data_chunk where
  "SHA512_PAD = 0x80 # replicate 127 0"

definition sha512_initial :: "uint64 list" where
  "sha512_initial =
     [0x6a09e667f3bcc908, 0xbb67ae8584caa73b, 0x3c6ef372fe94f82b, 0xa54ff53a5f1d36f1,
      0x510e527fade682d1, 0x9b05688c2b3e6c1f, 0x1f83d9abfb41bd6b, 0x5be0cd19137e2179]"

definition SHA512Init :: "SHA512CTX \<Rightarrow> SHA512CTX" where
  "SHA512Init context' = context'\<lparr>count512_0 := 0, count512_1 := 0, state512 := sha512_initial\<rparr>"

definition sha512_waiting :: "SHA512CTX \<Rightarrow> nat" where
  "sha512_waiting context' = unat (drop_bit 3 (count512_1 context') AND 0x7f)"

definition SHA512Update :: "SHA512CTX \<Rightarrow> data_chunk \<Rightarrow> SHA512CTX" where
  "SHA512Update context' input =
     (let r = sha512_waiting context';
          bitlen1 = push_bit 3 (of_nat (length input) :: uint64);
          bitlen0 = of_nat (length input div 2 ^ 61) :: uint64;
          count1 = count512_1 context' + bitlen1;
          count0 = (if count1 < bitlen1 then count512_0 context' + 1 else count512_0 context') + bitlen0;
          (state, buf) = buffer_update 128 SHA512Transform r (state512 context') (buf512 context') input
      in \<lparr>state512 = state, count512_0 = count0, count512_1 = count1, buf512 = buf\<rparr>)"

definition SHA512Pad :: "SHA512CTX \<Rightarrow> SHA512CTX" where
  "SHA512Pad context' =
     (let len = be64enc_vect [count512_0 context', count512_1 context'] 16;
          r = sha512_waiting context';
          plen = (if r < 112 then 112 - r else 240 - r)
      in SHA512Update (SHA512Update context' (take plen SHA512_PAD)) len)"

text \<open>The context is overwritten with zeros once the digest is written.\<close>

definition SHA512_zeroized :: SHA512CTX where
  "SHA512_zeroized = \<lparr>state512 = replicate 8 0, count512_0 = 0, count512_1 = 0, buf512 = replicate 128 0\<rparr>"

definition SHA512Final :: "SHA512CTX \<Rightarrow> data_chunk \<times> SHA512CTX" where
  "SHA512Final context' = (be64enc_vect (state512 (SHA512Pad context')) 64, SHA512_zeroized)"

text \<open>The context of a single call is a local variable whose contents are arbitrary before the initialisation.\<close>

definition SHA512 :: "SHA512CTX \<Rightarrow> data_chunk \<Rightarrow> data_chunk" where
  "SHA512 garbage input = fst (SHA512Final (SHA512Update (SHA512Init garbage) input))"

subsection \<open>Keyed digests\<close>

record HMACSHA512CTX =
  ictx512 :: SHA512CTX
  octx512 :: SHA512CTX

text \<open>The loop that mixes a key into a constant block.\<close>

definition key_pad512 :: "byte \<Rightarrow> data_chunk \<Rightarrow> data_chunk" where
  "key_pad512 b key = foldl (\<lambda>pad i. pad[i := pad ! i XOR key ! i]) (replicate 128 b) [0..<length key]"

definition HMACSHA512Init :: "HMACSHA512CTX \<Rightarrow> data_chunk \<Rightarrow> HMACSHA512CTX" where
  "HMACSHA512Init context' key =
     (let (key, ictx) =
            (if length key > 128 then SHA512Final (SHA512Update (SHA512Init (ictx512 context')) key) else (key, ictx512 context'))
      in context'\<lparr>ictx512 := SHA512Update (SHA512Init ictx) (key_pad512 0x36 key),
                  octx512 := SHA512Update (SHA512Init (octx512 context')) (key_pad512 0x5c key)\<rparr>)"

definition HMACSHA512Update :: "HMACSHA512CTX \<Rightarrow> data_chunk \<Rightarrow> HMACSHA512CTX" where
  "HMACSHA512Update context' input = context'\<lparr>ictx512 := SHA512Update (ictx512 context') input\<rparr>"

definition HMACSHA512Final :: "HMACSHA512CTX \<Rightarrow> data_chunk" where
  "HMACSHA512Final context' =
     (let hash = fst (SHA512Final (ictx512 context')) in fst (SHA512Final (SHA512Update (octx512 context') hash)))"

definition HMACSHA512 :: "HMACSHA512CTX \<Rightarrow> data_chunk \<Rightarrow> data_chunk \<Rightarrow> data_chunk" where
  "HMACSHA512 garbage input key = HMACSHA512Final (HMACSHA512Update (HMACSHA512Init garbage key) input)"

subsection \<open>The standard\<close>

text \<open>
  The digest of the standard: rotations of words, constants from the cube roots and initial words from the square roots of the first
  primes, the compression of its working variables, the padded message cut into blocks.
\<close>

definition std512_S0 :: "uint64 \<Rightarrow> uint64" where "std512_S0 x = word_rotr 28 x XOR word_rotr 34 x XOR word_rotr 39 x"
definition std512_S1 :: "uint64 \<Rightarrow> uint64" where "std512_S1 x = word_rotr 14 x XOR word_rotr 18 x XOR word_rotr 41 x"
definition std512_s0 :: "uint64 \<Rightarrow> uint64" where "std512_s0 x = word_rotr 1 x XOR word_rotr 8 x XOR drop_bit 7 x"
definition std512_s1 :: "uint64 \<Rightarrow> uint64" where "std512_s1 x = word_rotr 19 x XOR word_rotr 61 x XOR drop_bit 6 x"

definition std512_K :: "uint64 list" where "std512_K = map (root_bits 3) first_primes"
definition std512_H :: "uint64 list" where "std512_H = map (root_bits 2) (take 8 first_primes)"

definition sha512_compress :: "uint64 list \<Rightarrow> data_chunk \<Rightarrow> uint64 list" where
  "sha512_compress = std_compress 80 8 std512_s0 std512_s1 std512_S0 std512_S1 std512_K"

definition sha512_standard :: "data_chunk \<Rightarrow> data_chunk" where
  "sha512_standard msg = concat (map (\<lambda>w. be_bytes 8 (unat w))
     (absorbed 128 sha512_compress std512_H (pad_message 128 16 (be_bytes 16) msg)))"

definition hmac512_standard :: "data_chunk \<Rightarrow> data_chunk \<Rightarrow> data_chunk" where
  "hmac512_standard key msg =
     (let k0 = (if length key > 128 then sha512_standard key else key);
          k = k0 @ replicate (128 - length k0) 0
      in sha512_standard (map (\<lambda>b. b XOR 0x5c) k @ sha512_standard (map (\<lambda>b. b XOR 0x36) k @ msg)))"

subsection \<open>The transformation\<close>

lemma sha512_sigmas: "sha512_S0 = std512_S0" "sha512_S1 = std512_S1" "sha512_s0 = std512_s0" "sha512_s1 = std512_s1"
  by (simp_all add: fun_eq_iff sha512_S0_def sha512_S1_def sha512_s0_def sha512_s1_def std512_S0_def std512_S1_def std512_s0_def std512_s1_def
      ROTR_rotates SHR_def)

lemma be64enc_bytes: "be64enc x = be_bytes 8 (unat x)"
  by (simp add: be64enc_def be_bytes_def upt_rec byte_of_word(1))

lemma be64dec_word: "8 \<le> length p \<Longrightarrow> be64dec p = be_word (take 8 p)"
proof -
  assume "8 \<le> length p"
  then obtain a b c d e f g h q where "p = a # b # c # d # e # f # g # h # q" by (auto simp: Suc_le_length_iff eval_nat_numeral)
  then show ?thesis by (simp add: be64dec_def be_word_def push_bit_eq_mult algebra_simps)
qed

lemma be64dec_vect_words: "length block = 128 \<Longrightarrow> be64dec_vect block 128 = map be_word (blocks 8 block)"
  by (simp add: be64dec_vect_def blocks_nth [of block 16 8] be64dec_word)

lemma sha512_numbered: "map fst sha512_calls = [0..<80]"
  by (simp add: sha512_calls_def upt_rec)

text \<open>The constants and the initial words written in the code are those of the standard.\<close>

lemma std512_K_calls: "std512_K = map snd sha512_calls"
  unfolding std512_K_def by (rule roots_eq) (simp add: first_primes_def sha512_calls_def root_checked_def floor_root.simps)

lemma std512_H_initial: "std512_H = sha512_initial"
  unfolding std512_H_def by (rule roots_eq) (simp add: first_primes_def sha512_initial_def root_checked_def floor_root.simps)

lemma SHA512Transform_std:
  assumes "length H = 8" and "length block = 128"
  shows "SHA512Transform H block = sha512_compress H block \<and> length (sha512_compress H block) = 8"
proof -
  let ?M = "map be_word (blocks 8 block) :: uint64 list"
  have M: "length ?M = 16" using assms(2) by (simp add: blocks_def)
  have W: "sha_extend std512_s0 std512_s1 80 ?M = map (std_schedule std512_s0 std512_s1 ?M) [0..<80]" by (rule sha_extend_std [OF M]) simp
  let ?S = "std_rounds 80 std512_S0 std512_S1 (map snd sha512_calls) (std_schedule std512_s0 std512_s1 ?M) H"
  have S: "sha_rounds 80 std512_S0 std512_S1 sha512_calls (map (std_schedule std512_s0 std512_s1 ?M) [0..<80]) H = ?S"
    by (rule sha_rounds_std) (simp_all add: assms(1) sha512_numbered)
  have "length ?S = 8" unfolding S [symmetric] by (simp add: assms(1))
  then obtain s1 s2 s3 s4 s5 s6 s7 s8 where "?S = [s1, s2, s3, s4, s5, s6, s7, s8]" by (rule eight_elements)
  moreover obtain h1 h2 h3 h4 h5 h6 h7 h8 where "H = [h1, h2, h3, h4, h5, h6, h7, h8]" using assms(1) by (rule eight_elements)
  ultimately have "map (\<lambda>i. H ! i + ?S ! i) [0..<8] = map2 (+) H ?S" "length (map2 (+) H ?S) = 8" by (simp_all add: upt_rec)
  then show ?thesis
    by (simp add: SHA512Transform_def sha512_compress_def std512_K_calls std_compress_def sha512_sigmas be64dec_vect_words [OF assms(2)] W S Let_def)
qed

subsection \<open>The context\<close>

definition bits512 :: "SHA512CTX \<Rightarrow> nat" where
  "bits512 c = unat (count512_0 c) * 2 ^ 64 + unat (count512_1 c)"

lemma sha512_waits: "sha512_waiting c = bits512 c div 8 mod 128"
proof -
  have "unat (drop_bit 3 x AND 0x7f) = unat x div 8 mod 128" for x :: uint64
  proof -
    have "(0x7f :: uint64) = mask 7" by (simp add: mask_eq_exp_minus_1)
    then have "drop_bit 3 x AND 0x7f = take_bit 7 (drop_bit 3 x)" by (simp only: take_bit_eq_mask)
    moreover have "unat (take_bit 7 (drop_bit 3 x)) = take_bit 7 (drop_bit 3 (unat x))"
      by (simp only: unsigned_take_bit_eq unat_drop_bit_eq)
    ultimately show ?thesis by (simp add: take_bit_eq_mod drop_bit_eq_div)
  qed
  moreover have "(a * 2 ^ 64 + b) div 8 mod 128 = b div 8 mod 128" for a b :: nat
  proof -
    have "(a * 2 ^ 64 + b) div 8 = a * 2 ^ 54 * 128 + b div 8" by simp
    then show ?thesis by (simp only: mod_mult_self3)
  qed
  ultimately show ?thesis by (simp only: sha512_waiting_def bits512_def)
qed

lemma be64enc_pair: "be64enc_vect [c0, c1] 16 = be_bytes 16 (unat c0 * 2 ^ 64 + unat c1)"
proof -
  have "unat c1 < 256 ^ 8" using unat_bound [of c1] by simp
  from be_bytes_append [OF this, of 8 "unat c0"] show ?thesis
    by (simp add: be64enc_vect_def be64enc_bytes upt_rec)
qed

interpretation sha512: finished_digest 128 "2 ^ 64 * 2 ^ 64" SHA512Transform sha512_initial state512 bits512 buf512 SHA512Update
  16 "be_bytes 16" "\<lambda>s. be64enc_vect s 64" SHA512Init SHA512Final
proof unfold_locales
  show "bits512 (SHA512Update c x) = (bits512 c + 8 * length x) mod (2 ^ 64 * 2 ^ 64)" for c x
    using count_update [of 61 "push_bit 3 (of_nat (length x))" "length x" "of_nat (length x div 2 ^ 61)" "count512_1 c" "count512_0 c"]
    by (simp only: bits512_def SHA512Update_def Let_def split_beta SHA512CTX.select_convs) simp
  show "buffer_update 128 SHA512Transform (bits512 c div 8 mod 128) (state512 c) (buf512 c) x = (state512 (SHA512Update c x), buf512 (SHA512Update c x))" for c x
    by (simp add: SHA512Update_def Let_def split_beta sha512_waits)
  show "be_bytes 16 (b mod (2 ^ 64 * 2 ^ 64)) = be_bytes 16 b" for b
    using be_bytes_mod [of 16 b] by simp
  show "fst (SHA512Final c) = be64enc_vect (state512 (SHA512Update (SHA512Update c (take (pad_length 128 16 (bits512 c div 8 mod 128)) (0x80 # replicate (128 - 1) 0)))
      (be_bytes 16 (bits512 c)))) 64" for c
    by (simp add: SHA512Final_def SHA512Pad_def Let_def be64enc_pair sha512_waits SHA512_PAD_def pad_length_def bits512_def)
qed (simp_all add: SHA512Init_def SHA512Final_def SHA512_zeroized_def bits512_def)

lemma sha512_absorbed:
  "absorbed 128 SHA512Transform sha512_initial m = absorbed 128 sha512_compress sha512_initial m \<and>
   length (absorbed 128 sha512_compress sha512_initial m) = 8"
proof
  have init: "length sha512_initial = 8" by (simp add: sha512_initial_def)
  show "absorbed 128 SHA512Transform sha512_initial m = absorbed 128 sha512_compress sha512_initial m"
    by (rule absorbed_cong [where P = "\<lambda>H. length H = 8"]) (simp_all add: SHA512Transform_std init)
  have "length (absorbed 128 SHA512Transform s m) = 8" if "length s = 8" for s
    unfolding absorbed_def by (rule foldl_keeps) (simp_all add: that SHA512Transform_def)
  then show "length (absorbed 128 sha512_compress sha512_initial m) = 8"
    using init \<open>absorbed 128 SHA512Transform sha512_initial m = absorbed 128 sha512_compress sha512_initial m\<close> by metis
qed

lemma sha512_digest: "sha512.digest msg = sha512_standard msg"
proof -
  have "be64enc_vect s 64 = concat (map (\<lambda>w. be_bytes 8 (unat w)) s)" if "length s = 8" for s
    by (rule eight_elements [OF that]) (simp add: be64enc_vect_def be64enc_bytes upt_rec)
  then show ?thesis by (simp add: sha512.digest_def sha512_standard_def std512_H_initial sha512_absorbed)
qed

text \<open>
  However a message is cut into pieces, the context gives the digest that the standard defines for the whole of it.
\<close>

theorem sha512_exact:
  assumes "length (buf512 garbage) = 128"
  shows "fst (SHA512Final (foldl SHA512Update (SHA512Init garbage) pieces)) = sha512_standard (concat pieces)"
  using sha512.updates_exact [OF assms] by (simp add: sha512_digest)

theorem sha512_exact_witness:
  "fst (SHA512Final (foldl SHA512Update (SHA512Init SHA512_zeroized) [[97], [98, 99]])) = sha512_standard [97, 98, 99]"
  using sha512_exact [of SHA512_zeroized "[[97], [98, 99]]"] by (simp add: SHA512_zeroized_def)

lemma length_sha512_standard [simp]: "length (sha512_standard msg) = 64"
proof -
  have "length (concat (map (\<lambda>w. be_bytes 8 (unat w)) s)) = 64" if "length s = 8" for s :: "uint64 list"
    by (rule eight_elements [OF that]) simp
  then show ?thesis by (simp add: sha512_standard_def std512_H_initial sha512_absorbed)
qed

lemma SHA512_standard:
  assumes "length (buf512 garbage) = 128"
  shows "SHA512 garbage input = sha512_standard input"
  using sha512.updates_exact [OF assms, of "[input]"] by (simp add: SHA512_def sha512_digest)

lemma key_pad512_std:
  assumes "length key \<le> 128"
  shows "key_pad512 b key = map (\<lambda>k. k XOR b) (key @ replicate (128 - length key) 0)"
  unfolding key_pad512_def using xor_loop [of key "replicate 128 b"] assms
  by (intro nth_equalityI) (auto simp: nth_append ac_simps)

lemma hmac512_exact_arrays:
  assumes "length (buf512 (ictx512 garbage)) = 128" and "length (buf512 (octx512 garbage)) = 128"
  shows "HMACSHA512 garbage input key = hmac512_standard key input"
proof -
  define k0 where "k0 = (if length key > 128 then sha512_standard key else key)"
  have k0: "length k0 \<le> 128" by (simp add: k0_def)
  define ictx where "ictx = (if length key > 128 then SHA512_zeroized else ictx512 garbage)"
  have ictx: "length (buf512 ictx) = 128" by (simp add: ictx_def SHA512_zeroized_def assms(1))
  have "fst (SHA512Final (SHA512Update (SHA512Init (ictx512 garbage)) key)) = sha512_standard key"
    using sha512.updates_exact [OF assms(1), of "[key]"] by (simp add: sha512_digest)
  then have key: "(if length key > 128 then SHA512Final (SHA512Update (SHA512Init (ictx512 garbage)) key) else (key, ictx512 garbage)) = (k0, ictx)"
    by (simp add: k0_def ictx_def SHA512Final_def)
  show ?thesis
    using sha512.pair_exact [OF ictx, of "key_pad512 0x36 k0" input] sha512.pair_exact [OF assms(2), of "key_pad512 0x5c k0"]
    by (simp add: HMACSHA512_def HMACSHA512Init_def key HMACSHA512Update_def HMACSHA512Final_def Let_def sha512_digest
        key_pad512_std [OF k0] hmac512_standard_def k0_def [symmetric])
qed

text \<open>The keyed digest is the one of its standard, for keys of any length.\<close>

theorem hmac512_exact:
  assumes "length (buf512 (ictx512 garbage)) = 128" and "length (buf512 (octx512 garbage)) = 128"
  shows "HMACSHA512 garbage input key = hmac512_standard key input"
  using assms by (rule hmac512_exact_arrays)

theorem hmac512_exact_witness:
  "HMACSHA512 \<lparr>ictx512 = SHA512_zeroized, octx512 = SHA512_zeroized\<rparr> [97] [98] = hmac512_standard [98] [97]"
  by (rule hmac512_exact) (simp_all add: SHA512_zeroized_def)

end
