(* ===== verification/Pbkdf2.thy ===== *)
theory Pbkdf2
  imports Sha256 Sha512
begin

unbundle bit_operations_syntax

text \<open>
  The derivation of keys from passphrases (\<^verbatim>\<open>src/math/external/pkcs5_pbkdf2.c\<close>) over the keyed digest, and the functions of
  \<^verbatim>\<open>src/math/hash.cpp\<close> that call the digests on contexts of their own.  Allocation is taken to succeed; the result
  \<open>None\<close> is the refusal of a salt whose size has no room for the block number.
\<close>

subsection \<open>The code\<close>

fun mix_iterations :: "HMACSHA512CTX \<Rightarrow> data_chunk \<Rightarrow> nat \<Rightarrow> data_chunk \<Rightarrow> data_chunk \<Rightarrow> data_chunk" where
  "mix_iterations g passphrase 0 digest1 buffer = buffer"
| "mix_iterations g passphrase (Suc n) digest1 buffer =
     (let digest2 = HMACSHA512 g digest1 passphrase in mix_iterations g passphrase n digest2 (map2 (XOR) buffer digest2))"

function pbkdf2_loop :: "HMACSHA512CTX \<Rightarrow> data_chunk \<Rightarrow> data_chunk \<Rightarrow> nat \<Rightarrow> nat \<Rightarrow> nat \<Rightarrow> data_chunk" where
  "pbkdf2_loop g passphrase salt iterations count key_length =
     (if key_length = 0 then []
      else
        (let asalt = salt @ [of_nat (count div 2 ^ 24), of_nat (count div 2 ^ 16), of_nat (count div 2 ^ 8), of_nat count];
             digest1 = HMACSHA512 g asalt passphrase;
             buffer = mix_iterations g passphrase (iterations - 1) digest1 digest1;
             n = (if key_length < 64 then key_length else 64)
         in take n buffer @ pbkdf2_loop g passphrase salt iterations (count + 1) (key_length - n)))"
  by pat_completeness auto
termination by (relation "measure (\<lambda>(g, p, s, i, c, n). n)") auto

declare pbkdf2_loop.simps [simp del]

definition pkcs5_pbkdf2 :: "HMACSHA512CTX \<Rightarrow> data_chunk \<Rightarrow> data_chunk \<Rightarrow> nat \<Rightarrow> nat \<Rightarrow> data_chunk option" where
  "pkcs5_pbkdf2 g passphrase salt key_length iterations =
     (if length salt > max_size_t - 4 then None else Some (pbkdf2_loop g passphrase salt iterations 1 key_length))"

definition pkcs5_pbkdf2_hmac_sha512 :: "HMACSHA512CTX \<Rightarrow> data_chunk \<Rightarrow> data_chunk \<Rightarrow> nat \<Rightarrow> data_chunk option" where
  "pkcs5_pbkdf2_hmac_sha512 g passphrase salt iterations = pkcs5_pbkdf2 g passphrase salt 64 iterations"

definition sha256_hash_pair :: "SHA256CTX \<Rightarrow> data_chunk \<Rightarrow> data_chunk \<Rightarrow> data_chunk" where
  "sha256_hash_pair g first second = fst (SHA256Final (SHA256Update (SHA256Update (SHA256Init g) first) second))"

subsection \<open>The standard\<close>

text \<open>
  Block \<open>i\<close> of the key is the sum of the iterates of the keyed digest, from the one of the salt and the four bytes of \<open>i\<close>; the
  key starts the concatenation of the blocks.  The standard refuses a key of more blocks than four bytes number, and its
  count of iterations is positive.
\<close>

definition std_iterate :: "data_chunk \<Rightarrow> data_chunk \<Rightarrow> nat \<Rightarrow> nat \<Rightarrow> data_chunk" where
  "std_iterate passphrase salt i j = (hmac512_standard passphrase ^^ Suc j) (salt @ be_bytes 4 i)"

definition std_block :: "data_chunk \<Rightarrow> data_chunk \<Rightarrow> nat \<Rightarrow> nat \<Rightarrow> data_chunk" where
  "std_block passphrase salt iterations i =
     foldl (map2 (XOR)) (std_iterate passphrase salt i 0) (map (std_iterate passphrase salt i) [1..<iterations])"

definition pbkdf2_standard :: "data_chunk \<Rightarrow> data_chunk \<Rightarrow> nat \<Rightarrow> nat \<Rightarrow> data_chunk option" where
  "pbkdf2_standard passphrase salt key_length iterations =
     (if iterations = 0 \<or> key_length > (2 ^ 32 - 1) * 64 then None
      else Some (take key_length (concat (map (std_block passphrase salt iterations) [1..<1 + (key_length + 63) div 64]))))"

subsection \<open>Agreement\<close>

abbreviation arrays :: "HMACSHA512CTX \<Rightarrow> bool" where
  "arrays g \<equiv> length (buf512 (ictx512 g)) = 128 \<and> length (buf512 (octx512 g)) = 128"

lemma hmac512_of: "arrays g \<Longrightarrow> HMACSHA512 g input key = hmac512_standard key input"
  by (rule hmac512_exact_arrays) auto

lemma mix_std:
  assumes "arrays g"
  shows "mix_iterations g p n d b = foldl (map2 (XOR)) b (map (\<lambda>j. (hmac512_standard p ^^ j) d) [1..<Suc n])"
proof (induction n arbitrary: d b)
  case (Suc n)
  have "[1..<Suc (Suc n)] = 1 # map Suc [1..<Suc n]" by (simp add: upt_conv_Cons map_Suc_upt del: upt_Suc)
  moreover have "(hmac512_standard p ^^ j) (hmac512_standard p d) = (hmac512_standard p ^^ Suc j) d" for j
    by (simp add: funpow_swap1)
  ultimately show ?case by (simp add: Suc.IH hmac512_of [OF assms] Let_def comp_def del: upt_Suc funpow.simps(2)) simp
qed simp

lemma length_hmac512 [simp]: "length (hmac512_standard key msg) = 64"
  by (simp add: hmac512_standard_def Let_def)

lemma block_std:
  assumes "arrays g"
  shows "mix_iterations g p (c - 1) (HMACSHA512 g (s @ be_bytes 4 i) p) (HMACSHA512 g (s @ be_bytes 4 i) p) = std_block p s c i"
    and "length (std_block p s c i) = 64"
proof -
  have "(hmac512_standard p ^^ j) (hmac512_standard p x) = (hmac512_standard p ^^ Suc j) x" for j x by (simp add: funpow_swap1)
  then have "map (\<lambda>j. (hmac512_standard p ^^ j) (hmac512_standard p (s @ be_bytes 4 i))) [1..<Suc (c - 1)] = map (std_iterate p s i) [1..<c]"
    by (cases c) (simp_all add: std_iterate_def del: funpow.simps(2))
  then show "mix_iterations g p (c - 1) (HMACSHA512 g (s @ be_bytes 4 i) p) (HMACSHA512 g (s @ be_bytes 4 i) p) = std_block p s c i"
    unfolding mix_std [OF assms] hmac512_of [OF assms] std_block_def by (simp add: std_iterate_def del: upt_Suc)
  have "length (foldl (map2 (XOR)) b (map (std_iterate p s i) js)) = 64" if "length b = 64" for b :: data_chunk and js
    using that by (induction js arbitrary: b) (simp_all add: std_iterate_def)
  then show "length (std_block p s c i) = 64" by (simp add: std_block_def std_iterate_def)
qed

lemma pbkdf2_loop_std:
  assumes "arrays g"
  shows "pbkdf2_loop g p s c i n = take n (concat (map (std_block p s c) [i..<i + (n + 63) div 64]))"
proof (induction n arbitrary: i rule: less_induct)
  case (less n)
  have number: "[of_nat (i div 2 ^ 24), of_nat (i div 2 ^ 16), of_nat (i div 2 ^ 8), of_nat i] = be_bytes 4 i"
    by (simp add: be_bytes_def upt_rec)
  note block = block_std(1) [OF assms, of p c s i]
  show ?case
  proof (cases "n = 0")
    case True
    then show ?thesis by (simp add: pbkdf2_loop.simps)
  next
    case False
    let ?n = "if n < 64 then n else 64"
    have "i + (n + 63) div 64 = Suc i + (n - ?n + 63) div 64" using False by (auto simp: div_if)
    then have "[i..<i + (n + 63) div 64] = i # [Suc i..<Suc i + (n - ?n + 63) div 64]" by (simp add: upt_conv_Cons del: upt_Suc)
    moreover have "pbkdf2_loop g p s c i n = take ?n (std_block p s c i) @ pbkdf2_loop g p s c (Suc i) (n - ?n)"
      using False by (subst pbkdf2_loop.simps) (simp only: number block Let_def if_False Suc_eq_plus1)
    ultimately show ?thesis
      using False less.IH [of "n - ?n" "Suc i"] block_std(2) [OF assms, of p s c i] by (simp del: upt_Suc)
  qed
qed

text \<open>
  C40. The key that pkcs5_pbkdf2 derives from a passphrase over the HMAC of SHA-512 is the
  one of its standard wherever the standard defines one: for a positive number of iterations
  and a key of at most (2^32 - 1) * 64 bytes, and for a salt that leaves room for four bytes
  in the address space. The code answers the other cases too, which the standard refuses.
\<close>

theorem pbkdf2_exact:
  assumes "length (buf512 (ictx512 g)) = 128" and "length (buf512 (octx512 g)) = 128" and "length salt \<le> max_size_t - 4"
    and "0 < iterations" and "key_length \<le> (2 ^ 32 - 1) * 64"
  shows "pkcs5_pbkdf2 g passphrase salt key_length iterations = pbkdf2_standard passphrase salt key_length iterations"
  using assms pbkdf2_loop_std [of g passphrase salt iterations 1 key_length] by (simp add: pkcs5_pbkdf2_def pbkdf2_standard_def)

theorem pbkdf2_exact_witness:
  "pkcs5_pbkdf2 \<lparr>ictx512 = SHA512_zeroized, octx512 = SHA512_zeroized\<rparr> [112] [115] 64 2048 = pbkdf2_standard [112] [115] 64 2048"
  by (rule pbkdf2_exact) (simp_all add: SHA512_zeroized_def max_size_t_def)

text \<open>
  What the standard refuses the code computes: no iteration counts as one, and past the last number of four bytes the blocks of
  the key repeat.
\<close>

lemma no_iterations_counts_as_one: "pkcs5_pbkdf2 g passphrase salt key_length 0 = pkcs5_pbkdf2 g passphrase salt key_length 1"
proof -
  have "pbkdf2_loop g passphrase salt 0 i n = pbkdf2_loop g passphrase salt 1 i n" for i n
    by (induction n arbitrary: i rule: less_induct) (subst (1 2) pbkdf2_loop.simps, simp add: Let_def)
  then show ?thesis by (simp add: pkcs5_pbkdf2_def)
qed

lemma long_keys_repeat: "std_block passphrase salt c (i + 2 ^ 32) = std_block passphrase salt c i"
proof -
  have "be_bytes 4 (i + 2 ^ 32) = be_bytes 4 i"
    using be_bytes_mod [of 4 "i + 256 ^ 4"] be_bytes_mod [of 4 i] by (simp del: be_bytes_mod)
  then have "std_iterate passphrase salt (i + 2 ^ 32) = std_iterate passphrase salt i"
    unfolding std_iterate_def fun_eq_iff by simp
  then show ?thesis unfolding std_block_def by simp
qed

lemma sha256_pair_std:
  "length (buf256 g) = 64 \<Longrightarrow> sha256_hash_pair g first second = sha256_standard (first @ second)"
  using sha256.pair_exact by (simp add: sha256_hash_pair_def sha256_digest)

text \<open>The digest of the code meets the sizes that the rest of the development asks of the digests.\<close>

lemma sha256_code_sizes:
  "digest_sizes H \<Longrightarrow> length (buf256 g) = 64 \<Longrightarrow> digest_sizes (H\<lparr>sha256_hash := SHA256 g\<rparr>)"
  by (simp add: digest_sizes_def SHA256_standard)

end
