(* ===== verification/Spec2Isabelle.thy ===== *)
theory Spec2Isabelle
  imports Protocol Base85 Hd_Keys Select_Outputs Keoken Encrypted_Keys Word_List Signed_Message Coordination Uri Serializer Pbkdf2
begin

text \<open>
  A verification of bitprim-core, the C++ library of bitcoin data structures, script evaluation, consensus rules,
  peer messages and wallet formats.  Paths below are relative to \<^verbatim>\<open>src/\<close>; \<open>include/\<close> abbreviates
  \<^verbatim>\<open>include/bitcoin/bitcoin/\<close>.

  \<^bold>\<open>The program and its parts.\<close>  Bytes enter through the stream reader and leave through the stream writer.  On
  them rest the chain types, each with a wire form, sizes and caches: points, outputs, witnesses, inputs,
  transactions, headers and blocks.  Scripts are bytes that parse to operations; the interpreter runs them in a
  program (two stacks, conditions, counters) and asks the signing code for signature hashes.  A chain state holds
  what a block is validated against (forks, median time, work, checkpoints), and \<^verbatim>\<open>check\<close>, \<^verbatim>\<open>accept\<close> and \<^verbatim>\<open>connect\<close> of
  transactions and blocks combine all of it.  The messages of the peer protocol carry the chain types in frames with a
  checksum.  The wallet turns keys, hashes and scripts into text and back.

  \<^bold>\<open>Conventions.\<close>  Integers keep their width as words, so additions wrap where the code's do; sizes are natural
  numbers bounded where the code bounds them.  A class is a record, its operations are functions from record to
  record, a mutating method returns the changed record, a factory that fails returns what the code leaves behind.
  A reader is a state monad over the stream with its eof and fail bits.  Undefined behaviour and exceptions are
  \<open>None\<close> (or a constructor of their own).  The compile-time currency (\<^verbatim>\<open>BITPRIM_CURRENCY_\<dots>\<close>) is the argument \<open>cur\<close>.
  Code that is not part of the repository or vendored is an argument: the digests (\<open>hash_functions\<close>, \<open>hmac\<close>), the
  curve library (\<open>curve_functions\<close> for signatures, \<open>secp256k1\<close> for key arithmetic), boost's text
  algorithms (\<open>text_library\<close>, \<open>trim_right\<close>).  What the proofs use of them is stated as \<open>digest_sizes\<close>,
  \<open>curve_laws\<close>, \<open>text_laws\<close>, \<open>trims_right\<close>, and each has an instance for which it is proved.

  \<^bold>\<open>Foundations.\<close>
  \<^item> \<open>Prelude\<close>: machine types, rule collections, facts on words and lists.
  \<^item> \<open>Wire\<close> (\<^verbatim>\<open>src/utility/istream_reader.cpp\<close>, \<^verbatim>\<open>ostream_writer.cpp\<close>): streams, endian and variable integers.  The
    locale \<open>codec\<close> states that reading undoes writing whatever follows; \<open>lossless_codec\<close> adds the other direction.
    Every serializable type below interprets one of them, and the list lemmas of the locale carry its containers.
  \<^item> \<open>Constants\<close>, \<open>Error\<close>, \<open>Checkpoint\<close>, \<open>Hash\<close>, \<open>Checksum\<close>, \<open>Sip_Hash\<close>, \<open>Compact\<close>, \<open>Number\<close>: consensus constants and
    forks, error codes, checkpoints and network parameters, digests composed, the checksum of framed payloads
    (unwrapping accepts exactly the wrapped), the short hash (unrolled and incremental forms agree), compact targets
    (rounding down, exact reading), script numbers (round trip, bounds).

  \<^bold>\<open>Chain types.\<close>
  \<^item> \<open>Point\<close>, \<open>Output\<close>, \<open>Witness\<close>, \<open>Input\<close>, \<open>Operation\<close>, \<open>Script\<close> (\<^verbatim>\<open>src/chain/\<close>, \<^verbatim>\<open>src/machine/operation.cpp\<close>): wire and
    store forms, the byte iterator of points, parsing of scripts (lossless), pattern tests and constructors.
  \<^item> \<open>Header\<close>, \<open>Chain_State\<close>: headers with the cached hash, proof of work as a quotient, fork activation, median time,
    retargeting and its bounds, the promotion of states.  The states reachable from a populated one satisfy an
    invariant (by rule induction), for which no promotion fails.
  \<^item> \<open>Transaction\<close>, \<open>Block\<close>: records with their caches, serialization, sizes, the merkle tree, fees, claims, subsidy,
    ordering rules, \<^verbatim>\<open>check\<close> and \<^verbatim>\<open>accept\<close>.  Shown: round trips, exact double spend and forward reference tests, that
    accepted transactions and blocks create no money, that the merkle root commits to the transactions up to a
    collision, the locator heights.  The results on money and on the root are for transactions without stale caches
    (\<open>totals_current\<close>, \<open>hash_current\<close>): reading, in-place population before the totals are read and the steps of \<open>tx_step\<close>
    give such transactions, and \<open>assigned_transaction_overspends\<close> shows one that \<^verbatim>\<open>operator=\<close> leaves without.
    \<open>locator_loop\<close> takes fuel; 75 steps are given and \<open>locator_heights_total\<close> shows that they suffice for every 64-bit height.

  \<^bold>\<open>Scripts.\<close>
  \<^item> \<open>Program\<close>, \<open>Signing\<close>, \<open>Interpreter\<close> (\<^verbatim>\<open>include/impl/machine/*.ipp\<close>, \<^verbatim>\<open>src/machine/interpreter.cpp\<close>,
    \<^verbatim>\<open>src/chain/script.cpp\<close>): the evaluation state, signature hashes of both versions, deletion of endorsements from the
    script bytes, and one function per operation with the dispatch and the run loop, which recurses over the operations.
  \<^item> \<open>Evaluation\<close>: the locales \<open>data_invariant\<close> and \<open>program_invariant\<close> state what each stack primitive keeps; their
    interpretations give invariants of whole runs (condition counter, transaction inputs, jump register) and with them the
    limits of successful runs, the locktime operations, multisig in order, arithmetic as integers.
  \<^item> \<open>Verify\<close>: \<^verbatim>\<open>script::verify\<close>, \<^verbatim>\<open>witness::verify\<close> and \<^verbatim>\<open>transaction::connect\<close>.  Spending a key hash needs a signature and
    works with the endorsement the library makes; spending a script hash needs the script.
  \<^item> \<open>Mnemonic\<close> (\<^verbatim>\<open>src/machine/opcode.cpp\<close>, text parts of operations, scripts and witnesses): printed scripts read back.

  \<^bold>\<open>Peer protocol.\<close>  \<open>Message\<close>, \<open>Inventory\<close>, \<open>Handshake\<close>, \<open>Relay\<close> (\<^verbatim>\<open>src/message/\<close>) model the payloads by protocol
  version, each an interpretation of \<open>message_codec\<close> or \<open>sized_codec\<close> (the announced size is the length written).
  \<open>Protocol\<close> is their union: what \<^verbatim>\<open>serialize\<close> frames is selected by the heading and read back.

  \<^bold>\<open>Text and wallet.\<close>
  \<^item> \<open>Formats\<close>, \<open>Base58\<close>, \<open>Base64\<close>, \<open>Base85\<close> (\<^verbatim>\<open>src/formats/\<close>): encodings over the work arrays of the code, their round
    trips, base 58 as a bijection with the texts over its alphabet.
  \<^item> \<open>Binary\<close> (\<^verbatim>\<open>src/utility/binary.cpp\<close>): packed bit strings.  The locale \<open>bit_strings\<close> is the contract over lists of bits,
    the interpretation \<open>packed\<close> discharges it for the bytes with the excess count.
  \<^item> \<open>Cashaddr\<close>, \<open>Payment_Address\<close> (\<^verbatim>\<open>src/wallet/cashaddr.cpp\<close>, \<^verbatim>\<open>payment_address.cpp\<close>): the checksum polynomial and the errors it
    detects, both text forms of addresses, the addresses of scripts.
  \<^item> \<open>Keys\<close>, \<open>Hd_Keys\<close> (\<^verbatim>\<open>src/math/elliptic_curve.cpp\<close>, \<^verbatim>\<open>src/wallet/ec_*.cpp\<close>, \<^verbatim>\<open>hd_*.cpp\<close>): keys and their text, extended
    keys whose two derivations agree.
  \<^item> \<open>Select_Outputs\<close> (\<^verbatim>\<open>src/wallet/select_outputs.cpp\<close>): the selection of outputs to spend, for every partition and sort that
    meet the laws of the standard algorithms; the greedy choice takes the fewest outputs that suffice.
  \<^item> \<open>Stealth\<close> (\<^verbatim>\<open>src/math/stealth.cpp\<close>, \<^verbatim>\<open>src/wallet/stealth_*.cpp\<close>): ephemeral keys, the mining of a filter into the hash of a
    script, stealth addresses, sender and receiver.  The mining loop runs over all nonces but the starting one and ends
    by the measure of the nonces left; a receiver finds the payment made to it and derives the secret of its key.
  \<^item> \<open>Config_Text\<close> (\<^verbatim>\<open>src/config/\<close> hashes, points, inputs, outputs, scripts): text of the command line and back.
  \<^item> \<open>Wallet_Transaction\<close> (\<^verbatim>\<open>src/wallet/transaction_functions.cpp\<close>): building a transaction, signing an input and setting its
    script.  What is built pays what was asked, and an input signed and set this way passes \<^verbatim>\<open>script::verify\<close>: the lemmas of
    \<open>Keys\<close>, \<open>Mnemonic\<close>, \<open>Signing\<close> and \<open>Verify\<close> meet here.
  \<^item> \<open>Keoken\<close> (\<^verbatim>\<open>src/bitprim/keoken/\<close>): token messages, the outputs that carry them and the transactions that create them; the
    extractor finds the message in what the wallet builds.
  \<^item> \<open>Encrypted_Keys\<close> (\<^verbatim>\<open>src/wallet/encrypted_keys.cpp\<close>, \<^verbatim>\<open>parse_encrypted_keys/\<close>, \<^verbatim>\<open>ek_*.cpp\<close>): the encryption of secrets by a passphrase, tokens
    and the key pairs made of them.  The cipher and the key derivation are the record \<open>cipher\<close>; what is encrypted decrypts, and what a
    token holder makes, the owner of the passphrase decrypts.
  \<^item> \<open>Word_List\<close> (\<^verbatim>\<open>src/wallet/mnemonic.cpp\<close>): mnemonic words; validation accepts exactly what creation makes.
  \<^item> \<open>Signed_Message\<close> (\<^verbatim>\<open>src/wallet/message.cpp\<close>, \<^verbatim>\<open>mini_keys.cpp\<close>): signed messages are verified for the address of the key.
  \<^item> \<open>Uri\<close> (\<^verbatim>\<open>src/wallet/uri.cpp\<close>, \<^verbatim>\<open>bitcoin_uri.cpp\<close>): identifiers, lossless in both directions, and the bitcoin identifiers.

  \<^bold>\<open>Memory.\<close>  \<open>Serializer\<close> (\<^verbatim>\<open>include/impl/utility/deserializer.ipp\<close>, \<^verbatim>\<open>serializer.ipp\<close>) models the reader and the writer over
  iterators; the relation \<open>agrees\<close> and its rules show that the checked reader does what the stream reader of \<open>Wire\<close> does, and
  the writer puts into memory what the stream writer appends.

  \<^bold>\<open>Digests.\<close>  \<open>Streaming\<close>, \<open>Sha2\<close>, \<open>Sha256\<close>, \<open>Sha512\<close>, \<open>Pbkdf2\<close> (\<^verbatim>\<open>src/math/external/sha256.c\<close>, \<^verbatim>\<open>sha512.c\<close>, \<^verbatim>\<open>hmac_*.c\<close>, \<^verbatim>\<open>pkcs5_pbkdf2.c\<close>)
  model the SHA-2 digests with their contexts.  The locales \<open>digest_context\<close> and \<open>finished_digest\<close> are the contract of a context
  that is fed in pieces; both digests interpret them, and the digests, their keyed forms and the derivation of keys are those of the
  standards, for keys wherever the standard defines one.  The constants of the standards are computed from the roots of primes, and
  those written in the code are shown equal to them.  Elsewhere the digests stay arguments; the code of SHA-256 is one that meets what is asked of them.

  \<^bold>\<open>Threads.\<close>  \<open>Coordination\<close> (\<^verbatim>\<open>src/utility/sequencer.cpp\<close>, \<^verbatim>\<open>include/impl/utility/subscriber.ipp\<close>, \<^verbatim>\<open>resubscriber.ipp\<close>, \<^verbatim>\<open>pending.ipp\<close>,
  \<^verbatim>\<open>synchronizer.hpp\<close>) models the classes that order the work of threads as step relations: a critical section is one step, and the
  steps of all threads interleave freely.  The locale \<open>state_machine\<close> carries an invariant to all reachable states; its
  interpretations show that handlers run one at a time and in order, and that each is notified once.

  \<^bold>\<open>Not modelled.\<close>  Logging, configuration parsing, console and file streams, thread pools and timers are I/O or wrappers
  of boost and the standard library; the mutexes around caches are left out, so every operation is taken as atomic.  The
  other vendored code (RIPEMD-160, SHA-1, AES, scrypt) and the curve library are arguments.  The literal genesis blocks, the word dictionaries and
  the tables of error texts are data.  The codes drawn by the
  vendored QR library are not modelled.  Overloads that only change
  the argument type (chunks, streams, moved values), accessors and setters that assign one field have no definition of
  their own where the record operation is the same.
\<close>

end
